(* ===== verification/Prelude.thy ===== *)
theory Prelude
  imports Main "HOL-Library.Word" "HOL-Library.Monad_Syntax" "HOL-Library.Multiset"
begin

text \<open>
  What the components share. C strings are \<open>string\<close> values without their terminating NUL
  (\<open>at0\<close>, \<open>hd0\<close> and \<open>peek\<close> read the NUL at the end); a pointer that walks through a string
  is the suffix it points at. Undefined behaviour of the C code (a read or write outside an
  array, signed overflow) is the value \<^term>\<open>None\<close> of an \<open>option\<close>, so every definition that can
  run into it has an \<open>option\<close> result and is written with the \<open>do\<close> notation of the option monad.
  Arrays of the code are lists read and written through the checked operations \<open>aget\<close> and
  \<open>aset\<close>; the two loops that shift array elements are the definitions \<open>loop_up\<close> and
  \<open>loop_down\<close>, with closed forms proved once here.
\<close>

named_theorems cstr "reading C strings and characters"
named_theorems arr "checked arrays and the shifting loops"

section \<open>Characters and C strings\<close>

abbreviation NUL :: char where "NUL \<equiv> CHR 0x00"

abbreviation INT_MAX :: int where "INT_MAX \<equiv> 2147483647"

definition code :: "char \<Rightarrow> nat" where
  "code c = of_char c"

definition isdigit :: "char \<Rightarrow> bool" where
  "isdigit c \<longleftrightarrow> 48 \<le> code c \<and> code c \<le> 57"

definition isspace :: "char \<Rightarrow> bool" where
  "isspace c \<longleftrightarrow> code c = 32 \<or> (9 \<le> code c \<and> code c \<le> 13)"

definition islower :: "char \<Rightarrow> bool" where
  "islower c \<longleftrightarrow> 97 \<le> code c \<and> code c \<le> 122"

definition digit_val :: "char \<Rightarrow> int" where
  "digit_val c = int (code c) - 48"

text \<open>The character at an index of a C string: the NUL terminator at and past the end. It is
  used where the code's guards keep the index inside the string.\<close>

definition at0 :: "string \<Rightarrow> int \<Rightarrow> char" where
  "at0 s i = (if 0 \<le> i \<and> i < int (length s) then s ! nat i else NUL)"

text \<open>The same read, checked: reading before the string or past its terminator is undefined.\<close>

definition cstr_at :: "string \<Rightarrow> int \<Rightarrow> char option" where
  "cstr_at s i =
     (if 0 \<le> i \<and> i < int (length s) then Some (s ! nat i)
      else if i = int (length s) then Some NUL else None)"

definition hd0 :: "string \<Rightarrow> char" where
  "hd0 p = (case p of [] \<Rightarrow> NUL | c # _ \<Rightarrow> c)"

definition peek :: "string \<Rightarrow> nat \<Rightarrow> char" where
  "peek p k = (if k < length p then p ! k else NUL)"

definition no_nul :: "string \<Rightarrow> bool" where
  "no_nul s \<longleftrightarrow> NUL \<notin> set s"

lemma hd0_simps [simp, cstr]: "hd0 [] = NUL" "hd0 (c # p) = c"
  by (simp_all add: hd0_def)

lemma peek_simps [simp, cstr]:
  "peek [] k = NUL" "peek (c # p) 0 = c" "peek (c # p) (Suc k) = peek p k"
  by (simp_all add: peek_def)

lemma code_inject [simp]: "code a = code b \<longleftrightarrow> a = b"
  by (simp add: code_def)

lemma isdigit_NUL [simp, cstr]: "\<not> isdigit NUL"
  by (simp add: isdigit_def code_def)

lemma no_nul_simps [simp, cstr]:
  "no_nul []" "no_nul (c # s) \<longleftrightarrow> c \<noteq> NUL \<and> no_nul s"
  "no_nul (s @ t) \<longleftrightarrow> no_nul s \<and> no_nul t"
  by (auto simp: no_nul_def)

lemma cstr_at_Some: "cstr_at s i = Some c \<Longrightarrow> 0 \<le> i \<and> i \<le> int (length s)"
  by (auto simp: cstr_at_def split: if_splits)

lemma cstr_at_inside: "cstr_at s i = Some c \<Longrightarrow> c \<noteq> NUL \<Longrightarrow> 0 \<le> i \<and> i < int (length s) \<and> c = s ! nat i"
  by (auto simp: cstr_at_def split: if_splits)

lemma cstr_at_defined: "0 \<le> i \<Longrightarrow> i \<le> int (length s) \<Longrightarrow> \<exists>c. cstr_at s i = Some c"
  by (auto simp: cstr_at_def)

lemma cstr_at_NUL_end:
  "no_nul s \<Longrightarrow> cstr_at s i = Some NUL \<Longrightarrow> i = int (length s)"
  by (auto simp: cstr_at_def no_nul_def in_set_conv_nth nat_less_iff split: if_splits)

section \<open>Decimal numbers\<close>

fun show_nat :: "nat \<Rightarrow> string" where
  "show_nat n = (if n < 10 then [char_of (48 + n)] else show_nat (n div 10) @ [char_of (48 + n mod 10)])"

declare show_nat.simps [simp del]

definition show_int :: "int \<Rightarrow> string" where
  "show_int i = (if i < 0 then ''-'' @ show_nat (nat (- i)) else show_nat (nat i))"

text \<open>The value of a digit string, most significant digit first.\<close>

definition dec_val :: "int \<Rightarrow> string \<Rightarrow> int" where
  "dec_val acc ds = foldl (\<lambda>a c. a * 10 + digit_val c) acc ds"

lemma dec_val_simps [simp]:
  "dec_val acc [] = acc" "dec_val acc (c # ds) = dec_val (acc * 10 + digit_val c) ds"
  "dec_val acc (xs @ ys) = dec_val (dec_val acc xs) ys"
  by (simp_all add: dec_val_def)

lemma code_digit: "n < 10 \<Longrightarrow> code (char_of (48 + n)) = 48 + n"
  by (simp add: code_def)

lemma isdigit_show: "\<forall>c \<in> set (show_nat n). isdigit c"
proof (induction n rule: show_nat.induct)
  case (1 n)
  have "n mod 10 < 10" by simp
  with 1 show ?case
    by (subst show_nat.simps) (auto simp: isdigit_def code_digit)
qed

lemma show_nat_neq_Nil [simp]: "show_nat n \<noteq> []"
  by (subst show_nat.simps) simp

lemma dec_val_show_nat [simp]: "dec_val 0 (show_nat n) = int n"
proof (induction n rule: show_nat.induct)
  case (1 n)
  show ?case
  proof (cases "n < 10")
    case True
    then show ?thesis by (subst show_nat.simps) (simp add: digit_val_def code_digit)
  next
    case False
    have "int (n div 10) * 10 + int (n mod 10) = int n"
      by (simp add: zdiv_int zmod_int)
    with False 1 show ?thesis
      by (subst show_nat.simps) (simp add: digit_val_def code_digit)
  qed
qed

lemma length_show_nat: "n < 10 ^ k \<Longrightarrow> 0 < k \<Longrightarrow> length (show_nat n) \<le> k"
proof (induction n arbitrary: k rule: show_nat.induct)
  case (1 n)
  show ?case
  proof (cases "n < 10")
    case True
    then show ?thesis using 1(3) by (subst show_nat.simps) simp
  next
    case False
    then obtain j where j: "k = Suc j" "0 < j" using 1(2,3) by (cases k; cases "k - 1") auto
    then have "n div 10 < 10 ^ j" using 1(2) by (simp add: less_mult_imp_div_less mult.commute)
    then have "length (show_nat (n div 10)) \<le> j" using 1(1) [OF False] j(2) by blast
    then show ?thesis using False j(1) by (subst show_nat.simps) simp
  qed
qed

lemma digit_val_bounds: "isdigit c \<Longrightarrow> 0 \<le> digit_val c \<and> digit_val c \<le> 9"
  by (auto simp: isdigit_def digit_val_def)

lemma dec_val_mono: "0 \<le> acc \<Longrightarrow> \<forall>c \<in> set ds. isdigit c \<Longrightarrow> acc \<le> dec_val acc ds"
proof (induction ds arbitrary: acc)
  case Nil
  then show ?case by simp
next
  case (Cons c ds)
  then have "0 \<le> digit_val c" by (simp add: digit_val_bounds)
  moreover have "acc * 10 + digit_val c \<le> dec_val (acc * 10 + digit_val c) ds"
    using Cons calculation by simp
  ultimately show ?case using Cons.prems(1) by simp
qed

section \<open>Congruence for the do notation\<close>

lemma bind_cong2:
  assumes "x = y" "\<And>a b. y = Some (a, b) \<Longrightarrow> f a b = g a b"
  shows "do { (a, b) \<leftarrow> x; f a b } = do { (a, b) \<leftarrow> y; g a b }"
  using assms by (cases y) (auto split: prod.splits)

lemma bind_cong3:
  assumes "x = y" "\<And>a b c. y = Some (a, b, c) \<Longrightarrow> f a b c = g a b c"
  shows "do { (a, b, c) \<leftarrow> x; f a b c } = do { (a, b, c) \<leftarrow> y; g a b c }"
  using assms by (cases y) (auto split: prod.splits)

section \<open>Checked arrays\<close>

definition aget :: "'a list \<Rightarrow> int \<Rightarrow> 'a option" where
  "aget xs i = (if 0 \<le> i \<and> i < int (length xs) then Some (xs ! nat i) else None)"

definition aset :: "'a list \<Rightarrow> int \<Rightarrow> 'a \<Rightarrow> 'a list option" where
  "aset xs i v = (if 0 \<le> i \<and> i < int (length xs) then Some (xs[nat i := v]) else None)"

lemma aget_in [simp, arr]: "0 \<le> i \<Longrightarrow> i < int (length xs) \<Longrightarrow> aget xs i = Some (xs ! nat i)"
  by (simp add: aget_def)

lemma aset_in [simp, arr]: "0 \<le> i \<Longrightarrow> i < int (length xs) \<Longrightarrow> aset xs i v = Some (xs[nat i := v])"
  by (simp add: aset_def)

lemma aget_out: "i < 0 \<or> int (length xs) \<le> i \<Longrightarrow> aget xs i = None"
  by (auto simp: aget_def)

lemma aset_out: "i < 0 \<or> int (length xs) \<le> i \<Longrightarrow> aset xs i v = None"
  by (auto simp: aset_def)

text \<open>\<open>for (j = i; j < n; j++) xs[j + w] = xs[j + r]\<close>\<close>

function loop_up :: "'a list \<Rightarrow> int \<Rightarrow> int \<Rightarrow> int \<Rightarrow> int \<Rightarrow> 'a list option" where
  "loop_up xs i n w r =
     (if i < n then do {
        v \<leftarrow> aget xs (i + r);
        xs' \<leftarrow> aset xs (i + w) v;
        loop_up xs' (i + 1) n w r }
      else Some xs)"
  by pat_completeness auto
termination
  by (relation "measure (\<lambda>(xs, i, n, w, r). nat (n - i))") auto

text \<open>\<open>for (j = i; j > a; j--) xs[j + w] = xs[j + r]\<close>\<close>

function loop_down :: "'a list \<Rightarrow> int \<Rightarrow> int \<Rightarrow> int \<Rightarrow> int \<Rightarrow> 'a list option" where
  "loop_down xs i a w r =
     (if a < i then do {
        v \<leftarrow> aget xs (i + r);
        xs' \<leftarrow> aset xs (i + w) v;
        loop_down xs' (i - 1) a w r }
      else Some xs)"
  by pat_completeness auto
termination
  by (relation "measure (\<lambda>(xs, i, a, w, r). nat (i - a))") auto

declare loop_up.simps [simp del] loop_down.simps [simp del]

text \<open>Moving down by \<open>k\<close> (deletion): element \<open>j\<close> takes what was at \<open>j + k\<close>.\<close>

lemma loop_up_shift:
  assumes "0 \<le> i" "i \<le> n" "0 \<le> k" "n + k \<le> int (length xs)"
  shows "\<exists>ys. loop_up xs i n 0 k = Some ys \<and> length ys = length xs \<and>
    (\<forall>j < length xs. ys ! j = (if i \<le> int j \<and> int j < n then xs ! (j + nat k) else xs ! j))"
  using assms
proof (induction xs i n "0::int" k rule: loop_up.induct)
  case (1 xs i n k)
  show ?case
  proof (cases "i < n")
    case False
    then have "loop_up xs i n 0 k = Some xs" by (subst loop_up.simps) simp
    then show ?thesis using False by auto
  next
    case True
    let ?xs = "xs[nat i := xs ! nat (i + k)]"
    have idx: "aget xs (i + k) = Some (xs ! nat (i + k))" "aset xs i (xs ! nat (i + k)) = Some ?xs"
      using True 1 by (simp_all add: aget_def aset_def)
    have "\<exists>ys. loop_up ?xs (i + 1) n 0 k = Some ys \<and> length ys = length ?xs \<and>
      (\<forall>j < length ?xs. ys ! j = (if i + 1 \<le> int j \<and> int j < n then ?xs ! (j + nat k) else ?xs ! j))"
      using True 1(1)[OF True, of "xs ! nat (i + k)" ?xs] idx 1 by simp
    then obtain ys where ys: "loop_up ?xs (i + 1) n 0 k = Some ys" "length ys = length xs"
      "\<And>j. j < length xs \<Longrightarrow>
         ys ! j = (if i + 1 \<le> int j \<and> int j < n then ?xs ! (j + nat k) else ?xs ! j)"
      by auto
    have "ys ! j = (if i \<le> int j \<and> int j < n then xs ! (j + nat k) else xs ! j)" if "j < length xs" for j
      using ys(3)[OF that] that True 1(2,3,4,5)
      by (auto simp: nth_list_update nat_add_distrib)
    moreover have "loop_up xs i n 0 k = Some ys"
      using True idx ys(1) by (simp add: loop_up.simps [of xs i n])
    ultimately show ?thesis using ys(2) by blast
  qed
qed

text \<open>Moving up by \<open>k\<close> (insertion): the elements \<open>a + 1 .. i\<close> move to \<open>a + 1 + k .. i + k\<close>.\<close>

lemma loop_down_shift:
  assumes "-1 \<le> a" "a \<le> i" "0 \<le> k" "i + w < int (length xs)" "w - r = k" "0 \<le> a + 1 + r"
  shows "\<exists>ys. loop_down xs i a w r = Some ys \<and> length ys = length xs \<and>
    (\<forall>j < length xs. ys ! j = (if a + w < int j \<and> int j \<le> i + w then xs ! (j - nat k) else xs ! j))"
  using assms
proof (induction xs i a w r rule: loop_down.induct)
  case (1 xs i a w r)
  show ?case
  proof (cases "a < i")
    case False
    then have "loop_down xs i a w r = Some xs" by (subst loop_down.simps) simp
    then show ?thesis using False by auto
  next
    case True
    let ?xs = "xs[nat (i + w) := xs ! nat (i + r)]"
    have idx: "aget xs (i + r) = Some (xs ! nat (i + r))"
      "aset xs (i + w) (xs ! nat (i + r)) = Some ?xs"
      using True 1 by (simp_all add: aget_def aset_def)
    have "\<exists>ys. loop_down ?xs (i - 1) a w r = Some ys \<and> length ys = length ?xs \<and>
      (\<forall>j < length ?xs. ys ! j =
         (if a + w < int j \<and> int j \<le> i - 1 + w then ?xs ! (j - nat k) else ?xs ! j))"
      using True 1(1)[OF True, of "xs ! nat (i + r)" ?xs] idx 1 by simp
    then obtain ys where ys: "loop_down ?xs (i - 1) a w r = Some ys" "length ys = length xs"
      "\<And>j. j < length xs \<Longrightarrow>
         ys ! j = (if a + w < int j \<and> int j \<le> i - 1 + w then ?xs ! (j - nat k) else ?xs ! j)"
      by auto
    have "ys ! j = (if a + w < int j \<and> int j \<le> i + w then xs ! (j - nat k) else xs ! j)"
      if "j < length xs" for j
    proof (cases "int j = i + w")
      case True
      then have "j = nat (i + w)" "j - nat k = nat (i + r)" using 1(2-7) by auto
      then show ?thesis using ys(3)[OF that] that True \<open>a < i\<close> by auto
    next
      case False
      have pos: "0 \<le> i + w" using 1(2-7) True by simp
      with False have jn: "j \<noteq> nat (i + w)" by auto
      have "j - nat k \<noteq> nat (i + w)" if "int j \<le> i - 1 + w"
        using that 1(2-7) True pos by auto
      then show ?thesis using ys(3)[OF that] jn False by auto
    qed
    moreover have "loop_down xs i a w r = Some ys"
      using True idx ys(1) by (simp add: loop_down.simps [of xs i a])
    ultimately show ?thesis using ys(2) by blast
  qed
qed

text \<open>Making room for one element, and closing the gap of \<open>k\<close>.\<close>

lemma loop_down_insert:
  assumes "0 \<le> pos" "pos \<le> int (length ls)"
  shows "\<exists>ys. loop_down (ls @ [d]) (int (length ls)) pos 0 (- 1) = Some ys
    \<and> aset ys pos x = Some (take (nat pos) ls @ x # drop (nat pos) ls)"
proof -
  obtain ys where ys: "loop_down (ls @ [d]) (int (length ls)) pos 0 (- 1) = Some ys" "length ys = Suc (length ls)"
    "\<And>j. j < Suc (length ls) \<Longrightarrow> ys ! j = (if pos < int j then (ls @ [d]) ! (j - 1) else (ls @ [d]) ! j)"
    using loop_down_shift [of pos "int (length ls)" 1 0 "ls @ [d]" "- 1"] assms by (auto simp: less_Suc_eq_le)
  have "ys[nat pos := x] = take (nat pos) ls @ x # drop (nat pos) ls"
  proof (rule nth_equalityI)
    fix j assume "j < length (ys[nat pos := x])"
    then have j: "j < Suc (length ls)" using ys(2) by simp
    consider "int j < pos" | "int j = pos" | "pos < int j" by linarith
    then show "ys[nat pos := x] ! j = (take (nat pos) ls @ x # drop (nat pos) ls) ! j"
    proof cases
      case 3
      then have "j = Suc (j - 1)" "nat pos \<le> j - 1" "j \<noteq> nat pos" "j - 1 < length ls" using assms j by auto
      then show ?thesis
        using 3 ys(3) [OF j] assms j by (auto simp: nth_append nth_Cons' min_def nat_le_iff)
    qed (use ys(2,3) j assms in \<open>auto simp: nth_append min_def\<close>)
  qed (use ys(2) assms in auto)
  then show ?thesis using ys assms by simp
qed

lemma loop_up_delete:
  assumes "0 \<le> s" "0 \<le> k" "s + k \<le> int (length ls)"
  shows "\<exists>ys. loop_up ls s (int (length ls) - k) 0 k = Some ys
    \<and> take (nat (int (length ls) - k)) ys = take (nat s) ls @ drop (nat (s + k)) ls"
proof -
  obtain ys where ys: "loop_up ls s (int (length ls) - k) 0 k = Some ys" "length ys = length ls"
    "\<And>j. j < length ls \<Longrightarrow> ys ! j = (if s \<le> int j \<and> int j < int (length ls) - k then ls ! (j + nat k) else ls ! j)"
    using loop_up_shift [of s "int (length ls) - k" k ls] assms by auto
  have "take (nat (int (length ls) - k)) ys = take (nat s) ls @ drop (nat (s + k)) ls"
  proof (rule nth_equalityI)
    fix j assume "j < length (take (nat (int (length ls) - k)) ys)"
    then have j: "int j < int (length ls) - k" "j < length ls" using ys(2) by auto
    show "take (nat (int (length ls) - k)) ys ! j = (take (nat s) ls @ drop (nat (s + k)) ls) ! j"
    proof (cases "int j < s")
      case True
      then show ?thesis using ys(3) [OF j(2)] j assms by (simp add: nth_append min_def)
    next
      case False
      then have "nat (s + k) + (j - nat s) = j + nat k" using assms by (simp add: nat_add_distrib)
      moreover have "\<not> j < nat s" "\<not> length ls \<le> nat s" using False j assms by auto
      ultimately show ?thesis using False ys(3) [OF j(2)] j assms by (simp add: nth_append min_def)
    qed
  qed (use ys(2) assms in auto)
  then show ?thesis using ys(1) by blast
qed

section \<open>Lines\<close>

text \<open>The pieces \<open>fgets\<close> with a buffer of \<open>n\<close> bytes cuts from a stream: at most \<open>n - 1\<close> characters, up to a
  newline.\<close>

function chunks :: "nat \<Rightarrow> string \<Rightarrow> string list" where
  "chunks n f =
     (if f = [] \<or> n \<le> 1 then []
      else (let front = take (n - 1) f; l = takeWhile (\<lambda>c. c \<noteq> CHR 0x0A) front;
                l = (if length l < length front then l @ [CHR 0x0A] else l)
            in l # chunks n (drop (length l) f)))"
  by pat_completeness auto
termination
proof (relation "measure (length \<circ> snd)", goal_cases)
  case (2 n f x xa xb)
  then have "xa \<noteq> [] \<or> length xa < length x" by (cases f) (auto simp: take_Cons')
  then show ?case using 2 by (cases f) auto
qed simp

declare chunks.simps [simp del]

lemma chunks_lines:
  assumes "\<forall>l \<in> set ls. length l + 2 \<le> n \<and> CHR 0x0A \<notin> set l"
  shows "chunks n (concat (map (\<lambda>l. l @ [CHR 0x0A]) ls)) = map (\<lambda>l. l @ [CHR 0x0A]) ls"
  using assms
proof (induction ls)
  case Nil
  then show ?case by (simp add: chunks.simps)
next
  case (Cons l ls)
  let ?rest = "concat (map (\<lambda>l. l @ [CHR 0x0A]) ls)"
  obtain m where m: "n - Suc 0 = length l + Suc m" using Cons.prems by (auto dest!: le_Suc_ex)
  then have t: "take (n - Suc 0) (l @ CHR 0x0A # ?rest) = l @ CHR 0x0A # take m ?rest" by simp
  have w: "takeWhile (\<lambda>c. c \<noteq> CHR 0x0A) (l @ CHR 0x0A # take m ?rest) = l"
    using Cons.prems by (subst takeWhile_append2) auto
  have "chunks n (l @ CHR 0x0A # ?rest) = (l @ [CHR 0x0A]) # chunks n ?rest"
    using Cons.prems by (simp add: chunks.simps [of n "l @ CHR 0x0A # ?rest"] t w Let_def del: take_append)
  then show ?case using Cons by simp
qed

end
