(* ===== verification/Bre.thy ===== *)
theory Bre
  imports Prelude
begin

text \<open>
  The basic regular expression engine of \<open>src/src/lib/bre.c\<close>: its result codes and records
  (\<open>bre.h\<close>), the bracket expression test, the quantifier parser, the four one-character atoms,
  the greedy repetition loop with its backtracking loop, the two group matchers and the
  dispatcher \<open>match_here\<close>, and the entry point \<open>bre_match\<close>. The pattern and the text are C
  strings. A read of the text outside the string and an \<open>atoi\<close> overflow are undefined
  behaviour, the value \<^term>\<open>None\<close>. The recursion of \<open>match_here\<close> through its helpers always
  shortens the rest of the pattern (\<open>pend - pi\<close>), which the congruence rules of the helpers
  give to the termination proof.
\<close>

named_theorems bre_simps "unfolding the matcher on concrete input"

section \<open>Result codes and records (bre.h)\<close>

datatype BreResult = BRE_OK | BRE_NOMATCH | BRE_ERROR | BRE_NOT_GROUP | BRE_GROUP_MISMATCH

abbreviation BRE_MAX_GROUPS :: nat where "BRE_MAX_GROUPS \<equiv> 9"
abbreviation RE_DUP_MAX :: int where "RE_DUP_MAX \<equiv> 255"
abbreviation BSL :: char where "BSL \<equiv> CHR 0x5C"

record BreMatch =
  bm_start :: int
  bm_length :: int
  bm_groups :: "(int \<times> int) list"
  bm_num_groups :: nat

record MatchContext =
  cx_base :: string
  cx_text :: string
  cx_ti :: int
  cx_pat :: string
  cx_pi :: int
  cx_pend :: int

record BreRepetition =
  rep_min :: int
  rep_max :: int
  rep_next_pi :: int

section \<open>Pattern helpers\<close>

function find_group_end_loop :: "string \<Rightarrow> int \<Rightarrow> int \<Rightarrow> int" where
  "find_group_end_loop pat i pend =
     (if i < pend - 1 then
        if at0 pat i = BSL \<and> at0 pat (i + 1) = CHR '')'' then i
        else find_group_end_loop pat (i + 1) pend
      else - 1)"
  by pat_completeness auto
termination
  by (relation "measure (\<lambda>(pat, i, pend). nat (pend - i))") auto

definition find_group_end :: "string \<Rightarrow> int \<Rightarrow> int \<Rightarrow> int" where
  "find_group_end pat pi pend = find_group_end_loop pat (pi + 2) pend"

text \<open>The loop of \<open>in_char_class\<close>; \<open>prev\<close> stands for the pair \<open>has_prev\<close>, \<open>prev\<close>. It returns
  the index where it stopped and \<open>matched\<close>.\<close>

function class_loop :: "char \<Rightarrow> string \<Rightarrow> int \<Rightarrow> int \<Rightarrow> bool \<Rightarrow> char option \<Rightarrow> int \<times> bool" where
  "class_loop c pat pend i matched prev =
     (if i < pend \<and> at0 pat i \<noteq> CHR '']'' then
        if at0 pat i = CHR ''-'' \<and> prev \<noteq> None \<and> i + 1 < pend \<and> at0 pat (i + 1) \<noteq> CHR '']''
        then class_loop c pat pend (i + 2)
               (matched \<or> (code (the prev) \<le> code c \<and> code c \<le> code (at0 pat (i + 1)))) None
        else class_loop c pat pend (i + 1) (matched \<or> at0 pat i = c) (Some (at0 pat i))
      else (i, matched))"
  by pat_completeness auto
termination
  by (relation "measure (\<lambda>(c, pat, pend, i, matched, prev). nat (pend - i))") auto

definition in_char_class :: "char \<Rightarrow> string \<Rightarrow> int \<Rightarrow> int \<Rightarrow> bool \<times> int option" where
  "in_char_class c pat pi pend =
     (let invert = (pi + 1 < pend \<and> at0 pat (pi + 1) = CHR ''^'');
          (i, matched) = class_loop c pat pend (if invert then pi + 2 else pi + 1) False None
      in if pend \<le> i \<or> at0 pat i \<noteq> CHR '']'' then (False, None)
         else (if invert then \<not> matched else matched, Some (i + 1)))"

function find_class_end_loop :: "string \<Rightarrow> int \<Rightarrow> int \<Rightarrow> int" where
  "find_class_end_loop pat i pend =
     (if i < pend then if at0 pat i = CHR '']'' then i + 1 else find_class_end_loop pat (i + 1) pend
      else - 1)"
  by pat_completeness auto
termination
  by (relation "measure (\<lambda>(pat, i, pend). nat (pend - i))") auto

definition find_class_end_simple :: "string \<Rightarrow> int \<Rightarrow> int \<Rightarrow> int" where
  "find_class_end_simple pat pi pend =
     find_class_end_loop pat
       (if pi + 1 < pend \<and> at0 pat (pi + 1) = CHR ''^'' then pi + 2 else pi + 1) pend"

section \<open>Quantifiers\<close>

text \<open>\<open>while (j < pend && isdigit(pat[j])) j++\<close>\<close>

function skip_digits :: "string \<Rightarrow> int \<Rightarrow> int \<Rightarrow> int" where
  "skip_digits pat j pend =
     (if j < pend \<and> isdigit (at0 pat j) then skip_digits pat (j + 1) pend else j)"
  by pat_completeness auto
termination
  by (relation "measure (\<lambda>(pat, j, pend). nat (pend - j))") auto

text \<open>\<open>atoi\<close> on a pointer into the pattern that points at a digit; overflow is undefined.\<close>

definition atoi_at :: "string \<Rightarrow> int \<Rightarrow> int option" where
  "atoi_at pat j =
     (let v = dec_val 0 (takeWhile isdigit (drop (nat j) pat)) in if v \<le> INT_MAX then Some v else None)"

declare find_group_end_loop.simps [simp del] class_loop.simps [simp del]
  find_class_end_loop.simps [simp del] skip_digits.simps [simp del]

definition parse_bre_repetition ::
  "string \<Rightarrow> int \<Rightarrow> int \<Rightarrow> BreRepetition \<Rightarrow> (BreResult \<times> BreRepetition) option" where
  "parse_bre_repetition pat pi pend rep =
     (if pi + 5 > pend then
        if pi < pend \<and> at0 pat pi = BSL \<and> pi + 1 < pend \<and> at0 pat (pi + 1) = CHR ''{''
        then Some (BRE_ERROR, rep) else Some (BRE_NOMATCH, rep)
      else if at0 pat pi \<noteq> BSL \<or> at0 pat (pi + 1) \<noteq> CHR ''{'' then Some (BRE_NOMATCH, rep)
      else if pi + 2 \<ge> pend \<or> \<not> isdigit (at0 pat (pi + 2)) then Some (BRE_ERROR, rep)
      else do {
        mn \<leftarrow> atoi_at pat (pi + 2);
        let j = skip_digits pat (pi + 2) pend;
        let rep = rep\<lparr>rep_min := mn\<rparr>;
        if mn > RE_DUP_MAX then Some (BRE_ERROR, rep)
        else if j \<ge> pend then Some (BRE_ERROR, rep)
        else if at0 pat j = BSL \<and> j + 1 < pend \<and> at0 pat (j + 1) = CHR ''}''
        then Some (BRE_OK, rep\<lparr>rep_max := mn, rep_next_pi := j + 2\<rparr>)
        else if at0 pat j \<noteq> CHR '','' then Some (BRE_ERROR, rep)
        else if j + 1 \<ge> pend then Some (BRE_ERROR, rep)
        else if at0 pat (j + 1) = BSL \<and> j + 2 < pend \<and> at0 pat (j + 2) = CHR ''}''
        then Some (BRE_OK, rep\<lparr>rep_max := - 1, rep_next_pi := j + 3\<rparr>)
        else if \<not> isdigit (at0 pat (j + 1)) then Some (BRE_ERROR, rep)
        else do {
          mx \<leftarrow> atoi_at pat (j + 1);
          let j' = skip_digits pat (j + 1) pend;
          let rep = rep\<lparr>rep_max := mx\<rparr>;
          if mx > RE_DUP_MAX \<or> mn > mx then Some (BRE_ERROR, rep)
          else if j' + 1 \<ge> pend \<or> at0 pat j' \<noteq> BSL \<or> at0 pat (j' + 1) \<noteq> CHR ''}''
          then Some (BRE_ERROR, rep)
          else Some (BRE_OK, rep\<lparr>rep_next_pi := j' + 2\<rparr>) } })"

definition parse_quantifier ::
  "string \<Rightarrow> int \<Rightarrow> int \<Rightarrow> BreRepetition \<Rightarrow> (BreResult \<times> BreRepetition) option" where
  "parse_quantifier pat a pend rep =
     (if a < pend \<and> at0 pat a = CHR ''*''
      then Some (BRE_OK, rep\<lparr>rep_min := 0, rep_max := - 1, rep_next_pi := a + 1\<rparr>)
      else if a + 1 < pend \<and> at0 pat a = BSL \<and> at0 pat (a + 1) = CHR ''+''
      then Some (BRE_OK, rep\<lparr>rep_min := 1, rep_max := - 1, rep_next_pi := a + 2\<rparr>)
      else parse_bre_repetition pat a pend rep)"

section \<open>Atoms, matched once\<close>

text \<open>The result is the code, \<open>*adv_out\<close> (0 where the C code leaves it alone) and the match record.\<close>

type_synonym once_res = "(BreResult \<times> int \<times> BreMatch) option"
type_synonym atom_once = "MatchContext \<Rightarrow> int \<Rightarrow> int \<Rightarrow> int \<Rightarrow> BreMatch \<Rightarrow> once_res"

definition once_literal :: atom_once where
  "once_literal ctx atom_start atom_end tpos m =
     (if tpos < 0 then Some (BRE_NOMATCH, 0, m)
      else do {
        t \<leftarrow> cstr_at (cx_text ctx) tpos;
        let ch = at0 (cx_pat ctx) atom_start;
        if t = NUL then Some (BRE_NOMATCH, 0, m)
        else if ch \<in> {BSL, CHR ''['', CHR ''.'', CHR ''^'', CHR ''$'', CHR ''*''}
        then Some (BRE_NOMATCH, 0, m)
        else if t \<noteq> ch then Some (BRE_NOMATCH, 0, m)
        else Some (BRE_OK, 1, m) })"

definition once_dot :: atom_once where
  "once_dot ctx atom_start atom_end tpos m =
     do { t \<leftarrow> cstr_at (cx_text ctx) tpos;
          if t = NUL then Some (BRE_NOMATCH, 0, m) else Some (BRE_OK, 1, m) }"

definition once_escape :: atom_once where
  "once_escape ctx atom_start atom_end tpos m =
     (if atom_start + 1 \<ge> cx_pend ctx then Some (BRE_NOMATCH, 0, m)
      else do {
        t \<leftarrow> cstr_at (cx_text ctx) tpos;
        let esc = at0 (cx_pat ctx) (atom_start + 1);
        if t = NUL then Some (BRE_NOMATCH, 0, m)
        else if esc \<in> {CHR ''('', CHR '')'', CHR ''{'', CHR ''}''} then Some (BRE_NOMATCH, 0, m)
        else if t \<noteq> esc then Some (BRE_NOMATCH, 0, m)
        else Some (BRE_OK, 1, m) })"

definition once_class :: atom_once where
  "once_class ctx atom_start atom_end tpos m =
     do { t \<leftarrow> cstr_at (cx_text ctx) tpos;
          if t = NUL then Some (BRE_NOMATCH, 0, m)
          else if \<not> fst (in_char_class t (cx_pat ctx) atom_start (cx_pend ctx))
          then Some (BRE_NOMATCH, 0, m)
          else Some (BRE_OK, 1, m) }"

section \<open>Repetition with backtracking\<close>

text \<open>The first loop of \<open>match_repeated\<close>: it stops at a failed attempt or after \<open>max_possible\<close>
  occurrences. \<open>advs\<close> holds the first 256 advances, as the array of the code does.\<close>

type_synonym fwd_res = "(BreResult \<times> int \<times> nat \<times> int list \<times> BreMatch) option"

function rep_forward ::
  "(int \<Rightarrow> BreMatch \<Rightarrow> once_res) \<Rightarrow> int \<Rightarrow> int \<Rightarrow> nat \<Rightarrow> int list \<Rightarrow> BreMatch \<Rightarrow> fwd_res" where
  "rep_forward once max_possible tpos have advs m =
     (if int have < max_possible then do {
        (r, adv, m) \<leftarrow> once tpos m;
        if r = BRE_ERROR then Some (BRE_ERROR, tpos, have, advs, m)
        else if r \<noteq> BRE_OK then Some (BRE_OK, tpos, have, advs, m)
        else rep_forward once max_possible (tpos + adv) (have + 1)
               (if have < 256 then advs @ [adv] else advs) m }
      else Some (BRE_OK, tpos, have, advs, m))"
  by pat_completeness auto
termination
  by (relation "measure (\<lambda>(once, mp, tpos, have, advs, m). nat (mp - int have))") auto

text \<open>The type of \<open>match_here\<close>: its result is the code, \<open>*total_out\<close> and the match record. The C
  function gets the context by pointer, but every caller passes a copy it does not use again.\<close>

type_synonym here_fn = "MatchContext \<Rightarrow> BreMatch \<Rightarrow> once_res"

text \<open>The second loop: match the rest of the pattern, giving back one occurrence at a time. The
  result is the code, \<open>*total_out\<close>, \<open>*prefix_out\<close> and the match record.\<close>

fun rep_back ::
  "here_fn \<Rightarrow> MatchContext \<Rightarrow> BreRepetition \<Rightarrow> int list \<Rightarrow> int \<Rightarrow> nat \<Rightarrow> BreMatch \<Rightarrow>
   (BreResult \<times> int \<times> int \<times> BreMatch) option" where
  "rep_back here ctx rep advs tpos have m =
     (if int have \<ge> rep_min rep then do {
        (rr, rest_total, m) \<leftarrow> here (ctx\<lparr>cx_ti := tpos, cx_pi := rep_next_pi rep\<rparr>) m;
        if rr = BRE_ERROR then Some (BRE_ERROR, 0, 0, m)
        else if rr = BRE_OK then Some (BRE_OK, tpos - cx_ti ctx + rest_total, tpos - cx_ti ctx, m)
        else if have = 0 then Some (BRE_NOMATCH, 0, 0, m)
        else rep_back here ctx rep advs
               (tpos - (if have \<le> 256 then advs ! (have - 1) else 1)) (have - 1) m }
      else Some (BRE_NOMATCH, 0, 0, m))"

declare rep_forward.simps [simp del] rep_back.simps [simp del]

definition match_repeated ::
  "here_fn \<Rightarrow> MatchContext \<Rightarrow> atom_once \<Rightarrow> int \<Rightarrow> int \<Rightarrow> BreRepetition \<Rightarrow> BreMatch \<Rightarrow>
   (BreResult \<times> int \<times> int \<times> BreMatch) option" where
  "match_repeated here ctx atom_once atom_start atom_end rep m = do {
     let max_possible = (if rep_max rep < 0 then 10000 else rep_max rep);
     (r, tpos, have, advs, m) \<leftarrow>
       rep_forward (atom_once ctx atom_start atom_end) max_possible (cx_ti ctx) 0 [] m;
     if r = BRE_ERROR then Some (BRE_ERROR, 0, 0, m)
     else rep_back here ctx rep advs tpos have m }"

section \<open>Groups\<close>

definition once_group_inner ::
  "here_fn \<Rightarrow> MatchContext \<Rightarrow> int \<Rightarrow> int \<Rightarrow> int \<Rightarrow> BreMatch \<Rightarrow> once_res" where
  "once_group_inner here ctx inner_start inner_end tpos m = do {
     (r, consumed, m) \<leftarrow> here (ctx\<lparr>cx_ti := tpos, cx_pi := inner_start, cx_pend := inner_end\<rparr>) m;
     if r \<noteq> BRE_OK then Some (r, 0, m) else Some (BRE_OK, consumed, m) }"

text \<open>\<open>m->groups[m->num_groups]\<close> is written, then \<open>m->num_groups\<close> is incremented.\<close>

definition record_group :: "int \<Rightarrow> int \<Rightarrow> BreMatch \<Rightarrow> BreMatch" where
  "record_group s l m =
     m\<lparr>bm_groups := (bm_groups m)[bm_num_groups m := (s, l)], bm_num_groups := bm_num_groups m + 1\<rparr>"

text \<open>\<open>while (text[tcur]) tcur++\<close>\<close>

function scan_end :: "string \<Rightarrow> int \<Rightarrow> int option" where
  "scan_end text t = do {
     c \<leftarrow> cstr_at text t;
     if c = NUL then Some t else scan_end text (t + 1) }"
  by pat_completeness auto
termination
  by (relation "measure (\<lambda>(text, t). nat (int (length text) - t))") (auto dest!: cstr_at_inside)

declare scan_end.simps [simp del]

text \<open>The loop for \<open>\(.*\)\<close>: try the remainder after ever shorter spans. Where all nine groups
  are already taken the loop goes on although the remainder matched.\<close>

function star_loop ::
  "here_fn \<Rightarrow> MatchContext \<Rightarrow> int \<Rightarrow> int \<Rightarrow> BreMatch \<Rightarrow> (BreResult \<times> int \<times> BreMatch) option" where
  "star_loop here ctx atom_end ttry m =
     (if ttry \<ge> cx_ti ctx then do {
        (rr, rest_total, m) \<leftarrow> here (ctx\<lparr>cx_ti := ttry, cx_pi := atom_end\<rparr>) m;
        if rr = BRE_ERROR then Some (BRE_ERROR, 0, m)
        else if rr = BRE_OK \<and> bm_num_groups m < BRE_MAX_GROUPS
        then Some (BRE_OK, ttry - cx_ti ctx + rest_total,
                   record_group (cx_ti ctx) (ttry - cx_ti ctx) m)
        else star_loop here ctx atom_end (ttry - 1) m }
      else Some (BRE_NOMATCH, 0, m))"
  by pat_completeness auto
termination
  by (relation "measure (\<lambda>(here, ctx, ae, ttry, m). nat (ttry - cx_ti ctx + 1))") auto

text \<open>The general loop: scan forward from \<open>ctx->ti\<close>, try the inside of the group once at every
  position, then the remainder.\<close>

function scan_loop ::
  "here_fn \<Rightarrow> MatchContext \<Rightarrow> int \<Rightarrow> int \<Rightarrow> int \<Rightarrow> int \<Rightarrow> BreMatch \<Rightarrow> (BreResult \<times> int \<times> BreMatch) option"
where
  "scan_loop here ctx inner_start inner_end atom_end tpos m = do {
     c \<leftarrow> cstr_at (cx_text ctx) tpos;
     if c = NUL then Some (BRE_NOMATCH, 0, m)
     else do {
       (ir, adv, m) \<leftarrow> once_group_inner here ctx inner_start inner_end tpos m;
       if ir = BRE_ERROR then Some (BRE_ERROR, 0, m)
       else if ir \<noteq> BRE_OK then scan_loop here ctx inner_start inner_end atom_end (tpos + 1) m
       else do {
         (rr, rest_total, m) \<leftarrow> here (ctx\<lparr>cx_ti := tpos + adv, cx_pi := atom_end\<rparr>) m;
         if rr = BRE_ERROR then Some (BRE_ERROR, 0, m)
         else if rr = BRE_OK
         then Some (BRE_OK, tpos - cx_ti ctx + adv + rest_total,
                    if bm_num_groups m < BRE_MAX_GROUPS then record_group tpos adv m else m)
         else scan_loop here ctx inner_start inner_end atom_end (tpos + 1) m } } }"
  by pat_completeness auto
termination
  by (relation "measure (\<lambda>(here, ctx, is, ie, ae, tpos, m). nat (int (length (cx_text ctx)) - tpos))")
    (auto dest!: cstr_at_inside)

declare star_loop.simps [simp del] scan_loop.simps [simp del]

text \<open>The public group matchers also move \<open>ctx->pi\<close> to \<open>atom_end\<close> on success; it is the second
  component of their result.\<close>

type_synonym group_res = "(BreResult \<times> int \<times> int \<times> BreMatch) option"

definition match_group_without_quantifier ::
  "here_fn \<Rightarrow> MatchContext \<Rightarrow> BreMatch \<Rightarrow> int \<Rightarrow> int \<Rightarrow> int \<Rightarrow> group_res" where
  "match_group_without_quantifier here ctx m inner_start inner_end atom_end = do {
     (r, total, m) \<leftarrow>
       (if inner_end - inner_start = 2 \<and> at0 (cx_pat ctx) inner_start = CHR ''.''
           \<and> at0 (cx_pat ctx) (inner_start + 1) = CHR ''*''
        then do { tcur \<leftarrow> scan_end (cx_text ctx) (cx_ti ctx);
                  star_loop here ctx atom_end tcur m }
        else scan_loop here ctx inner_start inner_end atom_end (cx_ti ctx) m);
     Some (r, if r = BRE_OK then atom_end else cx_pi ctx, total, m) }"

definition group_inner_once_adapter :: "here_fn \<Rightarrow> int \<Rightarrow> int \<Rightarrow> atom_once" where
  "group_inner_once_adapter here inner_start inner_end c astart aend tpos m =
     once_group_inner here c inner_start inner_end tpos m"

definition match_group_with_quantifier ::
  "here_fn \<Rightarrow> MatchContext \<Rightarrow> BreMatch \<Rightarrow> int \<Rightarrow> int \<Rightarrow> int \<Rightarrow> int \<Rightarrow> BreRepetition \<Rightarrow> group_res" where
  "match_group_with_quantifier here ctx m inner_start inner_end atom_start atom_end rep = do {
     (mr, total, group_span, m) \<leftarrow>
       match_repeated here ctx (group_inner_once_adapter here inner_start inner_end)
         atom_start atom_end rep m;
     if mr \<noteq> BRE_OK then Some (mr, cx_pi ctx, 0, m)
     else Some (BRE_OK, atom_end, total,
       if bm_num_groups m < BRE_MAX_GROUPS then record_group (cx_ti ctx) group_span m else m) }"

definition match_group :: "here_fn \<Rightarrow> MatchContext \<Rightarrow> BreMatch \<Rightarrow> group_res" where
  "match_group here ctx m =
     (let gend = find_group_end (cx_pat ctx) (cx_pi ctx) (cx_pend ctx);
          atom_start = cx_pi ctx; atom_end = gend + 2;
          inner_start = cx_pi ctx + 2; inner_end = gend
      in if gend < 0 then Some (BRE_ERROR, cx_pi ctx, 0, m)
         else do {
           (qres, rep) \<leftarrow> parse_quantifier (cx_pat ctx) atom_end (cx_pend ctx)
             \<lparr>rep_min = 1, rep_max = 1, rep_next_pi = atom_end\<rparr>;
           if qres = BRE_ERROR then Some (BRE_ERROR, cx_pi ctx, 0, m)
           else if qres = BRE_NOMATCH
           then match_group_without_quantifier here ctx m inner_start inner_end atom_end
           else match_group_with_quantifier here ctx m inner_start inner_end atom_start atom_end rep })"

section \<open>Where the helpers call \<open>match_here\<close>\<close>

text \<open>Facts on the indices the pattern helpers return.\<close>

lemma find_group_end_loop_bounds:
  "find_group_end_loop pat i pend \<noteq> - 1 \<Longrightarrow>
   i \<le> find_group_end_loop pat i pend \<and> find_group_end_loop pat i pend < pend - 1"
proof (induction pat i pend rule: find_group_end_loop.induct)
  case (1 pat i pend)
  then show ?case
    by (subst (asm) (3) find_group_end_loop.simps, subst (1 2) find_group_end_loop.simps)
      (auto split: if_splits)
qed

lemma find_group_end_bounds:
  "0 \<le> find_group_end pat pi pend \<Longrightarrow>
   pi + 2 \<le> find_group_end pat pi pend \<and> find_group_end pat pi pend + 2 \<le> pend"
  using find_group_end_loop_bounds [of pat "pi + 2" pend] by (simp add: find_group_end_def)

lemma skip_digits_ge: "j \<le> skip_digits pat j pend"
proof (induction pat j pend rule: skip_digits.induct)
  case (1 pat j pend)
  then show ?case by (subst skip_digits.simps) auto
qed

lemma parse_bre_repetition_next:
  assumes "parse_bre_repetition pat pi pend rep = Some (r, rep')" "pi \<le> rep_next_pi rep"
  shows "pi \<le> rep_next_pi rep'"
proof -
  let ?j = "skip_digits pat (pi + 2) pend" and ?k = "skip_digits pat (skip_digits pat (pi + 2) pend + 1) pend"
  have "pi + 2 \<le> ?j" "?j + 1 \<le> ?k" by (rule skip_digits_ge)+
  then show ?thesis
    using assms by (auto simp: parse_bre_repetition_def Let_def bind_eq_Some_conv split: if_splits)
qed

lemma parse_quantifier_next:
  "parse_quantifier pat a pend rep = Some (r, rep') \<Longrightarrow> a \<le> rep_next_pi rep \<Longrightarrow> a \<le> rep_next_pi rep'"
  by (auto simp: parse_quantifier_def dest: parse_bre_repetition_next split: if_splits)

lemma find_class_end_loop_ge:
  "find_class_end_loop pat i pend \<noteq> - 1 \<Longrightarrow>
   i < find_class_end_loop pat i pend \<and> find_class_end_loop pat i pend \<le> pend"
proof (induction pat i pend rule: find_class_end_loop.induct)
  case (1 pat i pend)
  then show ?case
    by (subst (asm) (3) find_class_end_loop.simps, subst (1 2) find_class_end_loop.simps)
      (auto split: if_splits)
qed

lemma find_class_end_simple_bounds:
  "0 \<le> find_class_end_simple pat pi pend \<Longrightarrow>
   pi + 1 < find_class_end_simple pat pi pend \<and> find_class_end_simple pat pi pend \<le> pend"
  using find_class_end_loop_ge [of pat "pi + 1" pend] find_class_end_loop_ge [of pat "pi + 2" pend]
  by (auto simp: find_class_end_simple_def split: if_splits)

text \<open>Congruence rules: each helper calls its \<open>here\<close> argument only on contexts whose rest of
  the pattern is shorter than the one it was given.\<close>

lemma rep_back_cong:
  assumes "\<And>c m. cx_pi c = rep_next_pi rep \<Longrightarrow> cx_pend c = cx_pend ctx \<Longrightarrow> cx_pat c = cx_pat ctx
             \<Longrightarrow> cx_text c = cx_text ctx \<Longrightarrow> here c m = here' c m"
  shows "rep_back here ctx rep advs tpos have m = rep_back here' ctx rep advs tpos have m"
proof (induction "have" arbitrary: tpos m)
  case 0
  show ?case by (subst (1 2) rep_back.simps) (simp add: assms cong: bind_cong3 if_cong)
next
  case (Suc n)
  then show ?case by (subst (1 2) rep_back.simps) (simp add: assms cong: bind_cong3 if_cong)
qed

lemma match_repeated_cong [fundef_cong]:
  assumes "ctx = ctx'" "atom_start = atom_start'" "atom_end = atom_end'" "rep = rep'" "m = m'"
    "\<And>tpos m. atom_once ctx' atom_start' atom_end' tpos m = atom_once' ctx' atom_start' atom_end' tpos m"
    "\<And>c m. cx_pi c = rep_next_pi rep' \<Longrightarrow> cx_pend c = cx_pend ctx' \<Longrightarrow> cx_pat c = cx_pat ctx'
       \<Longrightarrow> cx_text c = cx_text ctx' \<Longrightarrow> here c m = here' c m"
  shows "match_repeated here ctx atom_once atom_start atom_end rep m =
         match_repeated here' ctx' atom_once' atom_start' atom_end' rep' m'"
proof -
  have o: "atom_once ctx' atom_start' atom_end' = atom_once' ctx' atom_start' atom_end'"
    using assms(6) by (intro ext)
  have b: "rep_back here ctx' rep' = rep_back here' ctx' rep'"
    by (intro ext rep_back_cong assms(7))
  show ?thesis unfolding match_repeated_def assms(1-5) o b ..
qed

lemma once_group_inner_cong:
  assumes "\<And>m. here (ctx\<lparr>cx_ti := tpos, cx_pi := is, cx_pend := ie\<rparr>) m
             = here' (ctx\<lparr>cx_ti := tpos, cx_pi := is, cx_pend := ie\<rparr>) m"
  shows "once_group_inner here ctx is ie tpos m = once_group_inner here' ctx is ie tpos m"
  by (simp add: once_group_inner_def assms)

lemma star_loop_cong:
  assumes "\<And>t m. here (ctx\<lparr>cx_ti := t, cx_pi := ae\<rparr>) m = here' (ctx\<lparr>cx_ti := t, cx_pi := ae\<rparr>) m"
  shows "star_loop here ctx ae ttry m = star_loop here' ctx ae ttry m"
proof (induction "nat (ttry - cx_ti ctx + 1)" arbitrary: ttry m rule: less_induct)
  case less
  show ?case
    by (subst (1 2) star_loop.simps) (simp add: assms less cong: bind_cong3 if_cong)
qed

lemma scan_loop_cong:
  assumes "\<And>t m. here (ctx\<lparr>cx_ti := t, cx_pi := ae\<rparr>) m = here' (ctx\<lparr>cx_ti := t, cx_pi := ae\<rparr>) m"
    "\<And>t m. here (ctx\<lparr>cx_ti := t, cx_pi := is, cx_pend := ie\<rparr>) m
           = here' (ctx\<lparr>cx_ti := t, cx_pi := is, cx_pend := ie\<rparr>) m"
  shows "scan_loop here ctx is ie ae tpos m = scan_loop here' ctx is ie ae tpos m"
proof (induction "nat (int (length (cx_text ctx)) - tpos)" arbitrary: tpos m rule: less_induct)
  case less
  have g: "once_group_inner here ctx is ie = once_group_inner here' ctx is ie"
    by (intro ext once_group_inner_cong assms)
  have t: "scan_loop here ctx is ie ae (tpos + 1) m = scan_loop here' ctx is ie ae (tpos + 1) m"
    if "cstr_at (cx_text ctx) tpos = Some c" "c \<noteq> NUL" for c m
    using cstr_at_inside [OF that] by (intro less) simp
  show ?case
    by (subst (1 2) scan_loop.simps) (simp add: assms g t cong: bind_cong3 Option.bind_cong if_cong)
qed

lemma match_group_cong [fundef_cong]:
  assumes "ctx = ctx'" "m = m'" 
    "\<And>c m. nat (cx_pend c - cx_pi c) < nat (cx_pend ctx' - cx_pi ctx') \<Longrightarrow> here c m = here' c m"
  shows "match_group here ctx m = match_group here' ctx' m'"
proof -
  define g where "g = find_group_end (cx_pat ctx') (cx_pi ctx') (cx_pend ctx')"
  define r0 :: BreRepetition where "r0 = \<lparr>rep_min = 1, rep_max = 1, rep_next_pi = g + 2\<rparr>"
  show ?thesis
  proof (cases "g < 0")
    case True
    then show ?thesis by (simp add: match_group_def assms(1,2) g_def)
  next
    case False
    then have b: "cx_pi ctx' + 2 \<le> g" "g + 2 \<le> cx_pend ctx'"
      using find_group_end_bounds by (auto simp: g_def)
    have inner: "once_group_inner here ctx' (cx_pi ctx' + 2) g = once_group_inner here' ctx' (cx_pi ctx' + 2) g"
      using b by (intro ext once_group_inner_cong assms) simp
    have wo: "match_group_without_quantifier here ctx' m (cx_pi ctx' + 2) g (g + 2)
       = match_group_without_quantifier here' ctx' m (cx_pi ctx' + 2) g (g + 2)" for m
    proof -
      have "star_loop here ctx' (g + 2) = star_loop here' ctx' (g + 2)"
        using b by (intro ext star_loop_cong assms) simp
      moreover have "scan_loop here ctx' (cx_pi ctx' + 2) g (g + 2) = scan_loop here' ctx' (cx_pi ctx' + 2) g (g + 2)"
        using b by (intro ext scan_loop_cong assms) simp_all
      ultimately show ?thesis by (simp add: match_group_without_quantifier_def)
    qed
    have wq: "match_group_with_quantifier here ctx' m (cx_pi ctx' + 2) g (cx_pi ctx') (g + 2) rep
       = match_group_with_quantifier here' ctx' m (cx_pi ctx' + 2) g (cx_pi ctx') (g + 2) rep"
      if "parse_quantifier (cx_pat ctx') (g + 2) (cx_pend ctx') r0 = Some (q, rep)" for q rep m
    proof -
      have "g + 2 \<le> rep_next_pi rep" using parse_quantifier_next [OF that] by (simp add: r0_def)
      then have "match_repeated here ctx' (group_inner_once_adapter here (cx_pi ctx' + 2) g) (cx_pi ctx') (g + 2) rep m
         = match_repeated here' ctx' (group_inner_once_adapter here' (cx_pi ctx' + 2) g) (cx_pi ctx') (g + 2) rep m"
        using b by (intro match_repeated_cong refl assms(3)) (simp_all add: group_inner_once_adapter_def inner)
      then show ?thesis by (simp add: match_group_with_quantifier_def)
    qed
    show ?thesis
      unfolding match_group_def Let_def assms(1,2) g_def [symmetric] r0_def [symmetric]
      using False by (simp add: wo wq cong: bind_cong2 if_cong)
  qed
qed

section \<open>The dispatcher\<close>

text \<open>What the four one-character branches of \<open>match_here\<close> share: the quantifier after the
  atom, then the repetition.\<close>

definition match_atom ::
  "here_fn \<Rightarrow> MatchContext \<Rightarrow> atom_once \<Rightarrow> int \<Rightarrow> int \<Rightarrow> BreMatch \<Rightarrow> once_res" where
  "match_atom here ctx atom_once atom_start atom_end m = do {
     (qr, rep) \<leftarrow> parse_quantifier (cx_pat ctx) atom_end (cx_pend ctx)
       \<lparr>rep_min = 1, rep_max = 1, rep_next_pi = atom_end\<rparr>;
     if qr = BRE_ERROR then Some (BRE_ERROR, 0, m)
     else do {
       (rr, total, prefix, m) \<leftarrow> match_repeated here ctx atom_once atom_start atom_end rep m;
       if rr \<noteq> BRE_OK then Some (rr, 0, m) else Some (BRE_OK, total, m) } }"

lemma match_atom_cong [fundef_cong]:
  assumes "ctx = ctx'" "atom_once = atom_once'" "atom_start = atom_start'" "atom_end = atom_end'" "m = m'"
    "\<And>c m. atom_end' \<le> cx_pi c \<Longrightarrow> cx_pend c = cx_pend ctx' \<Longrightarrow> here c m = here' c m"
  shows "match_atom here ctx atom_once atom_start atom_end m =
         match_atom here' ctx' atom_once' atom_start' atom_end' m'"
proof -
  have "match_repeated here ctx' atom_once' atom_start' atom_end' rep m
       = match_repeated here' ctx' atom_once' atom_start' atom_end' rep m"
    if "parse_quantifier (cx_pat ctx') atom_end' (cx_pend ctx')
       \<lparr>rep_min = 1, rep_max = 1, rep_next_pi = atom_end'\<rparr> = Some (q, rep)" for q rep m
    using parse_quantifier_next [OF that] by (intro match_repeated_cong refl assms(6)) simp_all
  then show ?thesis
    unfolding match_atom_def assms(1-5) by (simp cong: bind_cong2 if_cong)
qed

function match_here :: here_fn where
  "match_here ctx m =
     (if cx_pi ctx \<ge> cx_pend ctx then Some (BRE_OK, 0, m)
      else if at0 (cx_pat ctx) (cx_pi ctx) = CHR ''$'' \<and> cx_pi ctx + 1 = cx_pend ctx then do {
        t \<leftarrow> cstr_at (cx_text ctx) (cx_ti ctx);
        if t = NUL then Some (BRE_OK, 0, m) else Some (BRE_NOMATCH, 0, m) }
      else if at0 (cx_pat ctx) (cx_pi ctx) = BSL \<and> cx_pi ctx + 1 < cx_pend ctx \<and> 
            at0 (cx_pat ctx) (cx_pi ctx + 1) = CHR ''('' then do {
        (gr, pi', consumed, m) \<leftarrow> match_group match_here ctx m;
        if gr = BRE_OK then Some (BRE_OK, consumed, m)
        else if gr = BRE_NOMATCH then Some (BRE_NOMATCH, 0, m)
        else Some (gr, 0, m) }
      else if at0 (cx_pat ctx) (cx_pi ctx) = CHR ''['' then
        (let atom_end = find_class_end_simple (cx_pat ctx) (cx_pi ctx) (cx_pend ctx) in
         if atom_end < 0 then Some (BRE_ERROR, 0, m)
         else match_atom match_here ctx once_class (cx_pi ctx) atom_end m)
      else if at0 (cx_pat ctx) (cx_pi ctx) = CHR ''.''
      then match_atom match_here ctx once_dot (cx_pi ctx) (cx_pi ctx + 1) m
      else if at0 (cx_pat ctx) (cx_pi ctx) = BSL then
        (if cx_pi ctx + 1 \<ge> cx_pend ctx then Some (BRE_ERROR, 0, m)
         else if at0 (cx_pat ctx) (cx_pi ctx + 1) = CHR ''('' \<or> at0 (cx_pat ctx) (cx_pi ctx + 1) = CHR '')'' \<or>
                 at0 (cx_pat ctx) (cx_pi ctx + 1) = CHR ''{'' \<or> at0 (cx_pat ctx) (cx_pi ctx + 1) = CHR ''}'' then Some (BRE_ERROR, 0, m)
         else match_atom match_here ctx once_escape (cx_pi ctx) (cx_pi ctx + 2) m)
      else match_atom match_here ctx once_literal (cx_pi ctx) (cx_pi ctx + 1) m)"
  by pat_completeness auto
termination
proof (relation "measure (\<lambda>(ctx, m). nat (cx_pend ctx - cx_pi ctx))", goal_cases)
  case (3 ctx m e c ma)
  then have "cx_pi ctx + 1 < e" using find_class_end_simple_bounds by simp
  with 3 show ?case by simp
qed auto

declare match_here.simps [simp del]

section \<open>Sorting the captured groups\<close>

definition group_key :: "int \<times> int \<Rightarrow> int" where
  "group_key g = (if fst g < 0 then INT_MAX else fst g)"

text \<open>The inner loop of the insertion sort; \<open>p\<close> is \<open>j + 1\<close>. It returns the array and the
  place where the element taken out goes.\<close>

fun sort_inner :: "(int \<times> int) list \<Rightarrow> int \<Rightarrow> nat \<Rightarrow> (int \<times> int) list \<times> nat" where
  "sort_inner gs key 0 = (gs, 0)"
| "sort_inner gs key (Suc j) =
     (if group_key (gs ! j) \<le> key then (gs, Suc j)
      else sort_inner (gs[Suc j := gs ! j]) key j)"

function sort_outer :: "(int \<times> int) list \<Rightarrow> nat \<Rightarrow> nat \<Rightarrow> (int \<times> int) list" where
  "sort_outer gs i n =
     (if i < n then
        (let g = gs ! i; r = sort_inner gs (group_key g) i
         in sort_outer ((fst r)[snd r := g]) (i + 1) n)
      else gs)"
  by pat_completeness auto
termination
  by (relation "measure (\<lambda>(gs, i, n). n - i)") auto

declare sort_outer.simps [simp del]

definition bre_sort_groups_by_start :: "BreMatch \<Rightarrow> BreMatch" where
  "bre_sort_groups_by_start m =
     (if bm_num_groups m \<le> 1 then m
      else m\<lparr>bm_groups := sort_outer (bm_groups m) 1 (bm_num_groups m)\<rparr>)"

section \<open>The public interface\<close>

definition no_groups :: "BreMatch \<Rightarrow> BreMatch" where
  "no_groups m = m\<lparr>bm_groups := replicate BRE_MAX_GROUPS (- 1, 0), bm_num_groups := 0\<rparr>"

definition init_match :: BreMatch where
  "init_match = \<lparr>bm_start = - 1, bm_length = 0,
     bm_groups = replicate BRE_MAX_GROUPS (- 1, 0), bm_num_groups = 0\<rparr>"

text \<open>The loop over the start positions, \<open>for (s = 0; s <= tlen; s++)\<close>.\<close>

function try_starts :: "MatchContext \<Rightarrow> int \<Rightarrow> int \<Rightarrow> BreMatch \<Rightarrow> (BreResult \<times> BreMatch) option" where
  "try_starts base tlen s m =
     (if s \<le> tlen then do {
        (r, consumed, m) \<leftarrow> match_here (base\<lparr>cx_ti := s\<rparr>) (no_groups m);
        if r = BRE_ERROR then Some (BRE_ERROR, m)
        else if r = BRE_OK
        then Some (BRE_OK, bre_sort_groups_by_start (m\<lparr>bm_start := s, bm_length := consumed\<rparr>))
        else try_starts base tlen (s + 1) m }
      else Some (BRE_NOMATCH, m))"
  by pat_completeness auto
termination
  by (relation "measure (\<lambda>(base, tlen, s, m). nat (tlen + 1 - s))") auto

declare try_starts.simps [simp del]

definition base_context :: "string \<Rightarrow> string \<Rightarrow> MatchContext" where
  "base_context text pattern =
     \<lparr>cx_base = text, cx_text = text, cx_ti = 0, cx_pat = pattern,
      cx_pi = (if hd0 pattern = CHR ''^'' then 1 else 0), cx_pend = int (length pattern)\<rparr>"

definition bre_match :: "string \<Rightarrow> string \<Rightarrow> (BreResult \<times> BreMatch) option" where
  "bre_match text pattern =
     (if hd0 pattern = CHR ''^'' then do {
        (r, consumed, m) \<leftarrow> match_here (base_context text pattern) init_match;
        Some (r, if r = BRE_OK
                 then bre_sort_groups_by_start (m\<lparr>bm_start := 0, bm_length := consumed\<rparr>) else m) }
      else try_starts (base_context text pattern) (int (length text)) 0 init_match)"

text \<open>\<open>memcpy(p, text + s, l)\<close>: copying from outside the string is undefined, and so is a
  negative length, which \<open>size_t\<close> turns into a huge one.\<close>

definition copy_from :: "string \<Rightarrow> int \<Rightarrow> int \<Rightarrow> string option" where
  "copy_from text s l =
     (if 0 \<le> s \<and> 0 \<le> l \<and> s + l \<le> int (length text)
      then Some (take (nat l) (drop (nat s) text)) else None)"

text \<open>The reference \<open>\1\<close>..\<open>\9\<close> at the head of the replacement, as the group index.\<close>

definition group_ref :: "string \<Rightarrow> nat option" where
  "group_ref r =
     (if hd0 r = BSL \<and> 49 \<le> code (peek r 1) \<and> code (peek r 1) \<le> 57
      then Some (code (peek r 1) - 49) else None)"

definition group_set :: "BreMatch \<Rightarrow> nat \<Rightarrow> bool" where
  "group_set m g \<longleftrightarrow> g < bm_num_groups m \<and> fst (bm_groups m ! g) \<ge> 0"

text \<open>The first loop over the replacement computes its length, the second writes it.\<close>

function rep_length :: "BreMatch \<Rightarrow> string \<Rightarrow> int" where
  "rep_length m r =
     (if r = [] then 0
      else case group_ref r of
        Some g \<Rightarrow> (if group_set m g then snd (bm_groups m ! g) else 0) + rep_length m (drop 2 r)
      | None \<Rightarrow> 1 + rep_length m (drop 1 r))"
  by pat_completeness auto
termination
  by (relation "measure (\<lambda>(m, r). length r)") auto

function expand_replacement :: "string \<Rightarrow> BreMatch \<Rightarrow> string \<Rightarrow> string option" where
  "expand_replacement text m r =
     (if r = [] then Some []
      else case group_ref r of
        Some g \<Rightarrow> do {
          x \<leftarrow> (if group_set m g
               then copy_from text (fst (bm_groups m ! g)) (snd (bm_groups m ! g)) else Some []);
          y \<leftarrow> expand_replacement text m (drop 2 r);
          Some (x @ y) }
      | None \<Rightarrow> do { y \<leftarrow> expand_replacement text m (drop 1 r); Some (hd0 r # y) })"
  by pat_completeness auto
termination
  by (relation "measure (\<lambda>(text, m, r). length r)") auto

declare rep_length.simps [simp del] expand_replacement.simps [simp del]

text \<open>The inner option is the returned pointer (\<^term>\<open>None\<close> for \<open>NULL\<close>; allocation succeeds).
  Writing more than the \<open>out_len\<close> bytes allocated would be undefined.\<close>

definition bre_substitute :: "string \<Rightarrow> string \<Rightarrow> string \<Rightarrow> string option option" where
  "bre_substitute text pattern replacement = do {
     (mr, m) \<leftarrow> bre_match text pattern;
     if mr = BRE_ERROR then Some None
     else if mr = BRE_NOMATCH \<or> bm_start m < 0 then Some (Some text)
     else do {
       prefix \<leftarrow> copy_from text 0 (bm_start m);
       rep \<leftarrow> expand_replacement text m replacement;
       suffix \<leftarrow> copy_from text (bm_start m + bm_length m)
                  (int (length text) - bm_start m - bm_length m);
       let out_len = bm_start m + rep_length m replacement
                     + (int (length text) - bm_start m - bm_length m);
       if int (length (prefix @ rep @ suffix)) = out_len then Some (Some (prefix @ rep @ suffix))
       else None } }"

end
