(* ===== verification/BreSort.thy ===== *)
theory BreSort
  imports Bre
begin

text \<open>
  The insertion sort of the captured groups (\<open>bre_sort_groups_by_start\<close>) against the library's
  stable sort: the sorted prefix is \<open>sort_key group_key\<close> of the prefix, the rest is unchanged.
\<close>

lemma sorted_map_mid:
  assumes "sorted (map f l)" "sorted (map f r)" "\<And>y. y \<in> set l \<Longrightarrow> f y \<le> f x"
    "\<And>y. y \<in> set r \<Longrightarrow> f x < f y"
  shows "sorted (map f (l @ x # r))"
  using assms by (fastforce simp: sorted_append intro: less_imp_le order_trans)

lemma sort_key_snoc:
  "sort_key f (xs @ [x]) =
     takeWhile (\<lambda>y. f y \<le> f x) (sort_key f xs) @ x # dropWhile (\<lambda>y. f y \<le> f x) (sort_key f xs)"
  (is "_ = ?l @ x # ?r")
proof (rule properties_for_sort_key)
  have split: "?l @ ?r = sort_key f xs" by simp
  show "mset (?l @ x # ?r) = mset (xs @ [x])"
  proof -
    have "mset ?l + mset ?r = mset xs" using split by (metis mset_append mset_sort)
    then show ?thesis by simp
  qed
  have up: "f x < f y" if "y \<in> set ?r" for y
  proof -
    have s: "sorted (map f ?r)" using sorted_sort_key [of f xs] by (simp add: sorted_map sorted_wrt_dropWhile)
    obtain h t where ht: "?r = h # t" using \<open>y \<in> set ?r\<close> by (cases ?r) auto
    have "\<not> f h \<le> f x" using ht by (metis dropWhile_eq_Cons_conv)
    moreover have "f h \<le> f y" using that s ht by auto
    ultimately show ?thesis by simp
  qed
  have lo: "f y \<le> f x" if "y \<in> set ?l" for y using that by (auto dest: set_takeWhileD)
  show "filter (\<lambda>y. f k = f y) (?l @ x # ?r) = filter (\<lambda>y. f k = f y) (xs @ [x])"
    if "k \<in> set (?l @ x # ?r)" for k
  proof -
    have st: "filter (\<lambda>y. f k = f y) (sort_key f xs) = filter (\<lambda>y. f k = f y) xs"
      using sort_key_stable [of f "f k" xs] by (simp add: eq_commute)
    then have e: "filter (\<lambda>y. f k = f y) ?l @ filter (\<lambda>y. f k = f y) ?r = filter (\<lambda>y. f k = f y) xs"
      by (metis filter_append split)
    show ?thesis
    proof (cases "f k = f x")
      case True
      then have "filter (\<lambda>y. f k = f y) ?r = []" using up by (fastforce simp: filter_empty_conv)
      then show ?thesis using e True by simp
    next
      case False
      then show ?thesis using e by simp
    qed
  qed
  have "sorted (map f ?l)" "sorted (map f ?r)"
    using sorted_sort_key [of f xs] by (simp_all add: sorted_map sorted_wrt_takeWhile sorted_wrt_dropWhile)
  then show "sorted (map f (?l @ x # ?r))"
    by (rule sorted_map_mid) (erule lo up)+
qed

lemma takeWhile_none: "(\<And>y. y \<in> set h \<Longrightarrow> \<not> Q y) \<Longrightarrow> takeWhile Q h = [] \<and> dropWhile Q h = h"
  by (cases h) auto

lemma sort_inner_props:
  assumes "j < length gs" "sort_inner gs k j = (gs', p)"
  shows "p \<le> j \<and> length gs' = length gs
    \<and> gs'[p := g] = take p gs @ g # take (j - p) (drop p gs) @ drop (Suc j) gs
    \<and> (\<forall>i. p \<le> i \<and> i < j \<longrightarrow> k < group_key (gs ! i)) \<and> (0 < p \<longrightarrow> group_key (gs ! (p - 1)) \<le> k)"
  using assms
proof (induction gs k j arbitrary: gs' p rule: sort_inner.induct)
  case (1 gs k)
  then show ?case by (auto simp: upd_conv_take_nth_drop)
next
  case (2 gs k j)
  show ?case
  proof (cases "group_key (gs ! j) \<le> k")
    case True
    then show ?thesis using 2 by (auto simp: upd_conv_take_nth_drop)
  next
    case False
    let ?gs = "gs[Suc j := gs ! j]"
    have IH: "p \<le> j \<and> length gs' = length ?gs
      \<and> gs'[p := g] = take p ?gs @ g # take (j - p) (drop p ?gs) @ drop (Suc j) ?gs
      \<and> (\<forall>i. p \<le> i \<and> i < j \<longrightarrow> k < group_key (?gs ! i)) \<and> (0 < p \<longrightarrow> group_key (?gs ! (p - 1)) \<le> k)"
      using 2 False by (intro "2.IH") auto
    have d: "drop (Suc j) ?gs = gs ! j # drop (Suc (Suc j)) gs"
      using 2(2) by (simp add: Cons_nth_drop_Suc [symmetric])
    have t: "take (Suc j - p) (drop p gs) = take (j - p) (drop p gs) @ [gs ! j]"
    proof -
      have "Suc j - p = Suc (j - p)" "j - p < length (drop p gs)" "drop p gs ! (j - p) = gs ! j"
        using 2(2) IH by auto
      then show ?thesis by (simp only: take_Suc_conv_app_nth)
    qed
    have "k < group_key (gs ! i)" if "p \<le> i" "i < Suc j" for i
    proof (cases "i = j")
      case True
      then show ?thesis using False by simp
    next
      case i: False
      then have "k < group_key (?gs ! i)" using IH that by auto
      then show ?thesis using i that by simp
    qed
    moreover have "take (j - p) (drop p ?gs) = take (j - p) (drop p gs)"
      using IH by (simp add: drop_update_swap)
    ultimately show ?thesis using IH d t 2(2) by auto
  qed
qed

lemma sort_inner_insert:
  assumes "i < length gs" "sort_inner gs (group_key g) i = (gs', p)" "sorted (map group_key (take i gs))"
  shows "gs'[p := g] = takeWhile (\<lambda>y. group_key y \<le> group_key g) (take i gs) @ g #
           dropWhile (\<lambda>y. group_key y \<le> group_key g) (take i gs) @ drop (Suc i) gs"
proof -
  have P: "p \<le> i" "gs'[p := g] = take p gs @ g # take (i - p) (drop p gs) @ drop (Suc i) gs"
    "\<forall>j. p \<le> j \<and> j < i \<longrightarrow> group_key g < group_key (gs ! j)" "0 < p \<longrightarrow> group_key (gs ! (p - 1)) \<le> group_key g"
    using sort_inner_props [OF assms(1,2), of g] by auto
  have split: "take i gs = take p gs @ take (i - p) (drop p gs)"
    using P(1) by (metis append_take_drop_id drop_take min.absorb1 take_take)
  have lo: "group_key y \<le> group_key g" if "y \<in> set (take p gs)" for y
  proof -
    obtain j where j: "j < p" "y = gs ! j" "j < length gs"
      using \<open>y \<in> set (take p gs)\<close> by (auto simp: in_set_conv_nth)
    have "map group_key (take i gs) ! j \<le> map group_key (take i gs) ! (p - 1)"
      using j P(1) assms by (intro sorted_nth_mono) auto
    then have "group_key y \<le> group_key (gs ! (p - 1))" using j P(1) assms(1) by simp
    then show ?thesis using P(4) j by simp
  qed
  have hi: "\<not> group_key y \<le> group_key g" if "y \<in> set (take (i - p) (drop p gs))" for y
  proof -
    obtain j where "j < i - p" "y = gs ! (p + j)"
      using \<open>y \<in> set (take (i - p) (drop p gs))\<close> by (auto simp: in_set_conv_nth)
    then show ?thesis using P(3) by (simp add: not_le)
  qed
  have tw: "takeWhile (\<lambda>y. group_key y \<le> group_key g) (take i gs) = take p gs"
    "dropWhile (\<lambda>y. group_key y \<le> group_key g) (take i gs) = take (i - p) (drop p gs)"
  proof -
    let ?Q = "\<lambda>y. group_key y \<le> group_key g" and ?h = "take (i - p) (drop p gs)"
    have "takeWhile ?Q ?h = [] \<and> dropWhile ?Q ?h = ?h" by (rule takeWhile_none) (rule hi)
    then show "takeWhile ?Q (take i gs) = take p gs" "dropWhile ?Q (take i gs) = ?h"
      unfolding split using lo by (simp_all add: takeWhile_append2 dropWhile_append2)
  qed
  show ?thesis using P(2) tw by simp
qed

lemma sort_outer_eq:
  assumes "i \<le> n" "n \<le> length gs0" "length gs = length gs0"
    "take i gs = sort_key group_key (take i gs0)" "drop i gs = drop i gs0"
  shows "sort_outer gs i n = sort_key group_key (take n gs0) @ drop n gs0"
  using assms
proof (induction gs i n rule: sort_outer.induct)
  case (1 gs i n)
  show ?case
  proof (cases "i < n")
    case False
    then have "i = n" using 1(2) by simp
    then have "gs = sort_key group_key (take n gs0) @ drop n gs0"
      using 1(5,6) by (metis append_take_drop_id)
    then show ?thesis using False by (subst sort_outer.simps) simp
  next
    case True
    obtain gs' p where r: "sort_inner gs (group_key (gs ! i)) i = (gs', p)" by fastforce
    have il: "i < length gs0" "i < length gs" using True 1(3,4) by auto
    have gi: "gs ! i = gs0 ! i" using 1(6) il by (metis hd_drop_conv_nth)
    have srt: "sorted (map group_key (take i gs))" using 1(5) by simp
    let ?P = "\<lambda>y. group_key y \<le> group_key (gs ! i)"
    have e: "gs'[p := gs ! i] = takeWhile ?P (take i gs) @ gs ! i # dropWhile ?P (take i gs) @ drop (Suc i) gs"
      by (rule sort_inner_insert [OF il(2) r srt])
    have t0: "take (i + 1) gs0 = take i gs0 @ [gs0 ! i]" using il by (simp add: take_Suc_conv_app_nth)
    have L: "length (takeWhile ?P (take i gs) @ gs ! i # dropWhile ?P (take i gs)) = i + 1"
      using il by (metis (no_types, lifting) Suc_eq_plus1 add_Suc_right length_Cons length_append length_take
          min.absorb4 takeWhile_dropWhile_id)
    have "gs'[p := gs ! i] = sort_key group_key (take (i + 1) gs0) @ drop (i + 1) gs0"
      using e 1(5,6) gi t0 by (simp add: sort_key_snoc drop_Suc) (metis drop_Suc tl_drop)
    then have "sort_outer (gs'[p := gs ! i]) (i + 1) n = sort_key group_key (take n gs0) @ drop n gs0"
      using 1(1)[OF True refl refl] r 1(2-4) True by (simp add: Let_def)
    then show ?thesis using True r by (subst sort_outer.simps) (simp add: Let_def)
  qed
qed

lemma bre_sort_groups_eq:
  assumes "bm_num_groups m \<le> length (bm_groups m)"
  shows "bm_groups (bre_sort_groups_by_start m) =
    sort_key group_key (take (bm_num_groups m) (bm_groups m)) @ drop (bm_num_groups m) (bm_groups m)"
proof (cases "bm_num_groups m \<le> 1")
  case True
  then have "sort_key group_key (take (bm_num_groups m) (bm_groups m)) = take (bm_num_groups m) (bm_groups m)"
    by (cases "bm_groups m") (auto simp: take_Suc le_Suc_eq)
  then show ?thesis using True by (simp add: bre_sort_groups_by_start_def)
next
  case False
  then have "take 1 (bm_groups m) = sort_key group_key (take 1 (bm_groups m))"
    using assms by (cases "bm_groups m") auto
  then show ?thesis using False assms
    using sort_outer_eq [of 1 "bm_num_groups m" "bm_groups m" "bm_groups m"]
    by (simp add: bre_sort_groups_by_start_def)
qed

lemma bre_sort_groups_frame [simp]:
  "bm_start (bre_sort_groups_by_start m) = bm_start m"
  "bm_length (bre_sort_groups_by_start m) = bm_length m"
  "bm_num_groups (bre_sort_groups_by_start m) = bm_num_groups m"
  by (simp_all add: bre_sort_groups_by_start_def)

end
