(* ===== verification/BreSafety.thy ===== *)
theory BreSafety
  imports BreSort
begin

text \<open>
  Memory safety of the matcher. For a pattern in which no group carries an unbounded
  quantifier and no number overflows \<open>atoi\<close> (\<open>safe_pattern\<close>), \<open>match_here\<close> never reads outside
  the text, and every offset and length it hands out lies inside the text; \<open>bre_match\<close> and
  \<open>bre_substitute\<close> inherit this.
\<close>

section \<open>Safe patterns and safe results\<close>

definition reps_small :: "string \<Rightarrow> bool" where
  "reps_small pat \<longleftrightarrow> (\<forall>i \<in> set [0..int (length pat)]. atoi_at pat i \<noteq> None)"

definition unit_rep :: "int \<Rightarrow> BreRepetition" where
  "unit_rep a = \<lparr>rep_min = 1, rep_max = 1, rep_next_pi = a\<rparr>"

definition bounded_groups :: "string \<Rightarrow> bool" where
  "bounded_groups pat \<longleftrightarrow>
     (\<forall>a \<in> set [2..int (length pat)]. \<forall>e \<in> set [0..int (length pat)].
        at0 pat (a - 2) = BSL \<and> at0 pat (a - 1) = CHR '')'' \<longrightarrow>
        (case parse_quantifier pat a e (unit_rep a) of
           Some (BRE_OK, rep) \<Rightarrow> 0 \<le> rep_max rep | _ \<Rightarrow> True))"

definition safe_pattern :: "string \<Rightarrow> bool" where
  "safe_pattern pat \<longleftrightarrow> reps_small pat \<and> bounded_groups pat"

definition group_ok :: "string \<Rightarrow> int \<times> int \<Rightarrow> bool" where
  "group_ok text g \<longleftrightarrow> 0 \<le> fst g \<and> 0 \<le> snd g \<and> fst g + snd g \<le> int (length text)"

definition match_ok :: "string \<Rightarrow> BreMatch \<Rightarrow> bool" where
  "match_ok text m \<longleftrightarrow> length (bm_groups m) = BRE_MAX_GROUPS \<and> bm_num_groups m \<le> BRE_MAX_GROUPS
     \<and> (\<forall>i < bm_num_groups m. group_ok text (bm_groups m ! i))"

definition safe_res :: "string \<Rightarrow> int \<Rightarrow> once_res \<Rightarrow> bool" where
  "safe_res text t x \<longleftrightarrow>
     (\<exists>r n m. x = Some (r, n, m) \<and> match_ok text m \<and> r \<in> {BRE_OK, BRE_NOMATCH, BRE_ERROR}
        \<and> (r = BRE_OK \<longrightarrow> 0 \<le> n \<and> t + n \<le> int (length text)))"

lemma safe_resI:
  "match_ok text m \<Longrightarrow> r \<in> {BRE_OK, BRE_NOMATCH, BRE_ERROR} \<Longrightarrow>
   (r = BRE_OK \<Longrightarrow> 0 \<le> n \<and> t + n \<le> int (length text)) \<Longrightarrow> safe_res text t (Some (r, n, m))"
  by (auto simp: safe_res_def)

lemma safe_resE:
  assumes "safe_res text t x"
  obtains r n m where "x = Some (r, n, m)" "match_ok text m" "r \<in> {BRE_OK, BRE_NOMATCH, BRE_ERROR}"
    "r = BRE_OK \<longrightarrow> 0 \<le> n \<and> t + n \<le> int (length text)"
  using assms by (auto simp: safe_res_def)

lemma match_ok_record:
  "match_ok text m \<Longrightarrow> group_ok text (s, l) \<Longrightarrow> bm_num_groups m < BRE_MAX_GROUPS \<Longrightarrow>
   match_ok text (record_group s l m)"
  by (auto simp: match_ok_def record_group_def nth_list_update less_Suc_eq)

lemma match_ok_no_groups [simp]: "match_ok text (no_groups m)" "match_ok text init_match"
  by (auto simp: match_ok_def no_groups_def init_match_def)

section \<open>The quantifier parser on safe patterns\<close>

lemma atoi_defined:
  assumes "reps_small pat" "0 \<le> i" "i \<le> int (length pat)"
  shows "\<exists>v \<ge> 0. atoi_at pat i = Some v"
proof -
  have "atoi_at pat i \<noteq> None" using assms by (auto simp: reps_small_def)
  moreover have "0 \<le> dec_val 0 (takeWhile isdigit (drop (nat i) pat))"
    using dec_val_mono [of 0] set_takeWhileD by (metis order_refl)
  ultimately show ?thesis by (auto simp: atoi_at_def Let_def split: if_splits)
qed

lemma skip_digits_le: "j \<le> pend \<Longrightarrow> skip_digits pat j pend \<le> pend"
proof (induction pat j pend rule: skip_digits.induct)
  case (1 pat j pend)
  then show ?case by (subst skip_digits.simps) auto
qed

lemma parse_bre_repetition_safe:
  assumes "reps_small pat" "0 \<le> a" "pend \<le> int (length pat)"
  shows "\<exists>q rep'. parse_bre_repetition pat a pend rep = Some (q, rep') \<and>
    (q = BRE_NOMATCH \<longrightarrow> rep' = rep) \<and> q \<in> {BRE_OK, BRE_NOMATCH, BRE_ERROR} \<and>
    (q = BRE_OK \<longrightarrow> 0 \<le> rep_min rep' \<and> rep_max rep' \<le> RE_DUP_MAX)"
proof -
  let ?j = "skip_digits pat (a + 2) pend"
  have mn: "\<exists>v \<ge> 0. atoi_at pat (a + 2) = Some v" if "a + 5 \<le> pend"
    using that assms by (intro atoi_defined) auto
  have mx: "\<exists>v \<ge> 0. atoi_at pat (?j + 1) = Some v" if "a + 5 \<le> pend" "?j + 1 < pend"
  proof -
    have "a + 2 \<le> ?j" by (rule skip_digits_ge)
    with that assms show ?thesis by (intro atoi_defined) auto
  qed
  show ?thesis
  proof (cases "a + 5 \<le> pend")
    case False
    then show ?thesis by (simp add: parse_bre_repetition_def)
  next
    case True
    then obtain v where v: "0 \<le> v" "atoi_at pat (a + 2) = Some v" using mn by blast
    show ?thesis
    proof (cases "?j + 1 < pend")
      case False
      then show ?thesis using True v by (simp add: parse_bre_repetition_def Let_def)
    next
      case j: True
      then obtain w where w: "0 \<le> w" "atoi_at pat (?j + 1) = Some w" using mx True by blast
      show ?thesis using True j v w by (simp add: parse_bre_repetition_def Let_def)
    qed
  qed
qed

lemma parse_quantifier_safe:
  assumes "reps_small pat" "0 \<le> a" "pend \<le> int (length pat)"
  obtains q rep where "parse_quantifier pat a pend (unit_rep a) = Some (q, rep)"
    "q \<in> {BRE_OK, BRE_NOMATCH, BRE_ERROR}" "q = BRE_NOMATCH \<Longrightarrow> rep = unit_rep a"
    "q \<noteq> BRE_ERROR \<Longrightarrow> 0 \<le> rep_min rep" "q \<noteq> BRE_ERROR \<Longrightarrow> rep_max rep \<le> RE_DUP_MAX"
    "a \<le> rep_next_pi rep"
proof -
  obtain q rep where q: "parse_bre_repetition pat a pend (unit_rep a) = Some (q, rep)"
    "q = BRE_NOMATCH \<longrightarrow> rep = unit_rep a" "q \<in> {BRE_OK, BRE_NOMATCH, BRE_ERROR}"
    "q = BRE_OK \<longrightarrow> 0 \<le> rep_min rep \<and> rep_max rep \<le> RE_DUP_MAX"
    using parse_bre_repetition_safe [OF assms, of "unit_rep a"] by blast
  have n: "a \<le> rep_next_pi rep"
    using parse_bre_repetition_next [OF q(1)] by (simp add: unit_rep_def)
  have "\<exists>q rep. parse_quantifier pat a pend (unit_rep a) = Some (q, rep) \<and>
    q \<in> {BRE_OK, BRE_NOMATCH, BRE_ERROR} \<and> (q = BRE_NOMATCH \<longrightarrow> rep = unit_rep a) \<and>
    (q \<noteq> BRE_ERROR \<longrightarrow> 0 \<le> rep_min rep \<and> rep_max rep \<le> RE_DUP_MAX) \<and> a \<le> rep_next_pi rep"
    using q n by (cases q) (auto simp: parse_quantifier_def unit_rep_def)
  then show thesis using that by blast
qed

section \<open>The repetition loops\<close>

text \<open>Where \<open>tpos\<close> is after \<open>have\<close> occurrences: past the first 256, every advance was 1.\<close>

definition adv_inv :: "int \<Rightarrow> int \<Rightarrow> nat \<Rightarrow> int list \<Rightarrow> bool" where
  "adv_inv ti tpos have advs \<longleftrightarrow> min have 256 \<le> length advs \<and> length advs \<le> 256
     \<and> (\<forall>a \<in> set advs. 0 \<le> a) \<and> tpos = ti + sum_list (take have advs) + int (have - 256)"

lemma adv_inv_pos: "adv_inv ti tpos have advs \<Longrightarrow> ti \<le> tpos"
proof -
  assume a: "adv_inv ti tpos have advs"
  then have "0 \<le> sum_list (take have advs)"
    by (intro sum_list_nonneg) (auto simp: adv_inv_def dest: in_set_takeD)
  with a show "ti \<le> tpos" by (simp add: adv_inv_def)
qed

lemma adv_inv_push:
  assumes "adv_inv ti tpos have advs" "length advs = min have 256" "0 \<le> adv" "adv = 1 \<or> have < 256"
  shows "adv_inv ti (tpos + adv) (have + 1) (if have < 256 then advs @ [adv] else advs)"
  using assms by (auto simp: adv_inv_def)

lemma adv_inv_pop:
  assumes "adv_inv ti tpos have advs" "have \<noteq> 0"
  shows "adv_inv ti (tpos - (if have \<le> 256 then advs ! (have - 1) else 1)) (have - 1) advs"
proof (cases "have \<le> 256")
  case True
  then obtain n where n: "have = Suc n" "n < length advs"
    using assms by (cases "have") (auto simp: adv_inv_def)
  then have "take have advs = take n advs @ [advs ! n]" by (simp add: take_Suc_conv_app_nth)
  then show ?thesis using assms True n by (auto simp: adv_inv_def)
next
  case False
  then show ?thesis using assms by (auto simp: adv_inv_def)
qed

lemma rep_forward_safe:
  assumes once: "\<And>t m. ti \<le> t \<Longrightarrow> t \<le> int (length text) \<Longrightarrow> match_ok text m \<Longrightarrow> safe_res text t (once t m)"
    and one: "\<And>t m adv m'. once t m = Some (BRE_OK, adv, m') \<Longrightarrow> adv = 1 \<or> mp \<le> 256"
    and inv: "adv_inv ti tpos have advs" "length advs = min have 256" "tpos \<le> int (length text)"
      "match_ok text m"
  shows "\<exists>r tpos' have' advs' m'. rep_forward once mp tpos have advs m = Some (r, tpos', have', advs', m')
    \<and> r \<in> {BRE_OK, BRE_ERROR} \<and> match_ok text m'
    \<and> (r = BRE_OK \<longrightarrow> adv_inv ti tpos' have' advs' \<and> tpos' \<le> int (length text))"
  using inv
proof (induction "nat (mp - int have)" arbitrary: tpos "have" advs m rule: less_induct)
  case less
  show ?case
  proof (cases "int have < mp")
    case False
    then show ?thesis using less.prems by (subst rep_forward.simps) simp
  next
    case True
    have "safe_res text tpos (once tpos m)"
      using less.prems adv_inv_pos by (intro once) auto
    then obtain r adv m' where o: "once tpos m = Some (r, adv, m')" "match_ok text m'"
      "r \<in> {BRE_OK, BRE_NOMATCH, BRE_ERROR}"
      "r = BRE_OK \<longrightarrow> 0 \<le> adv \<and> tpos + adv \<le> int (length text)"
      by (rule safe_resE)
    show ?thesis
    proof (cases "r = BRE_OK")
      case False
      then show ?thesis using True o less.prems by (subst rep_forward.simps) auto
    next
      case ok: True
      let ?advs = "if have < 256 then advs @ [adv] else advs"
      have "adv = 1 \<or> have < 256" using one o(1) ok True by fastforce
      then have "adv_inv ti (tpos + adv) (have + 1) ?advs"
        using less.prems o ok by (intro adv_inv_push) auto
      moreover have "length ?advs = min (have + 1) 256" using less.prems by auto
      ultimately show ?thesis
        using less.hyps [of "have + 1" "tpos + adv" ?advs m'] True o ok
        by (subst rep_forward.simps) simp
    qed
  qed
qed

lemma rep_back_safe:
  assumes here: "\<And>t m. cx_ti ctx \<le> t \<Longrightarrow> t \<le> int (length text) \<Longrightarrow> match_ok text m \<Longrightarrow>
      safe_res text t (here (ctx\<lparr>cx_ti := t, cx_pi := rep_next_pi rep\<rparr>) m)"
    and inv: "adv_inv (cx_ti ctx) tpos have advs" "tpos \<le> int (length text)" "match_ok text m"
  shows "\<exists>r total prefix m'. rep_back here ctx rep advs tpos have m = Some (r, total, prefix, m')
    \<and> r \<in> {BRE_OK, BRE_NOMATCH, BRE_ERROR} \<and> match_ok text m'
    \<and> (r = BRE_OK \<longrightarrow> 0 \<le> prefix \<and> prefix \<le> total \<and> cx_ti ctx + total \<le> int (length text))"
  using inv
proof (induction "have" arbitrary: tpos m)
  case (0 tpos m)
  then have "safe_res text tpos (here (ctx\<lparr>cx_ti := tpos, cx_pi := rep_next_pi rep\<rparr>) m)"
    using adv_inv_pos by (intro here) auto
  then show ?case
    using adv_inv_pos [OF 0(1)] 0(3) by (elim safe_resE, subst rep_back.simps) auto
next
  case (Suc n tpos m)
  let ?tp = "tpos - (if Suc n \<le> 256 then advs ! n else 1)"
  have pos: "cx_ti ctx \<le> tpos" using adv_inv_pos [OF Suc.prems(1)] .
  have pop: "adv_inv (cx_ti ctx) ?tp n advs" using adv_inv_pop [OF Suc.prems(1)] by (auto split: if_splits)
  have "?tp \<le> tpos" using Suc.prems(1) by (auto simp: adv_inv_def)
  then have tp: "?tp \<le> int (length text)" using Suc.prems(2) by simp
  have "safe_res text tpos (here (ctx\<lparr>cx_ti := tpos, cx_pi := rep_next_pi rep\<rparr>) m)"
    using pos Suc.prems by (intro here)
  then obtain rr rest m' where h: "here (ctx\<lparr>cx_ti := tpos, cx_pi := rep_next_pi rep\<rparr>) m = Some (rr, rest, m')"
    "match_ok text m'" "rr \<in> {BRE_OK, BRE_NOMATCH, BRE_ERROR}"
    "rr = BRE_OK \<longrightarrow> 0 \<le> rest \<and> tpos + rest \<le> int (length text)"
    by (rule safe_resE)
  show ?case
    using Suc.IH [OF pop tp h(2)] h pos Suc.prems(3)
    by (subst rep_back.simps) auto
qed

lemma match_repeated_safe:
  assumes "0 \<le> cx_ti ctx" "cx_ti ctx \<le> int (length text)" "match_ok text m"
    "\<And>t m. cx_ti ctx \<le> t \<Longrightarrow> t \<le> int (length text) \<Longrightarrow> match_ok text m \<Longrightarrow>
       safe_res text t (atom_once ctx atom_start atom_end t m)"
    "\<And>t m adv m'. atom_once ctx atom_start atom_end t m = Some (BRE_OK, adv, m') \<Longrightarrow>
       adv = 1 \<or> (0 \<le> rep_max rep \<and> rep_max rep \<le> 256)"
    "\<And>t m. cx_ti ctx \<le> t \<Longrightarrow> t \<le> int (length text) \<Longrightarrow> match_ok text m \<Longrightarrow>
      safe_res text t (here (ctx\<lparr>cx_ti := t, cx_pi := rep_next_pi rep\<rparr>) m)"
  shows "\<exists>r total prefix m'.
      match_repeated here ctx atom_once atom_start atom_end rep m = Some (r, total, prefix, m')
    \<and> r \<in> {BRE_OK, BRE_NOMATCH, BRE_ERROR} \<and> match_ok text m'
    \<and> (r = BRE_OK \<longrightarrow> 0 \<le> prefix \<and> prefix \<le> total \<and> cx_ti ctx + total \<le> int (length text))"
proof -
  let ?mp = "if rep_max rep < 0 then 10000 else rep_max rep"
  have "adv_inv (cx_ti ctx) (cx_ti ctx) 0 []" by (simp add: adv_inv_def)
  moreover have "adv = 1 \<or> ?mp \<le> 256"
    if "atom_once ctx atom_start atom_end t m = Some (BRE_OK, adv, m')" for t m adv m'
    using assms(5) [OF that] by auto
  ultimately obtain r tpos "have" advs m' where f:
    "rep_forward (atom_once ctx atom_start atom_end) ?mp (cx_ti ctx) 0 [] m = Some (r, tpos, have, advs, m')"
    "r \<in> {BRE_OK, BRE_ERROR}" "match_ok text m'"
    "r = BRE_OK \<longrightarrow> adv_inv (cx_ti ctx) tpos have advs \<and> tpos \<le> int (length text)"
    using rep_forward_safe [of "cx_ti ctx" "text" "atom_once ctx atom_start atom_end" ?mp "cx_ti ctx" 0 "[]" m]
      assms(2-4) by auto
  show ?thesis
  proof (cases "r = BRE_OK")
    case False
    then show ?thesis using f by (simp add: match_repeated_def)
  next
    case True
    then show ?thesis
      using f rep_back_safe [of ctx "text" here rep tpos "have" advs m', OF assms(6)]
      by (simp add: match_repeated_def)
  qed
qed

section \<open>Atoms\<close>

lemma once_atoms_one:
  "once_literal ctx a b t m = Some (BRE_OK, adv, m') \<Longrightarrow> adv = 1"
  "once_dot ctx a b t m = Some (BRE_OK, adv, m') \<Longrightarrow> adv = 1"
  "once_escape ctx a b t m = Some (BRE_OK, adv, m') \<Longrightarrow> adv = 1"
  "once_class ctx a b t m = Some (BRE_OK, adv, m') \<Longrightarrow> adv = 1"
  by (auto simp: once_literal_def once_dot_def once_escape_def once_class_def Let_def
      bind_eq_Some_conv split: if_splits)

lemma once_atoms_safe:
  assumes "0 \<le> t" "t \<le> int (length (cx_text ctx))" "match_ok (cx_text ctx) m"
  shows "safe_res (cx_text ctx) t (once_literal ctx a b t m)"
    "safe_res (cx_text ctx) t (once_dot ctx a b t m)"
    "safe_res (cx_text ctx) t (once_escape ctx a b t m)"
    "safe_res (cx_text ctx) t (once_class ctx a b t m)"
proof -
  obtain c where c: "cstr_at (cx_text ctx) t = Some c" using cstr_at_defined assms by blast
  have "t + 1 \<le> int (length (cx_text ctx))" if "c \<noteq> NUL"
    using cstr_at_inside [OF c that] by simp
  then show "safe_res (cx_text ctx) t (once_literal ctx a b t m)"
    "safe_res (cx_text ctx) t (once_dot ctx a b t m)"
    "safe_res (cx_text ctx) t (once_escape ctx a b t m)"
    "safe_res (cx_text ctx) t (once_class ctx a b t m)"
    using assms c
    by (auto simp: once_literal_def once_dot_def once_escape_def once_class_def Let_def
        intro!: safe_resI)
qed

lemma match_atom_safe:
  assumes "reps_small (cx_pat ctx)" "0 \<le> atom_end" "cx_pend ctx \<le> int (length (cx_pat ctx))"
    "0 \<le> cx_ti ctx" "cx_ti ctx \<le> int (length (cx_text ctx))" "match_ok (cx_text ctx) m"
    and atom: "atom_once \<in> {once_literal, once_dot, once_escape, once_class}"
    and here: "\<And>c m. cx_pat c = cx_pat ctx \<Longrightarrow> cx_text c = cx_text ctx \<Longrightarrow> cx_pend c = cx_pend ctx \<Longrightarrow>
       atom_end \<le> cx_pi c \<Longrightarrow> 0 \<le> cx_ti c \<Longrightarrow> cx_ti c \<le> int (length (cx_text ctx)) \<Longrightarrow>
       match_ok (cx_text ctx) m \<Longrightarrow> safe_res (cx_text ctx) (cx_ti c) (here c m)"
  shows "safe_res (cx_text ctx) (cx_ti ctx) (match_atom here ctx atom_once atom_start atom_end m)"
proof -
  obtain q rep where q: "parse_quantifier (cx_pat ctx) atom_end (cx_pend ctx) (unit_rep atom_end) = Some (q, rep)"
    "atom_end \<le> rep_next_pi rep"
    using parse_quantifier_safe [OF assms(1-3)] by blast
  have o: "safe_res (cx_text ctx) t (atom_once ctx atom_start atom_end t m)"
    if "cx_ti ctx \<le> t" "t \<le> int (length (cx_text ctx))" "match_ok (cx_text ctx) m" for t m
    using atom once_atoms_safe [of t ctx m] that assms(4) by auto
  have one: "adv = 1" if "atom_once ctx atom_start atom_end t m = Some (BRE_OK, adv, m')" for t m adv m'
    using atom that once_atoms_one by auto
  have h: "safe_res (cx_text ctx) t (here (ctx\<lparr>cx_ti := t, cx_pi := rep_next_pi rep\<rparr>) m)"
    if "cx_ti ctx \<le> t" "t \<le> int (length (cx_text ctx))" "match_ok (cx_text ctx) m" for t m
    using here [of "ctx\<lparr>cx_ti := t, cx_pi := rep_next_pi rep\<rparr>" m] that q(2) assms(4) by simp
  have "\<exists>r total prefix m'.
      match_repeated here ctx atom_once atom_start atom_end rep m = Some (r, total, prefix, m')
    \<and> r \<in> {BRE_OK, BRE_NOMATCH, BRE_ERROR} \<and> match_ok (cx_text ctx) m'
    \<and> (r = BRE_OK \<longrightarrow> 0 \<le> prefix \<and> prefix \<le> total \<and> cx_ti ctx + total \<le> int (length (cx_text ctx)))"
  proof (rule match_repeated_safe [OF assms(4-6)], goal_cases)
    case (2 t m adv m')
    then show ?case using one by blast
  qed (blast intro: o h)+
  then obtain r total prefix m' where
    "match_repeated here ctx atom_once atom_start atom_end rep m = Some (r, total, prefix, m')"
    "r \<in> {BRE_OK, BRE_NOMATCH, BRE_ERROR}" "match_ok (cx_text ctx) m'"
    "r = BRE_OK \<longrightarrow> 0 \<le> prefix \<and> prefix \<le> total \<and> cx_ti ctx + total \<le> int (length (cx_text ctx))"
    by blast
  then show ?thesis
    using q(1) assms(6) by (auto simp: match_atom_def unit_rep_def intro!: safe_resI)
qed

section \<open>Groups\<close>

definition here_safe :: "MatchContext \<Rightarrow> here_fn \<Rightarrow> bool" where
  "here_safe ctx here \<longleftrightarrow>
     (\<forall>c m. cx_pat c = cx_pat ctx \<and> cx_text c = cx_text ctx \<and> 0 \<le> cx_pi c \<and> cx_pend c \<le> int (length (cx_pat ctx))
        \<and> nat (cx_pend c - cx_pi c) < nat (cx_pend ctx - cx_pi ctx)
        \<and> 0 \<le> cx_ti c \<and> cx_ti c \<le> int (length (cx_text ctx)) \<and> match_ok (cx_text ctx) m
        \<longrightarrow> safe_res (cx_text ctx) (cx_ti c) (here c m))"

lemma here_safeD:
  "here_safe ctx here \<Longrightarrow> cx_pat c = cx_pat ctx \<Longrightarrow> cx_text c = cx_text ctx \<Longrightarrow> 0 \<le> cx_pi c \<Longrightarrow>
   cx_pend c \<le> int (length (cx_pat ctx)) \<Longrightarrow>
   nat (cx_pend c - cx_pi c) < nat (cx_pend ctx - cx_pi ctx) \<Longrightarrow>
   0 \<le> cx_ti c \<Longrightarrow> cx_ti c \<le> int (length (cx_text ctx)) \<Longrightarrow> match_ok (cx_text ctx) m \<Longrightarrow>
   safe_res (cx_text ctx) (cx_ti c) (here c m)"
  by (auto simp: here_safe_def)

lemma scan_end_eq:
  assumes "0 \<le> t" "t \<le> int (length s)" "no_nul s"
  shows "scan_end s t = Some (int (length s))"
  using assms
proof (induction "nat (int (length s) - t)" arbitrary: t rule: less_induct)
  case less
  obtain c where c: "cstr_at s t = Some c" using cstr_at_defined less.prems by blast
  show ?case
  proof (cases "c = NUL")
    case True
    then show ?thesis using c cstr_at_NUL_end [OF less.prems(3)] by (subst scan_end.simps) auto
  next
    case False
    then show ?thesis using c less cstr_at_inside [OF c] by (subst scan_end.simps) auto
  qed
qed

lemma once_group_inner_safe:
  assumes "safe_res text t (here (ctx\<lparr>cx_ti := t, cx_pi := is, cx_pend := ie\<rparr>) m)"
  shows "safe_res text t (once_group_inner here ctx is ie t m)"
  using assms by (elim safe_resE) (auto simp: once_group_inner_def intro!: safe_resI)

lemma star_loop_safe:
  assumes here: "\<And>t m. cx_ti ctx \<le> t \<Longrightarrow> t \<le> int (length text) \<Longrightarrow> match_ok text m \<Longrightarrow>
      safe_res text t (here (ctx\<lparr>cx_ti := t, cx_pi := ae\<rparr>) m)"
    and "0 \<le> cx_ti ctx" "ttry \<le> int (length text)" "match_ok text m"
  shows "safe_res text (cx_ti ctx) (star_loop here ctx ae ttry m)"
  using assms(2-)
proof (induction "nat (ttry - cx_ti ctx + 1)" arbitrary: ttry m rule: less_induct)
  case less
  show ?case
  proof (cases "cx_ti ctx \<le> ttry")
    case False
    then show ?thesis using less.prems by (subst star_loop.simps) (auto intro!: safe_resI)
  next
    case True
    have "safe_res text ttry (here (ctx\<lparr>cx_ti := ttry, cx_pi := ae\<rparr>) m)"
      using True less.prems by (intro here)
    then obtain rr rest m' where h: "here (ctx\<lparr>cx_ti := ttry, cx_pi := ae\<rparr>) m = Some (rr, rest, m')"
      "match_ok text m'" "rr \<in> {BRE_OK, BRE_NOMATCH, BRE_ERROR}"
      "rr = BRE_OK \<longrightarrow> 0 \<le> rest \<and> ttry + rest \<le> int (length text)"
      by (rule safe_resE)
    have rec: "safe_res text (cx_ti ctx) (star_loop here ctx ae (ttry - 1) m')"
      using True less.prems h(2) by (intro less.hyps) auto
    have g: "group_ok text (cx_ti ctx, ttry - cx_ti ctx)"
      using True less.prems by (simp add: group_ok_def)
    show ?thesis
      using True h rec match_ok_record [OF h(2) g]
      by (subst star_loop.simps) (auto intro!: safe_resI)
  qed
qed

lemma scan_loop_safe:
  assumes here: "\<And>t m. cx_ti ctx \<le> t \<Longrightarrow> t \<le> int (length (cx_text ctx)) \<Longrightarrow> match_ok (cx_text ctx) m \<Longrightarrow>
      safe_res (cx_text ctx) t (here (ctx\<lparr>cx_ti := t, cx_pi := ae\<rparr>) m)"
    and inner: "\<And>t m. cx_ti ctx \<le> t \<Longrightarrow> t \<le> int (length (cx_text ctx)) \<Longrightarrow> match_ok (cx_text ctx) m \<Longrightarrow>
      safe_res (cx_text ctx) t (once_group_inner here ctx is ie t m)"
    and "0 \<le> cx_ti ctx" "cx_ti ctx \<le> tpos" "tpos \<le> int (length (cx_text ctx))" "match_ok (cx_text ctx) m"
  shows "safe_res (cx_text ctx) (cx_ti ctx) (scan_loop here ctx is ie ae tpos m)"
  using assms(3-)
proof (induction "nat (int (length (cx_text ctx)) - tpos)" arbitrary: tpos m rule: less_induct)
  case less
  obtain c where c: "cstr_at (cx_text ctx) tpos = Some c" using cstr_at_defined less.prems by fastforce
  show ?case
  proof (cases "c = NUL")
    case True
    then show ?thesis using c less.prems by (subst scan_loop.simps) (auto intro!: safe_resI)
  next
    case False
    have lt: "tpos < int (length (cx_text ctx))" using cstr_at_inside [OF c False] by simp
    have rec: "safe_res (cx_text ctx) (cx_ti ctx) (scan_loop here ctx is ie ae (tpos + 1) m')"
      if "match_ok (cx_text ctx) m'" for m'
      using that lt less.prems by (intro less.hyps) auto
    have "safe_res (cx_text ctx) tpos (once_group_inner here ctx is ie tpos m)"
      using less.prems by (intro inner)
    then obtain ir adv m1 where i: "once_group_inner here ctx is ie tpos m = Some (ir, adv, m1)"
      "match_ok (cx_text ctx) m1" "ir \<in> {BRE_OK, BRE_NOMATCH, BRE_ERROR}"
      "ir = BRE_OK \<longrightarrow> 0 \<le> adv \<and> tpos + adv \<le> int (length (cx_text ctx))"
      by (rule safe_resE)
    show ?thesis
    proof (cases "ir = BRE_OK")
      case False
      then show ?thesis
        using \<open>c \<noteq> NUL\<close> c i rec by (subst scan_loop.simps) (auto intro!: safe_resI)
    next
      case True
      have "safe_res (cx_text ctx) (tpos + adv) (here (ctx\<lparr>cx_ti := tpos + adv, cx_pi := ae\<rparr>) m1)"
        using True i less.prems by (intro here) auto
      then obtain rr rest m2 where h: "here (ctx\<lparr>cx_ti := tpos + adv, cx_pi := ae\<rparr>) m1 = Some (rr, rest, m2)"
        "match_ok (cx_text ctx) m2" "rr \<in> {BRE_OK, BRE_NOMATCH, BRE_ERROR}"
        "rr = BRE_OK \<longrightarrow> 0 \<le> rest \<and> tpos + adv + rest \<le> int (length (cx_text ctx))"
        by (rule safe_resE)
      have g: "group_ok (cx_text ctx) (tpos, adv)"
        using True i less.prems by (simp add: group_ok_def)
      show ?thesis
        using True False c i h rec less.prems match_ok_record [OF h(2) g]
        by (subst scan_loop.simps) (auto intro!: safe_resI)
    qed
  qed
qed

lemma find_group_end_loop_chars:
  "find_group_end_loop pat i pend \<noteq> - 1 \<Longrightarrow>
   at0 pat (find_group_end_loop pat i pend) = BSL \<and> at0 pat (find_group_end_loop pat i pend + 1) = CHR '')''"
proof (induction pat i pend rule: find_group_end_loop.induct)
  case (1 pat i pend)
  then show ?case
    by (subst (asm) (3) find_group_end_loop.simps, subst (1 2) find_group_end_loop.simps)
      (auto split: if_splits)
qed

lemma find_group_end_chars:
  "0 \<le> find_group_end pat pi pend \<Longrightarrow>
   at0 pat (find_group_end pat pi pend) = BSL \<and> at0 pat (find_group_end pat pi pend + 1) = CHR '')''"
  using find_group_end_loop_chars [of pat "pi + 2" pend] by (simp add: find_group_end_def)

lemma bounded_groupsD:
  assumes "bounded_groups pat" "parse_quantifier pat a e (unit_rep a) = Some (BRE_OK, rep)"
    "2 \<le> a" "a \<le> e" "e \<le> int (length pat)" "at0 pat (a - 2) = BSL" "at0 pat (a - 1) = CHR '')''"
  shows "0 \<le> rep_max rep"
proof -
  have "a \<in> set [2..int (length pat)]" "e \<in> set [0..int (length pat)]" using assms by auto
  then have "case parse_quantifier pat a e (unit_rep a) of
           Some (BRE_OK, rep) \<Rightarrow> 0 \<le> rep_max rep | _ \<Rightarrow> True"
    using assms(1,6,7) unfolding bounded_groups_def by blast
  then show ?thesis using assms(2) by simp
qed

lemma match_group_safe:
  assumes pat: "safe_pattern (cx_pat ctx)" and nul: "no_nul (cx_text ctx)"
    and ctx: "0 \<le> cx_pi ctx" "cx_pend ctx \<le> int (length (cx_pat ctx))"
      "0 \<le> cx_ti ctx" "cx_ti ctx \<le> int (length (cx_text ctx))" "match_ok (cx_text ctx) m"
    and here: "here_safe ctx here"
  shows "\<exists>r pi' total m'. match_group here ctx m = Some (r, pi', total, m')
    \<and> safe_res (cx_text ctx) (cx_ti ctx) (Some (r, total, m'))"
proof -
  define g where "g = find_group_end (cx_pat ctx) (cx_pi ctx) (cx_pend ctx)"
  show ?thesis
  proof (cases "g < 0")
    case True
    then show ?thesis using ctx(5) by (auto simp: match_group_def Let_def g_def intro!: safe_resI)
  next
    case False
    have b: "cx_pi ctx + 2 \<le> g" "g + 2 \<le> cx_pend ctx"
      using False find_group_end_bounds by (auto simp: g_def)
    have ch: "at0 (cx_pat ctx) g = BSL" "at0 (cx_pat ctx) (g + 1) = CHR '')''"
      using False find_group_end_chars by (auto simp: g_def)
    obtain q rep where q: "parse_quantifier (cx_pat ctx) (g + 2) (cx_pend ctx) (unit_rep (g + 2)) = Some (q, rep)"
      "q \<in> {BRE_OK, BRE_NOMATCH, BRE_ERROR}" "q = BRE_NOMATCH \<Longrightarrow> rep = unit_rep (g + 2)"
      "q \<noteq> BRE_ERROR \<Longrightarrow> 0 \<le> rep_min rep" "q \<noteq> BRE_ERROR \<Longrightarrow> rep_max rep \<le> RE_DUP_MAX"
      "g + 2 \<le> rep_next_pi rep"
      using pat ctx(1,2) b by (rule_tac parse_quantifier_safe [of "cx_pat ctx" "g + 2" "cx_pend ctx"])
        (auto simp: safe_pattern_def)
    have inner: "safe_res (cx_text ctx) t (once_group_inner here ctx (cx_pi ctx + 2) g t m)"
      if "cx_ti ctx \<le> t" "t \<le> int (length (cx_text ctx))" "match_ok (cx_text ctx) m" for t m
      using that b ctx here_safeD [OF here, of "ctx\<lparr>cx_ti := t, cx_pi := cx_pi ctx + 2, cx_pend := g\<rparr>" m]
      by (intro once_group_inner_safe) simp
    have rest: "safe_res (cx_text ctx) t (here (ctx\<lparr>cx_ti := t, cx_pi := p\<rparr>) m)"
      if "cx_ti ctx \<le> t" "t \<le> int (length (cx_text ctx))" "match_ok (cx_text ctx) m" "g + 2 \<le> p" for t m p
      using that b ctx here_safeD [OF here, of "ctx\<lparr>cx_ti := t, cx_pi := p\<rparr>" m] by simp
    show ?thesis
    proof (cases q)
      case BRE_NOMATCH
      have "safe_res (cx_text ctx) (cx_ti ctx) (star_loop here ctx (g + 2) (int (length (cx_text ctx))) m)"
        "safe_res (cx_text ctx) (cx_ti ctx) (scan_loop here ctx (cx_pi ctx + 2) g (g + 2) (cx_ti ctx) m)"
        using ctx rest inner by (auto intro!: star_loop_safe scan_loop_safe)
      moreover have "scan_end (cx_text ctx) (cx_ti ctx) = Some (int (length (cx_text ctx)))"
        using ctx nul by (intro scan_end_eq)
      ultimately have "\<exists>r pi' total m'.
          match_group_without_quantifier here ctx m (cx_pi ctx + 2) g (g + 2) = Some (r, pi', total, m')
          \<and> safe_res (cx_text ctx) (cx_ti ctx) (Some (r, total, m'))"
        by (elim safe_resE) (auto simp: match_group_without_quantifier_def intro!: safe_resI)
      then show ?thesis
        using BRE_NOMATCH q(1) False by (simp add: match_group_def Let_def g_def [symmetric] unit_rep_def)
    next
      case BRE_OK
      then have "0 \<le> rep_max rep"
        using pat q(1) b ctx ch by (intro bounded_groupsD [of "cx_pat ctx" "g + 2" "cx_pend ctx"])
          (auto simp: safe_pattern_def add.commute)
      then have "\<exists>r total prefix m'. match_repeated here ctx
          (group_inner_once_adapter here (cx_pi ctx + 2) g) (cx_pi ctx) (g + 2) rep m = Some (r, total, prefix, m')
          \<and> r \<in> {BRE_OK, BRE_NOMATCH, BRE_ERROR} \<and> match_ok (cx_text ctx) m' \<and> (r = BRE_OK \<longrightarrow>
            0 \<le> prefix \<and> prefix \<le> total \<and> cx_ti ctx + total \<le> int (length (cx_text ctx)))"
        using q BRE_OK ctx inner rest
        by (intro match_repeated_safe) (auto simp: group_inner_once_adapter_def)
      then obtain r total prefix m' where r: "match_repeated here ctx
          (group_inner_once_adapter here (cx_pi ctx + 2) g) (cx_pi ctx) (g + 2) rep m = Some (r, total, prefix, m')"
        "r \<in> {BRE_OK, BRE_NOMATCH, BRE_ERROR}" "match_ok (cx_text ctx) m'"
        "r = BRE_OK \<longrightarrow> 0 \<le> prefix \<and> prefix \<le> total \<and> cx_ti ctx + total \<le> int (length (cx_text ctx))"
        by blast
      have "match_ok (cx_text ctx) (record_group (cx_ti ctx) prefix m')"
        if "r = BRE_OK" "bm_num_groups m' < BRE_MAX_GROUPS"
        using that r ctx by (intro match_ok_record) (auto simp: group_ok_def)
      then show ?thesis
        using BRE_OK q(1) r False
        by (auto simp: match_group_def Let_def g_def [symmetric] unit_rep_def
            match_group_with_quantifier_def intro!: safe_resI)
    next
      case BRE_ERROR
      then show ?thesis
        using q(1) False ctx by (simp add: match_group_def Let_def g_def [symmetric] unit_rep_def safe_resI)
    qed (use q(2) in auto)
  qed
qed

section \<open>The matcher\<close>

lemma match_here_safe:
  assumes "safe_pattern (cx_pat ctx)" "no_nul (cx_text ctx)"
    "0 \<le> cx_pi ctx" "cx_pend ctx \<le> int (length (cx_pat ctx))"
    "0 \<le> cx_ti ctx" "cx_ti ctx \<le> int (length (cx_text ctx))" "match_ok (cx_text ctx) m"
  shows "safe_res (cx_text ctx) (cx_ti ctx) (match_here ctx m)"
  using assms
proof (induction "nat (cx_pend ctx - cx_pi ctx)" arbitrary: ctx m rule: less_induct)
  case less
  have hs: "here_safe ctx match_here"
    unfolding here_safe_def
  proof (intro allI impI, elim conjE)
    fix c :: MatchContext and m assume c: "cx_pat c = cx_pat ctx" "cx_text c = cx_text ctx" "0 \<le> cx_pi c"
      "cx_pend c \<le> int (length (cx_pat ctx))" "nat (cx_pend c - cx_pi c) < nat (cx_pend ctx - cx_pi ctx)"
      "0 \<le> cx_ti c" "cx_ti c \<le> int (length (cx_text ctx))" "match_ok (cx_text ctx) m"
    then show "safe_res (cx_text ctx) (cx_ti c) (match_here c m)"
      using less.hyps [of c m] less.prems(1,2) by simp
  qed
  have atom: "safe_res (cx_text ctx) (cx_ti ctx) (match_atom match_here ctx once (cx_pi ctx) ae m)"
    if "once \<in> {once_literal, once_dot, once_escape, once_class}" "cx_pi ctx < ae"
      "cx_pi ctx < cx_pend ctx" for once ae
    using that less.prems
    by (intro match_atom_safe) (auto simp: safe_pattern_def intro!: here_safeD [OF hs])
  obtain r pi' total m' where g: "match_group match_here ctx m = Some (r, pi', total, m')"
    "safe_res (cx_text ctx) (cx_ti ctx) (Some (r, total, m'))"
    using match_group_safe [OF less.prems(1-7) hs] by blast
  obtain c where c: "cstr_at (cx_text ctx) (cx_ti ctx) = Some c"
    using cstr_at_defined less.prems by blast
  have ce: "cx_pi ctx < find_class_end_simple (cx_pat ctx) (cx_pi ctx) (cx_pend ctx)"
    if "\<not> find_class_end_simple (cx_pat ctx) (cx_pi ctx) (cx_pend ctx) < 0"
    using find_class_end_simple_bounds [of "cx_pat ctx" "cx_pi ctx" "cx_pend ctx"] that by simp
  have leaf: "safe_res (cx_text ctx) (cx_ti ctx) (Some (r, 0, m))"
    if "r \<in> {BRE_OK, BRE_NOMATCH, BRE_ERROR}" for r
    using that less.prems by (intro safe_resI) auto
  have gr: "safe_res (cx_text ctx) (cx_ti ctx) (Some (r, 0, m'))" if "r \<noteq> BRE_OK"
    using g(2) that by (auto simp: safe_res_def)
  show ?case
    using atom ce leaf g gr c
    by (subst match_here.simps) (auto simp: Let_def)
qed

section \<open>The public interface\<close>

lemma match_ok_sort:
  assumes "match_ok text m"
  shows "match_ok text (bre_sort_groups_by_start m)"
proof -
  let ?n = "bm_num_groups m" and ?gs = "bm_groups m"
  have n: "?n \<le> length ?gs" "length ?gs = BRE_MAX_GROUPS" using assms by (auto simp: match_ok_def)
  have e: "bm_groups (bre_sort_groups_by_start m) = sort_key group_key (take ?n ?gs) @ drop ?n ?gs"
    using n by (intro bre_sort_groups_eq)
  have "group_ok text (sort_key group_key (take ?n ?gs) ! i)" if "i < ?n" for i
  proof -
    have "sort_key group_key (take ?n ?gs) ! i \<in> set (take ?n ?gs)"
      using that n by (metis length_sort length_take min.absorb2 nth_mem set_sort)
    then show ?thesis using assms n by (auto simp: match_ok_def in_set_conv_nth)
  qed
  then show ?thesis using assms n e by (auto simp: match_ok_def nth_append)
qed

definition found_ok :: "string \<Rightarrow> BreMatch \<Rightarrow> bool" where
  "found_ok text m \<longleftrightarrow> match_ok text m \<and> 0 \<le> bm_start m \<and> 0 \<le> bm_length m
     \<and> bm_start m + bm_length m \<le> int (length text)"

lemma match_ok_frame [simp]:
  "match_ok text (m\<lparr>bm_start := s, bm_length := l\<rparr>) = match_ok text m"
  by (simp add: match_ok_def)

lemma base_context_simps [simp]:
  "cx_text (base_context t p) = t" "cx_pat (base_context t p) = p"
  "cx_pend (base_context t p) = int (length p)" "cx_ti (base_context t p) = 0" "0 \<le> cx_pi (base_context t p)"
  by (auto simp: base_context_def)

lemma try_starts_safe:
  assumes "safe_pattern pat" "no_nul text" "0 \<le> s" "match_ok text m"
  shows "\<exists>r m'. try_starts (base_context text pat) (int (length text)) s m = Some (r, m')
    \<and> r \<in> {BRE_OK, BRE_NOMATCH, BRE_ERROR} \<and> match_ok text m' \<and> (r = BRE_OK \<longrightarrow> found_ok text m')"
  using assms(3,4)
proof (induction "nat (int (length text) + 1 - s)" arbitrary: s m rule: less_induct)
  case less
  show ?case
  proof (cases "s \<le> int (length text)")
    case False
    then show ?thesis using less.prems by (subst try_starts.simps) simp
  next
    case True
    have "safe_res text s (match_here ((base_context text pat)\<lparr>cx_ti := s\<rparr>) (no_groups m))"
      using match_here_safe [of "(base_context text pat)\<lparr>cx_ti := s\<rparr>" "no_groups m"] assms(1,2) less.prems True
      by simp
    then obtain r n m' where h: "match_here ((base_context text pat)\<lparr>cx_ti := s\<rparr>) (no_groups m) = Some (r, n, m')"
      "match_ok text m'" "r \<in> {BRE_OK, BRE_NOMATCH, BRE_ERROR}"
      "r = BRE_OK \<longrightarrow> 0 \<le> n \<and> s + n \<le> int (length text)"
      by (rule safe_resE)
    have "match_ok text (bre_sort_groups_by_start (m'\<lparr>bm_start := s, bm_length := n\<rparr>))"
      using h(2) by (intro match_ok_sort) simp
    then show ?thesis
      using True h less.hyps [of "s + 1" m'] less.prems
      by (subst try_starts.simps) (auto simp: found_ok_def)
  qed
qed

lemma bre_match_safe:
  assumes "safe_pattern pat" "no_nul text"
  shows "\<exists>r m. bre_match text pat = Some (r, m) \<and> r \<in> {BRE_OK, BRE_NOMATCH, BRE_ERROR}
    \<and> match_ok text m \<and> (r = BRE_OK \<longrightarrow> found_ok text m)"
proof (cases "hd0 pat = CHR ''^''")
  case False
  then show ?thesis using try_starts_safe [OF assms, of 0 init_match] by (simp add: bre_match_def)
next
  case True
  have "safe_res text 0 (match_here (base_context text pat) init_match)"
    using match_here_safe [of "base_context text pat" init_match] assms by simp
  then obtain r n m where h: "match_here (base_context text pat) init_match = Some (r, n, m)"
    "match_ok text m" "r \<in> {BRE_OK, BRE_NOMATCH, BRE_ERROR}"
    "r = BRE_OK \<longrightarrow> 0 \<le> n \<and> 0 + n \<le> int (length text)"
    by (rule safe_resE)
  have "match_ok text (bre_sort_groups_by_start (m\<lparr>bm_start := 0, bm_length := n\<rparr>))"
    using h(2) by (intro match_ok_sort) simp
  then show ?thesis using True h by (auto simp: bre_match_def found_ok_def)
qed

section \<open>Substitution\<close>

lemma copy_from_in:
  "0 \<le> s \<Longrightarrow> 0 \<le> l \<Longrightarrow> s + l \<le> int (length text) \<Longrightarrow>
   copy_from text s l = Some (take (nat l) (drop (nat s) text))"
  by (simp add: copy_from_def)

lemma expand_replacement_safe:
  assumes "match_ok text m"
  shows "\<exists>e. expand_replacement text m r = Some e \<and> int (length e) = rep_length m r"
proof (induction "length r" arbitrary: r rule: less_induct)
  case less
  show ?case
  proof (cases "r = []")
    case True
    then show ?thesis by (simp add: expand_replacement.simps rep_length.simps)
  next
    case False
    obtain e1 where e1: "expand_replacement text m (drop 1 r) = Some e1" "int (length e1) = rep_length m (drop 1 r)"
      using less [of "drop 1 r"] False by auto
    obtain e2 where e2: "expand_replacement text m (drop 2 r) = Some e2" "int (length e2) = rep_length m (drop 2 r)"
      using less [of "drop 2 r"] False by auto
    show ?thesis
    proof (cases "group_ref r")
      case None
      then show ?thesis
        using False e1 by (subst expand_replacement.simps, subst rep_length.simps) simp
    next
      case (Some g)
      have "group_ok text (bm_groups m ! g)" if "group_set m g"
        using that assms by (simp add: match_ok_def group_set_def)
      then have "\<exists>x. (if group_set m g then copy_from text (fst (bm_groups m ! g)) (snd (bm_groups m ! g))
          else Some []) = Some x \<and> int (length x) = (if group_set m g then snd (bm_groups m ! g) else 0)"
        by (auto simp: group_ok_def copy_from_in)
      then obtain x where x: "(if group_set m g then copy_from text (fst (bm_groups m ! g)) (snd (bm_groups m ! g))
          else Some []) = Some x" "int (length x) = (if group_set m g then snd (bm_groups m ! g) else 0)"
        by blast
      show ?thesis
        using False Some e2 x(2) by (subst expand_replacement.simps, subst rep_length.simps) (simp add: x(1))
    qed
  qed
qed

lemma bre_substitute_safe:
  assumes "safe_pattern pat" "no_nul text"
  obtains r m where "bre_match text pat = Some (r, m)"
    "r = BRE_ERROR \<Longrightarrow> bre_substitute text pat rep = Some None"
    "r = BRE_NOMATCH \<Longrightarrow> bre_substitute text pat rep = Some (Some text)"
    "r = BRE_OK \<Longrightarrow> \<exists>e. expand_replacement text m rep = Some e \<and> bre_substitute text pat rep =
       Some (Some (take (nat (bm_start m)) text @ e @ drop (nat (bm_start m + bm_length m)) text))"
    "r \<in> {BRE_OK, BRE_NOMATCH, BRE_ERROR}"
proof -
  obtain r m where m: "bre_match text pat = Some (r, m)" "r \<in> {BRE_OK, BRE_NOMATCH, BRE_ERROR}"
    "match_ok text m" "r = BRE_OK \<longrightarrow> found_ok text m"
    using bre_match_safe [OF assms] by blast
  have ok: "\<exists>e. expand_replacement text m rep = Some e \<and> bre_substitute text pat rep =
       Some (Some (take (nat (bm_start m)) text @ e @ drop (nat (bm_start m + bm_length m)) text))"
    if "r = BRE_OK"
  proof -
    have f: "0 \<le> bm_start m" "0 \<le> bm_length m" "bm_start m + bm_length m \<le> int (length text)"
      using m(4) that by (auto simp: found_ok_def)
    obtain e where e: "expand_replacement text m rep = Some e" "int (length e) = rep_length m rep"
      using expand_replacement_safe [OF m(3)] by blast
    have c1: "copy_from text 0 (bm_start m) = Some (take (nat (bm_start m)) text)"
      using f by (simp add: copy_from_in)
    have c2: "copy_from text (bm_start m + bm_length m) (int (length text) - bm_start m - bm_length m)
      = Some (drop (nat (bm_start m + bm_length m)) text)"
      using f by (simp add: copy_from_in nat_diff_distrib)
    show ?thesis using m(1) that f e c1 c2 by (simp add: bre_substitute_def Let_def)
  qed
  show thesis
  proof (rule that [OF m(1)])
    show "r = BRE_ERROR \<Longrightarrow> bre_substitute text pat rep = Some None"
      "r = BRE_NOMATCH \<Longrightarrow> bre_substitute text pat rep = Some (Some text)"
      using m(1) by (simp_all add: bre_substitute_def)
  qed (use ok m(2) in blast)+
qed

end
