(* ===== verification/BreSpec.thy ===== *)
theory BreSpec
  imports BreSafety
begin

text \<open>
  A declarative semantics of the patterns without groups, and the refinement of the matcher to
  it. \<open>den text pat pend pi ti n\<close> says that the pattern from \<open>pi\<close> to \<open>pend\<close> matches \<open>n\<close>
  characters of the text from \<open>ti\<close>: each atom takes some admissible number of characters, with
  no order among the choices. The matcher finds a match in this sense exactly when there is one,
  and \<open>bre_match\<close> returns the leftmost start.
\<close>

section \<open>The semantics\<close>

definition group_free :: "string \<Rightarrow> bool" where
  "group_free pat \<longleftrightarrow> (\<forall>i \<in> set [0..int (length pat)]. \<not> (at0 pat i = BSL \<and> at0 pat (i + 1) = CHR ''(''))"

text \<open>The set of characters an atom accepts and the index after it.\<close>

definition atom_test :: "string \<Rightarrow> int \<Rightarrow> int \<Rightarrow> ((char \<Rightarrow> bool) \<times> int) option" where
  "atom_test pat pi pend =
     (if at0 pat pi = CHR ''['' then
        (if find_class_end_simple pat pi pend < 0 then None
         else Some (\<lambda>c. fst (in_char_class c pat pi pend), find_class_end_simple pat pi pend))
      else if at0 pat pi = CHR ''.'' then Some (\<lambda>c. True, pi + 1)
      else if at0 pat pi = BSL then
        (if pi + 1 \<ge> pend \<or> at0 pat (pi + 1) \<in> {CHR ''('', CHR '')'', CHR ''{'', CHR ''}''} then None
         else Some (\<lambda>c. c = at0 pat (pi + 1), pi + 2))
      else Some (\<lambda>c. c = at0 pat pi \<and> at0 pat pi \<notin> {CHR ''^'', CHR ''$'', CHR ''*''}, pi + 1))"

definition rep_cap :: "BreRepetition \<Rightarrow> int" where
  "rep_cap rep = (if rep_max rep < 0 then 10000 else rep_max rep)"

inductive den :: "string \<Rightarrow> string \<Rightarrow> int \<Rightarrow> int \<Rightarrow> nat \<Rightarrow> nat \<Rightarrow> bool" for "text" pat pend where
  den_end: "pend \<le> pi \<Longrightarrow> den text pat pend pi ti 0"
| den_eol: "pi + 1 = pend \<Longrightarrow> at0 pat pi = CHR ''$'' \<Longrightarrow> ti = length text \<Longrightarrow> den text pat pend pi ti 0"
| den_rep: "pi < pend \<Longrightarrow> \<not> (pi + 1 = pend \<and> at0 pat pi = CHR ''$'') \<Longrightarrow>
    atom_test pat pi pend = Some (P, ae) \<Longrightarrow>
    parse_quantifier pat ae pend (unit_rep ae) = Some (q, rep) \<Longrightarrow> q \<noteq> BRE_ERROR \<Longrightarrow>
    rep_min rep \<le> int k \<Longrightarrow> int k \<le> rep_cap rep \<Longrightarrow>
    (\<forall>j < k. ti + j < length text \<and> P (text ! (ti + j))) \<Longrightarrow>
    den text pat pend (rep_next_pi rep) (ti + k) n \<Longrightarrow> den text pat pend pi ti (k + n)"

inductive_cases den_cases: "den text pat pend pi ti n"

text \<open>The patterns the matcher never rejects: every atom on the way is complete and every
  quantifier is legal.\<close>

inductive well_formed :: "string \<Rightarrow> int \<Rightarrow> int \<Rightarrow> bool" for pat pend where
  wf_end: "pend \<le> pi \<Longrightarrow> well_formed pat pend pi"
| wf_eol: "pi + 1 = pend \<Longrightarrow> at0 pat pi = CHR ''$'' \<Longrightarrow> well_formed pat pend pi"
| wf_rep: "pi < pend \<Longrightarrow> atom_test pat pi pend = Some (P, ae) \<Longrightarrow>
    parse_quantifier pat ae pend (unit_rep ae) = Some (q, rep) \<Longrightarrow> q \<noteq> BRE_ERROR \<Longrightarrow>
    well_formed pat pend (rep_next_pi rep) \<Longrightarrow> well_formed pat pend pi"

lemma well_formed_step:
  assumes "well_formed pat pend pi" "pi < pend" "\<not> (pi + 1 = pend \<and> at0 pat pi = CHR ''$'')"
  obtains P ae q rep where "atom_test pat pi pend = Some (P, ae)"
    "parse_quantifier pat ae pend (unit_rep ae) = Some (q, rep)" "q \<noteq> BRE_ERROR"
    "well_formed pat pend (rep_next_pi rep)"
  using assms by (cases rule: well_formed.cases) auto

section \<open>Repetition of a one-character atom\<close>

definition char_once :: "string \<Rightarrow> (char \<Rightarrow> bool) \<Rightarrow> (int \<Rightarrow> BreMatch \<Rightarrow> once_res) \<Rightarrow> bool" where
  "char_once text P once \<longleftrightarrow> (\<forall>t m. t \<le> length text \<longrightarrow> once (int t) m =
     Some (if t < length text \<and> P (text ! t) then (BRE_OK, 1, m) else (BRE_NOMATCH, 0, m)))"

lemma rep_forward_char:
  assumes "char_once text P once" "int h \<le> mp" "ti + h \<le> length text"
    "\<forall>j < h. ti + j < length text \<and> P (text ! (ti + j))"
  shows "\<exists>k. rep_forward once mp (int (ti + h)) h (replicate (min h 256) 1) m
      = Some (BRE_OK, int (ti + k), k, replicate (min k 256) 1, m)
    \<and> int k \<le> mp \<and> ti + k \<le> length text \<and> (\<forall>j < k. ti + j < length text \<and> P (text ! (ti + j)))
    \<and> (int k < mp \<longrightarrow> \<not> (ti + k < length text \<and> P (text ! (ti + k))))"
  using assms(2-)
proof (induction "nat (mp - int h)" arbitrary: h rule: less_induct)
  case less
  have o: "once (int (ti + h)) m = Some (if ti + h < length text \<and> P (text ! (ti + h))
      then (BRE_OK, 1, m) else (BRE_NOMATCH, 0, m))"
    using assms(1) less.prems(2) unfolding char_once_def by blast
  show ?case
  proof (cases "int h < mp \<and> ti + h < length text \<and> P (text ! (ti + h))")
    case False
    then have "rep_forward once mp (int (ti + h)) h (replicate (min h 256) 1) m
      = Some (BRE_OK, int (ti + h), h, replicate (min h 256) 1, m)"
      using o by (subst rep_forward.simps) auto
    then show ?thesis using False less.prems by (intro exI [of _ h]) auto
  next
    case True
    have adv: "(if h < 256 then replicate (min h 256) 1 @ [1] else replicate (min h 256) 1)
        = replicate (min (Suc h) 256) (1::int)"
      by (auto simp: replicate_append_same min_def)
    have "\<exists>k. rep_forward once mp (int (ti + Suc h)) (Suc h) (replicate (min (Suc h) 256) 1) m
      = Some (BRE_OK, int (ti + k), k, replicate (min k 256) 1, m)
      \<and> int k \<le> mp \<and> ti + k \<le> length text \<and> (\<forall>j < k. ti + j < length text \<and> P (text ! (ti + j)))
      \<and> (int k < mp \<longrightarrow> \<not> (ti + k < length text \<and> P (text ! (ti + k))))"
      using True less.prems by (intro less.hyps) (auto simp: less_Suc_eq)
    moreover have "rep_forward once mp (int (ti + h)) h (replicate (min h 256) 1) m
      = rep_forward once mp (int (ti + Suc h)) (Suc h) (replicate (min (Suc h) 256) 1) m"
      using o True adv by (subst rep_forward.simps) (simp add: add.commute)
    ultimately show ?thesis by simp
  qed
qed

text \<open>The rest of the pattern answers the same whatever the match record, and leaves it alone.\<close>

definition rest_fn :: "string \<Rightarrow> (nat \<Rightarrow> BreMatch \<Rightarrow> once_res) \<Rightarrow> (nat \<Rightarrow> BreResult \<times> int) \<Rightarrow> bool" where
  "rest_fn text f R \<longleftrightarrow> (\<forall>t m. t \<le> length text \<longrightarrow> f t m = Some (fst (R t), snd (R t), m))"

lemma rep_back_char:
  assumes R: "rest_fn text (\<lambda>t. here (ctx\<lparr>cx_ti := int t, cx_pi := rep_next_pi rep\<rparr>)) R"
    and "cx_ti ctx = int ti" "ti + h \<le> length text" "h \<le> k"
  shows "\<exists>r n p. (\<forall>m. rep_back here ctx rep (replicate (min k 256) 1) (int (ti + h)) h m = Some (r, n, p, m))
    \<and> r \<in> {BRE_OK, BRE_NOMATCH, BRE_ERROR}
    \<and> (r = BRE_OK \<longrightarrow> (\<exists>j \<le> h. rep_min rep \<le> int j \<and> fst (R (ti + j)) = BRE_OK \<and> n = int j + snd (R (ti + j))))
    \<and> (r = BRE_ERROR \<longrightarrow> (\<exists>j \<le> h. fst (R (ti + j)) = BRE_ERROR))
    \<and> (r = BRE_NOMATCH \<longrightarrow> (\<forall>j \<le> h. rep_min rep \<le> int j \<longrightarrow> fst (R (ti + j)) \<notin> {BRE_OK, BRE_ERROR}))"
  using assms(3,4)
proof (induction h)
  case 0
  have h: "here (ctx\<lparr>cx_ti := int ti, cx_pi := rep_next_pi rep\<rparr>) m = Some (fst (R ti), snd (R ti), m)" for m
    using R 0 by (simp add: rest_fn_def)
  show ?case
    by (cases "rep_min rep \<le> 0"; cases "fst (R ti)"; subst rep_back.simps; auto simp: h assms(2))
next
  case (Suc h)
  have e: "here (ctx\<lparr>cx_ti := int (ti + Suc h), cx_pi := rep_next_pi rep\<rparr>) m
      = Some (fst (R (ti + Suc h)), snd (R (ti + Suc h)), m)" for m
    using R Suc.prems unfolding rest_fn_def by blast
  have a: "int (ti + Suc h) - (if Suc h \<le> 256 then replicate (min k 256) 1 ! (Suc h - 1) else 1) = int (ti + h)"
    using Suc.prems by auto
  show ?case
  proof (cases "rep_min rep \<le> int (Suc h)")
    case False
    then show ?thesis by (subst rep_back.simps) auto
  next
    case True
    obtain r n p where IH: "\<And>m. rep_back here ctx rep (replicate (min k 256) 1) (int (ti + h)) h m = Some (r, n, p, m)"
      "r \<in> {BRE_OK, BRE_NOMATCH, BRE_ERROR}"
      "r = BRE_OK \<longrightarrow> (\<exists>j \<le> h. rep_min rep \<le> int j \<and> fst (R (ti + j)) = BRE_OK \<and> n = int j + snd (R (ti + j)))"
      "r = BRE_ERROR \<longrightarrow> (\<exists>j \<le> h. fst (R (ti + j)) = BRE_ERROR)"
      "r = BRE_NOMATCH \<longrightarrow> (\<forall>j \<le> h. rep_min rep \<le> int j \<longrightarrow> fst (R (ti + j)) \<notin> {BRE_OK, BRE_ERROR})"
      using Suc.IH Suc.prems by (metis Suc_leD add_Suc_right)
    have unf: "rep_back here ctx rep (replicate (min k 256) 1) (int (ti + Suc h)) (Suc h) m =
      (if fst (R (ti + Suc h)) = BRE_ERROR then Some (BRE_ERROR, 0, 0, m)
       else if fst (R (ti + Suc h)) = BRE_OK
       then Some (BRE_OK, int (Suc h) + snd (R (ti + Suc h)), int (Suc h), m)
       else Some (r, n, p, m))" for m
      using True by (subst rep_back.simps) (simp only: e a IH(1) assms(2), simp add: IH(1) [unfolded of_nat_add])
    show ?thesis
    proof (cases "fst (R (ti + Suc h)) \<in> {BRE_OK, BRE_ERROR}")
      case T: True
      have "\<exists>j \<le> Suc h. rep_min rep \<le> int j \<and> fst (R (ti + j)) = BRE_OK
          \<and> int (Suc h) + snd (R (ti + Suc h)) = int j + snd (R (ti + j))"
        if "fst (R (ti + Suc h)) = BRE_OK"
        using that True by (intro exI [of _ "Suc h"]) auto
      with T show ?thesis unfolding unf by (auto intro!: exI [of _ "Suc h"])
    next
      case F: False
      then show ?thesis
        unfolding unf using IH(2-5) by (intro exI [of _ r] exI [of _ n] exI [of _ p]) (auto simp: le_Suc_eq)
    qed
  qed
qed


lemma match_repeated_char:
  assumes "char_once text P (atom_once ctx a b)" "cx_ti ctx = int ti" "ti \<le> length text"
    and R: "rest_fn text (\<lambda>t. here (ctx\<lparr>cx_ti := int t, cx_pi := rep_next_pi rep\<rparr>)) R"
  shows "\<exists>r n p. (\<forall>m. match_repeated here ctx atom_once a b rep m = Some (r, n, p, m))
    \<and> r \<in> {BRE_OK, BRE_NOMATCH, BRE_ERROR} \<and> (r = BRE_OK \<longrightarrow> (\<exists>j. rep_min rep \<le> int j \<and> int j \<le> rep_cap rep
         \<and> (\<forall>i < j. ti + i < length text \<and> P (text ! (ti + i)))
         \<and> fst (R (ti + j)) = BRE_OK \<and> n = int j + snd (R (ti + j))))
    \<and> (r = BRE_ERROR \<longrightarrow> (\<exists>j. ti + j \<le> length text \<and> fst (R (ti + j)) = BRE_ERROR))
    \<and> (r = BRE_NOMATCH \<longrightarrow> (\<forall>j. rep_min rep \<le> int j \<and> int j \<le> rep_cap rep
         \<and> (\<forall>i < j. ti + i < length text \<and> P (text ! (ti + i)))
         \<longrightarrow> fst (R (ti + j)) \<notin> {BRE_OK, BRE_ERROR}))"
proof -
  have mp: "(if rep_max rep < 0 then 10000 else rep_max rep) = rep_cap rep" "0 \<le> rep_cap rep"
    by (auto simp: rep_cap_def)
  let ?ok = "\<lambda>k. int k \<le> rep_cap rep \<and> ti + k \<le> length text
    \<and> (\<forall>j < k. ti + j < length text \<and> P (text ! (ti + j)))
    \<and> (int k < rep_cap rep \<longrightarrow> \<not> (ti + k < length text \<and> P (text ! (ti + k))))"
  have ex: "\<exists>k. rep_forward (atom_once ctx a b) (rep_cap rep) (int ti) 0 [] m
      = Some (BRE_OK, int (ti + k), k, replicate (min k 256) 1, m) \<and> ?ok k" for m
    using rep_forward_char [OF assms(1), of 0 "rep_cap rep" ti m] assms(3) mp by simp
  then obtain k where k: "?ok k" by blast
  have most: "j \<le> k" if "?ok k" "int j \<le> rep_cap rep" "\<forall>i < j. ti + i < length text \<and> P (text ! (ti + i))" for j k
  proof (rule ccontr)
    assume "\<not> j \<le> k"
    then show False using that by auto
  qed
  have K1: "rep_forward (atom_once ctx a b) (rep_cap rep) (int ti) 0 [] m
      = Some (BRE_OK, int (ti + k), k, replicate (min k 256) 1, m)" for m
  proof -
    obtain k' where k': "rep_forward (atom_once ctx a b) (rep_cap rep) (int ti) 0 [] m
      = Some (BRE_OK, int (ti + k'), k', replicate (min k' 256) 1, m)" "?ok k'" using ex by blast
    have "k' \<le> k" using most [OF k, of k'] k'(2) by blast
    moreover have "k \<le> k'" using most [OF k'(2), of k] k by blast
    ultimately show ?thesis using k'(1) by simp
  qed
  have kl: "ti + k \<le> length text" "int k \<le> rep_cap rep" using k by auto
  obtain r n p where B: "\<And>m. rep_back here ctx rep (replicate (min k 256) 1) (int (ti + k)) k m = Some (r, n, p, m)"
    "r \<in> {BRE_OK, BRE_NOMATCH, BRE_ERROR}"
    "r = BRE_OK \<longrightarrow> (\<exists>j \<le> k. rep_min rep \<le> int j \<and> fst (R (ti + j)) = BRE_OK \<and> n = int j + snd (R (ti + j)))"
    "r = BRE_ERROR \<longrightarrow> (\<exists>j \<le> k. fst (R (ti + j)) = BRE_ERROR)"
    "r = BRE_NOMATCH \<longrightarrow> (\<forall>j \<le> k. rep_min rep \<le> int j \<longrightarrow> fst (R (ti + j)) \<notin> {BRE_OK, BRE_ERROR})"
    using rep_back_char [OF R assms(2) kl(1) order_refl] by blast
  have e: "match_repeated here ctx atom_once a b rep m = Some (r, n, p, m)" for m
    by (simp add: match_repeated_def mp(1) assms(2) K1 B(1) del: of_nat_add)
  have ok: "\<exists>j. rep_min rep \<le> int j \<and> int j \<le> rep_cap rep
         \<and> (\<forall>i < j. ti + i < length text \<and> P (text ! (ti + i)))
         \<and> fst (R (ti + j)) = BRE_OK \<and> n = int j + snd (R (ti + j))" if rok: "r = BRE_OK"
  proof -
    obtain j where j: "j \<le> k" "rep_min rep \<le> int j" "fst (R (ti + j)) = BRE_OK" "n = int j + snd (R (ti + j))"
      using B(3) rok by blast
    have "int j \<le> rep_cap rep" using kl(2) j(1) by simp
    moreover have "\<forall>i < j. ti + i < length text \<and> P (text ! (ti + i))"
      using k j(1) by simp
    ultimately show ?thesis using j by blast
  qed
  have no: "\<forall>j. rep_min rep \<le> int j \<and> int j \<le> rep_cap rep
         \<and> (\<forall>i < j. ti + i < length text \<and> P (text ! (ti + i)))
         \<longrightarrow> fst (R (ti + j)) \<notin> {BRE_OK, BRE_ERROR}" if "r = BRE_NOMATCH"
  proof (intro allI impI, elim conjE)
    fix j assume j: "rep_min rep \<le> int j" "int j \<le> rep_cap rep"
      "\<forall>i < j. ti + i < length text \<and> P (text ! (ti + i))"
    then have "j \<le> k" using most [OF k] by blast
    then show "fst (R (ti + j)) \<notin> {BRE_OK, BRE_ERROR}" using B(5) that j by blast
  qed
  have er: "\<exists>j. ti + j \<le> length text \<and> fst (R (ti + j)) = BRE_ERROR" if "r = BRE_ERROR"
    using B(4) that kl(1) by (meson add_left_mono order_trans)
  show ?thesis
    by (rule exI [of _ r], rule exI [of _ n], rule exI [of _ p], intro conjI)
      (rule allI, rule e, rule B(2), rule impI, erule ok, rule impI, erule er, rule impI, erule no)
qed

lemma char_once_atoms:
  assumes "no_nul text" "cx_text ctx = text"
  shows "char_once text (\<lambda>c. True) (once_dot ctx a b)"
    "char_once text (\<lambda>c. fst (in_char_class c (cx_pat ctx) a (cx_pend ctx))) (once_class ctx a b)"
    "a + 1 < cx_pend ctx \<Longrightarrow> at0 (cx_pat ctx) (a + 1) \<notin> {CHR ''('', CHR '')'', CHR ''{'', CHR ''}''} \<Longrightarrow>
     char_once text (\<lambda>c. c = at0 (cx_pat ctx) (a + 1)) (once_escape ctx a b)"
    "at0 (cx_pat ctx) a \<notin> {BSL, CHR ''['', CHR ''.''} \<Longrightarrow>
     char_once text (\<lambda>c. c = at0 (cx_pat ctx) a \<and> at0 (cx_pat ctx) a \<notin> {CHR ''^'', CHR ''$'', CHR ''*''}) (once_literal ctx a b)"
proof -
  have c: "cstr_at text (int t) = Some (if t < length text then text ! t else NUL)" if "t \<le> length text" for t
    using that by (auto simp: cstr_at_def)
  have n: "text ! t \<noteq> NUL" if "t < length text" for t
    using assms(1) that by (metis no_nul_def nth_mem)
  show "char_once text (\<lambda>c. True) (once_dot ctx a b)"
    "char_once text (\<lambda>c. fst (in_char_class c (cx_pat ctx) a (cx_pend ctx))) (once_class ctx a b)"
    using assms(2) c n by (auto simp: char_once_def once_dot_def once_class_def)
  show "a + 1 < cx_pend ctx \<Longrightarrow> at0 (cx_pat ctx) (a + 1) \<notin> {CHR ''('', CHR '')'', CHR ''{'', CHR ''}''} \<Longrightarrow>
     char_once text (\<lambda>c. c = at0 (cx_pat ctx) (a + 1)) (once_escape ctx a b)"
    "at0 (cx_pat ctx) a \<notin> {BSL, CHR ''['', CHR ''.''} \<Longrightarrow>
     char_once text (\<lambda>c. c = at0 (cx_pat ctx) a \<and> at0 (cx_pat ctx) a \<notin> {CHR ''^'', CHR ''$'', CHR ''*''}) (once_literal ctx a b)"
    using assms(2) c n by (auto simp: char_once_def once_escape_def once_literal_def Let_def)
qed


section \<open>The matcher implements the semantics\<close>

lemma group_freeD: "group_free pat \<Longrightarrow> 0 \<le> i \<Longrightarrow> i \<le> int (length pat) \<Longrightarrow>
    \<not> (at0 pat i = BSL \<and> at0 pat (i + 1) = CHR ''('')"
  by (simp add: group_free_def)

text \<open>The answer of the matcher at \<open>pi\<close> as a function of the text position.\<close>

definition here_at :: "MatchContext \<Rightarrow> int \<Rightarrow> nat \<Rightarrow> BreResult \<times> int" where
  "here_at ctx pi t =
     (let x = the (match_here (ctx\<lparr>cx_ti := int t, cx_pi := pi\<rparr>) init_match) in (fst x, fst (snd x)))"

definition refines :: "string \<Rightarrow> string \<Rightarrow> int \<Rightarrow> int \<Rightarrow> nat \<Rightarrow> BreResult \<Rightarrow> int \<Rightarrow> bool" where
  "refines text pat pend pi ti r n \<longleftrightarrow> r \<in> {BRE_OK, BRE_NOMATCH, BRE_ERROR}
     \<and> (r = BRE_OK \<longrightarrow> 0 \<le> n \<and> den text pat pend pi ti (nat n))
     \<and> (r = BRE_NOMATCH \<longrightarrow> (\<forall>k. \<not> den text pat pend pi ti k))
     \<and> (r = BRE_ERROR \<longrightarrow> \<not> well_formed pat pend pi)"

lemma match_atom_refines:
  assumes test: "atom_test (cx_pat ctx) (cx_pi ctx) (cx_pend ctx) = Some (P, ae)"
    and once: "char_once (cx_text ctx) P (atom_once ctx a ae)"
    and q: "parse_quantifier (cx_pat ctx) ae (cx_pend ctx) (unit_rep ae) = Some (q, rep)"
    and pos: "cx_pi ctx < cx_pend ctx" "\<not> (cx_pi ctx + 1 = cx_pend ctx \<and> at0 (cx_pat ctx) (cx_pi ctx) = CHR ''$'')"
      "cx_ti ctx = int ti" "ti \<le> length (cx_text ctx)"
    and rest: "\<And>t. t \<le> length (cx_text ctx) \<Longrightarrow> \<exists>r n.
        (\<forall>m. match_here (ctx\<lparr>cx_ti := int t, cx_pi := rep_next_pi rep\<rparr>) m = Some (r, n, m))
        \<and> refines (cx_text ctx) (cx_pat ctx) (cx_pend ctx) (rep_next_pi rep) t r n"
  shows "\<exists>r n. (\<forall>m. match_atom match_here ctx atom_once a ae m = Some (r, n, m))
    \<and> refines (cx_text ctx) (cx_pat ctx) (cx_pend ctx) (cx_pi ctx) ti r n"
proof (cases "q = BRE_ERROR")
  case True
  then have "\<not> well_formed (cx_pat ctx) (cx_pend ctx) (cx_pi ctx)"
    using q test well_formed_step [OF _ pos(1,2)] True by fastforce
  then show ?thesis
    using q True by (intro exI [of _ BRE_ERROR] exI [of _ 0]) (simp add: match_atom_def unit_rep_def refines_def)
next
  case False
  let ?R = "here_at ctx (rep_next_pi rep)"
  have R: "rest_fn (cx_text ctx) (\<lambda>t. match_here (ctx\<lparr>cx_ti := int t, cx_pi := rep_next_pi rep\<rparr>)) ?R"
    unfolding rest_fn_def
  proof (intro allI impI)
    fix t m assume "t \<le> length (cx_text ctx)"
    from rest [OF this] show "match_here (ctx\<lparr>cx_ti := int t, cx_pi := rep_next_pi rep\<rparr>) m
        = Some (fst (?R t), snd (?R t), m)"
      by (auto simp: here_at_def)
  qed
  have ref: "refines (cx_text ctx) (cx_pat ctx) (cx_pend ctx) (rep_next_pi rep) t (fst (?R t)) (snd (?R t))"
    if "t \<le> length (cx_text ctx)" for t
    using rest [OF that] by (auto simp: here_at_def)
  obtain r n p where M: "\<And>m. match_repeated match_here ctx atom_once a ae rep m = Some (r, n, p, m)"
    "r \<in> {BRE_OK, BRE_NOMATCH, BRE_ERROR}"
    "r = BRE_OK \<longrightarrow> (\<exists>j. rep_min rep \<le> int j \<and> int j \<le> rep_cap rep
         \<and> (\<forall>i < j. ti + i < length (cx_text ctx) \<and> P (cx_text ctx ! (ti + i)))
         \<and> fst (?R (ti + j)) = BRE_OK \<and> n = int j + snd (?R (ti + j)))"
    "r = BRE_ERROR \<longrightarrow> (\<exists>j. ti + j \<le> length (cx_text ctx) \<and> fst (?R (ti + j)) = BRE_ERROR)"
    "r = BRE_NOMATCH \<longrightarrow> (\<forall>j. rep_min rep \<le> int j \<and> int j \<le> rep_cap rep
         \<and> (\<forall>i < j. ti + i < length (cx_text ctx) \<and> P (cx_text ctx ! (ti + i)))
         \<longrightarrow> fst (?R (ti + j)) \<notin> {BRE_OK, BRE_ERROR})"
    using match_repeated_char [OF _ pos(3,4) R, of P atom_once a ae] once by blast
  have in_range: "ti + j \<le> length (cx_text ctx)" if "\<forall>i < j. ti + i < length (cx_text ctx) \<and> Q i" for j Q
    using that pos(4) by (cases j) auto
  have ok: "0 \<le> n \<and> den (cx_text ctx) (cx_pat ctx) (cx_pend ctx) (cx_pi ctx) ti (nat n)" if rok: "r = BRE_OK"
  proof -
    obtain j where j: "rep_min rep \<le> int j" "int j \<le> rep_cap rep"
      "\<forall>i < j. ti + i < length (cx_text ctx) \<and> P (cx_text ctx ! (ti + i))"
      "fst (?R (ti + j)) = BRE_OK" "n = int j + snd (?R (ti + j))"
      using M(3) rok by blast
    have "ti + j \<le> length (cx_text ctx)" using in_range [OF j(3)] .
    from ref [OF this] j(4) have r: "0 \<le> snd (?R (ti + j))"
      "den (cx_text ctx) (cx_pat ctx) (cx_pend ctx) (rep_next_pi rep) (ti + j) (nat (snd (?R (ti + j))))"
      by (auto simp: refines_def)
    have "nat n = j + nat (snd (?R (ti + j)))" using r(1) j(5) by simp
    then show ?thesis
      using den_rep [OF pos(1,2) test q False j(1-3) r(2)] r(1) j(5) by simp
  qed
  have no: "\<not> den (cx_text ctx) (cx_pat ctx) (cx_pend ctx) (cx_pi ctx) ti k" if "r = BRE_NOMATCH" for k
  proof
    assume "den (cx_text ctx) (cx_pat ctx) (cx_pend ctx) (cx_pi ctx) ti k"
    then show False
    proof (cases rule: den.cases)
      case (den_rep P' ae' q' rep' j n')
      then have e: "P' = P" "ae' = ae" "rep' = rep" using test q by auto
      have "ti + j \<le> length (cx_text ctx)" using in_range [OF den_rep(9) [unfolded e]] .
      from ref [OF this] have "fst (?R (ti + j)) \<in> {BRE_OK, BRE_ERROR}"
        using den_rep(10) e unfolding refines_def by auto
      then show False using M(5) that den_rep(7-9) e by blast
    qed (use pos in auto)
  qed
  have er: "\<not> well_formed (cx_pat ctx) (cx_pend ctx) (cx_pi ctx)" if re: "r = BRE_ERROR"
  proof -
    obtain j where "ti + j \<le> length (cx_text ctx)" "fst (?R (ti + j)) = BRE_ERROR"
      using M(4) re by blast
    then have "\<not> well_formed (cx_pat ctx) (cx_pend ctx) (rep_next_pi rep)"
      using ref by (auto simp: refines_def)
    then show ?thesis using q test well_formed_step [OF _ pos(1,2)] by fastforce
  qed
  have "match_atom match_here ctx atom_once a ae m = Some (r, if r = BRE_OK then n else 0, m)" for m
    using q False by (simp add: match_atom_def unit_rep_def M(1))
  then show ?thesis
    using ok no er M(2) by (intro exI [of _ r] exI [of _ "if r = BRE_OK then n else 0"]) (auto simp: refines_def)
qed

text \<open>The main induction, on what is left of the pattern.\<close>

lemma match_here_refines:
  assumes "group_free (cx_pat ctx)" "reps_small (cx_pat ctx)" "no_nul (cx_text ctx)"
    "cx_pend ctx = int (length (cx_pat ctx))" "0 \<le> cx_pi ctx" "cx_ti ctx = int ti" "ti \<le> length (cx_text ctx)"
  shows "\<exists>r n. (\<forall>m. match_here ctx m = Some (r, n, m))
    \<and> refines (cx_text ctx) (cx_pat ctx) (cx_pend ctx) (cx_pi ctx) ti r n"
  using assms
proof (induction "nat (cx_pend ctx - cx_pi ctx)" arbitrary: ctx ti rule: less_induct)
  case less
  let ?pat = "cx_pat ctx" and ?pi = "cx_pi ctx" and ?pend = "cx_pend ctx" and ?text = "cx_text ctx"
  have atom: "\<exists>r n. (\<forall>m. match_atom match_here ctx atom_once ?pi ae m = Some (r, n, m))
      \<and> refines ?text ?pat ?pend ?pi ti r n"
    if t: "atom_test ?pat ?pi ?pend = Some (P, ae)" and o: "char_once ?text P (atom_once ctx ?pi ae)"
      and p: "?pi < ae" "?pi < ?pend" "\<not> (?pi + 1 = ?pend \<and> at0 ?pat ?pi = CHR ''$'')" for P ae atom_once
  proof -
    obtain q rep where q: "parse_quantifier ?pat ae ?pend (unit_rep ae) = Some (q, rep)" "ae \<le> rep_next_pi rep"
      using parse_quantifier_safe [of ?pat ae ?pend] less.prems p(1)
      by (metis order_refl order.strict_implies_order order_trans)
    have "\<exists>r n. (\<forall>m. match_here (ctx\<lparr>cx_ti := int t, cx_pi := rep_next_pi rep\<rparr>) m = Some (r, n, m))
        \<and> refines ?text ?pat ?pend (rep_next_pi rep) t r n" if "t \<le> length ?text" for t
      using less.hyps [of "ctx\<lparr>cx_ti := int t, cx_pi := rep_next_pi rep\<rparr>" t] less.prems p q(2) that by simp
    from match_atom_refines [where atom_once = atom_once, OF t o q(1) p(2,3) less.prems(6,7) this]
    show ?thesis .
  qed
  have no_paren: "\<not> (at0 ?pat ?pi = BSL \<and> at0 ?pat (?pi + 1) = CHR ''('')" if "?pi < ?pend"
    using group_freeD [OF less.prems(1), of ?pi] less.prems that by simp
  have unf: "match_here ctx m =
     (if ?pend \<le> ?pi then Some (BRE_OK, 0, m)
      else if at0 ?pat ?pi = CHR ''$'' \<and> ?pi + 1 = ?pend
      then Some (if ti = length ?text then BRE_OK else BRE_NOMATCH, 0, m)
      else if at0 ?pat ?pi = CHR ''['' then
        (if find_class_end_simple ?pat ?pi ?pend < 0 then Some (BRE_ERROR, 0, m)
         else match_atom match_here ctx once_class ?pi (find_class_end_simple ?pat ?pi ?pend) m)
      else if at0 ?pat ?pi = CHR ''.'' then match_atom match_here ctx once_dot ?pi (?pi + 1) m
      else if at0 ?pat ?pi = BSL then
        (if ?pi + 1 \<ge> ?pend \<or> at0 ?pat (?pi + 1) \<in> {CHR ''('', CHR '')'', CHR ''{'', CHR ''}''}
         then Some (BRE_ERROR, 0, m) else match_atom match_here ctx once_escape ?pi (?pi + 2) m)
      else match_atom match_here ctx once_literal ?pi (?pi + 1) m)" for m
  proof -
    obtain c where c: "cstr_at ?text (int ti) = Some c" "c = NUL \<longleftrightarrow> ti = length ?text"
    proof
      show "cstr_at ?text (int ti) = Some (if ti < length ?text then ?text ! ti else NUL)"
        using less.prems(7) by (auto simp: cstr_at_def)
      show "(if ti < length ?text then ?text ! ti else NUL) = NUL \<longleftrightarrow> ti = length ?text"
        using less.prems(3,7) by (auto simp: no_nul_def in_set_conv_nth)
    qed
    have d: "(at0 ?pat ?pi = BSL \<and> ?pi + 1 < ?pend \<and> at0 ?pat (?pi + 1) = CHR ''('') = False"
      if "\<not> ?pend \<le> ?pi" using no_paren that by auto
    show ?thesis
    proof (cases "?pend \<le> ?pi \<or> at0 ?pat ?pi = CHR ''$'' \<and> ?pi + 1 = ?pend")
      case True
      then show ?thesis by (subst match_here.simps) (auto simp: less.prems(6) c)
    next
      case False
      then have F: "(?pend \<le> ?pi) = False" "(at0 ?pat ?pi = CHR ''$'' \<and> ?pi + 1 = ?pend) = False" by auto
      have I: "(if a then x else if b then x else y) = (if a \<or> b then x else y)" for a b and x y :: once_res by simp
      show ?thesis
        by (subst match_here.simps) (simp only: F d if_False Let_def simp_thms insert_iff empty_iff I)
    qed
  qed
  show ?case
  proof (cases "?pend \<le> ?pi \<or> at0 ?pat ?pi = CHR ''$'' \<and> ?pi + 1 = ?pend")
    case True
    let ?r = "if ?pend \<le> ?pi \<or> ti = length ?text then BRE_OK else BRE_NOMATCH"
    have "match_here ctx m = Some (?r, 0, m)" for m
    proof (cases "?pend \<le> ?pi")
      case F: False
      with True have E: "at0 ?pat ?pi = CHR ''$'' \<and> ?pi + 1 = ?pend" by blast
      show ?thesis by (subst unf) (simp only: F E if_False if_True simp_thms if_distrib [of "\<lambda>x. Some (x, 0, m)"])
    qed (simp add: unf)
    moreover have "refines ?text ?pat ?pend ?pi ti ?r 0"
      using True by (auto simp: refines_def intro: den_end den_eol elim: den_cases)
    ultimately show ?thesis by blast
  next
    case False
    then have p: "?pi < ?pend" "\<not> (?pi + 1 = ?pend \<and> at0 ?pat ?pi = CHR ''$'')" by auto
    then have F: "(?pend \<le> ?pi) = False" "(at0 ?pat ?pi = CHR ''$'' \<and> ?pi + 1 = ?pend) = False" by auto
    note unf' = unf [unfolded F if_False]
    note once = char_once_atoms [OF less.prems(3) refl]
    consider (cls) "at0 ?pat ?pi = CHR ''[''" "\<not> find_class_end_simple ?pat ?pi ?pend < 0"
      | (dot) "at0 ?pat ?pi = CHR ''.''"
      | (esc) "at0 ?pat ?pi = BSL" "\<not> ?pend \<le> ?pi + 1" "at0 ?pat (?pi + 1) \<notin> {CHR ''('', CHR '')'', CHR ''{'', CHR ''}''}"
      | (bad) "at0 ?pat ?pi = CHR ''['' \<and> find_class_end_simple ?pat ?pi ?pend < 0
          \<or> at0 ?pat ?pi = BSL \<and> (?pi + 1 \<ge> ?pend \<or> at0 ?pat (?pi + 1) \<in> {CHR ''('', CHR '')'', CHR ''{'', CHR ''}''})"
      | (lit) "at0 ?pat ?pi \<notin> {BSL, CHR ''['', CHR ''.''}"
      by blast
    then show ?thesis
    proof cases
      case cls
      then show ?thesis
        using atom [of _ _ once_class, OF _ once(2) _ p] find_class_end_simple_bounds [of ?pat ?pi ?pend] by (simp add: unf' atom_test_def)
    next
      case dot
      then show ?thesis using atom [of _ _ once_dot, OF _ once(1) _ p] by (simp add: unf' atom_test_def)
    next
      case esc
      then show ?thesis using atom [of _ _ once_escape, OF _ once(3) _ p, OF _ esc(2) [unfolded not_le] esc(3)] by (simp add: unf' atom_test_def)
    next
      case bad
      then have "match_here ctx m = Some (BRE_ERROR, 0, m)" for m by (auto simp: unf')
      moreover have "atom_test ?pat ?pi ?pend = None" using bad by (auto simp: atom_test_def)
      then have "\<not> well_formed ?pat ?pend ?pi" using well_formed_step [OF _ p] by (metis option.distinct(1))
      ultimately show ?thesis by (auto simp: refines_def)
    next
      case lit
      then show ?thesis using atom [of _ _ once_literal, OF _ once(4) _ p, OF _ lit] by (simp add: unf' atom_test_def)
    qed
  qed
qed

section \<open>The entry point\<close>

lemma try_starts_refines:
  assumes "group_free pat" "reps_small pat" "no_nul text"
    "\<forall>t < s. \<forall>k. \<not> den text pat (int (length pat)) (cx_pi (base_context text pat)) t k"
  shows "\<exists>r m'. try_starts (base_context text pat) (int (length text)) (int s) m = Some (r, m')
    \<and> r \<in> {BRE_OK, BRE_NOMATCH, BRE_ERROR}
    \<and> (r = BRE_OK \<longrightarrow> (\<exists>t n. bm_start m' = int t \<and> bm_length m' = int n \<and> t \<le> length text \<and> bm_num_groups m' = 0
         \<and> den text pat (int (length pat)) (cx_pi (base_context text pat)) t n
         \<and> (\<forall>t' < t. \<forall>k. \<not> den text pat (int (length pat)) (cx_pi (base_context text pat)) t' k)))
    \<and> (r = BRE_NOMATCH \<longrightarrow> (\<forall>t \<le> length text. \<forall>k. \<not> den text pat (int (length pat)) (cx_pi (base_context text pat)) t k))
    \<and> (r = BRE_ERROR \<longrightarrow> \<not> well_formed pat (int (length pat)) (cx_pi (base_context text pat)))
    \<and> (r \<noteq> BRE_OK \<longrightarrow> bm_start m' = bm_start m)"
  using assms(4)
proof (induction "length text + 1 - s" arbitrary: s m)
  case 0
  then have "try_starts (base_context text pat) (int (length text)) (int s) m = Some (BRE_NOMATCH, m)"
    by (subst try_starts.simps) simp
  then show ?case using 0 by auto
next
  case (Suc d)
  then have le: "s \<le> length text" by simp
  have pos: "0 \<le> cx_pi (base_context text pat)" by (simp add: base_context_def)
  obtain r n where M: "\<And>m. match_here (base_context text pat\<lparr>cx_ti := int s\<rparr>) m = Some (r, n, m)"
    "refines text pat (int (length pat)) (cx_pi (base_context text pat)) s r n"
    using match_here_refines [of "base_context text pat\<lparr>cx_ti := int s\<rparr>" s] assms(1-3) le pos
    by auto
  have unf: "try_starts (base_context text pat) (int (length text)) (int s) m =
     (if r = BRE_ERROR then Some (BRE_ERROR, no_groups m)
      else if r = BRE_OK
      then Some (BRE_OK, no_groups m\<lparr>bm_start := int s, bm_length := n\<rparr>)
      else try_starts (base_context text pat) (int (length text)) (int (Suc s)) (no_groups m))"
    using le by (subst try_starts.simps)
      (simp add: M(1) bre_sort_groups_by_start_def no_groups_def add.commute)
  consider "r = BRE_ERROR" | "r = BRE_OK" | "r = BRE_NOMATCH" using M(2) by (auto simp: refines_def)
  then show ?case
  proof cases
    case 1
    then show ?thesis using M(2) by (auto simp: unf refines_def no_groups_def)
  next
    case 2
    then have "0 \<le> n" "den text pat (int (length pat)) (cx_pi (base_context text pat)) s (nat n)"
      using M(2) by (auto simp: refines_def)
    then show ?thesis
      using 2 Suc.prems le by (auto simp: unf no_groups_def intro!: exI [of _ s] exI [of _ "nat n"])
  next
    case 3
    then have "\<forall>t < Suc s. \<forall>k. \<not> den text pat (int (length pat)) (cx_pi (base_context text pat)) t k"
      using M(2) Suc.prems by (auto simp: refines_def less_Suc_eq)
    with Suc.hyps(1) [of "Suc s" "no_groups m"] Suc.hyps(2) 3 show ?thesis by (simp add: unf no_groups_def)
  qed
qed

definition pat_start :: "string \<Rightarrow> int" where
  "pat_start pat = (if hd0 pat = CHR ''^'' then 1 else 0)"

definition match_at :: "string \<Rightarrow> string \<Rightarrow> nat \<Rightarrow> nat \<Rightarrow> bool" where
  "match_at text pat t n \<longleftrightarrow> t \<le> length text \<and> (hd0 pat = CHR ''^'' \<longrightarrow> t = 0)
     \<and> den text pat (int (length pat)) (pat_start pat) t n"

lemma bre_match_refines:
  assumes "group_free pat" "reps_small pat" "no_nul text"
  obtains r m where "bre_match text pat = Some (r, m)" "r \<in> {BRE_OK, BRE_NOMATCH, BRE_ERROR}"
    "r = BRE_OK \<Longrightarrow> \<exists>t n. bm_start m = int t \<and> bm_length m = int n \<and> match_at text pat t n
       \<and> (\<forall>t' < t. \<forall>k. \<not> match_at text pat t' k)"
    "r = BRE_OK \<Longrightarrow> bm_num_groups m = 0"
    "r = BRE_NOMATCH \<Longrightarrow> \<forall>t k. \<not> match_at text pat t k"
    "r = BRE_ERROR \<Longrightarrow> \<not> well_formed pat (int (length pat)) (pat_start pat)"
    "r \<noteq> BRE_OK \<Longrightarrow> bm_start m = - 1"
proof (cases "hd0 pat = CHR ''^''")
  case False
  then have p: "cx_pi (base_context text pat) = pat_start pat" by (simp add: base_context_def pat_start_def)
  obtain r m' where r: "bre_match text pat = Some (r, m')" "r \<in> {BRE_OK, BRE_NOMATCH, BRE_ERROR}"
    "r = BRE_OK \<longrightarrow> (\<exists>t n. bm_start m' = int t \<and> bm_length m' = int n \<and> t \<le> length text \<and> bm_num_groups m' = 0
         \<and> den text pat (int (length pat)) (pat_start pat) t n
         \<and> (\<forall>t' < t. \<forall>k. \<not> den text pat (int (length pat)) (pat_start pat) t' k))"
    "r = BRE_NOMATCH \<longrightarrow> (\<forall>t \<le> length text. \<forall>k. \<not> den text pat (int (length pat)) (pat_start pat) t k)"
    "r = BRE_ERROR \<longrightarrow> \<not> well_formed pat (int (length pat)) (pat_start pat)"
    "r \<noteq> BRE_OK \<longrightarrow> bm_start m' = bm_start init_match"
    using try_starts_refines [OF assms, of 0 init_match] False unfolding bre_match_def p by auto
  have "r = BRE_OK \<Longrightarrow> \<exists>t n. bm_start m' = int t \<and> bm_length m' = int n \<and> match_at text pat t n
       \<and> (\<forall>t' < t. \<forall>k. \<not> match_at text pat t' k)"
    using r(3) False unfolding match_at_def by blast
  moreover have "r = BRE_NOMATCH \<Longrightarrow> \<forall>t k. \<not> match_at text pat t k"
    using r(4) by (auto simp: match_at_def)
  moreover have "bm_start init_match = - 1" by (simp add: init_match_def)
  ultimately show ?thesis using that [of r m'] r by (metis (no_types, lifting))
next
  case True
  then have p: "cx_pi (base_context text pat) = pat_start pat" by (simp add: base_context_def pat_start_def)
  obtain r n where M: "\<And>m. match_here (base_context text pat) m = Some (r, n, m)"
    "refines text pat (int (length pat)) (pat_start pat) 0 r n"
    using match_here_refines [of "base_context text pat" 0] assms True
    by (auto simp: base_context_def pat_start_def)
  let ?m = "if r = BRE_OK then init_match\<lparr>bm_start := 0, bm_length := n\<rparr> else init_match"
  have "bre_match text pat = Some (r, ?m)"
    using True by (simp add: bre_match_def M(1) bre_sort_groups_by_start_def init_match_def)
  moreover have "r = BRE_OK \<Longrightarrow> \<exists>t n. bm_start ?m = int t \<and> bm_length ?m = int n \<and> match_at text pat t n
       \<and> (\<forall>t' < t. \<forall>k. \<not> match_at text pat t' k)"
    using M(2) by (auto simp: refines_def match_at_def intro!: exI [of _ "0::nat"] exI [of _ "nat n"])
  moreover have "r = BRE_NOMATCH \<Longrightarrow> \<forall>t k. \<not> match_at text pat t k"
    using M(2) True by (auto simp: refines_def match_at_def)
  moreover have "r = BRE_OK \<Longrightarrow> bm_num_groups ?m = 0" "r \<noteq> BRE_OK \<Longrightarrow> bm_start ?m = - 1"
    by (simp_all add: init_match_def)
  ultimately show ?thesis using that [of r ?m] M(2) by (auto simp: refines_def)
qed

definition plain_regex :: "string \<Rightarrow> bool" where
  "plain_regex pat \<longleftrightarrow> group_free pat \<and> reps_small pat \<and> well_formed pat (int (length pat)) (pat_start pat)"

lemma regex_match:
  assumes "plain_regex pat" "no_nul text"
  obtains (yes) m where "bre_match text pat = Some (BRE_OK, m)" "0 \<le> bm_start m" "\<exists>t n. match_at text pat t n"
    | (no) m where "bre_match text pat = Some (BRE_NOMATCH, m)" "\<forall>t n. \<not> match_at text pat t n" "bm_start m = - 1"
proof -
  have p: "group_free pat" "reps_small pat" "well_formed pat (int (length pat)) (pat_start pat)"
    using assms(1) by (simp_all add: plain_regex_def)
  obtain r m where r: "bre_match text pat = Some (r, m)" "r \<in> {BRE_OK, BRE_NOMATCH, BRE_ERROR}"
    "r = BRE_OK \<Longrightarrow> \<exists>t n. bm_start m = int t \<and> bm_length m = int n \<and> match_at text pat t n
       \<and> (\<forall>t' < t. \<forall>k. \<not> match_at text pat t' k)"
    "r = BRE_NOMATCH \<Longrightarrow> \<forall>t k. \<not> match_at text pat t k"
    "r = BRE_ERROR \<Longrightarrow> \<not> well_formed pat (int (length pat)) (pat_start pat)"
    "r \<noteq> BRE_OK \<Longrightarrow> bm_start m = - 1"
    by (rule bre_match_refines [OF p(1,2) assms(2)]) blast
  consider "r = BRE_OK" | "r = BRE_NOMATCH" using r(2,5) p(3) by auto
  then show thesis
  proof cases
    case 1
    then show ?thesis using yes [of m] r(1,3) by (metis of_nat_0_le_iff)
  next
    case 2
    then show ?thesis using no [of m] r(1,4,6) by blast
  qed
qed

text \<open>
  C2. Soundness and leftmost position: on a group-free pattern with small repetition counts, a
  successful \<open>bre_match\<close> reports a start and a length that match the pattern in the declarative
  sense, and no earlier start matches with any length.
\<close>

theorem bre_match_sound_leftmost:
  assumes "group_free pat" "reps_small pat" "no_nul text" "bre_match text pat = Some (BRE_OK, m)"
  shows "\<exists>t n. bm_start m = int t \<and> bm_length m = int n \<and> match_at text pat t n
    \<and> (\<forall>t' < t. \<forall>k. \<not> match_at text pat t' k)"
  using bre_match_refines [OF assms(1-3)] assms(4) by (metis Pair_inject option.inject)

theorem bre_match_sound_leftmost_witness:
  "\<exists>m. bre_match ''xaab'' ''a*b'' = Some (BRE_OK, m)
     \<and> (\<exists>t n. bm_start m = int t \<and> bm_length m = int n \<and> match_at ''xaab'' ''a*b'' t n
        \<and> (\<forall>t' < t. \<forall>k. \<not> match_at ''xaab'' ''a*b'' t' k))"
proof -
  have "group_free ''a*b''" "reps_small ''a*b''" "no_nul ''xaab''" by code_simp+
  moreover have "bre_match ''xaab'' ''a*b'' = Some (BRE_OK, \<lparr>bm_start = 1, bm_length = 3,
      bm_groups = replicate BRE_MAX_GROUPS (- 1, 0), bm_num_groups = 0\<rparr>)" by code_simp
  ultimately show ?thesis using bre_match_sound_leftmost by blast
qed

text \<open>
  C1. Completeness: on a well-formed group-free pattern the matcher succeeds exactly when the
  pattern matches somewhere, backtracking over every admissible split of the text.
\<close>

theorem bre_match_complete:
  assumes "group_free pat" "reps_small pat" "no_nul text" "well_formed pat (int (length pat)) (pat_start pat)"
  shows "((\<exists>m. bre_match text pat = Some (BRE_OK, m)) \<longleftrightarrow> (\<exists>t n. match_at text pat t n))
    \<and> ((\<exists>m. bre_match text pat = Some (BRE_NOMATCH, m)) \<longleftrightarrow> (\<forall>t n. \<not> match_at text pat t n))"
proof -
  obtain r m where r: "bre_match text pat = Some (r, m)" "r = BRE_OK \<or> r = BRE_NOMATCH"
    "r = BRE_OK \<Longrightarrow> \<exists>t n. match_at text pat t n" "r = BRE_NOMATCH \<Longrightarrow> \<forall>t k. \<not> match_at text pat t k"
    using bre_match_refines [OF assms(1-3)] assms(4) by (metis insertE singletonD)
  then show ?thesis by auto
qed

lemma well_formed_example: "well_formed ''a*b'' 3 0"
proof (rule wf_rep)
  show "atom_test ''a*b'' 0 3 = Some (\<lambda>c. c = CHR ''a'' \<and> CHR ''a'' \<notin> {CHR ''^'', CHR ''$'', CHR ''*''}, 1)"
    by (simp add: atom_test_def at0_def)
  show "parse_quantifier ''a*b'' 1 3 (unit_rep 1) = Some (BRE_OK, \<lparr>rep_min = 0, rep_max = - 1, rep_next_pi = 2\<rparr>)"
    by code_simp
  show "well_formed ''a*b'' 3 (rep_next_pi \<lparr>rep_min = 0, rep_max = - 1, rep_next_pi = 2\<rparr>)"
  proof (rule wf_rep)
    show "atom_test ''a*b'' (rep_next_pi \<lparr>rep_min = 0, rep_max = - 1, rep_next_pi = 2\<rparr>) 3
      = Some (\<lambda>c. c = CHR ''b'' \<and> CHR ''b'' \<notin> {CHR ''^'', CHR ''$'', CHR ''*''}, 3)"
      by (simp add: atom_test_def at0_def)
    show "parse_quantifier ''a*b'' 3 3 (unit_rep 3) = Some (BRE_NOMATCH, unit_rep 3)" by code_simp
  qed (simp_all add: unit_rep_def wf_end)
qed simp_all

theorem bre_match_complete_witness:
  "(\<exists>m. bre_match ''xaab'' ''a*b'' = Some (BRE_OK, m)) \<longleftrightarrow> (\<exists>t n. match_at ''xaab'' ''a*b'' t n)"
proof -
  have "group_free ''a*b''" "reps_small ''a*b''" "no_nul ''xaab''" by code_simp+
  moreover have "well_formed ''a*b'' (int (length ''a*b'')) (pat_start ''a*b'')"
    using well_formed_example by (simp add: pat_start_def)
  ultimately show ?thesis using bre_match_complete by blast
qed

end
