(* ===== verification/BreLiteral.thy ===== *)
theory BreLiteral
  imports BreSpec
begin

text \<open>
  Patterns without special characters: on them the matcher is a search for the first occurrence
  of a substring, and the substitution replaces that occurrence.
\<close>

definition literal_pattern :: "string \<Rightarrow> bool" where
  "literal_pattern pat \<longleftrightarrow> list_all (\<lambda>c. c \<notin> {BSL, CHR ''['', CHR ''.'', CHR ''^'', CHR ''$'', CHR ''*'', NUL}) pat"

definition occurs_at :: "string \<Rightarrow> string \<Rightarrow> nat \<Rightarrow> bool" where
  "occurs_at text pat t \<longleftrightarrow> t + length pat \<le> length text \<and> take (length pat) (drop t text) = pat"

lemma literal_at0:
  assumes "literal_pattern pat" "0 \<le> i" "i < int (length pat)"
  shows "at0 pat i = pat ! nat i" "at0 pat i \<notin> {BSL, CHR ''['', CHR ''.'', CHR ''^'', CHR ''$'', CHR ''*'', NUL}"
  using assms by (auto simp: literal_pattern_def at0_def list_all_length)

lemma literal_quantifier:
  assumes "literal_pattern pat" "0 \<le> i" "i \<le> int (length pat)"
  shows "parse_quantifier pat i (int (length pat)) rep = Some (BRE_NOMATCH, rep)"
proof -
  have "at0 pat i \<noteq> BSL \<and> at0 pat i \<noteq> CHR ''*''"
    using literal_at0 [OF assms(1,2)] assms(3) by (cases "i < int (length pat)") (auto simp: at0_def)
  then show ?thesis by (simp add: parse_quantifier_def parse_bre_repetition_def)
qed

lemma literal_step:
  assumes "literal_pattern pat" "0 \<le> pi" "pi < int (length pat)"
  shows "atom_test pat pi (int (length pat)) = Some (\<lambda>c. c = pat ! nat pi, pi + 1)"
    "\<not> (pi + 1 = int (length pat) \<and> at0 pat pi = CHR ''$'')"
  using literal_at0 [OF assms] by (auto simp: atom_test_def)

lemma literal_den:
  assumes "literal_pattern pat" "i \<le> length pat" "ti \<le> length text"
  shows "den text pat (int (length pat)) (int i) ti n \<longleftrightarrow>
    n = length pat - i \<and> ti + n \<le> length text \<and> take n (drop ti text) = drop i pat"
  using assms(2,3)
proof (induction "length pat - i" arbitrary: i ti n)
  case 0
  then have "i = length pat" by simp
  then show ?case using 0 by (auto intro: den_end elim: den.cases)
next
  case (Suc d)
  then have i: "i < length pat" "d = length pat - Suc i" by auto
  note st = literal_step [OF assms(1), of "int i"]
  have q: "parse_quantifier pat (int i + 1) (int (length pat)) (unit_rep (int i + 1))
      = Some (BRE_NOMATCH, unit_rep (int i + 1))"
    using i by (intro literal_quantifier assms) auto
  have rest: "den text pat (int (length pat)) (int (Suc i)) (ti + 1) k \<longleftrightarrow>
      k = length pat - Suc i \<and> ti + 1 + k \<le> length text \<and> take k (drop (ti + 1) text) = drop (Suc i) pat"
    if "ti < length text" for k
    using Suc.hyps(1) [of "Suc i" "ti + 1" k] i that by auto
  have tk: "ti + (length pat - i) \<le> length text \<and> take (length pat - i) (drop ti text) = drop i pat \<longleftrightarrow>
      ti < length text \<and> text ! ti = pat ! i \<and> ti + 1 + (length pat - Suc i) \<le> length text \<and>
      take (length pat - Suc i) (drop (ti + 1) text) = drop (Suc i) pat"
  proof (cases "ti < length text")
    case True
    have "length pat - i = Suc (length pat - Suc i)" using i by simp
    then show ?thesis
      using True i by (simp add: Cons_nth_drop_Suc [symmetric] take_Cons') blast
  qed (use i in auto)
  show ?case
  proof
    assume "den text pat (int (length pat)) (int i) ti n"
    then show "n = length pat - i \<and> ti + n \<le> length text \<and> take n (drop ti text) = drop i pat"
    proof (cases rule: den.cases)
      case (den_rep P ae q' rep k n')
      then have e: "P = (\<lambda>c. c = pat ! i)" "rep = unit_rep (int i + 1)" using st q i by auto
      then have k: "k = 1" using den_rep(7,8) by (simp add: unit_rep_def rep_cap_def)
      then have t: "ti < length text" "text ! ti = pat ! i" using den_rep(9) e by auto
      have "den text pat (int (length pat)) (int (Suc i)) (ti + 1) n'"
        using den_rep(10) e k by (simp add: unit_rep_def add.commute)
      note R = iffD1 [OF rest [OF t(1)] this]
      then have n': "n' = length pat - Suc i" "ti + 1 + (length pat - Suc i) \<le> length text"
        "take (length pat - Suc i) (drop (ti + 1) text) = drop (Suc i) pat"
        by (elim conjE, simp)+
      then have "n = length pat - i" using den_rep(1) k i by simp
      then show ?thesis using tk t n' by blast
    next
      case den_end
      then show ?thesis using i by simp
    next
      case den_eol
      then show ?thesis using st(2) i(1) by simp
    qed
  next
    assume a: "n = length pat - i \<and> ti + n \<le> length text \<and> take n (drop ti text) = drop i pat"
    then have t: "ti < length text" "text ! ti = pat ! i"
      "den text pat (int (length pat)) (int (Suc i)) (ti + 1) (length pat - Suc i)"
      using tk rest by auto
    have "den text pat (int (length pat)) (int i) ti (1 + (length pat - Suc i))"
      using i t by (intro den_rep [OF _ st(2) st(1) q])
        (auto simp: unit_rep_def rep_cap_def add.commute)
    moreover have "1 + (length pat - Suc i) = n" using a i by simp
    ultimately show "den text pat (int (length pat)) (int i) ti n" by metis
  qed
qed

lemma literal_start: "literal_pattern pat \<Longrightarrow> pat_start pat = 0 \<and> hd0 pat \<noteq> CHR ''^''"
  by (cases pat) (auto simp: literal_pattern_def pat_start_def)

lemma literal_match_at:
  assumes "literal_pattern pat"
  shows "match_at text pat t n \<longleftrightarrow> n = length pat \<and> occurs_at text pat t"
  using literal_den [OF assms, of 0 t "text" n] literal_start [OF assms]
  by (auto simp: match_at_def occurs_at_def)

lemma literal_well_formed:
  assumes "literal_pattern pat" "i \<le> length pat"
  shows "well_formed pat (int (length pat)) (int i)"
  using assms(2)
proof (induction "length pat - i" arbitrary: i)
  case (Suc d)
  then have i: "int i < int (length pat)" "0 \<le> int i" "int i + 1 \<le> int (length pat)" by auto
  have "well_formed pat (int (length pat)) (int (Suc i))" using Suc by (intro Suc.hyps(1)) auto
  then have "well_formed pat (int (length pat)) (rep_next_pi (unit_rep (int i + 1)))"
    by (simp add: unit_rep_def add.commute)
  from wf_rep [OF i(1) literal_step(1) [OF assms(1) i(2,1)] literal_quantifier [OF assms(1) _ i(3)] _ this]
  show ?case by simp
qed (simp add: wf_end)

lemma literal_group_free: "literal_pattern pat \<Longrightarrow> group_free pat"
  using literal_at0 by (auto simp: group_free_def at0_def)

lemma literal_bre_match:
  assumes "literal_pattern pat" "reps_small pat" "no_nul text"
  shows "(\<exists>m t. bre_match text pat = Some (BRE_OK, m) \<and> bm_start m = int t \<and> bm_length m = int (length pat)
      \<and> bm_num_groups m = 0 \<and> occurs_at text pat t \<and> (\<forall>t' < t. \<not> occurs_at text pat t'))
    \<or> (\<exists>m. bre_match text pat = Some (BRE_NOMATCH, m) \<and> (\<forall>t. \<not> occurs_at text pat t))"
proof -
  have wf: "well_formed pat (int (length pat)) (pat_start pat)"
    using literal_well_formed [OF assms(1), of 0] literal_start [OF assms(1)] by simp
  obtain r m where r: "bre_match text pat = Some (r, m)" "r \<in> {BRE_OK, BRE_NOMATCH, BRE_ERROR}"
    "r = BRE_OK \<Longrightarrow> \<exists>t n. bm_start m = int t \<and> bm_length m = int n \<and> match_at text pat t n
       \<and> (\<forall>t' < t. \<forall>k. \<not> match_at text pat t' k)"
    "r = BRE_OK \<Longrightarrow> bm_num_groups m = 0"
    "r = BRE_NOMATCH \<Longrightarrow> \<forall>t k. \<not> match_at text pat t k"
    "r = BRE_ERROR \<Longrightarrow> \<not> well_formed pat (int (length pat)) (pat_start pat)"
    by (rule bre_match_refines [OF literal_group_free [OF assms(1)] assms(2,3)]) blast
  then consider "r = BRE_OK" | "r = BRE_NOMATCH" using wf by auto
  then show ?thesis
    by cases (use r in \<open>auto simp: literal_match_at [OF assms(1)]\<close>)
qed

text \<open>A replacement without group references is copied as it is.\<close>

lemma expand_plain:
  "list_all (\<lambda>c. c \<noteq> BSL) rep \<Longrightarrow> expand_replacement text m rep = Some rep \<and> rep_length m rep = int (length rep)"
  by (induction rep) (simp_all add: expand_replacement.simps rep_length.simps group_ref_def)

lemma literal_substitute:
  assumes "literal_pattern pat" "reps_small pat" "no_nul text" "list_all (\<lambda>c. c \<noteq> BSL) rep"
    "occurs_at text pat t" "\<forall>t' < t. \<not> occurs_at text pat t'"
  shows "bre_substitute text pat rep = Some (Some (take t text @ rep @ drop (t + length pat) text))"
proof -
  obtain m t' where m: "bre_match text pat = Some (BRE_OK, m)" "bm_start m = int t'" "bm_length m = int (length pat)"
    "occurs_at text pat t'" "\<forall>t'' < t'. \<not> occurs_at text pat t''"
    using literal_bre_match [OF assms(1-3)] assms(5) by blast
  then have "t' = t" using assms(5,6) by (meson linorder_neqE_nat)
  moreover have "t + length pat \<le> length text" using assms(5) by (simp add: occurs_at_def)
  moreover have "nat (int t + int (length pat)) = t + length pat" by simp
  ultimately show ?thesis
    using m expand_plain [OF assms(4), of "text" m]
    by (simp add: bre_substitute_def Let_def copy_from_def nat_diff_distrib)
qed

end
