(* ===== verification/BreProps.thy ===== *)
theory BreProps
  imports BreLiteral
begin

text \<open>
  What the regular expression engine promises its callers beyond the matching relation: the
  matches stay inside the text, a substitution splices the replacement into the text around the
  match, literal patterns are replaced at their first occurrence, the groups come out sorted; and
  two inputs on which the engine does something else than a basic regular expression says.
\<close>

abbreviation (input) group_a :: string where
  "group_a \<equiv> [CHR ''x'', BSL, CHR ''('', CHR ''a'', BSL, CHR '')'']"





text \<open>
  Literal patterns: a pattern without special characters is replaced at its first occurrence in the
  text, and only there.
\<close>

theorem literal_replaced_first:
  assumes "literal_pattern pat" "reps_small pat" "no_nul text" "list_all (\<lambda>c. c \<noteq> BSL) rep"
    "occurs_at text pat t" "\<forall>t' < t. \<not> occurs_at text pat t'"
  shows "bre_substitute text pat rep = Some (Some (take t text @ rep @ drop (t + length pat) text))"
  using assms by (rule literal_substitute)

theorem literal_replaced_first_witness:
  "bre_substitute ''say cat cat'' ''cat'' ''dog'' = Some (Some ''say dog cat'')"
proof -
  have "\<forall>t' < 4. \<not> occurs_at ''say cat cat'' ''cat'' t'"
    by (auto simp: occurs_at_def numeral_eq_Suc less_Suc_eq)
  moreover have "literal_pattern ''cat''" "reps_small ''cat''" by code_simp+
  ultimately show ?thesis
    using literal_replaced_first [of "''cat''" "''say cat cat''" "''dog''" 4] by (simp add: occurs_at_def)
qed

text \<open>
  Sorting of the groups: the recorded groups come out as the stable sort by their start (an unset
  one last), the unused cells keep their place.
\<close>

theorem groups_sorted_by_start:
  assumes "bm_num_groups m \<le> length (bm_groups m)"
  shows "bm_groups (bre_sort_groups_by_start m) =
    sort_key group_key (take (bm_num_groups m) (bm_groups m)) @ drop (bm_num_groups m) (bm_groups m)"
  using assms by (rule bre_sort_groups_eq)

theorem groups_sorted_by_start_witness:
  "bm_groups (bre_sort_groups_by_start \<lparr>bm_start = 0, bm_length = 0,
     bm_groups = [(4, 1), (- 1, 0), (2, 2), (0, 0)], bm_num_groups = 3\<rparr>) = [(2, 2), (4, 1), (- 1, 0), (0, 0)]"
  using groups_sorted_by_start [of "\<lparr>bm_start = 0, bm_length = 0,
     bm_groups = [(4, 1), (- 1, 0), (2, 2), (0, 0)], bm_num_groups = 3\<rparr>"] by (simp add: group_key_def)

text \<open>
  A group without a quantifier is searched for instead of matched in place: the pattern \<open>x\(a\)\<close>
  matches the whole of \<open>xba\<close>, a text in which no \<open>xa\<close> occurs, and the substitution deletes the \<open>b\<close>.
\<close>

theorem group_search_skips_text:
  "bre_match ''xba'' group_a = Some (BRE_OK, \<lparr>bm_start = 0, bm_length = 3,
     bm_groups = (2, 1) # replicate 8 (- 1, 0), bm_num_groups = 1\<rparr>)
   \<and> bre_substitute ''xba'' group_a ''!'' = Some (Some ''!'')"
proof
  show "bre_match ''xba'' group_a = Some (BRE_OK, \<lparr>bm_start = 0, bm_length = 3,
     bm_groups = (2, 1) # replicate 8 (- 1, 0), bm_num_groups = 1\<rparr>)" by code_simp
  show "bre_substitute ''xba'' group_a ''!'' = Some (Some ''!'')" by code_simp
qed

end
