(* ===== verification/EdBuffer.thy ===== *)
theory EdBuffer
  imports Bre
begin

text \<open>
  The buffer of the line editor \<open>src/src/ed/ed.c\<close>: the \<open>Editor\<close> record of \<open>ed.h\<close>, the world it
  runs in (the remaining characters of its input stream, what it has printed, the files), the
  error and undo support, the marks, the line reader, and every operation on the buffer:
  append, insert, change, delete, move, copy, join, substitute, the three print commands and
  the file commands. \<open>num_lines\<close> is the length of the list \<open>ed_lines\<close>; an access outside the
  allocated array is undefined, the value \<^term>\<open>None\<close>. \<open>exit(n)\<close> sets \<open>w_exit\<close>, and the loops
  that run commands stop when it is set. Allocations of a possible size succeed; a negative
  number of elements is a size \<open>malloc\<close> cannot satisfy, so it runs \<open>critical_error\<close>. \<open>w_before\<close> is the
  byte of memory before a heap string, which one scan of the code reads. The file and line
  counts stay below \<open>2 ^ 31\<close>.
\<close>

named_theorems ed_simps "the editor's small state updates"

section \<open>State\<close>

abbreviation (input) MAX_LINE :: nat where "MAX_LINE \<equiv> 1024"
abbreviation (input) NL :: char where "NL \<equiv> CHR 0x0A"
abbreviation (input) CR :: char where "CR \<equiv> CHR 0x0D"
abbreviation (input) TAB :: char where "TAB \<equiv> CHR 0x09"

record Editor =
  ed_lines :: "string list"
  ed_current_line :: int
  ed_dirty :: bool
  ed_filename :: "string option"
  ed_verbose :: bool
  ed_last_error :: "string option"
  ed_marks :: "int list"
  ed_prompt :: bool
  ed_undo_lines :: "string list"
  ed_undo_current_line :: int
  ed_undo_valid :: bool

record AddressRange =
  ar_start :: int
  ar_end :: int

record World =
  w_in :: string
  w_out :: string
  w_files :: "string \<Rightarrow> string option"
  w_writable :: "string \<Rightarrow> bool"
  w_input_fp :: bool
  w_before :: char
  w_exit :: "int option"

type_synonym est = "Editor \<times> World"

definition num_lines :: "Editor \<Rightarrow> int" where
  "num_lines ed = int (length (ed_lines ed))"

definition put :: "string \<Rightarrow> World \<Rightarrow> World" where
  "put s w = w\<lparr>w_out := w_out w @ s\<rparr>"

definition put_line :: "string \<Rightarrow> World \<Rightarrow> World" where
  "put_line s w = put (s @ [NL]) w"

definition init_editor :: Editor where
  "init_editor = \<lparr>ed_lines = [], ed_current_line = - 1, ed_dirty = False, ed_filename = None,
     ed_verbose = False, ed_last_error = None, ed_marks = replicate 26 (- 1), ed_prompt = False,
     ed_undo_lines = [], ed_undo_current_line = 0, ed_undo_valid = False\<rparr>"

definition free_editor :: "Editor \<Rightarrow> Editor" where
  "free_editor ed = ed\<lparr>ed_lines := [], ed_filename := None, ed_last_error := None, ed_undo_lines := [],
     ed_current_line := 0, ed_dirty := False, ed_verbose := False, ed_undo_current_line := 0,
     ed_undo_valid := False, ed_marks := replicate 26 (- 1)\<rparr>"

section \<open>Undo, errors and marks\<close>

definition prepare_undo :: "Editor \<Rightarrow> Editor" where
  "prepare_undo ed = ed\<lparr>ed_undo_current_line := ed_current_line ed,
     ed_undo_lines := ed_lines ed, ed_undo_valid := True\<rparr>"

definition set_verbose :: "Editor \<Rightarrow> int \<Rightarrow> Editor" where
  "set_verbose ed on = ed\<lparr>ed_verbose := (on \<noteq> 0)\<rparr>"

definition get_last_error :: "Editor \<Rightarrow> string option" where
  "get_last_error ed = ed_last_error ed"

definition clear_last_error :: "Editor \<Rightarrow> Editor" where
  "clear_last_error ed = ed\<lparr>ed_last_error := None\<rparr>"

definition set_error :: "Editor \<Rightarrow> World \<Rightarrow> string \<Rightarrow> est" where
  "set_error ed w msg =
     (ed\<lparr>ed_last_error := Some msg\<rparr>,
      if ed_verbose ed then put_line msg w else put_line ''?'' w)"

definition update_marks_after_delete :: "Editor \<Rightarrow> int \<Rightarrow> int \<Rightarrow> Editor" where
  "update_marks_after_delete ed start_line num_deleted = ed\<lparr>ed_marks := map (\<lambda>mk.
     if mk < 0 then mk
     else if mk \<ge> start_line \<and> mk < start_line + num_deleted then - 1
     else if mk \<ge> start_line + num_deleted then mk - num_deleted
     else mk) (ed_marks ed)\<rparr>"

definition update_marks_after_insert :: "Editor \<Rightarrow> int \<Rightarrow> int \<Rightarrow> Editor" where
  "update_marks_after_insert ed insert_at num_inserted = ed\<lparr>ed_marks := map (\<lambda>mk.
     if mk < 0 then mk else if mk \<ge> insert_at then mk + num_inserted else mk) (ed_marks ed)\<rparr>"

section \<open>Reading lines\<close>

text \<open>The loop of \<open>read_full_line\<close> over the characters of the stream: the characters of the line,
  whether a newline ended it (with \<open>CR LF\<close> counting as one), and the rest of the stream.\<close>

fun read_chars :: "string \<Rightarrow> string \<times> bool \<times> string" where
  "read_chars [] = ([], False, [])"
| "read_chars (c # inp) =
     (if c = NL then ([], True, inp)
      else if c = CR \<and> inp \<noteq> [] \<and> hd inp = NL then ([], True, tl inp)
      else (c # fst (read_chars inp), snd (read_chars inp)))"

text \<open>A stored NUL ends the C string; \<^term>\<open>None\<close> is \<open>NULL\<close>, at the end of the stream.\<close>

definition read_full_line :: "string \<Rightarrow> (string \<times> bool \<times> string) option" where
  "read_full_line inp =
     (case read_chars inp of (line, had_nl, rest) \<Rightarrow>
        if \<not> had_nl \<and> line = [] then None
        else Some (takeWhile (\<lambda>c. c \<noteq> NUL) line, had_nl, rest))"

definition fgets :: "nat \<Rightarrow> string \<Rightarrow> (string \<times> string) option" where
  "fgets size_b inp =
     (if inp = [] then None
      else let front = take (size_b - 1) inp;
               line = takeWhile (\<lambda>c. c \<noteq> NL) front;
               line' = (if length line < length front then line @ [NL] else line)
           in Some (takeWhile (\<lambda>c. c \<noteq> NUL) line', drop (length line') inp))"

lemma read_chars_length: "length (snd (snd (read_chars inp))) \<le> length inp"
  by (induction inp) (auto simp: le_Suc_eq)

lemma read_chars_less:
  "read_chars inp = (l, b, rest) \<Longrightarrow> b \<or> l \<noteq> [] \<Longrightarrow> length rest < length inp"
  using read_chars_length [of "tl inp"]
  by (cases inp) (auto split: if_splits simp: le_imp_less_Suc)

lemma read_full_line_less: "read_full_line inp = Some (l, b, rest) \<Longrightarrow> length rest < length inp"
  using read_chars_less [of inp]
  by (auto simp: read_full_line_def split: prod.splits if_splits)

section \<open>Saving on a failed allocation\<close>

text \<open>What the write loops print into a file, and the number of bytes they count.\<close>

definition file_text :: "string list \<Rightarrow> string" where
  "file_text ls = concat (map (\<lambda>l. l @ [NL]) ls)"

definition byte_count :: "string list \<Rightarrow> int" where
  "byte_count ls = sum_list (map (\<lambda>l. int (length l) + 1) ls)"

definition strip_nl :: "string \<Rightarrow> string" where
  "strip_nl s = takeWhile (\<lambda>c. c \<noteq> NL) s"

definition save_to :: "Editor \<Rightarrow> string \<Rightarrow> World \<Rightarrow> World" where
  "save_to ed target w =
     put_line (''Saved '' @ show_int (byte_count (ed_lines ed)) @ '' bytes.'')
       (w\<lparr>w_files := (w_files w)(target \<mapsto> file_text (ed_lines ed))\<rparr>)"

definition emergency_save :: "Editor \<Rightarrow> World \<Rightarrow> World" where
  "emergency_save ed w =
     (case ed_filename ed of
        Some target \<Rightarrow>
          if w_writable w target then save_to ed target w
          else put_line (''Could not open '' @ target @ '' for writing.'') w
      | None \<Rightarrow>
          (let w1 = put ''Enter filename to save: '' w in
           case fgets MAX_LINE (w_in w1) of
             None \<Rightarrow> put_line ''Save failed.'' w1
           | Some (f, rest) \<Rightarrow>
               (let w2 = w1\<lparr>w_in := rest\<rparr>; target = strip_nl f in
                if w_writable w2 target then save_to ed target w2
                else
                  (let w3 = put ''Enter alternate filename: ''
                              (put_line (''Could not open '' @ target @ '' for writing.'') w2) in
                   case fgets MAX_LINE (w_in w3) of
                     None \<Rightarrow> put_line ''Save failed.'' w3
                   | Some (f', rest') \<Rightarrow>
                       (let w4 = w3\<lparr>w_in := rest'\<rparr> in
                        if w_writable w4 (strip_nl f') then save_to ed (strip_nl f') w4
                        else put_line ''Could not save buffer.'' w4)))))"

definition critical_error :: "Editor \<Rightarrow> World \<Rightarrow> World" where
  "critical_error ed w =
     (let w1 = put ''The program must exit. Save current buffer? (Y/N): ''
                 (put_line ''*** CRITICAL ERROR: Memory allocation failed ***'' (put [NL] w)) in
      case fgets MAX_LINE (w_in w1) of
        None \<Rightarrow> w1\<lparr>w_exit := Some 1\<rparr>
      | Some (response, rest) \<Rightarrow>
          (let w2 = w1\<lparr>w_in := rest\<rparr> in
           (if hd0 (strip_nl response) = CHR ''Y'' \<or> hd0 (strip_nl response) = CHR ''y''
            then emergency_save ed w2 else w2)\<lparr>w_exit := Some 1\<rparr>))"

section \<open>Append, insert and change\<close>

text \<open>\<open>realloc\<close> to one more cell, shift the cells from \<open>pos\<close> up, store the line at \<open>pos\<close>.\<close>

definition insert_cell :: "string list \<Rightarrow> int \<Rightarrow> string \<Rightarrow> string list option" where
  "insert_cell ls pos line = do {
     ls' \<leftarrow> loop_down (ls @ [[]]) (int (length ls)) pos 0 (- 1);
     aset ls' pos line }"

text \<open>The input loops of \<open>append_line\<close> and \<open>insert_line\<close>. They return the lines, the input
  left, the final \<open>addr\<close>, \<open>last_inserted_index\<close> and \<open>num_inserted\<close>.\<close>

function append_loop ::
  "string list \<Rightarrow> string \<Rightarrow> int \<Rightarrow> int \<Rightarrow> int \<Rightarrow> (string list \<times> string \<times> int \<times> int \<times> int) option" where
  "append_loop ls inp addr lst num =
     (case read_full_line inp of
        None \<Rightarrow> Some (ls, [], addr, lst, num)
      | Some (line, had_nl, rest) \<Rightarrow>
          if line = ''.'' then Some (ls, rest, addr, lst, num)
          else do {
            ls' \<leftarrow> insert_cell ls (addr + 1) line;
            if \<not> had_nl then Some (ls', rest, addr + 1, addr + 1, num + 1)
            else append_loop ls' rest (addr + 1) (addr + 1) (num + 1) })"
  by pat_completeness auto
termination
  by (relation "measure (\<lambda>(ls, inp, a, l, n). length inp)") (auto dest: read_full_line_less)

function insert_loop ::
  "string list \<Rightarrow> string \<Rightarrow> int \<Rightarrow> int \<Rightarrow> int \<Rightarrow> (string list \<times> string \<times> int \<times> int \<times> int) option" where
  "insert_loop ls inp addr lst num =
     (case read_full_line inp of
        None \<Rightarrow> Some (ls, [], addr, lst, num)
      | Some (line, had_nl, rest) \<Rightarrow>
          if line = ''.'' then Some (ls, rest, addr, lst, num)
          else do {
            ls' \<leftarrow> insert_cell ls addr line;
            if \<not> had_nl then Some (ls', rest, addr + 1, addr, num + 1)
            else insert_loop ls' rest (addr + 1) addr (num + 1) })"
  by pat_completeness auto
termination
  by (relation "measure (\<lambda>(ls, inp, a, l, n). length inp)") (auto dest: read_full_line_less)

declare append_loop.simps [simp del] insert_loop.simps [simp del]

definition text_prompt :: "World \<Rightarrow> World" where
  "text_prompt w = (if w_input_fp w then w
     else put_line ''(Enter text, end with '.' on a new line)'' w)"

definition append_line :: "Editor \<Rightarrow> World \<Rightarrow> int \<Rightarrow> est option" where
  "append_line ed0 w0 addr0 = do {
     let ed = prepare_undo ed0;
     let w = text_prompt w0;
     (ls, rest, addr, lst, num) \<leftarrow> append_loop (ed_lines ed) (w_in w) addr0 (- 1) 0;
     let n = int (length ls);
     let cur = (if lst \<ge> 0 then lst
                else if n > 0 \<and> addr + 1 < n then addr + 1
                else if n > 0 then addr
                else ed_current_line ed);
     let ed' = ed\<lparr>ed_lines := ls, ed_current_line := cur\<rparr>;
     Some (if n > num_lines ed0
           then update_marks_after_insert (ed'\<lparr>ed_dirty := True\<rparr>) (addr0 + 1) num else ed',
           w\<lparr>w_in := rest\<rparr>) }"

definition insert_line :: "Editor \<Rightarrow> World \<Rightarrow> int \<Rightarrow> est option" where
  "insert_line ed0 w0 addr0 = do {
     let ed = prepare_undo ed0;
     let w = text_prompt w0;
     (ls, rest, addr, lst, num) \<leftarrow> insert_loop (ed_lines ed) (w_in w) addr0 (- 1) 0;
     let ed' = ed\<lparr>ed_lines := ls, ed_current_line := (if lst \<ge> 0 then lst else addr)\<rparr>;
     Some (if int (length ls) > num_lines ed0
           then update_marks_after_insert (ed'\<lparr>ed_dirty := True\<rparr>) addr0 num else ed',
           w\<lparr>w_in := rest\<rparr>) }"

section \<open>Printing\<close>

definition bad_range :: "Editor \<Rightarrow> AddressRange \<Rightarrow> bool" where
  "bad_range ed r \<longleftrightarrow> (ar_start r < 0 \<or> ar_end r < 0) \<or> (ar_start r \<ge> num_lines ed \<or> ar_end r \<ge> num_lines ed)"

definition print_line :: "Editor \<Rightarrow> World \<Rightarrow> int \<Rightarrow> est" where
  "print_line ed w addr =
     (if num_lines ed = 0 \<or> addr < 0 \<or> addr \<ge> num_lines ed then set_error ed w ''Invalid address''
      else (ed\<lparr>ed_current_line := addr\<rparr>, put_line (ed_lines ed ! nat addr) w))"

text \<open>The print loops run over \<open>i = start .. end\<close>; the guards keep \<open>i\<close> inside the buffer.\<close>

definition print_range :: "Editor \<Rightarrow> World \<Rightarrow> AddressRange \<Rightarrow> est" where
  "print_range ed w r =
     (if bad_range ed r then set_error ed w ''Invalid address''
      else (ed\<lparr>ed_current_line := ar_end r\<rparr>,
            fold (\<lambda>i. put_line (ed_lines ed ! nat i)) [ar_start r..ar_end r] w))"

definition print_numbered_range :: "Editor \<Rightarrow> World \<Rightarrow> AddressRange \<Rightarrow> est" where
  "print_numbered_range ed w r =
     (if bad_range ed r then set_error ed w ''Invalid address''
      else (ed\<lparr>ed_current_line := ar_end r\<rparr>,
            fold (\<lambda>i. put_line (show_int (i + 1) @ [TAB] @ ed_lines ed ! nat i)) [ar_start r..ar_end r] w))"

text \<open>\<open>printf("\\%03o", c)\<close>\<close>

definition oct3 :: "char \<Rightarrow> string" where
  "oct3 c = BSL # [char_of (48 + code c div 64), char_of (48 + code c div 8 mod 8), char_of (48 + code c mod 8)]"

definition list_char :: "char \<Rightarrow> string" where
  "list_char c =
     (if c = BSL then [BSL, BSL]
      else if code c = 9 then [BSL, CHR ''t'']
      else if code c = 8 then [BSL, CHR ''b'']
      else if code c = 12 then [BSL, CHR ''f'']
      else if code c = 13 then [BSL, CHR ''r'']
      else if code c = 11 then [BSL, CHR ''v'']
      else if code c < 32 \<or> code c \<ge> 127 then oct3 c
      else [c])"

definition print_list_range :: "Editor \<Rightarrow> World \<Rightarrow> AddressRange \<Rightarrow> est" where
  "print_list_range ed w r =
     (if bad_range ed r then set_error ed w ''Invalid address''
      else (ed\<lparr>ed_current_line := ar_end r\<rparr>,
            fold (\<lambda>i. put (concat (map list_char (ed_lines ed ! nat i)) @ ''$'' @ [NL]))
              [ar_start r..ar_end r] w))"

section \<open>Delete\<close>

definition delete_line :: "Editor \<Rightarrow> World \<Rightarrow> int \<Rightarrow> est option" where
  "delete_line ed0 w addr = do {
     let ed = prepare_undo ed0;
     let n = num_lines ed;
     if n = 0 \<or> addr < 0 \<or> addr \<ge> n then Some (set_error ed w ''Invalid address'')
     else do {
       ls \<leftarrow> loop_up (ed_lines ed) addr (n - 1) 0 1;
       let cur = (if addr < n - 1 then addr else n - 1 - 1);
       Some (update_marks_after_delete
               (ed\<lparr>ed_lines := take (nat (n - 1)) ls,
                  ed_current_line := (if cur < 0 then - 1 else cur), ed_dirty := True\<rparr>) addr 1, w) } }"

definition delete_range :: "Editor \<Rightarrow> World \<Rightarrow> AddressRange \<Rightarrow> est option" where
  "delete_range ed0 w r = do {
     let ed = prepare_undo ed0;
     let n = num_lines ed;
     if bad_range ed r then Some (set_error ed w ''Invalid address'')
     else do {
       let nd = ar_end r - ar_start r + 1;
       ls \<leftarrow> loop_up (ed_lines ed) (ar_start r) (n - nd) 0 nd;
       Some (update_marks_after_delete
               (ed\<lparr>ed_lines := take (nat (n - nd)) ls,
                  ed_current_line := (if n - nd = 0 then - 1
                                      else if ar_start r < n - nd then ar_start r else n - nd - 1),
                  ed_dirty := True\<rparr>) (ar_start r) nd, w) } }"

definition change_range :: "Editor \<Rightarrow> World \<Rightarrow> AddressRange \<Rightarrow> est option" where
  "change_range ed0 w r = do {
     let ed = prepare_undo ed0;
     if bad_range ed r then Some (set_error ed w ''Invalid address'')
     else do {
       (ed, w) \<leftarrow> delete_range ed w r;
       let at1 = (if ar_start r > num_lines ed then num_lines ed else ar_start r);
       insert_line ed w (if at1 < 0 then 0 else at1) } }"

section \<open>Move, copy and join\<close>

text \<open>\<open>for (i = 0; i < num; i++) lines[p + i] = xs[i]\<close>\<close>

fun store_loop :: "string list \<Rightarrow> int \<Rightarrow> string list \<Rightarrow> string list option" where
  "store_loop ls p [] = Some ls"
| "store_loop ls p (x # xs) = do { ls' \<leftarrow> aset ls p x; store_loop ls' (p + 1) xs }"

definition move_mark :: "int \<Rightarrow> int \<Rightarrow> int \<Rightarrow> int \<Rightarrow> int \<Rightarrow> int \<Rightarrow> int" where
  "move_mark s e dest adj nl mk =
     (if mk < 0 then mk
      else if mk \<ge> s \<and> mk \<le> e then adj + 1 + (mk - s)
      else if s < adj + 1 then (if mk > e \<and> mk \<le> dest then mk - nl else mk)
      else if mk \<ge> adj + 1 \<and> mk < s then mk + nl else mk)"

definition move_range :: "Editor \<Rightarrow> World \<Rightarrow> AddressRange \<Rightarrow> int \<Rightarrow> est option" where
  "move_range ed0 w r dest = do {
     let ed = prepare_undo ed0;
     let n = num_lines ed;
     let s = ar_start r;
     let e = ar_end r;
     if bad_range ed r then Some (set_error ed w ''Invalid address'')
     else if dest < 0 \<or> dest > n then Some (set_error ed w ''Invalid address'')
     else if dest \<ge> s \<and> dest \<le> e then Some (set_error ed w ''Invalid destination'')
     else do {
       let nl = e - s + 1;
       if nl < 0 then Some (ed, critical_error ed w)
       else do {
         let moved = take (nat nl) (drop (nat s) (ed_lines ed));
         ls1 \<leftarrow> loop_up (ed_lines ed) s (n - nl) 0 nl;
         let adj = (if dest > e then dest - nl else dest);
         ls2 \<leftarrow> loop_down ls1 (n - nl - 1) adj nl 0;
         ls3 \<leftarrow> store_loop ls2 (adj + 1) moved;
         Some (ed\<lparr>ed_lines := ls3, ed_current_line := adj + nl, ed_dirty := True,
                 ed_marks := map (move_mark s e dest adj nl) (ed_marks ed)\<rparr>, w) } } }"

text \<open>The copy loop: iteration \<open>i\<close> of \<open>nl\<close> duplicates line \<open>start + i\<close>, moved up when it lies after
  the destination.\<close>

function copy_loop :: "string list \<Rightarrow> int \<Rightarrow> int \<Rightarrow> int \<Rightarrow> int \<Rightarrow> string list option" where
  "copy_loop ls s dest nl i =
     (if i < nl then do {
        x \<leftarrow> aget ls (if s + i > dest then s + i + nl else s + i);
        ls' \<leftarrow> aset ls (dest + 1 + i) x;
        copy_loop ls' s dest nl (i + 1) }
      else Some ls)"
  by pat_completeness auto
termination
  by (relation "measure (\<lambda>(ls, s, dest, nl, i). nat (nl - i))") auto

declare copy_loop.simps [simp del]

definition copy_range :: "Editor \<Rightarrow> World \<Rightarrow> AddressRange \<Rightarrow> int \<Rightarrow> est option" where
  "copy_range ed0 w r dest = do {
     let ed = prepare_undo ed0;
     let n = num_lines ed;
     if bad_range ed r then Some (set_error ed w ''Invalid address'')
     else if dest < 0 \<or> dest > n then Some (set_error ed w ''Invalid address'')
     else do {
       let nl = ar_end r - ar_start r + 1;
       let arr = take (nat (n + nl)) (ed_lines ed @ replicate (nat nl) []);
       ls1 \<leftarrow> loop_down arr (n - 1) dest nl 0;
       ls2 \<leftarrow> copy_loop ls1 (ar_start r) dest nl 0;
       Some (update_marks_after_insert
               (ed\<lparr>ed_lines := ls2, ed_current_line := dest + nl, ed_dirty := True\<rparr>) (dest + 1) nl, w) } }"

definition join_range :: "Editor \<Rightarrow> World \<Rightarrow> AddressRange \<Rightarrow> est option" where
  "join_range ed0 w r = do {
     let ed = prepare_undo ed0;
     let n = num_lines ed;
     let s = ar_start r;
     if bad_range ed r then Some (set_error ed w ''Invalid address'')
     else if s = ar_end r then Some (ed\<lparr>ed_current_line := s\<rparr>, w)
     else do {
       let joined = concat (map (\<lambda>i. ed_lines ed ! nat i) [s..ar_end r]);
       ls1 \<leftarrow> aset (ed_lines ed) s joined;
       let nr = ar_end r - s;
       ls2 \<leftarrow> loop_up ls1 (s + 1) (n - nr) 0 nr;
       Some (ed\<lparr>ed_lines := take (nat (n - nr)) ls2, ed_current_line := s, ed_dirty := True\<rparr>, w) } }"

end
