(* ===== verification/EdFile.thy ===== *)
theory EdFile
  imports EdBuffer
begin

text \<open>
  The file commands of \<open>src/src/ed/ed.c\<close>: \<open>load_file\<close>, \<open>edit_file\<close>, \<open>forced_edit_file\<close>,
  \<open>read_file_at_address\<close>, \<open>write_file\<close> and \<open>write_append_file\<close>. The files are the map
  \<open>w_files\<close>; opening one for reading fails when it does not exist, opening one for writing fails
  where \<open>w_writable\<close> says so. A filename argument of \<open>NULL\<close> is \<^term>\<open>None\<close>.
\<close>

section \<open>Reading\<close>

text \<open>The loop of \<open>load_file\<close>: the lines and the byte count.\<close>

function load_loop :: "string list \<Rightarrow> string \<Rightarrow> int \<Rightarrow> string list \<times> int" where
  "load_loop ls inp bytes =
     (case read_full_line inp of
        None \<Rightarrow> (ls, bytes)
      | Some (line, had_nl, rest) \<Rightarrow>
          (let bytes' = bytes + (int (length line) + (if had_nl then 1 else 0)) in
           if \<not> had_nl then (ls @ [line], bytes') else load_loop (ls @ [line]) rest bytes'))"
  by pat_completeness auto
termination
  by (relation "measure (\<lambda>(ls, inp, b). length inp)") (auto dest: read_full_line_less)

declare load_loop.simps [simp del]

definition load_file :: "Editor \<Rightarrow> World \<Rightarrow> string \<Rightarrow> est" where
  "load_file ed w fname =
     (case w_files w fname of
        None \<Rightarrow> set_error ed w ''Cannot open file''
      | Some contents \<Rightarrow>
          (let r = load_loop (ed_lines ed) contents 0 in
           (ed\<lparr>ed_lines := fst r, ed_current_line := int (length (fst r)) - 1, ed_filename := Some fname\<rparr>,
            put_line (show_int (snd r)) w)))"

text \<open>The flag \<open>own\<close> says that the argument is the pointer \<open>ed->filename\<close> itself: \<open>free_editor\<close> frees
  it before \<open>load_file\<close> reads it, and that is undefined.\<close>

definition forced_edit_file :: "Editor \<Rightarrow> World \<Rightarrow> bool \<Rightarrow> string \<Rightarrow> est option" where
  "forced_edit_file ed w own fname =
     (let ed1 = prepare_undo ed; ed2 = free_editor ed1 in
      if own then None else Some (load_file init_editor w fname))"

definition edit_file :: "Editor \<Rightarrow> World \<Rightarrow> bool \<Rightarrow> string \<Rightarrow> est option" where
  "edit_file ed w own fname =
     (if ed_dirty ed then Some (set_error ed w ''Buffer modified'')
      else let ed1 = prepare_undo ed; ed2 = free_editor ed1 in
           if own then None else Some (load_file init_editor w fname))"

text \<open>The loop of \<open>read_file_at_address\<close>: the lines, \<open>insert_pos\<close>, \<open>num_inserted\<close> and \<open>bytes\<close>.\<close>

function read_loop ::
  "string list \<Rightarrow> string \<Rightarrow> int \<Rightarrow> int \<Rightarrow> int \<Rightarrow> (string list \<times> int \<times> int \<times> int) option" where
  "read_loop ls inp pos num bytes =
     (case read_full_line inp of
        None \<Rightarrow> Some (ls, pos, num, bytes)
      | Some (line, had_nl, rest) \<Rightarrow> do {
          ls' \<leftarrow> insert_cell ls pos line;
          (if \<not> had_nl then Some (ls', pos + 1, num + 1, bytes + int (length line))
           else read_loop ls' rest (pos + 1) (num + 1) (bytes + (int (length line) + 1))) })"
  by pat_completeness auto
termination
  by (relation "measure (\<lambda>(ls, inp, p, n, b). length inp)") (auto dest: read_full_line_less)

declare read_loop.simps [simp del]

definition read_file_at_address :: "Editor \<Rightarrow> World \<Rightarrow> int \<Rightarrow> string \<Rightarrow> est option" where
  "read_file_at_address ed0 w addr fname = do {
     let ed = prepare_undo ed0;
     case w_files w fname of
       None \<Rightarrow> Some (set_error ed w ''Cannot open file'')
     | Some contents \<Rightarrow> do {
         (ls, pos, num, bytes) \<leftarrow> read_loop (ed_lines ed) contents (addr + 1) 0 0;
         let ed1 = ed\<lparr>ed_lines := ls\<rparr>;
         Some (if bytes > 0
               then update_marks_after_insert (ed1\<lparr>ed_current_line := pos - 1, ed_dirty := True\<rparr>) (addr + 1) num
               else ed1,
               put_line (show_int bytes) w) } }"

section \<open>Writing\<close>

definition write_file :: "Editor \<Rightarrow> World \<Rightarrow> string option \<Rightarrow> est" where
  "write_file ed w fname =
     (let target = (if fname = None \<or> fname = Some [] then ed_filename ed else fname) in
      if target = None \<or> target = Some [] then set_error ed w ''No current filename''
      else if \<not> w_writable w (the target) then set_error ed w ''Write failed''
      else (let w' = put_line (show_int (byte_count (ed_lines ed)))
                       (w\<lparr>w_files := (w_files w)(the target \<mapsto> file_text (ed_lines ed))\<rparr>);
                ed' = ed\<lparr>ed_dirty := False\<rparr>
            in (if fname \<noteq> None \<and> fname \<noteq> Some [] then ed'\<lparr>ed_filename := fname\<rparr> else ed', w')))"

definition write_append_file :: "Editor \<Rightarrow> World \<Rightarrow> AddressRange \<Rightarrow> string option \<Rightarrow> est" where
  "write_append_file ed w r fname =
     (if fname = None \<or> fname = Some [] then set_error ed w ''No filename specified''
      else if bad_range ed r then set_error ed w ''Invalid address''
      else if \<not> w_writable w (the fname) then set_error ed w ''Cannot open file for append''
      else (let out = map (\<lambda>i. ed_lines ed ! nat i) [ar_start r..ar_end r];
                old = (case w_files w (the fname) of None \<Rightarrow> [] | Some s \<Rightarrow> s)
            in (ed, put_line (show_int (byte_count out))
                      (w\<lparr>w_files := (w_files w)(the fname \<mapsto> old @ file_text out)\<rparr>))))"

end
