(* ===== verification/EdSubst.thy ===== *)
theory EdSubst
  imports EdBuffer
begin

text \<open>
  The two places where \<open>src/src/ed/ed.c\<close> uses the regular expression engine on the buffer: the
  substitute command and the search of a regular expression address. The loop of
  \<open>s/re/repl/g\<close> scans the line again from its start after every replacement, so it need not end;
  it takes fuel, and \<^term>\<open>None\<close> stands for undefined behaviour and for exhausted fuel.
\<close>

section \<open>Substitute\<close>

text \<open>The \<open>while\<close> loop of the global substitution: the final line and \<open>changed\<close>. The inner
  \<^term>\<open>None\<close> is a \<open>NULL\<close> from \<open>bre_substitute\<close>, which the code answers with \<open>critical_error\<close>.\<close>

fun subst_global :: "nat \<Rightarrow> string \<Rightarrow> bool \<Rightarrow> string \<Rightarrow> string \<Rightarrow> (string \<times> bool) option option" where
  "subst_global 0 work changed pattern repl = None"
| "subst_global (Suc fuel) work changed pattern repl = do {
     (r, m) \<leftarrow> bre_match work pattern;
     if r = BRE_OK then do {
       nxt \<leftarrow> bre_substitute work pattern repl;
       (case nxt of
          None \<Rightarrow> Some None
        | Some s \<Rightarrow> if s = work then Some (Some (work, changed))
                    else subst_global fuel s True pattern repl) }
     else Some (Some (work, changed)) }"

definition subst_once :: "string \<Rightarrow> string \<Rightarrow> string \<Rightarrow> (string \<times> bool) option option" where
  "subst_once line pattern repl = do {
     (r, m) \<leftarrow> bre_match line pattern;
     if r = BRE_OK then do {
       nxt \<leftarrow> bre_substitute line pattern repl;
       (case nxt of None \<Rightarrow> Some None | Some s \<Rightarrow> Some (Some (s, True))) }
     else Some (Some (line, False)) }"

text \<open>The loop \<open>for (j = range.start; j <= range.end; j++)\<close>: the lines and \<open>any_changed\<close>; the
  inner \<^term>\<open>None\<close> ends it in \<open>critical_error\<close>.\<close>

function subst_loop ::
  "nat \<Rightarrow> string list \<Rightarrow> int \<Rightarrow> int \<Rightarrow> bool \<Rightarrow> string \<Rightarrow> string \<Rightarrow> bool \<Rightarrow> (string list \<times> bool) option option" where
  "subst_loop fuel ls j e any pattern repl global =
     (if j \<le> e then do {
        line \<leftarrow> aget ls j;
        res \<leftarrow> (if global then subst_global fuel line False pattern repl else subst_once line pattern repl);
        (case res of
           None \<Rightarrow> Some None
         | Some (line', changed) \<Rightarrow>
             if changed then subst_loop fuel (ls[nat j := line']) (j + 1) e True pattern repl global
             else subst_loop fuel ls (j + 1) e any pattern repl global) }
      else Some (Some (ls, any)))"
  by pat_completeness auto
termination
  by (relation "measure (\<lambda>(fuel, ls, j, e, a, p, r, g). nat (e + 1 - j))") auto

declare subst_loop.simps [simp del]

definition substitute_range ::
  "nat \<Rightarrow> Editor \<Rightarrow> World \<Rightarrow> AddressRange \<Rightarrow> string \<Rightarrow> string \<Rightarrow> bool \<Rightarrow> est option" where
  "substitute_range fuel ed0 w r pattern repl global = do {
     let ed = prepare_undo ed0;
     if bad_range ed r then Some (set_error ed w ''Invalid address'')
     else do {
       res \<leftarrow> subst_loop fuel (ed_lines ed) (ar_start r) (ar_end r) False pattern repl global;
       (case res of
          None \<Rightarrow> Some (ed, critical_error ed w)
        | Some (ls, any) \<Rightarrow>
            if \<not> any then Some (set_error (ed\<lparr>ed_lines := ls\<rparr>) w ''No match'')
            else Some (ed\<lparr>ed_lines := ls, ed_dirty := True, ed_current_line := ar_end r\<rparr>, w)) } }"

section \<open>Regular expression addresses\<close>

text \<open>The four search loops of \<open>search_pattern\<close>: upwards while \<open>idx < n\<close>, downwards while
  \<open>idx \<ge> stop\<close>. The result is the 1-based line number, or 0.\<close>

function search_up :: "string list \<Rightarrow> string \<Rightarrow> int \<Rightarrow> int \<Rightarrow> int option" where
  "search_up ls pat idx n =
     (if idx < n then do {
        line \<leftarrow> aget ls idx;
        (r, m) \<leftarrow> bre_match line pat;
        if r = BRE_OK then Some (idx + 1) else search_up ls pat (idx + 1) n }
      else Some 0)"
  by pat_completeness auto
termination
  by (relation "measure (\<lambda>(ls, pat, idx, n). nat (n - idx))") auto

function search_down :: "string list \<Rightarrow> string \<Rightarrow> int \<Rightarrow> int \<Rightarrow> int option" where
  "search_down ls pat idx stop =
     (if stop \<le> idx then do {
        line \<leftarrow> aget ls idx;
        (r, m) \<leftarrow> bre_match line pat;
        if r = BRE_OK then Some (idx + 1) else search_down ls pat (idx - 1) stop }
      else Some 0)"
  by pat_completeness auto
termination
  by (relation "measure (\<lambda>(ls, pat, idx, stop). nat (idx + 1 - stop))") auto

declare search_up.simps [simp del] search_down.simps [simp del]

definition search_pattern :: "Editor \<Rightarrow> string \<Rightarrow> bool \<Rightarrow> int option" where
  "search_pattern ed pattern forward =
     (if num_lines ed = 0 then Some 0
      else if length pattern \<ge> MAX_LINE then Some 0
      else do {
        let start = (if ed_current_line ed \<ge> 0 then ed_current_line ed else 0);
        found \<leftarrow> (if forward then search_up (ed_lines ed) pattern (start + 1) (num_lines ed)
                  else search_down (ed_lines ed) pattern (start - 1) 0);
        if found \<noteq> 0 then Some found
        else if forward then search_up (ed_lines ed) pattern 0 (start + 1)
        else search_down (ed_lines ed) pattern (num_lines ed - 1) start })"

end
