(* ===== verification/EdAddress.thy ===== *)
theory EdAddress
  imports EdSubst
begin

text \<open>
  The addresses of \<open>src/src/ed/ed.c\<close>: \<open>parse_one_address\<close>, \<open>parse_ed_address\<close>, \<open>parse_address\<close>
  and \<open>parse_address_range\<close>. A pointer into the command is the rest of the string at it. Line
  numbers are 1-based here, and \<open>- 1\<close> and \<open>- 2\<close> are \<open>ADDR_NONE\<close> and \<open>ADDR_ERROR\<close>. The sum of a
  base and an offset is a C \<open>int\<close>, so one above \<open>INT_MAX\<close> is undefined, the value \<^term>\<open>None\<close>.
\<close>

abbreviation (input) ADDR_NONE :: int where "ADDR_NONE \<equiv> - 1"
abbreviation (input) ADDR_ERROR :: int where "ADDR_ERROR \<equiv> - 2"
abbreviation (input) QUOTE :: char where "QUOTE \<equiv> CHR 0x27"

text \<open>The digit loop with its overflow check: \<^term>\<open>None\<close> is \<open>return ADDR_ERROR\<close>.\<close>

fun parse_digits :: "int \<Rightarrow> string \<Rightarrow> (int \<times> string) option" where
  "parse_digits acc [] = Some (acc, [])"
| "parse_digits acc (c # p) =
     (if isdigit c then
        (if acc > INT_MAX div 10 \<or> (acc = INT_MAX div 10 \<and> digit_val c > INT_MAX mod 10) then None
         else parse_digits (acc * 10 + digit_val c) p)
      else Some (acc, c # p))"

fun skip_blanks :: "string \<Rightarrow> string" where
  "skip_blanks [] = []"
| "skip_blanks (c # p) = (if c = CHR '' '' \<or> c = TAB then skip_blanks p else c # p)"

text \<open>The code at the label \<open>apply_offset\<close>.\<close>

definition apply_offset :: "bool \<Rightarrow> int \<Rightarrow> int \<Rightarrow> int \<Rightarrow> int \<Rightarrow> string \<Rightarrow> string \<Rightarrow> (int \<times> string) option" where
  "apply_offset relative sg offset base last_line pp p =
     (let v = (if relative \<or> offset \<noteq> 0 then base + sg * offset else base) in
      if v > INT_MAX then None
      else if v < 0 \<or> v > last_line then Some (ADDR_ERROR, pp) else Some (v, p))"

text \<open>The main address forms, after an optional sign and offset. The last two arguments are the
  pointer at entry, which stays where it is unless the address is complete, and the current one.\<close>

definition address_form ::
  "bool \<Rightarrow> int \<Rightarrow> int \<Rightarrow> int \<Rightarrow> int \<Rightarrow> int list \<Rightarrow> string \<Rightarrow> string \<Rightarrow> (int \<times> string) option" where
  "address_form relative sg offset current last_line marks pp p =
     (let base = (if relative then current else 0);
          finish = apply_offset relative sg offset;
          c = hd0 p in
      if relative \<and> p = [] then finish base last_line pp p
      else if c = CHR ''$'' then finish last_line last_line pp (tl p)
      else if c = CHR ''.'' then finish current last_line pp (tl p)
      else if c = CHR ''0'' \<and> \<not> relative \<and> offset = 0 then
        (let t = hd0 (dropWhile isdigit (tl p)) in
         if t \<noteq> CHR ''+'' \<and> t \<noteq> CHR ''-'' then finish 0 last_line pp (tl p)
         else finish base last_line pp p)
      else if isdigit c then
        (case parse_digits 0 p of
           None \<Rightarrow> Some (ADDR_ERROR, pp)
         | Some (v, p') \<Rightarrow> finish v last_line pp p')
      else if c = QUOTE \<and> islower (peek p 1) then do {
        mk \<leftarrow> aget marks (int (code (peek p 1)) - 97);
        if mk < 0 \<or> mk \<ge> last_line then Some (ADDR_ERROR, pp)
        else finish (mk + 1) last_line pp (drop 2 p) }
      else Some (ADDR_NONE, pp))"

definition parse_one_address :: "string \<Rightarrow> int \<Rightarrow> int \<Rightarrow> int list \<Rightarrow> (int \<times> string) option" where
  "parse_one_address pp current last_line marks =
     (let c = hd0 pp in
      if pp = [] \<or> c = CHR '','' \<or> c = CHR '';'' \<or> c = NL \<or> isspace c then Some (ADDR_NONE, pp)
      else if c = CHR ''+'' \<or> c = CHR ''-'' then
        (case parse_digits 0 (tl pp) of
           None \<Rightarrow> Some (ADDR_ERROR, pp)
         | Some (offset, p) \<Rightarrow>
             address_form True (if c = CHR ''+'' then 1 else - 1) offset current last_line marks pp p)
      else address_form False 1 0 current last_line marks pp pp)"

text \<open>The inner option is the returned pointer (\<^term>\<open>None\<close> for \<open>NULL\<close>), with \<open>addr1\<close>, \<open>addr2\<close>
  and \<open>have_comma\<close>.\<close>

definition parse_ed_address ::
  "string \<Rightarrow> int \<Rightarrow> int \<Rightarrow> int list \<Rightarrow> (string \<times> int \<times> int \<times> bool) option option" where
  "parse_ed_address line current last_line marks =
     (let p = skip_blanks line in
      if p = [] \<or> hd0 p = CHR ''#'' then Some (Some (p, 0, 0, False))
      else do {
        (a1, p) \<leftarrow> parse_one_address p current last_line marks;
        if a1 = ADDR_ERROR then Some None
        else if a1 = ADDR_NONE \<and> hd0 p \<noteq> CHR '','' then Some (Some (p, 0, 0, False))
        else do {
          let addr1 = (if a1 = ADDR_NONE then 0 else a1);
          let p = skip_blanks p;
          if hd0 p = CHR '','' then do {
            (a2, p) \<leftarrow> parse_one_address (skip_blanks (tl p)) current last_line marks;
            if a2 = ADDR_ERROR then Some None
            else Some (Some (skip_blanks p, if addr1 = 0 then 1 else addr1,
                             if a2 = ADDR_NONE then last_line else a2, True)) }
          else Some (Some (skip_blanks p, addr1, if addr1 \<noteq> 0 then addr1 else 0, False)) } })"

text \<open>The pattern loop \<open>while (*p && *p != delim && i < sizeof(pattern) - 1)\<close>.\<close>

definition scan_until :: "char \<Rightarrow> string \<Rightarrow> string \<times> string" where
  "scan_until delim p =
     (let s = takeWhile (\<lambda>c. c \<noteq> delim) (take (MAX_LINE - 1) p) in (s, drop (length s) p))"

definition current_1based :: "Editor \<Rightarrow> int" where
  "current_1based ed = (if ed_current_line ed \<ge> 0 then ed_current_line ed + 1 else 1)"

text \<open>The regular expression branch of \<open>parse_address\<close>.\<close>

definition parse_regex_address :: "Editor \<Rightarrow> string \<Rightarrow> int option" where
  "parse_regex_address ed addr =
     (let delim = hd0 addr; pr = scan_until delim (tl addr) in
      if hd0 (snd pr) \<noteq> delim then Some (- 1)
      else do {
        found \<leftarrow> search_pattern ed (fst pr) (delim = CHR ''/'');
        if found = 0 then Some (- 1)
        else do {
          let p = tl (snd pr);
          (res, p') \<leftarrow> (if p \<noteq> [] then parse_one_address p found (num_lines ed) (replicate 26 (- 1))
                        else Some (ADDR_NONE, p));
          if res = ADDR_ERROR then Some (- 1)
          else do {
            let found = (if res \<noteq> ADDR_NONE then res else found);
            if found \<le> 0 \<or> found > num_lines ed then Some (- 1) else Some (found - 1) } } })"

definition parse_address :: "Editor \<Rightarrow> string \<Rightarrow> int option" where
  "parse_address ed addr0 =
     (let addr = skip_blanks addr0 in
      if addr0 = [] \<or> addr = [] then Some (ed_current_line ed)
      else if hd0 addr = CHR ''/'' \<or> hd0 addr = CHR ''?'' then parse_regex_address ed addr
      else do {
        (res, p) \<leftarrow> parse_one_address addr (current_1based ed) (num_lines ed) (ed_marks ed);
        if res = ADDR_ERROR \<or> res = ADDR_NONE then Some (- 1)
        else if res = 0 then Some (- 1)
        else do {
          let res = (if res > 0 then res - 1 else res);
          if res < 0 \<or> res \<ge> num_lines ed then Some (- 1) else Some res } })"

definition parse_address_range :: "Editor \<Rightarrow> string \<Rightarrow> AddressRange option" where
  "parse_address_range ed range_str = do {
     res \<leftarrow> parse_ed_address range_str (current_1based ed) (num_lines ed) (ed_marks ed);
     (case res of
        None \<Rightarrow> Some \<lparr>ar_start = - 1, ar_end = - 1\<rparr>
      | Some (after, addr1, addr2, have_comma) \<Rightarrow>
          if addr1 = 0 \<and> addr2 = 0 then
            (if num_lines ed > 0 \<and> ed_current_line ed \<ge> 0
             then Some \<lparr>ar_start = ed_current_line ed, ar_end = ed_current_line ed\<rparr>
             else Some \<lparr>ar_start = - 1, ar_end = - 1\<rparr>)
          else do {
            let a1 = (if addr1 > 0 then addr1 - 1 else addr1);
            let a2 = (if addr2 > 0 then addr2 - 1 else addr2);
            (if a1 \<ge> 0 \<and> a1 < num_lines ed \<and> a2 \<ge> 0 \<and> a2 < num_lines ed \<and> a1 \<le> a2
             then Some \<lparr>ar_start = a1, ar_end = a2\<rparr> else Some \<lparr>ar_start = - 1, ar_end = - 1\<rparr>) }) }"

end
