(* ===== verification/EdCommand.thy ===== *)
theory EdCommand
  imports EdFile EdAddress
begin

text \<open>
  The command interpreter of \<open>src/src/ed/ed.c\<close>: \<open>execute_command\<close> with one definition per command
  group, and \<open>main\<close>. The commands of a global are executed by a recursive call, which is the
  argument \<open>exec\<close> of the definitions here; \<open>execute_command\<close> ties the knot with a fuel that bounds
  the nesting of globals and the number of rounds of a global substitution. \<open>op\<close> and the rest of
  the command after the addresses are the string \<open>cs\<close> (\<open>cmd_start\<close>), \<open>buf\<close> is \<open>cmd_buf\<close>.
\<close>

type_synonym exec_fn = "Editor \<Rightarrow> World \<Rightarrow> string \<Rightarrow> est option"

section \<open>Ranges and arguments\<close>

text \<open>The range built from the parsed addresses, \<^term>\<open>None\<close> when the code reports an invalid
  address. Without an address it is the current line.\<close>

definition given_range :: "int \<Rightarrow> int \<Rightarrow> AddressRange" where
  "given_range a1 a2 = \<lparr>ar_start = (if a1 > 0 then a1 - 1 else 0),
                        ar_end = (if a2 > 0 then a2 - 1 else a1 - 1)\<rparr>"

definition cmd_range :: "Editor \<Rightarrow> int \<Rightarrow> int \<Rightarrow> AddressRange option" where
  "cmd_range ed a1 a2 =
     (if a1 = 0 \<and> a2 = 0 \<and> \<not> (num_lines ed > 0 \<and> ed_current_line ed \<ge> 0) then None
      else let r = (if a1 = 0 \<and> a2 = 0 then \<lparr>ar_start = ed_current_line ed, ar_end = ed_current_line ed\<rparr>
                    else given_range a1 a2)
           in if bad_range ed r then None else Some r)"

text \<open>\<open>strchr(cmd_buf, ' ')\<close> and the loop that skips the blanks after it.\<close>

definition space_arg :: "string \<Rightarrow> string option" where
  "space_arg buf =
     (if CHR '' '' \<notin> set buf then None
      else Some (dropWhile (\<lambda>c. c = CHR '' '') (dropWhile (\<lambda>c. c \<noteq> CHR '' '') buf)))"

definition nonempty_arg :: "string \<Rightarrow> string option" where
  "nonempty_arg buf = (if space_arg buf = Some [] then None else space_arg buf)"

section \<open>Substitute, mark and line number\<close>

definition cmd_substitute :: "nat \<Rightarrow> Editor \<Rightarrow> World \<Rightarrow> int \<Rightarrow> int \<Rightarrow> string \<Rightarrow> est option" where
  "cmd_substitute fuel ed w a1 a2 cs =
     (let pr = scan_until (CHR ''/'') (drop 2 cs) in
      if hd0 (snd pr) \<noteq> CHR ''/'' then Some (set_error ed w ''Invalid substitute'')
      else let rr = scan_until (CHR ''/'') (tl (snd pr)) in
      if hd0 (snd rr) \<noteq> CHR ''/'' then Some (set_error ed w ''Invalid substitute'')
      else let flags = tl (snd rr) in
      if \<not> list_all (\<lambda>c. c = CHR ''g'') flags then Some (set_error ed w ''Invalid flag'')
      else case cmd_range ed a1 a2 of
             None \<Rightarrow> Some (set_error ed w ''Invalid address'')
           | Some r \<Rightarrow> substitute_range fuel ed w r (fst pr) (fst rr) (flags \<noteq> []))"

definition cmd_mark :: "Editor \<Rightarrow> World \<Rightarrow> int \<Rightarrow> string \<Rightarrow> est option" where
  "cmd_mark ed w a1 cs =
     (let addrk = (if a1 = 0 then ed_current_line ed else a1 - 1) in
      if addrk < 0 \<or> addrk \<ge> num_lines ed then Some (set_error ed w ''Invalid address'')
      else do {
        mks \<leftarrow> aset (ed_marks ed) (int (code (peek cs 1)) - 97) addrk;
        Some (ed\<lparr>ed_marks := mks, ed_current_line := addrk\<rparr>, w) })"

definition cmd_line_number :: "Editor \<Rightarrow> World \<Rightarrow> string \<Rightarrow> est option" where
  "cmd_line_number ed w addr_str =
     (if addr_str = [] then Some (ed, put_line (show_int (num_lines ed)) w)
      else do {
        addr \<leftarrow> parse_address ed addr_str;
        if addr \<ge> 0 \<and> addr < num_lines ed then Some (ed, put_line (show_int (addr + 1)) w)
        else Some (set_error ed w ''Invalid address'') })"

section \<open>File commands\<close>

definition cmd_filename :: "Editor \<Rightarrow> World \<Rightarrow> string \<Rightarrow> est" where
  "cmd_filename ed w buf =
     (let ed' = (case nonempty_arg buf of None \<Rightarrow> ed | Some f \<Rightarrow> ed\<lparr>ed_filename := Some f\<rparr>) in
      case ed_filename ed' of
        Some f \<Rightarrow> (ed', put_line f w)
      | None \<Rightarrow> set_error ed' w ''No current filename'')"

definition cmd_write :: "Editor \<Rightarrow> World \<Rightarrow> string \<Rightarrow> est" where
  "cmd_write ed w buf = write_file ed w (nonempty_arg buf)"

definition cmd_write_append :: "Editor \<Rightarrow> World \<Rightarrow> int \<Rightarrow> int \<Rightarrow> string \<Rightarrow> est" where
  "cmd_write_append ed w a1 a2 buf =
     (case nonempty_arg buf of
        None \<Rightarrow> set_error ed w ''No filename specified''
      | Some f \<Rightarrow>
          (let r = (if a1 = 0 \<and> a2 = 0 then \<lparr>ar_start = 0, ar_end = num_lines ed - 1\<rparr> else given_range a1 a2) in
           if bad_range ed r then set_error ed w ''Invalid address''
           else write_append_file ed w r (Some f)))"

text \<open>Without an argument the file name is \<open>ed->filename\<close>, the same pointer.\<close>

definition cmd_edit :: "bool \<Rightarrow> Editor \<Rightarrow> World \<Rightarrow> string \<Rightarrow> est option" where
  "cmd_edit forced ed w buf =
     (let own = (nonempty_arg buf = None);
          fname = (if own then ed_filename ed else nonempty_arg buf) in
      case fname of
        None \<Rightarrow> Some (set_error ed w ''No current filename'')
      | Some f \<Rightarrow> if forced then forced_edit_file ed w own f else edit_file ed w own f)"

definition cmd_read :: "Editor \<Rightarrow> World \<Rightarrow> int \<Rightarrow> string \<Rightarrow> est option" where
  "cmd_read ed w a1 buf =
     (case nonempty_arg buf of
        None \<Rightarrow> Some (set_error ed w ''No filename specified'')
      | Some f \<Rightarrow> read_file_at_address ed w (if a1 = 0 then num_lines ed - 1 else a1 - 1) f)"

section \<open>Move, copy and the range commands\<close>

definition cmd_move_copy :: "char \<Rightarrow> Editor \<Rightarrow> World \<Rightarrow> int \<Rightarrow> int \<Rightarrow> string \<Rightarrow> est option" where
  "cmd_move_copy opc ed w a1 a2 buf =
     (case nonempty_arg buf of
        None \<Rightarrow> Some (set_error ed w ''No destination address'')
      | Some dest_str \<Rightarrow>
          (case cmd_range ed a1 a2 of
             None \<Rightarrow> Some (set_error ed w ''Invalid address'')
           | Some r \<Rightarrow> do {
               dest \<leftarrow> parse_address ed dest_str;
               if dest < 0 then Some (set_error ed w ''Invalid destination'')
               else if opc = CHR ''m'' then move_range ed w r dest
               else copy_range ed w r dest }))"

definition cmd_on_range :: "char \<Rightarrow> Editor \<Rightarrow> World \<Rightarrow> int \<Rightarrow> int \<Rightarrow> est option" where
  "cmd_on_range opc ed w a1 a2 =
     (case cmd_range ed a1 a2 of
        None \<Rightarrow> Some (set_error ed w ''Invalid address'')
      | Some r \<Rightarrow>
          if opc = CHR ''p'' then Some (print_range ed w r)
          else if opc = CHR ''d'' then delete_range ed w r
          else if opc = CHR ''n'' then Some (print_numbered_range ed w r)
          else if opc = CHR ''l'' then Some (print_list_range ed w r)
          else if opc = CHR ''c'' then change_range ed w r
          else join_range ed w r)"

section \<open>Commands with a single address\<close>

definition cmd_undo :: "Editor \<Rightarrow> World \<Rightarrow> est" where
  "cmd_undo ed w =
     (if \<not> ed_undo_valid ed then set_error ed w ''Nothing to undo''
      else (ed\<lparr>ed_lines := ed_undo_lines ed, ed_current_line := ed_undo_current_line ed,
               ed_undo_lines := [], ed_undo_current_line := 0, ed_undo_valid := False,
               ed_dirty := True\<rparr>, w))"

definition on_off :: "bool \<Rightarrow> string" where
  "on_off b = (if b then ''on'' else ''off'')"

definition cmd_single :: "char \<Rightarrow> Editor \<Rightarrow> World \<Rightarrow> int \<Rightarrow> est option" where
  "cmd_single opc ed w a1 =
     (let addr = (if a1 = 0 then ed_current_line ed else a1 - 1) in
      if addr < 0 \<and> opc \<notin> set ''aiqQHh'' then Some (set_error ed w ''Invalid address'')
      else if opc = CHR ''a'' then
        append_line ed w (if addr < 0 then if num_lines ed > 0 then num_lines ed - 1 else - 1 else addr)
      else if opc = CHR ''i'' then insert_line ed w (if addr < 0 then 0 else addr)
      else if opc = CHR ''u'' then Some (cmd_undo ed w)
      else if opc = CHR ''q'' then
        Some (if ed_dirty ed then set_error ed w ''Buffer modified'' else (ed, w\<lparr>w_exit := Some 0\<rparr>))
      else if opc = CHR ''Q'' then Some (ed, w\<lparr>w_exit := Some 0\<rparr>)
      else if opc = CHR ''H'' then
        Some (ed\<lparr>ed_verbose := \<not> ed_verbose ed\<rparr>, put_line (''Verbose '' @ on_off (\<not> ed_verbose ed)) w)
      else if opc = CHR ''P'' then
        Some (ed\<lparr>ed_prompt := \<not> ed_prompt ed\<rparr>, put_line (''Prompt '' @ on_off (\<not> ed_prompt ed)) w)
      else if opc = CHR ''h'' then
        Some (ed, put_line (case ed_last_error ed of Some e \<Rightarrow> e | None \<Rightarrow> ''No error'') w)
      else Some (set_error ed w ''Unknown command''))"

section \<open>Global commands\<close>

text \<open>The loop that collects the indices of the lines the command applies to.\<close>

function collect_lines :: "string list \<Rightarrow> string \<Rightarrow> bool \<Rightarrow> int \<Rightarrow> int \<Rightarrow> int list option" where
  "collect_lines ls pat is_g i e =
     (if i \<le> e then do {
        line \<leftarrow> aget ls i;
        (r, m) \<leftarrow> bre_match line pat;
        idxs \<leftarrow> collect_lines ls pat is_g (i + 1) e;
        Some (if (r = BRE_OK) = is_g then i # idxs else idxs) }
      else Some [])"
  by pat_completeness auto
termination
  by (relation "measure (\<lambda>(ls, pat, g, i, e). nat (e + 1 - i))") auto

declare collect_lines.simps [simp del]

text \<open>\<open>target\<close> clipped to the buffer.\<close>

definition clip_target :: "Editor \<Rightarrow> int \<Rightarrow> int" where
  "clip_target ed target =
     (let t = (if target < 0 then 0 else target) in if t \<ge> num_lines ed then num_lines ed - 1 else t)"

text \<open>A single inner command runs for each index, the last one first; the list argument is in
  that order. A nested global runs as it is, other commands with the line number before them.\<close>

fun global_single :: "exec_fn \<Rightarrow> string \<Rightarrow> int list \<Rightarrow> Editor \<Rightarrow> World \<Rightarrow> est option" where
  "global_single exec inner [] ed w = Some (ed, w)"
| "global_single exec inner (k # ks) ed w =
     (if w_exit w \<noteq> None then Some (ed, w)
      else do {
        (ed, w) \<leftarrow>
          (if hd0 inner = CHR ''g'' \<or> hd0 inner = CHR ''v'' then
             exec (if num_lines ed > 0 then ed\<lparr>ed_current_line := clip_target ed k\<rparr> else ed) w
               (take (2 * MAX_LINE - 1) inner)
           else exec ed w (take (2 * MAX_LINE - 1) (show_int (k + 1) @ inner)));
        global_single exec inner ks ed w })"

text \<open>The command list between braces: each line is cut at the first \<open>CR\<close> or \<open>LF\<close> and trimmed.\<close>

definition trim_list_line :: "string \<Rightarrow> string" where
  "trim_list_line s =
     rev (dropWhile (\<lambda>c. c = CHR '' '') (rev (dropWhile (\<lambda>c. c = CHR '' '')
       (takeWhile (\<lambda>c. c \<noteq> CR \<and> c \<noteq> NL) s))))"

lemma fgets_less: "fgets n inp = Some (l, rest) \<Longrightarrow> 1 < n \<Longrightarrow> length rest < length inp"
  by (cases inp; cases "n - 1") (auto simp: fgets_def Let_def split: if_splits)

function read_list :: "string \<Rightarrow> string list \<times> string" where
  "read_list inp =
     (case fgets MAX_LINE inp of
        None \<Rightarrow> ([], inp)
      | Some (l, rest) \<Rightarrow>
          (let s = trim_list_line l in
           if s = ''}'' then ([], rest)
           else (s # fst (read_list rest), snd (read_list rest))))"
  by pat_completeness auto
termination
  by (relation "measure length") (auto dest!: fgets_less)

declare read_list.simps [simp del]

text \<open>The scan for the command letter after the address characters of a listed command; its
  argument \<open>prev\<close> is the character before the pointer.\<close>

fun skip_addr_chars :: "char \<Rightarrow> string \<Rightarrow> string" where
  "skip_addr_chars prev [] = []"
| "skip_addr_chars prev (c # p) =
     (if isdigit c \<or> c \<in> set ''.$+-,'' \<or> c = QUOTE \<or> (islower c \<and> prev = QUOTE)
      then skip_addr_chars c p else c # p)"

definition first_non_addr :: "char \<Rightarrow> string \<Rightarrow> char" where
  "first_non_addr jnk cmdline =
     (let p = skip_blanks cmdline;
          prev = (if p = cmdline then jnk else cmdline ! (length cmdline - length p - 1))
      in hd0 (skip_blanks (skip_addr_chars prev p)))"

text \<open>The text lines after a listed insert or append, up to the line \<open>.\<close>, and the commands left.\<close>

fun take_text :: "string list \<Rightarrow> string list \<times> string list" where
  "take_text [] = ([], [])"
| "take_text (t # ls) =
     (if t = ''.'' then ([t], ls) else (t # fst (take_text ls), snd (take_text ls)))"

lemma take_text_length: "length (snd (take_text ls)) \<le> length ls"
  by (induction ls) auto

text \<open>The buffer \<open>combined\<close> holds the command, a newline and the text, cut to its size; the
  part after the command becomes the input stream of the command.\<close>

definition list_input :: "string \<Rightarrow> string list \<Rightarrow> string" where
  "list_input cmdline texts =
     drop (length cmdline + 1) (take (MAX_LINE * 64 - 1) (cmdline @ [NL] @ file_text texts))"

function run_list :: "exec_fn \<Rightarrow> string list \<Rightarrow> Editor \<Rightarrow> World \<Rightarrow> est option" where
  "run_list exec [] ed w = Some (ed, w)"
| "run_list exec (cmdline # ls) ed w =
     (if w_exit w \<noteq> None then Some (ed, w)
      else if cmdline = [] then run_list exec ls ed w
      else if first_non_addr (w_before w) cmdline \<in> {CHR ''i'', CHR ''a''} then do {
        (ed', w') \<leftarrow> exec ed (w\<lparr>w_in := list_input cmdline (fst (take_text ls))\<rparr>)
                     (take (MAX_LINE - 1) cmdline);
        run_list exec (snd (take_text ls)) ed' (w'\<lparr>w_in := w_in w\<rparr>) }
      else do {
        (ed', w') \<leftarrow> exec ed w (take (MAX_LINE - 1) cmdline);
        run_list exec ls ed' w' })"
  by pat_completeness auto
termination
  by (relation "measure (\<lambda>(exec, ls, ed, w). length ls)") (auto simp: le_imp_less_Suc take_text_length)

fun global_list :: "exec_fn \<Rightarrow> string list \<Rightarrow> int list \<Rightarrow> Editor \<Rightarrow> World \<Rightarrow> est option" where
  "global_list exec ls [] ed w = Some (ed, w)"
| "global_list exec ls (k # ks) ed w =
     (if w_exit w \<noteq> None then Some (ed, w)
      else if num_lines ed = 0 then global_list exec ls ks ed w
      else do {
        (ed', w') \<leftarrow> run_list exec ls (ed\<lparr>ed_current_line := clip_target ed k\<rparr>) w;
        global_list exec ls ks ed' w' })"

definition cmd_global :: "exec_fn \<Rightarrow> Editor \<Rightarrow> World \<Rightarrow> int \<Rightarrow> int \<Rightarrow> string \<Rightarrow> est option" where
  "cmd_global exec ed w a1 a2 cs =
     (let pr = scan_until (CHR ''/'') (drop 2 cs) in
      if hd0 (snd pr) \<noteq> CHR ''/'' then Some (set_error ed w ''Invalid global'')
      else let inner = dropWhile (\<lambda>c. c = CHR '' '') (tl (snd pr)) in
      if inner = [] then Some (set_error ed w ''Invalid global'')
      else let s = (if a1 > 0 then a1 - 1 else 0);
               e = (if a2 > 0 then a2 - 1 else num_lines ed - 1) in
      if bad_range ed \<lparr>ar_start = s, ar_end = e\<rparr> then Some (set_error ed w ''Invalid address'')
      else if e - s + 1 < 0 then Some (ed, critical_error ed w)
      else do {
        idxs \<leftarrow> collect_lines (ed_lines ed) (fst pr) (hd0 cs = CHR ''g'') s e;
        (if inner = ''{'' then
           (let lr = read_list (w_in w) in global_list exec (fst lr) (rev idxs) ed (w\<lparr>w_in := snd lr\<rparr>))
         else global_single exec inner (rev idxs) ed w) })"

section \<open>The interpreter\<close>

definition dispatch :: "nat \<Rightarrow> exec_fn \<Rightarrow> Editor \<Rightarrow> World \<Rightarrow> string \<Rightarrow> string \<Rightarrow> int \<Rightarrow> int \<Rightarrow> est option" where
  "dispatch fuel exec ed w buf cs a1 a2 =
     (let opc = hd0 cs; addr_str = take (length buf - length cs) buf in
      if opc = NUL then
        Some (if a1 > 0 then
                (if a1 - 1 < num_lines ed then (ed\<lparr>ed_current_line := a1 - 1\<rparr>, w)
                 else set_error ed w ''Invalid address'')
              else (ed, w))
      else if (opc = CHR ''g'' \<or> opc = CHR ''v'') \<and> peek cs 1 = CHR ''/'' then cmd_global exec ed w a1 a2 cs
      else if opc = CHR ''s'' \<and> peek cs 1 = CHR ''/'' then cmd_substitute fuel ed w a1 a2 cs
      else if opc = CHR ''k'' \<and> islower (peek cs 1) then cmd_mark ed w a1 cs
      else if opc = CHR ''='' then cmd_line_number ed w addr_str
      else if opc = CHR ''f'' then Some (cmd_filename ed w buf)
      else if opc = CHR ''w'' then Some (cmd_write ed w buf)
      else if opc = CHR ''W'' then Some (cmd_write_append ed w a1 a2 buf)
      else if opc = CHR ''e'' then cmd_edit False ed w buf
      else if opc = CHR ''E'' then cmd_edit True ed w buf
      else if opc = CHR ''r'' then cmd_read ed w a1 buf
      else if opc = CHR ''m'' \<or> opc = CHR ''t'' then cmd_move_copy opc ed w a1 a2 buf
      else if opc \<in> set ''pdnlcj'' then cmd_on_range opc ed w a1 a2
      else cmd_single opc ed w a1)"

definition command_buffer :: "string \<Rightarrow> string" where
  "command_buffer cmd = takeWhile (\<lambda>c. c \<noteq> NL) (take (MAX_LINE - 1) cmd)"

primrec execute_command :: "nat \<Rightarrow> Editor \<Rightarrow> World \<Rightarrow> string \<Rightarrow> est option" where
  "execute_command 0 = (\<lambda>ed w cmd. None)"
| "execute_command (Suc fuel) = (\<lambda>ed w cmd.
     (let buf = command_buffer cmd in
      if buf = [] then Some (ed, w)
      else do {
        res \<leftarrow> parse_ed_address buf (current_1based ed) (num_lines ed) (ed_marks ed);
        (case res of
           None \<Rightarrow> Some (set_error ed w ''Invalid address'')
         | Some (cs, a1, a2, have_comma) \<Rightarrow>
             dispatch fuel (execute_command fuel) ed w buf cs a1 a2) }))"

section \<open>The main loop\<close>

fun main_loop :: "nat \<Rightarrow> nat \<Rightarrow> Editor \<Rightarrow> World \<Rightarrow> est option" where
  "main_loop fuel 0 ed w = None"
| "main_loop fuel (Suc n) ed w =
     (if w_exit w \<noteq> None then Some (ed, w)
      else case fgets MAX_LINE (w_in w) of
             None \<Rightarrow> execute_command fuel ed w ''Q''
           | Some (cmd, rest) \<Rightarrow> do {
               (ed', w') \<leftarrow> execute_command fuel ed (w\<lparr>w_in := rest\<rparr>) cmd;
               main_loop fuel n ed' w' })"

text \<open>The loop over the command line: the first \<^typ>\<open>bool\<close> is \<open>script_mode\<close>, the second is false
  when it has returned 1.\<close>

function main_args :: "string list \<Rightarrow> World \<Rightarrow> bool \<Rightarrow> World \<times> bool \<times> bool" where
  "main_args args w script =
     (case args of
        [] \<Rightarrow> (w, script, True)
      | arg # rest \<Rightarrow>
          if arg = ''-S'' then
            (case rest of
               [] \<Rightarrow> (put_line ''Script file not specified after -S'' w, script, False)
             | fname # rest' \<Rightarrow>
                 (case w_files w fname of
                    None \<Rightarrow> (put_line (''Cannot open script file: '' @ fname) w, script, False)
                  | Some s \<Rightarrow> main_args rest' (w\<lparr>w_in := s\<rparr>) True))
          else if take 9 arg = ''--script='' then
            (let fname = drop 9 arg in
             if fname = [] then (put_line ''Script file not specified'' w, script, False)
             else (case w_files w fname of
                     None \<Rightarrow> (put_line (''Cannot open script file: '' @ fname) w, script, False)
                   | Some s \<Rightarrow> main_args rest (w\<lparr>w_in := s\<rparr>) True))
          else main_args rest w script)"
  by pat_completeness auto
termination
  by (relation "measure (\<lambda>(args, w, s). length args)") auto

declare main_args.simps [simp del]

text \<open>\<open>main\<close>; \<open>args\<close> is \<open>argv[1..]\<close>.\<close>

definition ed_main :: "nat \<Rightarrow> nat \<Rightarrow> string list \<Rightarrow> World \<Rightarrow> est option" where
  "ed_main fuel n args w0 =
     (case main_args args (w0\<lparr>w_input_fp := True\<rparr>) False of (w, script, ok) \<Rightarrow>
        if \<not> ok then Some (init_editor, w\<lparr>w_exit := Some 1\<rparr>)
        else let ew = (if args \<noteq> [] \<and> \<not> script then load_file init_editor w (hd args) else (init_editor, w));
                 w1 = (if \<not> script
                       then put_line ''Simple POSIX ed-like editor in C. Type commands (e.g., 'a', 'p', 'q')'' (snd ew)
                       else snd ew)
             in main_loop fuel n (fst ew) w1)"

end
