(* ===== verification/EdEdit.thy ===== *)
theory EdEdit
  imports EdCommand
begin

text \<open>
  What the editing operations of the buffer do, in closed form: on a valid address or range each
  is defined (no access outside the arrays) and its result is the obvious list expression, with
  the current line, the marks and the undo snapshot it leaves.
\<close>

section \<open>The cells\<close>

lemma insert_cell_eq [ed_simps]:
  assumes "0 \<le> pos" "pos \<le> int (length ls)"
  shows "insert_cell ls pos x = Some (take (nat pos) ls @ x # drop (nat pos) ls)"
proof -
  obtain ys where "loop_down (ls @ [[]]) (int (length ls)) pos 0 (- 1) = Some ys"
    "aset ys pos x = Some (take (nat pos) ls @ x # drop (nat pos) ls)"
    using loop_down_insert [OF assms, of "[]" x] by blast
  then show ?thesis by (simp add: insert_cell_def)
qed

section \<open>Text from the input\<close>

text \<open>The lines an \<open>a\<close>, \<open>i\<close> or \<open>c\<close> reads, and what it leaves of the stream.\<close>

function text_lines :: "string \<Rightarrow> string list \<times> string" where
  "text_lines inp =
     (case read_full_line inp of
        None \<Rightarrow> ([], [])
      | Some (line, had_nl, rest) \<Rightarrow>
          if line = ''.'' then ([], rest)
          else if \<not> had_nl then ([line], rest)
          else (line # fst (text_lines rest), snd (text_lines rest)))"
  by pat_completeness auto
termination
  by (relation "measure length") (auto dest: read_full_line_less)

declare text_lines.simps [simp del]

lemma insert_loop_eq:
  assumes "0 \<le> pos" "pos \<le> int (length ls)"
  shows "insert_loop ls inp pos lst num = Some
    (take (nat pos) ls @ fst (text_lines inp) @ drop (nat pos) ls, snd (text_lines inp),
     pos + int (length (fst (text_lines inp))),
     if fst (text_lines inp) = [] then lst else pos + int (length (fst (text_lines inp))) - 1,
     num + int (length (fst (text_lines inp))))"
  using assms
proof (induction inp arbitrary: ls pos lst num rule: text_lines.induct)
  case (1 inp)
  show ?case
  proof (cases "read_full_line inp")
    case None
    then show ?thesis by (simp add: insert_loop.simps text_lines.simps)
  next
    case (Some x)
    obtain line had_nl rest where x: "x = (line, had_nl, rest)" by (cases x)
    show ?thesis
    proof (cases "line = ''.'' \<or> \<not> had_nl")
      case True
      then show ?thesis
        using insert_cell_eq [OF 1(3,4)] 1(3,4) Some x by (auto simp: insert_loop.simps text_lines.simps)
    next
      case False
      let ?ls = "take (nat pos) ls @ line # drop (nat pos) ls"
      have "insert_loop ls inp pos lst num = insert_loop ?ls rest (pos + 1) pos (num + 1)"
        using False 1(3,4) Some x by (subst insert_loop.simps) (simp add: ed_simps)
      also have "\<dots> = Some (take (nat (pos + 1)) ?ls @ fst (text_lines rest) @ drop (nat (pos + 1)) ?ls,
          snd (text_lines rest), pos + 1 + int (length (fst (text_lines rest))),
          if fst (text_lines rest) = [] then pos else pos + 1 + int (length (fst (text_lines rest))) - 1,
          num + 1 + int (length (fst (text_lines rest))))"
        using 1(1) [OF Some x [symmetric] refl, of "pos + 1" ?ls] False 1(3,4) by simp
      also have "take (nat (pos + 1)) ?ls = take (nat pos) ls @ [line]"
        using 1(3,4) by (simp add: nat_add_distrib min_def)
      also have "drop (nat (pos + 1)) ?ls = drop (nat pos) ls"
        using 1(3,4) by (simp add: nat_add_distrib min_def)
      finally show ?thesis
        using False Some x by (simp add: text_lines.simps [of inp])
    qed
  qed
qed

lemma append_loop_eq_insert_loop:
  "append_loop ls inp addr lst num =
     map_option (\<lambda>(ls, rest, a, l, n). (ls, rest, a - 1, l, n)) (insert_loop ls inp (addr + 1) lst num)"
proof (induction ls inp addr lst num rule: append_loop.induct)
  case (1 ls inp addr lst num)
  show ?case
  proof (cases "read_full_line inp")
    case (Some x)
    obtain line had_nl rest where x: "x = (line, had_nl, rest)" by (cases x)
    show ?thesis
      using 1 [OF Some x [symmetric] refl] Some x
      by (cases "insert_cell ls (addr + 1) line") (auto simp: append_loop.simps [of ls] insert_loop.simps [of ls])
  qed (simp add: append_loop.simps insert_loop.simps)
qed

section \<open>The editing operations\<close>

text \<open>The editor after text has been inserted at an index.\<close>

definition with_text :: "Editor \<Rightarrow> int \<Rightarrow> string list \<Rightarrow> int \<Rightarrow> Editor" where
  "with_text ed pos new cur =
     (let ed' = (prepare_undo ed)\<lparr>ed_lines := take (nat pos) (ed_lines ed) @ new @ drop (nat pos) (ed_lines ed),
                                  ed_current_line := cur\<rparr>
      in if new = [] then ed'
         else update_marks_after_insert (ed'\<lparr>ed_dirty := True\<rparr>) pos (int (length new)))"

lemma prepare_undo_simps [simp]:
  "ed_lines (prepare_undo ed) = ed_lines ed" "num_lines (prepare_undo ed) = num_lines ed"
  "ed_current_line (prepare_undo ed) = ed_current_line ed" "ed_marks (prepare_undo ed) = ed_marks ed"
  "ed_dirty (prepare_undo ed) = ed_dirty ed" "ed_undo_valid (prepare_undo ed)"
  "ed_undo_lines (prepare_undo ed) = ed_lines ed" "ed_filename (prepare_undo ed) = ed_filename ed"
  "ed_undo_current_line (prepare_undo ed) = ed_current_line ed"
  "bad_range (prepare_undo ed) r = bad_range ed r"
  by (simp_all add: prepare_undo_def num_lines_def bad_range_def)

lemma update_marks_simps [simp]:
  "ed_lines (update_marks_after_insert ed p k) = ed_lines ed"
  "ed_current_line (update_marks_after_insert ed p k) = ed_current_line ed"
  "ed_dirty (update_marks_after_insert ed p k) = ed_dirty ed"
  "ed_undo_lines (update_marks_after_insert ed p k) = ed_undo_lines ed"
  "ed_undo_valid (update_marks_after_insert ed p k) = ed_undo_valid ed"
  "ed_undo_current_line (update_marks_after_insert ed p k) = ed_undo_current_line ed"
  "ed_lines (update_marks_after_delete ed p k) = ed_lines ed"
  "ed_current_line (update_marks_after_delete ed p k) = ed_current_line ed"
  "ed_dirty (update_marks_after_delete ed p k) = ed_dirty ed"
  "ed_undo_lines (update_marks_after_delete ed p k) = ed_undo_lines ed"
  "ed_undo_valid (update_marks_after_delete ed p k) = ed_undo_valid ed"
  "ed_undo_current_line (update_marks_after_delete ed p k) = ed_undo_current_line ed"
  by (simp_all add: update_marks_after_insert_def update_marks_after_delete_def)

lemma with_text_simps [simp]:
  "ed_lines (with_text ed pos new cur) = take (nat pos) (ed_lines ed) @ new @ drop (nat pos) (ed_lines ed)"
  "ed_current_line (with_text ed pos new cur) = cur"
  "ed_undo_lines (with_text ed pos new cur) = ed_lines ed"
  "ed_undo_current_line (with_text ed pos new cur) = ed_current_line ed"
  "ed_undo_valid (with_text ed pos new cur)"
  "ed_dirty (with_text ed pos new cur) \<longleftrightarrow> ed_dirty ed \<or> new \<noteq> []"
  by (simp_all add: with_text_def Let_def)

definition typed :: "World \<Rightarrow> string list" where
  "typed w = fst (text_lines (w_in w))"

definition after_text :: "World \<Rightarrow> World" where
  "after_text w = (text_prompt w)\<lparr>w_in := snd (text_lines (w_in w))\<rparr>"

lemma w_in_text_prompt [simp]: "w_in (text_prompt w) = w_in w"
  by (simp add: text_prompt_def put_line_def put_def)

lemma append_line_eq:
  assumes "- 1 \<le> addr" "addr < num_lines ed"
  shows "append_line ed w addr = Some (with_text ed (addr + 1) (typed w)
     (if typed w \<noteq> [] then addr + int (length (typed w))
      else if num_lines ed > 0 \<and> addr + 1 < num_lines ed then addr + 1
      else if num_lines ed > 0 then addr else ed_current_line ed), after_text w)"
proof -
  have "1 \<le> int (length (typed w))" if "typed w \<noteq> []" using that by (cases "typed w") auto
  then show ?thesis
    using assms insert_loop_eq [of "addr + 1" "ed_lines ed" "w_in w" "- 1" 0]
    by (cases "typed w = []")
      (simp_all add: append_line_def append_loop_eq_insert_loop Let_def typed_def after_text_def with_text_def
        num_lines_def)
qed

lemma insert_line_eq:
  assumes "0 \<le> addr" "addr \<le> num_lines ed"
  shows "insert_line ed w addr = Some (with_text ed addr (typed w)
     (if typed w \<noteq> [] then addr + int (length (typed w)) - 1 else addr), after_text w)"
proof -
  have "1 \<le> int (length (typed w))" if "typed w \<noteq> []" using that by (cases "typed w") auto
  then show ?thesis
    using assms insert_loop_eq [of "addr" "ed_lines ed" "w_in w" "- 1" 0]
    by (cases "typed w = []")
      (simp_all add: insert_line_def Let_def typed_def after_text_def with_text_def num_lines_def)
qed

text \<open>Ranges that lie in the buffer in the right order.\<close>

definition good_range :: "Editor \<Rightarrow> AddressRange \<Rightarrow> bool" where
  "good_range ed r \<longleftrightarrow> 0 \<le> ar_start r \<and> ar_start r \<le> ar_end r \<and> ar_end r < num_lines ed"

lemma good_not_bad: "good_range ed r \<Longrightarrow> \<not> bad_range ed r"
  by (auto simp: good_range_def bad_range_def)

definition without_range :: "string list \<Rightarrow> AddressRange \<Rightarrow> string list" where
  "without_range ls r = take (nat (ar_start r)) ls @ drop (nat (ar_end r + 1)) ls"

definition range_lines :: "string list \<Rightarrow> AddressRange \<Rightarrow> string list" where
  "range_lines ls r = take (nat (ar_end r - ar_start r + 1)) (drop (nat (ar_start r)) ls)"

definition range_size :: "AddressRange \<Rightarrow> int" where
  "range_size r = ar_end r - ar_start r + 1"

lemma length_without_range: "good_range ed r \<Longrightarrow> int (length (without_range (ed_lines ed) r)) = num_lines ed - range_size r"
  by (auto simp: good_range_def without_range_def num_lines_def range_size_def)

lemma length_range_lines: "good_range ed r \<Longrightarrow> int (length (range_lines (ed_lines ed) r)) = range_size r"
  by (auto simp: good_range_def range_lines_def num_lines_def range_size_def)

lemma split_range: "good_range ed r \<Longrightarrow> ed_lines ed = take (nat (ar_start r)) (ed_lines ed)
    @ range_lines (ed_lines ed) r @ drop (nat (ar_end r + 1)) (ed_lines ed)"
proof -
  assume g: "good_range ed r"
  then have "nat (ar_end r + 1) = nat (ar_start r) + nat (ar_end r - ar_start r + 1)"
    by (auto simp: good_range_def)
  then show ?thesis
    unfolding range_lines_def by (metis append_take_drop_id drop_drop add.commute)
qed

definition shortened :: "Editor \<Rightarrow> AddressRange \<Rightarrow> Editor" where
  "shortened ed r = update_marks_after_delete ((prepare_undo ed)
     \<lparr>ed_lines := without_range (ed_lines ed) r,
      ed_current_line := (if num_lines ed - range_size r = 0 then - 1
                          else if ar_start r < num_lines ed - range_size r then ar_start r
                          else num_lines ed - range_size r - 1),
      ed_dirty := True\<rparr>) (ar_start r) (range_size r)"

lemma delete_range_eq:
  assumes "good_range ed r"
  shows "delete_range ed w r = Some (shortened ed r, w)"
proof -
  have "\<exists>ys. loop_up (ed_lines ed) (ar_start r) (num_lines ed - range_size r) 0 (range_size r) = Some ys
    \<and> take (nat (num_lines ed - range_size r)) ys = without_range (ed_lines ed) r"
    using loop_up_delete [of "ar_start r" "range_size r" "ed_lines ed"] assms
    by (simp add: good_range_def num_lines_def range_size_def without_range_def add.assoc algebra_simps)
  then obtain ys where "loop_up (ed_lines ed) (ar_start r) (num_lines ed - range_size r) 0 (range_size r) = Some ys"
    "take (nat (num_lines ed - range_size r)) ys = without_range (ed_lines ed) r" by blast
  then show ?thesis
    using good_not_bad [OF assms] by (simp add: delete_range_def Let_def shortened_def flip: range_size_def)
qed

lemma delete_line_eq:
  assumes "0 \<le> addr" "addr < num_lines ed"
  shows "delete_line ed w addr = Some (shortened ed \<lparr>ar_start = addr, ar_end = addr\<rparr>, w)"
proof -
  obtain ys where "loop_up (ed_lines ed) addr (num_lines ed - 1) 0 1 = Some ys"
    "take (nat (num_lines ed - 1)) ys = without_range (ed_lines ed) \<lparr>ar_start = addr, ar_end = addr\<rparr>"
    using loop_up_delete [of addr 1 "ed_lines ed"] assms by (auto simp: num_lines_def without_range_def)
  then show ?thesis
    using assms by (auto simp: delete_line_def Let_def shortened_def range_size_def)
qed

lemma shortened_simps [simp]:
  "ed_lines (shortened ed r) = without_range (ed_lines ed) r"
  "ed_undo_lines (shortened ed r) = ed_lines ed" "ed_undo_valid (shortened ed r)"
  "ed_undo_current_line (shortened ed r) = ed_current_line ed" "ed_dirty (shortened ed r)"
  by (simp_all add: shortened_def)

lemma change_range_eq:
  assumes "good_range ed r"
  shows "change_range ed w r = Some (with_text (shortened (prepare_undo ed) r) (ar_start r) (typed w)
    (if typed w \<noteq> [] then ar_start r + int (length (typed w)) - 1 else ar_start r), after_text w)"
proof -
  have g: "good_range (prepare_undo ed) r" using assms by (simp add: good_range_def)
  have "0 \<le> ar_start r" "ar_start r \<le> num_lines (shortened (prepare_undo ed) r)"
    using length_without_range [OF g] assms
    by (auto simp: good_range_def num_lines_def range_size_def)
  then show ?thesis
    using good_not_bad [OF assms] delete_range_eq [OF g, of w]
    by (simp add: change_range_def Let_def insert_line_eq)
qed

section \<open>Move and copy\<close>

lemma loop_down_room:
  assumes "0 \<le> p" "p \<le> m" "0 \<le> k" "int (length xs) = m + k"
  obtains ys where "loop_down xs (m - 1) (p - 1) k 0 = Some ys" "length ys = length xs"
    "take (nat p) ys = take (nat p) xs" "drop (nat (p + k)) ys = drop (nat p) (take (nat m) xs)"
proof -
  obtain ys where ys: "loop_down xs (m - 1) (p - 1) k 0 = Some ys" "length ys = length xs"
    "\<And>j. j < length xs \<Longrightarrow> ys ! j = (if p - 1 + k < int j \<and> int j \<le> m - 1 + k then xs ! (j - nat k) else xs ! j)"
    using loop_down_shift [of "p - 1" "m - 1" k k xs 0] assms by auto
  have "take (nat p) ys = take (nat p) xs"
    using ys(2,3) assms by (intro nth_equalityI) auto
  moreover have "drop (nat (p + k)) ys = drop (nat p) (take (nat m) xs)"
  proof (rule nth_equalityI)
    fix j assume "j < length (drop (nat (p + k)) ys)"
    then have j: "nat (p + k) + j < length xs" using ys(2) by auto
    then have "ys ! (nat (p + k) + j) = xs ! (nat (p + k) + j - nat k)"
      using ys(3) [OF j] assms by auto
    moreover have "nat (p + k) + j - nat k = nat p + j" using assms by (simp add: nat_add_distrib)
    ultimately show "drop (nat (p + k)) ys ! j = drop (nat p) (take (nat m) xs) ! j"
      using j ys(2) assms by simp
  qed (use ys(2) assms in auto)
  ultimately show ?thesis using that ys(1,2) by blast
qed

lemma store_loop_eq [ed_simps]:
  assumes "0 \<le> p" "p + int (length xs) \<le> int (length ls)"
  shows "store_loop ls p xs = Some (take (nat p) ls @ xs @ drop (nat p + length xs) ls)"
  using assms
proof (induction xs arbitrary: ls p)
  case (Cons x xs)
  have p: "nat p < length ls" "nat (p + 1) = Suc (nat p)" using Cons.prems by auto
  have "take (Suc (nat p)) (ls[nat p := x]) = take (nat p) ls @ [x]"
    using p by (simp add: take_Suc_conv_app_nth)
  moreover have "drop (nat p + Suc (length xs)) (ls[nat p := x]) = drop (nat p + Suc (length xs)) ls"
    using p by simp
  ultimately show ?case using Cons p by simp
qed simp

definition moved_lines :: "string list \<Rightarrow> AddressRange \<Rightarrow> int \<Rightarrow> string list" where
  "moved_lines ls r dest =
     (let rem = without_range ls r; p = nat (if dest > ar_end r then dest - range_size r + 1 else dest + 1)
      in take p rem @ range_lines ls r @ drop p rem)"

lemma move_range_eq:
  assumes g: "good_range ed r" and d: "0 \<le> dest" "dest < num_lines ed" "\<not> (ar_start r \<le> dest \<and> dest \<le> ar_end r)"
  defines "adj \<equiv> if dest > ar_end r then dest - range_size r else dest"
  shows "move_range ed w r dest = Some ((prepare_undo ed)\<lparr>ed_lines := moved_lines (ed_lines ed) r dest,
     ed_current_line := adj + range_size r, ed_dirty := True,
     ed_marks := map (move_mark (ar_start r) (ar_end r) dest adj (range_size r)) (ed_marks ed)\<rparr>, w)"
proof -
  let ?ls = "ed_lines ed" and ?k = "range_size r" and ?n = "num_lines ed"
  have k: "0 < ?k" "?k \<le> ?n" using g by (auto simp: good_range_def range_size_def)
  have adj: "0 \<le> adj + 1" "adj + 1 \<le> ?n - ?k"
    using g d by (auto simp: adj_def good_range_def range_size_def)
  obtain ys where ys: "loop_up ?ls (ar_start r) (?n - ?k) 0 ?k = Some ys"
    "take (nat (?n - ?k)) ys = without_range ?ls r" "length ys = length ?ls"
  proof -
    obtain ys where "loop_up ?ls (ar_start r) (?n - ?k) 0 ?k = Some ys"
      "take (nat (?n - ?k)) ys = without_range ?ls r"
      using loop_up_delete [of "ar_start r" ?k ?ls] g
      by (auto simp: good_range_def num_lines_def range_size_def without_range_def algebra_simps)
    moreover have "length ys = length ?ls"
      using loop_up_shift [of "ar_start r" "?n - ?k" ?k ?ls] calculation(1) g k
      by (auto simp: good_range_def num_lines_def range_size_def)
    ultimately show ?thesis using that by blast
  qed
  have len: "int (length ys) = (?n - ?k) + ?k" using ys(3) by (simp add: num_lines_def)
  obtain zs where zs: "loop_down ys (?n - ?k - 1) adj ?k 0 = Some zs" "length zs = length ys"
    "take (nat (adj + 1)) zs = take (nat (adj + 1)) ys"
    "drop (nat (adj + 1 + ?k)) zs = drop (nat (adj + 1)) (take (nat (?n - ?k)) ys)"
    using loop_down_room [OF adj _ len] k by auto
  have r: "length (range_lines ?ls r) = nat ?k" "int (length (range_lines ?ls r)) = ?k"
    using length_range_lines [OF g] by auto
  have "store_loop zs (adj + 1) (range_lines ?ls r)
      = Some (take (nat (adj + 1)) zs @ range_lines ?ls r @ drop (nat (adj + 1) + nat ?k) zs)"
    using store_loop_eq [of "adj + 1" "range_lines ?ls r" zs] adj k r zs(2) ys(3) by (simp add: num_lines_def)
  also have "nat (adj + 1) + nat ?k = nat (adj + 1 + ?k)" using adj k by simp
  also have "take (nat (adj + 1)) zs = take (nat (adj + 1)) (without_range ?ls r)"
    using adj unfolding zs(3) ys(2) [symmetric] by (simp add: min_def nat_le_iff)
  finally have "store_loop zs (adj + 1) (range_lines ?ls r) = Some (moved_lines ?ls r dest)"
    unfolding zs(4) ys(2) by (simp add: moved_lines_def adj_def Let_def if_distrib cong: if_cong)
  moreover have "take (nat ?k) (drop (nat (ar_start r)) ?ls) = range_lines ?ls r"
    by (simp add: range_lines_def range_size_def)
  ultimately show ?thesis
    using good_not_bad [OF g] d ys(1) zs(1) k
    by (simp add: move_range_def Let_def flip: range_size_def adj_def, blast)
qed

lemma copy_loop_eq:
  assumes "length ys = length ls + k" "0 \<le> s" "s + int k \<le> int (length ls)" "0 \<le> dest" "dest < int (length ls)"
    "take (nat (dest + 1)) ys = take (nat (dest + 1)) ls"
    "drop (nat (dest + 1) + k) ys = drop (nat (dest + 1)) ls"
    "i \<le> k"
  shows "copy_loop ys s dest (int k) (int i) =
    Some (take (nat (dest + 1) + i) ys @ drop i (take k (drop (nat s) ls)) @ drop (nat (dest + 1) + k) ys)"
  using assms
proof (induction "k - i" arbitrary: i ys)
  case 0
  then have [simp]: "i = k" by simp
  show ?case by (subst copy_loop.simps) simp
next
  case (Suc d)
  let ?p = "nat (dest + 1)"
  let ?src = "if s + int i > dest then s + int i + int k else s + int i"
  have i: "i < k" using Suc(2) by simp
  have get: "aget ys ?src = Some (ls ! nat (s + int i))"
  proof (cases "s + int i > dest")
    case True
    then have "nat ?src = (?p + k) + nat (s + int i - (dest + 1))" using Suc.prems by auto
    moreover have "drop (?p + k) ys ! nat (s + int i - (dest + 1)) = ys ! (?p + k + nat (s + int i - (dest + 1)))"
      "drop ?p ls ! nat (s + int i - (dest + 1)) = ls ! (?p + nat (s + int i - (dest + 1)))"
      using Suc.prems(1-5) by simp_all
    moreover have "?p + nat (s + int i - (dest + 1)) = nat (s + int i)" using True Suc.prems by auto
    ultimately show ?thesis
      using True i Suc.prems by (simp add: aget_def)
  next
    case False
    then have "nat (s + int i) < ?p" using Suc.prems by auto
    then have "ys ! nat (s + int i) = ls ! nat (s + int i)"
      using Suc.prems(6) by (metis nth_take)
    then show ?thesis using False i Suc.prems by (simp add: aget_def)
  qed
  let ?ys = "ys[?p + i := ls ! nat (s + int i)]"
  have set: "aset ys (dest + 1 + int i) (ls ! nat (s + int i)) = Some ?ys"
    using i Suc.prems by (simp add: aset_def nat_add_distrib)
  have "copy_loop ?ys s dest (int k) (int (Suc i)) =
    Some (take (?p + Suc i) ?ys @ drop (Suc i) (take k (drop (nat s) ls)) @ drop (?p + k) ?ys)"
    using Suc i by (intro Suc.hyps) auto
  moreover have "take (?p + Suc i) ?ys = take (?p + i) ys @ [ls ! nat (s + int i)]"
    using i Suc.prems by (simp add: take_Suc_conv_app_nth)
  moreover have "drop i (take k (drop (nat s) ls)) = ls ! nat (s + int i) # drop (Suc i) (take k (drop (nat s) ls))"
    using i Suc.prems by (subst Cons_nth_drop_Suc [symmetric]) (auto simp: nat_add_distrib)
  moreover have "copy_loop ys s dest (int k) (int i) = copy_loop ?ys s dest (int k) (int i + 1)"
    using i by (subst copy_loop.simps) (simp add: get set)
  moreover have "int (Suc i) = int i + 1" by simp
  ultimately show ?case using i by (simp add: add.commute)
qed

lemma copy_range_eq:
  assumes g: "good_range ed r" and d: "0 \<le> dest" "dest < num_lines ed"
  shows "copy_range ed w r dest = Some (update_marks_after_insert ((prepare_undo ed)
     \<lparr>ed_lines := take (nat (dest + 1)) (ed_lines ed) @ range_lines (ed_lines ed) r @ drop (nat (dest + 1)) (ed_lines ed),
      ed_current_line := dest + range_size r, ed_dirty := True\<rparr>) (dest + 1) (range_size r), w)"
proof -
  let ?ls = "ed_lines ed" and ?k = "range_size r" and ?n = "num_lines ed"
  have k: "0 < ?k" "?k \<le> ?n" "ar_start r + ?k \<le> ?n" "0 \<le> ar_start r" using g by (auto simp: good_range_def range_size_def)
  let ?arr = "?ls @ replicate (nat ?k) []"
  have arr: "take (nat (?n + ?k)) ?arr = ?arr" using k by (simp add: num_lines_def)
  obtain ys where ys: "loop_down ?arr (?n - 1) dest ?k 0 = Some ys" "length ys = length ?arr"
    "take (nat (dest + 1)) ys = take (nat (dest + 1)) ?arr"
    "drop (nat (dest + 1 + ?k)) ys = drop (nat (dest + 1)) (take (nat ?n) ?arr)"
    using loop_down_room [of "dest + 1" ?n ?k ?arr] d k by (auto simp: num_lines_def)
  have "copy_loop ys (ar_start r) dest (int (nat ?k)) (int 0) = Some (take (nat (dest + 1) + 0) ys
      @ drop 0 (take (nat ?k) (drop (nat (ar_start r)) ?ls)) @ drop (nat (dest + 1) + nat ?k) ys)"
    using ys(2-4) d k by (intro copy_loop_eq) (auto simp: num_lines_def nat_add_distrib)
  also have "drop (nat (dest + 1) + nat ?k) ys = drop (nat (dest + 1)) ?ls"
    using ys(4) d k by (simp add: num_lines_def nat_add_distrib)
  also have "take (nat ?k) (drop (nat (ar_start r)) ?ls) = range_lines ?ls r"
    by (simp add: range_lines_def range_size_def)
  finally have "copy_loop ys (ar_start r) dest ?k 0 =
      Some (take (nat (dest + 1)) ?ls @ range_lines ?ls r @ drop (nat (dest + 1)) ?ls)"
    using ys(3) d k by (simp add: num_lines_def)
  then show ?thesis
    using good_not_bad [OF g] d ys(1) arr
    by (simp add: copy_range_def Let_def flip: range_size_def)
qed

definition joined_lines :: "string list \<Rightarrow> AddressRange \<Rightarrow> string list" where
  "joined_lines ls r = take (nat (ar_start r)) ls @ concat (range_lines ls r) # drop (nat (ar_end r + 1)) ls"

lemma range_map: "good_range ed r \<Longrightarrow> map (\<lambda>i. ed_lines ed ! nat i) [ar_start r..ar_end r] = range_lines (ed_lines ed) r"
  by (rule nth_equalityI) (auto simp: good_range_def num_lines_def range_lines_def nat_add_distrib)

lemma join_range_eq:
  assumes g: "good_range ed r"
  shows "join_range ed w r = Some ((prepare_undo ed)\<lparr>ed_lines := joined_lines (ed_lines ed) r,
     ed_current_line := ar_start r, ed_dirty := (ed_dirty ed \<or> ar_start r \<noteq> ar_end r)\<rparr>, w)"
proof (cases "ar_start r = ar_end r")
  case True
  have "range_lines (ed_lines ed) r = [ed_lines ed ! nat (ar_start r)]"
    using range_map [OF g] True by simp
  then have "joined_lines (ed_lines ed) r = ed_lines ed"
    using split_range [OF g] by (simp add: joined_lines_def)
  then show ?thesis
    using True good_not_bad [OF g] by (simp add: join_range_def Let_def)
next
  case False
  let ?ls = "ed_lines ed" and ?s = "ar_start r" and ?m = "ar_end r - ar_start r"
  let ?ls1 = "?ls[nat ?s := concat (range_lines ?ls r)]"
  have b: "0 \<le> ?s" "?s < ar_end r" "ar_end r < int (length ?ls)"
    using g False by (auto simp: good_range_def num_lines_def)
  obtain ys where ys: "loop_up ?ls1 (?s + 1) (num_lines ed - ?m) 0 ?m = Some ys"
    "take (nat (num_lines ed - ?m)) ys = take (nat (?s + 1)) ?ls1 @ drop (nat (?s + 1 + ?m)) ?ls1"
    using loop_up_delete [of "?s + 1" ?m ?ls1] b by (auto simp: num_lines_def)
  have "nat (?s + 1) = Suc (nat ?s)" "nat (?s + 1 + ?m) = nat (ar_end r + 1)" "nat ?s < nat (ar_end r + 1)"
    using b by auto
  then have "take (nat (num_lines ed - ?m)) ys = joined_lines ?ls r"
    unfolding ys(2) using b by (simp add: take_Suc_conv_app_nth joined_lines_def)
  then show ?thesis
    using False good_not_bad [OF g] ys(1) b range_map [OF g]
    by (simp add: join_range_def Let_def)
qed

end
