(* ===== verification/EdUndo.thy ===== *)
theory EdUndo
  imports EdEdit
begin

text \<open>
  The contracts the editing operations share: the one-level undo (the locale \<open>undoable\<close>,
  interpreted for every operation of the buffer) and the marks, which stay on the line they
  were set on (\<open>marks_follow\<close>).
\<close>

section \<open>Undo\<close>

locale undoable =
  fixes edit :: "Editor \<Rightarrow> World \<Rightarrow> est option"
  assumes snapshot: "edit ed w = Some (ed', w') \<Longrightarrow>
    ed_undo_valid ed' \<and> ed_undo_lines ed' = ed_lines ed \<and> ed_undo_current_line ed' = ed_current_line ed"
begin

lemma undo_restores:
  assumes "edit ed w = Some (ed', w')"
  shows "\<exists>ed''. cmd_undo ed' w' = (ed'', w') \<and> ed_lines ed'' = ed_lines ed
    \<and> ed_current_line ed'' = ed_current_line ed \<and> ed_dirty ed''"
  using snapshot [OF assms] by (simp add: cmd_undo_def)

lemma undo_only_once:
  assumes "edit ed w = Some (ed', w')" "cmd_undo ed' w' = (ed'', w'')"
  shows "ed_lines (fst (cmd_undo ed'' w2)) = ed_lines ed''
    \<and> ed_last_error (fst (cmd_undo ed'' w2)) = Some ''Nothing to undo''"
  using snapshot [OF assms(1)] assms(2) by (auto simp: cmd_undo_def set_error_def)

end

lemma set_error_simps [simp]:
  "ed_lines (fst (set_error ed w e)) = ed_lines ed" "ed_current_line (fst (set_error ed w e)) = ed_current_line ed"
  "ed_undo_lines (fst (set_error ed w e)) = ed_undo_lines ed" "ed_undo_valid (fst (set_error ed w e)) = ed_undo_valid ed"
  "ed_undo_current_line (fst (set_error ed w e)) = ed_undo_current_line ed"
  "ed_dirty (fst (set_error ed w e)) = ed_dirty ed" "ed_marks (fst (set_error ed w e)) = ed_marks ed"
  "ed_filename (fst (set_error ed w e)) = ed_filename ed"
  "num_lines (fst (set_error ed w e)) = num_lines ed"
  by (simp_all add: set_error_def num_lines_def)

lemma set_error_pair:
  "set_error ed w e = (ed', w') \<Longrightarrow> ed_lines ed' = ed_lines ed \<and> ed_current_line ed' = ed_current_line ed
    \<and> ed_undo_lines ed' = ed_undo_lines ed \<and> ed_undo_valid ed' = ed_undo_valid ed
    \<and> ed_undo_current_line ed' = ed_undo_current_line ed \<and> ed_dirty ed' = ed_dirty ed \<and> ed_marks ed' = ed_marks ed"
  by (auto simp: set_error_def)

text \<open>The snapshot of a conditional state.\<close>

lemma snapshot_if:
  "ed_undo_valid (if b then x else y) = (if b then ed_undo_valid x else ed_undo_valid y)"
  "ed_undo_lines (if b then x else y) = (if b then ed_undo_lines x else ed_undo_lines y)"
  "ed_undo_current_line (if b then x else y) = (if b then ed_undo_current_line x else ed_undo_current_line y)"
  by auto

interpretation append: undoable "\<lambda>ed w. append_line ed w addr"
  by unfold_locales
    (auto simp: append_line_def Let_def bind_eq_Some_conv snapshot_if cong: if_cong)

interpretation inserting: undoable "\<lambda>ed w. insert_line ed w addr"
  by unfold_locales
    (auto simp: insert_line_def Let_def bind_eq_Some_conv snapshot_if cong: if_cong)

interpretation delete: undoable "\<lambda>ed w. delete_range ed w r"
  by unfold_locales
    (auto simp: delete_range_def Let_def bind_eq_Some_conv dest!: set_error_pair split: if_splits)

interpretation delete1: undoable "\<lambda>ed w. delete_line ed w addr"
  by unfold_locales
    (auto simp: delete_line_def Let_def bind_eq_Some_conv dest!: set_error_pair split: if_splits)

interpretation move: undoable "\<lambda>ed w. move_range ed w r dest"
  by unfold_locales
    (auto simp: move_range_def Let_def bind_eq_Some_conv dest!: set_error_pair split: if_splits)

interpretation copy: undoable "\<lambda>ed w. copy_range ed w r dest"
  by unfold_locales
    (auto simp: copy_range_def Let_def bind_eq_Some_conv dest!: set_error_pair split: if_splits)

interpretation join: undoable "\<lambda>ed w. join_range ed w r"
  by unfold_locales
    (auto simp: join_range_def Let_def bind_eq_Some_conv dest!: set_error_pair split: if_splits)

lemma substitute_range_cases:
  assumes "substitute_range fuel ed w r pat repl glob = Some (ed', w')"
  shows "ed' = prepare_undo ed \<or> (\<exists>e. (ed', w') = set_error (prepare_undo ed) w e)
    \<or> (\<exists>ls. (ed', w') = set_error ((prepare_undo ed)\<lparr>ed_lines := ls\<rparr>) w ''No match'')
    \<or> (\<exists>ls. ed' = (prepare_undo ed)\<lparr>ed_lines := ls, ed_dirty := True, ed_current_line := ar_end r\<rparr>)"
proof (cases "bad_range ed r")
  case True
  then have "(ed', w') = set_error (prepare_undo ed) w ''Invalid address''"
    using assms by (simp add: substitute_range_def Let_def)
  then show ?thesis by blast
next
  case False
  then obtain res where "subst_loop fuel (ed_lines ed) (ar_start r) (ar_end r) False pat repl glob = Some res"
    using assms by (auto simp: substitute_range_def Let_def bind_eq_Some_conv)
  note s = this
  show ?thesis
  proof (cases res)
    case None
    then show ?thesis using assms False s by (simp add: substitute_range_def Let_def)
  next
    case (Some x)
    obtain ls any where x: "x = (ls, any)" by (cases x)
    show ?thesis
    proof (cases any)
      case True
      then have "ed' = (prepare_undo ed)\<lparr>ed_lines := ls, ed_dirty := True, ed_current_line := ar_end r\<rparr>"
        using assms False s Some x by (simp add: substitute_range_def Let_def)
      then show ?thesis by blast
    next
      case F: False
      then have "(ed', w') = set_error ((prepare_undo ed)\<lparr>ed_lines := ls\<rparr>) w ''No match''"
        using assms False s Some x by (simp add: substitute_range_def Let_def)
      then show ?thesis by blast
    qed
  qed
qed

interpretation subst: undoable "\<lambda>ed w. substitute_range fuel ed w r pat repl glob"
proof unfold_locales
  fix ed w ed' w' assume "substitute_range fuel ed w r pat repl glob = Some (ed', w')"
  from substitute_range_cases [OF this]
  show "ed_undo_valid ed' \<and> ed_undo_lines ed' = ed_lines ed \<and> ed_undo_current_line ed' = ed_current_line ed"
    by (elim disjE exE) (auto dest!: set_error_pair [OF sym])
qed

lemma read_file_cases:
  assumes "read_file_at_address ed w addr fname = Some (ed', w')"
  shows "(ed', w') = set_error (prepare_undo ed) w ''Cannot open file''
    \<or> (\<exists>ls pos num bytes. ed' = (if bytes > (0::int)
         then update_marks_after_insert ((prepare_undo ed)\<lparr>ed_lines := ls, ed_current_line := pos - 1, ed_dirty := True\<rparr>)
                (addr + 1) num
         else (prepare_undo ed)\<lparr>ed_lines := ls\<rparr>))"
proof (cases "w_files w fname")
  case (Some c)
  with assms obtain ls pos num bytes where "read_loop (ed_lines ed) c (addr + 1) 0 0 = Some (ls, pos, num, bytes)"
    by (auto simp: read_file_at_address_def Let_def bind_eq_Some_conv)
  then show ?thesis using assms Some
    by (intro disjI2 exI [of _ ls] exI [of _ pos] exI [of _ num] exI [of _ bytes])
      (simp add: read_file_at_address_def Let_def)
qed (use assms in \<open>auto simp: read_file_at_address_def Let_def\<close>)

interpretation reading: undoable "\<lambda>ed w. read_file_at_address ed w addr fname"
proof unfold_locales
  fix ed w ed' w' assume "read_file_at_address ed w addr fname = Some (ed', w')"
  from read_file_cases [OF this]
  show "ed_undo_valid ed' \<and> ed_undo_lines ed' = ed_lines ed \<and> ed_undo_current_line ed' = ed_current_line ed"
    by (elim disjE exE) (auto simp: snapshot_if dest!: set_error_pair [OF sym] cong: if_cong)
qed

text \<open>The change command takes its own snapshot again after it has deleted the range.\<close>

lemma change_undo_lines:
  assumes "good_range ed r" "change_range ed w r = Some (ed', w')"
  shows "ed_undo_lines ed' = without_range (ed_lines ed) r"
  using assms change_range_eq [OF assms(1)] by auto

section \<open>Marks\<close>

definition marks_follow :: "Editor \<Rightarrow> Editor \<Rightarrow> bool" where
  "marks_follow ed ed' \<longleftrightarrow> length (ed_marks ed') = length (ed_marks ed) \<and>
     (\<forall>i < length (ed_marks ed). 0 \<le> ed_marks ed ! i \<and> ed_marks ed ! i < num_lines ed \<and> 0 \<le> ed_marks ed' ! i \<longrightarrow>
        ed_marks ed' ! i < num_lines ed' \<and> ed_lines ed' ! nat (ed_marks ed' ! i) = ed_lines ed ! nat (ed_marks ed ! i))"

text \<open>All the mark updates have this form.\<close>

lemma marks_followI:
  assumes "ed_marks ed' = map f (ed_marks ed)"
    "\<And>mk. 0 \<le> mk \<Longrightarrow> mk < num_lines ed \<Longrightarrow> 0 \<le> f mk \<Longrightarrow>
       f mk < num_lines ed' \<and> ed_lines ed' ! nat (f mk) = ed_lines ed ! nat mk"
  shows "marks_follow ed ed'"
  using assms by (auto simp: marks_follow_def)

lemma marks_follow_with_text:
  assumes "0 \<le> pos" "pos \<le> num_lines ed"
  shows "marks_follow ed (with_text ed pos new cur)"
proof (cases "new = []")
  case True
  then show ?thesis
    by (auto simp: marks_follow_def with_text_def num_lines_def)
next
  case False
  show ?thesis
    using False assms
    by (intro marks_followI [where f = "\<lambda>mk. if mk < 0 then mk else if mk \<ge> pos then mk + int (length new) else mk"])
      (auto simp: with_text_def update_marks_after_insert_def num_lines_def nth_append nat_add_distrib nat_diff_distrib min_def
        split: if_splits intro!: arg_cong [where f = "nth (ed_lines ed)"])
qed

lemma marks_follow_shortened:
  assumes "good_range ed r"
  shows "marks_follow ed (shortened ed r)"
proof (rule marks_followI)
  show "ed_marks (shortened ed r) = map (\<lambda>mk. if mk < 0 then mk
     else if mk \<ge> ar_start r \<and> mk < ar_start r + range_size r then - 1
     else if mk \<ge> ar_start r + range_size r then mk - range_size r else mk) (ed_marks ed)"
    by (simp add: shortened_def update_marks_after_delete_def)
  fix mk let ?f = "if mk < 0 then mk
     else if mk \<ge> ar_start r \<and> mk < ar_start r + range_size r then - 1
     else if mk \<ge> ar_start r + range_size r then mk - range_size r else mk"
  assume mk: "0 \<le> mk" "mk < num_lines ed" "0 \<le> ?f"
  have n: "num_lines (shortened ed r) = num_lines ed - range_size r"
    using length_without_range [OF assms] by (simp add: num_lines_def)
  consider "mk < ar_start r" "?f = mk" | "ar_end r < mk" "?f = mk - range_size r"
    using mk by (auto simp: range_size_def split: if_splits)
  then show "?f < num_lines (shortened ed r) \<and> ed_lines (shortened ed r) ! nat ?f = ed_lines ed ! nat mk"
  proof cases
    case 1
    then show ?thesis
      using mk assms unfolding n by (auto simp: without_range_def nth_append good_range_def num_lines_def range_size_def)
  next
    case 2
    have "nat (mk - range_size r) - nat (ar_start r) + nat (ar_end r + 1) = nat mk" "nat (ar_start r) \<le> nat (mk - range_size r)"
      using 2(1) assms by (auto simp: good_range_def range_size_def)
    then show ?thesis
      using 2 mk assms unfolding n by (auto simp: without_range_def nth_append good_range_def num_lines_def add.commute)
  qed
qed


lemma nth_append_cases:
  "i < length xs \<Longrightarrow> (xs @ ys) ! i = xs ! i" "(xs @ ys) ! (length xs + i) = ys ! i"
  by (simp_all add: nth_append)

lemma marks_follow_copy:
  assumes "good_range ed r" "0 \<le> dest" "dest < num_lines ed" "copy_range ed w r dest = Some (ed', w')"
  shows "marks_follow ed ed'"
proof -
  have len: "range_size r = int (length (range_lines (ed_lines ed) r))" using length_range_lines [OF assms(1)] by simp
  let ?b = "(prepare_undo ed)\<lparr>ed_lines := take (nat (dest + 1)) (ed_lines ed) @ range_lines (ed_lines ed) r @ drop (nat (dest + 1)) (ed_lines ed),
      ed_current_line := dest + range_size r, ed_dirty := True\<rparr>"
  have ed': "ed' = update_marks_after_insert ?b (dest + 1) (range_size r)"
    using copy_range_eq [OF assms(1-3)] assms(4) by simp
  have "marks_follow ed (with_text ed (dest + 1) (range_lines (ed_lines ed) r) 0)"
    using assms(2,3) by (intro marks_follow_with_text) auto
  moreover have "ed_marks ed' = ed_marks (with_text ed (dest + 1) (range_lines (ed_lines ed) r) 0)
    \<and> ed_lines ed' = ed_lines (with_text ed (dest + 1) (range_lines (ed_lines ed) r) 0)"
  proof (cases "range_lines (ed_lines ed) r = []")
    case True
    then show ?thesis using len assms(1) by (simp add: good_range_def range_size_def)
  next
    case False
    then show ?thesis by (simp add: ed' with_text_def update_marks_after_insert_def len)
  qed
  ultimately show ?thesis by (simp add: marks_follow_def num_lines_def)
qed

lemma marks_follow_move:
  assumes g: "good_range ed r" and d: "0 \<le> dest" "dest < num_lines ed" "\<not> (ar_start r \<le> dest \<and> dest \<le> ar_end r)"
    and m: "move_range ed w r dest = Some (ed', w')"
  shows "marks_follow ed ed'"
proof -
  let ?k = "range_size r" and ?s = "ar_start r" and ?e = "ar_end r" and ?ls = "ed_lines ed"
  define adj where "adj = (if dest > ?e then dest - ?k else dest)"
  have ed': "ed_lines ed' = moved_lines ?ls r dest" "ed_marks ed' = map (move_mark ?s ?e dest adj ?k) (ed_marks ed)"
    using move_range_eq [OF g d, of w] m by (auto simp: adj_def)
  have k: "0 < ?k" "?k = ?e - ?s + 1" "0 \<le> ?s" "?e < num_lines ed" using g by (auto simp: good_range_def range_size_def)
  have lr: "length (range_lines ?ls r) = nat ?k" using length_range_lines [OF g] by simp
  have lw: "length (without_range ?ls r) = nat (num_lines ed - ?k)" using length_without_range [OF g] by simp
  have adj: "0 \<le> adj + 1" "adj + 1 \<le> num_lines ed - ?k" using d k by (auto simp: adj_def)
  have ml: "moved_lines ?ls r dest = take (nat (adj + 1)) (without_range ?ls r) @ range_lines ?ls r @ drop (nat (adj + 1)) (without_range ?ls r)"
    by (simp add: moved_lines_def adj_def Let_def if_distrib cong: if_cong)
  have n: "num_lines ed' = num_lines ed"
    using adj lr lw k by (simp add: num_lines_def ed'(1) ml)
  have wr: "without_range ?ls r ! j = (if int j < ?s then ?ls ! j else ?ls ! (j + nat ?k))"
    if "int j < num_lines ed - ?k" for j
  proof (cases "int j < ?s")
    case True
    then show ?thesis using k by (simp add: without_range_def nth_append num_lines_def)
  next
    case False
    then have "nat (?e + 1) + (j - nat ?s) = j + nat ?k" "\<not> j < nat ?s" "\<not> length ?ls \<le> nat ?s"
      using k that by (auto simp: num_lines_def)
    then show ?thesis using False k that by (simp add: without_range_def nth_append num_lines_def min_def)
  qed
  have at: "moved_lines ?ls r dest ! j =
      (if int j < adj + 1 then without_range ?ls r ! j
       else if int j < adj + 1 + ?k then range_lines ?ls r ! (j - nat (adj + 1))
       else without_range ?ls r ! (j - nat ?k))" if "int j < num_lines ed" for j
  proof -
    have t: "length (take (nat (adj + 1)) (without_range ?ls r)) = nat (adj + 1)" using adj lw by simp
    consider "int j < adj + 1" | "adj + 1 \<le> int j" "int j < adj + 1 + ?k" | "adj + 1 + ?k \<le> int j" by linarith
    then show ?thesis
    proof cases
      case 1
      then have "j < nat (adj + 1)" by auto
      then show ?thesis using 1 t by (simp add: ml nth_append)
    next
      case 2
      then have "\<not> j < nat (adj + 1)" "j - nat (adj + 1) < nat ?k" using adj by auto
      then show ?thesis using 2 t lr by (simp add: ml nth_append)
    next
      case 3
      then have "\<not> j < nat (adj + 1)" "\<not> j - nat (adj + 1) < nat ?k" "nat (adj + 1) + (j - nat (adj + 1) - nat ?k) = j - nat ?k"
        "nat (adj + 1) \<le> length (without_range ?ls r)"
        using adj k lw by auto
      then show ?thesis using 3 t lr k(1) by (simp add: ml nth_append)
    qed
  qed
  show ?thesis
  proof (rule marks_followI [OF ed'(2)], intro conjI)
    fix mk assume mk: "0 \<le> mk" "mk < num_lines ed"
    let ?f = "move_mark ?s ?e dest adj ?k mk"
    consider (inside) "?s \<le> mk" "mk \<le> ?e" "?f = adj + 1 + (mk - ?s)"
      | (fwd) "?s < adj + 1" "?e < mk" "mk \<le> dest" "?f = mk - ?k"
      | (bwd) "adj + 1 \<le> ?s" "adj + 1 \<le> mk" "mk < ?s" "?f = mk + ?k"
      | (low) "mk < ?s" "mk < adj + 1" "?f = mk"
      | (high) "?e < mk" "adj + ?k < mk" "?f = mk"
    proof -
      have "mk < ?s \<or> ?s \<le> mk \<and> mk \<le> ?e \<or> ?e < mk" "dest < ?s \<or> ?e < dest" "mk \<le> dest \<or> dest < mk"
        using d(3) by linarith+
      then show ?thesis
        using that mk(1) d k unfolding move_mark_def adj_def by (elim disjE) simp_all
    qed
    then have "0 \<le> ?f \<and> ?f < num_lines ed \<and> moved_lines ?ls r dest ! nat ?f = ?ls ! nat mk"
    proof cases
      case inside
      then have b: "0 \<le> ?f" "?f < num_lines ed" using adj k by auto
      have "nat ?f - nat (adj + 1) = nat (mk - ?s)" "nat ?s + nat (mk - ?s) = nat mk" "nat (mk - ?s) < nat (?e - ?s + 1)"
        using inside adj k by auto
      then have "range_lines ?ls r ! nat (mk - ?s) = ?ls ! nat mk"
        using k mk by (simp add: range_lines_def num_lines_def)
      moreover have "moved_lines ?ls r dest ! nat ?f = range_lines ?ls r ! nat (mk - ?s)"
        using at [of "nat ?f"] b inside k(1,2) \<open>nat ?f - nat (adj + 1) = nat (mk - ?s)\<close> adj(1) by simp
      ultimately show ?thesis using b by simp
    next
      case fwd
      then have "dest > ?e" by simp
      then have a: "adj = dest - ?k" by (simp add: adj_def)
      have "nat (mk - ?k) + nat ?k = nat mk" using fwd k by simp
      then show ?thesis
        using fwd a k mk d wr [of "nat (mk - ?k)"] at [of "nat ?f"] by auto
    next
      case bwd
      then have "nat (mk + ?k) - nat ?k = nat mk" using mk k by simp
      then show ?thesis
        using bwd adj k mk wr [of "nat mk"] at [of "nat ?f"] by auto
    next
      case low
      then show ?thesis using adj k mk wr [of "nat mk"] at [of "nat ?f"] by auto
    next
      case high
      then have "nat mk - nat ?k + nat ?k = nat mk" "int (nat mk - nat ?k) = mk - ?k" using adj k by auto
      then show ?thesis using high adj k mk wr [of "nat mk - nat ?k"] at [of "nat ?f"] by auto
    qed
    then show "?f < num_lines ed'" "ed_lines ed' ! nat ?f = ?ls ! nat mk" using n ed'(1) by auto
  qed
qed

end
