(* ===== verification/EdText.thy ===== *)
theory EdText
  imports EdUndo "HOL-Library.Sublist"
begin

text \<open>
  Files and addresses of the editor: a written file reads back as the same lines, the read
  command inserts the lines of its file, decimal addresses round trip through the address
  parser, and every address the parsers return lies in the buffer.
\<close>

section \<open>Files\<close>

text \<open>A line that survives writing and reading: no newline or NUL in it, no carriage return at
  its end (\<open>read_full_line\<close> takes \<open>CR LF\<close> for one newline).\<close>

definition clean_line :: "string \<Rightarrow> bool" where
  "clean_line l \<longleftrightarrow> no_nul l \<and> NL \<notin> set l \<and> (l \<noteq> [] \<longrightarrow> last l \<noteq> CR)"

lemma read_chars_line: "NL \<notin> set l \<Longrightarrow> l \<noteq> [] \<longrightarrow> last l \<noteq> CR \<Longrightarrow> read_chars (l @ NL # rest) = (l, True, rest)"
proof (induction l)
  case (Cons c l)
  have "hd (l @ NL # rest) = NL \<longleftrightarrow> l = []" using Cons.prems by (cases l) auto
  then show ?case using Cons by (auto split: if_splits)
qed simp

lemma read_full_line_clean: "clean_line l \<Longrightarrow> read_full_line (l @ NL # rest) = Some (l, True, rest)"
  by (auto simp: read_full_line_def read_chars_line clean_line_def no_nul_def takeWhile_eq_all_conv)

lemma file_text_simps [simp]: "file_text [] = []" "file_text (l # ls) = l @ NL # file_text ls"
  by (simp_all add: file_text_def)

lemma byte_count_simps [simp]: "byte_count [] = 0" "byte_count (l # ls) = int (length l) + 1 + byte_count ls"
  by (simp_all add: byte_count_def)

lemma read_full_line_Nil [simp]: "read_full_line [] = None"
  by (simp add: read_full_line_def)

lemma load_loop_file_text:
  "list_all clean_line xs \<Longrightarrow> load_loop ls (file_text xs) b = (ls @ xs, b + byte_count xs)"
proof (induction xs arbitrary: ls b)
  case (Cons x xs)
  then show ?case
    by (subst load_loop.simps) (simp add: read_full_line_clean algebra_simps)
qed (simp add: load_loop.simps)

lemma load_loop_append: "load_loop ls inp b = (ls @ fst (load_loop [] inp 0), b + snd (load_loop [] inp 0))"
proof (induction inp arbitrary: ls b rule: measure_induct_rule [where f = length])
  case (less inp)
  show ?case
  proof (cases "read_full_line inp")
    case (Some x)
    obtain line had_nl rest where x: "x = (line, had_nl, rest)" by (cases x)
    then have "length rest < length inp" using Some read_full_line_less by blast
    from less [OF this, of "ls @ [line]" "b + (int (length line) + 1)"] less [OF this, of "[line]" "int (length line) + 1"]
    show ?thesis using Some x by (simp add: load_loop.simps [of _ inp] Let_def)
  qed (simp add: load_loop.simps [of _ inp])
qed

text \<open>The lines and the byte count of a file.\<close>

definition file_lines :: "string \<Rightarrow> string list" where
  "file_lines s = fst (load_loop [] s 0)"

definition file_bytes :: "string \<Rightarrow> int" where
  "file_bytes s = snd (load_loop [] s 0)"

lemma read_loop_eq:
  assumes "0 \<le> pos" "pos \<le> int (length ls)"
  shows "read_loop ls inp pos num bytes = Some
    (take (nat pos) ls @ file_lines inp @ drop (nat pos) ls, pos + int (length (file_lines inp)),
     num + int (length (file_lines inp)), bytes + file_bytes inp)"
  using assms
proof (induction inp arbitrary: ls pos num bytes rule: measure_induct_rule [where f = length])
  case (less inp)
  show ?case
  proof (cases "read_full_line inp")
    case None
    then show ?thesis by (simp add: read_loop.simps file_lines_def file_bytes_def load_loop.simps)
  next
    case (Some x)
    obtain line had_nl rest where x: "x = (line, had_nl, rest)" by (cases x)
    then have l: "length rest < length inp" using Some read_full_line_less by blast
    note cell = insert_cell_eq [OF less.prems, of line]
    show ?thesis
    proof (cases had_nl)
      case False
      then show ?thesis
        using Some x cell by (simp add: read_loop.simps file_lines_def file_bytes_def load_loop.simps [of _ inp])
    next
      case True
      let ?ls = "take (nat pos) ls @ line # drop (nat pos) ls"
      have "read_loop ls inp pos num bytes
          = read_loop ?ls rest (pos + 1) (num + 1) (bytes + (int (length line) + 1))"
        using Some x True cell by (subst read_loop.simps) simp
      also have "\<dots> = Some (take (nat (pos + 1)) ?ls @ file_lines rest @ drop (nat (pos + 1)) ?ls,
          pos + 1 + int (length (file_lines rest)), num + 1 + int (length (file_lines rest)),
          bytes + (int (length line) + 1) + file_bytes rest)"
        using less.prems by (intro less.IH l) auto
      also have "take (nat (pos + 1)) ?ls = take (nat pos) ls @ [line]"
        using less.prems by (simp add: nat_add_distrib min_def)
      also have "drop (nat (pos + 1)) ?ls = drop (nat pos) ls"
        using less.prems by (simp add: nat_add_distrib min_def)
      also have "file_lines inp = line # file_lines rest \<and> file_bytes inp = int (length line) + 1 + file_bytes rest"
        using Some x True load_loop_append [of "[line]" rest "int (length line) + 1"]
        by (simp add: file_lines_def file_bytes_def load_loop.simps [of _ inp])
      ultimately show ?thesis by (simp add: algebra_simps)
    qed
  qed
qed

text \<open>The lines an append reads when the stream holds them, a line with a period, and more.\<close>

lemma text_lines_file_text:
  assumes "list_all clean_line xs" "''.'' \<notin> set xs"
  shows "text_lines (file_text xs @ ''.'' @ NL # rest) = (xs, rest)"
  using assms
proof (induction xs)
  case Nil
  have "read_full_line (''.'' @ NL # rest) = Some (''.'', True, rest)"
    by (rule read_full_line_clean) (simp add: clean_line_def)
  then show ?case by (subst text_lines.simps) simp
next
  case (Cons x xs)
  then show ?case
    using read_full_line_clean [of x "file_text xs @ ''.'' @ NL # rest"]
    by (subst text_lines.simps) auto
qed

section \<open>Addresses\<close>

lemma parse_digits_eq:
  assumes "0 \<le> acc" "acc \<le> INT_MAX"
  shows "parse_digits acc p =
    (if dec_val acc (takeWhile isdigit p) > INT_MAX then None
     else Some (dec_val acc (takeWhile isdigit p), dropWhile isdigit p))"
  using assms
proof (induction p arbitrary: acc)
  case (Cons c p)
  show ?case
  proof (cases "isdigit c")
    case True
    then have d: "0 \<le> digit_val c" "digit_val c \<le> 9" using digit_val_bounds by auto
    show ?thesis
    proof (cases "acc * 10 + digit_val c > INT_MAX")
      case o: True
      have "acc * 10 + digit_val c \<le> dec_val (acc * 10 + digit_val c) (takeWhile isdigit p)"
        using d Cons.prems by (intro dec_val_mono) (auto dest: set_takeWhileD)
      then show ?thesis using True o d by auto
    next
      case False
      then show ?thesis using True d Cons by auto
    qed
  next
    case False
    then show ?thesis using Cons.prems by simp
  qed
qed simp

lemma parse_digits_suffix: "parse_digits acc p = Some (v, p') \<Longrightarrow> suffix p' p"
  by (induction p arbitrary: acc) (auto split: if_splits intro: suffix_ConsI)

lemma apply_offset_bounds:
  assumes "apply_offset rel sg off base last_line pp p = Some (v, p')" "suffix p pp"
  shows "v = ADDR_ERROR \<and> p' = pp \<or> 0 \<le> v \<and> v \<le> last_line \<and> suffix p' pp"
  using assms by (auto simp: apply_offset_def Let_def split: if_splits)

lemma address_form_bounds:
  assumes "address_form rel sg off cur last_line marks pp p = Some (v, p')" "suffix p pp"
  shows "(v = ADDR_NONE \<or> v = ADDR_ERROR) \<and> p' = pp \<or> 0 \<le> v \<and> v \<le> last_line \<and> suffix p' pp"
proof -
  have tl: "suffix (tl p) pp" "suffix (drop 2 p) pp"
    using assms(2) suffix_tl suffix_drop suffix_order.trans by blast+
  have dg: "suffix p'' pp" if "parse_digits 0 p = Some (x, p'')" for x p''
    using parse_digits_suffix [OF that] assms(2) suffix_order.trans by blast
  show ?thesis
    using assms(1) unfolding address_form_def Let_def
    by (auto simp: bind_eq_Some_conv split: if_splits option.splits dest!: apply_offset_bounds [OF _ assms(2)]
      apply_offset_bounds [OF _ tl(1)] apply_offset_bounds [OF _ tl(2)] dest: apply_offset_bounds [OF _ dg])
qed

lemma parse_one_address_bounds:
  assumes "parse_one_address pp cur last_line marks = Some (v, p')"
  shows "(v = ADDR_NONE \<or> v = ADDR_ERROR) \<and> p' = pp \<or> 0 \<le> v \<and> v \<le> last_line \<and> suffix p' pp"
proof -
  have dg: "suffix p'' pp" if "parse_digits 0 (tl pp) = Some (x, p'')" for x p''
    using parse_digits_suffix [OF that] suffix_tl suffix_order.trans by blast
  show ?thesis
    using assms unfolding parse_one_address_def Let_def
    by (auto split: if_splits option.splits dest: address_form_bounds [OF _ dg] address_form_bounds [OF _ suffix_order.refl])
qed


text \<open>Decimal addresses round trip.\<close>

lemma show_nat_head: "0 < n \<Longrightarrow> \<exists>c cs. show_nat n = c # cs \<and> isdigit c \<and> c \<noteq> CHR ''0''"
proof (induction n rule: show_nat.induct)
  case (1 n)
  show ?case
  proof (cases "n < 10")
    case True
    then have c: "code (char_of (48 + n)) = 48 + n" by (rule code_digit)
    moreover have "code (CHR ''0'') = 48" by (simp add: code_def)
    ultimately have "char_of (48 + n) \<noteq> CHR ''0''" using 1(2) by (metis add_cancel_right_right less_irrefl)
    then show ?thesis using True c by (subst show_nat.simps) (simp add: isdigit_def)
  next
    case False
    then obtain c cs where "show_nat (n div 10) = c # cs" "isdigit c" "c \<noteq> CHR ''0''"
      using 1(1) by (auto simp: div_greater_zero_iff)
    then show ?thesis using False by (subst show_nat.simps) simp
  qed
qed

lemma digit_other: "isdigit c \<Longrightarrow> \<not> isspace c \<and> c \<noteq> CHR '','' \<and> c \<noteq> CHR '';'' \<and> c \<noteq> NL \<and> c \<noteq> CHR ''+''
    \<and> c \<noteq> CHR ''-'' \<and> c \<noteq> CHR ''$'' \<and> c \<noteq> CHR ''.'' \<and> c \<noteq> CHR '' '' \<and> c \<noteq> TAB \<and> c \<noteq> CHR ''#'' \<and> c \<noteq> NUL"
  by (auto simp: isdigit_def isspace_def code_def)

lemma parse_digits_show:
  assumes "int n \<le> INT_MAX" "rest = [] \<or> \<not> isdigit (hd rest)"
  shows "parse_digits 0 (show_nat n @ rest) = Some (int n, rest)"
proof -
  have "takeWhile isdigit rest = []" "dropWhile isdigit rest = rest" using assms(2) by (cases rest; simp)+
  then have "takeWhile isdigit (show_nat n @ rest) = show_nat n" "dropWhile isdigit (show_nat n @ rest) = rest"
    using isdigit_show [of n] by (simp_all add: takeWhile_append dropWhile_append)
  then show ?thesis using assms(1) by (simp add: parse_digits_eq)
qed

lemma parse_one_address_decimal:
  assumes "0 < n" "int n \<le> last_line" "last_line \<le> INT_MAX" "rest = [] \<or> \<not> isdigit (hd rest)"
  shows "parse_one_address (show_nat n @ rest) cur last_line marks = Some (int n, rest)"
proof -
  obtain c cs where c: "show_nat n = c # cs" "isdigit c" "c \<noteq> CHR ''0''" using show_nat_head [OF assms(1)] by blast
  have d: "parse_digits 0 (c # cs @ rest) = Some (int n, rest)"
    using parse_digits_show [of n rest] assms c(1) by simp
  have f: "apply_offset False 1 0 (int n) last_line pp rest = Some (int n, rest)" for pp
    using assms by (simp add: apply_offset_def)
  show ?thesis
    using digit_other [OF c(2)] c(2,3)
    by (simp add: parse_one_address_def address_form_def c(1) d f Let_def del: parse_digits.simps)
qed

lemma skip_blanks_id: "p = [] \<or> (hd p \<noteq> CHR '' '' \<and> hd p \<noteq> TAB) \<Longrightarrow> skip_blanks p = p"
  by (cases p) auto

lemma skip_blanks_show [simp]: "0 < n \<Longrightarrow> skip_blanks (show_nat n @ rest) = show_nat n @ rest"
  using show_nat_head [of n] digit_other by (intro skip_blanks_id) fastforce

text \<open>A command letter that cannot continue an address.\<close>

definition plain_cmd :: "string \<Rightarrow> bool" where
  "plain_cmd cs \<longleftrightarrow> cs \<noteq> [] \<and> \<not> isdigit (hd cs) \<and> hd cs \<noteq> CHR '' '' \<and> hd cs \<noteq> TAB \<and> hd cs \<noteq> CHR '',''"

lemma parse_ed_address_one:
  assumes "0 < n" "int n \<le> last_line" "last_line \<le> INT_MAX" "plain_cmd cs"
  shows "parse_ed_address (show_nat n @ cs) cur last_line marks = Some (Some (cs, int n, int n, False))"
proof -
  obtain c d where c: "show_nat n = c # d" "isdigit c" using show_nat_head [OF assms(1)] by blast
  have "hd0 (show_nat n @ cs) \<noteq> CHR ''#''" using c digit_other by auto
  moreover have "skip_blanks cs = cs" "hd0 cs \<noteq> CHR '',''" using assms(4) by (auto simp: plain_cmd_def skip_blanks_id hd0_def split: list.splits)
  ultimately show ?thesis
    using assms parse_one_address_decimal [OF assms(1-3), of cs cur marks]
    by (simp add: parse_ed_address_def Let_def plain_cmd_def)
qed

lemma parse_ed_address_two:
  assumes "0 < n" "int n \<le> last_line" "0 < m" "int m \<le> last_line" "last_line \<le> INT_MAX" "plain_cmd cs"
  shows "parse_ed_address (show_nat n @ CHR '','' # show_nat m @ cs) cur last_line marks
    = Some (Some (cs, int n, int m, True))"
proof -
  obtain c d where c: "show_nat n = c # d" "isdigit c" using show_nat_head [OF assms(1)] by blast
  have h: "hd0 (show_nat n @ r) \<noteq> CHR ''#''" for r using c digit_other by auto
  moreover have "skip_blanks cs = cs" using assms(6) by (simp add: plain_cmd_def skip_blanks_id)
  moreover have "\<not> isdigit (CHR '','')" by (simp add: isdigit_def code_def)
  ultimately show ?thesis
    using assms parse_one_address_decimal [OF assms(1,2,5), of "CHR '','' # show_nat m @ cs" cur marks]
      parse_one_address_decimal [OF assms(3,4,5), of cs cur marks] 
    by (simp add: parse_ed_address_def Let_def plain_cmd_def)
qed

lemma parse_address_range_valid:
  assumes "parse_address_range ed s = Some r" "ed_current_line ed < num_lines ed"
  shows "r = \<lparr>ar_start = - 1, ar_end = - 1\<rparr> \<or> good_range ed r"
proof -
  obtain res where res: "parse_ed_address s (current_1based ed) (num_lines ed) (ed_marks ed) = Some res"
    using assms(1) by (auto simp: parse_address_range_def bind_eq_Some_conv)
  show ?thesis
  proof (cases res)
    case None
    then show ?thesis using assms(1) res by (simp add: parse_address_range_def)
  next
    case (Some x)
    obtain p a1 a2 hc where "x = (p, a1, a2, hc)" by (cases x)
    then show ?thesis
      using assms res Some by (auto simp: parse_address_range_def Let_def good_range_def split: if_splits)
  qed
qed

lemma parse_address_valid:
  assumes "parse_address ed s = Some a" "ed_current_line ed < num_lines ed" "- 1 \<le> ed_current_line ed"
  shows "- 1 \<le> a \<and> a < num_lines ed"
  using assms unfolding parse_address_def parse_regex_address_def Let_def
  by (auto simp: bind_eq_Some_conv num_lines_def split: prod.splits if_splits)

section \<open>Searching\<close>

definition re_matches :: "string \<Rightarrow> string \<Rightarrow> bool" where
  "re_matches l pat \<longleftrightarrow> (case bre_match l pat of Some (r, m) \<Rightarrow> r = BRE_OK | None \<Rightarrow> False)"

lemma search_up_found:
  assumes "search_up ls pat i n = Some v" "0 \<le> i"
  shows "(v = 0 \<and> (\<forall>j. i \<le> j \<and> j < n \<longrightarrow> \<not> re_matches (ls ! nat j) pat))
    \<or> (i < v \<and> v \<le> n \<and> re_matches (ls ! nat (v - 1)) pat \<and> (\<forall>j. i \<le> j \<and> j < v - 1 \<longrightarrow> \<not> re_matches (ls ! nat j) pat))"
  using assms
proof (induction ls pat i n rule: search_up.induct)
  case (1 ls pat i n)
  show ?case
  proof (cases "i < n")
    case False
    then have "v = 0" using 1(2) by (simp add: search_up.simps)
    then show ?thesis using False by auto
  next
    case True
    then obtain line r m where l: "aget ls i = Some line" "bre_match line pat = Some (r, m)"
      using 1(2) by (subst (asm) search_up.simps) (auto simp: bind_eq_Some_conv)
    have line: "line = ls ! nat i" using l(1) by (simp add: aget_def split: if_splits)
    show ?thesis
    proof (cases "r = BRE_OK")
      case ok: True
      then have "v = i + 1" using True l 1(2) by (subst (asm) search_up.simps) simp
      moreover have "re_matches (ls ! nat i) pat" using ok l line by (simp add: re_matches_def)
      ultimately show ?thesis using True by auto
    next
      case no: False
      then have "search_up ls pat (i + 1) n = Some v" using True l 1(2) by (subst (asm) search_up.simps) simp
      from 1(1) [OF True l(1,2) refl no this] 1(3)
      have IH: "(v = 0 \<and> (\<forall>j. i + 1 \<le> j \<and> j < n \<longrightarrow> \<not> re_matches (ls ! nat j) pat))
        \<or> (i + 1 < v \<and> v \<le> n \<and> re_matches (ls ! nat (v - 1)) pat \<and> (\<forall>j. i + 1 \<le> j \<and> j < v - 1 \<longrightarrow> \<not> re_matches (ls ! nat j) pat))"
        by simp
      have "\<not> re_matches (ls ! nat i) pat" using no l line by (simp add: re_matches_def)
      moreover have "i \<le> j \<longleftrightarrow> j = i \<or> i + 1 \<le> j" for j by linarith
      ultimately show ?thesis using IH by auto
    qed
  qed
qed

end
