(* ===== verification/EdGlobal.thy ===== *)
theory EdGlobal
  imports EdText
begin

text \<open>
  The global command and the commands it runs. The locale \<open>numbered_command\<close> states what the
  global handler relies on: the interpreter, given a line number and the inner command, replaces
  that one line. From it follows the effect of the whole loop, and the interpretations for
  \<open>d\<close> and \<open>s\<close> give the effect of \<open>g/re/d\<close> and \<open>g/re/s/...\<close>.
\<close>

section \<open>The loop over the collected lines\<close>

lemma concat_singles: "concat (map (\<lambda>i. [xs ! i]) [a..<length xs]) = drop a xs"
  by (rule nth_equalityI) simp_all

lemma upt_split: "n < m \<Longrightarrow> [0..<m] = [0..<n] @ n # [Suc n..<m]"
  using upt_add_eq_append [of 0 n "m - n"] by (simp add: upt_rec [of n])

lemma upt_split2: "n \<le> m \<Longrightarrow> [0..<m] = [0..<n] @ [n..<m]"
  using upt_add_eq_append [of 0 n "m - n"] by simp

locale numbered_command =
  fixes exec :: exec_fn and inner :: string and repl :: "string \<Rightarrow> string list" and ok :: "string \<Rightarrow> bool"
  assumes not_global: "hd0 inner \<noteq> CHR ''g''" "hd0 inner \<noteq> CHR ''v''"
    and short: "length (repl l) \<le> 1"
    and keeps: "ok l \<Longrightarrow> list_all ok (repl l)"
    and step: "w_exit w = None \<Longrightarrow> 0 \<le> k \<Longrightarrow> k < num_lines ed \<Longrightarrow> num_lines ed \<le> INT_MAX \<Longrightarrow>
      list_all ok (ed_lines ed) \<Longrightarrow>
      \<exists>ed'. exec ed w (take (2 * MAX_LINE - 1) (show_int (k + 1) @ inner)) = Some (ed', w) \<and>
        ed_lines ed' = take (nat k) (ed_lines ed) @ repl (ed_lines ed ! nat k) @ drop (nat k + 1) (ed_lines ed)"
begin

definition applied :: "int set \<Rightarrow> string list \<Rightarrow> string list" where
  "applied ks ls = concat (map (\<lambda>i. if int i \<in> ks then repl (ls ! i) else [ls ! i]) [0..<length ls])"

lemma applied_step:
  assumes "0 \<le> k" "k < int (length ls)" "\<forall>j \<in> ks. j < k"
  shows "applied ks (take (nat k) ls @ repl (ls ! nat k) @ drop (nat k + 1) ls) = applied (insert k ks) ls"
proof -
  let ?n = "nat k" and ?ls = "take (nat k) ls @ repl (ls ! nat k) @ drop (nat k + 1) ls"
  have n: "?n < length ls" "?n \<le> length ?ls" using assms(1,2) by auto
  have idx: "[0..<length ls] = [0..<?n] @ ?n # [Suc ?n..<length ls]" "[0..<length ?ls] = [0..<?n] @ [?n..<length ?ls]"
    using n by (intro upt_split upt_split2; simp)+
  have lo: "map (\<lambda>i. if int i \<in> ks then repl (?ls ! i) else [?ls ! i]) [0..<?n]
      = map (\<lambda>i. if int i \<in> insert k ks then repl (ls ! i) else [ls ! i]) [0..<?n]"
    using n assms(1) by (auto simp: nth_append)
  have out: "int i \<notin> ks" if "?n \<le> i" for i
    using assms(1,3) that by fastforce
  then have M: "map (\<lambda>i. if int i \<in> ks then repl (?ls ! i) else [?ls ! i]) [?n..<length ?ls]
      = map (\<lambda>i. [?ls ! i]) [?n..<length ?ls]"
    by simp
  have hi: "concat (map (\<lambda>i. if int i \<in> ks then repl (?ls ! i) else [?ls ! i]) [?n..<length ?ls])
      = repl (ls ! ?n) @ drop (Suc ?n) ls"
    unfolding M concat_singles using n by simp
  have M': "map (\<lambda>i. if int i \<in> insert k ks then repl (ls ! i) else [ls ! i]) [Suc ?n..<length ls]
      = map (\<lambda>i. [ls ! i]) [Suc ?n..<length ls]"
    using assms(1) out by auto
  have hi': "concat (map (\<lambda>i. if int i \<in> insert k ks then repl (ls ! i) else [ls ! i]) [Suc ?n..<length ls])
      = drop (Suc ?n) ls"
    unfolding M' concat_singles ..
  show ?thesis
    unfolding applied_def idx map_append concat_append lo hi
    using assms(1) hi' by simp
qed

lemma global_single_applied:
  assumes "sorted_wrt (\<lambda>a b. b < a) ks" "\<forall>k \<in> set ks. 0 \<le> k \<and> k < num_lines ed" "num_lines ed \<le> INT_MAX"
    "list_all ok (ed_lines ed)" "w_exit w = None"
  shows "\<exists>ed'. global_single exec inner ks ed w = Some (ed', w) \<and> ed_lines ed' = applied (set ks) (ed_lines ed)"
  using assms
proof (induction ks arbitrary: ed)
  case Nil
  then show ?case using concat_singles [of "ed_lines ed" 0] by (simp add: applied_def)
next
  case (Cons k ks)
  let ?ls = "ed_lines ed"
  obtain ed1 where e: "exec ed w (take (2 * MAX_LINE - 1) (show_int (k + 1) @ inner)) = Some (ed1, w)"
    "ed_lines ed1 = take (nat k) ?ls @ repl (?ls ! nat k) @ drop (nat k + 1) ?ls"
    using step [of w k ed] Cons.prems by auto
  have k: "0 \<le> k" "k < int (length ?ls)" using Cons.prems(2) by (auto simp: num_lines_def)
  then have "list_all ok (ed_lines ed1)"
    using Cons.prems(4) keeps [of "?ls ! nat k"] unfolding e(2) list_all_append
    by (metis append_take_drop_id list_all_append list_all_length nat_less_iff)
  moreover have "num_lines ed1 \<le> num_lines ed" "\<forall>j \<in> set ks. 0 \<le> j \<and> j < num_lines ed1"
    using k short [of "?ls ! nat k"] Cons.prems(1,2) by (auto simp: num_lines_def e(2))
  ultimately obtain ed2 where "global_single exec inner ks ed1 w = Some (ed2, w)"
    "ed_lines ed2 = applied (set ks) (ed_lines ed1)"
    using Cons.IH [of ed1] Cons.prems by auto
  moreover have "applied (set ks) (ed_lines ed1) = applied (set (k # ks)) ?ls"
    using applied_step [OF k, of "set ks"] Cons.prems(1) e(2) by auto
  ultimately show ?case using e(1) not_global Cons.prems(5) by auto
qed

end

section \<open>Collecting\<close>

lemma collect_lines_eq:
  assumes "0 \<le> i" "e < int (length ls)" "\<forall>l \<in> set ls. bre_match l pat \<noteq> None"
  shows "collect_lines ls pat is_g i e = Some (filter (\<lambda>j. re_matches (ls ! nat j) pat = is_g) [i..e])"
  using assms
proof (induction ls pat is_g i e rule: collect_lines.induct)
  case (1 ls pat is_g i e)
  show ?case
  proof (cases "i \<le> e")
    case False
    then show ?thesis by (simp add: collect_lines.simps)
  next
    case True
    then have l: "aget ls i = Some (ls ! nat i)" "ls ! nat i \<in> set ls" using 1(2,3) by (auto simp: aget_def)
    then obtain r m where m: "bre_match (ls ! nat i) pat = Some (r, m)" using 1(4) by (metis not_None_eq surj_pair)
    have "collect_lines ls pat is_g (i + 1) e = Some (filter (\<lambda>j. re_matches (ls ! nat j) pat = is_g) [i + 1..e])"
      using 1 True l(1) m by auto
    moreover have "[i..e] = i # [i + 1..e]" using True by (simp add: upto_rec1)
    moreover have "re_matches (ls ! nat i) pat = (r = BRE_OK)" using m by (simp add: re_matches_def)
    ultimately show ?thesis using True l(1) m by (subst collect_lines.simps) auto
  qed
qed

lemma sorted_filter_upto: "sorted_wrt (\<lambda>a b. b < a) (rev (filter P [i..e]))"
  by (simp add: sorted_wrt_rev sorted_wrt_filter)

section \<open>The inner commands\<close>

lemma NL_show [simp]: "NL \<notin> set (show_nat n)"
  using isdigit_show [of n] digit_other by blast

lemma exec_numbered:
  assumes "plain_cmd inner" "NL \<notin> set inner" "length inner \<le> 1000" "0 \<le> k" "k < num_lines ed" "num_lines ed \<le> INT_MAX"
  shows "execute_command (Suc fuel) ed w (take (2 * MAX_LINE - 1) (show_int (k + 1) @ inner))
    = dispatch fuel (execute_command fuel) ed w (show_nat (nat (k + 1)) @ inner) inner (k + 1) (k + 1)"
proof -
  let ?n = "nat (k + 1)"
  have s: "show_int (k + 1) = show_nat ?n" using assms(4) by (simp add: show_int_def)
  have "?n < 10 ^ 10" using assms(5,6) by (simp add: nat_less_iff)
  then have l: "length (show_nat ?n) \<le> 10" by (rule length_show_nat) simp
  then have t: "take (2 * MAX_LINE - 1) (show_nat ?n @ inner) = show_nat ?n @ inner" using assms(3) by simp
  have "takeWhile (\<lambda>c. c \<noteq> NL) (show_nat ?n @ inner) = show_nat ?n @ inner"
    unfolding takeWhile_eq_all_conv set_append using assms(2) NL_show [of ?n] by blast
  then have b: "command_buffer (show_nat ?n @ inner) = show_nat ?n @ inner"
    using l assms(3) by (simp add: command_buffer_def)
  have "parse_ed_address (show_nat ?n @ inner) (current_1based ed) (num_lines ed) (ed_marks ed)
      = Some (Some (inner, int ?n, int ?n, False))"
    using assms by (intro parse_ed_address_one) auto
  then show ?thesis
    using assms(4) unfolding s t by (simp add: b)
qed

lemma given_range_one: "0 \<le> k \<Longrightarrow> given_range (k + 1) (k + 1) = \<lparr>ar_start = k, ar_end = k\<rparr>"
  by (simp add: given_range_def)

lemma cmd_range_one:
  "0 \<le> k \<Longrightarrow> k < num_lines ed \<Longrightarrow> cmd_range ed (k + 1) (k + 1) = Some \<lparr>ar_start = k, ar_end = k\<rparr>"
  by (simp add: cmd_range_def given_range_one bad_range_def Let_def)

lemma exec_delete_one:
  assumes "0 \<le> k" "k < num_lines ed" "num_lines ed \<le> INT_MAX"
  shows "execute_command (Suc fuel) ed w (take (2 * MAX_LINE - 1) (show_int (k + 1) @ ''d''))
    = Some (shortened ed \<lparr>ar_start = k, ar_end = k\<rparr>, w)"
proof -
  have "good_range ed \<lparr>ar_start = k, ar_end = k\<rparr>" using assms by (simp add: good_range_def)
  then show ?thesis
    using assms exec_numbered [of "''d''" k ed fuel w] cmd_range_one [of k ed] delete_range_eq
    by (simp add: plain_cmd_def isdigit_def code_def dispatch_def cmd_on_range_def)
qed

interpretation delete_command: numbered_command "execute_command (Suc fuel)" "''d''" "\<lambda>l. []" "\<lambda>l. True"
proof unfold_locales
  fix w :: World and k ed assume "0 \<le> k" "k < num_lines ed" "num_lines ed \<le> INT_MAX"
  from exec_delete_one [OF this, of fuel w]
  show "\<exists>ed'. execute_command (Suc fuel) ed w (take (2 * MAX_LINE - 1) (show_int (k + 1) @ ''d'')) = Some (ed', w)
    \<and> ed_lines ed' = take (nat k) (ed_lines ed) @ [] @ drop (nat k + 1) (ed_lines ed)"
    using \<open>0 \<le> k\<close> by (simp add: without_range_def nat_add_distrib)
qed simp_all

section \<open>The whole command\<close>

lemma scan_until_at:
  "d \<notin> set xs \<Longrightarrow> length xs \<le> 1000 \<Longrightarrow> scan_until d (xs @ d # rest) = (xs, d # rest)"
proof -
  assume a: "d \<notin> set xs" "length xs \<le> 1000"
  then obtain m where "MAX_LINE - 1 - length xs = Suc m" by (cases "MAX_LINE - 1 - length xs") auto
  then have "take (MAX_LINE - 1) (xs @ d # rest) = xs @ d # take m rest" using a(2) by simp
  moreover have "takeWhile (\<lambda>c. c \<noteq> d) (xs @ d # take m rest) = xs"
    using a(1) by (subst takeWhile_append2) auto
  ultimately show ?thesis by (simp add: scan_until_def)
qed

lemma parse_ed_address_letter:
  assumes "islower c" "c \<noteq> NUL"
  shows "parse_ed_address (c # cs) cur last_line marks = Some (Some (c # cs, 0, 0, False))"
proof -
  have n: "\<not> isdigit c" "\<not> isspace c" "c \<noteq> CHR '' ''" "c \<noteq> TAB" "c \<noteq> CHR ''#''" "c \<noteq> CHR '',''" "c \<noteq> CHR '';''" "c \<noteq> NL"
    "c \<noteq> CHR ''+''" "c \<noteq> CHR ''-''" "c \<noteq> CHR ''$''" "c \<noteq> CHR ''.''" "c \<noteq> CHR ''0''" "c \<noteq> QUOTE"
    using assms(1) by (auto simp: islower_def isdigit_def isspace_def code_def)
  then have "parse_one_address (c # cs) cur last_line marks = Some (ADDR_NONE, c # cs)"
    by (simp add: parse_one_address_def address_form_def Let_def)
  then show ?thesis using n by (simp add: parse_ed_address_def Let_def)
qed

lemma exec_global:
  assumes "opc = CHR ''g'' \<or> opc = CHR ''v''" "CHR ''/'' \<notin> set re" "NL \<notin> set re" "length re \<le> 500"
    "plain_cmd inner" "NL \<notin> set inner" "length inner \<le> 500" "inner \<noteq> ''{''"
    "0 < num_lines ed" "\<forall>l \<in> set (ed_lines ed). bre_match l re \<noteq> None"
  shows "execute_command (Suc fuel) ed w (opc # CHR ''/'' # re @ CHR ''/'' # inner) =
    global_single (execute_command fuel) inner
      (rev (filter (\<lambda>j. re_matches (ed_lines ed ! nat j) re = (opc = CHR ''g'')) [0..num_lines ed - 1])) ed w"
proof -
  let ?cmd = "opc # CHR ''/'' # re @ CHR ''/'' # inner"
  have "NL \<notin> set ?cmd" using assms(1,3,6) by auto
  then have "takeWhile (\<lambda>c. c \<noteq> NL) ?cmd = ?cmd" unfolding takeWhile_eq_all_conv by blast
  moreover have "take (MAX_LINE - 1) ?cmd = ?cmd" using assms(4,7) by simp
  ultimately have b: "command_buffer ?cmd = ?cmd" unfolding command_buffer_def by metis
  have p: "parse_ed_address ?cmd cur last_line marks = Some (Some (?cmd, 0, 0, False))" for cur last_line marks
    using assms(1) by (intro parse_ed_address_letter) (auto simp: islower_def code_def)
  have i: "dropWhile (\<lambda>c. c = CHR '' '') inner = inner" "inner \<noteq> []"
    using assms(5) by (cases inner; auto simp: plain_cmd_def)+
  have "\<not> bad_range ed \<lparr>ar_start = 0, ar_end = num_lines ed - 1\<rparr>" using assms(9) by (simp add: bad_range_def)
  moreover have "collect_lines (ed_lines ed) re (opc = CHR ''g'') 0 (num_lines ed - 1)
      = Some (filter (\<lambda>j. re_matches (ed_lines ed ! nat j) re = (opc = CHR ''g'')) [0..num_lines ed - 1])"
    using assms(10) by (intro collect_lines_eq) (auto simp: num_lines_def)
  moreover have "scan_until (CHR ''/'') (re @ CHR ''/'' # inner) = (re, CHR ''/'' # inner)"
    using assms(2,4) by (intro scan_until_at) auto
  ultimately have g: "cmd_global exec ed w 0 0 ?cmd = global_single exec inner
      (rev (filter (\<lambda>j. re_matches (ed_lines ed ! nat j) re = (opc = CHR ''g'')) [0..num_lines ed - 1])) ed w" for exec
    using i assms(8,9) by (simp add: cmd_global_def Let_def numeral_2_eq_2)
  show ?thesis
    using assms(1) b p g by (auto simp: dispatch_def Let_def)
qed

lemma concat_cond:
  "concat (map (\<lambda>i. if P (ls ! i) then r (ls ! i) else [ls ! i]) [0..<length ls]) = concat (map (\<lambda>l. if P l then r l else [l]) ls)"
proof -
  have "map (\<lambda>i. if P (ls ! i) then r (ls ! i) else [ls ! i]) [0..<length ls]
      = map (\<lambda>l. if P l then r l else [l]) (map ((!) ls) [0..<length ls])" by simp
  then show ?thesis unfolding map_nth by metis
qed

lemma concat_filter: "concat (map (\<lambda>l. if P l then [] else [l]) ls) = filter (\<lambda>l. \<not> P l) ls"
  by (induction ls) auto

end
