(* ===== verification/EdProps.thy ===== *)
theory EdProps
  imports EdGlobal BreLiteral
begin

text \<open>
  The correctness properties of the editor, from its buffer operations up to whole commands, and
  the places where the code does not do what it means to.
\<close>

definition sample_world :: "string \<Rightarrow> World" where
  "sample_world inp = \<lparr>w_in = inp, w_out = [], w_files = (\<lambda>f. None), w_writable = (\<lambda>f. True),
     w_input_fp = True, w_before = NUL, w_exit = None\<rparr>"

definition sample_editor :: "string list \<Rightarrow> int \<Rightarrow> Editor" where
  "sample_editor ls cur = init_editor\<lparr>ed_lines := ls, ed_current_line := cur\<rparr>"

lemma sample_simps [simp]:
  "ed_lines (sample_editor ls cur) = ls" "ed_current_line (sample_editor ls cur) = cur"
  "num_lines (sample_editor ls cur) = int (length ls)" "w_in (sample_world inp) = inp"
  "w_exit (sample_world inp) = None" "w_files (sample_world inp) f = None" "w_writable (sample_world inp) f"
  by (simp_all add: sample_editor_def sample_world_def num_lines_def)

text \<open>One text line, the line that ends it, and the start of the next command.\<close>

definition sample_input :: string where
  "sample_input = file_text [''x''] @ ''.'' @ NL # ''p''"

lemma typed_sample [simp]: "typed (sample_world sample_input) = [''x'']"
  using text_lines_file_text [of "[''x'']" "''p''"] by (simp add: typed_def clean_line_def sample_input_def)

section \<open>Editing\<close>

text \<open>
  Append: for an address in the buffer (or before its first line) \<open>append_line\<close> touches only
  allocated cells, puts the typed lines after the addressed line, makes the last of them current
  and keeps every mark on its line.
\<close>

theorem append_line_inserts:
  assumes "- 1 \<le> addr" "addr < num_lines ed"
  shows "\<exists>ed'. append_line ed w addr = Some (ed', after_text w)
    \<and> ed_lines ed' = take (nat (addr + 1)) (ed_lines ed) @ typed w @ drop (nat (addr + 1)) (ed_lines ed)
    \<and> (typed w \<noteq> [] \<longrightarrow> ed_current_line ed' = addr + int (length (typed w)) \<and> ed_dirty ed')
    \<and> marks_follow ed ed'"
  using append_line_eq [OF assms, of w] marks_follow_with_text [of "addr + 1" ed "typed w"] assms by auto

theorem append_line_inserts_witness:
  "\<exists>ed'. append_line (sample_editor [''a'', ''b''] 1) (sample_world sample_input) 0
     = Some (ed', after_text (sample_world sample_input))
   \<and> ed_lines ed' = [''a'', ''x'', ''b'']"
  using append_line_inserts [of 0 "sample_editor [''a'', ''b''] 1" "sample_world sample_input"]
  by auto

text \<open>
  Delete: on a range in the buffer \<open>delete_range\<close> removes exactly those lines, the line after
  them (or the last one) becomes current, and every mark that survives is still on its line.
\<close>

theorem delete_range_removes:
  assumes "good_range ed r"
  shows "\<exists>ed'. delete_range ed w r = Some (ed', w) \<and> ed_lines ed' = without_range (ed_lines ed) r
    \<and> - 1 \<le> ed_current_line ed' \<and> ed_current_line ed' < num_lines ed'
    \<and> (ar_start r < num_lines ed' \<longrightarrow> ed_current_line ed' = ar_start r) \<and> ed_dirty ed' \<and> marks_follow ed ed'"
  using delete_range_eq [OF assms, of w] marks_follow_shortened [OF assms] length_without_range [OF assms] assms
  by (auto simp: shortened_def num_lines_def good_range_def range_size_def)

theorem delete_range_removes_witness:
  "\<exists>ed'. delete_range (sample_editor [''a'', ''b'', ''c''] 2) (sample_world []) \<lparr>ar_start = 0, ar_end = 1\<rparr>
     = Some (ed', sample_world []) \<and> ed_lines ed' = [''c'']"
  using delete_range_removes [of "sample_editor [''a'', ''b'', ''c''] 2" "\<lparr>ar_start = 0, ar_end = 1\<rparr>" "sample_world []"]
  by (auto simp: good_range_def without_range_def)

text \<open>
  Change: on a range in the buffer \<open>change_range\<close> replaces those lines by the typed ones.
\<close>

theorem change_range_replaces:
  assumes "good_range ed r"
  shows "\<exists>ed'. change_range ed w r = Some (ed', after_text w)
    \<and> ed_lines ed' = take (nat (ar_start r)) (ed_lines ed) @ typed w @ drop (nat (ar_end r + 1)) (ed_lines ed)"
  using change_range_eq [OF assms, of w] assms
  by (auto simp: without_range_def good_range_def num_lines_def)

theorem change_range_replaces_witness:
  "\<exists>ed'. change_range (sample_editor [''a'', ''b'', ''c''] 2) (sample_world sample_input)
       \<lparr>ar_start = 1, ar_end = 2\<rparr> = Some (ed', after_text (sample_world sample_input))
     \<and> ed_lines ed' = [''a'', ''x'']"
  using change_range_replaces [of "sample_editor [''a'', ''b'', ''c''] 2" "\<lparr>ar_start = 1, ar_end = 2\<rparr>"
      "sample_world sample_input"]
  by (auto simp: good_range_def)

lemma mset_moved:
  assumes "good_range ed r"
  shows "mset (moved_lines (ed_lines ed) r dest) = mset (ed_lines ed)"
proof -
  have "mset (ed_lines ed) = mset (without_range (ed_lines ed) r) + mset (range_lines (ed_lines ed) r)"
    using arg_cong [OF split_range [OF assms], of mset] by (simp add: without_range_def)
  also have "mset (without_range (ed_lines ed) r) = mset (take p (without_range (ed_lines ed) r)) + mset (drop p (without_range (ed_lines ed) r))" for p
    by (metis append_take_drop_id mset_append)
  finally have "mset (ed_lines ed) = mset (take p (without_range (ed_lines ed) r))
      + mset (drop p (without_range (ed_lines ed) r)) + mset (range_lines (ed_lines ed) r)" for p .
  then show ?thesis unfolding moved_lines_def Let_def mset_append by (metis add.assoc add.commute)
qed



text \<open>
  Copy: \<open>copy_range\<close> inserts a copy of the range after any line of the buffer, inside its arrays
  also where the range spans the destination, and keeps every mark on its line.
\<close>

theorem copy_range_copies:
  assumes "good_range ed r" "0 \<le> dest" "dest < num_lines ed"
  shows "\<exists>ed'. copy_range ed w r dest = Some (ed', w)
    \<and> ed_lines ed' = take (nat (dest + 1)) (ed_lines ed) @ range_lines (ed_lines ed) r @ drop (nat (dest + 1)) (ed_lines ed)
    \<and> ed_current_line ed' = dest + range_size r \<and> marks_follow ed ed'"
  using copy_range_eq [OF assms, of w] marks_follow_copy [OF assms] by auto

theorem copy_range_copies_witness:
  "\<exists>ed'. copy_range (sample_editor [''a'', ''b'', ''c''] 2) (sample_world []) \<lparr>ar_start = 0, ar_end = 2\<rparr> 0
     = Some (ed', sample_world []) \<and> ed_lines ed' = [''a'', ''a'', ''b'', ''c'', ''b'', ''c'']"
  using copy_range_copies [of "sample_editor [''a'', ''b'', ''c''] 2" "\<lparr>ar_start = 0, ar_end = 2\<rparr>" 0 "sample_world []"]
  by (auto simp: good_range_def range_lines_def)

text \<open>
  Join: \<open>join_range\<close> replaces the lines of the range by their concatenation and makes it the
  current line; no character of the buffer is lost.
\<close>

theorem join_range_joins:
  assumes "good_range ed r"
  shows "\<exists>ed'. join_range ed w r = Some (ed', w)
    \<and> ed_lines ed' = take (nat (ar_start r)) (ed_lines ed) @ concat (range_lines (ed_lines ed) r) # drop (nat (ar_end r + 1)) (ed_lines ed)
    \<and> concat (ed_lines ed') = concat (ed_lines ed) \<and> ed_current_line ed' = ar_start r"
proof -
  have "concat (ed_lines ed) = concat (take (nat (ar_start r)) (ed_lines ed)) @ concat (range_lines (ed_lines ed) r)
      @ concat (drop (nat (ar_end r + 1)) (ed_lines ed))"
    using arg_cong [OF split_range [OF assms], of concat] by simp
  then show ?thesis using join_range_eq [OF assms, of w] by (simp add: joined_lines_def)
qed

theorem join_range_joins_witness:
  "\<exists>ed'. join_range (sample_editor [''a'', ''b'', ''c''] 2) (sample_world []) \<lparr>ar_start = 0, ar_end = 1\<rparr>
     = Some (ed', sample_world []) \<and> ed_lines ed' = [''ab'', ''c'']"
  using join_range_joins [of "sample_editor [''a'', ''b'', ''c''] 2" "\<lparr>ar_start = 0, ar_end = 1\<rparr>" "sample_world []"]
  by (auto simp: good_range_def range_lines_def)

section \<open>Undo\<close>

definition buffer_edits :: "(Editor \<Rightarrow> World \<Rightarrow> est option) set" where
  "buffer_edits = range (\<lambda>addr ed w. append_line ed w addr) \<union> range (\<lambda>addr ed w. insert_line ed w addr)
     \<union> range (\<lambda>addr ed w. delete_line ed w addr) \<union> range (\<lambda>r ed w. delete_range ed w r)
     \<union> range (\<lambda>(r, dest) ed w. move_range ed w r dest) \<union> range (\<lambda>(r, dest) ed w. copy_range ed w r dest)
     \<union> range (\<lambda>r ed w. join_range ed w r) \<union> range (\<lambda>(addr, f) ed w. read_file_at_address ed w addr f)
     \<union> range (\<lambda>(fuel, r, p, s, g) ed w. substitute_range fuel ed w r p s g)"



text \<open>
  The change command overwrites its snapshot with the buffer in which the range is already
  deleted, so an undo after \<open>c\<close> does not bring the changed lines back.
\<close>

theorem change_undo_loses_lines:
  assumes "good_range ed r" "change_range ed w r = Some (ed', w')"
  shows "\<exists>ed''. cmd_undo ed' w' = (ed'', w') \<and> ed_lines ed'' = without_range (ed_lines ed) r
    \<and> length (ed_lines ed'') < length (ed_lines ed)"
proof -
  have "ed_undo_valid ed'" using assms change_range_eq [OF assms(1), of w] by auto
  moreover have "length (without_range (ed_lines ed) r) < length (ed_lines ed)"
    using assms(1) by (auto simp: without_range_def good_range_def num_lines_def)
  ultimately show ?thesis using change_undo_lines [OF assms] by (simp add: cmd_undo_def)
qed

theorem change_undo_loses_lines_witness:
  "\<exists>ed' w' ed''. change_range (sample_editor [''a'', ''b''] 1) (sample_world sample_input) \<lparr>ar_start = 0, ar_end = 0\<rparr> = Some (ed', w')
     \<and> ed_lines ed' = [''x'', ''b''] \<and> cmd_undo ed' w' = (ed'', w') \<and> ed_lines ed'' = [''b'']"
proof -
  let ?ed = "sample_editor [''a'', ''b''] 1" and ?r = "\<lparr>ar_start = 0, ar_end = 0\<rparr>"
  have g: "good_range ?ed ?r" by (simp add: good_range_def)
  note c = change_range_eq [OF g, of "sample_world sample_input"]
  show ?thesis
    using change_undo_loses_lines [OF g c] c by (auto simp: without_range_def)
qed

section \<open>Files\<close>

text \<open>
  C7. Write and read back: writing a buffer of clean lines to a writable file and editing that file
  again gives the same lines, and both commands report the same number of bytes.
\<close>

theorem write_then_edit_roundtrip:
  assumes "f \<noteq> []" "w_writable w f" "list_all clean_line (ed_lines ed)" "write_file ed w (Some f) = (ed', w')"
  shows "\<exists>ed''. edit_file ed' w' False f = Some (ed'', put_line (show_int (byte_count (ed_lines ed))) w')
    \<and> ed_lines ed'' = ed_lines ed \<and> ed_filename ed'' = Some f \<and> \<not> ed_dirty ed''
    \<and> ed_current_line ed'' = num_lines ed - 1
    \<and> w_out w' = w_out w @ show_int (byte_count (ed_lines ed)) @ [NL]"
  using assms load_loop_file_text [OF assms(3), of "[]" 0]
  by (auto simp: write_file_def Let_def edit_file_def load_file_def put_line_def put_def init_editor_def num_lines_def)

theorem write_then_edit_roundtrip_witness:
  "\<exists>ed' w' ed'' w''. write_file (sample_editor [''a'', ''bc''] 1) (sample_world []) (Some ''f'') = (ed', w')
     \<and> edit_file ed' w' False ''f'' = Some (ed'', w'') \<and> ed_lines ed'' = [''a'', ''bc'']"
proof -
  obtain ed' w' where w: "write_file (sample_editor [''a'', ''bc''] 1) (sample_world []) (Some ''f'') = (ed', w')"
    by (cases "write_file (sample_editor [''a'', ''bc''] 1) (sample_world []) (Some ''f'')")
  show ?thesis
    using write_then_edit_roundtrip [OF _ _ _ w] w by (auto simp: clean_line_def)
qed

text \<open>
  Read: the lines of the file come in after the addressed line (\<open>- 1\<close> for before the first),
  within the arrays, with the byte count printed.
\<close>

theorem read_file_inserts:
  assumes "- 1 \<le> addr" "addr < num_lines ed" "w_files w f = Some s"
  shows "\<exists>ed'. read_file_at_address ed w addr f = Some (ed', put_line (show_int (file_bytes s)) w)
    \<and> ed_lines ed' = take (nat (addr + 1)) (ed_lines ed) @ file_lines s @ drop (nat (addr + 1)) (ed_lines ed)
    \<and> (file_bytes s > 0 \<longrightarrow> ed_current_line ed' = addr + int (length (file_lines s)) \<and> ed_dirty ed')"
  using assms read_loop_eq [of "addr + 1" "ed_lines ed" s 0 0]
  by (cases "file_bytes s > 0") (simp_all add: read_file_at_address_def num_lines_def Let_def)

theorem read_file_inserts_witness:
  "\<exists>ed'. read_file_at_address (sample_editor [''a''] 0) ((sample_world [])\<lparr>w_files := (\<lambda>f. Some (file_text [''x'']))\<rparr>) 0 ''f''
     = Some (ed', put_line (show_int 2) ((sample_world [])\<lparr>w_files := (\<lambda>f. Some (file_text [''x'']))\<rparr>))
   \<and> ed_lines ed' = [''a'', ''x'']"
proof -
  have "load_loop [] (file_text [''x'']) 0 = ([''x''], 2)"
    using load_loop_file_text [of "[''x'']" "[]" 0] by (simp add: clean_line_def)
  then have "file_lines (file_text [''x'']) = [''x'']" "file_bytes (file_text [''x'']) = 2"
    by (simp_all add: file_lines_def file_bytes_def)
  then show ?thesis
    using read_file_inserts [of 0 "sample_editor [''a''] 0" "(sample_world [])\<lparr>w_files := (\<lambda>f. Some (file_text [''x'']))\<rparr>" "''f''" "file_text [''x'']"]
    by (auto simp del: file_text_simps)
qed

section \<open>Addresses\<close>

text \<open>
  C8. Addresses: whatever \<open>parse_one_address\<close> is given, it returns \<open>ADDR_NONE\<close> or \<open>ADDR_ERROR\<close> and
  leaves the pointer where it was, or a line number between 0 and the last line and a pointer
  further into the same string.
\<close>

theorem address_in_buffer:
  assumes "parse_one_address pp cur last_line marks = Some (v, p')"
  shows "(v = ADDR_NONE \<or> v = ADDR_ERROR) \<and> p' = pp \<or> 0 \<le> v \<and> v \<le> last_line \<and> suffix p' pp"
  using assms by (rule parse_one_address_bounds)

theorem address_in_buffer_witness:
  "parse_one_address ''$p'' 1 5 (replicate 26 (- 1)) = Some (5, ''p'') \<and> suffix ''p'' ''$p''"
proof -
  have e: "parse_one_address ''$p'' 1 5 (replicate 26 (- 1)) = Some (5, ''p'')" by code_simp
  then show ?thesis using address_in_buffer [OF e] by simp
qed

text \<open>
  Round trip of ranges: the decimal form of two lines of the buffer, separated by a comma and
  followed by a command, parses to those two lines and leaves the command.
\<close>

theorem decimal_range_roundtrip:
  assumes "0 < n" "int n \<le> num_lines ed" "0 < m" "int m \<le> num_lines ed" "num_lines ed \<le> INT_MAX" "plain_cmd cs"
  shows "parse_ed_address (show_nat n @ CHR '','' # show_nat m @ cs) (current_1based ed) (num_lines ed) (ed_marks ed)
    = Some (Some (cs, int n, int m, True))"
  using assms by (intro parse_ed_address_two)

theorem decimal_range_roundtrip_witness:
  "parse_ed_address (show_nat 1 @ CHR '','' # show_nat 2 @ ''p'') (current_1based (sample_editor [''a'', ''b''] 0)) 2
     (ed_marks (sample_editor [''a'', ''b''] 0)) = Some (Some (''p'', 1, 2, True))"
  using decimal_range_roundtrip [of 1 "sample_editor [''a'', ''b''] 0" 2 "''p''"]
  by (simp add: plain_cmd_def isdigit_def code_def)

text \<open>
  \<open>parse_address_range\<close> returns the invalid range or a range of the buffer in the right order.
\<close>

theorem address_range_valid:
  assumes "parse_address_range ed s = Some r" "ed_current_line ed < num_lines ed"
  shows "r = \<lparr>ar_start = - 1, ar_end = - 1\<rparr> \<or> good_range ed r"
  using assms by (rule parse_address_range_valid)

theorem address_range_valid_witness:
  "parse_address_range (sample_editor [''a'', ''b''] 0) ''1,$'' = Some \<lparr>ar_start = 0, ar_end = 1\<rparr>
     \<and> good_range (sample_editor [''a'', ''b''] 0) \<lparr>ar_start = 0, ar_end = 1\<rparr>"
proof -
  have e: "parse_address_range (sample_editor [''a'', ''b''] 0) ''1,$'' = Some \<lparr>ar_start = 0, ar_end = 1\<rparr>" by code_simp
  show ?thesis using address_range_valid [OF e] e by simp
qed

text \<open>
  Forward search: \<open>search_pattern\<close> returns 0 when no line matches, and otherwise the number of
  the first matching line after the current one, wrapping around at the end of the buffer to the
  lines up to and including the current one.
\<close>

theorem forward_search_nearest:
  assumes "search_pattern ed pat True = Some v" "0 \<le> ed_current_line ed" "ed_current_line ed < num_lines ed"
    "length pat < MAX_LINE"
  shows "(v = 0 \<and> (\<forall>l \<in> set (ed_lines ed). \<not> re_matches l pat))
    \<or> (0 < v \<and> v \<le> num_lines ed \<and> re_matches (ed_lines ed ! nat (v - 1)) pat \<and>
       (if ed_current_line ed < v - 1
        then \<forall>j. ed_current_line ed < j \<and> j < v - 1 \<longrightarrow> \<not> re_matches (ed_lines ed ! nat j) pat
        else \<forall>j. (ed_current_line ed < j \<and> j < num_lines ed \<or> 0 \<le> j \<and> j < v - 1) \<longrightarrow> \<not> re_matches (ed_lines ed ! nat j) pat))"
proof -
  let ?c = "ed_current_line ed" and ?n = "num_lines ed" and ?ls = "ed_lines ed"
  obtain a where a: "search_up ?ls pat (?c + 1) ?n = Some a"
    using assms by (auto simp: search_pattern_def Let_def bind_eq_Some_conv)
  note A = search_up_found [OF a]
  show ?thesis
  proof (cases "a = 0")
    case False
    then have "v = a" using assms a by (simp add: search_pattern_def Let_def)
    then show ?thesis using A False assms(2) by auto
  next
    case True
    then have v: "search_up ?ls pat 0 (?c + 1) = Some v"
      using assms a by (simp add: search_pattern_def Let_def)
    have up: "\<not> re_matches (?ls ! nat j) pat" if "?c < j" "j < ?n" for j using A True assms(2) that by auto
    from search_up_found [OF v] consider "v = 0" "\<And>j. 0 \<le> j \<Longrightarrow> j < ?c + 1 \<Longrightarrow> \<not> re_matches (?ls ! nat j) pat"
      | "0 < v" "v \<le> ?c + 1" "re_matches (?ls ! nat (v - 1)) pat" "\<And>j. 0 \<le> j \<Longrightarrow> j < v - 1 \<Longrightarrow> \<not> re_matches (?ls ! nat j) pat"
      by auto
    then show ?thesis
    proof cases
      case 1
      have "\<not> re_matches l pat" if l: "l \<in> set ?ls" for l
      proof -
        obtain i where i: "i < length ?ls" "l = ?ls ! i" using l by (auto simp: in_set_conv_nth)
        then show ?thesis
          using 1(2) [of "int i"] up [of "int i"] by (cases "int i \<le> ?c") (auto simp: num_lines_def)
      qed
      then show ?thesis using 1(1) by blast
    next
      case 2
      then show ?thesis using up assms(3) by auto
    qed
  qed
qed

theorem forward_search_nearest_witness:
  "search_pattern (sample_editor [''ab'', ''cd'', ''b''] 1) ''b'' True = Some 3 \<and> re_matches ''b'' ''b''"
proof -
  have e: "search_pattern (sample_editor [''ab'', ''cd'', ''b''] 1) ''b'' True = Some 3" by code_simp
  show ?thesis using forward_search_nearest [OF e] e by simp
qed

section \<open>Commands\<close>

text \<open>
  C9. Global delete: \<open>g/re/d\<close> removes exactly the lines that match, \<open>v/re/d\<close> exactly those that do
  not, in the buffer's order, whatever indices shift while the loop runs.
\<close>

theorem global_delete_filters:
  assumes "opc = CHR ''g'' \<or> opc = CHR ''v''" "CHR ''/'' \<notin> set re" "NL \<notin> set re" "length re \<le> 500"
    "0 < num_lines ed" "num_lines ed \<le> INT_MAX" "\<forall>l \<in> set (ed_lines ed). bre_match l re \<noteq> None" "w_exit w = None"
  shows "\<exists>ed'. execute_command (Suc (Suc fuel)) ed w (opc # CHR ''/'' # re @ ''/d'') = Some (ed', w)
    \<and> ed_lines ed' = filter (\<lambda>l. re_matches l re \<noteq> (opc = CHR ''g'')) (ed_lines ed)"
proof -
  let ?ls = "ed_lines ed" and ?P = "\<lambda>l. re_matches l re = (opc = CHR ''g'')"
  let ?ks = "filter (\<lambda>j. ?P (?ls ! nat j)) [0..num_lines ed - 1]"
  have "\<exists>ed'. global_single (execute_command (Suc fuel)) ''d'' (rev ?ks) ed w = Some (ed', w)
      \<and> ed_lines ed' = delete_command.applied (set (rev ?ks)) ?ls"
    using assms(5,6,8) by (intro delete_command.global_single_applied sorted_filter_upto) (auto simp: list_all_iff)
  then obtain ed' where e: "global_single (execute_command (Suc fuel)) ''d'' (rev ?ks) ed w = Some (ed', w)"
    "ed_lines ed' = delete_command.applied (set (rev ?ks)) ?ls" by blast
  have "delete_command.applied (set (rev ?ks)) ?ls = concat (map (\<lambda>i. if ?P (?ls ! i) then [] else [?ls ! i]) [0..<length ?ls])"
    unfolding delete_command.applied_def by (intro arg_cong [where f = concat] map_cong refl) (auto simp: num_lines_def)
  also have "\<dots> = filter (\<lambda>l. \<not> ?P l) ?ls" using concat_cond [of ?P ?ls "\<lambda>l. []"] concat_filter [of ?P ?ls] by simp
  finally show ?thesis
    using e exec_global [OF assms(1-4), of "''d''" ed "Suc fuel" w] assms(5,7)
    by (simp add: plain_cmd_def isdigit_def code_def)
qed


theorem global_delete_filters_witness:
  "\<exists>ed'. execute_command (Suc (Suc 0)) (sample_editor [''ab'', ''cd'', ''b''] 0) (sample_world []) ''g/b/d''
     = Some (ed', sample_world []) \<and> ed_lines ed' = [''cd'']"
proof -
  have m: "bre_match ''ab'' ''b'' \<noteq> None" "bre_match ''cd'' ''b'' \<noteq> None" "bre_match ''b'' ''b'' \<noteq> None"
    "re_matches ''ab'' ''b''" "\<not> re_matches ''cd'' ''b''" "re_matches ''b'' ''b''" by code_simp+
  show ?thesis
    using global_delete_filters [of "CHR ''g''" "''b''" "sample_editor [''ab'', ''cd'', ''b''] 0" "sample_world []" 0] m
    by simp
qed

definition subst_line :: "string \<Rightarrow> string \<Rightarrow> string \<Rightarrow> string" where
  "subst_line pat repl l = (if re_matches l pat then the (the (bre_substitute l pat repl)) else l)"

lemma subst_once_eq:
  assumes "safe_pattern pat" "no_nul l"
  shows "subst_once l pat repl = Some (Some (subst_line pat repl l, re_matches l pat))"
  by (rule bre_substitute_safe [OF assms, of repl]) (auto simp: subst_once_def subst_line_def re_matches_def)

lemma subst_loop_once:
  assumes "safe_pattern pat" "\<forall>i. j \<le> i \<and> i \<le> e \<longrightarrow> no_nul (ls ! nat i)" "0 \<le> j" "e < int (length ls)"
  shows "\<exists>ls'. subst_loop fuel ls j e any pat repl False =
      Some (Some (ls', any \<or> (\<exists>i. j \<le> i \<and> i \<le> e \<and> re_matches (ls ! nat i) pat)))
    \<and> length ls' = length ls
    \<and> (\<forall>i < length ls. ls' ! i = (if j \<le> int i \<and> int i \<le> e then subst_line pat repl (ls ! i) else ls ! i))"
  using assms(2-)
proof (induction "nat (e + 1 - j)" arbitrary: j any ls)
  case 0
  then show ?case by (subst subst_loop.simps) auto
next
  case (Suc d)
  then have je: "j \<le> e" by simp
  let ?l = "ls ! nat j"
  let ?ls = "ls[nat j := subst_line pat repl ?l]"
  have l: "aget ls j = Some ?l" "no_nul ?l" using Suc.prems je by auto
  have same: "?ls ! nat i = ls ! nat i" if "j < i" for i using that Suc.prems(2) by (intro nth_list_update_neq) auto
  obtain ls' where ls': "subst_loop fuel ?ls (j + 1) e (any \<or> re_matches ?l pat) pat repl False =
      Some (Some (ls', (any \<or> re_matches ?l pat) \<or> (\<exists>i. j + 1 \<le> i \<and> i \<le> e \<and> re_matches (?ls ! nat i) pat)))"
    "length ls' = length ls"
    "\<And>i. i < length ls \<Longrightarrow> ls' ! i = (if j + 1 \<le> int i \<and> int i \<le> e then subst_line pat repl (?ls ! i) else ?ls ! i)"
  proof -
    have d: "d = nat (e + 1 - (j + 1))" using Suc.hyps(2) by simp
    have "\<forall>i. j + 1 \<le> i \<and> i \<le> e \<longrightarrow> no_nul (?ls ! nat i)" using Suc.prems(1) same by simp
    then show ?thesis
      using Suc.hyps(1) [OF d, of ?ls "any \<or> re_matches ?l pat"] Suc.prems(2,3) that by auto
  qed
  have "subst_loop fuel ls j e any pat repl False = subst_loop fuel ?ls (j + 1) e (any \<or> re_matches ?l pat) pat repl False"
  proof (cases "re_matches ?l pat")
    case True
    then show ?thesis using je l subst_once_eq [OF assms(1) l(2)] by (subst subst_loop.simps) simp
  next
    case False
    then have "?ls = ls" by (simp add: subst_line_def)
    then show ?thesis using False je l subst_once_eq [OF assms(1) l(2)] by (subst subst_loop.simps) simp
  qed
  moreover have "(any \<or> re_matches ?l pat) \<or> (\<exists>i. j + 1 \<le> i \<and> i \<le> e \<and> re_matches (?ls ! nat i) pat)
      \<longleftrightarrow> any \<or> (\<exists>i. j \<le> i \<and> i \<le> e \<and> re_matches (ls ! nat i) pat)"
    using je same by (metis add1_zle_eq order_le_less)
  moreover have "ls' ! i = (if j \<le> int i \<and> int i \<le> e then subst_line pat repl (ls ! i) else ls ! i)" if "i < length ls" for i
    using ls'(3) [OF that] je Suc.prems(2) that by (cases "int i = j") auto
  ultimately show ?case using ls'(1,2) by auto
qed

text \<open>
  Substitute: \<open>s/re/repl/\<close> over a range of the buffer rewrites the matching lines of the range
  by \<open>bre_substitute\<close>, leaves all other lines alone, and makes the last line of the range current;
  when no line of the range matches it changes nothing and reports the error.
\<close>

theorem substitute_range_rewrites:
  assumes "good_range ed r" "safe_pattern pat" "\<forall>l \<in> set (ed_lines ed). no_nul l"
  defines "any \<equiv> \<exists>i. ar_start r \<le> i \<and> i \<le> ar_end r \<and> re_matches (ed_lines ed ! nat i) pat"
  shows "\<exists>ed' w'. substitute_range fuel ed w r pat repl False = Some (ed', w')
    \<and> length (ed_lines ed') = length (ed_lines ed)
    \<and> (\<forall>i < length (ed_lines ed). ed_lines ed' ! i =
         (if ar_start r \<le> int i \<and> int i \<le> ar_end r then subst_line pat repl (ed_lines ed ! i) else ed_lines ed ! i))
    \<and> (if any then w' = w \<and> ed_current_line ed' = ar_end r \<and> ed_dirty ed'
       else ed_lines ed' = ed_lines ed \<and> ed_last_error ed' = Some ''No match'')"
proof -
  have b: "0 \<le> ar_start r" "ar_end r < int (length (ed_lines ed))" using assms(1) by (auto simp: good_range_def num_lines_def)
  have n: "\<forall>i. ar_start r \<le> i \<and> i \<le> ar_end r \<longrightarrow> no_nul (ed_lines ed ! nat i)"
    using assms(3) b by (auto simp: nat_less_iff)
  obtain ls' where ls': "subst_loop fuel (ed_lines ed) (ar_start r) (ar_end r) False pat repl False = Some (Some (ls', any))"
    "length ls' = length (ed_lines ed)"
    "\<forall>i < length (ed_lines ed). ls' ! i =
      (if ar_start r \<le> int i \<and> int i \<le> ar_end r then subst_line pat repl (ed_lines ed ! i) else ed_lines ed ! i)"
    using subst_loop_once [OF assms(2) n b, of fuel False repl] unfolding any_def by auto
  have "ls' = ed_lines ed" if "\<not> any"
    using that ls'(2,3) by (intro nth_equalityI) (auto simp: any_def subst_line_def)
  then show ?thesis
    using ls' good_not_bad [OF assms(1)]
    by (cases any) (auto simp: substitute_range_def Let_def set_error_def)
qed

theorem substitute_range_rewrites_witness:
  "\<exists>ed' w'. substitute_range 0 (sample_editor [''ab'', ''cd''] 0) (sample_world []) \<lparr>ar_start = 0, ar_end = 1\<rparr> ''b'' ''xy'' False
     = Some (ed', w') \<and> ed_lines ed' ! 0 = ''axy'' \<and> ed_lines ed' ! 1 = ''cd''"
proof -
  have "safe_pattern ''b''" "subst_line ''b'' ''xy'' ''ab'' = ''axy''" "subst_line ''b'' ''xy'' ''cd'' = ''cd''" by code_simp+
  then show ?thesis
    using substitute_range_rewrites [of "sample_editor [''ab'', ''cd''] 0" "\<lparr>ar_start = 0, ar_end = 1\<rparr>" "''b''" 0 "sample_world []" "''xy''"]
    by (auto simp: good_range_def)
qed

text \<open>
  The global substitution scans its own output again: when the replacement contains the
  pattern it never ends. With the pattern \<open>a\<close> and the replacement \<open>aa\<close> no number of rounds is enough
  for any line of at least one \<open>a\<close>.
\<close>

theorem global_substitute_diverges:
  "subst_global fuel (replicate (Suc n) CHR ''a'') changed ''a'' ''aa'' = None"
proof (induction fuel arbitrary: n changed)
  case (Suc fuel)
  let ?t = "replicate (Suc n) CHR ''a''"
  have p: "literal_pattern ''a''" "reps_small ''a''" by code_simp+
  have t: "no_nul ?t" by (simp add: no_nul_def)
  have o: "occurs_at ?t ''a'' 0" by (simp add: occurs_at_def)
  then obtain m where "bre_match ?t ''a'' = Some (BRE_OK, m)" using literal_bre_match [OF p t] by blast
  moreover have "bre_substitute ?t ''a'' ''aa'' = Some (Some (replicate (Suc (Suc n)) CHR ''a''))"
    using literal_substitute [OF p t _ o, of "''aa''"] by simp
  ultimately show ?case using Suc [of "Suc n" True] by simp
qed simp

text \<open>
  \<open>execute_command\<close> does not check the order of a range, so a delete whose range is reversed by
  two lines or more writes outside the line array.
\<close>

theorem reversed_delete_out_of_bounds:
  assumes "\<not> bad_range ed r" "ar_end r + 1 < ar_start r"
  shows "delete_range ed w r = None"
proof -
  let ?k = "ar_end r - ar_start r + 1"
  have "loop_up ls i n 0 ?k = None" if "0 \<le> i" "i \<le> int (length ls)" "int (length ls) < n" for ls :: "string list" and i n
    using that
  proof (induction "nat (int (length ls) - i)" arbitrary: ls i)
    case 0
    then show ?case
      by (subst loop_up.simps) (auto simp: aset_out bind_eq_None_conv)
  next
    case (Suc d)
    then have i: "i < n" "i < int (length ls)" by auto
    show ?case
    proof (cases "aget ls (i + ?k)")
      case (Some v)
      have "loop_up (ls[nat i := v]) (i + 1) n 0 ?k = None"
        using Suc.hyps(2) Suc.prems i by (intro Suc.hyps(1)) auto
      then show ?thesis using Some i Suc.prems by (subst loop_up.simps) simp
    qed (subst loop_up.simps, use i in simp)
  qed
  moreover have "0 \<le> ar_start r" "ar_start r \<le> num_lines ed" using assms(1) by (auto simp: bad_range_def)
  ultimately have "loop_up (ed_lines ed) (ar_start r) (num_lines ed - ?k) 0 ?k = None"
    using assms(2) by (auto simp: num_lines_def)
  then show ?thesis using assms(1) by (simp add: delete_range_def Let_def)
qed

theorem reversed_delete_out_of_bounds_witness:
  "execute_command 2 (sample_editor [''a'', ''b'', ''c''] 0) (sample_world []) ''3,1d'' = None
   \<and> delete_range (sample_editor [''a'', ''b'', ''c''] 0) (sample_world []) \<lparr>ar_start = 2, ar_end = 0\<rparr> = None"
proof -
  have "execute_command 2 (sample_editor [''a'', ''b'', ''c''] 0) (sample_world []) ''3,1d'' = None" by code_simp
  then show ?thesis
    using reversed_delete_out_of_bounds [of "sample_editor [''a'', ''b'', ''c''] 0" "\<lparr>ar_start = 2, ar_end = 0\<rparr>" "sample_world []"]
    by (simp add: bad_range_def)
qed

text \<open>
  Insert with no text on an empty buffer makes the line after the last one current, and the
  next append of a line then writes outside the line array.
\<close>

theorem empty_insert_breaks_append:
  assumes "typed w = []" "typed w2 \<noteq> []"
  shows "\<exists>ed'. insert_line init_editor w 0 = Some (ed', after_text w) \<and> num_lines ed' = 0
    \<and> ed_current_line ed' = 0 \<and> append_line ed' w2 (ed_current_line ed') = None"
proof -
  let ?ed = "with_text init_editor 0 [] 0"
  have i: "insert_line init_editor w 0 = Some (?ed, after_text w)"
    using insert_line_eq [of 0 init_editor w] assms(1) by (simp add: num_lines_def init_editor_def)
  obtain line had_nl rest where r: "read_full_line (w_in w2) = Some (line, had_nl, rest)" "line \<noteq> ''.''"
    using assms(2) by (auto simp: typed_def text_lines.simps [of "w_in w2"] split: option.splits if_splits)
  have "insert_cell [] 1 line = None"
    by (simp add: insert_cell_def loop_down.simps [of "[[]]" 0 1] aset_out)
  then have "append_loop [] (w_in w2) 0 (- 1) 0 = None"
    using r by (subst append_loop.simps) simp
  then have "append_line ?ed w2 0 = None"
    by (simp add: append_line_def Let_def init_editor_def)
  then show ?thesis using i by (auto simp: num_lines_def init_editor_def)
qed

lemma typed_period: "typed (sample_world (''.'' @ NL # r)) = []"
  using text_lines_file_text [of "[]" r] by (simp add: typed_def)

theorem empty_insert_breaks_append_witness:
  "\<exists>ed'. insert_line init_editor (sample_world (''.'' @ [NL])) 0 = Some (ed', after_text (sample_world (''.'' @ [NL])))
     \<and> append_line ed' (sample_world sample_input) (ed_current_line ed') = None"
  using empty_insert_breaks_append [of "sample_world (''.'' @ [NL])" "sample_world sample_input"] typed_period [of "[]"]
  by auto

lemma fold_put_line: "fold (\<lambda>i. put_line (f i)) xs w = put (file_text (map f xs)) w"
  by (induction xs arbitrary: w) (simp_all add: put_line_def put_def)

text \<open>
  Print: \<open>p\<close> on a range of the buffer prints its lines, each with a newline, makes the last one
  current and changes nothing else.
\<close>

theorem print_range_prints:
  assumes "good_range ed r"
  shows "print_range ed w r = (ed\<lparr>ed_current_line := ar_end r\<rparr>, put (file_text (range_lines (ed_lines ed) r)) w)"
  using good_not_bad [OF assms] range_map [OF assms] by (simp add: print_range_def fold_put_line)

theorem print_range_prints_witness:
  "w_out (snd (print_range (sample_editor [''a'', ''b''] 0) (sample_world []) \<lparr>ar_start = 0, ar_end = 1\<rparr>))
     = ''a'' @ NL # ''b'' @ [NL]"
  using print_range_prints [of "sample_editor [''a'', ''b''] 0" "\<lparr>ar_start = 0, ar_end = 1\<rparr>" "sample_world []"]
  by (simp add: good_range_def range_lines_def put_def sample_world_def)

text \<open>
  Quit: the command \<open>q\<close> ends the program with status 0 when the buffer is saved and is refused
  when it is not.
\<close>

theorem quit_refused_when_dirty:
  "execute_command (Suc fuel) ed w ''q'' =
     Some (if ed_dirty ed then set_error ed w ''Buffer modified'' else (ed, w\<lparr>w_exit := Some 0\<rparr>))"
proof -
  have "command_buffer ''q'' = ''q''" by code_simp
  moreover have "parse_ed_address ''q'' c l m = Some (Some (''q'', 0, 0, False))" for c l m
    by (rule parse_ed_address_letter) (simp_all add: islower_def code_def)
  ultimately show ?thesis by (simp add: dispatch_def cmd_single_def Let_def)
qed

text \<open>
  The sum of the current line and an offset is not checked: a \<open>+2147483647\<close> address overflows
  a signed integer, whatever the current line.
\<close>

theorem offset_overflows:
  assumes "1 \<le> cur"
  shows "parse_one_address ''+2147483647'' cur last_line marks = None"
proof -
  have "parse_digits 0 ''2147483647'' = Some (2147483647, [])" by code_simp
  then show ?thesis
    using assms by (simp add: parse_one_address_def address_form_def apply_offset_def Let_def isspace_def code_def)
qed

theorem offset_overflows_witness: "parse_one_address ''+2147483647'' 1 1 (replicate 26 (- 1)) = None"
  by (rule offset_overflows) simp

lemma fgets_line:
  assumes "NL \<notin> set l" "NUL \<notin> set l" "length l < 1000"
  shows "fgets MAX_LINE (l @ NL # rest) = Some (l @ [NL], rest)"
proof -
  obtain k where "MAX_LINE - 1 - length l = Suc k" using assms(3) by (cases "MAX_LINE - 1 - length l") auto
  then have f: "take (MAX_LINE - 1) (l @ NL # rest) = l @ NL # take k rest" using assms(3) by simp
  have "takeWhile (\<lambda>c. c \<noteq> NL) (l @ NL # take k rest) = l"
    using assms(1) by (subst takeWhile_append2) auto
  moreover have "takeWhile (\<lambda>c. c \<noteq> NUL) (l @ [NL]) = l @ [NL]"
    unfolding takeWhile_eq_all_conv using assms(2) by auto
  ultimately show ?thesis unfolding fgets_def Let_def f by simp
qed

definition session_input :: "string list \<Rightarrow> string" where
  "session_input xs = ''a'' @ NL # file_text xs @ ''.'' @ NL # ''w f'' @ NL # ''q'' @ [NL]"

lemma exec_letter:
  assumes "islower c" "command_buffer cmd = c # cs"
  shows "execute_command (Suc fuel) ed w cmd = dispatch fuel (execute_command fuel) ed w (c # cs) (c # cs) 0 0"
proof -
  have "c \<noteq> NUL" using assms(1) by (auto simp: islower_def code_def)
  then show ?thesis using parse_ed_address_letter [OF assms(1)] assms(2) by (simp add: Let_def)
qed

lemma exec_append_empty:
  assumes "num_lines ed = 0" "ed_current_line ed = - 1"
  shows "\<exists>ed'. execute_command (Suc fuel) ed w (''a'' @ [NL]) = Some (ed', after_text w)
    \<and> ed_lines ed' = typed w"
proof -
  have "command_buffer (''a'' @ [NL]) = ''a''" by code_simp
  moreover have "islower CHR ''a''" by (simp add: islower_def code_def)
  ultimately show ?thesis
    using assms append_line_eq [of "- 1" ed w] exec_letter [of "CHR ''a''" "''a'' @ [NL]" "[]" fuel ed w]
    by (simp add: dispatch_def cmd_single_def Let_def num_lines_def)
qed

lemma exec_write:
  assumes "w_writable w ''f''"
  shows "execute_command (Suc fuel) ed w (''w f'' @ [NL]) = Some (write_file ed w (Some ''f''))"
proof -
  have "command_buffer (''w f'' @ [NL]) = ''w f''" by code_simp
  moreover have "islower CHR ''w''" by (simp add: islower_def code_def)
  moreover have "nonempty_arg ''w f'' = Some ''f''" by code_simp
  ultimately show ?thesis
    using exec_letter [of "CHR ''w''" "''w f'' @ [NL]" "'' f''" fuel ed w]
    by (simp add: dispatch_def cmd_write_def Let_def)
qed

lemma exec_quit:
  assumes "\<not> ed_dirty ed"
  shows "execute_command (Suc fuel) ed w (''q'' @ [NL]) = Some (ed, w\<lparr>w_exit := Some 0\<rparr>)"
proof -
  have "command_buffer (''q'' @ [NL]) = ''q''" by code_simp
  moreover have "islower CHR ''q''" by (simp add: islower_def code_def)
  ultimately show ?thesis
    using assms exec_letter [of "CHR ''q''" "''q'' @ [NL]" "[]" fuel ed w]
    by (simp add: dispatch_def cmd_single_def Let_def)
qed

lemma main_loop_step:
  assumes "w_exit w = None" "w_in w = l @ NL # rest" "NL \<notin> set l" "NUL \<notin> set l" "length l < 1000"
    "execute_command fuel ed (w\<lparr>w_in := rest\<rparr>) (l @ [NL]) = Some (ed', w')"
  shows "main_loop fuel (Suc n) ed w = main_loop fuel n ed' w'"
  using fgets_line [OF assms(3-5), of rest] assms(1,2,6) by simp

text \<open>
  C10. A whole session: with the input \<open>a\<close>, any clean lines, a period, \<open>w f\<close> and \<open>q\<close>, the program
  writes exactly those lines into the file and ends with status 0.
\<close>

theorem session_writes_file:
  assumes "list_all clean_line xs" "''.'' \<notin> set xs" "w_in w = session_input xs" "w_writable w ''f''" "w_exit w = None"
  shows "\<exists>ed' w'. ed_main (Suc fuel) 4 [] w = Some (ed', w') \<and> w_exit w' = Some 0
    \<and> w_files w' ''f'' = Some (file_text xs) \<and> ed_lines ed' = xs"
proof -
  define w1 where "w1 = put_line ''Simple POSIX ed-like editor in C. Type commands (e.g., 'a', 'p', 'q')'' (w\<lparr>w_input_fp := True\<rparr>)"
  have w1: "ed_main (Suc fuel) 4 [] w = main_loop (Suc fuel) 4 init_editor w1" "w_exit w1 = None"
    "w_in w1 = session_input xs" "w_writable w1 ''f''" "w_input_fp w1"
    using assms(3-5) by (simp_all add: ed_main_def main_args.simps Let_def put_line_def put_def w1_def)
  let ?w2 = "w1\<lparr>w_in := file_text xs @ ''.'' @ NL # ''w f'' @ NL # ''q'' @ [NL]\<rparr>"
  have t: "text_lines (w_in ?w2) = (xs, ''w f'' @ NL # ''q'' @ [NL])"
    using text_lines_file_text [OF assms(1,2)] by simp
  obtain ed1 where ed1: "execute_command (Suc fuel) init_editor ?w2 (''a'' @ [NL]) = Some (ed1, after_text ?w2)" "ed_lines ed1 = xs"
    using exec_append_empty [of init_editor fuel ?w2] t by (auto simp: num_lines_def init_editor_def typed_def)
  have s1: "main_loop (Suc fuel) 4 init_editor w1 = main_loop (Suc fuel) 3 ed1 (after_text ?w2)"
  proof -
    have "main_loop (Suc fuel) (Suc 3) init_editor w1 = main_loop (Suc fuel) 3 ed1 (after_text ?w2)"
      using w1(2,3) ed1(1) by (intro main_loop_step [of w1 "''a''"]) (simp_all add: session_input_def)
    moreover have "(4::nat) = Suc 3" by simp
    ultimately show ?thesis by metis
  qed
  have a: "w_exit (after_text ?w2) = None" "w_in (after_text ?w2) = ''w f'' @ NL # ''q'' @ [NL]" "w_writable (after_text ?w2) ''f''"
    using w1 t by (simp_all add: after_text_def text_prompt_def)
  let ?w3 = "(after_text ?w2)\<lparr>w_in := ''q'' @ [NL]\<rparr>"
  obtain ed2 w3 where ed2: "write_file ed1 ?w3 (Some ''f'') = (ed2, w3)" "\<not> ed_dirty ed2" "ed_lines ed2 = xs"
    "w_in w3 = ''q'' @ [NL]" "w_exit w3 = None" "w_files w3 ''f'' = Some (file_text xs)"
    using a ed1(2) by (simp add: write_file_def Let_def put_line_def put_def)
  have s2: "main_loop (Suc fuel) 3 ed1 (after_text ?w2) = main_loop (Suc fuel) 2 ed2 w3"
    using a ed2(1) exec_write [of ?w3 fuel ed1] unfolding numeral_3_eq_3 numeral_2_eq_2
    by (intro main_loop_step [of _ "''w f''"]) simp_all
  have s3: "main_loop (Suc fuel) 2 ed2 w3 = main_loop (Suc fuel) 1 ed2 (w3\<lparr>w_in := [], w_exit := Some 0\<rparr>)"
    using ed2 exec_quit [of ed2 fuel "w3\<lparr>w_in := []\<rparr>"] unfolding numeral_2_eq_2 One_nat_def
    by (intro main_loop_step [of _ "''q''"]) simp_all
  show ?thesis using w1(1) s1 s2 s3 ed2 by simp
qed

theorem session_writes_file_witness:
  "\<exists>ed' w'. ed_main 1 4 [] (sample_world (session_input [''x'', ''yz''])) = Some (ed', w')
     \<and> w_files w' ''f'' = Some (''x'' @ NL # ''yz'' @ [NL])"
  using session_writes_file [of "[''x'', ''yz'']" "sample_world (session_input [''x'', ''yz''])" 0]
  by (auto simp: clean_line_def)

text \<open>
  Editing again without an argument: on an unmodified buffer with a file name, \<open>e\<close> alone passes
  \<open>ed->filename\<close> to \<open>edit_file\<close>, which frees it before opening the file: undefined behaviour.
\<close>

theorem edit_again_reads_freed_name:
  assumes "ed_filename ed = Some f" "\<not> ed_dirty ed"
  shows "execute_command (Suc n) ed w ''e'' = None"
  using assms by (simp add: command_buffer_def parse_ed_address_def parse_one_address_def address_form_def
      isspace_def isdigit_def code_def Let_def dispatch_def cmd_edit_def nonempty_arg_def space_arg_def edit_file_def islower_def)

theorem edit_again_reads_freed_name_witness:
  "execute_command 1 (init_editor\<lparr>ed_filename := Some ''f''\<rparr>) (sample_world []) ''e'' = None"
  using edit_again_reads_freed_name [of "init_editor\<lparr>ed_filename := Some ''f''\<rparr>" "''f''" 0 "sample_world []"]
  by (simp add: init_editor_def)

end
