(* ===== verification/Tr.thy ===== *)
theory Tr
  imports Prelude
begin

text \<open>
  The byte translator \<open>src/src/tr/tr.c\<close>: the expansion of its two operands (ranges, character
  classes, repetitions), the padding of the second one, the membership tables, the
  transliteration map, the option parser, and the loop that reads, maps, deletes and squeezes.
  Bytes are \<^typ>\<open>char\<close>; operands and arguments are C strings. \<open>exit(2)\<close> inside the expansion is
  \<^term>\<open>None\<close>. Opening a file fails when it does not exist or is not writable; the reads and
  writes of an open stream succeed.
\<close>

abbreviation (input) MAX_STRING :: nat where "MAX_STRING \<equiv> 65536"

section \<open>Character classes\<close>

definition isupper :: "char \<Rightarrow> bool" where "isupper c \<longleftrightarrow> 65 \<le> code c \<and> code c \<le> 90"
definition isalpha :: "char \<Rightarrow> bool" where "isalpha c \<longleftrightarrow> isupper c \<or> islower c"
definition isalnum :: "char \<Rightarrow> bool" where "isalnum c \<longleftrightarrow> isalpha c \<or> isdigit c"
definition isblank :: "char \<Rightarrow> bool" where "isblank c \<longleftrightarrow> code c = 32 \<or> code c = 9"
definition iscntrl :: "char \<Rightarrow> bool" where "iscntrl c \<longleftrightarrow> code c < 32 \<or> code c = 127"
definition isgraph :: "char \<Rightarrow> bool" where "isgraph c \<longleftrightarrow> 33 \<le> code c \<and> code c \<le> 126"
definition isprint :: "char \<Rightarrow> bool" where "isprint c \<longleftrightarrow> 32 \<le> code c \<and> code c \<le> 126"
definition ispunct :: "char \<Rightarrow> bool" where "ispunct c \<longleftrightarrow> isgraph c \<and> \<not> isalnum c"
definition isxdigit :: "char \<Rightarrow> bool" where
  "isxdigit c \<longleftrightarrow> isdigit c \<or> (65 \<le> code c \<and> code c \<le> 70) \<or> (97 \<le> code c \<and> code c \<le> 102)"

definition class_func :: "string \<Rightarrow> (char \<Rightarrow> bool) option" where
  "class_func name = map_of
     [(''alnum'', isalnum), (''alpha'', isalpha), (''blank'', isblank),
      (''cntrl'', iscntrl), (''digit'', isdigit), (''graph'', isgraph),
      (''lower'', islower), (''print'', isprint), (''punct'', ispunct),
      (''space'', isspace), (''upper'', isupper), (''xdigit'', isxdigit)] name"

definition bytes_from :: "nat \<Rightarrow> nat \<Rightarrow> string" where
  "bytes_from a b = map char_of [a..<Suc b]"

section \<open>Expanding the operands\<close>

text \<open>\<open>strstr\<close> with a two character needle: the rest of the string from the first occurrence.\<close>

fun find_pair :: "char \<Rightarrow> char \<Rightarrow> string \<Rightarrow> string option" where
  "find_pair a b [] = None"
| "find_pair a b (c # s) = (if c = a \<and> hd0 s = b then Some (c # s) else find_pair a b s)"

text \<open>\<open>strchr\<close>: the index of the first occurrence.\<close>

fun find_char :: "char \<Rightarrow> string \<Rightarrow> nat option" where
  "find_char a [] = None"
| "find_char a (c # s) = (if c = a then Some 0 else map_option Suc (find_char a s))"

text \<open>Both parsers return the rest of the operand and the buffer; \<^term>\<open>None\<close> is the result 0.\<close>

definition parse_class :: "string \<Rightarrow> string \<Rightarrow> (string \<times> string) option" where
  "parse_class s out =
     (if \<not> (hd0 s = CHR ''['' \<and> peek s 1 = CHR '':'') then None
      else case find_pair (CHR '':'') (CHR '']'') (drop 2 s) of
             None \<Rightarrow> None
           | Some e \<Rightarrow>
               (let namelen = length (drop 2 s) - length e in
                if namelen = 0 \<or> namelen \<ge> 32 then None
                else case class_func (take namelen (drop 2 s)) of
                       None \<Rightarrow> None
                     | Some func \<Rightarrow> Some (drop 2 e, take MAX_STRING (out @ filter func (bytes_from 0 255)))))"

text \<open>\<open>strtol(numbuf, &endp, 10)\<close>: the value and the rest of the string at \<open>endp\<close>. A value too
  large for a \<open>long\<close> is clipped by the library, and the caller rejects both.\<close>

definition strtol10 :: "string \<Rightarrow> int \<times> string" where
  "strtol10 s =
     (let p = dropWhile isspace s;
          q = (if hd0 p = CHR ''+'' \<or> hd0 p = CHR ''-'' then tl p else p);
          v = dec_val 0 (takeWhile isdigit q)
      in if isdigit (hd0 q) then (if hd0 p = CHR ''-'' then - v else v, dropWhile isdigit q) else (0, s))"

text \<open>The result of \<open>parse_repeat\<close>: not a repetition, the rest and the buffer, or \<open>exit(2)\<close>.\<close>

datatype repeat_res = NoRepeat | Repeat string string | TooLong

definition parse_repeat :: "string \<Rightarrow> string \<Rightarrow> bool \<Rightarrow> repeat_res" where
  "parse_repeat s out allow_pad_marker =
     (if hd0 s \<noteq> CHR ''['' then NoRepeat
      else case (find_char (CHR '']'') s, find_char (CHR ''*'') s) of
        (Some rb, Some star) \<Rightarrow>
          if star > rb then NoRepeat
          else if star = 2 then
            (let c = s ! 1 in
             if star + 1 = rb then
               (if \<not> allow_pad_marker then NoRepeat
                else if length out + 3 \<le> MAX_STRING
                then Repeat (drop (rb + 1) s) (out @ [CHR 0xFF, CHR 0xFE, c])
                else TooLong)
             else
               (let numlen = rb - (star + 1); numbuf = take numlen (drop (star + 1) s) in
                if numlen = 0 \<or> numlen \<ge> 32 then NoRepeat
                else let r = strtol10 numbuf in
                     if snd r \<noteq> [] \<or> fst r \<le> 0 \<or> fst r > int MAX_STRING then NoRepeat
                     else Repeat (drop (rb + 1) s) (take MAX_STRING (out @ replicate (nat (fst r)) c))))
          else NoRepeat
      | _ \<Rightarrow> NoRepeat)"

lemma find_pair_length: "find_pair a b s = Some e \<Longrightarrow> length e \<le> length s"
  by (induction s) (auto split: if_splits simp: le_Suc_eq)

lemma find_pair_two: "find_pair a b s = Some e \<Longrightarrow> b \<noteq> NUL \<Longrightarrow> 2 \<le> length e"
proof (induction s)
  case (Cons c s)
  then show ?case by (cases s) (auto split: if_splits)
qed simp

lemma parse_class_less: "parse_class s out = Some (s', out') \<Longrightarrow> length s' < length s"
  by (cases s) (auto simp: parse_class_def Let_def split: if_splits option.splits dest!: find_pair_length)

lemma parse_repeat_less: "parse_repeat s out a = Repeat s' out' \<Longrightarrow> length s' < length s"
  by (cases s) (auto simp: parse_repeat_def Let_def split: if_splits option.splits)

function expand_string :: "string \<Rightarrow> string \<Rightarrow> bool \<Rightarrow> string option" where
  "expand_string s out is_string2 =
     (if s = [] then Some out
      else if length out \<ge> MAX_STRING then None
      else case (if is_string2 then parse_repeat s out True else NoRepeat) of
        TooLong \<Rightarrow> None
      | Repeat s' out' \<Rightarrow> expand_string s' out' is_string2
      | NoRepeat \<Rightarrow>
          (case parse_class s out of
             Some (s', out') \<Rightarrow> expand_string s' out' is_string2
           | None \<Rightarrow>
               (case (if hd0 s = CHR ''['' \<and> peek s 1 = CHR ''='' then find_pair (CHR ''='') (CHR '']'') (drop 2 s) else None) of
                  Some e \<Rightarrow>
                    (let n = min (length s - length e + 2) (MAX_STRING - length out) in
                     expand_string (drop n s) (out @ take n s) is_string2)
                | None \<Rightarrow>
                    if peek s 1 = CHR ''-'' \<and> peek s 2 \<noteq> NUL \<and> hd0 s \<noteq> CHR ''-'' \<and> peek s 2 \<noteq> CHR ''-'' then
                      (let a = code (hd0 s); b = code (peek s 2) in
                       expand_string (drop 3 s)
                         (take MAX_STRING (out @ (if a \<le> b then bytes_from a b else bytes_from b a))) is_string2)
                    else expand_string (tl s) (out @ [hd0 s]) is_string2)))"
  by pat_completeness auto
termination
  by (relation "measure (\<lambda>(s, out, i). length s)")
    (auto dest: parse_repeat_less parse_class_less split: if_splits)

declare expand_string.simps [simp del]

text \<open>\<open>resolve_string2_padding\<close> works in place: the buffer is a map from indices, \<open>dst\<close> may run
  ahead of \<open>src\<close>. The loop returns the buffer and \<open>dst\<close>.\<close>

fun pad_to :: "(nat \<Rightarrow> char) \<Rightarrow> nat \<Rightarrow> nat \<Rightarrow> char \<Rightarrow> (nat \<Rightarrow> char)" where
  "pad_to str dst 0 c = str"
| "pad_to str dst (Suc k) c = pad_to (str(dst := c)) (Suc dst) k c"

function resolve_loop :: "(nat \<Rightarrow> char) \<Rightarrow> nat \<Rightarrow> nat \<Rightarrow> nat \<Rightarrow> nat \<Rightarrow> ((nat \<Rightarrow> char) \<times> nat) option" where
  "resolve_loop str src dst len2 len1 =
     (if src < len2 then
        (if src + 2 < len2 \<and> str src = CHR 0xFF \<and> str (src + 1) = CHR 0xFE then
           (let k = min len1 MAX_STRING - dst; c = str (src + 2) in
            if dst + k \<ge> MAX_STRING then None
            else resolve_loop (pad_to str dst k c) (src + 3) (dst + k) len2 len1)
         else if dst + 1 \<ge> MAX_STRING then None
         else resolve_loop (str(dst := str src)) (src + 1) (dst + 1) len2 len1)
      else Some (str, dst))"
  by pat_completeness auto
termination
  by (relation "measure (\<lambda>(str, src, dst, len2, len1). len2 - src)") auto

declare resolve_loop.simps [simp del]

definition resolve_string2_padding :: "string \<Rightarrow> nat \<Rightarrow> string option" where
  "resolve_string2_padding buf len1 =
     map_option (\<lambda>(str, dst). map str [0..<dst])
       (resolve_loop (\<lambda>i. if i < length buf then buf ! i else NUL) 0 0 (length buf) len1)"

section \<open>Tables\<close>

record TrOpts =
  opt_complement :: bool
  opt_delete :: bool
  opt_squeeze :: bool
  in_path :: "string option"
  out_path :: "string option"

record TrState =
  set1_buf :: string
  set2_buf :: string
  in_set1 :: "char \<Rightarrow> bool"
  in_squeeze :: "char \<Rightarrow> bool"
  map_tab :: "char \<Rightarrow> char"

text \<open>Membership of a byte in STRING1 after \<open>-c\<close>.\<close>

definition logical_set1 :: "TrOpts \<Rightarrow> (char \<Rightarrow> bool) \<Rightarrow> char \<Rightarrow> bool" where
  "logical_set1 opts in1 c = (if opt_complement opts then \<not> in1 c else in1 c)"

definition build_membership :: "TrOpts \<Rightarrow> TrState \<Rightarrow> TrState" where
  "build_membership opts st =
     (let in1 = (\<lambda>c. c \<in> set (set1_buf st)) in
      st\<lparr>in_set1 := in1,
         in_squeeze := (\<lambda>c. opt_squeeze opts \<and>
           (if opt_delete opts \<or> length (set2_buf st) > 0 then c \<in> set (set2_buf st)
            else logical_set1 opts in1 c))\<rparr>)"

definition map_pair :: "TrOpts \<Rightarrow> TrState \<Rightarrow> char \<times> char \<Rightarrow> (char \<Rightarrow> char) \<Rightarrow> (char \<Rightarrow> char)" where
  "map_pair opts st p mp = (if logical_set1 opts (in_set1 st) (fst p) then mp(fst p := snd p) else mp)"

definition build_transliteration_map :: "TrOpts \<Rightarrow> TrState \<Rightarrow> TrState" where
  "build_transliteration_map opts st =
     (let minlen = min (length (set1_buf st)) (length (set2_buf st));
          m1 = fold (map_pair opts st) (zip (set1_buf st) (set2_buf st)) id;
          m2 = (if length (set1_buf st) > minlen \<and> length (set2_buf st) > 0
                then fold (\<lambda>src. map_pair opts st (src, last (set2_buf st))) (drop minlen (set1_buf st)) m1
                else m1)
      in st\<lparr>map_tab := (if opt_delete opts then id else m2)\<rparr>)"

section \<open>The processing loop\<close>

text \<open>One byte: \<open>last_out\<close> with \<open>have_last_out\<close> is an option. The result is the byte to write, if
  any, and the new \<open>last_out\<close>.\<close>

definition tr_byte :: "TrOpts \<Rightarrow> TrState \<Rightarrow> char \<Rightarrow> char option \<Rightarrow> char option \<times> char option" where
  "tr_byte opts st uc lst =
     (let logical = logical_set1 opts (in_set1 st) uc in
      if opt_delete opts \<and> logical then (None, lst)
      else let uc' = (if \<not> opt_delete opts \<and> logical then map_tab st uc else uc) in
           if opt_squeeze opts \<and> in_squeeze st uc' then
             (if lst = Some uc' then (None, lst) else (Some uc', Some uc'))
           else (Some uc', None))"

text \<open>The inner loop over a block: \<open>out\<close> has been written, \<open>outbuf\<close> is the output buffer, which is
  written out when it is full.\<close>

fun tr_block :: "TrOpts \<Rightarrow> TrState \<Rightarrow> string \<Rightarrow> string \<Rightarrow> string \<Rightarrow> char option \<Rightarrow> string \<times> string \<times> char option" where
  "tr_block opts st [] out outbuf lst = (out, outbuf, lst)"
| "tr_block opts st (uc # inp) out outbuf lst =
     (case tr_byte opts st uc lst of
        (None, lst') \<Rightarrow> tr_block opts st inp out outbuf lst'
      | (Some b, lst') \<Rightarrow>
          if length outbuf < 4096 then tr_block opts st inp out (outbuf @ [b]) lst'
          else tr_block opts st inp (out @ outbuf) [b] lst')"

function tr_loop :: "TrOpts \<Rightarrow> TrState \<Rightarrow> string \<Rightarrow> string \<Rightarrow> char option \<Rightarrow> string" where
  "tr_loop opts st inp out lst =
     (if inp = [] then out
      else case tr_block opts st (take 4096 inp) out [] lst of
             (out', outbuf, lst') \<Rightarrow> tr_loop opts st (drop 4096 inp) (out' @ outbuf) lst')"
  by pat_completeness auto
termination
  by (relation "measure (\<lambda>(opts, st, inp, out, lst). length inp)") auto

declare tr_loop.simps [simp del]

section \<open>The main program\<close>

definition usage :: string where
  "usage = ''usage: tr [-cds] [-i file] [-o file] string1 [string2]'' @ [CHR 0x0A]"

definition tr_msg :: "string \<Rightarrow> string" where
  "tr_msg s = ''tr: '' @ s @ [CHR 0x0A]"

text \<open>The option characters of \<open>argv[i]\<close> from index \<open>j\<close>. After the file name of \<open>-i\<close> or \<open>-o\<close> the
  loop goes on in the file name itself, at the next index; a read past its end is undefined. The
  inner result is the message of a return with status 2, or the options and \<open>i\<close>.\<close>

function opt_chars :: "string list \<Rightarrow> nat \<Rightarrow> int \<Rightarrow> TrOpts \<Rightarrow> (string + TrOpts \<times> nat) option" where
  "opt_chars argv i j opts =
     (if i \<ge> length argv then None
      else do {
        ch \<leftarrow> cstr_at (argv ! i) j;
        nxt \<leftarrow> (if ch = NUL then Some NUL else cstr_at (argv ! i) (j + 1));
        (if ch = NUL then Some (Inr (opts, i))
         else if ch = CHR ''c'' then opt_chars argv i (j + 1) (opts\<lparr>opt_complement := True\<rparr>)
         else if ch = CHR ''d'' then opt_chars argv i (j + 1) (opts\<lparr>opt_delete := True\<rparr>)
         else if ch = CHR ''s'' then opt_chars argv i (j + 1) (opts\<lparr>opt_squeeze := True\<rparr>)
         else if ch = CHR ''i'' then
           (if nxt \<noteq> NUL then Some (Inl (tr_msg ''option '-i' requires an argument'' @ usage))
            else if i + 1 \<ge> length argv then Some (Inl (tr_msg ''missing argument for -i'' @ usage))
            else opt_chars argv (i + 1) (j + 1) (opts\<lparr>in_path := Some (argv ! (i + 1))\<rparr>))
         else if ch = CHR ''o'' then
           (if nxt \<noteq> NUL then Some (Inl (tr_msg ''option '-o' requires an argument'' @ usage))
            else if i + 1 \<ge> length argv then Some (Inl (tr_msg ''missing argument for -o'' @ usage))
            else opt_chars argv (i + 1) (j + 1) (opts\<lparr>out_path := Some (argv ! (i + 1))\<rparr>))
         else Some (Inl (tr_msg (''invalid option -- '' @ [CHR 0x27, ch, CHR 0x27]) @ usage))) })"
  by pat_completeness auto
termination
  by (relation "measures [\<lambda>(argv, i, j, opts). length argv - i, \<lambda>(argv, i, j, opts). nat (int (length (argv ! i)) - j)]")
    (auto dest: cstr_at_inside)

declare opt_chars.simps [simp del]

lemma opt_chars_index: "opt_chars argv i j opts = Some (Inr (opts', i')) \<Longrightarrow> i \<le> i' \<and> i' < length argv"
proof (induction argv i j opts rule: opt_chars.induct)
  case (1 argv i j opts)
  note p = 1(6) [unfolded opt_chars.simps [of argv i j opts]]
  then have i: "\<not> length argv \<le> i" by (simp split: if_split_asm)
  obtain ch nxt where c: "cstr_at (argv ! i) j = Some ch"
    "(if ch = NUL then Some NUL else cstr_at (argv ! i) (j + 1)) = Some nxt"
    using p i by (simp add: bind_eq_Some_conv) blast
  note IH = 1(1-5) [OF i c]
  show ?case
    using p i by (simp add: c IH(1-3) split: if_split_asm) (use IH(4,5) in fastforce)+
qed

text \<open>The loop over the arguments from index \<open>i\<close>.\<close>

function parse_opts :: "string list \<Rightarrow> nat \<Rightarrow> TrOpts \<Rightarrow> (string + TrOpts \<times> nat) option" where
  "parse_opts argv i opts =
     (if i \<ge> length argv then Some (Inr (opts, i))
      else if hd0 (argv ! i) \<noteq> CHR ''-'' \<or> peek (argv ! i) 1 = NUL then Some (Inr (opts, i))
      else if argv ! i = ''--'' then Some (Inr (opts, i + 1))
      else (case opt_chars argv i 1 opts of
              None \<Rightarrow> None
            | Some (Inl e) \<Rightarrow> Some (Inl e)
            | Some (Inr (opts', i')) \<Rightarrow> parse_opts argv (i' + 1) opts'))"
  by pat_completeness auto
termination
  by (relation "measure (\<lambda>(argv, i, opts). length argv - i)") (auto dest: opt_chars_index)

declare parse_opts.simps [simp del]

record TrResult =
  tr_status :: int
  tr_stdout :: string
  tr_stderr :: string
  tr_files :: "string \<Rightarrow> string option"

definition tr_fail :: "int \<Rightarrow> string \<Rightarrow> (string \<Rightarrow> string option) \<Rightarrow> TrResult" where
  "tr_fail n e files = \<lparr>tr_status = n, tr_stdout = [], tr_stderr = e, tr_files = files\<rparr>"

text \<open>The tables from the two operands; \<^term>\<open>None\<close> is \<open>exit(2)\<close> in an expansion.\<close>

definition tr_tables :: "TrOpts \<Rightarrow> string \<Rightarrow> string option \<Rightarrow> TrState option" where
  "tr_tables opts s1 s2 = do {
     b1 \<leftarrow> expand_string s1 [] False;
     b2 \<leftarrow> (case s2 of
              None \<Rightarrow> Some []
            | Some s \<Rightarrow> do { b \<leftarrow> expand_string s [] True; resolve_string2_padding b (length b1) });
     let st = build_membership opts
       \<lparr>set1_buf = b1, set2_buf = b2, in_set1 = (\<lambda>c. False), in_squeeze = (\<lambda>c. False), map_tab = id\<rparr>;
     Some (if \<not> opt_delete opts then build_transliteration_map opts st else st) }"

definition tr_run :: "TrOpts \<Rightarrow> string \<Rightarrow> string option \<Rightarrow> string \<Rightarrow> string option" where
  "tr_run opts s1 s2 inp = do {
     st \<leftarrow> tr_tables opts s1 s2;
     Some (tr_loop opts st inp [] None) }"

definition no_opts :: TrOpts where
  "no_opts = \<lparr>opt_complement = False, opt_delete = False, opt_squeeze = False, in_path = None, out_path = None\<rparr>"

text \<open>\<open>main\<close> on \<open>argv\<close>, the standard input, the files and the paths that can be written. An output
  file is created before the operands are expanded.\<close>

definition tr_main ::
  "string list \<Rightarrow> string \<Rightarrow> (string \<Rightarrow> string option) \<Rightarrow> (string \<Rightarrow> bool) \<Rightarrow> TrResult option" where
  "tr_main argv stdin files writable = do {
     r \<leftarrow> parse_opts argv 1 no_opts;
     (case r of
        Inl e \<Rightarrow> Some (tr_fail 2 e files)
      | Inr (opts, i) \<Rightarrow>
          if i \<ge> length argv then Some (tr_fail 2 (tr_msg ''missing operand'' @ usage) files)
          else
            (let s1 = argv ! i;
                 s2 = (if i + 1 < length argv then Some (argv ! (i + 1)) else None);
                 i' = (if s2 = None then i + 1 else i + 2) in
             if \<not> opt_delete opts \<and> s2 = None
             then Some (tr_fail 2 (tr_msg ''missing second operand'' @ usage) files)
             else if i' < length argv
             then Some (tr_fail 2 (tr_msg (''extra operand '' @ [CHR 0x27] @ argv ! i' @ [CHR 0x27]) @ usage) files)
             else if in_path opts \<noteq> None \<and> files (the (in_path opts)) = None
             then Some (tr_fail 1 (tr_msg (''cannot open '' @ [CHR 0x27] @ the (in_path opts) @ [CHR 0x27] @
                    '' for reading: No such file or directory'')) files)
             else if out_path opts \<noteq> None \<and> \<not> writable (the (out_path opts))
             then Some (tr_fail 1 (tr_msg (''cannot open '' @ [CHR 0x27] @ the (out_path opts) @ [CHR 0x27] @
                    '' for writing: Permission denied'')) files)
             else
               (let files' = (case out_path opts of None \<Rightarrow> files | Some p \<Rightarrow> files(p \<mapsto> []));
                    inp = (case in_path opts of None \<Rightarrow> stdin
                           | Some p \<Rightarrow> (case files' p of None \<Rightarrow> [] | Some s \<Rightarrow> s)) in
                case tr_run opts s1 s2 inp of
                  None \<Rightarrow> Some (tr_fail 2 (tr_msg ''input string too long'') files')
                | Some out \<Rightarrow>
                    Some (case out_path opts of
                        None \<Rightarrow> \<lparr>tr_status = 0, tr_stdout = out, tr_stderr = [], tr_files = files'\<rparr>
                      | Some p \<Rightarrow> \<lparr>tr_status = 0, tr_stdout = [], tr_stderr = [], tr_files = files'(p \<mapsto> out)\<rparr>)))) }"

end
