(* ===== verification/TrProps.thy ===== *)
theory TrProps
  imports Tr
begin

text \<open>
  What \<open>tr\<close> does to its input: deletion is a filter, transliteration a map, squeezing leaves no
  doubled byte of the squeeze set, none of it depends on the blocks the input is read in, and the
  operand buffers never overflow; and the places where the program departs from its own
  description.
\<close>

section \<open>The loop is a function of the whole input\<close>

fun tr_stream :: "TrOpts \<Rightarrow> TrState \<Rightarrow> string \<Rightarrow> char option \<Rightarrow> string" where
  "tr_stream opts st [] lst = []"
| "tr_stream opts st (c # inp) lst =
     (case fst (tr_byte opts st c lst) of None \<Rightarrow> [] | Some b \<Rightarrow> [b]) @ tr_stream opts st inp (snd (tr_byte opts st c lst))"

definition last_after :: "TrOpts \<Rightarrow> TrState \<Rightarrow> string \<Rightarrow> char option \<Rightarrow> char option" where
  "last_after opts st inp lst = fold (\<lambda>c l. snd (tr_byte opts st c l)) inp lst"

lemma tr_stream_append:
  "tr_stream opts st (xs @ ys) lst = tr_stream opts st xs lst @ tr_stream opts st ys (last_after opts st xs lst)"
  by (induction xs arbitrary: lst) (simp_all add: last_after_def)

lemma tr_block_eq:
  "\<exists>o1 o2. tr_block opts st inp out outbuf lst = (o1, o2, last_after opts st inp lst)
     \<and> o1 @ o2 = out @ outbuf @ tr_stream opts st inp lst"
proof (induction inp arbitrary: out outbuf lst)
  case (Cons c inp)
  obtain b lst' where b: "tr_byte opts st c lst = (b, lst')" by (cases "tr_byte opts st c lst")
  show ?case
  proof (cases b)
    case None
    then show ?thesis using Cons [of out outbuf lst'] b by (simp add: last_after_def)
  next
    case (Some x)
    then show ?thesis
      using Cons [of out "outbuf @ [x]" lst'] Cons [of "out @ outbuf" "[x]" lst'] b
      by (cases "length outbuf < 4096") (simp_all add: last_after_def)
  qed
qed (simp add: last_after_def)

lemma tr_loop_eq: "tr_loop opts st inp out lst = out @ tr_stream opts st inp lst"
proof (induction "length inp" arbitrary: inp out lst rule: less_induct)
  case less
  show ?case
  proof (cases "inp = []")
    case True
    then show ?thesis by (simp add: tr_loop.simps)
  next
    case False
    obtain o1 o2 where o: "tr_block opts st (take 4096 inp) out [] lst = (o1, o2, last_after opts st (take 4096 inp) lst)"
      "o1 @ o2 = out @ tr_stream opts st (take 4096 inp) lst"
      using tr_block_eq [of opts st "take 4096 inp" out "[]" lst] by auto
    have "tr_loop opts st inp out lst = tr_loop opts st (drop 4096 inp) (o1 @ o2) (last_after opts st (take 4096 inp) lst)"
      using False o(1) by (subst tr_loop.simps) simp
    also have "\<dots> = (o1 @ o2) @ tr_stream opts st (drop 4096 inp) (last_after opts st (take 4096 inp) lst)"
      using False by (intro less) simp
    also have "\<dots> = out @ tr_stream opts st (take 4096 inp @ drop 4096 inp) lst"
      unfolding o(2) tr_stream_append by simp
    finally show ?thesis by simp
  qed
qed

section \<open>Operands\<close>

text \<open>An operand without brackets and dashes stands for itself.\<close>

lemma expand_literals:
  "list_all (\<lambda>c. c \<noteq> CHR ''['' \<and> c \<noteq> CHR ''-'') s \<Longrightarrow> length out + length s \<le> MAX_STRING \<Longrightarrow>
   expand_string s out b = Some (out @ s)"
proof (induction s arbitrary: out)
  case (Cons c s)
  have "peek (c # s) 1 \<noteq> CHR ''-''" using Cons.prems(1) by (cases s) auto
  then show ?case
    using Cons by (subst expand_string.simps, cases b) (simp_all add: parse_class_def parse_repeat_def)
qed (simp add: expand_string.simps)

lemma resolve_plain:
  assumes "list_all (\<lambda>c. c \<noteq> CHR 0xFF) b" "length b < MAX_STRING"
  shows "resolve_string2_padding b n = Some b"
proof -
  define f where "f = (\<lambda>i. if i < length b then b ! i else NUL)"
  have step: "resolve_loop f k k (length b) n = Some (f, length b)" if "k \<le> length b" for k
    using that
  proof (induction "length b - k" arbitrary: k)
    case (Suc d)
    then have "f k \<noteq> CHR 0xFF" using assms(1) by (auto simp: f_def list_all_length)
    moreover have "resolve_loop f (k + 1) (k + 1) (length b) n = Some (f, length b)" using Suc by simp
    ultimately show ?case
      using Suc assms(2) by (subst resolve_loop.simps) simp
  qed (subst resolve_loop.simps, simp)
  have "map f [0..<length b] = b" by (rule nth_equalityI) (simp_all add: f_def)
  then show ?thesis
    using step [of 0] by (simp add: resolve_string2_padding_def flip: f_def)
qed

section \<open>Tables\<close>

lemma tr_run_stream:
  assumes "tr_run opts s1 s2 inp = Some out"
  obtains st where "tr_tables opts s1 s2 = Some st" "out = tr_stream opts st inp None"
  using assms by (auto simp: tr_run_def bind_eq_Some_conv tr_loop_eq)

lemma tr_tables_cases:
  assumes "tr_tables opts s1 s2 = Some st"
  obtains b1 b2 st0 where "expand_string s1 [] False = Some b1"
    "(case s2 of None \<Rightarrow> Some [] | Some s \<Rightarrow> do { b \<leftarrow> expand_string s [] True; resolve_string2_padding b (length b1) }) = Some b2"
    "st0 = build_membership opts
       \<lparr>set1_buf = b1, set2_buf = b2, in_set1 = (\<lambda>c. False), in_squeeze = (\<lambda>c. False), map_tab = id\<rparr>"
    "st = (if \<not> opt_delete opts then build_transliteration_map opts st0 else st0)"
proof -
  let ?c2 = "\<lambda>b1. case s2 of None \<Rightarrow> Some [] | Some s \<Rightarrow> do { b \<leftarrow> expand_string s [] True; resolve_string2_padding b (length b1) }"
  obtain b1 where b1: "expand_string s1 [] False = Some b1"
    using assms by (auto simp: tr_tables_def bind_eq_Some_conv)
  obtain b2 where b2: "?c2 b1 = Some b2"
    using assms b1 by (cases "?c2 b1") (simp_all add: tr_tables_def)
  show ?thesis
    by (rule that [OF b1 b2 refl]) (use assms b1 b2 in \<open>simp add: tr_tables_def Let_def\<close>)
qed

lemma build_map_fields [simp]:
  "set1_buf (build_transliteration_map opts st) = set1_buf st" "set2_buf (build_transliteration_map opts st) = set2_buf st"
  "in_set1 (build_transliteration_map opts st) = in_set1 st" "in_squeeze (build_transliteration_map opts st) = in_squeeze st"
  by (simp_all add: build_transliteration_map_def Let_def)

lemma build_membership_fields [simp]:
  "set1_buf (build_membership opts st) = set1_buf st" "set2_buf (build_membership opts st) = set2_buf st"
  "in_set1 (build_membership opts st) = (\<lambda>c. c \<in> set (set1_buf st))"
  by (simp_all add: build_membership_def Let_def)

lemma tables_set1: "tr_tables opts s1 s2 = Some st \<Longrightarrow> expand_string s1 [] False = Some (set1_buf st)"
  by (elim tr_tables_cases) auto

lemma tables_in_set1: "tr_tables opts s1 s2 = Some st \<Longrightarrow> in_set1 st = (\<lambda>c. c \<in> set (set1_buf st))"
  by (elim tr_tables_cases) auto

lemma tables_squeeze: "tr_tables opts s1 s2 = Some st \<Longrightarrow> in_squeeze st = (\<lambda>c. opt_squeeze opts \<and>
    (if opt_delete opts \<or> length (set2_buf st) > 0 then c \<in> set (set2_buf st)
     else logical_set1 opts (\<lambda>c. c \<in> set (set1_buf st)) c))"
  by (elim tr_tables_cases) (auto simp: build_membership_def Let_def)

lemma map_tab_eq:
  assumes "tr_tables opts s1 s2 = Some st" "\<not> opt_delete opts"
  shows "map_tab st =
    (let m1 = fold (map_pair opts st) (zip (set1_buf st) (set2_buf st)) id
     in if length (set1_buf st) > min (length (set1_buf st)) (length (set2_buf st)) \<and> length (set2_buf st) > 0
        then fold (\<lambda>src. map_pair opts st (src, last (set2_buf st)))
               (drop (min (length (set1_buf st)) (length (set2_buf st))) (set1_buf st)) m1
        else m1)"
proof -
  have mp: "map_pair opts (st0\<lparr>map_tab := f\<rparr>) = map_pair opts st0" for st0 f
    by (intro ext) (simp add: map_pair_def)
  obtain st0 where "st = build_transliteration_map opts st0"
    using assms by (elim tr_tables_cases) auto
  then show ?thesis
    using assms(2) by (simp add: build_transliteration_map_def Let_def mp)
qed

section \<open>Deleting and transliterating\<close>

lemma tr_byte_delete:
  "opt_delete opts \<Longrightarrow> \<not> opt_squeeze opts \<Longrightarrow> tr_stream opts st inp lst = filter (\<lambda>c. \<not> logical_set1 opts (in_set1 st) c) inp"
  by (induction inp arbitrary: lst) (auto simp: tr_byte_def)

lemma tr_byte_map:
  "\<not> opt_delete opts \<Longrightarrow> \<not> opt_squeeze opts \<Longrightarrow>
   tr_stream opts st inp lst = map (\<lambda>c. if logical_set1 opts (in_set1 st) c then map_tab st c else c) inp"
  by (induction inp arbitrary: lst) (auto simp: tr_byte_def Let_def)

text \<open>
  Delete: with \<open>-d\<close> and without \<open>-s\<close> the output is the input without the bytes of STRING1, or
  with \<open>-c\<close> without all other bytes.
\<close>

theorem delete_is_filter:
  assumes "opt_delete opts" "\<not> opt_squeeze opts" "expand_string s1 [] False = Some b1" "tr_run opts s1 s2 inp = Some out"
  shows "out = filter (\<lambda>c. (c \<in> set b1) = opt_complement opts) inp"
proof -
  obtain st where st: "tr_tables opts s1 s2 = Some st" "out = tr_stream opts st inp None"
    using tr_run_stream [OF assms(4)] .
  then have "in_set1 st = (\<lambda>c. c \<in> set b1)" using tables_in_set1 tables_set1 assms(3) by fastforce
  then show ?thesis using st(2) assms(1,2) by (auto simp: tr_byte_delete logical_set1_def intro!: filter_cong)
qed

theorem delete_is_filter_witness:
  "filter (\<lambda>c. (c \<in> set ''ab'') = False) ''xaby'' = ''xy''
   \<and> tr_run (no_opts\<lparr>opt_delete := True\<rparr>) ''ab'' None ''xaby'' = Some ''xy''"
proof -
  have e: "expand_string ''ab'' [] False = Some ''ab''" by (simp add: expand_literals)
  then obtain out where o: "tr_run (no_opts\<lparr>opt_delete := True\<rparr>) ''ab'' None ''xaby'' = Some out"
    by (simp add: tr_run_def tr_tables_def)
  then show ?thesis using delete_is_filter [OF _ _ e o] by (simp add: no_opts_def)
qed

lemma map_pair_id:
  assumes "opt_complement opts" "in_set1 st = (\<lambda>c. c \<in> set b1)" "set (map fst ps) \<subseteq> set b1"
  shows "fold (map_pair opts st) ps f = f"
  using assms(3) by (induction ps arbitrary: f) (use assms(1,2) in \<open>auto simp: map_pair_def logical_set1_def\<close>)

text \<open>
  With \<open>-c\<close> and without \<open>-d\<close> the transliteration map is only ever filled at the bytes of
  STRING1, which are exactly the ones it is not used for: the output is the input.
\<close>

theorem complement_translates_nothing:
  assumes "opt_complement opts" "\<not> opt_delete opts" "\<not> opt_squeeze opts" "tr_run opts s1 s2 inp = Some out"
  shows "out = inp"
proof -
  obtain st where st: "tr_tables opts s1 s2 = Some st" "out = tr_stream opts st inp None"
    using tr_run_stream [OF assms(4)] .
  obtain b1 where b1: "in_set1 st = (\<lambda>c. c \<in> set b1)" "set1_buf st = b1"
    using tables_in_set1 [OF st(1)] by blast
  have p1: "fold (map_pair opts st) (zip b1 b2) f = f" for b2 f
    by (rule map_pair_id [OF assms(1) b1(1)]) (auto dest: set_zip_leftD)
  have p2: "fold (\<lambda>src. map_pair opts st (src, l)) (drop n b1) f = f" for l n f
  proof -
    have "fold (\<lambda>src. map_pair opts st (src, l)) (drop n b1) f = fold (map_pair opts st) (map (\<lambda>src. (src, l)) (drop n b1)) f"
      by (simp add: fold_map comp_def)
    also have "\<dots> = f" by (rule map_pair_id [OF assms(1) b1(1)]) (auto dest: in_set_dropD)
    finally show ?thesis .
  qed
  have "map_tab st = id"
    using map_tab_eq [OF st(1) assms(2)] by (simp add: b1(2) p1 p2 Let_def)
  then show ?thesis using st(2) assms(2,3) by (simp add: tr_byte_map map_idI)
qed

theorem complement_translates_nothing_witness:
  "tr_run (no_opts\<lparr>opt_complement := True\<rparr>) ''a'' (Some ''x'') ''abc'' = Some ''abc''"
proof -
  obtain out where o: "tr_run (no_opts\<lparr>opt_complement := True\<rparr>) ''a'' (Some ''x'') ''abc'' = Some out"
    by (simp add: tr_run_def tr_tables_def expand_literals resolve_plain Let_def)
  have "out = ''abc''"
    by (rule complement_translates_nothing [OF _ _ _ o]) (simp_all add: no_opts_def)
  then show ?thesis using o by simp
qed

text \<open>The map on the bytes of STRING1 when they are distinct.\<close>

lemma fold_pairs_other: "c \<notin> set xs \<Longrightarrow> fold (map_pair opts st) (zip xs ys) f c = f c"
proof (induction xs arbitrary: ys f)
  case (Cons x xs)
  then show ?case by (cases ys) (auto simp: map_pair_def)
qed simp

lemma fold_pairs_at:
  assumes "distinct xs" "i < length xs" "i < length ys" "\<And>c. c \<in> set xs \<Longrightarrow> logical_set1 opts (in_set1 st) c"
  shows "fold (map_pair opts st) (zip xs ys) f (xs ! i) = ys ! i"
  using assms
proof (induction xs arbitrary: ys f i)
  case (Cons x xs)
  then obtain y ys' where ys: "ys = y # ys'" by (cases ys) auto
  show ?case
  proof (cases i)
    case 0
    then show ?thesis using Cons.prems ys by (simp add: fold_pairs_other) (simp add: map_pair_def)
  next
    case (Suc j)
    then show ?thesis using Cons.prems ys Cons.IH [of j ys'] by simp
  qed
qed simp

lemma fold_last: "fold (\<lambda>src. map_pair opts st (src, l)) xs f = fold (map_pair opts st) (zip xs (replicate (length xs) l)) f"
  by (induction xs arbitrary: f) simp_all

text \<open>STRING2 extended with its last byte to the length of STRING1.\<close>

definition extended :: "string \<Rightarrow> nat \<Rightarrow> char" where
  "extended b2 i = (if i < length b2 then b2 ! i else last b2)"

lemma map_tab_distinct:
  assumes "tr_tables opts s1 s2 = Some st" "\<not> opt_delete opts" "\<not> opt_complement opts" "distinct (set1_buf st)"
    "set2_buf st \<noteq> []" "i < length (set1_buf st)"
  shows "map_tab st (set1_buf st ! i) = extended (set2_buf st) i"
proof -
  let ?b1 = "set1_buf st" and ?b2 = "set2_buf st"
  let ?n = "min (length ?b1) (length ?b2)"
  have l: "logical_set1 opts (in_set1 st) c" if "c \<in> set ?b1" for c
    using tables_in_set1 [OF assms(1)] assms(3) that by (simp add: logical_set1_def)
  show ?thesis
  proof (cases "i < length ?b2")
    case True
    then have m1: "fold (map_pair opts st) (zip ?b1 ?b2) id (?b1 ! i) = ?b2 ! i"
      using assms(4,6) l by (intro fold_pairs_at)
    have "?b1 ! i \<notin> set (drop ?n ?b1)"
      using assms(4,6) True by (auto simp: in_set_conv_nth distinct_conv_nth)
    then show ?thesis
      using map_tab_eq [OF assms(1,2)] m1 True by (auto simp: Let_def fold_last fold_pairs_other extended_def)
  next
    case False
    then have n: "?n = length ?b2" "i - ?n < length (drop ?n ?b1)" "drop ?n ?b1 ! (i - ?n) = ?b1 ! i"
      using assms(6) by auto
    have "fold (map_pair opts st) (zip (drop ?n ?b1) (replicate (length (drop ?n ?b1)) (last ?b2))) f (drop ?n ?b1 ! (i - ?n))
        = replicate (length (drop ?n ?b1)) (last ?b2) ! (i - ?n)" for f
      using assms(4) n(2) l by (intro fold_pairs_at) (auto dest: in_set_dropD)
    then show ?thesis
      using map_tab_eq [OF assms(1,2)] n False assms(5,6) by (simp add: Let_def fold_last extended_def)
  qed
qed

lemma tr_run_translates:
  assumes "\<not> opt_delete opts" "\<not> opt_squeeze opts" "\<not> opt_complement opts" "tr_run opts s1 s2 inp = Some out"
  obtains st where "tr_tables opts s1 s2 = Some st" "out = map (\<lambda>c. if c \<in> set (set1_buf st) then map_tab st c else c) inp"
proof -
  obtain st where st: "tr_tables opts s1 s2 = Some st" "out = tr_stream opts st inp None"
    using tr_run_stream [OF assms(4)] .
  show ?thesis
    by (rule that [OF st(1)]) (use st assms(1-3) tables_in_set1 [OF st(1)] in \<open>simp add: tr_byte_map logical_set1_def\<close>)
qed

lemma tables_set2:
  assumes "tr_tables opts s1 (Some s2) = Some st" "expand_string s2 [] True = Some b2" "list_all (\<lambda>c. c \<noteq> CHR 0xFF) b2"
    "length b2 < MAX_STRING"
  shows "set2_buf st = b2"
  using assms(1) resolve_plain [OF assms(3,4)] assms(2) by (elim tr_tables_cases) (auto split: if_splits)


lemma tr_run_exists:
  assumes "list_all (\<lambda>c. c \<noteq> CHR ''['' \<and> c \<noteq> CHR ''-'') s1" "list_all (\<lambda>c. c \<noteq> CHR ''['' \<and> c \<noteq> CHR ''-'' \<and> c \<noteq> CHR 0xFF) s2"
    "length s1 < MAX_STRING" "length s2 < MAX_STRING"
  shows "\<exists>st out. tr_run opts s1 (Some s2) inp = Some out \<and> expand_string s1 [] False = Some s1
    \<and> expand_string s2 [] True = Some s2 \<and> tr_tables opts s1 (Some s2) = Some st"
proof -
  have e: "expand_string s1 [] False = Some s1" "expand_string s2 [] True = Some s2"
    using assms expand_literals [of s1 "[]" False] expand_literals [of s2 "[]" True] by (simp_all add: list_all_iff)
  moreover have "resolve_string2_padding s2 n = Some s2" for n
    using assms by (intro resolve_plain) (auto simp: list_all_iff)
  ultimately show ?thesis by (simp add: tr_run_def tr_tables_def Let_def)
qed


section \<open>Squeezing\<close>

lemma stream_no_double:
  assumes "opt_squeeze opts"
  shows "successively (\<lambda>a b. \<not> (a = b \<and> in_squeeze st a)) (tr_stream opts st inp lst)
    \<and> (\<forall>b. lst = Some b \<longrightarrow> in_squeeze st b \<longrightarrow> tr_stream opts st inp lst \<noteq> [] \<longrightarrow> hd (tr_stream opts st inp lst) \<noteq> b)"
proof (induction inp arbitrary: lst)
  case (Cons c inp)
  obtain b lst' where b: "tr_byte opts st c lst = (b, lst')" by (cases "tr_byte opts st c lst")
  show ?case
  proof (cases b)
    case None
    then have "lst' = lst" using b by (auto simp: tr_byte_def Let_def split: if_splits)
    then have "tr_stream opts st (c # inp) lst = tr_stream opts st inp lst" using None b by simp
    then show ?thesis using Cons [of lst] by metis
  next
    case (Some x)
    have "in_squeeze st x \<longrightarrow> lst' = Some x \<and> lst \<noteq> Some x" "\<not> in_squeeze st x \<longrightarrow> lst' = None"
      using b Some assms by (auto simp: tr_byte_def Let_def split: if_splits)
    then show ?thesis
      using Cons [of lst'] Some b by (cases "tr_stream opts st inp lst'") auto
  qed
qed simp



section \<open>Bounds and padding\<close>

lemma parse_class_bound: "parse_class s out = Some (s', out') \<Longrightarrow> length out' \<le> MAX_STRING"
  by (auto simp: parse_class_def Let_def split: if_splits option.splits)

lemma parse_repeat_bound: "parse_repeat s out a = Repeat s' out' \<Longrightarrow> length out' \<le> MAX_STRING"
  by (auto simp: parse_repeat_def Let_def split: if_splits option.splits)

text \<open>
  The operand buffer never overflows: whatever the operand, the expansion exits or returns at
  most 65536 bytes.
\<close>

theorem expansion_bounded:
  assumes "expand_string s out b = Some r" "length out \<le> MAX_STRING"
  shows "length r \<le> MAX_STRING"
  using assms
proof (induction s out b rule: expand_string.induct)
  case (1 s out b)
  note p = 1(6) [unfolded expand_string.simps [of s out b]]
  show ?case
  proof (cases "s = []")
    case True
    then show ?thesis using p 1(7) by simp
  next
    case s: False
    then have l: "\<not> length out \<ge> MAX_STRING" using p by auto
    let ?rep = "if b then parse_repeat s out True else NoRepeat"
    show ?thesis
    proof (cases ?rep)
      case (Repeat s' out')
      then have "expand_string s' out' b = Some r" "length out' \<le> MAX_STRING"
        using p s l parse_repeat_bound by (auto split: if_splits)
      then show ?thesis using 1(5) [OF s l Repeat] by blast
    next
      case TooLong
      then show ?thesis using p s l by (simp split: if_splits)
    next
      case NoRepeat
      note n = NoRepeat
      show ?thesis
      proof (cases "parse_class s out")
        case (Some x)
        obtain s' out' where x: "x = (s', out')" by (cases x)
        then have "expand_string s' out' b = Some r" using p s l n Some by simp
        then show ?thesis using 1(4) [OF s l n Some x [symmetric]] parse_class_bound Some x by blast
      next
        case None
        note c = None
        let ?e = "if hd0 s = CHR ''['' \<and> peek s 1 = CHR ''='' then find_pair (CHR ''='') (CHR '']'') (drop 2 s) else None"
        show ?thesis
        proof (cases ?e)
          case (Some e)
          let ?n = "min (length s - length e + 2) (MAX_STRING - length out)"
          have "expand_string (drop ?n s) (out @ take ?n s) b = Some r" using p s l n c Some by (simp add: Let_def)
          then show ?thesis using 1(3) [OF s l n c Some refl] l by simp
        next
          case None
          show ?thesis
            using p s l 1(1) [OF s l n c None _ refl refl] 1(2) [OF s l n c None] n c None by (auto simp: Let_def split: if_splits)
        qed
      qed
    qed
  qed
qed

theorem expansion_bounded_witness:
  "expand_string ''ab'' [] False = Some ''ab'' \<and> length ''ab'' \<le> MAX_STRING"
proof -
  have "expand_string ''ab'' [] False = Some ''ab''" by (simp add: expand_literals)
  from expansion_bounded [OF this] this show ?thesis by simp
qed

lemma bytes_from_length: "length (bytes_from i j) = Suc j - i"
  by (simp add: bytes_from_def del: upt_Suc)

text \<open>
  Ranges: an operand \<open>x-y\<close> stands for the bytes from \<open>x\<close> to \<open>y\<close> in order, or from \<open>y\<close> to \<open>x\<close>
  when they are given the other way round.
\<close>

theorem range_expands:
  assumes "x \<noteq> CHR ''-''" "y \<noteq> CHR ''-''" "x \<noteq> CHR ''[''" "y \<noteq> NUL"
  shows "expand_string [x, CHR ''-'', y] [] b = Some (bytes_from (min (code x) (code y)) (max (code x) (code y)))"
proof -
  have c: "code z < 256" for z by (simp add: code_def)
  have e: "expand_string [] out b = Some out" for out by (simp add: expand_string.simps)
  have t: "take MAX_STRING (bytes_from i j) = bytes_from i j" if "j < 256" for i j
    by (rule take_all) (use that in \<open>simp add: bytes_from_length\<close>)
  have p: "peek [x, CHR ''-'', y] 1 = CHR ''-''" "peek [x, CHR ''-'', y] 2 = y"
    "drop 3 [x, CHR ''-'', y] = []"
    by (simp_all add: peek_def)
  have n: "(if b then parse_repeat [x, CHR ''-'', y] [] True else NoRepeat) = NoRepeat"
    "parse_class [x, CHR ''-'', y] [] = None"
    using assms(3) by (simp_all add: parse_class_def parse_repeat_def)
  show ?thesis
    unfolding expand_string.simps [of "[x, CHR ''-'', y]"] n p
    using assms c [of x] c [of y] by (simp add: t e Let_def min_def max_def)
qed

theorem range_expands_witness: "expand_string ''c-a'' [] False = Some ''abc''"
proof -
  have "bytes_from (min (code CHR ''c'') (code CHR ''a'')) (max (code CHR ''c'') (code CHR ''a'')) = ''abc''" by code_simp
  then show ?thesis using range_expands [of "CHR ''c''" "CHR ''a''" False] by simp
qed

lemma pad_to_eq: "pad_to str dst k c = (\<lambda>i. if dst \<le> i \<and> i < dst + k then c else str i)"
  by (induction k arbitrary: str dst) (auto intro!: ext)

text \<open>
  Padding: \<open>[c*]\<close> at the end of STRING2 fills it up with \<open>c\<close> to the length of STRING1.
\<close>

theorem padding_fills_up:
  assumes "list_all (\<lambda>c. c \<noteq> CHR 0xFF) b" "length b \<le> n" "n < MAX_STRING"
  shows "resolve_string2_padding (b @ [CHR 0xFF, CHR 0xFE, c]) n = Some (b @ replicate (n - length b) c)"
proof -
  let ?s = "b @ [CHR 0xFF, CHR 0xFE, c]" and ?l = "length b + 3"
  define f where "f = (\<lambda>i. if i < length ?s then ?s ! i else NUL)"
  let ?g = "pad_to f (length b) (n - length b) c"
  have "resolve_loop f (length b) (length b) ?l n = Some (?g, n)"
  proof -
    have "f (length b) = CHR 0xFF" "f (length b + 1) = CHR 0xFE" "f (length b + 2) = c"
      by (simp_all add: f_def nth_append)
    then show ?thesis
      using assms by (subst resolve_loop.simps) (simp add: Let_def resolve_loop.simps [of _ ?l])
  qed
  then have "resolve_loop f k k ?l n = Some (?g, n)" if "k \<le> length b" for k
    using that
  proof (induction "length b - k" arbitrary: k)
    case (Suc d)
    then have "f k \<noteq> CHR 0xFF" using assms(1) by (auto simp: f_def nth_append list_all_length)
    moreover have "resolve_loop f (k + 1) (k + 1) ?l n = Some (?g, n)" using Suc by simp
    ultimately show ?case
      using Suc assms by (subst resolve_loop.simps) simp
  qed simp
  from this [of 0] have "resolve_loop f 0 0 ?l n = Some (?g, n)" by simp
  moreover have "map ?g [0..<n] = b @ replicate (n - length b) c"
    using assms(2) by (intro nth_equalityI) (auto simp: pad_to_eq f_def nth_append)
  moreover have "length ?s = ?l" by simp
  ultimately show ?thesis
    unfolding resolve_string2_padding_def f_def [symmetric] by (simp only: option.map prod.case)
qed

theorem padding_fills_up_witness:
  "resolve_string2_padding ([CHR ''x''] @ [CHR 0xFF, CHR 0xFE, CHR ''y'']) 3 = Some ''xyy''"
  using padding_fills_up [of "[CHR ''x'']" 3 "CHR ''y''"] by (simp add: eval_nat_numeral)

text \<open>
  The padding is resolved in place and runs over the rest of STRING2 before it is read: with a
  STRING1 of five bytes \<open>[a*]bc\<close> comes out as seven times \<open>a\<close>, and \<open>b\<close> and \<open>c\<close> are lost.
\<close>

theorem padding_overwrites_rest:
  "resolve_string2_padding ([CHR 0xFF, CHR 0xFE, CHR ''a''] @ ''bc'') 5 = Some ''aaaaaaa''"
proof -
  let ?s = "[CHR 0xFF, CHR 0xFE, CHR ''a''] @ ''bc''"
  define f where "f = (\<lambda>i. if i < length ?s then ?s ! i else NUL)"
  let ?g = "pad_to f 0 5 (CHR ''a'')"
  let ?h = "?g(5 := CHR ''a'', 6 := CHR ''a'')"
  have f: "f 0 = CHR 0xFF" "f 1 = CHR 0xFE" "f 2 = CHR ''a''" by (simp_all add: f_def)
  have "resolve_loop ?h 5 7 5 5 = Some (?h, 7)" by (subst resolve_loop.simps) simp
  then have "resolve_loop (?g(5 := CHR ''a'')) 4 6 5 5 = Some (?h, 7)"
    by (subst resolve_loop.simps) (simp add: pad_to_eq)
  then have "resolve_loop ?g 3 5 5 5 = Some (?h, 7)"
    by (subst resolve_loop.simps) (simp add: pad_to_eq)
  then have "resolve_loop f 0 0 5 5 = Some (?h, 7)"
    using f by (subst resolve_loop.simps) (simp add: Let_def numeral_2_eq_2)
  moreover have "map ?h [0..<7] = ''aaaaaaa''" by (simp add: pad_to_eq upt_rec)
  moreover have "length ?s = 5" by simp
  ultimately show ?thesis
    unfolding resolve_string2_padding_def f_def [symmetric] by (simp only: option.map prod.case)
qed

text \<open>
  The option loop goes on scanning inside the file name of \<open>-i\<close>: a file name whose third
  character is not an option letter makes the program fail.
\<close>

theorem input_option_scans_filename:
  assumes "x \<notin> {CHR ''c'', CHR ''d'', CHR ''s'', CHR ''i'', CHR ''o'', NUL}"
  shows "\<exists>e. tr_main (prog # ''-i'' # (a # b # x # f) # args) stdin files writable = Some (tr_fail 2 e files)"
proof -
  let ?argv = "prog # ''-i'' # (a # b # x # f) # args"
  have o2: "opt_chars ?argv 2 2 opts = Some (Inl (tr_msg (''invalid option -- '' @ [CHR 0x27, x, CHR 0x27]) @ usage))" for opts
  proof -
    have "cstr_at (a # b # x # f) 3 \<noteq> None" by (cases f) (auto simp: cstr_at_def)
    then show ?thesis using assms by (subst opt_chars.simps) (auto simp: cstr_at_def)
  qed
  have "opt_chars ?argv 1 1 no_opts = opt_chars ?argv 2 2 (no_opts\<lparr>in_path := Some (a # b # x # f)\<rparr>)"
    by (subst opt_chars.simps) (simp add: cstr_at_def numeral_2_eq_2)
  moreover have "parse_opts ?argv 1 no_opts = (case opt_chars ?argv 1 1 no_opts of
      None \<Rightarrow> None | Some (Inl e) \<Rightarrow> Some (Inl e) | Some (Inr (opts', i')) \<Rightarrow> parse_opts ?argv (i' + 1) opts')"
    by (subst parse_opts.simps) simp
  ultimately show ?thesis
    using o2 unfolding tr_main_def by (simp, blast)
qed

theorem input_option_scans_filename_witness:
  "\<exists>e. tr_main [''tr'', ''-i'', ''input.txt'', ''a'', ''b''] [] (\<lambda>f. Some ''abc'') (\<lambda>f. True) = Some (tr_fail 2 e (\<lambda>f. Some ''abc''))"
  using input_option_scans_filename [of "CHR ''p''" "''tr''" "CHR ''i''" "CHR ''n''" "''ut.txt''" "[''a'', ''b'']"] by simp

end
