(* ===== verification/Sha256.thy ===== *)
theory Sha256
  imports Prelude
begin

text \<open>
  The hash of \<open>src/src/smoltar/sha256.c\<close>: the context with its 64-byte buffer, the compression
  function, and the three operations init, update and final. \<open>BYTE\<close> is \<^typ>\<open>8 word\<close>, \<open>WORD\<close> is
  \<^typ>\<open>32 word\<close>; the message schedule is the list that the code's array \<open>m\<close> holds so far. The
  shift \<open>data[j] << 24\<close> of a promoted \<open>BYTE\<close> is the shift of the 32-bit word, as compilers do it.
\<close>

unbundle bit_operations_syntax

type_synonym BYTE = "8 word"
type_synonym WORD = "32 word"

section \<open>The macros\<close>

definition ROTRIGHT :: "WORD \<Rightarrow> nat \<Rightarrow> WORD" where
  "ROTRIGHT a b = (drop_bit b a) OR (push_bit (32 - b) a)"

definition CH :: "WORD \<Rightarrow> WORD \<Rightarrow> WORD \<Rightarrow> WORD" where
  "CH x y z = (x AND y) XOR (NOT x AND z)"

definition MAJ :: "WORD \<Rightarrow> WORD \<Rightarrow> WORD \<Rightarrow> WORD" where
  "MAJ x y z = (x AND y) XOR (x AND z) XOR (y AND z)"

definition EP0 :: "WORD \<Rightarrow> WORD" where
  "EP0 x = ROTRIGHT x 2 XOR ROTRIGHT x 13 XOR ROTRIGHT x 22"

definition EP1 :: "WORD \<Rightarrow> WORD" where
  "EP1 x = ROTRIGHT x 6 XOR ROTRIGHT x 11 XOR ROTRIGHT x 25"

definition SIG0 :: "WORD \<Rightarrow> WORD" where
  "SIG0 x = ROTRIGHT x 7 XOR ROTRIGHT x 18 XOR drop_bit 3 x"

definition SIG1 :: "WORD \<Rightarrow> WORD" where
  "SIG1 x = ROTRIGHT x 17 XOR ROTRIGHT x 19 XOR drop_bit 10 x"

definition k_table :: "WORD list" where
  "k_table = [
    0x428a2f98,0x71374491,0xb5c0fbcf,0xe9b5dba5,0x3956c25b,0x59f111f1,0x923f82a4,0xab1c5ed5,
    0xd807aa98,0x12835b01,0x243185be,0x550c7dc3,0x72be5d74,0x80deb1fe,0x9bdc06a7,0xc19bf174,
    0xe49b69c1,0xefbe4786,0x0fc19dc6,0x240ca1cc,0x2de92c6f,0x4a7484aa,0x5cb0a9dc,0x76f988da,
    0x983e5152,0xa831c66d,0xb00327c8,0xbf597fc7,0xc6e00bf3,0xd5a79147,0x06ca6351,0x14292967,
    0x27b70a85,0x2e1b2138,0x4d2c6dfc,0x53380d13,0x650a7354,0x766a0abb,0x81c2c92e,0x92722c85,
    0xa2bfe8a1,0xa81a664b,0xc24b8b70,0xc76c51a3,0xd192e819,0xd6990624,0xf40e3585,0x106aa070,
    0x19a4c116,0x1e376c08,0x2748774c,0x34b0bcb5,0x391c0cb3,0x4ed8aa4a,0x5b9cca4f,0x682e6ff3,
    0x748f82ee,0x78a5636f,0x84c87814,0x8cc70208,0x90befffa,0xa4506ceb,0xbef9a3f7,0xc67178f2]"

section \<open>The context and the compression function\<close>

record SHA256_CTX =
  sha_data :: "BYTE list"
  sha_datalen :: nat
  sha_bitlen :: "64 word"
  sha_state :: "WORD list"

text \<open>\<open>m[i]\<close> for \<open>i < 16\<close> is read from the block, big endian; the others come from earlier ones.\<close>

definition be_word :: "BYTE list \<Rightarrow> nat \<Rightarrow> WORD" where
  "be_word data j = push_bit 24 (ucast (data ! j)) OR push_bit 16 (ucast (data ! (j + 1)))
     OR push_bit 8 (ucast (data ! (j + 2))) OR ucast (data ! (j + 3))"

fun schedule_loop :: "nat \<Rightarrow> WORD list \<Rightarrow> WORD list" where
  "schedule_loop 0 m = m"
| "schedule_loop (Suc n) m =
     (let i = length m in
      schedule_loop n (m @ [SIG1 (m ! (i - 2)) + m ! (i - 7) + SIG0 (m ! (i - 15)) + m ! (i - 16)]))"

definition schedule :: "BYTE list \<Rightarrow> WORD list" where
  "schedule data = schedule_loop 48 (map (\<lambda>i. be_word data (4 * i)) [0..<16])"

text \<open>One round on the variables \<open>a\<close> to \<open>h\<close>, kept as a list of eight.\<close>

fun sha_round :: "WORD list \<Rightarrow> WORD \<times> WORD \<Rightarrow> WORD list" where
  "sha_round [a, b, c, d, e, f, g, h] (k, m) =
     (let t1 = h + EP1 e + CH e f g + k + m; t2 = EP0 a + MAJ a b c
      in [t1 + t2, a, b, c, d + t1, e, f, g])"
| "sha_round st _ = st"

definition sha256_transform :: "SHA256_CTX \<Rightarrow> BYTE list \<Rightarrow> SHA256_CTX" where
  "sha256_transform ctx data =
     ctx\<lparr>sha_state := map2 (+) (sha_state ctx) (foldl sha_round (sha_state ctx) (zip k_table (schedule data)))\<rparr>"

section \<open>Init, update, final\<close>

definition init_state :: "WORD list" where
  "init_state = [0x6a09e667, 0xbb67ae85, 0x3c6ef372, 0xa54ff53a, 0x510e527f, 0x9b05688c, 0x1f83d9ab, 0x5be0cd19]"

text \<open>\<open>sha256_init\<close> leaves the buffer as it is.\<close>

definition sha256_init :: "SHA256_CTX \<Rightarrow> SHA256_CTX" where
  "sha256_init ctx = ctx\<lparr>sha_datalen := 0, sha_bitlen := 0, sha_state := init_state\<rparr>"

definition update_byte :: "BYTE \<Rightarrow> SHA256_CTX \<Rightarrow> SHA256_CTX" where
  "update_byte b ctx =
     (let ctx1 = ctx\<lparr>sha_data := (sha_data ctx)[sha_datalen ctx := b], sha_datalen := sha_datalen ctx + 1\<rparr> in
      if sha_datalen ctx1 = 64 then
        (let ctx2 = sha256_transform ctx1 (sha_data ctx1) in
         ctx2\<lparr>sha_bitlen := sha_bitlen ctx2 + 512, sha_datalen := 0\<rparr>)
      else ctx1)"

text \<open>The counter of the loop is a \<open>WORD\<close> and \<open>len\<close> is a \<open>size_t\<close>: from \<open>2^32\<close> bytes on the counter
  wraps and the loop does not end, which is \<^term>\<open>None\<close>.\<close>

definition sha256_update :: "SHA256_CTX \<Rightarrow> BYTE list \<Rightarrow> SHA256_CTX option" where
  "sha256_update ctx data = (if length data < 2 ^ 32 then Some (fold update_byte data ctx) else None)"

fun zero_from :: "BYTE list \<Rightarrow> nat \<Rightarrow> nat \<Rightarrow> BYTE list" where
  "zero_from data i 0 = data"
| "zero_from data i (Suc n) = zero_from (data[i := 0]) (i + 1) n"

definition store_bitlen :: "64 word \<Rightarrow> BYTE list \<Rightarrow> BYTE list" where
  "store_bitlen bits data =
     data[63 := ucast bits,
          62 := ucast (drop_bit 8 bits),
          61 := ucast (drop_bit 16 bits),
          60 := ucast (drop_bit 24 bits),
          59 := ucast (drop_bit 32 bits),
          58 := ucast (drop_bit 40 bits),
          57 := ucast (drop_bit 48 bits),
          56 := ucast (drop_bit 56 bits)]"

text \<open>Byte \<open>i\<close> of each state word goes to \<open>hash[i + 4 * word]\<close>.\<close>

definition hash_bytes :: "WORD list \<Rightarrow> BYTE list" where
  "hash_bytes st = concat (map (\<lambda>w. map (\<lambda>i. ucast (drop_bit (24 - i * 8) w AND 0xff)) [0..<4]) st)"

definition sha256_final :: "SHA256_CTX \<Rightarrow> BYTE list" where
  "sha256_final ctx =
     (let i = sha_datalen ctx;
          ctx1 =
            (if i < 56
             then ctx\<lparr>sha_data := zero_from ((sha_data ctx)[i := 0x80]) (i + 1) (56 - (i + 1))\<rparr>
             else (let d = zero_from ((sha_data ctx)[i := 0x80]) (i + 1) (64 - (i + 1));
                       c = sha256_transform (ctx\<lparr>sha_data := d\<rparr>) d
                   in c\<lparr>sha_data := zero_from (sha_data c) 0 56\<rparr>));
          bits = sha_bitlen ctx1 + of_nat (sha_datalen ctx1 * 8);
          d2 = store_bitlen bits (sha_data ctx1);
          ctx2 = sha256_transform (ctx1\<lparr>sha_data := d2, sha_bitlen := bits\<rparr>) d2
      in hash_bytes (sha_state ctx2))"

end
