(* ===== verification/Smoltar.thy ===== *)
theory Smoltar
  imports Sha256
begin

text \<open>
  The archiver \<open>src/src/smoltar/smoltar.c\<close>: octal fields, the checksum, the header block, and the
  commands that create, extract and list an archive. The contents of files and archives are strings
  of bytes; an open archive is the part of it that is still to be read. \<^term>\<open>None\<close> is undefined
  behaviour (a name field without a NUL that is printed) or behaviour that depends on the buffering
  of the C library (an archive that is its own member). Opening a file fails when it does not exist
  or cannot be written; the reads and writes of open streams succeed.
\<close>

abbreviation (input) BLOCK_SIZE :: nat where "BLOCK_SIZE \<equiv> 512"
abbreviation (input) LF :: char where "LF \<equiv> CHR 0x0A"

section \<open>The hash of a file\<close>

definition to_byte :: "char \<Rightarrow> BYTE" where
  "to_byte c = of_nat (code c)"

definition hexchars :: string where
  "hexchars = ''0123456789abcdef''"

text \<open>Without the NUL that ends the string.\<close>

definition sha256_to_hex :: "BYTE list \<Rightarrow> string" where
  "sha256_to_hex digest = concat (map (\<lambda>b. [hexchars ! unat (drop_bit 4 b), hexchars ! unat (b AND 0x0f)]) digest)"

function hash_loop :: "string \<Rightarrow> SHA256_CTX \<Rightarrow> SHA256_CTX option" where
  "hash_loop contents ctx =
     (if contents = [] then Some ctx
      else do {
        ctx' \<leftarrow> sha256_update ctx (map to_byte (take BLOCK_SIZE contents));
        hash_loop (drop BLOCK_SIZE contents) ctx' })"
  by pat_completeness auto
termination
  by (relation "measure (\<lambda>(contents, ctx). length contents)") auto

declare hash_loop.simps [simp del]

text \<open>The context is a local variable; its bytes before \<open>sha256_init\<close> do not matter.\<close>

definition local_ctx :: SHA256_CTX where
  "local_ctx = \<lparr>sha_data = replicate 64 0, sha_datalen = 0, sha_bitlen = 0, sha_state = replicate 8 0\<rparr>"

definition compute_file_sha256 :: "string \<Rightarrow> string option" where
  "compute_file_sha256 contents = do {
     ctx \<leftarrow> hash_loop contents (sha256_init local_ctx);
     Some (sha256_to_hex (sha256_final ctx)) }"

section \<open>Octal fields\<close>

text \<open>The loop \<open>for (i = size - 2; i > 0; i--)\<close>; its result is the field and the value left.\<close>

fun octal_loop :: "string \<Rightarrow> nat \<Rightarrow> 64 word \<Rightarrow> string \<times> 64 word" where
  "octal_loop dest 0 v = (dest, v)"
| "octal_loop dest (Suc i) v = octal_loop (dest[Suc i := char_of (48 + unat (v AND 7))]) i (drop_bit 3 v)"

text \<open>\<open>size\<close> is the length of the field \<open>dest\<close>, at least 2.\<close>

definition format_octal :: "string \<Rightarrow> 64 word \<Rightarrow> string" where
  "format_octal dest v =
     (let size_f = length dest;
          r = octal_loop (dest[size_f - 1 := NUL]) (size_f - 2) v in
      if snd r > 7 then replicate (size_f - 1) (CHR ''7'') @ drop (size_f - 1) (fst r)
      else (fst r)[0 := char_of (48 + unat (snd r AND 7))])"

definition is_octal :: "char \<Rightarrow> bool" where
  "is_octal c \<longleftrightarrow> 48 \<le> code c \<and> code c \<le> 55"

fun parse_octal_loop :: "64 word \<Rightarrow> string \<Rightarrow> 64 word" where
  "parse_octal_loop res [] = res"
| "parse_octal_loop res (c # str) =
     (if is_octal c then parse_octal_loop (push_bit 3 res OR of_nat (code c - 48)) str else res)"

definition parse_octal :: "string \<Rightarrow> 64 word" where
  "parse_octal str = parse_octal_loop 0 str"

section \<open>The header\<close>

record tar_header =
  th_name :: string
  th_mode :: string
  th_uid :: string
  th_gid :: string
  th_size :: string
  th_mtime :: string
  th_chksum :: string
  th_typeflag :: char
  th_linkname :: string
  th_magic :: string
  th_version :: string
  th_uname :: string
  th_gname :: string
  th_devmajor :: string
  th_devminor :: string
  th_prefix :: string
  th_padding :: string

text \<open>The struct has only character members, so it has no gaps: its bytes are those of its members
  in order, and reading 512 bytes into it splits them at the offsets of the members.\<close>

definition header_bytes :: "tar_header \<Rightarrow> string" where
  "header_bytes h = th_name h @ th_mode h @ th_uid h @ th_gid h @ th_size h @ th_mtime h @ th_chksum h
     @ [th_typeflag h] @ th_linkname h @ th_magic h @ th_version h @ th_uname h @ th_gname h
     @ th_devmajor h @ th_devminor h @ th_prefix h @ th_padding h"

definition slice :: "nat \<Rightarrow> nat \<Rightarrow> string \<Rightarrow> string" where
  "slice off n b = take n (drop off b)"

definition read_header :: "string \<Rightarrow> tar_header" where
  "read_header b = \<lparr>th_name = slice 0 100 b, th_mode = slice 100 8 b, th_uid = slice 108 8 b,
     th_gid = slice 116 8 b, th_size = slice 124 12 b, th_mtime = slice 136 12 b, th_chksum = slice 148 8 b,
     th_typeflag = b ! 156, th_linkname = slice 157 100 b, th_magic = slice 257 6 b,
     th_version = slice 263 2 b, th_uname = slice 265 32 b, th_gname = slice 297 32 b,
     th_devmajor = slice 329 8 b, th_devminor = slice 337 8 b, th_prefix = slice 345 155 b,
     th_padding = slice 500 12 b\<rparr>"

text \<open>\<open>memset(header, 0, sizeof(*header))\<close>\<close>

definition zero_header :: tar_header where
  "zero_header = read_header (replicate BLOCK_SIZE NUL)"

definition checksum_term :: "string \<Rightarrow> nat \<Rightarrow> 64 word" where
  "checksum_term b i = (if 148 \<le> i \<and> i < 156 then 32 else of_nat (code (b ! i)))"

definition calculate_checksum :: "tar_header \<Rightarrow> 64 word" where
  "calculate_checksum h = sum_list (map (checksum_term (header_bytes h)) [0..<BLOCK_SIZE])"

text \<open>\<open>strncpy(dest, s, n)\<close>\<close>

definition strncpy :: "string \<Rightarrow> string \<Rightarrow> nat \<Rightarrow> string" where
  "strncpy dest s n = take n (s @ replicate n NUL) @ drop n dest"

text \<open>The part of \<open>init_header\<close> after the check of the file name.\<close>

definition fill_header :: "string \<Rightarrow> 64 word \<Rightarrow> string option \<Rightarrow> 64 word \<Rightarrow> tar_header" where
  "fill_header fname filesize sha256_hex now =
     (let h0 = zero_header;
          h1 = h0\<lparr>th_name := strncpy (th_name h0) fname 99,
                  th_mode := format_octal (th_mode h0) 420,
                  th_uid := format_octal (th_uid h0) 0,
                  th_gid := format_octal (th_gid h0) 0,
                  th_size := format_octal (th_size h0) filesize,
                  th_mtime := format_octal (th_mtime h0) now,
                  th_typeflag := CHR ''0'',
                  th_linkname := (case sha256_hex of None \<Rightarrow> th_linkname h0 | Some s \<Rightarrow> strncpy (th_linkname h0) s 99),
                  th_magic := ''ustar'' @ [NUL],
                  th_version := ''00'',
                  th_chksum := replicate 8 (CHR '' '')\<rparr>;
          chk = format_octal (th_chksum h1) (calculate_checksum h1)
      in h1\<lparr>th_chksum := chk[7 := CHR '' '']\<rparr>)"

text \<open>The header of a file, or the message with which the program exits.\<close>

definition init_header :: "string \<Rightarrow> 64 word \<Rightarrow> string option \<Rightarrow> 64 word \<Rightarrow> string + tar_header" where
  "init_header fname filesize sha256_hex now =
     (if \<exists>c \<in> set fname. c = CHR ''/'' \<or> c = CHR 0x5C
      then Inl (''Error: filename must not contain path separators: '' @ fname @ [LF])
      else Inr (fill_header fname filesize sha256_hex now))"

section \<open>The world\<close>

record Sm =
  sm_files :: "string \<Rightarrow> string option"
  sm_writable :: "string \<Rightarrow> bool"
  sm_time :: "64 word"
  sm_out :: string
  sm_err :: string

definition say :: "string \<Rightarrow> Sm \<Rightarrow> Sm" where
  "say s w = w\<lparr>sm_out := sm_out w @ s\<rparr>"

definition complain :: "string \<Rightarrow> Sm \<Rightarrow> Sm" where
  "complain s w = w\<lparr>sm_err := sm_err w @ s\<rparr>"

definition quoted :: "string \<Rightarrow> string" where
  "quoted s = [CHR 0x27] @ s @ [CHR 0x27]"

definition set_file :: "string \<Rightarrow> string \<Rightarrow> Sm \<Rightarrow> Sm" where
  "set_file f s w = w\<lparr>sm_files := (sm_files w)(f \<mapsto> s)\<rparr>"

section \<open>Creating an archive\<close>

text \<open>\<open>size_t padding = BLOCK_SIZE - (filesize % BLOCK_SIZE)\<close>, none when it is a whole block.\<close>

definition pad_bytes :: "nat \<Rightarrow> string" where
  "pad_bytes n = (let p = BLOCK_SIZE - n mod BLOCK_SIZE in if p \<noteq> BLOCK_SIZE then replicate p NUL else [])"

text \<open>The result is the returned value, the archive and the world. The \<open>exit(EXIT_FAILURE)\<close> of
  \<open>init_header\<close> writes out the archive and ends with status 1, as returning false does.\<close>

definition add_file_to_archive :: "string \<Rightarrow> string \<Rightarrow> string \<Rightarrow> Sm \<Rightarrow> (bool \<times> string \<times> Sm) option" where
  "add_file_to_archive archive_name archive fname w =
     (if fname = archive_name then None
      else case sm_files w fname of
        None \<Rightarrow> Some (False, archive, complain (''Error: Cannot open file '' @ quoted fname @ [LF]) w)
      | Some contents \<Rightarrow> do {
          sha \<leftarrow> compute_file_sha256 contents;
          (case init_header fname (of_nat (length contents)) (Some sha) (sm_time w) of
             Inl e \<Rightarrow> Some (False, archive, complain e w)
           | Inr h \<Rightarrow> Some (True, archive @ header_bytes h @ contents @ pad_bytes (length contents), w)) })"

fun add_files :: "string \<Rightarrow> string \<Rightarrow> string list \<Rightarrow> Sm \<Rightarrow> (bool \<times> string \<times> Sm) option" where
  "add_files archive_name archive [] w = Some (True, archive, w)"
| "add_files archive_name archive (f # fs) w = do {
     (ok, archive', w') \<leftarrow> add_file_to_archive archive_name archive f w;
     if ok then add_files archive_name archive' fs w' else Some (False, archive', w') }"

definition create_archive :: "string \<Rightarrow> string list \<Rightarrow> Sm \<Rightarrow> (bool \<times> Sm) option" where
  "create_archive archive_name fnames w =
     (if \<not> sm_writable w archive_name
      then Some (False, complain (''Error: Cannot create archive '' @ quoted archive_name @ [LF]) w)
      else do {
        (ok, archive, w') \<leftarrow> add_files archive_name [] fnames (set_file archive_name [] w);
        if ok then Some (True, say (''Archive '' @ quoted archive_name @ '' created successfully'' @ [LF])
                                 (set_file archive_name (archive @ replicate (2 * BLOCK_SIZE) NUL) w'))
        else Some (False, set_file archive_name archive w') })"

section \<open>Extracting\<close>

datatype extract_mode = MODE_FORCE | MODE_NORMAL | MODE_SAFE

text \<open>A field read as a C string.\<close>

definition cstring :: "string \<Rightarrow> string option" where
  "cstring field = (if NUL \<in> set field then Some (takeWhile (\<lambda>c. c \<noteq> NUL) field) else None)"

text \<open>The loop that copies the contents block by block: whether all of it was there, the rest of
  the archive, and what was written.\<close>

function copy_data :: "string \<Rightarrow> nat \<Rightarrow> string \<Rightarrow> bool \<times> string \<times> string" where
  "copy_data rest bytes_remaining out =
     (if bytes_remaining > 0 then
        (let to_read = (if bytes_remaining > BLOCK_SIZE then BLOCK_SIZE else bytes_remaining) in
         if length rest < to_read then (False, [], out)
         else copy_data (drop to_read rest) (bytes_remaining - to_read) (out @ take to_read rest))
      else (True, rest, out))"
  by pat_completeness auto
termination
  by (relation "measure (\<lambda>(rest, n, out). n)") auto

declare copy_data.simps [simp del]

text \<open>\<open>fseek\<close> past the contents and the padding; a position after the end is allowed.\<close>

definition skip_data :: "nat \<Rightarrow> string \<Rightarrow> string" where
  "skip_data filesize rest = drop (((filesize + BLOCK_SIZE - 1) div BLOCK_SIZE) * BLOCK_SIZE) rest"

definition output_name :: "string option \<Rightarrow> string \<Rightarrow> string" where
  "output_name prefix nm =
     (if prefix \<noteq> None \<and> prefix \<noteq> Some [] then take 254 (the prefix @ nm) else take 254 nm)"

text \<open>Whether the mode lets the file be extracted, and the message.\<close>

definition check_mode :: "extract_mode \<Rightarrow> string \<Rightarrow> string \<Rightarrow> Sm \<Rightarrow> (bool \<times> Sm) option" where
  "check_mode mode out_name archive_sha w =
     (if mode = MODE_SAFE then
        (if sm_files w out_name \<noteq> None
         then Some (False, complain (''Skipping '' @ quoted out_name @ '': file exists (safe mode)'' @ [LF]) w)
         else Some (True, w))
      else if mode = MODE_NORMAL \<and> archive_sha \<noteq> [] then
        (case sm_files w out_name of
           None \<Rightarrow> Some (True, w)
         | Some s \<Rightarrow> do {
             existing \<leftarrow> compute_file_sha256 s;
             if existing = archive_sha
             then Some (False, complain (''Skipping '' @ quoted out_name @ '': identical (SHA-256 match)'' @ [LF]) w)
             else Some (True, w) })
      else Some (True, w))"

definition extract_file ::
  "string \<Rightarrow> string \<Rightarrow> tar_header \<Rightarrow> extract_mode \<Rightarrow> string option \<Rightarrow> Sm \<Rightarrow> (bool \<times> string \<times> Sm) option" where
  "extract_file archive_name rest h mode prefix w = do {
     let filesize = unat (parse_octal (th_size h));
     nm \<leftarrow> cstring (th_name h);
     let out_name = output_name prefix nm;
     let archive_sha = takeWhile (\<lambda>c. c \<noteq> NUL) (take 64 (th_linkname h));
     (should, w) \<leftarrow> check_mode mode out_name archive_sha w;
     if \<not> should then Some (True, skip_data filesize rest, w)
     else if \<not> sm_writable w out_name
     then Some (False, skip_data filesize rest, complain (''Error: Cannot create file '' @ quoted out_name @ [LF]) w)
     else if out_name = archive_name then None
     else (case copy_data rest filesize [] of (ok, rest', out) \<Rightarrow>
       (let w = set_file out_name out w in
        if \<not> ok then Some (False, rest', complain (''Error: Cannot read data for '' @ quoted nm @ [LF]) w)
        else let p = length (pad_bytes filesize) in
             if length rest' < p
             then Some (False, [], complain (''Error: Cannot skip padding for '' @ quoted nm @ [LF]) w)
             else Some (True, drop p rest', w))) }"

lemma copy_data_length: "length (fst (snd (copy_data rest n out))) \<le> length rest"
proof (induction rest n out rule: copy_data.induct)
  case (1 rest n out)
  then show ?case by (subst copy_data.simps) (auto simp: Let_def intro: le_trans)
qed

lemma extract_file_length:
  "extract_file a rest h mode prefix w = Some (ok, rest', w') \<Longrightarrow> length rest' \<le> length rest"
  using copy_data_length [of rest "unat (parse_octal (th_size h))" "[]"]
  by (auto simp: extract_file_def Let_def skip_data_def bind_eq_Some_conv split: if_splits prod.splits)

text \<open>\<open>header.name[0]\<close> and the magic are compared before the checksum.\<close>

function extract_loop ::
  "string \<Rightarrow> string \<Rightarrow> extract_mode \<Rightarrow> string option \<Rightarrow> Sm \<Rightarrow> (bool \<times> Sm) option" where
  "extract_loop archive_name rest mode prefix w =
     (if length rest < BLOCK_SIZE then Some (True, w)
      else let h = read_header (take BLOCK_SIZE rest) in
      if hd0 (th_name h) = NUL then Some (True, w)
      else if take 5 (th_magic h) \<noteq> ''ustar'' then Some (False, complain (''Error: Invalid archive format'' @ [LF]) w)
      else do {
        nm \<leftarrow> cstring (th_name h);
        if calculate_checksum h \<noteq> parse_octal (th_chksum h)
        then Some (False, complain (''Error: Checksum mismatch for '' @ quoted nm @ [LF]) w)
        else do {
          (ok, rest', w') \<leftarrow> extract_file archive_name (drop BLOCK_SIZE rest) h mode prefix
                               (say (''Extracting: '' @ nm @ [LF]) w);
          if ok then extract_loop archive_name rest' mode prefix w' else Some (False, w') } })"
  by pat_completeness auto
termination
  by (relation "measure (\<lambda>(a, rest, m, p, w). length rest)") (auto dest!: extract_file_length)

declare extract_loop.simps [simp del]

definition extract_archive :: "string \<Rightarrow> extract_mode \<Rightarrow> string option \<Rightarrow> Sm \<Rightarrow> (bool \<times> Sm) option" where
  "extract_archive archive_name mode prefix w =
     (case sm_files w archive_name of
        None \<Rightarrow> Some (False, complain (''Error: Cannot open archive '' @ quoted archive_name @ [LF]) w)
      | Some archive \<Rightarrow> do {
          (ok, w') \<leftarrow> extract_loop archive_name archive mode prefix w;
          Some (ok, if ok then say (''Extraction completed'' @ [LF]) w' else w') })"

section \<open>Listing\<close>

definition pad_right :: "nat \<Rightarrow> string \<Rightarrow> string" where
  "pad_right n s = s @ replicate (n - length s) (CHR '' '')"

definition pad_left :: "nat \<Rightarrow> string \<Rightarrow> string" where
  "pad_left n s = replicate (n - length s) (CHR '' '') @ s"

definition list_line :: "string \<Rightarrow> string \<Rightarrow> string" where
  "list_line nm sz = pad_right 40 nm @ '' '' @ pad_left 12 sz @ [LF]"

function list_loop :: "string \<Rightarrow> Sm \<Rightarrow> (bool \<times> Sm) option" where
  "list_loop rest w =
     (if length rest < BLOCK_SIZE then Some (True, w)
      else let h = read_header (take BLOCK_SIZE rest) in
      if hd0 (th_name h) = NUL then Some (True, w)
      else if take 5 (th_magic h) \<noteq> ''ustar'' then Some (False, complain (''Error: Invalid archive format'' @ [LF]) w)
      else do {
        nm \<leftarrow> cstring (th_name h);
        let filesize = unat (parse_octal (th_size h));
        list_loop (skip_data filesize (drop BLOCK_SIZE rest)) (say (list_line nm (show_nat filesize)) w) })"
  by pat_completeness auto
termination
  by (relation "measure (\<lambda>(rest, w). length rest)") (auto simp: skip_data_def)

declare list_loop.simps [simp del]

definition list_archive :: "string \<Rightarrow> Sm \<Rightarrow> (bool \<times> Sm) option" where
  "list_archive archive_name w =
     (case sm_files w archive_name of
        None \<Rightarrow> Some (False, complain (''Error: Cannot open archive '' @ quoted archive_name @ [LF]) w)
      | Some archive \<Rightarrow>
          list_loop archive (say (''Contents of archive '' @ quoted archive_name @ '':'' @ [LF]
            @ list_line ''Name'' ''Size'' @ list_line ''----'' ''----'') w))"

section \<open>The command line\<close>

definition help_text :: string where
  "help_text = concat (map (\<lambda>l. l @ [LF])
    [''Usage: smoltar [options] archive [files...]'',
     ''A simple tar-like archiver using ISO C only'', '''',
     ''Options:'',
     ''  -c           Create a new archive'',
     ''  -x           Extract files from archive'',
     ''  -t           List contents of archive'',
     ''  -f FILE      Specify archive file (required)'',
     ''  -m MODE      Extraction mode: force (default), normal, safe'',
     ''                 force:  Always extract, overwrite existing files'',
     ''                 normal: Extract only if SHA-256 differs or file missing'',
     ''                 safe:   Never overwrite existing files'',
     ''  -p PREFIX    Prepend PREFIX to extracted filenames'',
     ''  -h           Display this help message'', '''',
     ''Examples:'',
     ''  smoltar -cf archive.tar file1.txt file2.txt'',
     ''  smoltar -xf archive.tar'',
     ''  smoltar -xf archive.tar -m normal'',
     ''  smoltar -xf archive.tar -p output/'',
     ''  smoltar -tf archive.tar''])"

record SmOpts =
  so_archive :: "string option"
  so_prefix :: "string option"
  so_mode :: extract_mode
  so_create :: bool
  so_extract :: bool
  so_list :: bool

definition default_opts :: SmOpts where
  "default_opts = \<lparr>so_archive = None, so_prefix = None, so_mode = MODE_FORCE,
     so_create = False, so_extract = False, so_list = False\<rparr>"

text \<open>A return from the option loop: the status, what is printed and the error message.\<close>

type_synonym early = "int \<times> string \<times> string"

text \<open>The letters of \<open>opt\<close> from index \<open>j\<close>; the result holds the options and the new \<open>i\<close>.\<close>

function opt_letters :: "string list \<Rightarrow> string \<Rightarrow> nat \<Rightarrow> nat \<Rightarrow> SmOpts \<Rightarrow> early + SmOpts \<times> nat" where
  "opt_letters argv opt j i opts =
     (if j \<ge> length opt then Inr (opts, i)
      else let c = opt ! j in
      if c = CHR ''c'' then opt_letters argv opt (j + 1) i (opts\<lparr>so_create := True\<rparr>)
      else if c = CHR ''x'' then opt_letters argv opt (j + 1) i (opts\<lparr>so_extract := True\<rparr>)
      else if c = CHR ''t'' then opt_letters argv opt (j + 1) i (opts\<lparr>so_list := True\<rparr>)
      else if c = CHR ''f'' then
        (if j = length opt - 1 then
           (if i + 1 < length argv then Inr (opts\<lparr>so_archive := Some (argv ! (i + 1))\<rparr>, i + 1) else Inr (opts, i))
         else Inr (opts\<lparr>so_archive := Some (drop (j + 1) (argv ! i))\<rparr>, i))
      else if c = CHR ''m'' \<or> c = CHR ''p''
      then Inl (1, [], ''Error: -'' @ [c] @ '' option cannot be combined'' @ [LF])
      else Inl (1, help_text, ''Error: Unknown option '' @ quoted (''-'' @ [c]) @ [LF]))"
  by pat_completeness auto
termination
  by (relation "measure (\<lambda>(argv, opt, j, i, opts). length opt - j)") auto

declare opt_letters.simps [simp del]

definition parse_mode :: "string \<Rightarrow> extract_mode option" where
  "parse_mode s = (if s = ''force'' then Some MODE_FORCE else if s = ''normal'' then Some MODE_NORMAL
     else if s = ''safe'' then Some MODE_SAFE else None)"

lemma opt_letters_index: "opt_letters argv opt j i opts = Inr (opts', i') \<Longrightarrow> i \<le> i'"
proof (induction argv opt j i opts rule: opt_letters.induct)
  case (1 argv opt j i opts)
  from 1(4) [unfolded opt_letters.simps [of argv opt j i opts]] 1(1-3) show ?case
    by (auto simp: Let_def split: if_splits)
qed

function parse_args :: "string list \<Rightarrow> nat \<Rightarrow> SmOpts \<Rightarrow> early + SmOpts \<times> nat" where
  "parse_args argv i opts =
     (if i < length argv \<and> hd0 (argv ! i) = CHR ''-'' then
        (let opt = argv ! i in
         if opt = ''-h'' \<or> opt = ''--help'' then Inl (0, help_text, [])
         else if opt = ''-m'' then
           (if i + 1 < length argv then
              (case parse_mode (argv ! (i + 1)) of
                 Some m \<Rightarrow> parse_args argv (i + 2) (opts\<lparr>so_mode := m\<rparr>)
               | None \<Rightarrow> Inl (1, [], ''Error: Invalid mode '' @ quoted (argv ! (i + 1)) @ [LF]))
            else Inl (1, [], ''Error: -m option requires an argument'' @ [LF]))
         else if opt = ''-p'' then
           (if i + 1 < length argv then parse_args argv (i + 2) (opts\<lparr>so_prefix := Some (argv ! (i + 1))\<rparr>)
            else Inl (1, [], ''Error: -p option requires an argument'' @ [LF]))
         else (case opt_letters argv opt 1 i opts of
                 Inl e \<Rightarrow> Inl e
               | Inr (opts', i') \<Rightarrow> parse_args argv (i' + 1) opts'))
      else Inr (opts, i))"
  by pat_completeness auto
termination
  by (relation "measure (\<lambda>(argv, i, opts). length argv - i)") (auto dest: opt_letters_index)

declare parse_args.simps [simp del]

definition status :: "(bool \<times> Sm) option \<Rightarrow> (int \<times> Sm) option" where
  "status r = map_option (\<lambda>(ok, w). (if ok then 0 else 1, w)) r"

definition smoltar_main :: "string list \<Rightarrow> Sm \<Rightarrow> (int \<times> Sm) option" where
  "smoltar_main argv w =
     (if length argv < 2 then Some (1, say help_text w)
      else case parse_args argv 1 default_opts of
        Inl (n, out, err) \<Rightarrow> Some (n, complain err (say out w))
      | Inr (opts, i) \<Rightarrow>
          (case so_archive opts of
             None \<Rightarrow> Some (1, complain (''Error: Archive name not specified (use -f option)'' @ [LF]) w)
           | Some archive_name \<Rightarrow>
               if of_bool (so_create opts) + of_bool (so_extract opts) + of_bool (so_list opts) \<noteq> (1 :: nat)
               then Some (1, complain (''Error: Exactly one of -c, -x, or -t must be specified'' @ [LF]) w)
               else if so_create opts then
                 (if i \<ge> length argv
                  then Some (1, complain (''Error: No files specified for archive creation'' @ [LF]) w)
                  else status (create_archive archive_name (drop i argv) w))
               else if so_extract opts then status (extract_archive archive_name (so_mode opts) (so_prefix opts) w)
               else status (list_archive archive_name w)))"

end
