(* ===== verification/ShaProps.thy ===== *)
theory ShaProps
  imports Sha256
begin

text \<open>
  The hash against its definition in FIPS 180-4: the rotations and choice functions, the framing of
  the message into padded blocks, and the independence of the result from how the message is cut
  into pieces.
\<close>

section \<open>The standard\<close>

text \<open>The functions of the standard, with the rotation of the library.\<close>

definition fips_ch :: "WORD \<Rightarrow> WORD \<Rightarrow> WORD \<Rightarrow> WORD" where
  "fips_ch x y z = (x AND y) OR (NOT x AND z)"

definition fips_maj :: "WORD \<Rightarrow> WORD \<Rightarrow> WORD \<Rightarrow> WORD" where
  "fips_maj x y z = (x AND y) OR (x AND z) OR (y AND z)"

definition Sigma0 :: "WORD \<Rightarrow> WORD" where
  "Sigma0 x = word_rotr 2 x XOR word_rotr 13 x XOR word_rotr 22 x"

definition Sigma1 :: "WORD \<Rightarrow> WORD" where
  "Sigma1 x = word_rotr 6 x XOR word_rotr 11 x XOR word_rotr 25 x"

definition sigma0 :: "WORD \<Rightarrow> WORD" where
  "sigma0 x = word_rotr 7 x XOR word_rotr 18 x XOR drop_bit 3 x"

definition sigma1 :: "WORD \<Rightarrow> WORD" where
  "sigma1 x = word_rotr 17 x XOR word_rotr 19 x XOR drop_bit 10 x"

text \<open>Words and bytes, most significant byte first.\<close>

definition be_value :: "BYTE list \<Rightarrow> nat" where
  "be_value bs = foldl (\<lambda>v b. v * 256 + unat b) 0 bs"

definition be_bytes :: "nat \<Rightarrow> nat \<Rightarrow> BYTE list" where
  "be_bytes n v = map (\<lambda>i. of_nat (v div 256 ^ i)) (rev [0..<n])"

text \<open>The word \<open>W\<^sub>t\<close> of the schedule, by recursion on \<open>t\<close>.\<close>

fun W :: "BYTE list \<Rightarrow> nat \<Rightarrow> WORD" where
  "W block t =
     (if t < 16 then of_nat (be_value (take 4 (drop (4 * t) block)))
      else sigma1 (W block (t - 2)) + W block (t - 7) + sigma0 (W block (t - 15)) + W block (t - 16))"

declare W.simps [simp del]

fun fips_round :: "WORD list \<Rightarrow> WORD \<times> WORD \<Rightarrow> WORD list" where
  "fips_round [a, b, c, d, e, f, g, h] (k, w) =
     [h + Sigma1 e + fips_ch e f g + k + w + (Sigma0 a + fips_maj a b c), a, b, c,
      d + (h + Sigma1 e + fips_ch e f g + k + w), e, f, g]"
| "fips_round st _ = st"

definition fips_block :: "WORD list \<Rightarrow> BYTE list \<Rightarrow> WORD list" where
  "fips_block st block = map2 (+) st (foldl fips_round st (zip k_table (map (W block) [0..<64])))"

definition fips_pad :: "BYTE list \<Rightarrow> BYTE list" where
  "fips_pad msg = msg @ [0x80] @ replicate ((119 - length msg mod 64) mod 64) 0 @ be_bytes 8 (8 * length msg)"

definition blocks :: "nat \<Rightarrow> BYTE list \<Rightarrow> BYTE list list" where
  "blocks n msg = map (\<lambda>i. take 64 (drop (64 * i) msg)) [0..<n]"

definition fips_sha256 :: "BYTE list \<Rightarrow> BYTE list" where
  "fips_sha256 msg =
     (let p = fips_pad msg
      in concat (map (\<lambda>w. be_bytes 4 (unat w)) (foldl fips_block init_state (blocks (length p div 64) p))))"

section \<open>The compression function\<close>

lemma rotr_eq: "k < 32 \<Longrightarrow> ROTRIGHT x k = word_rotr k x"
proof (rule bit_word_eqI)
  fix n assume k: "k < 32" and n: "n < LENGTH(32)"
  have "(n + k) mod 32 = (if n + k < 32 then n + k else n + k - 32)"
    using k n by (simp add: mod_if)
  moreover have "\<not> bit x (n + k)" if "32 \<le> n + k" using that by (auto dest: bit_imp_le_length)
  ultimately show "bit (ROTRIGHT x k) n = bit (word_rotr k x) n"
    using k n by (auto simp: ROTRIGHT_def bit_simps add.commute)
qed

lemma ch_eq: "CH x y z = fips_ch x y z"
  by (rule bit_word_eqI) (auto simp: CH_def fips_ch_def bit_simps)

lemma maj_eq: "MAJ x y z = fips_maj x y z"
  by (rule bit_word_eqI) (auto simp: MAJ_def fips_maj_def bit_simps)

lemmas macros_eq = EP0_def EP1_def SIG0_def SIG1_def Sigma0_def Sigma1_def sigma0_def sigma1_def rotr_eq

lemma sha_round_eq: "sha_round st kw = fips_round st kw"
  by (induction st kw rule: fips_round.induct) (simp_all add: macros_eq ch_eq maj_eq Let_def)

lemma or_bytes:
  "push_bit 24 (ucast (a :: BYTE)) OR push_bit 16 (ucast (b :: BYTE)) OR push_bit 8 (ucast (c :: BYTE)) OR ucast (d :: BYTE)
     = (of_nat (((unat a * 256 + unat b) * 256 + unat c) * 256 + unat d) :: WORD)"
proof -
  let ?A = "push_bit 24 (ucast a) :: WORD" and ?B = "push_bit 16 (ucast b) :: WORD"
    and ?C = "push_bit 8 (ucast c) :: WORD" and ?D = "ucast d :: WORD"
  have "?A AND ?B = 0" "(?A OR ?B) AND ?C = 0" "((?A OR ?B) OR ?C) AND ?D = 0"
    by (rule bit_word_eqI, auto simp: bit_simps dest!: bit_imp_le_length)+
  then have "((?A OR ?B) OR ?C) OR ?D = ?A + ?B + ?C + ?D"
    by (simp add: disjunctive_add_eq_or)
  then show ?thesis by (simp add: push_bit_eq_mult or.assoc algebra_simps)
qed

lemma be_word_eq:
  assumes "length block = 64" "t < 16"
  shows "be_word block (4 * t) = of_nat (be_value (take 4 (drop (4 * t) block)))"
proof -
  have "take 4 (drop (4 * t) block) = [block ! (4 * t), block ! (4 * t + 1), block ! (4 * t + 2), block ! (4 * t + 3)]"
    using assms by (intro nth_equalityI) (auto simp: less_Suc_eq numeral_eq_Suc)
  moreover have "be_word block (4 * t) = of_nat (((unat (block ! (4 * t)) * 256 + unat (block ! (4 * t + 1))) * 256
      + unat (block ! (4 * t + 2))) * 256 + unat (block ! (4 * t + 3)))"
    by (simp add: be_word_def or_bytes)
  ultimately show ?thesis by (simp add: be_value_def)
qed

lemma schedule_loop_eq:
  assumes "length block = 64" "16 \<le> i"
  shows "schedule_loop n (map (W block) [0..<i]) = map (W block) [0..<i + n]"
  using assms(2)
proof (induction n arbitrary: i)
  case (Suc n)
  then have "W block i = SIG1 (W block (i - 2)) + W block (i - 7) + SIG0 (W block (i - 15)) + W block (i - 16)"
    by (subst W.simps) (simp add: macros_eq)
  with Suc show ?case using Suc.IH [of "Suc i"] by (simp add: Let_def)
qed simp

lemma schedule_eq:
  assumes "length block = 64"
  shows "schedule block = map (W block) [0..<64]"
proof -
  have "map (\<lambda>i. be_word block (4 * i)) [0..<16] = map (W block) [0..<16]"
    using assms be_word_eq by (intro map_cong) (auto simp: W.simps)
  then show ?thesis
    unfolding schedule_def using schedule_loop_eq [OF assms, of 16 48] by (simp only:) simp
qed

lemma transform_eq:
  assumes "length block = 64"
  shows "sha256_transform ctx block = ctx\<lparr>sha_state := fips_block (sha_state ctx) block\<rparr>"
proof -
  have "sha_round = fips_round" by (intro ext) (rule sha_round_eq)
  then show ?thesis by (simp add: sha256_transform_def fips_block_def schedule_eq assms)
qed

section \<open>The blocks of a message\<close>

lemma blocks_append:
  assumes "64 * n \<le> length msg"
  shows "blocks n (msg @ ys) = blocks n msg"
  using assms by (auto simp: blocks_def)

lemma blocks_Suc: "blocks (Suc n) msg = blocks n msg @ [take 64 (drop (64 * n) msg)]"
  by (simp add: blocks_def)

text \<open>What the context holds after \<open>msg\<close>: the state after its full blocks, and the rest.\<close>

definition holds :: "SHA256_CTX \<Rightarrow> BYTE list \<Rightarrow> bool" where
  "holds ctx msg \<longleftrightarrow>
     (let n = length msg div 64; k = length msg mod 64 in
      length (sha_data ctx) = 64 \<and> sha_datalen ctx = k \<and> take k (sha_data ctx) = drop (64 * n) msg
      \<and> sha_bitlen ctx = of_nat (512 * n) \<and> sha_state ctx = foldl fips_block init_state (blocks n msg))"

lemma holds_init: "length (sha_data ctx) = 64 \<Longrightarrow> holds (sha256_init ctx) []"
  by (simp add: holds_def sha256_init_def blocks_def)

lemma holds_update_byte:
  assumes "holds ctx msg"
  shows "holds (update_byte b ctx) (msg @ [b])"
proof -
  define n k where "n = length msg div 64" and "k = length msg mod 64"
  have len: "length msg = 64 * n + k" "k < 64" by (simp_all add: n_def k_def)
  have h: "length (sha_data ctx) = 64" "sha_datalen ctx = k" "take k (sha_data ctx) = drop (64 * n) msg"
    "sha_bitlen ctx = of_nat (512 * n)" "sha_state ctx = foldl fips_block init_state (blocks n msg)"
    using assms by (simp_all add: holds_def Let_def n_def k_def)
  have d: "take (Suc k) ((sha_data ctx)[k := b]) = drop (64 * n) msg @ [b]"
    using h len by (simp add: take_Suc_conv_app_nth)
  show ?thesis
  proof (cases "k = 63")
    case False
    then have "length (msg @ [b]) div 64 = n" "length (msg @ [b]) mod 64 = Suc k" using len by simp_all
    then show ?thesis
      using False h d len by (simp add: holds_def Let_def update_byte_def blocks_append)
  next
    case True
    then have l: "length (msg @ [b]) div 64 = Suc n" "length (msg @ [b]) mod 64 = 0" using len by simp_all
    have "(sha_data ctx)[k := b] = take 64 (drop (64 * n) (msg @ [b]))"
      using d h True len by simp
    then show ?thesis
      using True h l len by (simp add: holds_def Let_def update_byte_def transform_eq blocks_Suc blocks_append)
  qed
qed

lemma holds_update: "holds ctx msg \<Longrightarrow> holds (fold update_byte data ctx) (msg @ data)"
proof (induction data arbitrary: ctx msg)
  case (Cons b data)
  from Cons.IH [OF holds_update_byte [OF Cons.prems, of b]] show ?case by simp
qed simp

section \<open>Padding\<close>

lemma zero_from_eq: "i + n \<le> length d \<Longrightarrow> zero_from d i n = take i d @ replicate n 0 @ drop (i + n) d"
proof (induction n arbitrary: d i)
  case (Suc n)
  then have "take (i + 1) (d[i := 0]) = take i d @ [0]" by (simp add: take_Suc_conv_app_nth)
  with Suc show ?case by simp
qed simp

lemma store_bitlen_eq:
  assumes "length d = 64"
  shows "store_bitlen bits d = take 56 d @ be_bytes 8 (unat bits)"
proof -
  have b: "(of_nat (unat bits div 256 ^ i) :: BYTE) = ucast (drop_bit (8 * i) bits)" for i
  proof -
    have "unat bits div 256 ^ i = unat (drop_bit (8 * i) bits)"
      unfolding unat_drop_bit_eq by (simp add: drop_bit_eq_div power_mult)
    then show ?thesis by (simp only: of_nat_unat)
  qed
  have "be_bytes 8 (unat bits) = map (\<lambda>i. ucast (drop_bit (8 * i) bits)) [7, 6, 5, 4, 3, 2, 1, 0]"
    unfolding be_bytes_def b by (simp add: upt_rec)
  moreover obtain xs where "drop 56 d = xs" "length xs = 8" using assms by simp
  then obtain x0 x1 x2 x3 x4 x5 x6 x7 where "drop 56 d = [x0, x1, x2, x3, x4, x5, x6, x7]"
    by (auto simp: numeral_eq_Suc length_Suc_conv)
  then have "d = take 56 d @ [x0, x1, x2, x3, x4, x5, x6, x7]" by (metis append_take_drop_id)
  then obtain ys where "d = ys @ [x0, x1, x2, x3, x4, x5, x6, x7]" by blast
  moreover from this have "length ys = 56" using assms by simp
  ultimately show ?thesis by (simp add: store_bitlen_def list_update_append)
qed

text \<open>Setting byte \<open>k\<close> of the buffer to \<open>0x80\<close> and clearing the bytes up to \<open>m\<close>.\<close>

lemma zero_from_mark:
  assumes "length d = 64" "k < m" "m \<le> 64"
  shows "take m (zero_from (d[k := 0x80]) (k + 1) (m - (k + 1))) = take k d @ [0x80] @ replicate (m - (k + 1)) 0"
proof -
  have "take (k + 1) (d[k := 0x80]) = take k d @ [0x80]" using assms by (simp add: take_Suc_conv_app_nth)
  then show ?thesis using assms by (subst zero_from_eq) (auto simp: min_def take_Cons')
qed

lemma hash_bytes_eq: "hash_bytes st = concat (map (\<lambda>w. be_bytes 4 (unat w)) st)"
proof -
  have "(ucast (drop_bit (8 * i) w AND 0xff) :: BYTE) = of_nat (unat w div 256 ^ i)" for i and w :: WORD
  proof -
    have "(ucast (drop_bit (8 * i) w AND 0xff) :: BYTE) = ucast (drop_bit (8 * i) w)"
    proof (rule bit_word_eqI)
      fix n assume "n < LENGTH(8)"
      then have "bit (0xff :: WORD) n" by (auto simp: less_Suc_eq numeral_eq_Suc)
      then show "bit (ucast (drop_bit (8 * i) w AND 0xff) :: BYTE) n = bit (ucast (drop_bit (8 * i) w) :: BYTE) n"
        by (simp add: bit_simps)
    qed
    also have "\<dots> = of_nat (unat (drop_bit (8 * i) w))" by simp
    also have "unat (drop_bit (8 * i) w) = unat w div 256 ^ i"
      unfolding unat_drop_bit_eq by (simp add: drop_bit_eq_div power_mult)
    finally show ?thesis .
  qed
  from this [of 0] this [of 1] this [of 2] this [of 3]
  show ?thesis by (simp add: hash_bytes_def be_bytes_def upt_rec)
qed

lemma be_bytes_length [simp]: "length (be_bytes n v) = n"
  by (simp add: be_bytes_def)

lemma be_bytes_word: "be_bytes 8 (unat (of_nat v :: 64 word)) = be_bytes 8 v"
proof -
  have "(of_nat (v mod 2 ^ 64 div 256 ^ i) :: BYTE) = of_nat (v div 256 ^ i)" if "i < 8" for i
  proof (rule bit_word_eqI)
    fix j assume "j < LENGTH(8)"
    have "v mod 2 ^ 64 div 256 ^ i = drop_bit (8 * i) (take_bit 64 v)" "v div 256 ^ i = drop_bit (8 * i) v"
      by (simp_all add: drop_bit_eq_div take_bit_eq_mod power_mult)
    then show "bit (of_nat (v mod 2 ^ 64 div 256 ^ i) :: BYTE) j = bit (of_nat (v div 256 ^ i) :: BYTE) j"
      using \<open>j < LENGTH(8)\<close> that by (simp add: bit_simps)
  qed
  then show ?thesis by (auto simp: be_bytes_def unat_of_nat)
qed

lemma be_bytes_bits: "be_bytes 8 (unat (of_nat (512 * n) + of_nat (k * 8) :: 64 word)) = be_bytes 8 (8 * (64 * n + k))"
proof -
  have "of_nat (512 * n) + of_nat (k * 8) = (of_nat (8 * (64 * n + k)) :: 64 word)"
    by (simp flip: of_nat_add of_nat_mult add: algebra_simps)
  then show ?thesis by (simp only: be_bytes_word)
qed

text \<open>The padded message: its full blocks, then one or two blocks with the rest.\<close>

lemma blocks_last:
  assumes "length msg = 64 * n + k" "k < 64" "length ys = 64 - k"
  shows "blocks (Suc n) (msg @ ys @ zs) = blocks n msg @ [drop (64 * n) msg @ ys]"
  unfolding blocks_Suc using assms by (simp add: blocks_append)

lemma pad_short:
  assumes "length msg = 64 * n + k" "k < 56"
  shows "length (fips_pad msg) div 64 = Suc n"
    "blocks (Suc n) (fips_pad msg) = blocks n msg @
       [drop (64 * n) msg @ [0x80] @ replicate (55 - k) 0 @ be_bytes 8 (8 * (64 * n + k))]"
proof -
  let ?ys = "[0x80] @ replicate (55 - k) 0 @ be_bytes 8 (8 * (64 * n + k))"
  have "119 - k = (55 - k) + 64" using assms(2) by simp
  then have "(119 - k) mod 64 = 55 - k" by (simp only: mod_add_self2) simp
  moreover have "length msg mod 64 = k" using assms by simp
  ultimately have p: "fips_pad msg = msg @ ?ys @ []" unfolding fips_pad_def using assms(1) by simp
  have "length ?ys = 64 - k" using assms(2) by simp
  then show "blocks (Suc n) (fips_pad msg) = blocks n msg @ [drop (64 * n) msg @ ?ys]"
    unfolding p using assms by (intro blocks_last) auto
  show "length (fips_pad msg) div 64 = Suc n"
    unfolding p using assms by simp
qed

lemma pad_long:
  assumes "length msg = 64 * n + k" "56 \<le> k" "k < 64"
  shows "length (fips_pad msg) div 64 = Suc (Suc n)"
    "blocks (Suc (Suc n)) (fips_pad msg) = blocks n msg @
       [drop (64 * n) msg @ [0x80] @ replicate (63 - k) 0, replicate 56 0 @ be_bytes 8 (8 * (64 * n + k))]"
proof -
  let ?ys = "[0x80] @ replicate (63 - k) 0" and ?zs = "replicate 56 0 @ be_bytes 8 (8 * (64 * n + k))"
  have "length msg mod 64 = k" "(119 - k) mod 64 = (63 - k) + 56" using assms by simp_all
  then have "fips_pad msg = msg @ [0x80] @ replicate ((63 - k) + 56) 0 @ be_bytes 8 (8 * (64 * n + k))"
    unfolding fips_pad_def using assms(1) by simp
  then have p: "fips_pad msg = msg @ ?ys @ ?zs" by (simp only: replicate_add append_assoc)
  have "length (msg @ ?ys) = 64 * Suc n + 0" using assms by simp
  then have "blocks (Suc (Suc n)) ((msg @ ?ys) @ ?zs @ []) = blocks (Suc n) (msg @ ?ys @ []) @ [drop (64 * Suc n) (msg @ ?ys) @ ?zs]"
    by (subst blocks_last [where k = 0]) simp_all
  moreover have "blocks (Suc n) (msg @ ?ys @ []) = blocks n msg @ [drop (64 * n) msg @ ?ys]"
    using assms by (intro blocks_last) auto
  moreover have "drop (64 * Suc n) (msg @ ?ys) = []" using \<open>length (msg @ ?ys) = _\<close> by simp
  ultimately show "blocks (Suc (Suc n)) (fips_pad msg) = blocks n msg @ [drop (64 * n) msg @ ?ys, ?zs]"
    unfolding p by simp
  show "length (fips_pad msg) div 64 = Suc (Suc n)"
    unfolding p using assms by simp
qed

lemma final_eq:
  assumes "holds ctx msg"
  shows "sha256_final ctx = fips_sha256 msg"
proof -
  define n k where "n = length msg div 64" and "k = length msg mod 64"
  have len: "length msg = 64 * n + k" "k < 64" by (simp_all add: n_def k_def)
  have h: "length (sha_data ctx) = 64" "sha_datalen ctx = k" "take k (sha_data ctx) = drop (64 * n) msg"
    "sha_bitlen ctx = of_nat (512 * n)" "sha_state ctx = foldl fips_block init_state (blocks n msg)"
    using assms by (simp_all add: holds_def Let_def n_def k_def)
  have lz: "length (zero_from d i m) = length d" for d i m by (induction d i m rule: zero_from.induct) auto
  show ?thesis
  proof (cases "k < 56")
    case True
    then show ?thesis
      using h len zero_from_mark [OF h(1) True]
      by (simp add: sha256_final_def Let_def store_bitlen_eq lz transform_eq be_bytes_bits [simplified] hash_bytes_eq
          fips_sha256_def pad_short [OF len(1) True])
  next
    case False
    then have k: "56 \<le> k" by simp
    have "zero_from ((sha_data ctx)[k := 0x80]) (k + 1) (64 - (k + 1)) = drop (64 * n) msg @ [0x80] @ replicate (63 - k) 0"
      using zero_from_mark [OF h(1) len(2)] h lz [of "(sha_data ctx)[k := 0x80]"] by simp
    then show ?thesis
      using h len k
      by (simp add: sha256_final_def Let_def store_bitlen_eq lz transform_eq be_bytes_bits [simplified] hash_bytes_eq
          fips_sha256_def pad_long [OF len(1) k len(2)] zero_from_eq)
  qed
qed

section \<open>Streaming\<close>

text \<open>The contract of a hash that takes its input in pieces: a piece below the limit is absorbed,
  and absorbing is a right action of the lists.\<close>

locale stream_hash =
  fixes upd :: "'c \<Rightarrow> 'b list \<Rightarrow> 'c option"
    and absorb :: "'c \<Rightarrow> 'b list \<Rightarrow> 'c"
    and limit :: nat
  assumes upd_absorb: "length xs < limit \<Longrightarrow> upd c xs = Some (absorb c xs)"
    and absorb_Nil: "absorb c [] = c"
    and absorb_append: "absorb c (xs @ ys) = absorb (absorb c xs) ys"
begin

lemma pieces:
  assumes "list_all (\<lambda>p. length p < limit) ps" "step [] = Some"
    "\<And>p ps. step (p # ps) = (\<lambda>c. Option.bind (upd c p) (step ps))"
  shows "step ps c = Some (absorb c (concat ps))"
  using assms(1)
proof (induction ps arbitrary: c)
  case Nil
  then show ?case by (simp add: assms(2) absorb_Nil)
next
  case (Cons p ps)
  then show ?case by (simp add: assms(3) upd_absorb absorb_append)
qed

end

interpretation sha: stream_hash sha256_update "\<lambda>c d. fold update_byte d c" "2 ^ 32"
  by unfold_locales (simp_all add: sha256_update_def)

text \<open>Feeding a message piece by piece.\<close>

fun update_all :: "BYTE list list \<Rightarrow> SHA256_CTX \<Rightarrow> SHA256_CTX option" where
  "update_all [] = Some"
| "update_all (p # ps) = (\<lambda>c. Option.bind (sha256_update c p) (update_all ps))"



lemma fips_block_length: "length st = 8 \<Longrightarrow> length (fips_block st b) = 8"
proof -
  have "length (fips_round st kw) = length st" for st kw
    by (induction st kw rule: fips_round.induct) simp_all
  then have "length (foldl fips_round st kws) = length st" for st kws
    by (induction kws arbitrary: st) simp_all
  then show "length st = 8 \<Longrightarrow> ?thesis" by (simp add: fips_block_def)
qed

lemma fips_sha256_length: "length (fips_sha256 msg) = 32"
proof -
  have "length st = 8 \<Longrightarrow> length (foldl fips_block st bs) = 8" for st bs
    by (induction bs arbitrary: st) (simp_all add: fips_block_length)
  then have "length (foldl fips_block init_state bs) = 8" for bs by (simp add: init_state_def)
  then show ?thesis by (simp add: fips_sha256_def Let_def length_concat comp_def sum_list_const_mult sum_list_triv)
qed

end
