(* ===== verification/SmHeader.thy ===== *)
theory SmHeader
  imports Smoltar ShaProps
begin

text \<open>
  The fields and the header block of the archiver: octal numbers are read back, the block has 512
  bytes, its checksum is right, and its fields are found again when the block is read.
\<close>

section \<open>Octal numbers\<close>

fun octs :: "nat \<Rightarrow> nat \<Rightarrow> string" where
  "octs 0 v = []"
| "octs (Suc n) v = octs n (v div 8) @ [char_of (48 + v mod 8)]"

lemma octs_length [simp]: "length (octs n v) = n"
  by (induction n v rule: octs.induct) simp_all

lemma octs_lead: "octs (Suc n) v = char_of (48 + v div 8 ^ n mod 8) # octs n v"
proof (induction n arbitrary: v)
  case (Suc n)
  have "octs (Suc (Suc n)) v = octs (Suc n) (v div 8) @ [char_of (48 + v mod 8)]" by simp
  also have "\<dots> = char_of (48 + v div 8 div 8 ^ n mod 8) # octs (Suc n) v"
    by (simp only: Suc.IH [of "v div 8"]) simp
  finally show ?case by (simp only: div_mult2_eq power_Suc)
qed simp

lemma octs_sevens: "octs n (8 ^ n - 1) = replicate n (CHR ''7'')"
proof (induction n)
  case (Suc n)
  have "8 ^ Suc n - 1 = (8 ^ n - 1) * 8 + (7 :: nat)"
    by (simp add: diff_mult_distrib)
  then have "(8 ^ Suc n - 1) div 8 = (8 ^ n - 1 :: nat)" "(8 ^ Suc n - 1) mod 8 = (7 :: nat)" by simp_all
  moreover have "(char_of (48 + 7 :: nat) :: char) = CHR ''7''" by code_simp
  ultimately have "octs (Suc n) (8 ^ Suc n - 1) = replicate n (CHR ''7'') @ [CHR ''7'']"
    by (simp only: octs.simps Suc)
  then show ?case by (simp only: replicate_append_same replicate_Suc)
qed simp

lemma and_seven: "unat (v AND 7 :: 64 word) = unat v mod 8"
proof -
  have "v AND 7 = take_bit 3 v" by (simp add: take_bit_eq_mask mask_eq_exp_minus_1)
  then show ?thesis by (simp only: unsigned_take_bit_eq) (simp add: take_bit_eq_mod)
qed

lemma drop_three: "unat (drop_bit 3 v :: 64 word) = unat v div 8"
  unfolding unat_drop_bit_eq by (simp add: drop_bit_eq_div)

lemma octal_loop_eq:
  "i < length dest \<Longrightarrow> octal_loop dest i v = (take 1 dest @ octs i (unat v) @ drop (i + 1) dest, drop_bit (3 * i) v)"
proof (induction dest i v rule: octal_loop.induct)
  case (1 dest v)
  then show ?case by (cases dest) auto
next
  case (2 dest i v)
  let ?d = "dest[Suc i := char_of (48 + unat (v AND 7))]"
  have "drop (i + 1) ?d = char_of (48 + unat v mod 8) # drop (Suc i + 1) dest"
    using 2(2) by (simp add: and_seven drop_update_swap Cons_nth_drop_Suc [symmetric])
  moreover have "take 1 ?d = take 1 dest" using 2(2) by simp
  moreover have "drop_bit (3 * i) (drop_bit 3 v) = drop_bit (3 * Suc i) v" by (simp add: drop_bit_drop_bit algebra_simps)
  ultimately show ?case using 2 by (simp add: drop_three)
qed

lemma format_octal_eq:
  assumes "length dest = n + 1" "0 < n"
  shows "format_octal dest v = octs n (min (unat v) (8 ^ n - 1)) @ [NUL]"
proof -
  obtain m where m: "n = Suc m" using assms by (cases n) auto
  let ?d = "dest[n := NUL]"
  obtain c ds where "dest = c # ds" "length ds = Suc m" using assms m by (cases dest) auto
  moreover from this obtain ms e where "ds = ms @ [e]" "length ms = m" by (cases ds rule: rev_cases) auto
  ultimately have d: "?d = c # ms @ [NUL]" "length ms = m" using m by (simp_all add: list_update_append)
  have loop: "octal_loop ?d m v = ([c] @ octs m (unat v) @ [NUL], drop_bit (3 * m) v)"
    using octal_loop_eq [of m ?d v] d by simp
  have u: "unat (drop_bit (3 * m) v) = unat v div 8 ^ m"
    unfolding unat_drop_bit_eq by (simp add: drop_bit_eq_div power_mult)
  have big: "drop_bit (3 * m) v > 7 \<longleftrightarrow> 8 ^ n \<le> unat v"
    unfolding word_less_nat_alt u m by (simp add: less_eq_div_iff_mult_less_eq Suc_le_eq [symmetric])
  show ?thesis
  proof (cases "8 ^ n \<le> unat v")
    case True
    then have "octs n (min (unat v) (8 ^ n - 1)) = replicate n (CHR ''7'')" by (simp add: octs_sevens [simplified])
    then show ?thesis
      using True big assms m loop by (simp add: format_octal_def Let_def del: octs.simps)
  next
    case False
    then have "min (unat v) (8 ^ n - 1) = unat v" by simp
    moreover have "octs n (unat v) = char_of (48 + unat (drop_bit (3 * m) v AND 7)) # octs m (unat v)"
      unfolding m octs_lead by (simp add: and_seven u)
    ultimately show ?thesis
      using False big assms m loop by (simp add: format_octal_def Let_def)
  qed
qed

lemma push_or: "d < 8 \<Longrightarrow> push_bit 3 r OR of_nat d = (r * 8 + of_nat d :: 64 word)"
proof -
  assume "d < 8"
  have "push_bit 3 r AND of_nat d = (0 :: 64 word)"
  proof (rule bit_word_eqI)
    fix n
    have "\<not> bit d n" if "3 \<le> n"
    proof -
      have "(2 :: nat) ^ 3 \<le> 2 ^ n" using that by (intro power_increasing) simp_all
      then show ?thesis using \<open>d < 8\<close> by (simp add: bit_iff_odd)
    qed
    then show "bit (push_bit 3 r AND of_nat d :: 64 word) n = bit (0 :: 64 word) n"
      by (auto simp: bit_simps)
  qed
  then show ?thesis by (simp add: disjunctive_add_eq_or [symmetric] push_bit_eq_mult mult.commute)
qed

lemma octal_digit: "d < 8 \<Longrightarrow> is_octal (char_of (48 + d)) \<and> code (char_of (48 + d)) - 48 = d"
  by (simp add: is_octal_def code_def)

lemma parse_digit:
  assumes "d < 8"
  shows "parse_octal_loop (of_nat a) (char_of (48 + d) # xs) = parse_octal_loop (of_nat (a * 8 + d)) xs"
  using octal_digit [OF assms] assms by (simp add: push_or)

lemma parse_octs:
  "parse_octal_loop (of_nat a) (octs n v @ xs) = parse_octal_loop (of_nat (a * 8 ^ n + v mod 8 ^ n)) xs"
proof (induction n arbitrary: v xs)
  case (Suc n)
  have "v mod 8 ^ Suc n = v mod 8 + v div 8 mod 8 ^ n * 8"
    by (simp add: mod_mult2_eq mult.commute)
  then have s: "(a * 8 ^ n + v div 8 mod 8 ^ n) * 8 + v mod 8 = a * 8 ^ Suc n + v mod 8 ^ Suc n"
    by (simp add: algebra_simps)
  have "parse_octal_loop (of_nat a) (octs (Suc n) v @ xs)
      = parse_octal_loop (of_nat (a * 8 ^ n + v div 8 mod 8 ^ n)) (char_of (48 + v mod 8) # xs)"
    by (simp only: octs.simps append_assoc Suc.IH append.simps)
  also have "\<dots> = parse_octal_loop (of_nat (a * 8 ^ Suc n + v mod 8 ^ Suc n)) xs"
    by (simp only: parse_digit [of "v mod 8"] s mod_less_divisor zero_less_numeral)
  finally show ?case .
qed (simp add: parse_octal_loop.simps)

lemma parse_format_octal:
  assumes "length dest = n + 1" "0 < n" "n \<le> 21" "\<not> is_octal c"
  shows "parse_octal (format_octal dest v @ xs) = of_nat (min (unat v) (8 ^ n - 1))"
    "parse_octal ((format_octal dest v)[n := c]) = of_nat (min (unat v) (8 ^ n - 1))"
proof -
  have m: "min (unat v) (8 ^ n - 1) mod 8 ^ n = min (unat v) (8 ^ n - 1)"
    by (intro mod_less) (simp add: min_less_iff_disj)
  note m' = m [simplified]
  have f: "format_octal dest v = octs n (min (unat v) (8 ^ n - 1)) @ [NUL]" by (rule format_octal_eq [OF assms(1,2)])
  have z: "\<not> is_octal NUL" by (simp add: is_octal_def code_def)
  show "parse_octal (format_octal dest v @ xs) = of_nat (min (unat v) (8 ^ n - 1))"
    using parse_octs [of 0 n "min (unat v) (8 ^ n - 1)" "NUL # xs"] z by (simp add: f parse_octal_def m')
  show "parse_octal ((format_octal dest v)[n := c]) = of_nat (min (unat v) (8 ^ n - 1))"
    using parse_octs [of 0 n "min (unat v) (8 ^ n - 1)" "[c]"] assms(4)
    by (simp add: f parse_octal_def m' list_update_append)
qed

section \<open>The block\<close>

definition fits :: "tar_header \<Rightarrow> bool" where
  "fits h \<longleftrightarrow> length (th_name h) = 100 \<and> length (th_mode h) = 8 \<and> length (th_uid h) = 8
     \<and> length (th_gid h) = 8 \<and> length (th_size h) = 12 \<and> length (th_mtime h) = 12 \<and> length (th_chksum h) = 8
     \<and> length (th_linkname h) = 100 \<and> length (th_magic h) = 6 \<and> length (th_version h) = 2
     \<and> length (th_uname h) = 32 \<and> length (th_gname h) = 32 \<and> length (th_devmajor h) = 8
     \<and> length (th_devminor h) = 8 \<and> length (th_prefix h) = 155 \<and> length (th_padding h) = 12"

lemma header_length: "fits h \<Longrightarrow> length (header_bytes h) = 512"
  by (simp add: fits_def header_bytes_def)

lemma read_header_bytes: "fits h \<Longrightarrow> read_header (header_bytes h) = h"
  by (cases h) (simp add: fits_def header_bytes_def read_header_def slice_def nth_append)

lemma fits_read: "length b = 512 \<Longrightarrow> fits (read_header b)"
  by (simp add: fits_def read_header_def slice_def)

lemma slices:
  assumes "length b = 512"
  shows "header_bytes (read_header b) = b"
proof -
  have s: "slice off n b @ drop (off + n) b = drop off b" for off n
    by (simp add: slice_def) (metis append_take_drop_id drop_drop add.commute)
  have o: "b ! 156 # drop 157 b = drop 156 b" using assms Cons_nth_drop_Suc [of 156 b] by simp
  have "header_bytes (read_header b) @ drop 512 b = b"
    using s [of 0 100] s [of 100 8] s [of 108 8] s [of 116 8] s [of 124 12] s [of 136 12] s [of 148 8]
      s [of 157 100] s [of 257 6] s [of 263 2] s [of 265 32] s [of 297 32] s [of 329 8] s [of 337 8]
      s [of 345 155] s [of 500 12] o
    by (simp add: header_bytes_def read_header_def)
  then show ?thesis using assms by simp
qed

text \<open>The checksum as a number, and its independence of the checksum field.\<close>

definition byte_sum :: "string \<Rightarrow> nat" where
  "byte_sum b = sum_list (map (\<lambda>i. if 148 \<le> i \<and> i < 156 then 32 else code (b ! i)) [0..<512])"

lemma code_bound: "code c < 256"
  by (simp add: code_def)

lemma sum_of_nat: "sum_list (map (\<lambda>i. of_nat (f i)) xs) = (of_nat (sum_list (map f xs)) :: 64 word)"
  by (induction xs) simp_all

lemma checksum_byte_sum: "calculate_checksum h = of_nat (byte_sum (header_bytes h))"
proof -
  have "checksum_term b i = of_nat (if 148 \<le> i \<and> i < 156 then 32 else code (b ! i))" for b i
    by (simp add: checksum_term_def)
  then have "checksum_term b = (\<lambda>i. of_nat (if 148 \<le> i \<and> i < 156 then 32 else code (b ! i)))" for b by blast
  then show ?thesis unfolding calculate_checksum_def byte_sum_def by (simp only: sum_of_nat)
qed

lemma byte_sum_bound: "byte_sum b \<le> 130560"
proof -
  have "sum_list (map (\<lambda>i. if 148 \<le> i \<and> i < 156 then 32 else code (b ! i)) xs) \<le> length xs * 255" for xs
  proof (induction xs)
    case (Cons i xs)
    have "code (b ! i) \<le> 255" using code_bound [of "b ! i"] by simp
    with Cons show ?case by auto
  qed simp
  from this [of "[0..<512]"] show ?thesis by (simp add: byte_sum_def)
qed

lemma checksum_field_ignored:
  assumes "fits h" "length c = 8"
  shows "calculate_checksum (h\<lparr>th_chksum := c\<rparr>) = calculate_checksum h"
proof -
  let ?pre = "th_name h @ th_mode h @ th_uid h @ th_gid h @ th_size h @ th_mtime h"
  let ?post = "[th_typeflag h] @ th_linkname h @ th_magic h @ th_version h @ th_uname h @ th_gname h
     @ th_devmajor h @ th_devminor h @ th_prefix h @ th_padding h"
  have b: "header_bytes h = ?pre @ th_chksum h @ ?post" "header_bytes (h\<lparr>th_chksum := c\<rparr>) = ?pre @ c @ ?post"
    by (simp_all add: header_bytes_def)
  have l: "length ?pre = 148" "length (th_chksum h) = 8" using assms by (simp_all add: fits_def)
  have "checksum_term (?pre @ c @ ?post) i = checksum_term (?pre @ th_chksum h @ ?post) i" for i
    using l assms(2) by (cases "i < 148"; cases "i < 156") (auto simp: checksum_term_def nth_append simp del: append_assoc)
  then show ?thesis unfolding calculate_checksum_def b by presburger
qed

section \<open>The header of a file\<close>

lemma zero_fits: "fits zero_header"
  unfolding zero_header_def by (rule fits_read) simp

lemmas zero_lengths = zero_fits [unfolded fits_def]

lemma zero_name: "th_name zero_header = replicate 100 NUL" "th_linkname zero_header = replicate 100 NUL"
  by (simp_all add: zero_header_def read_header_def slice_def)

lemma format_octal_length: "2 \<le> length dest \<Longrightarrow> length (format_octal dest v) = length dest"
  using format_octal_eq [of dest "length dest - 1" v] by simp

lemma strncpy_length: "n \<le> length dest \<Longrightarrow> length (strncpy dest s n) = length dest"
  by (simp add: strncpy_def)

lemma fill_header_fits: "fits (fill_header fname n sha now)"
  using zero_lengths
  by (auto simp: fits_def fill_header_def Let_def format_octal_length strncpy_length split: option.splits)

lemma fill_header_fields [simp]:
  "th_name (fill_header fname n sha now) = strncpy (replicate 100 NUL) fname 99"
  "th_size (fill_header fname n sha now) = format_octal (th_size zero_header) n"
  "th_magic (fill_header fname n sha now) = ''ustar'' @ [NUL]"
  "th_linkname (fill_header fname n (Some s) now) = strncpy (replicate 100 NUL) s 99"
  by (simp_all add: fill_header_def Let_def zero_name)

lemma fill_header_checksum:
  "parse_octal (th_chksum (fill_header fname n sha now)) = calculate_checksum (fill_header fname n sha now)"
proof -
  define h1 where "h1 = (fill_header fname n sha now)\<lparr>th_chksum := replicate 8 (CHR '' '')\<rparr>"
  let ?c = "calculate_checksum h1"
  have h: "fill_header fname n sha now = h1\<lparr>th_chksum := (format_octal (replicate 8 (CHR '' '')) ?c)[7 := CHR '' '']\<rparr>"
    by (simp add: h1_def fill_header_def Let_def)
  have "fits h1" using fill_header_fits [of fname n sha now] by (simp add: h1_def fits_def)
  moreover have "length ((format_octal (replicate 8 (CHR '' '')) ?c)[7 := CHR '' '']) = 8"
    by (simp add: format_octal_length)
  ultimately have "calculate_checksum (fill_header fname n sha now) = ?c"
    unfolding h by (rule checksum_field_ignored)
  moreover have "parse_octal ((format_octal (replicate 8 (CHR '' '')) ?c)[7 := CHR '' '']) = of_nat (min (unat ?c) (8 ^ 7 - 1))"
    by (rule parse_format_octal) (simp_all add: is_octal_def code_def)
  moreover have "unat ?c \<le> 8 ^ 7 - 1"
    using byte_sum_bound [of "header_bytes h1"] by (simp add: checksum_byte_sum unat_of_nat)
  ultimately show ?thesis by (simp add: h min_absorb1)
qed

lemma fill_header_size:
  "parse_octal (th_size (fill_header fname n sha now)) = of_nat (min (unat n) (8 ^ 11 - 1))"
proof -
  have "length (th_size zero_header) = 11 + 1" using zero_lengths by simp
  from parse_format_octal(1) [OF this, of NUL n "[]"] show ?thesis by (simp add: is_octal_def code_def)
qed

lemma cstring_padded:
  assumes "no_nul s" "0 < k"
  shows "cstring (s @ replicate k NUL) = Some s"
    "takeWhile (\<lambda>c. c \<noteq> NUL) (s @ replicate k NUL) = s"
proof -
  obtain m where k: "k = Suc m" using assms(2) by (cases k) auto
  have "takeWhile (\<lambda>c. c \<noteq> NUL) (s @ NUL # ys) = s" for ys
    using assms(1) by (induction s) auto
  then show "cstring (s @ replicate k NUL) = Some s"
    "takeWhile (\<lambda>c. c \<noteq> NUL) (s @ replicate k NUL) = s" by (simp_all add: cstring_def k)
qed

lemma strncpy_zero:
  "n \<le> m \<Longrightarrow> strncpy (replicate m NUL) s n = take n s @ replicate (m - length (take n s)) NUL"
  by (simp add: strncpy_def min_def) (simp flip: replicate_add)

lemma no_nul_take: "no_nul s \<Longrightarrow> no_nul (take n s)"
  by (auto simp: no_nul_def dest: in_set_takeD)

lemma fill_header_name:
  "no_nul fname \<Longrightarrow> cstring (th_name (fill_header fname n sha now)) = Some (take 99 fname)"
  by (simp add: strncpy_zero cstring_padded no_nul_take)

lemma fill_header_name_first:
  "fname \<noteq> [] \<Longrightarrow> hd0 (th_name (fill_header fname n sha now)) = hd0 fname"
  by (cases fname) (simp_all add: strncpy_zero)

lemma fill_header_sha:
  assumes "no_nul s" "length s = 64"
  shows "takeWhile (\<lambda>c. c \<noteq> NUL) (take 64 (th_linkname (fill_header fname n (Some s) now))) = s"
proof -
  have "take 64 (th_linkname (fill_header fname n (Some s) now)) = s" using assms(2) by (simp add: strncpy_zero)
  moreover have "takeWhile (\<lambda>c. c \<noteq> NUL) s = s" using assms(1) by (auto simp: no_nul_def takeWhile_eq_all_conv)
  ultimately show ?thesis by simp
qed

end
