(* ===== verification/SmProps.thy ===== *)
theory SmProps
  imports SmHeader
begin

text \<open>
  The archiver: the hash of a file is SHA-256, an archive that was created is listed and extracted
  again, a damaged header is rejected, the safe mode overwrites nothing; and what an archive from
  elsewhere can do.
\<close>

lemma world_simps [simp]:
  "sm_files (say s w) = sm_files w" "sm_files (complain s w) = sm_files w"
  "sm_writable (say s w) = sm_writable w" "sm_writable (complain s w) = sm_writable w"
  "sm_files (set_file f c w) = (sm_files w)(f \<mapsto> c)" "sm_writable (set_file f c w) = sm_writable w"
  "sm_time (set_file f c w) = sm_time w" "sm_out (say s w) = sm_out w @ s"
  by (simp_all add: say_def complain_def set_file_def)

section \<open>Hashes\<close>

lemma hash_loop_eq: "hash_loop contents ctx = Some (fold update_byte (map to_byte contents) ctx)"
proof (induction contents ctx rule: hash_loop.induct)
  case (1 contents ctx)
  show ?case
  proof (cases "contents = []")
    case True
    then show ?thesis by (simp add: hash_loop.simps)
  next
    case False
    let ?t = "map to_byte (take 512 contents)" and ?d = "map to_byte (drop 512 contents)"
    have u: "sha256_update ctx ?t = Some (fold update_byte ?t ctx)" by (rule sha.upd_absorb) simp
    have "fold update_byte ?d (fold update_byte ?t ctx) = fold update_byte (?t @ ?d) ctx" by simp
    also have "?t @ ?d = map to_byte contents" by (metis append_take_drop_id map_append)
    finally show ?thesis using 1 [OF False u] False u by (subst hash_loop.simps) simp
  qed
qed

lemma compute_file_sha256_eq:
  "compute_file_sha256 contents = Some (sha256_to_hex (fips_sha256 (map to_byte contents)))"
proof -
  have "holds (sha256_init local_ctx) []" by (rule holds_init) (simp add: local_ctx_def)
  from final_eq [OF holds_update [OF this, of "map to_byte contents"]]
  show ?thesis by (simp add: compute_file_sha256_def hash_loop_eq)
qed

lemma nibbles: "unat (drop_bit 4 b :: BYTE) < 16" "unat (b AND 0x0f :: BYTE) < 16"
proof -
  have "unat b < 256" using unsigned_less [of b] by simp
  moreover have "unat (drop_bit 4 b) = unat b div 16" unfolding unat_drop_bit_eq by (simp add: drop_bit_eq_div)
  ultimately show "unat (drop_bit 4 b) < 16" by simp
  have "b AND 0x0f = take_bit 4 b" by (simp add: take_bit_eq_mask mask_eq_exp_minus_1)
  then have "unat (b AND 0x0f) = unat b mod 16" by (simp only: unsigned_take_bit_eq) (simp add: take_bit_eq_mod)
  then show "unat (b AND 0x0f) < 16" by simp
qed

lemma hex_length: "length (sha256_to_hex d) = 2 * length d"
  by (simp add: sha256_to_hex_def length_concat comp_def sum_list_const_mult sum_list_triv)

lemma hex_no_nul: "no_nul (sha256_to_hex d)"
proof -
  have "hexchars ! n \<noteq> NUL" if "n < 16" for n
  proof -
    have "hexchars ! n \<in> set hexchars" using that by (intro nth_mem) (simp add: hexchars_def)
    then show ?thesis by (auto simp: hexchars_def)
  qed
  then show ?thesis using nibbles by (auto simp: no_nul_def sha256_to_hex_def) metis+
qed

abbreviation hex_of :: "string \<Rightarrow> string" where
  "hex_of contents \<equiv> sha256_to_hex (fips_sha256 (map to_byte contents))"

section \<open>One member of an archive\<close>

definition member :: "64 word \<Rightarrow> string \<times> string \<Rightarrow> string" where
  "member now m = header_bytes (fill_header (fst m) (of_nat (length (snd m))) (Some (hex_of (snd m))) now)
     @ snd m @ pad_bytes (length (snd m))"

definition good_name :: "string \<Rightarrow> bool" where
  "good_name f \<longleftrightarrow> f \<noteq> [] \<and> no_nul f \<and> length f \<le> 99"

abbreviation (input) max_size :: nat where "max_size \<equiv> 8589934592"

lemma copy_data_eq: "copy_data (c @ rest) (length c) out = (True, rest, out @ c)"
proof (induction "length c" arbitrary: c out rule: less_induct)
  case less
  show ?case
  proof (cases "length c > 512")
    case True
    let ?d = "drop 512 c"
    have "copy_data (?d @ rest) (length ?d) (out @ take 512 c) = (True, rest, (out @ take 512 c) @ ?d)"
      by (rule less) (use True in simp)
    then show ?thesis using True by (subst copy_data.simps) (simp add: Let_def)
  next
    case False
    then show ?thesis by (subst copy_data.simps) (simp add: Let_def copy_data.simps [of _ 0])
  qed
qed

lemma pad_length: "(511 + length c) div 512 * 512 = length c + length (pad_bytes (length c))"
proof -
  define q r where "q = length c div 512" and "r = length c mod 512"
  have l: "length c = 512 * q + r" "r < 512" by (simp_all add: q_def r_def)
  show ?thesis
  proof (cases "r = 0")
    case True
    then show ?thesis using l by (simp add: pad_bytes_def Let_def)
  next
    case False
    then have "511 + length c = (r - 1) + 512 * Suc q" using l by simp
    then have "(511 + length c) div 512 = Suc q" using l False by simp
    then show ?thesis using False l by (simp add: pad_bytes_def Let_def)
  qed
qed

lemma skip_data_member: "skip_data (length c) (c @ pad_bytes (length c) @ rest) = rest"
  unfolding skip_data_def using pad_length [of c] by simp

text \<open>What the readers see of a member.\<close>

lemma member_header:
  fixes c :: string and now :: "64 word"
  assumes "good_name nm" "length c < max_size"
  defines "h \<equiv> fill_header nm (of_nat (length c)) (Some (hex_of c)) now"
  shows "take 512 (member now (nm, c) @ rest) = header_bytes h"
    "drop 512 (member now (nm, c) @ rest) = c @ pad_bytes (length c) @ rest"
    "read_header (header_bytes h) = h" "hd0 (th_name h) \<noteq> NUL" "take 5 (th_magic h) = ''ustar''"
    "cstring (th_name h) = Some nm" "calculate_checksum h = parse_octal (th_chksum h)"
    "unat (parse_octal (th_size h)) = length c"
    "takeWhile (\<lambda>c. c \<noteq> NUL) (take 64 (th_linkname h)) = hex_of c"
proof -
  have f: "fits h" by (simp add: h_def fill_header_fits)
  show "take 512 (member now (nm, c) @ rest) = header_bytes h"
    "drop 512 (member now (nm, c) @ rest) = c @ pad_bytes (length c) @ rest"
    using header_length [OF f] by (simp_all add: member_def h_def)
  show "read_header (header_bytes h) = h" using f by (rule read_header_bytes)
  show "hd0 (th_name h) \<noteq> NUL"
    using assms(1) by (cases nm) (auto simp: good_name_def h_def fill_header_name_first simp del: fill_header_fields)
  show "cstring (th_name h) = Some nm"
    using assms(1) by (simp add: good_name_def h_def fill_header_name del: fill_header_fields)
  show "calculate_checksum h = parse_octal (th_chksum h)" by (simp add: h_def fill_header_checksum)
  show "unat (parse_octal (th_size h)) = length c"
    using assms(2) by (simp add: h_def fill_header_size unat_of_nat del: fill_header_fields)
  show "takeWhile (\<lambda>c. c \<noteq> NUL) (take 64 (th_linkname h)) = hex_of c"
    unfolding h_def by (rule fill_header_sha) (simp_all add: hex_no_nul hex_length fips_sha256_length)
qed (simp add: h_def)

lemma member_length: "512 \<le> length (member now m @ rest)"
  using header_length [OF fill_header_fits] by (simp add: member_def)

text \<open>The effect of extracting a member: the message, then the file unless the mode skips it.\<close>

lemma extract_member:
  assumes "good_name nm" "length c < max_size"
    "check_mode mode (output_name prefix nm) (hex_of c) (say (''Extracting: '' @ nm @ [LF]) w) = Some (should, w')"
    "should \<longrightarrow> sm_writable w' (output_name prefix nm) \<and> output_name prefix nm \<noteq> a"
  shows "extract_loop a (member now (nm, c) @ rest) mode prefix w =
    extract_loop a rest mode prefix (if should then set_file (output_name prefix nm) c w' else w')"
proof -
  note h = member_header [OF assms(1,2), where now = now]
  show ?thesis
    using member_length [of now "(nm, c)" rest] assms(3,4) copy_data_eq [of c _ "[]"] skip_data_member [of c]
    by (subst extract_loop.simps, unfold h(1,2,3))
      (simp add: Let_def h(3-9) extract_file_def not_less del: fill_header_fields)
qed

lemma list_member:
  assumes "good_name nm" "length c < max_size"
  shows "list_loop (member now (nm, c) @ rest) w = list_loop rest (say (list_line nm (show_nat (length c))) w)"
proof -
  note h = member_header [OF assms, where now = now]
  show ?thesis
    using member_length [of now "(nm, c)" rest] skip_data_member [of c]
    by (subst list_loop.simps, unfold h(1,2,3)) (simp add: Let_def h(3-9) not_less del: fill_header_fields)
qed

section \<open>Reading a whole archive\<close>

text \<open>The contract of a loop that reads an archive member by member: on a good member it does the
  member's effect and goes on behind it, at the end marker it stops.\<close>

locale archive_reader =
  fixes loop :: "string \<Rightarrow> 's \<Rightarrow> 'r"
    and block :: "'m \<Rightarrow> string"
    and effect :: "'m \<Rightarrow> 's \<Rightarrow> 's"
    and good :: "'m \<Rightarrow> 's \<Rightarrow> bool"
    and stop :: string
    and result :: "'s \<Rightarrow> 'r"
  assumes step: "good m s \<Longrightarrow> loop (block m @ rest) s = loop rest (effect m s)"
    and good_effect: "good m s \<Longrightarrow> good m' s \<Longrightarrow> good m' (effect m s)"
    and stop: "loop stop s = result s"
begin

lemma reads_all:
  "\<forall>m \<in> set ms. good m s \<Longrightarrow> loop (concat (map block ms) @ stop) s = result (fold effect ms s)"
proof (induction ms arbitrary: s)
  case Nil
  then show ?case by (simp add: stop)
next
  case (Cons m ms)
  then have "\<forall>m' \<in> set ms. good m' (effect m s)" using good_effect by auto
  from Cons.IH [OF this] Cons.prems show ?case by (simp add: step)
qed

end

abbreviation end_marker :: string where "end_marker \<equiv> replicate 1024 NUL"

lemma end_header: "hd0 (th_name (read_header (take 512 end_marker))) = NUL"
  by (simp add: read_header_def slice_def numeral_eq_Suc)

lemma reading_stops:
  "extract_loop a end_marker mode prefix w = Some (True, w)" "list_loop end_marker w = Some (True, w)"
  using end_header by (simp_all add: extract_loop.simps [of _ end_marker] list_loop.simps [of end_marker] Let_def)

definition storable :: "string \<times> string \<Rightarrow> bool" where
  "storable m \<longleftrightarrow> good_name (fst m) \<and> length (snd m) < max_size"

definition write_member :: "string \<times> string \<Rightarrow> Sm \<Rightarrow> Sm" where
  "write_member m w = set_file (fst m) (snd m) (say (''Extracting: '' @ fst m @ [LF]) w)"

lemma output_name_plain: "length nm \<le> 254 \<Longrightarrow> output_name None nm = nm"
  by (simp add: output_name_def)

interpretation extracting: archive_reader
  "\<lambda>rest w. extract_loop a rest MODE_FORCE None w" "member now" write_member
  "\<lambda>m w. storable m \<and> fst m \<noteq> a \<and> sm_writable w (fst m)" end_marker "\<lambda>w. Some (True, w)"
proof unfold_locales
  fix m :: "string \<times> string" and w :: Sm and rest
  assume m: "storable m \<and> fst m \<noteq> a \<and> sm_writable w (fst m)"
  then have "output_name None (fst m) = fst m" by (intro output_name_plain) (simp add: storable_def good_name_def)
  then show "extract_loop a (member now m @ rest) MODE_FORCE None w = extract_loop a rest MODE_FORCE None (write_member m w)"
    using extract_member [of "fst m" "snd m" MODE_FORCE None w True "say (''Extracting: '' @ fst m @ [LF]) w" a now rest] m
    by (simp add: check_mode_def write_member_def storable_def)
qed (simp_all add: write_member_def reading_stops)

interpretation listing: archive_reader
  list_loop "member now" "\<lambda>m. say (list_line (fst m) (show_nat (length (snd m))))"
  "\<lambda>m w. storable m" end_marker "\<lambda>w. Some (True, w)"
proof unfold_locales
  fix m :: "string \<times> string" and w :: Sm and rest
  assume "storable m"
  then show "list_loop (member now m @ rest) w = list_loop rest (say (list_line (fst m) (show_nat (length (snd m)))) w)"
    using list_member [of "fst m" "snd m" now rest w] by (simp add: storable_def)
qed (simp_all add: reading_stops)

section \<open>Creating\<close>

definition stored :: "Sm \<Rightarrow> string \<Rightarrow> string \<times> string" where
  "stored w f = (f, the (sm_files w f))"

definition archivable :: "Sm \<Rightarrow> string \<Rightarrow> string \<Rightarrow> bool" where
  "archivable w a f \<longleftrightarrow> f \<noteq> a \<and> CHR ''/'' \<notin> set f \<and> CHR 0x5C \<notin> set f
     \<and> sm_files w f \<noteq> None \<and> storable (stored w f)"

lemma add_files_eq:
  assumes "\<forall>f \<in> set fs. archivable w a f"
  shows "add_files a archive fs w = Some (True, archive @ concat (map (member (sm_time w)) (map (stored w) fs)), w)"
  using assms
proof (induction fs arbitrary: archive)
  case (Cons f fs)
  then obtain c where c: "sm_files w f = Some c" by (auto simp: archivable_def)
  then have "add_file_to_archive a archive f w = Some (True, archive @ member (sm_time w) (stored w f), w)"
    using Cons.prems by (auto simp: add_file_to_archive_def compute_file_sha256_eq init_header_def archivable_def stored_def member_def)
  with Cons show ?case by simp
qed simp

lemma create_archive_eq:
  assumes "sm_writable w a" "\<forall>f \<in> set fs. archivable w a f"
  shows "\<exists>w'. create_archive a fs w = Some (True, w')
    \<and> sm_files w' = (sm_files w)(a \<mapsto> concat (map (member (sm_time w)) (map (stored w) fs)) @ end_marker)"
proof -
  let ?w = "set_file a [] w"
  have s: "stored ?w f = stored w f \<and> archivable ?w a f" if "f \<in> set fs" for f
    using assms(2) that by (auto simp: archivable_def stored_def)
  then have e: "map (stored ?w) fs = map (stored w) fs" by (intro map_cong) auto
  have "add_files a [] fs ?w = Some (True, [] @ concat (map (member (sm_time ?w)) (map (stored ?w) fs)), ?w)"
    using s by (intro add_files_eq) auto
  then have "add_files a [] fs ?w = Some (True, concat (map (member (sm_time w)) (map (stored w) fs)), ?w)"
    unfolding e by simp
  then show ?thesis using assms(1) by (simp add: create_archive_def)
qed

definition skip_member :: "string \<times> string \<Rightarrow> Sm \<Rightarrow> Sm" where
  "skip_member m w = complain (''Skipping '' @ quoted (fst m) @ '': identical (SHA-256 match)'' @ [LF])
     (say (''Extracting: '' @ fst m @ [LF]) w)"

interpretation skipping: archive_reader
  "\<lambda>rest w. extract_loop a rest MODE_NORMAL None w" "member now" skip_member
  "\<lambda>m w. storable m \<and> sm_files w (fst m) = Some (snd m)" end_marker "\<lambda>w. Some (True, w)"
proof unfold_locales
  fix m :: "string \<times> string" and w :: Sm and rest
  assume m: "storable m \<and> sm_files w (fst m) = Some (snd m)"
  then have "output_name None (fst m) = fst m" by (intro output_name_plain) (simp add: storable_def good_name_def)
  moreover have "hex_of (snd m) \<noteq> []" using hex_length [of "fips_sha256 (map to_byte (snd m))"]
    by (auto simp: fips_sha256_length)
  ultimately have "check_mode MODE_NORMAL (output_name None (fst m)) (hex_of (snd m)) (say (''Extracting: '' @ fst m @ [LF]) w)
      = Some (False, skip_member m w)"
    using m by (simp add: check_mode_def compute_file_sha256_eq skip_member_def)
  then show "extract_loop a (member now m @ rest) MODE_NORMAL None w = extract_loop a rest MODE_NORMAL None (skip_member m w)"
    using extract_member [of "fst m" "snd m" MODE_NORMAL None w False "skip_member m w" a now rest] m
    by (simp add: storable_def)
qed (simp_all add: skip_member_def reading_stops)

section \<open>Properties\<close>

lemma fold_write_member:
  "sm_files (fold write_member (map (stored v) fs) w) f = (if f \<in> set fs then Some (the (sm_files v f)) else sm_files w f)"
  by (induction fs arbitrary: w) (auto simp: write_member_def stored_def)

text \<open>
  C12. Create and extract: an archive created from files with plain names and a size that fits the size
  field can be extracted anywhere its names can be written, and gives every file its contents back,
  leaving the other files alone.
\<close>

theorem create_extract_roundtrip:
  assumes "sm_writable w a" "\<forall>f \<in> set fs. archivable w a f"
    "create_archive a fs w = Some (ok, w1)"
    "sm_files w2 a = sm_files w1 a" "\<forall>f \<in> set fs. sm_writable w2 f"
  shows "ok \<and> (\<exists>w3. extract_archive a MODE_FORCE None w2 = Some (True, w3)
    \<and> (\<forall>f. sm_files w3 f = (if f \<in> set fs then sm_files w f else sm_files w2 f)))"
proof -
  let ?ms = "map (stored w) fs"
  obtain w' where c: "create_archive a fs w = Some (True, w')"
    "sm_files w' a = Some (concat (map (member (sm_time w)) ?ms) @ end_marker)"
    using create_archive_eq [OF assms(1,2)] by auto
  have "\<forall>m \<in> set ?ms. storable m \<and> fst m \<noteq> a \<and> sm_writable w2 (fst m)"
    using assms(2,5) by (auto simp: archivable_def stored_def)
  from extracting.reads_all [OF this, of "sm_time w"]
  have "extract_archive a MODE_FORCE None w2 = Some (True, say (''Extraction completed'' @ [LF]) (fold write_member ?ms w2))"
    using c assms(3,4) by (simp add: extract_archive_def del: map_map)
  moreover have "sm_files w f = Some (the (sm_files w f))" if "f \<in> set fs" for f
    using assms(2) that by (auto simp: archivable_def)
  ultimately show ?thesis using c(1) assms(3) by (simp add: fold_write_member del: map_map)
qed

definition sample_disk :: Sm where
  "sample_disk = \<lparr>sm_files = [''f'' \<mapsto> ''hello'', ''g'' \<mapsto> []], sm_writable = (\<lambda>f. True), sm_time = 7, sm_out = [], sm_err = []\<rparr>"

lemma sample_archivable: "\<forall>f \<in> set [''f'', ''g'']. archivable sample_disk ''a.tar'' f"
  by (simp add: archivable_def sample_disk_def storable_def stored_def good_name_def)

theorem create_extract_roundtrip_witness:
  "\<exists>w1 w3. create_archive ''a.tar'' [''f'', ''g''] sample_disk = Some (True, w1)
     \<and> extract_archive ''a.tar'' MODE_FORCE None (sample_disk\<lparr>sm_files := [''a.tar'' \<mapsto> the (sm_files w1 ''a.tar'')]\<rparr>) = Some (True, w3)
     \<and> sm_files w3 ''f'' = Some ''hello''"
proof -
  have w: "sm_writable sample_disk f" for f by (simp add: sample_disk_def)
  obtain w1 where c: "create_archive ''a.tar'' [''f'', ''g''] sample_disk = Some (True, w1)" "sm_files w1 ''a.tar'' \<noteq> None"
    using create_archive_eq [OF w sample_archivable] by auto
  let ?w2 = "sample_disk\<lparr>sm_files := [''a.tar'' \<mapsto> the (sm_files w1 ''a.tar'')]\<rparr>"
  have "sm_files ?w2 ''a.tar'' = sm_files w1 ''a.tar''" "\<forall>f \<in> set [''f'', ''g'']. sm_writable ?w2 f"
    using c(2) by (auto simp: sample_disk_def)
  from create_extract_roundtrip [OF w sample_archivable c(1) this] c(1)
  show ?thesis by (auto simp: sample_disk_def)
qed

text \<open>
  The normal mode: extracting an archive over the very files it was created from skips every one
  of them by its SHA-256 and changes no file, even when none of them can be written.
\<close>

theorem normal_mode_skips_identical:
  assumes "sm_writable w a" "\<forall>f \<in> set fs. archivable w a f" "create_archive a fs w = Some (ok, w1)"
    "sm_files w2 = sm_files w1"
  shows "\<exists>w3. extract_archive a MODE_NORMAL None w2 = Some (True, w3) \<and> sm_files w3 = sm_files w2"
proof -
  let ?ms = "map (stored w) fs"
  obtain w' where c: "create_archive a fs w = Some (True, w')"
    "sm_files w' = (sm_files w)(a \<mapsto> concat (map (member (sm_time w)) ?ms) @ end_marker)"
    using create_archive_eq [OF assms(1,2)] by auto
  have f: "sm_files w2 = (sm_files w)(a \<mapsto> concat (map (member (sm_time w)) ?ms) @ end_marker)"
    using c assms(3,4) by simp
  have "\<forall>m \<in> set ?ms. storable m \<and> sm_files w2 (fst m) = Some (snd m)"
    unfolding f using assms(2) by (auto simp: archivable_def stored_def)
  from skipping.reads_all [OF this, of a "sm_time w"]
  have "extract_archive a MODE_NORMAL None w2 = Some (True, say (''Extraction completed'' @ [LF]) (fold skip_member ?ms w2))"
    using f by (simp add: extract_archive_def del: map_map)
  moreover have "sm_files (fold skip_member ms v) = sm_files v" for ms v
    by (induction ms arbitrary: v) (simp_all add: skip_member_def)
  ultimately show ?thesis by (simp del: map_map)
qed

theorem normal_mode_skips_identical_witness:
  "\<exists>w1 w3. create_archive ''a.tar'' [''f'', ''g''] sample_disk = Some (True, w1)
     \<and> extract_archive ''a.tar'' MODE_NORMAL None (w1\<lparr>sm_writable := (\<lambda>f. False)\<rparr>) = Some (True, w3)
     \<and> sm_files w3 ''f'' = sm_files w1 ''f''"
proof -
  have w: "sm_writable sample_disk ''a.tar''" by (simp add: sample_disk_def)
  obtain w1 where c: "create_archive ''a.tar'' [''f'', ''g''] sample_disk = Some (True, w1)"
    using create_archive_eq [OF w sample_archivable] by auto
  from normal_mode_skips_identical [OF w sample_archivable c, of "w1\<lparr>sm_writable := (\<lambda>f. False)\<rparr>"] c
  show ?thesis by auto
qed

text \<open>
  Create and list: listing a created archive prints its heading and then one line for each file, with
  its name and size, in the order of the command line.
\<close>

theorem create_list_roundtrip:
  assumes "sm_writable w a" "\<forall>f \<in> set fs. archivable w a f" "create_archive a fs w = Some (ok, w1)"
    "sm_files w2 a = sm_files w1 a"
  shows "\<exists>w3. list_archive a w2 = Some (True, w3) \<and> sm_files w3 = sm_files w2
    \<and> sm_out w3 = sm_out w2 @ ''Contents of archive '' @ quoted a @ '':'' @ [LF]
        @ list_line ''Name'' ''Size'' @ list_line ''----'' ''----''
        @ concat (map (\<lambda>f. list_line f (show_nat (length (the (sm_files w f))))) fs)"
proof -
  let ?ms = "map (stored w) fs"
  let ?say = "\<lambda>m. say (list_line (fst m) (show_nat (length (snd m))))"
  obtain w' where c: "create_archive a fs w = Some (True, w')"
    "sm_files w' a = Some (concat (map (member (sm_time w)) ?ms) @ end_marker)"
    using create_archive_eq [OF assms(1,2)] by auto
  have "\<forall>m \<in> set ?ms. storable m" using assms(2) by (auto simp: archivable_def)
  note l = listing.reads_all [OF this, of "sm_time w"]
  have "sm_out (fold ?say (map (stored w) gs) v) =
      sm_out v @ concat (map (\<lambda>f. list_line f (show_nat (length (the (sm_files w f))))) gs)
    \<and> sm_files (fold ?say (map (stored w) gs) v) = sm_files v" for gs and v :: Sm
    by (induction gs arbitrary: v) (simp_all add: stored_def)
  then show ?thesis using c assms(3,4) l by (simp add: list_archive_def del: map_map)
qed

theorem create_list_roundtrip_witness:
  "\<exists>w1 w3. create_archive ''a.tar'' [''f'', ''g''] sample_disk = Some (True, w1) \<and> list_archive ''a.tar'' w1 = Some (True, w3)
     \<and> (\<exists>hd. sm_out w3 = hd @ list_line ''f'' (show_nat 5) @ list_line ''g'' (show_nat 0))"
proof -
  have w: "sm_writable sample_disk ''a.tar''" by (simp add: sample_disk_def)
  obtain w1 where c: "create_archive ''a.tar'' [''f'', ''g''] sample_disk = Some (True, w1)"
    using create_archive_eq [OF w sample_archivable] by auto
  from create_list_roundtrip [OF w sample_archivable c, of w1] obtain w3 where "list_archive ''a.tar'' w1 = Some (True, w3)"
    "sm_out w3 = sm_out w1 @ ''Contents of archive '' @ quoted ''a.tar'' @ '':'' @ [LF]
        @ list_line ''Name'' ''Size'' @ list_line ''----'' ''----'' @ list_line ''f'' (show_nat 5) @ list_line ''g'' (show_nat 0)"
    by (auto simp: sample_disk_def numeral_eq_Suc)
  then have "\<exists>hd. sm_out w3 = hd @ list_line ''f'' (show_nat 5) @ list_line ''g'' (show_nat 0)"
    by (intro exI [of _ "sm_out w1 @ ''Contents of archive '' @ quoted ''a.tar'' @ '':'' @ [LF]
        @ list_line ''Name'' ''Size'' @ list_line ''----'' ''----''"]) simp
  with c \<open>list_archive _ w1 = _\<close> show ?thesis by blast
qed

text \<open>
  Octal fields: a field of \<open>n\<close> digits and a final byte gives back the value that was written in it,
  and a larger value comes back as the largest that fits: from 8 GiB on, a member's size is recorded
  as \<open>8^11 - 1\<close> and the archive cannot be read past it.
\<close>

theorem octal_field_roundtrip:
  assumes "length dest = n + 1" "0 < n" "n \<le> 21"
  shows "parse_octal (format_octal dest v) = of_nat (min (unat v) (8 ^ n - 1)) \<and> length (format_octal dest v) = n + 1"
  using parse_format_octal(1) [OF assms, of NUL v "[]"] format_octal_length [of dest v] assms
  by (simp_all add: is_octal_def code_def)

theorem octal_field_roundtrip_witness:
  "parse_octal (format_octal (replicate 12 NUL) 8589934600) = 8589934591"
  using octal_field_roundtrip [of "replicate 12 NUL" 11 8589934600] by simp

lemma byte_sum_update:
  assumes "length b = 512" "i < 512" "\<not> (148 \<le> i \<and> i < 156)"
  shows "byte_sum (b[i := c]) + code (b ! i) = byte_sum b + code c"
proof -
  let ?t = "\<lambda>b i. if 148 \<le> i \<and> i < 156 then 32 else code (b ! i)"
  have "sum_list (map (?t (b[i := c])) xs) + of_bool (i \<in> set xs) * code (b ! i)
      = sum_list (map (?t b) xs) + of_bool (i \<in> set xs) * code c" if "distinct xs" for xs
    using that
  proof (induction xs)
    case (Cons j xs)
    then show ?case using assms by (cases "i = j") auto
  qed simp
  from this [of "[0..<512]"] show ?thesis using assms by (simp add: byte_sum_def)
qed



lemma extract_file_safe:
  assumes "extract_file a rest h MODE_SAFE prefix w = Some (ok, rest', w')" "sm_files w f \<noteq> None"
  shows "sm_files w' f = sm_files w f"
proof -
  obtain nm where nm: "cstring (th_name h) = Some nm"
    using assms(1) by (auto simp: extract_file_def Let_def bind_eq_Some_conv)
  show ?thesis
  proof (cases "sm_files w (output_name prefix nm)")
    case None
    then have "f \<noteq> output_name prefix nm" using assms(2) by auto
    with None nm assms(1) show ?thesis
      by (auto simp: extract_file_def Let_def check_mode_def split: if_splits prod.splits)
  next
    case (Some s)
    with nm assms(1) show ?thesis by (simp add: extract_file_def Let_def check_mode_def) auto
  qed
qed

lemma extract_loop_safe:
  assumes "extract_loop a rest mode prefix w = Some (ok, w')" "mode = MODE_SAFE" "sm_files w f \<noteq> None"
  shows "sm_files w' f = sm_files w f"
  using assms
proof (induction a rest mode prefix w arbitrary: ok w' rule: extract_loop.induct)
  case (1 a rest mode prefix w)
  let ?h = "read_header (take 512 rest)"
  note p = 1(2) [unfolded extract_loop.simps [of a rest]]
  show ?case
  proof (cases "length rest < 512 \<or> hd0 (th_name ?h) = NUL \<or> take 5 (th_magic ?h) \<noteq> ''ustar''
      \<or> calculate_checksum ?h \<noteq> parse_octal (th_chksum ?h)")
    case True
    then show ?thesis using p by (auto simp: Let_def bind_eq_Some_conv split: if_splits)
  next
    case False
    then obtain nm ok1 r1 w1 where s: "cstring (th_name ?h) = Some nm"
      "extract_file a (drop 512 rest) ?h mode prefix (say (''Extracting: '' @ nm @ [LF]) w) = Some (ok1, r1, w1)"
      "(if ok1 then extract_loop a r1 mode prefix w1 else Some (False, w1)) = Some (ok, w')"
      using p by (auto simp: Let_def bind_eq_Some_conv)
    have f: "sm_files w1 f = sm_files w f"
      using extract_file_safe [OF s(2) [unfolded 1(3)]] 1(4) by simp
    show ?thesis
    proof (cases ok1)
      case True
      then show ?thesis using 1(1) [OF _ refl _ _ s(1) _ s(2) refl] False s(3) 1(3,4) f by simp
    next
      case False
      then show ?thesis using s(3) f by simp
    qed
  qed
qed



text \<open>
  Foreign archives: the check for path separators is made only when an archive is created. A header
  with any name, such as \<open>../f\<close>, is accepted by the extraction, which writes there.
\<close>

theorem extraction_follows_paths:
  assumes "good_name nm" "CHR ''/'' \<in> set nm" "length c < max_size" "nm \<noteq> a" "sm_writable w nm"
    "sm_files w a = Some (member now (nm, c) @ end_marker)"
  shows "(\<exists>e. init_header nm n sha now = Inl e)
    \<and> (\<exists>w'. extract_archive a MODE_FORCE None w = Some (True, w') \<and> sm_files w' nm = Some c)"
proof
  show "\<exists>e. init_header nm n sha now = Inl e" using assms(2) by (auto simp: init_header_def)
  have "extract_loop a (concat (map (member now) [(nm, c)]) @ end_marker) MODE_FORCE None w = Some (True, fold write_member [(nm, c)] w)"
    by (rule extracting.reads_all) (use assms in \<open>simp add: storable_def\<close>)
  then show "\<exists>w'. extract_archive a MODE_FORCE None w = Some (True, w') \<and> sm_files w' nm = Some c"
    using assms(6) by (simp add: extract_archive_def write_member_def)
qed

theorem extraction_follows_paths_witness:
  "\<exists>w'. extract_archive ''a'' MODE_FORCE None (sample_disk\<lparr>sm_files := [''a'' \<mapsto> member 7 (''../f'', ''x'') @ end_marker]\<rparr>) = Some (True, w')
     \<and> sm_files w' ''../f'' = Some ''x''"
  using extraction_follows_paths [of "''../f''" "''x''" "''a''"
      "sample_disk\<lparr>sm_files := [''a'' \<mapsto> member 7 (''../f'', ''x'') @ end_marker]\<rparr>" 7 0 None]
  by (simp add: good_name_def sample_disk_def)

text \<open>
  A name field without a NUL: a block with the magic and 100 bytes of name other than NUL is read as
  a C string that does not end in its field, before the checksum is looked at.
\<close>

theorem unterminated_name_overread:
  assumes "length b = 512" "NUL \<notin> set (take 100 b)" "take 5 (drop 257 b) = ''ustar''"
  shows "extract_loop a (b @ rest) mode prefix w = None \<and> list_loop (b @ rest) w = None"
proof -
  have "hd0 (take 100 b) \<noteq> NUL" using assms by (cases b) auto
  then show ?thesis
    using assms by (simp add: extract_loop.simps [of _ "b @ rest"] list_loop.simps [of "b @ rest"] Let_def
        read_header_def slice_def cstring_def)
qed

theorem unterminated_name_overread_witness:
  "extract_loop ''a'' ((replicate 257 (CHR ''n'') @ ''ustar'' @ replicate 250 NUL) @ []) MODE_FORCE None sample_disk = None"
  using unterminated_name_overread [of "replicate 257 (CHR ''n'') @ ''ustar'' @ replicate 250 NUL" "''a''" "[]"] by simp

end
