(* ===== verification/ShString.thy ===== *)
theory ShString
  imports Prelude
begin

text \<open>
  The shell's byte strings, \<open>level2/sh23/string.c\<close>. A \<open>String\<close> owns a block of \<open>capacity\<close> bytes in
  which the first \<open>length\<close> bytes and a NUL are the contents; the block is missing (\<open>NULL\<close>) in a
  string created with capacity 0. A byte of a block that was never written is \<^term>\<open>None\<close>.

  A pointer argument that the code compares with \<open>NULL\<close> is an \<open>option\<close>. The result of an operation
  is \<^term>\<open>None\<close> when its behaviour is undefined (a null pointer read, an access outside a block, a read
  of a byte never written, signed overflow) or when it ends in \<open>abort()\<close>, which every call of \<open>log_fatal\<close>
  does. Allocations of a representable size succeed. The messages of the log are not modelled.
\<close>

type_synonym 'a ptr = "'a option"

named_theorems blk "blocks of memory"

section \<open>Machine integers and blocks\<close>

definition cint :: "int \<Rightarrow> int option" where
  "cint i = (if - INT_MAX - 1 \<le> i \<and> i \<le> INT_MAX then Some i else None)"

lemma cint_Some [simp]: "cint i = Some j \<longleftrightarrow> i = j \<and> - INT_MAX - 1 \<le> i \<and> i \<le> INT_MAX"
  by (auto simp: cint_def)

lemma cint_in [simp]: "- INT_MAX - 1 \<le> i \<Longrightarrow> i \<le> INT_MAX \<Longrightarrow> cint i = Some i"
  by simp

type_synonym 'a block = "'a option list"

definition realloc :: "'a block ptr \<Rightarrow> nat \<Rightarrow> 'a block" where
  "realloc p n = (case p of None \<Rightarrow> replicate n None | Some b \<Rightarrow> take n b @ replicate (n - length b) None)"

text \<open>\<open>memcpy(b + i, bs, n)\<close> with the \<open>n\<close> initialised bytes \<open>bs\<close>.\<close>

definition memcpy :: "'a block \<Rightarrow> int \<Rightarrow> 'a list \<Rightarrow> 'a block option" where
  "memcpy b i bs =
     (if 0 \<le> i \<and> i + int (length bs) \<le> int (length b)
      then Some (take (nat i) b @ map Some bs @ drop (nat i + length bs) b) else None)"

text \<open>The C string at the start of a block: it has to end in the block.\<close>

fun cstr_in :: "char block \<Rightarrow> string option" where
  "cstr_in [] = None"
| "cstr_in (None # b) = None"
| "cstr_in (Some c # b) = (if c = NUL then Some [] else map_option ((#) c) (cstr_in b))"

definition byte_in :: "'a block \<Rightarrow> int \<Rightarrow> 'a option" where
  "byte_in b i = (if 0 \<le> i \<and> i < int (length b) then b ! nat i else None)"

text \<open>The \<open>n\<close> bytes at \<open>i\<close>, the source of a \<open>memcpy\<close>; all of them have to be initialised.\<close>

definition bytes_in :: "'a block \<Rightarrow> int \<Rightarrow> int \<Rightarrow> 'a list option" where
  "bytes_in b i n =
     (if 0 \<le> i \<and> 0 \<le> n \<and> i + n \<le> int (length b) then those (take (nat n) (drop (nat i) b)) else None)"

section \<open>The C library's string functions\<close>

text \<open>\<open>strcmp\<close>: only the sign of the result is specified.\<close>

fun strcmp :: "string \<Rightarrow> string \<Rightarrow> int" where
  "strcmp [] [] = 0"
| "strcmp [] (_ # _) = -1"
| "strcmp (_ # _) [] = 1"
| "strcmp (a # s) (b # t) = (if a = b then strcmp s t else if code a < code b then -1 else 1)"

text \<open>\<open>strstr\<close>: the offset of the first occurrence.\<close>

fun strstr :: "string \<Rightarrow> string \<Rightarrow> nat option" where
  "strstr [] n = (if n = [] then Some 0 else None)"
| "strstr (c # h) n = (if take (length n) (c # h) = n then Some 0 else map_option Suc (strstr h n))"

section \<open>String\<close>

record String =
  st_data :: "char block ptr"
  st_length :: int
  st_capacity :: int

definition INITIAL_CAPACITY :: int where "INITIAL_CAPACITY = 16"
definition GROW_FACTOR :: int where "GROW_FACTOR = 2"

text \<open>\<open>while (new_capacity < needed) new_capacity *= GROW_FACTOR\<close>; the capacity is positive.\<close>

function grow :: "int \<Rightarrow> int \<Rightarrow> int option" where
  "grow cap needed =
     (if needed \<le> cap then Some cap
      else if cap \<le> 0 then None
      else do { c \<leftarrow> cint (cap * GROW_FACTOR); grow c needed })"
  by pat_completeness auto
termination
  by (relation "measure (\<lambda>(c, n). nat (n - c))") (auto simp: GROW_FACTOR_def)

declare grow.simps [simp del]

definition string_ensure_capacity :: "String ptr \<Rightarrow> int \<Rightarrow> (int \<times> String ptr) option" where
  "string_ensure_capacity str needed =
     (case str of
        None \<Rightarrow> Some (-1, str)
      | Some s \<Rightarrow>
          if needed < 0 then Some (-1, str)
          else if needed \<le> st_capacity s then Some (0, str)
          else do {
            new_capacity \<leftarrow> grow (if st_capacity s \<noteq> 0 then st_capacity s else INITIAL_CAPACITY) needed;
            Some (0, Some (s\<lparr>st_data := Some (realloc (st_data s) (nat new_capacity)), st_capacity := new_capacity\<rparr>)) })"

text \<open>\<open>if (string_ensure_capacity(str, n) != 0)\<close> with a \<open>log_fatal\<close> in its body.\<close>

definition need :: "String \<Rightarrow> int \<Rightarrow> String option" where
  "need s n = do {
     (r, str) \<leftarrow> string_ensure_capacity (Some s) n;
     if r \<noteq> 0 then None else str }"

definition string_create_empty :: "int \<Rightarrow> String ptr option" where
  "string_create_empty capacity =
     (if capacity < 0 then None
      else do {
        let s0 = \<lparr>st_data = None, st_length = 0, st_capacity = 0\<rparr>;
        s \<leftarrow> (if capacity > 0 then need s0 capacity else Some s0);
        if st_capacity s > 0 then do {
          b \<leftarrow> st_data s;
          b' \<leftarrow> aset b 0 (Some NUL);
          Some (Some (s\<lparr>st_data := Some b'\<rparr>)) }
        else Some (Some s) })"

definition string_set_cstr :: "String ptr \<Rightarrow> string ptr \<Rightarrow> (int \<times> String ptr) option" where
  "string_set_cstr str data =
     (case (str, data) of
        (Some s, Some d) \<Rightarrow> do {
          new_len \<leftarrow> cint (int (length d) + 1);
          s \<leftarrow> need s new_len;
          b \<leftarrow> st_data s;
          b' \<leftarrow> memcpy b 0 (d @ [NUL]);
          Some (0, Some (s\<lparr>st_data := Some b', st_length := new_len - 1\<rparr>)) }
      | _ \<Rightarrow> Some (-1, str))"

definition string_create_from_cstr :: "string ptr \<Rightarrow> String ptr option" where
  "string_create_from_cstr data =
     (case data of
        None \<Rightarrow> None
      | Some d \<Rightarrow> do {
          n \<leftarrow> cint (int (length d) + 1);
          str \<leftarrow> string_create_empty n;
          (r, str) \<leftarrow> string_set_cstr str data;
          if r \<noteq> 0 then None else Some str })"

text \<open>\<open>string_data\<close>: the C string that its result points at.\<close>

definition string_data :: "String ptr \<Rightarrow> string ptr option" where
  "string_data str =
     (case str of
        None \<Rightarrow> Some None
      | Some s \<Rightarrow> (case st_data s of None \<Rightarrow> Some (Some []) | Some b \<Rightarrow> map_option Some (cstr_in b)))"

definition string_create_from :: "String ptr \<Rightarrow> String ptr option" where
  "string_create_from other =
     (case other of None \<Rightarrow> Some None | Some _ \<Rightarrow> do { d \<leftarrow> string_data other; string_create_from_cstr d })"

definition string_length :: "String ptr \<Rightarrow> int" where
  "string_length str = (case str of None \<Rightarrow> 0 | Some s \<Rightarrow> st_length s)"

definition string_capacity :: "String ptr \<Rightarrow> int" where
  "string_capacity str = (case str of None \<Rightarrow> 0 | Some s \<Rightarrow> st_capacity s)"

definition string_is_empty :: "String ptr \<Rightarrow> bool" where
  "string_is_empty str = (case str of None \<Rightarrow> False | Some s \<Rightarrow> st_length s = 0)"

definition string_append_cstr :: "String ptr \<Rightarrow> string ptr \<Rightarrow> (int \<times> String ptr) option" where
  "string_append_cstr str data =
     (case (str, data) of
        (Some s, Some d) \<Rightarrow> do {
          append_len \<leftarrow> cint (int (length d));
          n \<leftarrow> cint (st_length s + append_len);
          new_len \<leftarrow> cint (n + 1);
          s \<leftarrow> need s new_len;
          b \<leftarrow> st_data s;
          b \<leftarrow> memcpy b (st_length s) d;
          let len = st_length s + append_len;
          b \<leftarrow> aset b len (Some NUL);
          Some (0, Some (s\<lparr>st_data := Some b, st_length := len\<rparr>)) }
      | _ \<Rightarrow> Some (-1, str))"

text \<open>There is no \<open>return\<close> after the append: the value returned then is \<^term>\<open>None\<close>, and a caller that
  uses it has undefined behaviour. A \<open>char\<close> from 128 on is negative.\<close>

definition string_append_ascii_char :: "String ptr \<Rightarrow> char \<Rightarrow> (int option \<times> String ptr) option" where
  "string_append_ascii_char str c =
     (case str of
        None \<Rightarrow> Some (Some (-1), str)
      | Some _ \<Rightarrow>
          if code c \<ge> 128 then Some (Some (-1), str)
          else do {
            (_, str) \<leftarrow> string_append_cstr str (Some (if c = NUL then [] else [c]));
            Some (None, str) })"

definition string_append :: "String ptr \<Rightarrow> String ptr \<Rightarrow> (int \<times> String ptr) option" where
  "string_append str other =
     (case (str, other) of
        (Some _, Some _) \<Rightarrow> do { d \<leftarrow> string_data other; string_append_cstr str d }
      | _ \<Rightarrow> Some (-1, str))"

definition string_clear :: "String ptr \<Rightarrow> (int \<times> String ptr) option" where
  "string_clear str =
     (case str of
        None \<Rightarrow> Some (-1, str)
      | Some s \<Rightarrow>
          (case st_data s of
             None \<Rightarrow> Some (0, Some (s\<lparr>st_length := 0\<rparr>))
           | Some b \<Rightarrow> do {
               b \<leftarrow> aset b 0 (Some NUL);
               Some (0, Some (s\<lparr>st_length := 0, st_data := Some b\<rparr>)) }))"

definition string_resize :: "String ptr \<Rightarrow> int \<Rightarrow> (int \<times> String ptr) option" where
  "string_resize str new_capacity =
     (case str of
        None \<Rightarrow> Some (-1, str)
      | Some s \<Rightarrow>
          if new_capacity < 0 then Some (-1, str)
          else do {
            n \<leftarrow> cint (st_length s + 1);
            let new_capacity = (if new_capacity < n then n else new_capacity);
            s \<leftarrow> need s new_capacity;
            b \<leftarrow> st_data s;
            b \<leftarrow> aset b (st_length s) (Some NUL);
            Some (0, Some (s\<lparr>st_capacity := new_capacity, st_data := Some b\<rparr>)) })"

section \<open>Operations\<close>

definition string_substring :: "String ptr \<Rightarrow> int \<Rightarrow> int \<Rightarrow> String ptr option" where
  "string_substring str start len =
     (case str of
        None \<Rightarrow> string_create_empty 0
      | Some s \<Rightarrow>
          if start < 0 \<or> len < 0 \<or> start \<ge> st_length s then string_create_empty 0
          else do {
            e \<leftarrow> cint (start + len);
            let len = (if e > st_length s then st_length s - start else len);
            n \<leftarrow> cint (len + 1);
            result \<leftarrow> string_create_empty n;
            r \<leftarrow> result;
            src \<leftarrow> st_data s;
            bs \<leftarrow> bytes_in src start len;
            b \<leftarrow> st_data r;
            b \<leftarrow> memcpy b 0 bs;
            b \<leftarrow> aset b len (Some NUL);
            Some (Some (r\<lparr>st_data := Some b, st_length := len\<rparr>)) })"

definition string_compare :: "String ptr \<Rightarrow> String ptr \<Rightarrow> int option" where
  "string_compare str1 str2 =
     (case (str1, str2) of
        (Some _, Some _) \<Rightarrow> do {
          d1 \<leftarrow> string_data str1;
          d2 \<leftarrow> string_data str2;
          a \<leftarrow> d1;
          b \<leftarrow> d2;
          Some (strcmp a b) }
      | (None, None) \<Rightarrow> Some 0
      | (Some _, None) \<Rightarrow> Some 1
      | (None, Some _) \<Rightarrow> Some (-1))"

definition string_compare_cstr :: "String ptr \<Rightarrow> string ptr \<Rightarrow> int option" where
  "string_compare_cstr str data =
     (case (str, data) of
        (None, _) \<Rightarrow> Some (if data \<noteq> None then 1 else 0)
      | (Some _, None) \<Rightarrow> Some (-1)
      | (Some _, Some t) \<Rightarrow> do { d \<leftarrow> string_data str; a \<leftarrow> d; Some (strcmp a t) })"

text \<open>\<open>strstr(str->data, \<dots>)\<close> reads a null pointer when there is no block. The result is the code and
  the value stored in \<open>*pos\<close>, if any.\<close>

definition string_find_cstr :: "String ptr \<Rightarrow> string ptr \<Rightarrow> (int \<times> int option) option" where
  "string_find_cstr str substr =
     (case (str, substr) of
        (Some s, Some t) \<Rightarrow> do {
          b \<leftarrow> st_data s;
          h \<leftarrow> cstr_in b;
          (case strstr h t of None \<Rightarrow> Some (-1, None) | Some k \<Rightarrow> Some (0, Some (int k))) }
      | _ \<Rightarrow> Some (-1, None))"

text \<open>The loop of \<open>string_replace_cstr\<close>: \<open>current\<close> is the rest of the text, \<open>pat\<close> (\<open>find\<close>) is not empty.\<close>

function replace_loop :: "string \<Rightarrow> string \<Rightarrow> int \<Rightarrow> string \<Rightarrow> int \<Rightarrow> String ptr \<Rightarrow> String ptr option" where
  "replace_loop pat rep max_replacements current replacements result =
     (if current \<noteq> [] \<and> (max_replacements = 0 \<or> replacements < max_replacements) \<and> pat \<noteq> [] then
        (case strstr current pat of
           None \<Rightarrow> do {
             (r, result) \<leftarrow> string_append_cstr result (Some current);
             if r \<noteq> 0 then None else Some result }
         | Some k \<Rightarrow> do {
             (r, result) \<leftarrow> string_append_cstr result (Some (take k current));
             if r \<noteq> 0 then None else do {
               (r, result) \<leftarrow> string_append_cstr result (Some rep);
               if r \<noteq> 0 then None
               else replace_loop pat rep max_replacements (drop (k + length pat) current) (replacements + 1) result } })
      else Some result)"
  by pat_completeness auto
termination
  by (relation "measure (\<lambda>(f, r, m, c, n, s). length c)") (auto simp: less_Suc_eq_0_disj intro!: diff_less)

declare replace_loop.simps [simp del]

definition string_replace_cstr :: "String ptr \<Rightarrow> string ptr \<Rightarrow> string ptr \<Rightarrow> int \<Rightarrow> (int \<times> String ptr) option" where
  "string_replace_cstr str pat rep max_replacements =
     (case (str, pat, rep) of
        (Some s, Some f, Some r) \<Rightarrow>
          if f = [] then Some (-1, str)
          else do {
            n \<leftarrow> cint (st_length s + 1);
            result \<leftarrow> string_create_empty n;
            b \<leftarrow> st_data s;
            current \<leftarrow> cstr_in b;
            result \<leftarrow> replace_loop f r max_replacements current 0 result;
            d \<leftarrow> string_data result;
            string_set_cstr str d }
      | _ \<Rightarrow> Some (-1, str))"

section \<open>UTF-8\<close>

unbundle bit_operations_syntax

definition is_utf8_continuation_byte :: "8 word \<Rightarrow> bool" where
  "is_utf8_continuation_byte c \<longleftrightarrow> c AND 0xC0 = 0x80"

definition utf8_char_size :: "8 word \<Rightarrow> int" where
  "utf8_char_size c =
     (if c AND 0x80 = 0 then 1
      else if c AND 0xE0 = 0xC0 then 2
      else if c AND 0xF0 = 0xE0 then 3
      else if c AND 0xF8 = 0xF0 then 4
      else 0)"

definition uint8 :: "char \<Rightarrow> 8 word" where
  "uint8 c = of_nat (code c)"

text \<open>\<open>size == 0 || i + size > str->length\<close>\<close>

definition bad_size :: "int \<Rightarrow> int \<Rightarrow> int \<Rightarrow> bool option" where
  "bad_size sz i len = (if sz = 0 then Some True else do { e \<leftarrow> cint (i + sz); Some (e > len) })"

lemma utf8_char_size_cases: "utf8_char_size c \<in> {0, 1, 2, 3, 4}"
  by (simp add: utf8_char_size_def)

function utf8_length_loop :: "char block \<Rightarrow> int \<Rightarrow> int \<Rightarrow> int \<Rightarrow> int option" where
  "utf8_length_loop b len i n =
     (if i < len then do {
        c \<leftarrow> byte_in b i;
        let sz = utf8_char_size (uint8 c);
        bad \<leftarrow> bad_size sz i len;
        if bad then Some n else utf8_length_loop b len (i + sz) (n + 1) }
      else Some n)"
  by pat_completeness auto
termination
proof (relation "measure (\<lambda>(b, len, i, n). nat (len - i))")
  fix i len c bad and sz :: int
  assume "i < len" "sz = utf8_char_size (uint8 c)" "bad_size sz i len = Some bad" "\<not> bad"
  then show "((b, len, i + sz, n + 1), b, len, i, n) \<in> measure (\<lambda>(b, len, i, n). nat (len - i))" for b n
    using utf8_char_size_cases [of "uint8 c"] by (auto simp: bad_size_def)
qed simp

declare utf8_length_loop.simps [simp del]

definition string_utf8_length :: "String ptr \<Rightarrow> int option" where
  "string_utf8_length str =
     (case str of
        None \<Rightarrow> Some 0
      | Some s \<Rightarrow> (case st_data s of None \<Rightarrow> Some 0 | Some b \<Rightarrow> utf8_length_loop b (st_length s) 0 0))"

text \<open>The bytes \<open>i + j .. i + size - 1\<close> are continuation bytes.\<close>

function continuation_loop :: "char block \<Rightarrow> int \<Rightarrow> int \<Rightarrow> int \<Rightarrow> bool option" where
  "continuation_loop b i j sz =
     (if j < sz then do {
        c \<leftarrow> byte_in b (i + j);
        if \<not> is_utf8_continuation_byte (uint8 c) then Some False else continuation_loop b i (j + 1) sz }
      else Some True)"
  by pat_completeness auto
termination
  by (relation "measure (\<lambda>(b, i, j, sz). nat (sz - j))") auto

declare continuation_loop.simps [simp del]

function valid_utf8_loop :: "char block \<Rightarrow> int \<Rightarrow> int \<Rightarrow> bool option" where
  "valid_utf8_loop b len i =
     (if i < len then do {
        c \<leftarrow> byte_in b i;
        let sz = utf8_char_size (uint8 c);
        bad \<leftarrow> bad_size sz i len;
        if bad then Some False else do {
          ok \<leftarrow> continuation_loop b i 1 sz;
          if \<not> ok then Some False else valid_utf8_loop b len (i + sz) } }
      else Some True)"
  by pat_completeness auto
termination
proof (relation "measure (\<lambda>(b, len, i). nat (len - i))")
  fix i len c bad and sz :: int
  assume "i < len" "sz = utf8_char_size (uint8 c)" "bad_size sz i len = Some bad" "\<not> bad"
  then show "((b, len, i + sz), b, len, i) \<in> measure (\<lambda>(b, len, i). nat (len - i))" for b
    using utf8_char_size_cases [of "uint8 c"] by (auto simp: bad_size_def)
qed simp

declare valid_utf8_loop.simps [simp del]

definition string_is_valid_utf8 :: "String ptr \<Rightarrow> bool option" where
  "string_is_valid_utf8 str =
     (case str of
        None \<Rightarrow> Some True
      | Some s \<Rightarrow> (case st_data s of None \<Rightarrow> Some True | Some b \<Rightarrow> valid_utf8_loop b (st_length s) 0))"

text \<open>The loop of \<open>string_utf8_char_at\<close>; \<^term>\<open>None\<close> in the result is the code \<open>-1\<close>, otherwise the bytes
  written in the buffer before their NUL.\<close>

function char_at_loop :: "char block \<Rightarrow> int \<Rightarrow> int \<Rightarrow> int \<Rightarrow> int \<Rightarrow> int \<Rightarrow> string option option" where
  "char_at_loop b len char_index buffer_size byte_pos current_char =
     (if byte_pos < len then do {
        c \<leftarrow> byte_in b byte_pos;
        let sz = utf8_char_size (uint8 c);
        bad \<leftarrow> bad_size sz byte_pos len;
        if current_char = char_index then
          (if bad \<or> sz > buffer_size - 1 then Some None
           else do { bs \<leftarrow> bytes_in b byte_pos sz; Some (Some bs) })
        else if bad then Some None
        else char_at_loop b len char_index buffer_size (byte_pos + sz) (current_char + 1) }
      else Some None)"
  by pat_completeness auto
termination
proof (relation "measure (\<lambda>(b, len, ci, bs, i, cc). nat (len - i))")
  fix i len c bad and sz :: int
  assume "i < len" "sz = utf8_char_size (uint8 c)" "bad_size sz i len = Some bad" "\<not> bad"
  then show "((b, len, ci, bs, i + sz, cc + 1), b, len, ci, bs, i, cc) \<in> measure (\<lambda>(b, len, ci, bs, i, cc). nat (len - i))" for b ci bs cc
    using utf8_char_size_cases [of "uint8 c"] by (auto simp: bad_size_def)
qed simp

declare char_at_loop.simps [simp del]

definition string_utf8_char_at :: "String ptr \<Rightarrow> int \<Rightarrow> bool \<Rightarrow> int \<Rightarrow> string option option" where
  "string_utf8_char_at str char_index buffer buffer_size =
     (case str of
        None \<Rightarrow> Some None
      | Some s \<Rightarrow>
          if \<not> buffer \<or> buffer_size < 5 then Some None
          else if 0 < st_length s then do {
            b \<leftarrow> st_data s;
            char_at_loop b (st_length s) char_index buffer_size 0 0 }
          else Some None)"

end
