(* ===== verification/ShStrProps.thy ===== *)
theory ShStrProps
  imports ShString
begin

text \<open>
  What the shell's byte strings promise. \<open>holds_text s t\<close> is the representation invariant with the
  text \<open>t\<close>; the lemmas \<open>\<dots>_ok\<close> show that the operations keep it, with what they do to the text. Every
  length is below \<open>2^30\<close>, from where doubling the capacity overflows an \<open>int\<close>.
\<close>

section \<open>The invariant\<close>

lemma size_table: "list_all (\<lambda>n. utf8_char_size (of_nat n) =
   (if n < 128 then 1 else if n < 192 then 0 else if n < 224 then 2 else if n < 240 then 3 else if n < 248 then 4 else 0)) [0..<256]"
  by code_simp

lemma cont_table: "list_all (\<lambda>n. is_utf8_continuation_byte (of_nat n) = (128 \<le> n \<and> n < 192)) [0..<256]"
  by code_simp

definition holds_text :: "String \<Rightarrow> string \<Rightarrow> bool" where
  "holds_text s t \<longleftrightarrow> no_nul t \<and> st_length s = int (length t) \<and> st_capacity s \<le> INT_MAX
     \<and> (case st_data s of
          None \<Rightarrow> t = [] \<and> st_capacity s = 0
        | Some b \<Rightarrow> int (length t) < st_capacity s \<and> st_capacity s \<le> int (length b)
            \<and> (\<exists>r. b = map Some (t @ [NUL]) @ r))"

lemma grow_total:
  assumes "0 < cap" "needed \<le> 2 ^ 30"
  shows "\<exists>c. grow cap needed = Some c \<and> needed \<le> c \<and> c \<le> max cap (2 * needed)"
  using assms
proof (induction cap needed rule: grow.induct)
  case (1 cap needed)
  show ?case
  proof (cases "needed \<le> cap")
    case True
    then show ?thesis by (subst grow.simps) auto
  next
    case False
    then have c: "cint (cap * GROW_FACTOR) = Some (cap * 2)" using 1 by (simp add: GROW_FACTOR_def)
    from 1(1) [OF False _ c] 1(2,3) obtain c where
      "grow (cap * 2) needed = Some c" "needed \<le> c" "c \<le> max (cap * 2) (2 * needed)" by auto
    then show ?thesis using False c 1(2) by (subst grow.simps) auto
  qed
qed

lemma need_ok:
  assumes "holds_text s t" "0 \<le> n" "n < 2 ^ 30"
  shows "\<exists>s'. need s n = Some s' \<and> st_length s' = st_length s \<and> n \<le> st_capacity s' \<and> st_capacity s' \<le> INT_MAX
    \<and> (0 < n \<longrightarrow> (\<exists>b. st_data s' = Some b \<and> st_capacity s' \<le> int (length b)
        \<and> (st_data s \<noteq> None \<longrightarrow> (\<exists>r. b = map Some (t @ [NUL]) @ r))))
    \<and> (n \<le> st_capacity s \<longrightarrow> s' = s) \<and> st_capacity s' \<le> max (max INITIAL_CAPACITY (st_capacity s)) (2 * n)"
proof (cases "n \<le> st_capacity s")
  case True
  then show ?thesis
    using assms by (auto simp: need_def string_ensure_capacity_def holds_text_def split: option.splits)
next
  case False
  let ?c = "if st_capacity s \<noteq> 0 then st_capacity s else INITIAL_CAPACITY"
  have c0: "0 \<le> st_capacity s" using assms(1) by (auto simp: holds_text_def split: option.splits)
  then have "0 < ?c" by (simp add: INITIAL_CAPACITY_def)
  then obtain c where c: "grow ?c n = Some c" "n \<le> c" "c \<le> max ?c (2 * n)" using grow_total [of ?c n] assms(3) by auto
  have len: "length (realloc (st_data s) (nat c)) = nat c" by (auto simp: realloc_def split: option.splits)
  have keep: "\<exists>r. realloc (st_data s) (nat c) = map Some (t @ [NUL]) @ r" if "st_data s \<noteq> None"
  proof -
    from that obtain b r where b: "st_data s = Some b" "b = map Some (t @ [NUL]) @ r" "int (length t) < st_capacity s"
      using assms(1) by (auto simp: holds_text_def)
    then have "length (map Some (t @ [NUL])) \<le> nat c" using False c(2) by simp
    then have "take (nat c) b = map Some (t @ [NUL]) @ take (nat c - length t - 1) r" using b by (simp add: take_Cons')
    then show ?thesis using b by (auto simp: realloc_def)
  qed
  have "c \<le> INT_MAX" using c(3) assms(1,3) by (auto simp: holds_text_def INITIAL_CAPACITY_def max_def split: if_splits option.splits)
  moreover have "c \<le> max (max INITIAL_CAPACITY (st_capacity s)) (2 * n)" using c(3) by (auto split: if_splits)
  ultimately show ?thesis
    using False assms(2) c(1,2) c0 len keep
    by (auto simp: need_def string_ensure_capacity_def)
qed

lemma aset_end:
  assumes "i = int (length u)" "i < int (length (map Some u @ r))"
  shows "\<exists>r'. aset (map Some u @ r) i (Some NUL) = Some (map Some (u @ [NUL]) @ r')"
  using assms by (cases r) (auto simp: list_update_append)

lemma memcpy_end:
  assumes "i = int (length u)" "i + int (length d) \<le> int (length (map Some u @ r))"
  shows "\<exists>r'. memcpy (map Some u @ r) i d = Some (map Some (u @ d) @ r')"
  using assms by (auto simp: memcpy_def)

lemma memcpy_length: "memcpy b i d = Some b' \<Longrightarrow> length b' = length b"
  by (auto simp: memcpy_def split: if_splits)

lemma aset_length: "aset b i v = Some b' \<Longrightarrow> length b' = length b"
  by (auto simp: aset_def split: if_splits)

lemma cstr_in_text: "no_nul t \<Longrightarrow> cstr_in (map Some (t @ [NUL]) @ r) = Some t"
  by (induction t) auto

lemma string_data_holds: "holds_text s t \<Longrightarrow> string_data (Some s) = Some (Some t)"
  using cstr_in_text [of t] by (auto simp: holds_text_def string_data_def split: option.splits)

lemma create_empty_ok:
  assumes "0 \<le> n" "n < 2 ^ 30"
  shows "\<exists>s. string_create_empty n = Some (Some s) \<and> holds_text s [] \<and> n \<le> st_capacity s"
proof (cases "n = 0")
  case True
  then show ?thesis by (simp add: string_create_empty_def holds_text_def)
next
  case False
  let ?s = "\<lparr>st_data = None, st_length = 0, st_capacity = 0\<rparr>"
  have "holds_text ?s []" by (simp add: holds_text_def)
  from need_ok [OF this assms] False assms obtain s b where s: "need ?s n = Some s" "st_length s = 0" "n \<le> st_capacity s"
    "st_capacity s \<le> INT_MAX" "st_data s = Some b" "st_capacity s \<le> int (length b)" by auto
  then obtain x r where b: "b = x # r" using False assms by (cases b) auto
  have "holds_text (s\<lparr>st_data := Some (Some NUL # r)\<rparr>) []" using s b False assms by (simp add: holds_text_def)
  then show ?thesis using s b False assms by (simp add: string_create_empty_def)
qed

lemma set_cstr_ok:
  assumes "holds_text s t" "no_nul d" "int (length d) + 1 < 2 ^ 30"
  shows "\<exists>s'. string_set_cstr (Some s) (Some d) = Some (0, Some s') \<and> holds_text s' d"
proof -
  from need_ok [OF assms(1), of "int (length d) + 1"] assms(3) obtain s' b where
    s: "need s (int (length d) + 1) = Some s'" "int (length d) + 1 \<le> st_capacity s'" "st_capacity s' \<le> INT_MAX"
      "st_data s' = Some b" "st_capacity s' \<le> int (length b)" by auto
  from memcpy_end [of 0 "[]" "d @ [NUL]" b] s obtain r where m: "memcpy b 0 (d @ [NUL]) = Some (map Some (d @ [NUL]) @ r)"
    by auto
  from memcpy_length [OF m] s m assms show ?thesis
    by (simp add: string_set_cstr_def holds_text_def)
qed

lemma create_from_cstr_ok:
  assumes "no_nul d" "int (length d) + 1 < 2 ^ 30"
  shows "\<exists>s. string_create_from_cstr (Some d) = Some (Some s) \<and> holds_text s d"
proof -
  obtain s where s: "string_create_empty (int (length d) + 1) = Some (Some s)" "holds_text s []"
    using create_empty_ok [of "int (length d) + 1"] assms(2) by auto
  from set_cstr_ok [OF s(2) assms] s(1) assms(2) show ?thesis
    by (auto simp: string_create_from_cstr_def)
qed

lemma append_cstr_ok:
  assumes "holds_text s t" "no_nul d" "int (length t) + int (length d) + 1 < 2 ^ 30"
  shows "\<exists>s'. string_append_cstr (Some s) (Some d) = Some (0, Some s') \<and> holds_text s' (t @ d)
    \<and> st_capacity s' \<le> max (max INITIAL_CAPACITY (st_capacity s)) (2 * (int (length t) + int (length d) + 1))"
proof -
  let ?n = "int (length t) + int (length d) + 1"
  have l: "st_length s = int (length t)" using assms(1) by (simp add: holds_text_def)
  from need_ok [OF assms(1), of ?n] assms(3) obtain s' b where
    s: "need s ?n = Some s'" "?n \<le> st_capacity s'" "st_capacity s' \<le> INT_MAX" "st_length s' = int (length t)"
      "st_data s' = Some b" "st_capacity s' \<le> int (length b)" "st_data s \<noteq> None \<longrightarrow> (\<exists>r. b = map Some (t @ [NUL]) @ r)"
      "st_capacity s' \<le> max (max INITIAL_CAPACITY (st_capacity s)) (2 * ?n)"
    using l by auto
  have "\<exists>r. b = map Some t @ r"
  proof (cases "st_data s")
    case None
    then have "t = []" using assms(1) by (simp add: holds_text_def)
    then show ?thesis by simp
  next
    case (Some a)
    then show ?thesis using s(7) by auto
  qed
  then obtain r where b: "b = map Some t @ r" by blast
  from memcpy_end [of "int (length t)" t d r] s(2,6) b
  obtain r1 where m: "memcpy b (int (length t)) d = Some (map Some (t @ d) @ r1)" by auto
  have l1: "length (map Some (t @ d) @ r1) = length b" using memcpy_length [OF m] .
  have "int (length t) + int (length d) < int (length (map Some (t @ d) @ r1))" using s(2,6) l1 by linarith
  from aset_end [OF _ this] obtain r2 where a: "aset (map Some (t @ d) @ r1) (int (length t) + int (length d)) (Some NUL) = Some (map Some ((t @ d) @ [NUL]) @ r2)"
    by auto
  have l2: "length (map Some ((t @ d) @ [NUL]) @ r2) = length b" using aset_length [OF a] l1 by simp
  have "no_nul t" using assms(1) by (simp add: holds_text_def)
  with s m a l l2 assms(2,3) show ?thesis
    by (simp add: string_append_cstr_def holds_text_def)
qed


section \<open>Replacing\<close>

lemma strstr_first:
  "strstr h n = Some k \<longleftrightarrow> k \<le> length h \<and> take (length n) (drop k h) = n
    \<and> (\<forall>j<k. take (length n) (drop j h) \<noteq> n)"
proof (induction h arbitrary: k)
  case Nil
  then show ?case by auto
next
  case (Cons c h)
  show ?case
  proof (cases "take (length n) (c # h) = n")
    case True
    then show ?thesis by (cases k) (auto dest: spec [of _ "0::nat"])
  next
    case False
    have "strstr (c # h) n = Some k \<longleftrightarrow> (\<exists>j. k = Suc j \<and> strstr h n = Some j)" using False by auto
    then show ?thesis using False by (cases k) (simp_all add: Cons.IH All_less_Suc2)
  qed
qed

lemma strstr_None: "strstr h n = None \<longleftrightarrow> (\<forall>k \<le> length h. take (length n) (drop k h) \<noteq> n)"
proof
  assume n: "strstr h n = None"
  show "\<forall>k \<le> length h. take (length n) (drop k h) \<noteq> n"
  proof (intro allI impI notI)
    fix k assume k: "k \<le> length h" "take (length n) (drop k h) = n"
    define m where "m = (LEAST k. take (length n) (drop k h) = n)"
    have "take (length n) (drop m h) = n" "m \<le> k" "\<forall>j<m. take (length n) (drop j h) \<noteq> n"
      unfolding m_def using k(2) by (auto intro: LeastI Least_le dest: not_less_Least)
    then have "strstr h n = Some m" using k(1) by (simp add: strstr_first)
    then show False using n by simp
  qed
next
  assume "\<forall>k \<le> length h. take (length n) (drop k h) \<noteq> n"
  then show "strstr h n = None" using strstr_first [of h n] by (cases "strstr h n") auto
qed

text \<open>The pieces between the occurrences of a separator.\<close>

definition joined :: "string \<Rightarrow> string list \<Rightarrow> string \<Rightarrow> string" where
  "joined sep ps z = concat (map (\<lambda>p. p @ sep) ps) @ z"

lemma joined_simps [simp]: "joined sep [] z = z" "joined sep (p # ps) z = p @ sep @ joined sep ps z"
  by (simp_all add: joined_def)

text \<open>\<open>p\<close> ends at the first occurrence of \<open>sep\<close>, wherever the text goes on.\<close>

definition ends_at :: "string \<Rightarrow> string \<Rightarrow> bool" where
  "ends_at sep p \<longleftrightarrow> strstr (p @ sep) sep = Some (length p)"

lemma ends_at_append: "ends_at sep p \<Longrightarrow> strstr (p @ sep @ t) sep = Some (length p)"
  by (fastforce simp: ends_at_def strstr_first)

lemma replace_loop_ok:
  assumes "\<forall>p \<in> set ps. ends_at pat p" "strstr z pat = None" "0 \<le> n" "0 \<le> mx" "mx = 0 \<or> n \<le> mx"
    "holds_text s t" "no_nul (joined pat ps z)" "no_nul rep" "pat \<noteq> []"
    "int (length t) + int (length (joined rep ps z)) + 1 < 2 ^ 30"
  shows "\<exists>s'. replace_loop pat rep mx (joined pat ps z) n (Some s) = Some (Some s')
    \<and> holds_text s' (t @ (if mx = 0 \<or> int (length ps) < mx - n then joined rep ps z
         else joined rep (take (nat (mx - n)) ps) []))"
  using assms
proof (induction ps arbitrary: n s t)
  case Nil
  show ?case
  proof (cases "z \<noteq> [] \<and> (mx = 0 \<or> n < mx)")
    case True
    obtain s' where "string_append_cstr (Some s) (Some z) = Some (0, Some s')" "holds_text s' (t @ z)"
      using append_cstr_ok [OF Nil.prems(6), of z] Nil.prems(7,10) by auto
    then show ?thesis using True Nil.prems by (subst replace_loop.simps) auto
  next
    case False
    then show ?thesis using Nil.prems by (subst replace_loop.simps) auto
  qed
next
  case (Cons p ps)
  let ?c = "joined pat (p # ps) z"
  show ?case
  proof (cases "mx = 0 \<or> n < mx")
    case False
    then show ?thesis using Cons.prems by (subst replace_loop.simps) auto
  next
    case True
    have f: "strstr ?c pat = Some (length p)" using Cons.prems(1) by (simp add: ends_at_append)
    have d: "drop (length p + length pat) ?c = joined pat ps z" "take (length p) ?c = p" by simp_all
    obtain s1 where s1: "string_append_cstr (Some s) (Some p) = Some (0, Some s1)" "holds_text s1 (t @ p)"
      using append_cstr_ok [OF Cons.prems(6), of p] Cons.prems(7,10) by auto
    obtain s2 where s2: "string_append_cstr (Some s1) (Some rep) = Some (0, Some s2)" "holds_text s2 ((t @ p) @ rep)"
      using append_cstr_ok [OF s1(2), of rep] Cons.prems(8,10) by auto
    have e: "replace_loop pat rep mx ?c n (Some s) = replace_loop pat rep mx (joined pat ps z) (n + 1) (Some s2)"
      using True f Cons.prems(9) s1 s2 by (subst replace_loop.simps) auto
    obtain s3 where s3: "replace_loop pat rep mx (joined pat ps z) (n + 1) (Some s2) = Some (Some s3)"
      "holds_text s3 (((t @ p) @ rep) @ (if mx = 0 \<or> int (length ps) < mx - (n + 1) then joined rep ps z
         else joined rep (take (nat (mx - (n + 1))) ps) []))"
      using Cons.IH [of "n + 1" s2 "(t @ p) @ rep", OF _ Cons.prems(2) _ Cons.prems(4) _ s2(2) _ Cons.prems(8,9)]
        Cons.prems(1,3,5,7,10) True by fastforce
    have "nat (mx - n) = Suc (nat (mx - (n + 1)))" if "\<not> mx = 0" using that True Cons.prems by simp
    then show ?thesis using s3 e by (cases "mx = 0") auto
  qed
qed

text \<open>
  C21. Replacing: with a limit of 0 every occurrence of the pattern, taken from the left without overlap,
  becomes the replacement and the pieces between them stay. A limit that is reached drops the rest of
  the text after the last replacement.
\<close>

theorem replace_pieces:
  assumes "holds_text s (joined pat ps z)" "\<forall>p \<in> set ps. ends_at pat p" "strstr z pat = None" "pat \<noteq> []"
    "no_nul rep" "0 \<le> mx" "joined pat ps z \<noteq> []" "int (length (joined pat ps z)) + 1 < 2 ^ 30"
    "int (length (joined rep ps z)) + 1 < 2 ^ 30"
  shows "\<exists>s'. string_replace_cstr (Some s) (Some pat) (Some rep) mx = Some (0, Some s')
    \<and> holds_text s' (if mx = 0 \<or> int (length ps) < mx then joined rep ps z else joined rep (take (nat mx) ps) [])"
proof -
  let ?t = "joined pat ps z"
  let ?r = "if mx = 0 \<or> int (length ps) < mx then joined rep ps z else joined rep (take (nat mx) ps) []"
  have n: "no_nul ?t" and l: "st_length s = int (length ?t)" using assms(1) by (simp_all add: holds_text_def)
  obtain b where b: "st_data s = Some b" "cstr_in b = Some ?t"
    using assms(1,7) cstr_in_text [OF n] by (auto simp: holds_text_def split: option.splits)
  obtain s0 where s0: "string_create_empty (int (length ?t) + 1) = Some (Some s0)" "holds_text s0 []"
    using create_empty_ok [of "int (length ?t) + 1"] assms(8) by auto
  from replace_loop_ok [OF assms(2,3) _ assms(6) _ s0(2) n assms(5,4), of 0, unfolded diff_zero append_Nil] assms(6,9)
  obtain s1 where s1: "replace_loop pat rep mx ?t 0 (Some s0) = Some (Some s1)" "holds_text s1 ?r" by fastforce
  have "no_nul ?r" using s1(2) by (simp add: holds_text_def)
  moreover have "int (length ?r) + 1 < 2 ^ 30"
  proof -
    have "length (joined rep (take k ps) []) \<le> length (joined rep ps z)" for k
      by (induction ps arbitrary: k) (auto simp: take_Cons' trans_le_add2)
    then show ?thesis using assms(9) by (smt (verit) of_nat_le_iff)
  qed
  ultimately obtain s2 where "string_set_cstr (Some s) (Some ?r) = Some (0, Some s2)" "holds_text s2 ?r"
    using set_cstr_ok [OF assms(1)] by blast
  then show ?thesis
    using assms(4,8) l b s0(1) s1 string_data_holds [OF s1(2)] by (simp add: string_replace_cstr_def)
qed


definition two_as :: String where
  "two_as = \<lparr>st_data = Some (map Some ''xayaz'' @ [Some NUL] @ replicate 10 None), st_length = 5, st_capacity = 16\<rparr>"

theorem replace_pieces_witness:
  "\<exists>s. string_replace_cstr (Some two_as) (Some ''a'') (Some ''bc'') 0 = Some (0, Some s) \<and> holds_text s ''xbcybcz''"
proof -
  have "holds_text two_as (joined ''a'' [''x'', ''y''] ''z'')" by (simp add: two_as_def holds_text_def)
  from replace_pieces [OF this, of "''bc''" 0] show ?thesis by (simp add: ends_at_def)
qed

section \<open>UTF-8\<close>

text \<open>The UTF-8 form of a code point.\<close>

definition utf8_encode :: "nat \<Rightarrow> string" where
  "utf8_encode cp = map char_of
     (if cp < 0x80 then [cp]
      else if cp < 0x800 then [0xC0 + cp div 64, 0x80 + cp mod 64]
      else if cp < 0x10000 then [0xE0 + cp div 4096, 0x80 + cp div 64 mod 64, 0x80 + cp mod 64]
      else [0xF0 + cp div 262144, 0x80 + cp div 4096 mod 64, 0x80 + cp div 64 mod 64, 0x80 + cp mod 64])"

text \<open>A character as the bytes of its form: one leading byte, whose value gives the size, then
  continuation bytes.\<close>

definition utf8_form :: "string \<Rightarrow> bool" where
  "utf8_form u \<longleftrightarrow> (case u of [] \<Rightarrow> False
     | c # cs \<Rightarrow> utf8_char_size (uint8 c) = int (length u) \<and> (\<forall>d \<in> set cs. is_utf8_continuation_byte (uint8 d)))"

lemma code_lt: "code c < 256"
  by (simp add: code_def)

lemma char_size: "utf8_char_size (uint8 c) =
   (if code c < 128 then 1 else if code c < 192 then 0 else if code c < 224 then 2 else if code c < 240 then 3
    else if code c < 248 then 4 else 0)"
  using size_table code_lt [of c] by (simp add: uint8_def list_all_iff)

lemma continuation: "is_utf8_continuation_byte (uint8 c) \<longleftrightarrow> 128 \<le> code c \<and> code c < 192"
  using cont_table code_lt [of c] by (simp add: uint8_def list_all_iff)

lemma code_char_of: "n < 256 \<Longrightarrow> code (char_of n) = n"
  by (simp add: code_def)

lemma encode_form: "cp < 0x110000 \<Longrightarrow> utf8_form (utf8_encode cp)"
  by (auto simp: utf8_encode_def utf8_form_def char_size continuation code_char_of div_less_iff_less_mult less_mult_imp_div_less)

lemma form_size: "utf8_form u \<Longrightarrow> utf8_char_size (uint8 (hd u)) = int (length u) \<and> u \<noteq> [] \<and> length u \<le> 4"
  using utf8_char_size_cases [of "uint8 (hd u)"] by (cases u) (auto simp: utf8_form_def)

lemma byte_at: "i = int (length p) \<Longrightarrow> byte_in (map Some (p @ c # q) @ r) i = Some c"
  by (auto simp: byte_in_def nth_append)

lemma continuation_all:
  assumes "\<forall>d \<in> set ds. is_utf8_continuation_byte (uint8 d)" "i + j = int (length p)" "sz = j + int (length ds)"
  shows "continuation_loop (map Some (p @ ds @ q) @ r) i j sz = Some True"
  using assms
proof (induction ds arbitrary: p j)
  case Nil
  then show ?case by (subst continuation_loop.simps) simp
next
  case (Cons d ds)
  have "continuation_loop (map Some ((p @ [d]) @ ds @ q) @ r) i (j + 1) sz = Some True"
    by (rule Cons.IH) (use Cons.prems in auto)
  moreover have "byte_in (map Some (p @ d # (ds @ q)) @ r) (i + j) = Some d" using Cons.prems(2) by (rule byte_at)
  ultimately show ?case using Cons.prems by (subst continuation_loop.simps) simp
qed

lemma utf8_step:
  assumes "utf8_form u" "i = int (length p)" "len = int (length (p @ concat (u # us)))" "len < 2 ^ 30"
  obtains c cs where "u = c # cs" "byte_in (map Some (p @ concat (u # us)) @ r) i = Some c"
    "utf8_char_size (uint8 c) = int (length u)" "bad_size (utf8_char_size (uint8 c)) i len = Some False" "i < len"
    "continuation_loop (map Some (p @ concat (u # us)) @ r) i 1 (utf8_char_size (uint8 c)) = Some True"
proof -
  obtain c cs where u: "u = c # cs" using assms(1) by (cases u) (auto simp: utf8_form_def)
  have s: "utf8_char_size (uint8 c) = int (length u)" using form_size [OF assms(1)] u by simp
  have "continuation_loop (map Some ((p @ [c]) @ cs @ concat us) @ r) i 1 (int (length u)) = Some True"
    by (rule continuation_all) (use assms u in \<open>auto simp: utf8_form_def\<close>)
  then show thesis
    using that [of c cs] u s assms byte_at [OF assms(2), of c "cs @ concat us" r] by (simp add: bad_size_def)
qed

lemma valid_forms:
  assumes "\<forall>u \<in> set us. utf8_form u" "i = int (length p)" "len = int (length (p @ concat us))" "len < 2 ^ 30"
  shows "valid_utf8_loop (map Some (p @ concat us) @ r) len i = Some True"
  using assms
proof (induction us arbitrary: p i)
  case Nil
  then show ?case by (subst valid_utf8_loop.simps) simp
next
  case (Cons u us)
  have f: "utf8_form u" using Cons.prems by simp
  from utf8_step [OF f Cons.prems(2-4), of r] obtain c cs where s: "u = c # cs"
    "byte_in (map Some (p @ concat (u # us)) @ r) i = Some c"
    "utf8_char_size (uint8 c) = int (length u)" "bad_size (utf8_char_size (uint8 c)) i len = Some False" "i < len"
    "continuation_loop (map Some (p @ concat (u # us)) @ r) i 1 (utf8_char_size (uint8 c)) = Some True" .
  have "valid_utf8_loop (map Some ((p @ u) @ concat us) @ r) len (i + int (length u)) = Some True"
    by (rule Cons.IH) (use Cons.prems in auto)
  then show ?case using s by (subst valid_utf8_loop.simps) (simp add: Let_def)
qed

lemma length_forms:
  assumes "\<forall>u \<in> set us. utf8_form u" "i = int (length p)" "len = int (length (p @ concat us))" "len < 2 ^ 30"
  shows "utf8_length_loop (map Some (p @ concat us) @ r) len i n = Some (n + int (length us))"
  using assms
proof (induction us arbitrary: p i n)
  case Nil
  then show ?case by (subst utf8_length_loop.simps) simp
next
  case (Cons u us)
  have f: "utf8_form u" using Cons.prems by simp
  from utf8_step [OF f Cons.prems(2-4), of r] obtain c cs where s: "u = c # cs"
    "byte_in (map Some (p @ concat (u # us)) @ r) i = Some c"
    "utf8_char_size (uint8 c) = int (length u)" "bad_size (utf8_char_size (uint8 c)) i len = Some False" "i < len" .
  have "utf8_length_loop (map Some ((p @ u) @ concat us) @ r) len (i + int (length u)) (n + 1) = Some (n + 1 + int (length us))"
    by (rule Cons.IH) (use Cons.prems in auto)
  then show ?case using s by (subst utf8_length_loop.simps) (simp add: Let_def)
qed

lemma bytes_at:
  assumes "i = int (length p)" "k = int (length u)"
  shows "bytes_in (map Some (p @ u @ q) @ r) i k = Some u"
proof -
  have "those (map Some u) = Some u" by (induction u) auto
  then show ?thesis using assms by (simp add: bytes_in_def)
qed

lemma char_at_forms:
  assumes "\<forall>u \<in> set us. utf8_form u" "i = int (length p)" "len = int (length (p @ concat us))" "len < 2 ^ 30" "5 \<le> bs"
    "k < length us"
  shows "char_at_loop (map Some (p @ concat us) @ r) len (n + int k) bs i n = Some (Some (us ! k))"
  using assms
proof (induction us arbitrary: p i n k)
  case Nil
  then show ?case by simp
next
  case (Cons u us)
  have f: "utf8_form u" using Cons.prems by simp
  from utf8_step [OF f Cons.prems(2-4), of r] obtain c cs where s: "u = c # cs"
    "byte_in (map Some (p @ concat (u # us)) @ r) i = Some c"
    "utf8_char_size (uint8 c) = int (length u)" "bad_size (utf8_char_size (uint8 c)) i len = Some False" "i < len" .
  show ?case
  proof (cases k)
    case 0
    have "bytes_in (map Some (p @ u @ concat us) @ r) i (int (length u)) = Some u" by (rule bytes_at [OF Cons.prems(2) refl])
    then show ?thesis using s 0 form_size [OF f] Cons.prems(5) by (subst char_at_loop.simps) (simp add: Let_def)
  next
    case (Suc j)
    have "char_at_loop (map Some ((p @ u) @ concat us) @ r) len (n + 1 + int j) bs (i + int (length u)) (n + 1) = Some (Some (us ! j))"
      by (rule Cons.IH) (use Cons.prems Suc in auto)
    then show ?thesis using s Suc by (subst char_at_loop.simps) (simp add: Let_def add.assoc)
  qed
qed


text \<open>
  C22. UTF-8: a string that holds the UTF-8 forms of any code points is found valid, its length in
  characters is their number, and reading the character at an index gives the form of that code
  point.
\<close>

theorem utf8_roundtrip:
  assumes "\<forall>cp \<in> set cps. cp < 0x110000" "holds_text s (concat (map utf8_encode cps))"
    "int (length (concat (map utf8_encode cps))) < 2 ^ 30"
  shows "string_is_valid_utf8 (Some s) = Some True \<and> string_utf8_length (Some s) = Some (int (length cps))
    \<and> (\<forall>k < length cps. string_utf8_char_at (Some s) (int k) True 5 = Some (Some (utf8_encode (cps ! k))))"
proof -
  let ?us = "map utf8_encode cps"
  have f: "\<forall>u \<in> set ?us. utf8_form u" using assms(1) by (auto intro: encode_form)
  have l: "st_length s = int (length (concat ?us))" using assms(2) by (simp add: holds_text_def)
  show ?thesis
  proof (cases "st_data s")
    case None
    then have "concat ?us = []" using assms(2) by (simp add: holds_text_def)
    moreover have "cps = []" if "concat ?us = []"
      using that f form_size by (cases cps) auto
    ultimately show ?thesis using None by (simp add: string_is_valid_utf8_def string_utf8_length_def)
  next
    case (Some b)
    then obtain r where b: "b = map Some ([] @ concat ?us) @ ([Some NUL] @ r)"
      using assms(2) by (auto simp: holds_text_def)
    have v: "valid_utf8_loop b (st_length s) 0 = Some True"
      unfolding b by (rule valid_forms [OF f]) (use l assms(3) in simp_all)
    have n: "utf8_length_loop b (st_length s) 0 0 = Some (0 + int (length ?us))"
      unfolding b by (rule length_forms [OF f]) (use l assms(3) in simp_all)
    have c: "char_at_loop b (st_length s) (0 + int k) 5 0 0 = Some (Some (?us ! k))" if "k < length ?us" for k
      unfolding b by (rule char_at_forms [OF f]) (use l assms(3) that in simp_all)
    have "0 < st_length s" if "k < length cps" for k
    proof -
      have "utf8_encode (cps ! k) \<noteq> []" using f that form_size [of "utf8_encode (cps ! k)"] by simp
      then have "concat ?us \<noteq> []" using that by (auto dest: bspec [OF _ nth_mem])
      then show ?thesis using l by (simp del: length_concat)
    qed
    with v n c Some show ?thesis
      by (simp add: string_is_valid_utf8_def string_utf8_length_def string_utf8_char_at_def)
  qed
qed

definition euro_sign :: String where
  "euro_sign = \<lparr>st_data = Some (map (Some \<circ> char_of) [0xE2, 0x82, 0xAC, 0x61, 0::nat]), st_length = 4, st_capacity = 5\<rparr>"

theorem utf8_roundtrip_witness:
  "string_utf8_length (Some euro_sign) = Some 2
   \<and> string_utf8_char_at (Some euro_sign) 0 True 5 = Some (Some (map char_of [0xE2, 0x82, 0xAC::nat]))"
proof -
  have "holds_text euro_sign (concat (map utf8_encode [0x20AC, 0x61]))"
    by (simp add: euro_sign_def holds_text_def utf8_encode_def char_of_def)
  from utf8_roundtrip [OF _ this] show ?thesis by (auto simp: utf8_encode_def)
qed

section \<open>Building a string\<close>

fun append_all :: "string list \<Rightarrow> String ptr \<Rightarrow> String ptr option" where
  "append_all [] str = Some str"
| "append_all (d # ds) str = do {
     (r, str) \<leftarrow> string_append_cstr str (Some d);
     if r \<noteq> 0 then None else append_all ds str }"


lemma append_all_ok:
  assumes "\<forall>d \<in> set ds. no_nul d" "holds_text s t" "int (length t) + int (length (concat ds)) + 1 < 2 ^ 30"
    "st_capacity s \<le> max 16 (2 * (int (length t) + 1))"
  shows "\<exists>s'. append_all ds (Some s) = Some (Some s') \<and> holds_text s' (t @ concat ds)
    \<and> st_capacity s' \<le> max 16 (2 * (int (length t) + int (length (concat ds)) + 1))"
  using assms
proof (induction ds arbitrary: s t)
  case Nil
  then show ?case by simp
next
  case (Cons d ds)
  obtain s1 where s1: "string_append_cstr (Some s) (Some d) = Some (0, Some s1)" "holds_text s1 (t @ d)"
    "st_capacity s1 \<le> max (max INITIAL_CAPACITY (st_capacity s)) (2 * (int (length t) + int (length d) + 1))"
    using append_cstr_ok [OF Cons.prems(2), of d] Cons.prems(1,3) by auto
  have "st_capacity s1 \<le> max 16 (2 * (int (length (t @ d)) + 1))"
    using s1(3) Cons.prems(4) by (auto simp: INITIAL_CAPACITY_def)
  from Cons.IH [OF _ s1(2) _ this] Cons.prems(1,3) s1(1) show ?case by (auto simp: add.assoc)
qed

text \<open>
  Growth: appending any pieces to an empty string ends with their concatenation in a block that is at
  most twice as long as needed, or the initial 16 bytes.
\<close>

theorem appends_concatenate:
  assumes "\<forall>d \<in> set ds. no_nul d" "int (length (concat ds)) + 1 < 2 ^ 30"
  shows "\<exists>s. append_all ds (the (string_create_empty 0)) = Some (Some s) \<and> holds_text s (concat ds)
    \<and> st_capacity s \<le> max 16 (2 * (int (length (concat ds)) + 1))"
proof -
  have "string_create_empty 0 = Some (Some \<lparr>st_data = None, st_length = 0, st_capacity = 0\<rparr>)"
    by (simp add: string_create_empty_def)
  moreover have "holds_text \<lparr>st_data = None, st_length = 0, st_capacity = 0\<rparr> []" by (simp add: holds_text_def)
  ultimately show ?thesis using append_all_ok [OF assms(1), of _ "[]"] assms(2) by simp
qed

theorem appends_concatenate_witness:
  "\<exists>s. append_all [''ab'', [], ''cde''] (the (string_create_empty 0)) = Some (Some s) \<and> holds_text s ''abcde'' \<and> st_capacity s \<le> 16"
  using appends_concatenate [of "[''ab'', [], ''cde'']"] by simp

end
