(* ===== verification/ShArray.thy ===== *)
theory ShArray
  imports ShString
begin

text \<open>
  The shell's dynamic arrays of pointers, \<open>ptr_array.c.in\<close> (a template that the build instantiates for
  each element type; \<open>ptr_array_macros.h\<close> has the same functions as macros). An array owns a block of
  \<open>capacity\<close> slots, of which the first \<open>size\<close> hold elements; a slot that was never written is
  \<^term>\<open>None\<close>, one that holds a null pointer \<^term>\<open>Some None\<close>. An element type variable stands for the
  objects the elements point at. \<open>ar_freed\<close> is no field of the code: it records the objects
  that were passed to \<open>free_func\<close>, in order. Sizes are natural numbers: memory ends before \<open>size_t\<close> does.
\<close>

record 'a Array =
  ar_data :: "'a ptr block ptr"
  ar_size :: nat
  ar_capacity :: nat
  ar_free_func :: bool
  ar_freed :: "'a list"

text \<open>\<open>while (new_capacity < needed) new_capacity *= GROW_FACTOR\<close>, from a positive capacity.\<close>

function growz :: "nat \<Rightarrow> nat \<Rightarrow> nat" where
  "growz cap needed = (if needed \<le> cap \<or> cap = 0 then cap else growz (cap * nat GROW_FACTOR) needed)"
  by pat_completeness auto
termination
  by (relation "measure (\<lambda>(c, n). n - c)") (auto simp: GROW_FACTOR_def)

declare growz.simps [simp del]

definition array_ensure_capacity :: "'a Array \<Rightarrow> nat \<Rightarrow> 'a Array" where
  "array_ensure_capacity a needed =
     (if needed \<le> ar_capacity a then a
      else let new_capacity = growz (if ar_capacity a \<noteq> 0 then ar_capacity a else nat INITIAL_CAPACITY) needed
           in a\<lparr>ar_data := Some (realloc (ar_data a) new_capacity), ar_capacity := new_capacity\<rparr>)"

definition array_create_with_free :: "bool \<Rightarrow> 'a Array ptr" where
  "array_create_with_free free_func =
     Some (array_ensure_capacity \<lparr>ar_data = None, ar_size = 0, ar_capacity = 0, ar_free_func = free_func, ar_freed = []\<rparr>
             (nat INITIAL_CAPACITY))"

definition array_create :: "'a Array ptr" where
  "array_create = array_create_with_free False"

text \<open>\<open>for (i = from; i < to; i++) if (data[i]) free_func(data[i])\<close>, under \<open>if (free_func)\<close>.\<close>

definition free_slots :: "'a Array \<Rightarrow> nat \<Rightarrow> nat \<Rightarrow> 'a Array option" where
  "free_slots a i n =
     (if \<not> ar_free_func a \<or> n \<le> i then Some a
      else do {
        b \<leftarrow> ar_data a;
        ps \<leftarrow> bytes_in b (int i) (int (n - i));
        Some (a\<lparr>ar_freed := ar_freed a @ concat (map (case_option [] (\<lambda>x. [x])) ps)\<rparr>) })"

text \<open>The objects freed by the end of the array's life.\<close>

definition array_destroy :: "'a Array ptr \<Rightarrow> 'a list option" where
  "array_destroy array =
     (case array of None \<Rightarrow> Some [] | Some a \<Rightarrow> map_option ar_freed (free_slots a 0 (ar_size a)))"

definition array_size :: "'a Array ptr \<Rightarrow> nat" where
  "array_size array = (case array of None \<Rightarrow> 0 | Some a \<Rightarrow> ar_size a)"

definition array_capacity :: "'a Array ptr \<Rightarrow> nat" where
  "array_capacity array = (case array of None \<Rightarrow> 0 | Some a \<Rightarrow> ar_capacity a)"

text \<open>Reading a slot: undefined outside the block and before the slot is written.\<close>

definition slot :: "'a Array \<Rightarrow> nat \<Rightarrow> 'a ptr option" where
  "slot a i = do { b \<leftarrow> ar_data a; byte_in b (int i) }"

definition set_slot :: "'a Array \<Rightarrow> nat \<Rightarrow> 'a ptr \<Rightarrow> 'a Array option" where
  "set_slot a i p = do { b \<leftarrow> ar_data a; b \<leftarrow> aset b (int i) (Some p); Some (a\<lparr>ar_data := Some b\<rparr>) }"

definition array_get :: "'a Array ptr \<Rightarrow> nat \<Rightarrow> 'a ptr option" where
  "array_get array index =
     (case array of None \<Rightarrow> Some None | Some a \<Rightarrow> if index \<ge> ar_size a then Some None else slot a index)"

definition array_is_empty :: "'a Array ptr \<Rightarrow> bool" where
  "array_is_empty array = (case array of None \<Rightarrow> True | Some a \<Rightarrow> ar_size a = 0)"

definition array_append :: "'a Array ptr \<Rightarrow> 'a ptr \<Rightarrow> (int \<times> 'a Array ptr) option" where
  "array_append array element =
     (case array of
        None \<Rightarrow> Some (-1, array)
      | Some a \<Rightarrow> do {
          let a = array_ensure_capacity a (ar_size a + 1);
          a \<leftarrow> set_slot a (ar_size a) element;
          Some (0, Some (a\<lparr>ar_size := ar_size a + 1\<rparr>)) })"

text \<open>\<open>if (free_func && data[index]) free_func(data[index])\<close>\<close>

definition free_at :: "'a Array \<Rightarrow> nat \<Rightarrow> 'a Array option" where
  "free_at a i = free_slots a i (i + 1)"

definition array_set :: "'a Array ptr \<Rightarrow> nat \<Rightarrow> 'a ptr \<Rightarrow> (int \<times> 'a Array ptr) option" where
  "array_set array index element =
     (case array of
        None \<Rightarrow> Some (-1, array)
      | Some a \<Rightarrow>
          if index \<ge> ar_size a then Some (-1, array)
          else do {
            a \<leftarrow> free_at a index;
            a \<leftarrow> set_slot a index element;
            Some (0, Some a) })"

definition array_remove :: "'a Array ptr \<Rightarrow> nat \<Rightarrow> (int \<times> 'a Array ptr) option" where
  "array_remove array index =
     (case array of
        None \<Rightarrow> Some (-1, array)
      | Some a \<Rightarrow>
          if index \<ge> ar_size a then Some (-1, array)
          else do {
            a \<leftarrow> free_at a index;
            b \<leftarrow> ar_data a;
            b \<leftarrow> loop_up b (int index) (int (ar_size a - 1)) 0 1;
            let a = a\<lparr>ar_data := Some b, ar_size := ar_size a - 1\<rparr>;
            a \<leftarrow> set_slot a (ar_size a) None;
            Some (0, Some a) })"

definition null_from :: "'a ptr block \<Rightarrow> nat \<Rightarrow> nat \<Rightarrow> 'a ptr block option" where
  "null_from b i n = (if i < n then memcpy b (int i) (replicate (n - i) None) else Some b)"

definition array_clear :: "'a Array ptr \<Rightarrow> (int \<times> 'a Array ptr) option" where
  "array_clear array =
     (case array of
        None \<Rightarrow> Some (-1, array)
      | Some a \<Rightarrow> do {
          a \<leftarrow> free_slots a 0 (ar_size a);
          let a = a\<lparr>ar_size := 0\<rparr>;
          if ar_capacity a = 0 then Some (0, Some a)
          else do {
            b \<leftarrow> ar_data a;
            b \<leftarrow> null_from b 0 (ar_capacity a);
            Some (0, Some (a\<lparr>ar_data := Some b\<rparr>)) } })"

text \<open>The loop that clears new slots starts at the capacity that \<open>ensure_capacity\<close> has just raised to
  the new one at least, so it never runs.\<close>

definition array_resize :: "'a Array ptr \<Rightarrow> nat \<Rightarrow> (int \<times> 'a Array ptr) option" where
  "array_resize array new_capacity =
     (case array of
        None \<Rightarrow> Some (-1, array)
      | Some a \<Rightarrow> do {
          a \<leftarrow> (if new_capacity < ar_size a
                then do { a \<leftarrow> free_slots a new_capacity (ar_size a); Some (a\<lparr>ar_size := new_capacity\<rparr>) }
                else Some a);
          let a = array_ensure_capacity a new_capacity;
          a \<leftarrow> (if ar_capacity a < new_capacity
                then do {
                  b \<leftarrow> ar_data a;
                  b \<leftarrow> null_from b (ar_capacity a) new_capacity;
                  Some (a\<lparr>ar_data := Some b\<rparr>) }
                else Some a);
          Some (0, Some (a\<lparr>ar_capacity := new_capacity\<rparr>)) })"

text \<open>\<open>apply_func\<close> as a function of the element and the caller's data. A null array is fatal.\<close>

definition array_foreach :: "'a Array ptr \<Rightarrow> ('a ptr \<Rightarrow> 'd \<Rightarrow> 'd) \<Rightarrow> 'd \<Rightarrow> 'd option" where
  "array_foreach array apply_func user_data =
     (case array of
        None \<Rightarrow> None
      | Some a \<Rightarrow>
          if ar_size a = 0 then Some user_data
          else do {
            b \<leftarrow> ar_data a;
            ps \<leftarrow> bytes_in b 0 (int (ar_size a));
            Some (fold apply_func ps user_data) })"

text \<open>The search loops: the result is the code and the index stored, if any.\<close>

function find_slot :: "'a Array \<Rightarrow> ('a ptr \<Rightarrow> bool option) \<Rightarrow> nat \<Rightarrow> nat option option" where
  "find_slot a test i =
     (if i < ar_size a then do {
        p \<leftarrow> slot a i;
        hit \<leftarrow> test p;
        if hit then Some (Some i) else find_slot a test (i + 1) }
      else Some None)"
  by pat_completeness auto
termination
  by (relation "measure (\<lambda>(a, t, i). ar_size a - i)") auto

declare find_slot.simps [simp del]

definition find_result :: "nat option \<Rightarrow> int \<times> nat option" where
  "find_result r = (case r of None \<Rightarrow> (-1, None) | Some i \<Rightarrow> (0, Some i))"

text \<open>\<open>find\<close> compares the pointers themselves: here the elements stand for their addresses.\<close>

definition array_find :: "'a Array ptr \<Rightarrow> 'a ptr \<Rightarrow> (int \<times> nat option) option" where
  "array_find array element =
     (case array of
        None \<Rightarrow> Some (-1, None)
      | Some a \<Rightarrow> map_option find_result (find_slot a (\<lambda>p. Some (p = element)) 0))"

definition array_find_with_compare ::
  "'a Array ptr \<Rightarrow> 'd ptr \<Rightarrow> ('a ptr \<Rightarrow> 'd ptr \<Rightarrow> int option) \<Rightarrow> (int \<times> nat option) option" where
  "array_find_with_compare array data compare_func =
     (case (array, data) of
        (Some a, Some d) \<Rightarrow>
          map_option find_result (find_slot a (\<lambda>p. map_option (\<lambda>r. r = 0) (compare_func p data)) 0)
      | _ \<Rightarrow> Some (-1, None))"

end
