(* ===== verification/ShArrProps.thy ===== *)
theory ShArrProps
  imports ShArray
begin

text \<open>
  What the shell's arrays promise: \<open>array_holds a xs\<close> is the representation invariant with the list of
  elements, kept by every operation, and the ownership of the elements.
\<close>

definition array_holds :: "'a Array \<Rightarrow> 'a list \<Rightarrow> bool" where
  "array_holds a xs \<longleftrightarrow> ar_size a = length xs \<and> length xs \<le> ar_capacity a
     \<and> (case ar_data a of
          None \<Rightarrow> ar_capacity a = 0
        | Some b \<Rightarrow> ar_capacity a \<le> length b \<and> (\<exists>r. b = map (Some \<circ> Some) xs @ r))"

lemma array_holds_freed [simp]: "array_holds (a\<lparr>ar_freed := fs\<rparr>) xs = array_holds a xs"
  by (auto simp: array_holds_def split: option.splits)

lemma growz_ge: "0 < cap \<Longrightarrow> needed \<le> growz cap needed"
proof (induction cap needed rule: growz.induct)
  case (1 cap needed)
  then show ?case by (subst growz.simps) (auto simp: GROW_FACTOR_def)
qed

lemma realloc_length: "length (realloc p n) = n"
  by (auto simp: realloc_def min_def split: option.splits)

lemma ensure_ok:
  assumes "array_holds a xs"
  shows "array_holds (array_ensure_capacity a n) xs \<and> n \<le> ar_capacity (array_ensure_capacity a n)
    \<and> ar_size (array_ensure_capacity a n) = ar_size a
    \<and> ar_free_func (array_ensure_capacity a n) = ar_free_func a \<and> ar_freed (array_ensure_capacity a n) = ar_freed a"
proof (cases "n \<le> ar_capacity a")
  case True
  then show ?thesis using assms by (simp add: array_ensure_capacity_def)
next
  case False
  define c where "c = growz (if ar_capacity a \<noteq> 0 then ar_capacity a else nat INITIAL_CAPACITY) n"
  have c: "n \<le> c" unfolding c_def by (rule growz_ge) (simp add: INITIAL_CAPACITY_def)
  have "\<exists>r. realloc (ar_data a) c = map (Some \<circ> Some) xs @ r"
    using assms c False by (auto simp: array_holds_def realloc_def split: option.splits)
  moreover have "array_ensure_capacity a n = a\<lparr>ar_data := Some (realloc (ar_data a) c), ar_capacity := c\<rparr>"
    using False by (simp add: array_ensure_capacity_def c_def Let_def)
  ultimately show ?thesis using assms False c by (simp add: array_holds_def realloc_length)
qed

lemma those_map_Some [simp]: "those (map Some xs) = Some xs"
  by (induction xs) auto

lemma bytes_holds:
  assumes "b = map (Some \<circ> Some) xs @ r" "i \<le> n" "n \<le> length xs"
  shows "bytes_in b (int i) (int (n - i)) = Some (map Some (take (n - i) (drop i xs)))"
proof -
  have "take (n - i) (drop i b) = map Some (map Some (take (n - i) (drop i xs)))"
    using assms by (simp add: take_map drop_map)
  then show ?thesis using assms(2,3) by (simp add: bytes_in_def assms(1) del: map_map of_nat_diff)
qed

lemma free_slots_ok:
  assumes "array_holds a xs" "i \<le> n" "n \<le> length xs"
  shows "free_slots a i n = Some (a\<lparr>ar_freed := ar_freed a @ (if ar_free_func a then take (n - i) (drop i xs) else [])\<rparr>)"
proof (cases "\<not> ar_free_func a \<or> n \<le> i")
  case True
  then show ?thesis using assms by (auto simp: free_slots_def)
next
  case False
  then obtain b r where b: "ar_data a = Some b" "b = map (Some \<circ> Some) xs @ r"
    using assms by (auto simp: array_holds_def split: option.splits)
  have "concat (map (case_option [] (\<lambda>x. [x]) \<circ> Some) ys) = ys" for ys :: "'a list" by (induction ys) auto
  then show ?thesis using False b(1) bytes_holds [OF b(2) assms(2,3)] by (simp add: free_slots_def)
qed

lemma append_ok:
  assumes "array_holds a xs"
  shows "\<exists>a'. array_append (Some a) (Some x) = Some (0, Some a') \<and> array_holds a' (xs @ [x])
    \<and> ar_freed a' = ar_freed a \<and> ar_free_func a' = ar_free_func a"
proof -
  let ?a = "array_ensure_capacity a (ar_size a + 1)"
  note e = ensure_ok [OF assms, of "ar_size a + 1"]
  have sz: "ar_size a = length xs" using assms by (simp add: array_holds_def)
  obtain b r where b: "ar_data ?a = Some b" "b = map (Some \<circ> Some) xs @ r" "ar_capacity ?a \<le> length b"
    using e by (auto simp: array_holds_def split: option.splits)
  moreover have "ar_size a + 1 \<le> ar_capacity ?a" using e by blast
  ultimately have "length xs < length b" using sz by linarith
  then obtain y r' where r: "r = y # r'" using b(2) by (cases r) auto
  have "aset b (int (length xs)) (Some (Some x)) = Some (map (Some \<circ> Some) (xs @ [x]) @ r')"
    using b(2) r by (simp add: list_update_append)
  then have "set_slot ?a (ar_size ?a) (Some x) = Some (?a\<lparr>ar_data := Some (map (Some \<circ> Some) (xs @ [x]) @ r')\<rparr>)"
    using b(1) e sz by (simp add: set_slot_def)
  then show ?thesis using e sz b r by (auto simp: array_append_def array_holds_def)
qed

lemma set_slot_ok:
  assumes "array_holds a xs" "i < length xs"
  shows "\<exists>b. set_slot a i (Some x) = Some (a\<lparr>ar_data := Some b\<rparr>) \<and> array_holds (a\<lparr>ar_data := Some b\<rparr>) (xs[i := x])"
proof -
  obtain b r where b: "ar_data a = Some b" "b = map (Some \<circ> Some) xs @ r"
    using assms by (auto simp: array_holds_def split: option.splits)
  have "b[i := Some (Some x)] = map (Some \<circ> Some) (xs[i := x]) @ r"
    using b(2) assms(2) by (simp add: list_update_append map_update)
  then show ?thesis using b assms by (auto simp: set_slot_def array_holds_def)
qed

lemma set_ok:
  assumes "array_holds a xs" "i < length xs"
  shows "\<exists>a'. array_set (Some a) i (Some x) = Some (0, Some a') \<and> array_holds a' (xs[i := x])
    \<and> ar_freed a' = ar_freed a @ (if ar_free_func a then [xs ! i] else []) \<and> ar_free_func a' = ar_free_func a"
proof -
  let ?a = "a\<lparr>ar_freed := ar_freed a @ (if ar_free_func a then [xs ! i] else [])\<rparr>"
  have f: "free_at a i = Some ?a"
    using free_slots_ok [OF assms(1), of i "i + 1"] assms(2) by (simp add: free_at_def take_Suc_conv_app_nth hd_drop_conv_nth take_Suc)
  have "array_holds ?a xs" using assms(1) by simp
  from set_slot_ok [OF this assms(2), of x] show ?thesis
    using f assms by (auto simp: array_set_def array_holds_def)
qed

lemma remove_ok:
  assumes "array_holds a xs" "i < length xs"
  shows "\<exists>a'. array_remove (Some a) i = Some (0, Some a') \<and> array_holds a' (take i xs @ drop (Suc i) xs)
    \<and> ar_freed a' = ar_freed a @ (if ar_free_func a then [xs ! i] else []) \<and> ar_free_func a' = ar_free_func a"
proof -
  let ?a = "a\<lparr>ar_freed := ar_freed a @ (if ar_free_func a then [xs ! i] else [])\<rparr>"
  have f: "free_at a i = Some ?a"
    using free_slots_ok [OF assms(1), of i "i + 1"] assms(2) by (simp add: free_at_def take_Suc hd_drop_conv_nth)
  obtain b r where b: "ar_data a = Some b" "b = map (Some \<circ> Some) xs @ r" "ar_capacity a \<le> length b"
    using assms by (auto simp: array_holds_def split: option.splits)
  let ?n = "length xs - 1"
  obtain b' where l: "loop_up b (int i) (int ?n) 0 1 = Some b'" "length b' = length b"
    "\<And>j. j < length b \<Longrightarrow> b' ! j = (if int i \<le> int j \<and> int j < int ?n then b ! (j + nat 1) else b ! j)"
    using loop_up_shift [of "int i" "int ?n" 1 b] b(2) assms(2) by auto
  let ?ys = "take i xs @ drop (Suc i) xs"
  have len: "length ?ys = ?n" using assms(2) by simp
  have "b'[?n := Some None] = map (Some \<circ> Some) ?ys @ Some None # drop (length xs) b"
  proof (rule nth_equalityI)
    show "length (b'[?n := Some None]) = length (map (Some \<circ> Some) ?ys @ Some None # drop (length xs) b)"
      using l(2) b(2) assms(2) by simp
    fix j assume "j < length (b'[?n := Some None])"
    then have j: "j < length b" using l(2) by simp
    have "b ! k = Some (Some (xs ! k))" if "k < length xs" for k using that b(2) by (simp add: nth_append)
    then show "b'[?n := Some None] ! j = (map (Some \<circ> Some) ?ys @ Some None # drop (length xs) b) ! j"
      using j l(2,3) assms(2) by (auto simp: nth_append nth_list_update nth_Cons' min_def)
  qed
  then have "aset b' (int ?n) (Some None) = Some (map (Some \<circ> Some) ?ys @ Some None # drop (length xs) b)"
    using aset_in [of "int ?n" b'] l(2) b(2) assms(2) by (simp del: of_nat_diff)
  moreover have "ar_size a = length xs" "ar_capacity a \<ge> length xs" using assms(1) by (simp_all add: array_holds_def)
  ultimately show ?thesis
    using f b l assms(2) len
    by (auto simp: array_remove_def set_slot_def array_holds_def)
qed

lemma clear_ok:
  assumes "array_holds a xs"
  shows "\<exists>a'. array_clear (Some a) = Some (0, Some a') \<and> array_holds a' []
    \<and> ar_freed a' = ar_freed a @ (if ar_free_func a then xs else []) \<and> ar_free_func a' = ar_free_func a"
proof -
  have sz: "ar_size a = length xs" using assms by (simp add: array_holds_def)
  have f: "free_slots a 0 (ar_size a) = Some (a\<lparr>ar_freed := ar_freed a @ (if ar_free_func a then xs else [])\<rparr>)"
    using free_slots_ok [OF assms, of 0 "length xs"] sz by simp
  show ?thesis
  proof (cases "ar_capacity a = 0")
    case True
    then show ?thesis using f assms by (auto simp: array_clear_def array_holds_def split: option.splits)
  next
    case False
    then obtain b where b: "ar_data a = Some b" "ar_capacity a \<le> length b"
      using assms by (auto simp: array_holds_def split: option.splits)
    then show ?thesis using f False by (auto simp: array_clear_def null_from_def memcpy_def array_holds_def)
  qed
qed

lemma slot_ok: "array_holds a xs \<Longrightarrow> i < length xs \<Longrightarrow> slot a i = Some (Some (xs ! i))"
  by (auto simp: slot_def array_holds_def byte_in_def nth_append split: option.splits)

lemma get_ok: "array_holds a xs \<Longrightarrow> array_get (Some a) i = Some (if i < length xs then Some (xs ! i) else None)"
  using slot_ok [of a xs i] by (auto simp: array_get_def array_holds_def)

lemma create_ok: "\<exists>a. array_create_with_free f = Some a \<and> array_holds a [] \<and> ar_freed a = [] \<and> ar_free_func a = f"
proof -
  let ?a = "\<lparr>ar_data = None, ar_size = 0, ar_capacity = 0, ar_free_func = f, ar_freed = []\<rparr>"
  have "array_holds ?a []" by (simp add: array_holds_def)
  from ensure_ok [OF this, of "nat INITIAL_CAPACITY"] show ?thesis by (auto simp: array_create_with_free_def)
qed

text \<open>The search finds the first element that passes the test.\<close>

lemma find_slot_ok:
  assumes "array_holds a xs" "\<And>x. x \<in> set xs \<Longrightarrow> test (Some x) = Some (P x)" "i \<le> length xs"
  shows "find_slot a test i = Some (let k = i + length (takeWhile (\<lambda>x. \<not> P x) (drop i xs))
    in if k < length xs then Some k else None)"
  using assms
proof (induction a test i rule: find_slot.induct)
  case (1 a test i)
  have sz: "ar_size a = length xs" using 1(2) by (simp add: array_holds_def)
  show ?case
  proof (cases "i < length xs")
    case False
    then show ?thesis using sz by (subst find_slot.simps) simp
  next
    case True
    then have d: "drop i xs = xs ! i # drop (Suc i) xs" by (simp add: Cons_nth_drop_Suc)
    have s: "slot a i = Some (Some (xs ! i))" "test (Some (xs ! i)) = Some (P (xs ! i))"
      using slot_ok [OF 1(2) True] 1(3) True by simp_all
    show ?thesis
    proof (cases "P (xs ! i)")
      case True
      then show ?thesis using s sz \<open>i < length xs\<close> d by (subst find_slot.simps) simp
    next
      case False
      have "find_slot a test (i + 1) = Some (let k = (i + 1) + length (takeWhile (\<lambda>x. \<not> P x) (drop (i + 1) xs))
        in if k < length xs then Some k else None)"
        using 1(1) [OF _ s] 1(2,3) True False sz by simp
      then show ?thesis using s sz True d False by (subst find_slot.simps) simp
    qed
  qed
qed

lemma find_with_compare_ok:
  assumes "array_holds a xs" "\<And>x. x \<in> set xs \<Longrightarrow> \<exists>r. compare (Some x) (Some d) = Some r \<and> (r = 0) = P x"
  shows "array_find_with_compare (Some a) (Some d) compare
    = Some (let k = length (takeWhile (\<lambda>x. \<not> P x) xs) in if k < length xs then (0, Some k) else (-1, None))"
proof -
  have "map_option (\<lambda>r. r = 0) (compare (Some x) (Some d)) = Some (P x)" if "x \<in> set xs" for x
    using assms(2) [OF that] by auto
  from find_slot_ok [of a xs "\<lambda>p. map_option (\<lambda>r. r = 0) (compare p (Some d))" P 0, OF assms(1) this]
  show ?thesis by (simp add: array_find_with_compare_def Let_def find_result_def)
qed

section \<open>Ownership\<close>

datatype 'a array_op = Append 'a | SetAt nat 'a | RemoveAt nat | Clear

fun do_op :: "'a array_op \<Rightarrow> 'a Array ptr \<Rightarrow> (int \<times> 'a Array ptr) option" where
  "do_op (Append x) a = array_append a (Some x)"
| "do_op (SetAt i x) a = array_set a i (Some x)"
| "do_op (RemoveAt i) a = array_remove a i"
| "do_op Clear a = array_clear a"

fun do_ops :: "'a array_op list \<Rightarrow> 'a Array ptr \<Rightarrow> 'a Array ptr option" where
  "do_ops [] a = Some a"
| "do_ops (x # ops) a = do { (_, a) \<leftarrow> do_op x a; do_ops ops a }"

text \<open>The same on lists, with the elements that leave the list.\<close>

fun list_op :: "'a array_op \<Rightarrow> 'a list \<Rightarrow> 'a list \<times> 'a list" where
  "list_op (Append x) xs = (xs @ [x], [])"
| "list_op (SetAt i x) xs = (if i < length xs then (xs[i := x], [xs ! i]) else (xs, []))"
| "list_op (RemoveAt i) xs = (if i < length xs then (take i xs @ drop (Suc i) xs, [xs ! i]) else (xs, []))"
| "list_op Clear xs = ([], xs)"

fun list_ops :: "'a array_op list \<Rightarrow> 'a list \<Rightarrow> 'a list" where
  "list_ops [] xs = xs"
| "list_ops (x # ops) xs = list_ops ops (fst (list_op x xs))"

text \<open>The elements given to the array: an index out of range gives nothing.\<close>

fun given :: "'a array_op list \<Rightarrow> 'a list \<Rightarrow> 'a multiset" where
  "given [] xs = {#}"
| "given (x # ops) xs =
     (case x of Append y \<Rightarrow> {#y#} | SetAt i y \<Rightarrow> (if i < length xs then {#y#} else {#}) | _ \<Rightarrow> {#})
     + given ops (fst (list_op x xs))"

lemma do_op_ok:
  assumes "array_holds a xs"
  shows "\<exists>r a'. do_op x (Some a) = Some (r, Some a') \<and> array_holds a' (fst (list_op x xs))
    \<and> ar_freed a' = ar_freed a @ (if ar_free_func a then snd (list_op x xs) else []) \<and> ar_free_func a' = ar_free_func a"
proof (cases x)
  case (SetAt i y)
  then show ?thesis using set_ok [OF assms, of i y] assms
    by (cases "i < length xs") (auto simp: array_set_def array_holds_def)
next
  case (RemoveAt i)
  then show ?thesis using remove_ok [OF assms, of i] assms
    by (cases "i < length xs") (auto simp: array_remove_def array_holds_def)
next
  case (Append y)
  then show ?thesis using append_ok [OF assms, of y] by auto
next
  case Clear
  then show ?thesis using clear_ok [OF assms] by auto
qed

lemma mset_remove: "i < length xs \<Longrightarrow> add_mset (xs ! i) (mset (take i xs) + mset (drop (Suc i) xs)) = mset xs"
  by (metis append_take_drop_id Cons_nth_drop_Suc mset.simps(2) mset_append union_mset_add_mset_right)

lemma do_ops_ok:
  assumes "array_holds a xs"
  shows "\<exists>a'. do_ops ops (Some a) = Some (Some a') \<and> array_holds a' (list_ops ops xs) \<and> ar_free_func a' = ar_free_func a
    \<and> (ar_free_func a \<longrightarrow> mset (ar_freed a') + mset (list_ops ops xs) = mset (ar_freed a) + mset xs + given ops xs)"
  using assms
proof (induction ops arbitrary: a xs)
  case Nil
  then show ?case by simp
next
  case (Cons x ops)
  obtain r a1 where o: "do_op x (Some a) = Some (r, Some a1)" "array_holds a1 (fst (list_op x xs))"
    "ar_freed a1 = ar_freed a @ (if ar_free_func a then snd (list_op x xs) else [])" "ar_free_func a1 = ar_free_func a"
    using do_op_ok [OF Cons.prems, of x] by blast
  have "mset (snd (list_op x xs)) + mset (fst (list_op x xs)) = mset xs
      + (case x of Append y \<Rightarrow> {#y#} | SetAt i y \<Rightarrow> (if i < length xs then {#y#} else {#}) | _ \<Rightarrow> {#})"
    by (cases x) (auto simp: mset_update nth_mem_mset mset_remove)
  then show ?case using Cons.IH [OF o(2)] o by (auto simp: ac_simps)
qed


end
