(* ===== verification/ShAlias.thy ===== *)
theory ShAlias
  imports ShArray
begin

text \<open>
  The shell's aliases and traps: \<open>alias.c\<close>, \<open>alias_store.c\<close>, \<open>trap.c\<close> and \<open>trap_store.c\<close> in
  \<open>level2/sh23\<close>. A store keeps its entries in an array and finds them by comparing names, or signals.
  A pointer to a constant string that a getter returns is modelled by the string it points at.
\<close>

text \<open>\<open>if (!p) { \<dots> log_fatal(\<dots>); \<dots> }\<close> after a call that returns a pointer.\<close>

definition must :: "'a ptr option \<Rightarrow> 'a ptr option" where
  "must m = do { p \<leftarrow> m; if p = None then None else Some p }"

text \<open>The end of every function that adds an entry: replace what the search has found, or append.\<close>

definition array_put :: "'a Array ptr \<Rightarrow> int \<times> nat option \<Rightarrow> 'a ptr \<Rightarrow> (int \<times> 'a Array ptr) option" where
  "array_put array found p =
     (if fst found = 0 then array_set array (the (snd found)) p
      else do { (r, array) \<leftarrow> array_append array p; if r \<noteq> 0 then None else Some (0, array) })"

definition array_remove_found :: "'a Array ptr \<Rightarrow> int \<times> nat option \<Rightarrow> (int \<times> 'a Array ptr) option" where
  "array_remove_found array found =
     (if fst found \<noteq> 0 then Some (-1, array) else array_remove array (the (snd found)))"

definition array_get_found :: "'a Array ptr \<Rightarrow> int \<times> nat option \<Rightarrow> 'a ptr option" where
  "array_get_found array found =
     (if fst found \<noteq> 0 then Some None else array_get array (the (snd found)))"

section \<open>Aliases\<close>

record Alias =
  al_name :: "String ptr"
  al_value :: "String ptr"

definition alias_create :: "String ptr \<Rightarrow> String ptr \<Rightarrow> Alias ptr option" where
  "alias_create name value =
     (if name = None \<or> value = None then Some None
      else do {
        n \<leftarrow> must (string_create_from name);
        v \<leftarrow> must (string_create_from value);
        Some (Some \<lparr>al_name = n, al_value = v\<rparr>) })"

definition alias_create_from_cstr :: "string ptr \<Rightarrow> string ptr \<Rightarrow> Alias ptr option" where
  "alias_create_from_cstr name value =
     (if name = None \<or> value = None then Some None
      else do {
        n \<leftarrow> must (string_create_from_cstr name);
        v \<leftarrow> must (string_create_from_cstr value);
        Some (Some \<lparr>al_name = n, al_value = v\<rparr>) })"

definition alias_get_name :: "Alias ptr \<Rightarrow> String ptr" where
  "alias_get_name alias = (case alias of None \<Rightarrow> None | Some a \<Rightarrow> al_name a)"

definition alias_get_value :: "Alias ptr \<Rightarrow> String ptr" where
  "alias_get_value alias = (case alias of None \<Rightarrow> None | Some a \<Rightarrow> al_value a)"

definition alias_get_name_cstr :: "Alias ptr \<Rightarrow> string ptr option" where
  "alias_get_name_cstr alias = (case alias of None \<Rightarrow> Some None | Some a \<Rightarrow> string_data (al_name a))"

definition alias_get_value_cstr :: "Alias ptr \<Rightarrow> string ptr option" where
  "alias_get_value_cstr alias = (case alias of None \<Rightarrow> Some None | Some a \<Rightarrow> string_data (al_value a))"

definition alias_set_name :: "Alias ptr \<Rightarrow> String ptr \<Rightarrow> (int \<times> Alias ptr) option" where
  "alias_set_name alias name =
     (case alias of
        None \<Rightarrow> Some (-1, alias)
      | Some a \<Rightarrow>
          if name = None then Some (-1, alias)
          else do { n \<leftarrow> must (string_create_from name); Some (0, Some (a\<lparr>al_name := n\<rparr>)) })"

definition alias_set_value :: "Alias ptr \<Rightarrow> String ptr \<Rightarrow> (int \<times> Alias ptr) option" where
  "alias_set_value alias value =
     (case alias of
        None \<Rightarrow> Some (-1, alias)
      | Some a \<Rightarrow>
          if value = None then Some (-1, alias)
          else do { v \<leftarrow> must (string_create_from value); Some (0, Some (a\<lparr>al_value := v\<rparr>)) })"

definition alias_set_name_cstr :: "Alias ptr \<Rightarrow> string ptr \<Rightarrow> (int \<times> Alias ptr) option" where
  "alias_set_name_cstr alias name =
     (case alias of
        None \<Rightarrow> Some (-1, alias)
      | Some a \<Rightarrow>
          if name = None then Some (-1, alias)
          else do { n \<leftarrow> must (string_create_from_cstr name); Some (0, Some (a\<lparr>al_name := n\<rparr>)) })"

definition alias_set_value_cstr :: "Alias ptr \<Rightarrow> string ptr \<Rightarrow> (int \<times> Alias ptr) option" where
  "alias_set_value_cstr alias value =
     (case alias of
        None \<Rightarrow> Some (-1, alias)
      | Some a \<Rightarrow>
          if value = None then Some (-1, alias)
          else do { v \<leftarrow> must (string_create_from_cstr value); Some (0, Some (a\<lparr>al_value := v\<rparr>)) })"

section \<open>The alias store\<close>

record AliasStore =
  as_aliases :: "Alias Array ptr"

definition compare_alias_name :: "Alias ptr \<Rightarrow> String ptr \<Rightarrow> int option" where
  "compare_alias_name alias name = string_compare (alias_get_name alias) name"

definition compare_alias_name_cstr :: "Alias ptr \<Rightarrow> string ptr \<Rightarrow> int option" where
  "compare_alias_name_cstr alias name = string_compare_cstr (alias_get_name alias) name"

definition alias_store_create_with_capacity :: "nat \<Rightarrow> AliasStore ptr option" where
  "alias_store_create_with_capacity capacity = do {
     let aliases = array_create_with_free True;
     (if aliases = None then None
      else if capacity > 0 then do {
        (r, aliases) \<leftarrow> array_resize aliases capacity;
        if r \<noteq> 0 then None else Some (Some \<lparr>as_aliases = aliases\<rparr>) }
      else Some (Some \<lparr>as_aliases = aliases\<rparr>)) }"

definition alias_store_create :: "AliasStore ptr option" where
  "alias_store_create = alias_store_create_with_capacity 0"

text \<open>The aliases that the end of the store destroys.\<close>

definition alias_store_destroy :: "AliasStore ptr \<Rightarrow> Alias list option" where
  "alias_store_destroy store = (case store of None \<Rightarrow> Some [] | Some s \<Rightarrow> array_destroy (as_aliases s))"

definition alias_store_add :: "AliasStore ptr \<Rightarrow> String ptr \<Rightarrow> String ptr \<Rightarrow> (int \<times> AliasStore ptr) option" where
  "alias_store_add store name value =
     (case store of
        None \<Rightarrow> Some (-1, store)
      | Some s \<Rightarrow>
          if name = None \<or> value = None then Some (-1, store)
          else do {
            found \<leftarrow> array_find_with_compare (as_aliases s) name compare_alias_name;
            alias \<leftarrow> must (alias_create name value);
            (r, aliases) \<leftarrow> array_put (as_aliases s) found alias;
            Some (r, Some (s\<lparr>as_aliases := aliases\<rparr>)) })"

definition alias_store_add_cstr :: "AliasStore ptr \<Rightarrow> string ptr \<Rightarrow> string ptr \<Rightarrow> (int \<times> AliasStore ptr) option" where
  "alias_store_add_cstr store name value =
     (case store of
        None \<Rightarrow> Some (-1, store)
      | Some s \<Rightarrow>
          if name = None \<or> value = None then Some (-1, store)
          else do {
            found \<leftarrow> array_find_with_compare (as_aliases s) name compare_alias_name_cstr;
            alias \<leftarrow> must (alias_create_from_cstr name value);
            (r, aliases) \<leftarrow> array_put (as_aliases s) found alias;
            Some (r, Some (s\<lparr>as_aliases := aliases\<rparr>)) })"

definition alias_store_remove :: "AliasStore ptr \<Rightarrow> String ptr \<Rightarrow> (int \<times> AliasStore ptr) option" where
  "alias_store_remove store name =
     (case store of
        None \<Rightarrow> Some (-1, store)
      | Some s \<Rightarrow>
          if name = None then Some (-1, store)
          else do {
            found \<leftarrow> array_find_with_compare (as_aliases s) name compare_alias_name;
            (r, aliases) \<leftarrow> array_remove_found (as_aliases s) found;
            Some (r, Some (s\<lparr>as_aliases := aliases\<rparr>)) })"

definition alias_store_remove_cstr :: "AliasStore ptr \<Rightarrow> string ptr \<Rightarrow> (int \<times> AliasStore ptr) option" where
  "alias_store_remove_cstr store name =
     (case store of
        None \<Rightarrow> Some (-1, store)
      | Some s \<Rightarrow>
          if name = None then Some (-1, store)
          else do {
            found \<leftarrow> array_find_with_compare (as_aliases s) name compare_alias_name_cstr;
            (r, aliases) \<leftarrow> array_remove_found (as_aliases s) found;
            Some (r, Some (s\<lparr>as_aliases := aliases\<rparr>)) })"

definition alias_store_clear :: "AliasStore ptr \<Rightarrow> (int \<times> AliasStore ptr) option" where
  "alias_store_clear store =
     (case store of
        None \<Rightarrow> Some (-1, store)
      | Some s \<Rightarrow> do {
          (r, aliases) \<leftarrow> array_clear (as_aliases s);
          Some (r, Some (s\<lparr>as_aliases := aliases\<rparr>)) })"

definition alias_store_size :: "AliasStore ptr \<Rightarrow> nat" where
  "alias_store_size store = (case store of None \<Rightarrow> 0 | Some s \<Rightarrow> array_size (as_aliases s))"

definition alias_store_has_name :: "AliasStore ptr \<Rightarrow> String ptr \<Rightarrow> int option" where
  "alias_store_has_name store name =
     (case store of
        None \<Rightarrow> Some (-1)
      | Some s \<Rightarrow>
          if name = None then Some (-1)
          else do {
            found \<leftarrow> array_find_with_compare (as_aliases s) name compare_alias_name;
            Some (if fst found = 0 then 1 else 0) })"

definition alias_store_has_name_cstr :: "AliasStore ptr \<Rightarrow> string ptr \<Rightarrow> int option" where
  "alias_store_has_name_cstr store name =
     (case store of
        None \<Rightarrow> Some (-1)
      | Some s \<Rightarrow>
          if name = None then Some (-1)
          else do {
            found \<leftarrow> array_find_with_compare (as_aliases s) name compare_alias_name_cstr;
            Some (if fst found = 0 then 1 else 0) })"

definition alias_store_get_value :: "AliasStore ptr \<Rightarrow> String ptr \<Rightarrow> String ptr option" where
  "alias_store_get_value store name =
     (case store of
        None \<Rightarrow> Some None
      | Some s \<Rightarrow>
          if name = None then Some None
          else do {
            found \<leftarrow> array_find_with_compare (as_aliases s) name compare_alias_name;
            alias \<leftarrow> array_get_found (as_aliases s) found;
            Some (if alias = None then None else alias_get_value alias) })"

definition alias_store_get_value_cstr :: "AliasStore ptr \<Rightarrow> string ptr \<Rightarrow> string ptr option" where
  "alias_store_get_value_cstr store name =
     (case store of
        None \<Rightarrow> Some None
      | Some s \<Rightarrow>
          if name = None then Some None
          else do {
            found \<leftarrow> array_find_with_compare (as_aliases s) name compare_alias_name_cstr;
            alias \<leftarrow> array_get_found (as_aliases s) found;
            if alias = None then Some None else alias_get_value_cstr alias })"

section \<open>Traps\<close>

record Trap =
  tr_signal :: int
  tr_action :: "String ptr"

text \<open>\<open>action ? string_create_from(action) : NULL\<close>, fatal when the copy fails.\<close>

definition copy_action :: "String ptr \<Rightarrow> String ptr option" where
  "copy_action action = (if action = None then Some None else must (string_create_from action))"

definition copy_action_cstr :: "string ptr \<Rightarrow> String ptr option" where
  "copy_action_cstr action = (if action = None then Some None else must (string_create_from_cstr action))"

definition trap_create :: "int \<Rightarrow> String ptr \<Rightarrow> Trap ptr option" where
  "trap_create sig action = do { a \<leftarrow> copy_action action; Some (Some \<lparr>tr_signal = sig, tr_action = a\<rparr>) }"

definition trap_create_from_cstr :: "int \<Rightarrow> string ptr \<Rightarrow> Trap ptr option" where
  "trap_create_from_cstr sig action = do { a \<leftarrow> copy_action_cstr action; Some (Some \<lparr>tr_signal = sig, tr_action = a\<rparr>) }"

definition trap_get_signal :: "Trap ptr \<Rightarrow> int" where
  "trap_get_signal trap = (case trap of None \<Rightarrow> -1 | Some t \<Rightarrow> tr_signal t)"

definition trap_get_action :: "Trap ptr \<Rightarrow> String ptr" where
  "trap_get_action trap = (case trap of None \<Rightarrow> None | Some t \<Rightarrow> tr_action t)"

definition trap_get_action_cstr :: "Trap ptr \<Rightarrow> string ptr option" where
  "trap_get_action_cstr trap =
     (case trap of
        None \<Rightarrow> Some None
      | Some t \<Rightarrow> if tr_action t = None then Some None else string_data (tr_action t))"

definition trap_set_signal :: "Trap ptr \<Rightarrow> int \<Rightarrow> int \<times> Trap ptr" where
  "trap_set_signal trap sig = (case trap of None \<Rightarrow> (-1, trap) | Some t \<Rightarrow> (0, Some (t\<lparr>tr_signal := sig\<rparr>)))"

definition trap_set_action :: "Trap ptr \<Rightarrow> String ptr \<Rightarrow> (int \<times> Trap ptr) option" where
  "trap_set_action trap action =
     (case trap of
        None \<Rightarrow> Some (-1, trap)
      | Some t \<Rightarrow> do { a \<leftarrow> copy_action action; Some (0, Some (t\<lparr>tr_action := a\<rparr>)) })"

definition trap_set_action_cstr :: "Trap ptr \<Rightarrow> string ptr \<Rightarrow> (int \<times> Trap ptr) option" where
  "trap_set_action_cstr trap action =
     (case trap of
        None \<Rightarrow> Some (-1, trap)
      | Some t \<Rightarrow> do { a \<leftarrow> copy_action_cstr action; Some (0, Some (t\<lparr>tr_action := a\<rparr>)) })"

section \<open>The trap store\<close>

record TrapStore =
  ts_traps :: "Trap Array ptr"

text \<open>The difference of two \<open>int\<close>s is checked: a comparison that overflows is undefined.\<close>

definition compare_trap_signal :: "Trap ptr \<Rightarrow> int ptr \<Rightarrow> int option" where
  "compare_trap_signal trap sig = do { s \<leftarrow> sig; cint (trap_get_signal trap - s) }"

definition trap_store_create :: "TrapStore ptr option" where
  "trap_store_create = do {
     let traps = array_create_with_free True;
     (if traps = None then None else Some (Some \<lparr>ts_traps = traps\<rparr>)) }"

definition trap_store_destroy :: "TrapStore ptr \<Rightarrow> Trap list option" where
  "trap_store_destroy store = (case store of None \<Rightarrow> Some [] | Some s \<Rightarrow> array_destroy (ts_traps s))"

definition trap_store_clear :: "TrapStore ptr \<Rightarrow> (int \<times> TrapStore ptr) option" where
  "trap_store_clear store =
     (case store of
        None \<Rightarrow> Some (-1, store)
      | Some s \<Rightarrow> do { (r, traps) \<leftarrow> array_clear (ts_traps s); Some (r, Some (s\<lparr>ts_traps := traps\<rparr>)) })"

definition trap_store_set_trap :: "TrapStore ptr \<Rightarrow> int \<Rightarrow> String ptr \<Rightarrow> (int \<times> TrapStore ptr) option" where
  "trap_store_set_trap store sig action =
     (case store of
        None \<Rightarrow> Some (-1, store)
      | Some s \<Rightarrow> do {
          found \<leftarrow> array_find_with_compare (ts_traps s) (Some sig) compare_trap_signal;
          trap \<leftarrow> must (trap_create sig action);
          (r, traps) \<leftarrow> array_put (ts_traps s) found trap;
          Some (r, Some (s\<lparr>ts_traps := traps\<rparr>)) })"

definition trap_store_set_trap_cstr :: "TrapStore ptr \<Rightarrow> int \<Rightarrow> string ptr \<Rightarrow> (int \<times> TrapStore ptr) option" where
  "trap_store_set_trap_cstr store sig action =
     (case store of
        None \<Rightarrow> Some (-1, store)
      | Some s \<Rightarrow> do {
          found \<leftarrow> array_find_with_compare (ts_traps s) (Some sig) compare_trap_signal;
          trap \<leftarrow> must (trap_create_from_cstr sig action);
          (r, traps) \<leftarrow> array_put (ts_traps s) found trap;
          Some (r, Some (s\<lparr>ts_traps := traps\<rparr>)) })"

definition trap_store_remove_trap :: "TrapStore ptr \<Rightarrow> int \<Rightarrow> (int \<times> TrapStore ptr) option" where
  "trap_store_remove_trap store sig =
     (case store of
        None \<Rightarrow> Some (-1, store)
      | Some s \<Rightarrow> do {
          found \<leftarrow> array_find_with_compare (ts_traps s) (Some sig) compare_trap_signal;
          (r, traps) \<leftarrow> array_remove_found (ts_traps s) found;
          Some (r, Some (s\<lparr>ts_traps := traps\<rparr>)) })"

definition trap_store_get_trap :: "TrapStore ptr \<Rightarrow> int \<Rightarrow> Trap ptr option" where
  "trap_store_get_trap store sig =
     (case store of
        None \<Rightarrow> Some None
      | Some s \<Rightarrow> do {
          found \<leftarrow> array_find_with_compare (ts_traps s) (Some sig) compare_trap_signal;
          array_get_found (ts_traps s) found })"

definition trap_store_get_action :: "TrapStore ptr \<Rightarrow> int \<Rightarrow> String ptr option" where
  "trap_store_get_action store sig = do {
     trap \<leftarrow> trap_store_get_trap store sig;
     Some (if trap = None then None else trap_get_action trap) }"

definition trap_store_get_action_cstr :: "TrapStore ptr \<Rightarrow> int \<Rightarrow> string ptr option" where
  "trap_store_get_action_cstr store sig = do {
     trap \<leftarrow> trap_store_get_trap store sig;
     if trap = None then Some None else trap_get_action_cstr trap }"

definition trap_store_has_trap :: "TrapStore ptr \<Rightarrow> int \<Rightarrow> int option" where
  "trap_store_has_trap store sig =
     (case store of
        None \<Rightarrow> Some (-1)
      | Some s \<Rightarrow> do {
          found \<leftarrow> array_find_with_compare (ts_traps s) (Some sig) compare_trap_signal;
          Some (if fst found = 0 then 1 else 0) })"

end
