(* ===== verification/ShVariable.thy ===== *)
theory ShVariable
  imports ShAlias
begin

text \<open>
  The shell's variables: \<open>variable.c\<close> and \<open>variable_store.c\<close> in \<open>level2/sh23\<close>. The store keeps the
  named variables and the positional parameters in two arrays, beside the special parameters.
  \<^term>\<open>None\<close> as the result of an operation is undefined behaviour or the \<open>abort()\<close> of \<open>log_fatal\<close>: the
  setters of the two flags end so for a name that is not defined.
\<close>

section \<open>Variables\<close>

record Variable =
  va_name :: "String ptr"
  va_value :: "String ptr"
  va_exported :: bool
  va_read_only :: bool

definition variable_create :: "String ptr \<Rightarrow> String ptr \<Rightarrow> bool \<Rightarrow> bool \<Rightarrow> Variable ptr option" where
  "variable_create name value exported read_only =
     (if name = None \<or> value = None then Some None
      else do {
        n \<leftarrow> must (string_create_from name);
        v \<leftarrow> must (string_create_from value);
        Some (Some \<lparr>va_name = n, va_value = v, va_exported = exported, va_read_only = read_only\<rparr>) })"

definition variable_create_from_cstr :: "string ptr \<Rightarrow> string ptr \<Rightarrow> bool \<Rightarrow> bool \<Rightarrow> Variable ptr option" where
  "variable_create_from_cstr name value exported read_only =
     (if name = None \<or> value = None then Some None
      else do {
        n \<leftarrow> must (string_create_from_cstr name);
        v \<leftarrow> must (string_create_from_cstr value);
        Some (Some \<lparr>va_name = n, va_value = v, va_exported = exported, va_read_only = read_only\<rparr>) })"

definition variable_get_name :: "Variable ptr \<Rightarrow> String ptr" where
  "variable_get_name var = (case var of None \<Rightarrow> None | Some v \<Rightarrow> va_name v)"

definition variable_get_value :: "Variable ptr \<Rightarrow> String ptr" where
  "variable_get_value var = (case var of None \<Rightarrow> None | Some v \<Rightarrow> va_value v)"

definition variable_get_name_cstr :: "Variable ptr \<Rightarrow> string ptr option" where
  "variable_get_name_cstr var = (case var of None \<Rightarrow> Some None | Some v \<Rightarrow> string_data (va_name v))"

definition variable_get_value_cstr :: "Variable ptr \<Rightarrow> string ptr option" where
  "variable_get_value_cstr var = (case var of None \<Rightarrow> Some None | Some v \<Rightarrow> string_data (va_value v))"

definition variable_is_exported :: "Variable ptr \<Rightarrow> bool" where
  "variable_is_exported var = (case var of None \<Rightarrow> False | Some v \<Rightarrow> va_exported v)"

definition variable_is_read_only :: "Variable ptr \<Rightarrow> bool" where
  "variable_is_read_only var = (case var of None \<Rightarrow> False | Some v \<Rightarrow> va_read_only v)"

definition variable_set_name :: "Variable ptr \<Rightarrow> String ptr \<Rightarrow> (int \<times> Variable ptr) option" where
  "variable_set_name var name =
     (case var of
        None \<Rightarrow> Some (-1, var)
      | Some v \<Rightarrow>
          if name = None then Some (-1, var)
          else do { n \<leftarrow> must (string_create_from name); Some (0, Some (v\<lparr>va_name := n\<rparr>)) })"

definition variable_set_name_cstr :: "Variable ptr \<Rightarrow> string ptr \<Rightarrow> (int \<times> Variable ptr) option" where
  "variable_set_name_cstr var name =
     (case var of
        None \<Rightarrow> Some (-1, var)
      | Some v \<Rightarrow>
          if name = None then Some (-1, var)
          else do { n \<leftarrow> must (string_create_from_cstr name); Some (0, Some (v\<lparr>va_name := n\<rparr>)) })"

text \<open>Setting the value of a read-only variable is fatal.\<close>

definition variable_set_value :: "Variable ptr \<Rightarrow> String ptr \<Rightarrow> (int \<times> Variable ptr) option" where
  "variable_set_value var val =
     (case var of
        None \<Rightarrow> Some (-1, var)
      | Some v \<Rightarrow>
          if val = None then Some (-1, var)
          else if va_read_only v then None
          else do { x \<leftarrow> must (string_create_from val); Some (0, Some (v\<lparr>va_value := x\<rparr>)) })"

definition variable_set_value_cstr :: "Variable ptr \<Rightarrow> string ptr \<Rightarrow> (int \<times> Variable ptr) option" where
  "variable_set_value_cstr var val =
     (case var of
        None \<Rightarrow> Some (-1, var)
      | Some v \<Rightarrow>
          if val = None then Some (-1, var)
          else if va_read_only v then None
          else do { x \<leftarrow> must (string_create_from_cstr val); Some (0, Some (v\<lparr>va_value := x\<rparr>)) })"

definition variable_set_exported :: "Variable ptr \<Rightarrow> bool \<Rightarrow> int \<times> Variable ptr" where
  "variable_set_exported var b = (case var of None \<Rightarrow> (-1, var) | Some v \<Rightarrow> (0, Some (v\<lparr>va_exported := b\<rparr>)))"

definition variable_set_read_only :: "Variable ptr \<Rightarrow> bool \<Rightarrow> int \<times> Variable ptr" where
  "variable_set_read_only var b = (case var of None \<Rightarrow> (-1, var) | Some v \<Rightarrow> (0, Some (v\<lparr>va_read_only := b\<rparr>)))"

section \<open>The variable store\<close>

record VariableStore =
  vs_variables :: "Variable Array ptr"
  vs_positional_params :: "Variable Array ptr"
  vs_status_str :: "String ptr"
  vs_pid :: int
  vs_shell_name :: "String ptr"
  vs_last_bg_pid :: int
  vs_options :: "String ptr"

definition compare_variable_name :: "Variable ptr \<Rightarrow> String ptr \<Rightarrow> int option" where
  "compare_variable_name var name = string_compare (variable_get_name var) name"

definition compare_variable_name_cstr :: "Variable ptr \<Rightarrow> string ptr \<Rightarrow> int option" where
  "compare_variable_name_cstr var name = string_compare_cstr (variable_get_name var) name"

text \<open>\<open>pid\<close> is the result of \<open>getpid()\<close>.\<close>

definition variable_store_create :: "int \<Rightarrow> string ptr \<Rightarrow> VariableStore ptr option" where
  "variable_store_create pid shell_name =
     (if shell_name = None then Some None
      else do {
        variables \<leftarrow> must (Some (array_create_with_free True));
        positional_params \<leftarrow> must (Some (array_create_with_free True));
        status_str \<leftarrow> must (string_create_from_cstr (Some ''0''));
        name \<leftarrow> must (string_create_from_cstr shell_name);
        options \<leftarrow> must (string_create_from_cstr (Some []));
        Some (Some \<lparr>vs_variables = variables, vs_positional_params = positional_params,
          vs_status_str = status_str, vs_pid = pid, vs_shell_name = name, vs_last_bg_pid = 0,
          vs_options = options\<rparr>) })"

text \<open>The variables that the end of the store destroys: the parameters, then the named ones.\<close>

definition variable_store_destroy :: "VariableStore ptr \<Rightarrow> Variable list option" where
  "variable_store_destroy store =
     (case store of
        None \<Rightarrow> Some []
      | Some s \<Rightarrow> do {
          ps \<leftarrow> array_destroy (vs_positional_params s);
          vs \<leftarrow> array_destroy (vs_variables s);
          Some (ps @ vs) })"

definition variable_store_clear :: "VariableStore ptr \<Rightarrow> (int \<times> VariableStore ptr) option" where
  "variable_store_clear store =
     (case store of
        None \<Rightarrow> Some (-1, store)
      | Some s \<Rightarrow> do {
          (r, variables) \<leftarrow> array_clear (vs_variables s);
          if r \<noteq> 0 then None else do {
            (r, positional_params) \<leftarrow> array_clear (vs_positional_params s);
            if r \<noteq> 0 then None else do {
              new_status \<leftarrow> must (string_create_from_cstr (Some ''0''));
              new_options \<leftarrow> must (string_create_from_cstr (Some []));
              Some (0, Some (s\<lparr>vs_variables := variables, vs_positional_params := positional_params,
                vs_status_str := new_status, vs_last_bg_pid := 0, vs_options := new_options\<rparr>)) } } })"

definition variable_store_add ::
  "VariableStore ptr \<Rightarrow> String ptr \<Rightarrow> String ptr \<Rightarrow> bool \<Rightarrow> bool \<Rightarrow> (int \<times> VariableStore ptr) option" where
  "variable_store_add store name value exported read_only =
     (case store of
        None \<Rightarrow> Some (-1, store)
      | Some s \<Rightarrow>
          if name = None \<or> value = None then Some (-1, store)
          else do {
            found \<leftarrow> array_find_with_compare (vs_variables s) name compare_variable_name;
            var \<leftarrow> must (variable_create name value exported read_only);
            (r, variables) \<leftarrow> array_put (vs_variables s) found var;
            Some (r, Some (s\<lparr>vs_variables := variables\<rparr>)) })"

definition variable_store_add_cstr ::
  "VariableStore ptr \<Rightarrow> string ptr \<Rightarrow> string ptr \<Rightarrow> bool \<Rightarrow> bool \<Rightarrow> (int \<times> VariableStore ptr) option" where
  "variable_store_add_cstr store name value exported read_only =
     (case store of
        None \<Rightarrow> Some (-1, store)
      | Some s \<Rightarrow>
          if name = None \<or> value = None then Some (-1, store)
          else do {
            found \<leftarrow> array_find_with_compare (vs_variables s) name compare_variable_name_cstr;
            var \<leftarrow> must (variable_create_from_cstr name value exported read_only);
            (r, variables) \<leftarrow> array_put (vs_variables s) found var;
            Some (r, Some (s\<lparr>vs_variables := variables\<rparr>)) })"

text \<open>The environment: entries \<open>name=value\<close>; an entry without \<open>=\<close> is passed over.\<close>

fun add_env :: "string list \<Rightarrow> VariableStore ptr \<Rightarrow> VariableStore ptr option" where
  "add_env [] store = Some store"
| "add_env (env # envp) store =
     (if CHR ''='' \<notin> set env then add_env envp store
      else do {
        let name = takeWhile (\<lambda>c. c \<noteq> CHR ''='') env;
        let value = drop (length name + 1) env;
        (r, store) \<leftarrow> variable_store_add_cstr store (Some name) (Some value) True False;
        if r \<noteq> 0 then None else add_env envp store })"

definition variable_store_create_from_envp :: "int \<Rightarrow> string ptr \<Rightarrow> string list ptr \<Rightarrow> VariableStore ptr option" where
  "variable_store_create_from_envp pid shell_name envp = do {
     store \<leftarrow> variable_store_create pid shell_name;
     if store = None then Some None
     else (case envp of None \<Rightarrow> Some store | Some es \<Rightarrow> add_env es store) }"

definition variable_store_remove :: "VariableStore ptr \<Rightarrow> String ptr \<Rightarrow> (int \<times> VariableStore ptr) option" where
  "variable_store_remove store name =
     (case store of
        None \<Rightarrow> Some (-1, store)
      | Some s \<Rightarrow>
          if name = None then Some (-1, store)
          else do {
            found \<leftarrow> array_find_with_compare (vs_variables s) name compare_variable_name;
            (r, variables) \<leftarrow> array_remove_found (vs_variables s) found;
            Some (r, Some (s\<lparr>vs_variables := variables\<rparr>)) })"

definition variable_store_remove_cstr :: "VariableStore ptr \<Rightarrow> string ptr \<Rightarrow> (int \<times> VariableStore ptr) option" where
  "variable_store_remove_cstr store name =
     (case store of
        None \<Rightarrow> Some (-1, store)
      | Some s \<Rightarrow>
          if name = None then Some (-1, store)
          else do {
            found \<leftarrow> array_find_with_compare (vs_variables s) name compare_variable_name_cstr;
            (r, variables) \<leftarrow> array_remove_found (vs_variables s) found;
            Some (r, Some (s\<lparr>vs_variables := variables\<rparr>)) })"

definition variable_store_has_name :: "VariableStore ptr \<Rightarrow> String ptr \<Rightarrow> int option" where
  "variable_store_has_name store name =
     (case store of
        None \<Rightarrow> Some (-1)
      | Some s \<Rightarrow>
          if name = None then Some (-1)
          else do {
            found \<leftarrow> array_find_with_compare (vs_variables s) name compare_variable_name;
            Some (if fst found = 0 then 1 else 0) })"

definition variable_store_has_name_cstr :: "VariableStore ptr \<Rightarrow> string ptr \<Rightarrow> int option" where
  "variable_store_has_name_cstr store name =
     (case store of
        None \<Rightarrow> Some (-1)
      | Some s \<Rightarrow>
          if name = None then Some (-1)
          else do {
            found \<leftarrow> array_find_with_compare (vs_variables s) name compare_variable_name_cstr;
            Some (if fst found = 0 then 1 else 0) })"

definition variable_store_get_variable :: "VariableStore ptr \<Rightarrow> String ptr \<Rightarrow> Variable ptr option" where
  "variable_store_get_variable store name =
     (case store of
        None \<Rightarrow> Some None
      | Some s \<Rightarrow>
          if name = None then Some None
          else do {
            found \<leftarrow> array_find_with_compare (vs_variables s) name compare_variable_name;
            array_get_found (vs_variables s) found })"

definition variable_store_get_variable_cstr :: "VariableStore ptr \<Rightarrow> string ptr \<Rightarrow> Variable ptr option" where
  "variable_store_get_variable_cstr store name =
     (case store of
        None \<Rightarrow> Some None
      | Some s \<Rightarrow>
          if name = None then Some None
          else do {
            found \<leftarrow> array_find_with_compare (vs_variables s) name compare_variable_name_cstr;
            array_get_found (vs_variables s) found })"

definition variable_store_get_value :: "VariableStore ptr \<Rightarrow> String ptr \<Rightarrow> String ptr option" where
  "variable_store_get_value store name = do {
     var \<leftarrow> variable_store_get_variable store name;
     Some (if var = None then None else variable_get_value var) }"

definition variable_store_get_value_cstr :: "VariableStore ptr \<Rightarrow> string ptr \<Rightarrow> string ptr option" where
  "variable_store_get_value_cstr store name = do {
     var \<leftarrow> variable_store_get_variable_cstr store name;
     if var = None then Some None else variable_get_value_cstr var }"

definition variable_store_is_read_only :: "VariableStore ptr \<Rightarrow> String ptr \<Rightarrow> int option" where
  "variable_store_is_read_only store name =
     (if store = None \<or> name = None then Some (-1)
      else do {
        var \<leftarrow> variable_store_get_variable store name;
        Some (if var = None then -1 else if variable_is_read_only var then 1 else 0) })"

definition variable_store_is_read_only_cstr :: "VariableStore ptr \<Rightarrow> string ptr \<Rightarrow> int option" where
  "variable_store_is_read_only_cstr store name =
     (if store = None \<or> name = None then Some (-1)
      else do {
        var \<leftarrow> variable_store_get_variable_cstr store name;
        Some (if var = None then -1 else if variable_is_read_only var then 1 else 0) })"

definition variable_store_is_exported :: "VariableStore ptr \<Rightarrow> String ptr \<Rightarrow> int option" where
  "variable_store_is_exported store name =
     (if store = None \<or> name = None then Some (-1)
      else do {
        var \<leftarrow> variable_store_get_variable store name;
        Some (if var = None then -1 else if variable_is_exported var then 1 else 0) })"

definition variable_store_is_exported_cstr :: "VariableStore ptr \<Rightarrow> string ptr \<Rightarrow> int option" where
  "variable_store_is_exported_cstr store name =
     (if store = None \<or> name = None then Some (-1)
      else do {
        var \<leftarrow> variable_store_get_variable_cstr store name;
        Some (if var = None then -1 else if variable_is_exported var then 1 else 0) })"

text \<open>The setters change the variable in its place in the array.\<close>

definition update_found :: "Variable Array ptr \<Rightarrow> int \<times> nat option \<Rightarrow> (Variable ptr \<Rightarrow> int \<times> Variable ptr) \<Rightarrow> (int \<times> Variable Array ptr) option" where
  "update_found array found f =
     (if fst found \<noteq> 0 then None
      else do {
        var \<leftarrow> array_get array (the (snd found));
        let (r, var) = f var;
        (case array of
           None \<Rightarrow> Some (r, array)
         | Some a \<Rightarrow> do { a \<leftarrow> set_slot a (the (snd found)) var; Some (r, Some a) }) })"

definition variable_store_set_read_only :: "VariableStore ptr \<Rightarrow> String ptr \<Rightarrow> bool \<Rightarrow> (int \<times> VariableStore ptr) option" where
  "variable_store_set_read_only store name b =
     (case store of
        None \<Rightarrow> Some (-1, store)
      | Some s \<Rightarrow>
          if name = None then Some (-1, store)
          else do {
            found \<leftarrow> array_find_with_compare (vs_variables s) name compare_variable_name;
            (r, variables) \<leftarrow> update_found (vs_variables s) found (\<lambda>var. variable_set_read_only var b);
            Some (r, Some (s\<lparr>vs_variables := variables\<rparr>)) })"

definition variable_store_set_read_only_cstr :: "VariableStore ptr \<Rightarrow> string ptr \<Rightarrow> bool \<Rightarrow> (int \<times> VariableStore ptr) option" where
  "variable_store_set_read_only_cstr store name b =
     (case store of
        None \<Rightarrow> Some (-1, store)
      | Some s \<Rightarrow>
          if name = None then Some (-1, store)
          else do {
            found \<leftarrow> array_find_with_compare (vs_variables s) name compare_variable_name_cstr;
            (r, variables) \<leftarrow> update_found (vs_variables s) found (\<lambda>var. variable_set_read_only var b);
            Some (r, Some (s\<lparr>vs_variables := variables\<rparr>)) })"

definition variable_store_set_exported :: "VariableStore ptr \<Rightarrow> String ptr \<Rightarrow> bool \<Rightarrow> (int \<times> VariableStore ptr) option" where
  "variable_store_set_exported store name b =
     (case store of
        None \<Rightarrow> Some (-1, store)
      | Some s \<Rightarrow>
          if name = None then Some (-1, store)
          else do {
            found \<leftarrow> array_find_with_compare (vs_variables s) name compare_variable_name;
            (r, variables) \<leftarrow> update_found (vs_variables s) found (\<lambda>var. variable_set_exported var b);
            Some (r, Some (s\<lparr>vs_variables := variables\<rparr>)) })"

definition variable_store_set_exported_cstr :: "VariableStore ptr \<Rightarrow> string ptr \<Rightarrow> bool \<Rightarrow> (int \<times> VariableStore ptr) option" where
  "variable_store_set_exported_cstr store name b =
     (case store of
        None \<Rightarrow> Some (-1, store)
      | Some s \<Rightarrow>
          if name = None then Some (-1, store)
          else do {
            found \<leftarrow> array_find_with_compare (vs_variables s) name compare_variable_name_cstr;
            (r, variables) \<leftarrow> update_found (vs_variables s) found (\<lambda>var. variable_set_exported var b);
            Some (r, Some (s\<lparr>vs_variables := variables\<rparr>)) })"

section \<open>Positional parameters\<close>

text \<open>The loop over \<open>params\<close>: the parameter at index \<open>i\<close> gets the name \<open>i + 1\<close>. A null parameter is fatal.\<close>

fun add_params :: "String ptr list \<Rightarrow> nat \<Rightarrow> Variable Array ptr \<Rightarrow> Variable Array ptr option" where
  "add_params [] i array = Some array"
| "add_params (p # ps) i array =
     (if p = None then None
      else do {
        d \<leftarrow> string_data p;
        var \<leftarrow> must (variable_create_from_cstr (Some (show_nat (i + 1))) d False False);
        (r, array) \<leftarrow> array_append array var;
        if r \<noteq> 0 then None else add_params ps (i + 1) array })"

definition variable_store_set_positional_params :: "VariableStore ptr \<Rightarrow> String ptr list \<Rightarrow> (int \<times> VariableStore ptr) option" where
  "variable_store_set_positional_params store params =
     (case store of
        None \<Rightarrow> Some (-1, store)
      | Some s \<Rightarrow> do {
          (r, array) \<leftarrow> array_clear (vs_positional_params s);
          if r \<noteq> 0 then None else do {
            array \<leftarrow> add_params params 0 array;
            Some (0, Some (s\<lparr>vs_positional_params := array\<rparr>)) } })"

fun add_params_cstr :: "string ptr list \<Rightarrow> nat \<Rightarrow> Variable Array ptr \<Rightarrow> Variable Array ptr option" where
  "add_params_cstr [] i array = Some array"
| "add_params_cstr (p # ps) i array =
     (if p = None then None
      else do {
        d \<leftarrow> Some p;
        var \<leftarrow> must (variable_create_from_cstr (Some (show_nat (i + 1))) d False False);
        (r, array) \<leftarrow> array_append array var;
        if r \<noteq> 0 then None else add_params_cstr ps (i + 1) array })"

definition variable_store_set_positional_params_cstr :: "VariableStore ptr \<Rightarrow> string ptr list \<Rightarrow> (int \<times> VariableStore ptr) option" where
  "variable_store_set_positional_params_cstr store params =
     (case store of
        None \<Rightarrow> Some (-1, store)
      | Some s \<Rightarrow> do {
          (r, array) \<leftarrow> array_clear (vs_positional_params s);
          if r \<noteq> 0 then None else do {
            array \<leftarrow> add_params_cstr params 0 array;
            Some (0, Some (s\<lparr>vs_positional_params := array\<rparr>)) } })"

definition variable_store_get_positional_param :: "VariableStore ptr \<Rightarrow> nat \<Rightarrow> Variable ptr option" where
  "variable_store_get_positional_param store index =
     (case store of None \<Rightarrow> Some None | Some s \<Rightarrow> array_get (vs_positional_params s) index)"

definition variable_store_get_positional_param_cstr :: "VariableStore ptr \<Rightarrow> nat \<Rightarrow> string ptr option" where
  "variable_store_get_positional_param_cstr store index = do {
     var \<leftarrow> variable_store_get_positional_param store index;
     if var = None then Some None else variable_get_value_cstr var }"

definition variable_store_positional_param_count :: "VariableStore ptr \<Rightarrow> nat" where
  "variable_store_positional_param_count store =
     (case store of None \<Rightarrow> 0 | Some s \<Rightarrow> array_size (vs_positional_params s))"

section \<open>Special parameters\<close>

definition variable_store_get_status :: "VariableStore ptr \<Rightarrow> String ptr" where
  "variable_store_get_status store = (case store of None \<Rightarrow> None | Some s \<Rightarrow> vs_status_str s)"

definition variable_store_get_status_cstr :: "VariableStore ptr \<Rightarrow> string ptr option" where
  "variable_store_get_status_cstr store = (case store of None \<Rightarrow> Some None | Some s \<Rightarrow> string_data (vs_status_str s))"

definition variable_store_get_shell_name :: "VariableStore ptr \<Rightarrow> String ptr" where
  "variable_store_get_shell_name store = (case store of None \<Rightarrow> None | Some s \<Rightarrow> vs_shell_name s)"

definition variable_store_get_shell_name_cstr :: "VariableStore ptr \<Rightarrow> string ptr option" where
  "variable_store_get_shell_name_cstr store = (case store of None \<Rightarrow> Some None | Some s \<Rightarrow> string_data (vs_shell_name s))"

definition variable_store_get_options :: "VariableStore ptr \<Rightarrow> String ptr" where
  "variable_store_get_options store = (case store of None \<Rightarrow> None | Some s \<Rightarrow> vs_options s)"

definition variable_store_get_options_cstr :: "VariableStore ptr \<Rightarrow> string ptr option" where
  "variable_store_get_options_cstr store = (case store of None \<Rightarrow> Some None | Some s \<Rightarrow> string_data (vs_options s))"

definition variable_store_get_pid :: "VariableStore ptr \<Rightarrow> int" where
  "variable_store_get_pid store = (case store of None \<Rightarrow> 0 | Some s \<Rightarrow> vs_pid s)"

definition variable_store_get_last_bg_pid :: "VariableStore ptr \<Rightarrow> int" where
  "variable_store_get_last_bg_pid store = (case store of None \<Rightarrow> 0 | Some s \<Rightarrow> vs_last_bg_pid s)"

definition variable_store_set_status :: "VariableStore ptr \<Rightarrow> String ptr \<Rightarrow> (int \<times> VariableStore ptr) option" where
  "variable_store_set_status store p =
     (case store of
        None \<Rightarrow> Some (-1, store)
      | Some s \<Rightarrow>
          if p = None then Some (-1, store)
          else do { x \<leftarrow> must (string_create_from p); Some (0, Some (s\<lparr>vs_status_str := x\<rparr>)) })"

definition variable_store_set_status_cstr :: "VariableStore ptr \<Rightarrow> string ptr \<Rightarrow> (int \<times> VariableStore ptr) option" where
  "variable_store_set_status_cstr store p =
     (case store of
        None \<Rightarrow> Some (-1, store)
      | Some s \<Rightarrow>
          if p = None then Some (-1, store)
          else do { x \<leftarrow> must (string_create_from_cstr p); Some (0, Some (s\<lparr>vs_status_str := x\<rparr>)) })"

definition variable_store_set_shell_name :: "VariableStore ptr \<Rightarrow> String ptr \<Rightarrow> (int \<times> VariableStore ptr) option" where
  "variable_store_set_shell_name store p =
     (case store of
        None \<Rightarrow> Some (-1, store)
      | Some s \<Rightarrow>
          if p = None then Some (-1, store)
          else do { x \<leftarrow> must (string_create_from p); Some (0, Some (s\<lparr>vs_shell_name := x\<rparr>)) })"

definition variable_store_set_shell_name_cstr :: "VariableStore ptr \<Rightarrow> string ptr \<Rightarrow> (int \<times> VariableStore ptr) option" where
  "variable_store_set_shell_name_cstr store p =
     (case store of
        None \<Rightarrow> Some (-1, store)
      | Some s \<Rightarrow>
          if p = None then Some (-1, store)
          else do { x \<leftarrow> must (string_create_from_cstr p); Some (0, Some (s\<lparr>vs_shell_name := x\<rparr>)) })"

definition variable_store_set_options :: "VariableStore ptr \<Rightarrow> String ptr \<Rightarrow> (int \<times> VariableStore ptr) option" where
  "variable_store_set_options store p =
     (case store of
        None \<Rightarrow> Some (-1, store)
      | Some s \<Rightarrow>
          if p = None then Some (-1, store)
          else do { x \<leftarrow> must (string_create_from p); Some (0, Some (s\<lparr>vs_options := x\<rparr>)) })"

definition variable_store_set_options_cstr :: "VariableStore ptr \<Rightarrow> string ptr \<Rightarrow> (int \<times> VariableStore ptr) option" where
  "variable_store_set_options_cstr store p =
     (case store of
        None \<Rightarrow> Some (-1, store)
      | Some s \<Rightarrow>
          if p = None then Some (-1, store)
          else do { x \<leftarrow> must (string_create_from_cstr p); Some (0, Some (s\<lparr>vs_options := x\<rparr>)) })"

definition variable_store_set_last_bg_pid :: "VariableStore ptr \<Rightarrow> int \<Rightarrow> int \<times> VariableStore ptr" where
  "variable_store_set_last_bg_pid store pid =
     (case store of None \<Rightarrow> (-1, store) | Some s \<Rightarrow> (0, Some (s\<lparr>vs_last_bg_pid := pid\<rparr>)))"

end
