(* ===== verification/ShStoreProps.thy ===== *)
theory ShStoreProps
  imports ShStrProps ShArrProps ShVariable
begin

text \<open>
  The stores of the shell as maps. The locale \<open>keyed_array\<close> is what the stores rely on: an array of
  entries and a comparison with a key; \<open>map_store\<close> is what they promise: adding, removing and looking
  up behave as on a map. Both are interpreted on the alias, variable and trap stores.
\<close>

section \<open>Association lists with one entry for a key\<close>

definition pos :: "('e \<Rightarrow> 'k) \<Rightarrow> 'k \<Rightarrow> 'e list \<Rightarrow> nat" where
  "pos key k es = length (takeWhile (\<lambda>e. key e \<noteq> k) es)"

definition upsert :: "('e \<Rightarrow> 'k) \<Rightarrow> 'e \<Rightarrow> 'e list \<Rightarrow> 'e list" where
  "upsert key e es = (let i = pos key (key e) es in if i < length es then es[i := e] else es @ [e])"

definition drop_key :: "('e \<Rightarrow> 'k) \<Rightarrow> 'k \<Rightarrow> 'e list \<Rightarrow> 'e list" where
  "drop_key key k es = (let i = pos key k es in take i es @ drop (Suc i) es)"

lemma pos_simps [simp]: "pos key k [] = 0" "pos key k (e # es) = (if key e = k then 0 else Suc (pos key k es))"
  by (simp_all add: pos_def)

lemma pos_in: "pos key k es < length es \<longleftrightarrow> k \<in> key ` set es"
  by (induction es) auto

lemma upsert_simps: "upsert key e [] = [e]"
  "upsert key e (x # xs) = (if key x = key e then e # xs else x # upsert key e xs)"
  by (auto simp: upsert_def Let_def)

lemma drop_key_simps: "drop_key key k [] = []"
  "drop_key key k (x # xs) = (if key x = k then xs else x # drop_key key k xs)"
  by (auto simp: drop_key_def Let_def)

definition find_key :: "('e \<Rightarrow> 'k) \<Rightarrow> 'e list \<Rightarrow> 'k \<Rightarrow> 'e option" where
  "find_key key es k = find (\<lambda>e. key e = k) es"

lemma find_key_simps [simp]: "find_key key [] k = None"
  "find_key key (x # xs) k = (if key x = k then Some x else find_key key xs k)"
  by (simp_all add: find_key_def)

lemma find_key_pos: "find_key key es k = (if pos key k es < length es then Some (es ! pos key k es) else None)"
  by (induction es) auto

lemma find_key_upsert: "find_key key (upsert key e es) = (find_key key es)(key e \<mapsto> e)"
  by (induction es) (auto simp: upsert_simps fun_eq_iff)

lemma find_key_None: "find_key key es k = None \<longleftrightarrow> k \<notin> key ` set es"
  by (induction es) auto

lemma card_keys: "distinct (map key es) \<Longrightarrow> card (dom (find_key key es)) = length es"
proof -
  assume d: "distinct (map key es)"
  have "dom (find_key key es) = key ` set es" using find_key_None [of key es] by (auto simp: dom_def)
  then show ?thesis using distinct_card [OF d] by simp
qed

lemma keys_upsert: "key ` set (upsert key e es) = insert (key e) (key ` set es)"
  by (induction es) (auto simp: upsert_simps)

lemma keys_drop: "key ` set (drop_key key k es) \<subseteq> key ` set es"
  by (induction es) (auto simp: drop_key_simps)

lemma distinct_upsert: "distinct (map key es) \<Longrightarrow> distinct (map key (upsert key e es))"
proof (induction es)
  case (Cons x xs)
  then show ?case using keys_upsert [of key e xs] by (auto simp: upsert_simps)
qed (simp add: upsert_simps)

lemma distinct_drop: "distinct (map key es) \<Longrightarrow> distinct (map key (drop_key key k es))"
proof (induction es)
  case (Cons x xs)
  then show ?case using keys_drop [of key k xs] by (auto simp: drop_key_simps)
qed (simp add: drop_key_simps)

lemma find_key_drop: "distinct (map key es) \<Longrightarrow> find_key key (drop_key key k es) = (find_key key es)(k := None)"
  by (induction es) (auto simp: drop_key_simps fun_eq_iff find_key_None)

lemma upsert_all: "\<forall>e \<in> set es. P e \<Longrightarrow> P e \<Longrightarrow> \<forall>x \<in> set (upsert key e es). P x"
  by (induction es) (auto simp: upsert_simps)

lemma drop_all: "\<forall>e \<in> set es. P e \<Longrightarrow> \<forall>x \<in> set (drop_key key k es). P x"
  by (induction es) (auto simp: drop_key_simps)

section \<open>Arrays of entries\<close>

text \<open>\<open>rel x e\<close>: the object \<open>x\<close> of the array is the entry \<open>e\<close>; \<open>arg d k\<close>: the argument \<open>d\<close> of a search
  stands for the key \<open>k\<close>.\<close>

locale keyed_array =
  fixes rel :: "'x \<Rightarrow> 'e \<Rightarrow> bool" and key :: "'e \<Rightarrow> 'k" and arg :: "'d \<Rightarrow> 'k \<Rightarrow> bool"
    and compare :: "'x ptr \<Rightarrow> 'd ptr \<Rightarrow> int option"
  assumes compare: "rel x e \<Longrightarrow> arg d k \<Longrightarrow> \<exists>r. compare (Some x) (Some d) = Some r \<and> (r = 0) = (key e = k)"
begin

definition holds :: "'x Array ptr \<Rightarrow> 'e list \<Rightarrow> bool" where
  "holds p es \<longleftrightarrow> (\<exists>a xs. p = Some a \<and> array_holds a xs \<and> list_all2 rel xs es)"

lemma search:
  assumes "holds p es" "arg d k"
  shows "array_find_with_compare p (Some d) compare
    = Some (if pos key k es < length es then (0, Some (pos key k es)) else (-1, None))"
proof -
  obtain a xs where a: "p = Some a" "array_holds a xs" "list_all2 rel xs es" using assms(1) by (auto simp: holds_def)
  let ?P = "\<lambda>x. compare (Some x) (Some d) = Some 0"
  have "\<exists>r. compare (Some x) (Some d) = Some r \<and> (r = 0) = ?P x" if "x \<in> set xs" for x
    using that a(3) compare [OF _ assms(2)] by (fastforce simp: list_all2_conv_all_nth in_set_conv_nth)
  from find_with_compare_ok [OF a(2), of compare d ?P, OF this]
  have f: "array_find_with_compare p (Some d) compare
    = Some (let i = length (takeWhile (\<lambda>x. \<not> ?P x) xs) in if i < length xs then (0, Some i) else (-1, None))"
    using a(1) by simp
  have "length (takeWhile (\<lambda>x. \<not> ?P x) xs) = pos key k es"
    using a(3) by (induction rule: list_all2_induct) (use compare [OF _ assms(2)] in fastforce)+
  then show ?thesis using f list_all2_lengthD [OF a(3)] by (simp add: Let_def)
qed

lemma put:
  assumes "holds p es" "rel y e"
  shows "\<exists>p'. array_put p (if pos key (key e) es < length es then (0, Some (pos key (key e) es)) else (-1, None)) (Some y)
    = Some (0, p') \<and> holds p' (upsert key e es)"
proof -
  obtain a xs where a: "p = Some a" "array_holds a xs" "list_all2 rel xs es" using assms(1) by (auto simp: holds_def)
  note l = list_all2_lengthD [OF a(3)]
  show ?thesis
  proof (cases "pos key (key e) es < length es")
    case True
    obtain a' where "array_set (Some a) (pos key (key e) es) (Some y) = Some (0, Some a')" "array_holds a' (xs[pos key (key e) es := y])"
      using set_ok [OF a(2), of "pos key (key e) es" y] True l by auto
    moreover have "list_all2 rel (xs[pos key (key e) es := y]) (es[pos key (key e) es := e])"
      using a(3) assms(2) by (rule list_all2_update_cong)
    ultimately show ?thesis using True a(1) by (auto simp: array_put_def upsert_def holds_def)
  next
    case False
    obtain a' where "array_append (Some a) (Some y) = Some (0, Some a')" "array_holds a' (xs @ [y])"
      using append_ok [OF a(2), of y] by auto
    moreover have "list_all2 rel (xs @ [y]) (es @ [e])" using a(3) assms(2) by (simp add: list_all2_appendI)
    ultimately show ?thesis using False a(1) by (auto simp: array_put_def upsert_def holds_def)
  qed
qed

lemma remove:
  assumes "holds p es"
  shows "\<exists>p'. array_remove_found p (if pos key k es < length es then (0, Some (pos key k es)) else (-1, None))
    = Some (if pos key k es < length es then 0 else -1, p') \<and> holds p' (drop_key key k es)"
proof -
  obtain a xs where a: "p = Some a" "array_holds a xs" "list_all2 rel xs es" using assms(1) by (auto simp: holds_def)
  note l = list_all2_lengthD [OF a(3)]
  show ?thesis
  proof (cases "pos key k es < length es")
    case True
    obtain a' where "array_remove (Some a) (pos key k es) = Some (0, Some a')"
      "array_holds a' (take (pos key k es) xs @ drop (Suc (pos key k es)) xs)"
      using remove_ok [OF a(2), of "pos key k es"] True l by auto
    moreover have "list_all2 rel (take i xs @ drop (Suc i) xs) (take i es @ drop (Suc i) es)" for i
      using a(3) by (intro list_all2_appendI list_all2_takeI list_all2_dropI)
    ultimately show ?thesis using True a(1) by (auto simp: array_remove_found_def drop_key_def holds_def Let_def)
  next
    case False
    then have "drop_key key k es = es" by (simp add: drop_key_def)
    then show ?thesis using False assms by (simp add: array_remove_found_def)
  qed
qed

lemma get:
  assumes "holds p es"
  shows "\<exists>q. array_get_found p (if pos key k es < length es then (0, Some (pos key k es)) else (-1, None)) = Some q
    \<and> rel_option rel q (find_key key es k)"
proof -
  obtain a xs where a: "p = Some a" "array_holds a xs" "list_all2 rel xs es" using assms(1) by (auto simp: holds_def)
  show ?thesis
    using a get_ok [OF a(2), of "pos key k es"]
    by (auto simp: array_get_found_def find_key_pos list_all2_conv_all_nth)
qed

lemma clear: "holds p es \<Longrightarrow> \<exists>p'. array_clear p = Some (0, p') \<and> holds p' []"
  using clear_ok by (fastforce simp: holds_def)

lemma size: "holds p es \<Longrightarrow> array_size p = length es"
  by (auto simp: holds_def array_size_def array_holds_def list_all2_lengthD)

lemma new: "holds (array_create_with_free f) []"
  using create_ok [of f] by (auto simp: holds_def)

end

section \<open>Stores as maps\<close>

datatype ('k, 'e) store_cmd = Put 'e | Del 'k

text \<open>A run of commands on a store, and on a map.\<close>

fun run_store :: "('s \<Rightarrow> 'e \<Rightarrow> (int \<times> 's ptr) option) \<Rightarrow> ('s \<Rightarrow> 'k \<Rightarrow> (int \<times> 's ptr) option) \<Rightarrow>
    ('k, 'e) store_cmd list \<Rightarrow> 's \<Rightarrow> 's ptr option" where
  "run_store put del [] s = Some (Some s)"
| "run_store put del (c # cs) s = do {
     (r, p) \<leftarrow> (case c of Put e \<Rightarrow> put s e | Del k \<Rightarrow> del s k);
     s \<leftarrow> p;
     run_store put del cs s }"

fun run_map :: "('e \<Rightarrow> 'k) \<Rightarrow> ('k, 'e) store_cmd list \<Rightarrow> ('k \<rightharpoonup> 'e) \<Rightarrow> ('k \<rightharpoonup> 'e)" where
  "run_map key [] m = m"
| "run_map key (c # cs) m = run_map key cs (case c of Put e \<Rightarrow> m(key e \<mapsto> e) | Del k \<Rightarrow> m(k := None))"

locale map_store =
  fixes rep :: "'s \<Rightarrow> 'e list \<Rightarrow> bool" and key :: "'e \<Rightarrow> 'k" and val :: "'e \<Rightarrow> 'v option"
    and good :: "'e \<Rightarrow> bool" and good_key :: "'k \<Rightarrow> bool"
    and put :: "'s \<Rightarrow> 'e \<Rightarrow> (int \<times> 's ptr) option" and del :: "'s \<Rightarrow> 'k \<Rightarrow> (int \<times> 's ptr) option"
    and get :: "'s \<Rightarrow> 'k \<Rightarrow> 'v option option"
  assumes put: "rep s es \<Longrightarrow> good e \<Longrightarrow> \<exists>s'. put s e = Some (0, Some s') \<and> rep s' (upsert key e es)"
    and del: "rep s es \<Longrightarrow> good_key k \<Longrightarrow>
      \<exists>s'. del s k = Some (if k \<in> key ` set es then 0 else -1, Some s') \<and> rep s' (drop_key key k es)"
    and get: "rep s es \<Longrightarrow> good_key k \<Longrightarrow> get s k = Some (Option.bind (find_key key es k) val)"
begin

definition good_cmd :: "('k, 'e) store_cmd \<Rightarrow> bool" where
  "good_cmd c \<longleftrightarrow> (case c of Put e \<Rightarrow> good e | Del k \<Rightarrow> good_key k)"

lemma run:
  assumes "rep s es" "distinct (map key es)" "\<forall>c \<in> set cs. good_cmd c"
  shows "\<exists>s' es'. run_store put del cs s = Some (Some s') \<and> rep s' es' \<and> distinct (map key es')
    \<and> find_key key es' = run_map key cs (find_key key es)"
  using assms
proof (induction cs arbitrary: s es)
  case Nil
  then show ?case by auto
next
  case (Cons c cs)
  have good: "good_cmd c" "\<forall>c \<in> set cs. good_cmd c" using Cons.prems(3) by simp_all
  show ?case
  proof (cases c)
    case (Put e)
    obtain s1 where s1: "put s e = Some (0, Some s1)" "rep s1 (upsert key e es)"
      using put [OF Cons.prems(1)] good(1) Put by (auto simp: good_cmd_def)
    show ?thesis
      using Cons.IH [OF s1(2) distinct_upsert [OF Cons.prems(2)] good(2)] s1(1) Put by (auto simp: find_key_upsert fun_upd_def)
  next
    case (Del k)
    obtain r s1 where s1: "del s k = Some (r, Some s1)" "rep s1 (drop_key key k es)"
      using del [OF Cons.prems(1)] good(1) Del by (fastforce simp: good_cmd_def)
    show ?thesis
      using Cons.IH [OF s1(2) distinct_drop [OF Cons.prems(2)] good(2)] s1(1) Del
      by (auto simp: find_key_drop [OF Cons.prems(2)] fun_upd_def)
  qed
qed

lemma refines_map:
  assumes "rep s []" "\<forall>c \<in> set cs. good_cmd c"
  shows "\<exists>s'. run_store put del cs s = Some (Some s')
    \<and> (\<forall>k. good_key k \<longrightarrow> get s' k = Some (Option.bind (run_map key cs Map.empty k) val))
    \<and> (\<exists>es. rep s' es \<and> find_key key es = run_map key cs Map.empty \<and> length es = card (dom (run_map key cs Map.empty)))"
proof -
  have "find_key key [] = Map.empty" by (simp add: fun_eq_iff)
  with run [OF assms(1) _ assms(2)] obtain s' es where
    "run_store put del cs s = Some (Some s')" "rep s' es" "distinct (map key es)" "find_key key es = run_map key cs Map.empty"
    by auto
  moreover from this have "length es = card (dom (run_map key cs Map.empty))"
    using card_keys [of key es] by simp
  ultimately show ?thesis using get by auto
qed

end


section \<open>The stores of the shell\<close>

definition is_text :: "String ptr \<Rightarrow> string \<Rightarrow> bool" where
  "is_text p t \<longleftrightarrow> (\<exists>s. p = Some s \<and> holds_text s t)"

text \<open>A string without NUL that an \<open>int\<close> can measure.\<close>

definition short :: "string \<Rightarrow> bool" where
  "short t \<longleftrightarrow> no_nul t \<and> int (length t) + 1 < 2 ^ 30"

lemma strcmp_0: "strcmp s t = 0 \<longleftrightarrow> s = t"
  by (induction s t rule: strcmp.induct) auto

lemma data_text: "is_text p t \<Longrightarrow> string_data p = Some (Some t)"
  by (auto simp: is_text_def string_data_holds)

lemma create_text: "short t \<Longrightarrow> \<exists>p. string_create_from_cstr (Some t) = Some p \<and> is_text p t"
  using create_from_cstr_ok [of t] by (auto simp: short_def is_text_def)

lemma must_text: "is_text p t \<Longrightarrow> must (Some p) = Some p"
  by (auto simp: must_def is_text_def)

lemma create_from_text: "is_text p t \<Longrightarrow> string_create_from p = string_create_from_cstr (Some t)"
  using data_text [of p t] by (auto simp: string_create_from_def is_text_def)

lemma compare_text: "is_text p t \<Longrightarrow> is_text q u \<Longrightarrow> \<exists>r. string_compare p q = Some r \<and> (r = 0) = (t = u)"
  using data_text [of p t] data_text [of q u] by (auto simp: string_compare_def strcmp_0 is_text_def)

lemma compare_text_cstr: "is_text p t \<Longrightarrow> \<exists>r. string_compare_cstr p (Some u) = Some r \<and> (r = 0) = (t = u)"
  using data_text [of p t] by (auto simp: string_compare_cstr_def strcmp_0 is_text_def)

subsection \<open>Aliases\<close>

definition is_alias :: "Alias \<Rightarrow> string \<times> string \<Rightarrow> bool" where
  "is_alias a e \<longleftrightarrow> is_text (al_name a) (fst e) \<and> is_text (al_value a) (snd e)"

interpretation alias_entries: keyed_array is_alias fst "\<lambda>d k. d = k" compare_alias_name_cstr
  by unfold_locales (auto simp: is_alias_def compare_alias_name_cstr_def alias_get_name_def intro: compare_text_cstr)

interpretation alias_objects: keyed_array is_alias fst "\<lambda>d k. is_text (Some d) k" compare_alias_name
  by unfold_locales (auto simp: is_alias_def compare_alias_name_def alias_get_name_def intro: compare_text)

definition alias_rep :: "AliasStore \<Rightarrow> (string \<times> string) list \<Rightarrow> bool" where
  "alias_rep s es \<longleftrightarrow> alias_entries.holds (as_aliases s) es"

lemma alias_create_ok:
  assumes "short n" "short v"
  shows "\<exists>a. must (alias_create_from_cstr (Some n) (Some v)) = Some (Some a) \<and> is_alias a (n, v)"
  using create_text [OF assms(1)] create_text [OF assms(2)] must_text
  by (fastforce simp: alias_create_from_cstr_def must_def is_alias_def)

definition alias_put :: "AliasStore \<Rightarrow> string \<times> string \<Rightarrow> (int \<times> AliasStore ptr) option" where
  "alias_put s e = alias_store_add_cstr (Some s) (Some (fst e)) (Some (snd e))"

definition alias_del :: "AliasStore \<Rightarrow> string \<Rightarrow> (int \<times> AliasStore ptr) option" where
  "alias_del s n = alias_store_remove_cstr (Some s) (Some n)"

definition alias_look :: "AliasStore \<Rightarrow> string \<Rightarrow> string ptr option" where
  "alias_look s n = alias_store_get_value_cstr (Some s) (Some n)"

interpretation aliases: map_store alias_rep fst "\<lambda>e. Some (snd e)" "\<lambda>e. short (fst e) \<and> short (snd e)" "\<lambda>k. True"
  alias_put alias_del alias_look
proof unfold_locales
  fix s es and e :: "string \<times> string" and k :: string
  assume r: "alias_rep s es"
  then have h: "alias_entries.holds (as_aliases s) es" by (simp add: alias_rep_def)
  note f = alias_entries.search [OF h refl]
  show "\<exists>s'. alias_put s e = Some (0, Some s') \<and> alias_rep s' (upsert fst e es)" if g: "short (fst e) \<and> short (snd e)"
  proof -
    obtain a where a: "must (alias_create_from_cstr (Some (fst e)) (Some (snd e))) = Some (Some a)" "is_alias a e"
      using alias_create_ok [of "fst e" "snd e"] g by auto
    from alias_entries.put [OF h a(2)] a(1) f [of "fst e"] show ?thesis
      by (auto simp: alias_put_def alias_store_add_cstr_def alias_rep_def simp del: fst_conv)
  qed
  show "\<exists>s'. alias_del s k = Some (if k \<in> fst ` set es then 0 else -1, Some s') \<and> alias_rep s' (drop_key fst k es)"
    using alias_entries.remove [OF h, of k] f [of k]
    by (auto simp: alias_del_def alias_store_remove_cstr_def alias_rep_def pos_in [symmetric] simp del: fst_conv)
  show "alias_look s k = Some (Option.bind (find_key fst es k) (\<lambda>e. Some (snd e)))"
    using alias_entries.get [OF h, of k] f [of k]
    by (auto simp: alias_look_def alias_store_get_value_cstr_def alias_get_value_cstr_def is_alias_def data_text
        rel_option_iff split: option.splits)
qed


subsection \<open>Traps\<close>

definition a_signal :: "int \<Rightarrow> bool" where
  "a_signal k \<longleftrightarrow> 0 \<le> k \<and> k \<le> INT_MAX"

definition is_trap :: "Trap \<Rightarrow> int \<times> string option \<Rightarrow> bool" where
  "is_trap t e \<longleftrightarrow> tr_signal t = fst e \<and> a_signal (fst e)
     \<and> (case snd e of None \<Rightarrow> tr_action t = None | Some a \<Rightarrow> is_text (tr_action t) a)"

interpretation trap_entries: keyed_array is_trap fst "\<lambda>d k. d = k \<and> a_signal k" compare_trap_signal
  by unfold_locales (auto simp: is_trap_def compare_trap_signal_def trap_get_signal_def a_signal_def)

definition trap_rep :: "TrapStore \<Rightarrow> (int \<times> string option) list \<Rightarrow> bool" where
  "trap_rep s es \<longleftrightarrow> trap_entries.holds (ts_traps s) es"

lemma trap_create_ok:
  assumes "a_signal k" "pred_option short act"
  shows "\<exists>t. must (trap_create_from_cstr k act) = Some (Some t) \<and> is_trap t (k, act)"
  using assms create_text must_text
  by (cases act) (fastforce simp: trap_create_from_cstr_def copy_action_cstr_def must_def is_trap_def)+

lemma action_entry:
  "rel_option is_trap q e \<Longrightarrow> (if q = None then Some None else trap_get_action_cstr q) = Some (Option.bind e snd)"
  by (cases q; cases e; cases "snd (the e)")
    (auto simp: is_trap_def trap_get_action_cstr_def data_text, auto simp: is_text_def)

definition trap_put :: "TrapStore \<Rightarrow> int \<times> string option \<Rightarrow> (int \<times> TrapStore ptr) option" where
  "trap_put s e = trap_store_set_trap_cstr (Some s) (fst e) (snd e)"

definition trap_del :: "TrapStore \<Rightarrow> int \<Rightarrow> (int \<times> TrapStore ptr) option" where
  "trap_del s k = trap_store_remove_trap (Some s) k"

definition trap_look :: "TrapStore \<Rightarrow> int \<Rightarrow> string ptr option" where
  "trap_look s k = trap_store_get_action_cstr (Some s) k"

interpretation traps: map_store trap_rep fst snd "\<lambda>e. a_signal (fst e) \<and> pred_option short (snd e)" a_signal
  trap_put trap_del trap_look
proof unfold_locales
  fix s es and e :: "int \<times> string option" and k :: int
  assume r: "trap_rep s es"
  then have h: "trap_entries.holds (ts_traps s) es" by (simp add: trap_rep_def)
  note f = trap_entries.search [OF h]
  show "\<exists>s'. trap_put s e = Some (0, Some s') \<and> trap_rep s' (upsert fst e es)"
    if g: "a_signal (fst e) \<and> pred_option short (snd e)"
  proof -
    obtain a where a: "must (trap_create_from_cstr (fst e) (snd e)) = Some (Some a)" "is_trap a e"
      using trap_create_ok [of "fst e" "snd e"] g by auto
    from trap_entries.put [OF h a(2)] a(1) f [of "fst e"] g show ?thesis
      by (auto simp: trap_put_def trap_store_set_trap_cstr_def trap_rep_def simp del: fst_conv)
  qed
  show "\<exists>s'. trap_del s k = Some (if k \<in> fst ` set es then 0 else -1, Some s') \<and> trap_rep s' (drop_key fst k es)"
    if "a_signal k"
    using trap_entries.remove [OF h, of k] f [of k k] that
    by (auto simp: trap_del_def trap_store_remove_trap_def trap_rep_def pos_in [symmetric] simp del: fst_conv)
  show "trap_look s k = Some (Option.bind (find_key fst es k) snd)" if "a_signal k"
    using trap_entries.get [OF h, of k] f [of k k] that
    by (auto simp: trap_look_def trap_store_get_action_cstr_def trap_store_get_trap_def action_entry)
qed

subsection \<open>Variables\<close>

type_synonym var_entry = "string \<times> string \<times> bool \<times> bool"

definition entry_value :: "var_entry \<Rightarrow> string" where
  "entry_value e = fst (snd e)"

lemma entry_value_pair [simp]: "entry_value (n, v, f) = v"
  by (simp add: entry_value_def)

definition is_variable :: "Variable \<Rightarrow> var_entry \<Rightarrow> bool" where
  "is_variable v e \<longleftrightarrow> is_text (va_name v) (fst e) \<and> is_text (va_value v) (fst (snd e))
     \<and> va_exported v = fst (snd (snd e)) \<and> va_read_only v = snd (snd (snd e))"

interpretation var_entries: keyed_array is_variable fst "\<lambda>d k. d = k" compare_variable_name_cstr
  by unfold_locales (auto simp: is_variable_def compare_variable_name_cstr_def variable_get_name_def intro: compare_text_cstr)

interpretation var_objects: keyed_array is_variable fst "\<lambda>d k. is_text (Some d) k" compare_variable_name
  by unfold_locales (auto simp: is_variable_def compare_variable_name_def variable_get_name_def intro: compare_text)

definition var_rep :: "VariableStore \<Rightarrow> var_entry list \<Rightarrow> bool" where
  "var_rep s es \<longleftrightarrow> var_entries.holds (vs_variables s) es"

lemma variable_create_ok:
  assumes "short n" "short v"
  shows "\<exists>x. must (variable_create_from_cstr (Some n) (Some v) exp ro) = Some (Some x) \<and> is_variable x (n, v, exp, ro)"
  using create_text [OF assms(1)] create_text [OF assms(2)] must_text
  by (fastforce simp: variable_create_from_cstr_def must_def is_variable_def)

definition var_put :: "VariableStore \<Rightarrow> var_entry \<Rightarrow> (int \<times> VariableStore ptr) option" where
  "var_put s e = (case e of (n, v, exp, ro) \<Rightarrow> variable_store_add_cstr (Some s) (Some n) (Some v) exp ro)"

definition var_del :: "VariableStore \<Rightarrow> string \<Rightarrow> (int \<times> VariableStore ptr) option" where
  "var_del s n = variable_store_remove_cstr (Some s) (Some n)"

definition var_look :: "VariableStore \<Rightarrow> string \<Rightarrow> string ptr option" where
  "var_look s n = variable_store_get_value_cstr (Some s) (Some n)"

lemma get_variable_ok:
  assumes "var_rep s es"
  shows "\<exists>q. variable_store_get_variable_cstr (Some s) (Some n) = Some q \<and> rel_option is_variable q (find_key fst es n)"
proof -
  have h: "var_entries.holds (vs_variables s) es" using assms by (simp add: var_rep_def)
  show ?thesis
    using var_entries.get [OF h, of n] var_entries.search [OF h refl, of n]
    by (simp add: variable_store_get_variable_cstr_def)
qed

interpretation variables: map_store var_rep fst "\<lambda>e. Some (entry_value e)" "\<lambda>e. short (fst e) \<and> short (fst (snd e))" "\<lambda>k. True"
  var_put var_del var_look
proof unfold_locales
  fix s es and e :: var_entry and k :: string
  assume r: "var_rep s es"
  then have h: "var_entries.holds (vs_variables s) es" by (simp add: var_rep_def)
  note f = var_entries.search [OF h refl]
  show "\<exists>s'. var_put s e = Some (0, Some s') \<and> var_rep s' (upsert fst e es)" if g: "short (fst e) \<and> short (fst (snd e))"
  proof -
    obtain n v exp ro where e: "e = (n, v, exp, ro)" by (cases e)
    obtain x where x: "must (variable_create_from_cstr (Some n) (Some v) exp ro) = Some (Some x)" "is_variable x e"
      using variable_create_ok [of n v exp ro] g e by auto
    from var_entries.put [OF h x(2)] x(1) f [of n] e show ?thesis
      by (auto simp: var_put_def variable_store_add_cstr_def var_rep_def)
  qed
  show "\<exists>s'. var_del s k = Some (if k \<in> fst ` set es then 0 else -1, Some s') \<and> var_rep s' (drop_key fst k es)"
    using var_entries.remove [OF h, of k] f [of k]
    by (auto simp: var_del_def variable_store_remove_cstr_def var_rep_def pos_in [symmetric] simp del: fst_conv)
  show "var_look s k = Some (Option.bind (find_key fst es k) (\<lambda>e. Some (entry_value e)))"
    using get_variable_ok [OF r, of k]
    by (auto simp: var_look_def variable_store_get_value_cstr_def variable_get_value_cstr_def is_variable_def entry_value_def data_text
        rel_option_iff split: option.splits)
qed


section \<open>Properties\<close>

lemma shrink_capacity:
  "array_holds a xs \<Longrightarrow> length xs \<le> n \<Longrightarrow> n \<le> ar_capacity a \<Longrightarrow> array_holds (a\<lparr>ar_capacity := n\<rparr>) xs"
  by (auto simp: array_holds_def split: option.splits)

lemma resize_ok:
  assumes "array_holds a xs"
  shows "\<exists>a'. array_resize (Some a) n = Some (0, Some a') \<and> array_holds a' (take n xs)"
proof -
  have s: "ar_size a = length xs" using assms by (simp add: array_holds_def)
  obtain A where A: "(if n < ar_size a then do { a \<leftarrow> free_slots a n (ar_size a); Some (a\<lparr>ar_size := n\<rparr>) } else Some a) = Some A"
    "array_holds A (take n xs)"
  proof (cases "n < ar_size a")
    case True
    have "\<exists>r'. map (Some \<circ> Some) xs @ r = map (Some \<circ> Some) (take n xs) @ r'" for r
      by (metis append.assoc append_take_drop_id map_append)
    then have "array_holds (a\<lparr>ar_freed := fs, ar_size := n\<rparr>) (take n xs)" for fs
      using True assms by (auto simp: array_holds_def split: option.splits)
    then show thesis using that True free_slots_ok [OF assms, of n "length xs"] s by simp
  next
    case False
    then show thesis using that [of a] assms s by simp
  qed
  have e: "array_holds (array_ensure_capacity A n) (take n xs)" "n \<le> ar_capacity (array_ensure_capacity A n)"
    using ensure_ok [OF A(2), of n] by auto
  have "array_holds ((array_ensure_capacity A n)\<lparr>ar_capacity := n\<rparr>) (take n xs)"
    by (rule shrink_capacity [OF e(1) _ e(2)]) simp
  then show ?thesis using A(1) e(2) by (auto simp: array_resize_def Let_def)
qed



text \<open>
  The trap store as a map: any sequence of commands on a new store leaves the action of every signal
  as on a map from signals to actions, where a trap may have no action, and one trap for each signal.
\<close>

theorem trap_store_refines_map:
  assumes "\<forall>k act. Put (k, act) \<in> set cmds \<longrightarrow> a_signal k \<and> pred_option short act" "\<forall>k. Del k \<in> set cmds \<longrightarrow> a_signal k"
  shows "\<exists>s0 s. trap_store_create = Some (Some s0) \<and> run_store trap_put trap_del cmds s0 = Some (Some s)
    \<and> (\<forall>k. a_signal k \<longrightarrow> trap_store_get_action_cstr (Some s) k = Some (Option.bind (run_map fst cmds Map.empty k) snd))
    \<and> array_size (ts_traps s) = card (dom (run_map fst cmds Map.empty))"
proof -
  obtain a :: "Trap Array" where a: "array_create_with_free True = Some a" "array_holds a []" using create_ok by blast
  then have s0: "trap_store_create = Some (Some \<lparr>ts_traps = Some a\<rparr>)" "trap_rep \<lparr>ts_traps = Some a\<rparr> []"
    by (auto simp: trap_store_create_def trap_rep_def trap_entries.holds_def)
  have "\<forall>x \<in> set cmds. traps.good_cmd x" using assms by (auto simp: traps.good_cmd_def split: store_cmd.splits)
  from traps.refines_map [OF s0(2) this] obtain s es where
    s: "run_store trap_put trap_del cmds \<lparr>ts_traps = Some a\<rparr> = Some (Some s)"
    "\<forall>k. a_signal k \<longrightarrow> trap_look s k = Some (Option.bind (run_map fst cmds Map.empty k) snd)"
    "trap_rep s es" "length es = card (dom (run_map fst cmds Map.empty))" by auto
  then show ?thesis using s0(1) trap_entries.size [of "ts_traps s" es] by (auto simp: trap_look_def trap_rep_def)
qed

theorem trap_store_refines_map_witness:
  "\<exists>s0 s. trap_store_create = Some (Some s0)
    \<and> run_store trap_put trap_del [Put (2, Some ''echo''), Put (15, None), Put (2, Some ''exit''), Del 9] s0 = Some (Some s)
    \<and> trap_store_get_action_cstr (Some s) 2 = Some (Some ''exit'') \<and> trap_store_get_action_cstr (Some s) 15 = Some None"
  using trap_store_refines_map [of "[Put (2, Some ''echo''), Put (15, None), Put (2, Some ''exit''), Del 9]"]
  by (auto simp: short_def a_signal_def)

lemma create_variables:
  assumes "short sh"
  shows "\<exists>s. variable_store_create pid (Some sh) = Some (Some s) \<and> var_rep s [] \<and> vs_pid s = pid
    \<and> (\<exists>a. vs_positional_params s = Some a \<and> array_holds a [])"
proof -
  obtain a b :: "Variable Array" where a: "array_create_with_free True = Some a" "array_holds a []" using create_ok by blast
  obtain x y z where "string_create_from_cstr (Some ''0'') = Some x" "is_text x ''0''"
    "string_create_from_cstr (Some sh) = Some y" "is_text y sh"
    "string_create_from_cstr (Some []) = Some z" "is_text z []"
    using create_text [of "''0''"] create_text [OF assms] create_text [of "[]"] by (auto simp: short_def)
  then show ?thesis using a must_text
    by (auto simp: variable_store_create_def must_def is_text_def var_rep_def var_entries.holds_def)
qed

definition flag :: "bool option \<Rightarrow> int" where
  "flag b = (case b of None \<Rightarrow> -1 | Some x \<Rightarrow> if x then 1 else 0)"

lemma flags_ok:
  assumes "var_rep s es"
  shows "variable_store_is_exported_cstr (Some s) (Some k) = Some (flag (map_option (\<lambda>e. fst (snd (snd e))) (find_key fst es k)))
    \<and> variable_store_is_read_only_cstr (Some s) (Some k) = Some (flag (map_option (\<lambda>e. snd (snd (snd e))) (find_key fst es k)))"
  using get_variable_ok [OF assms, of k]
  by (auto simp: variable_store_is_exported_cstr_def variable_store_is_read_only_cstr_def flag_def rel_option_iff
      variable_is_exported_def variable_is_read_only_def is_variable_def split: option.splits)




subsection \<open>The environment\<close>

definition env_name :: "string \<Rightarrow> string" where
  "env_name e = takeWhile (\<lambda>c. c \<noteq> CHR ''='') e"

definition env_value :: "string \<Rightarrow> string" where
  "env_value e = drop (length (env_name e) + 1) e"

text \<open>The bindings of an environment, in its order.\<close>

definition bindings :: "string list \<Rightarrow> (string \<times> string) list" where
  "bindings envp = map (\<lambda>e. (env_name e, env_value e)) (filter (\<lambda>e. CHR ''='' \<in> set e) envp)"

lemma short_parts: "short e \<Longrightarrow> short (env_name e) \<and> short (env_value e)"
proof -
  assume s: "short e"
  have "length (env_name e) \<le> length e" "length (env_value e) \<le> length e"
    by (simp_all add: env_name_def env_value_def length_takeWhile_le)
  moreover have "set (env_name e) \<subseteq> set e" "set (env_value e) \<subseteq> set e"
    by (auto simp: env_name_def env_value_def dest: set_takeWhileD in_set_dropD)
  ultimately show ?thesis using s by (auto simp: short_def no_nul_def)
qed

lemma add_env_ok:
  assumes "\<forall>e \<in> set envp. short e" "var_rep s es" "\<forall>e \<in> set es. snd (snd e) = (True, False)"
  shows "\<exists>s' es'. add_env envp (Some s) = Some (Some s') \<and> var_rep s' es' \<and> (\<forall>e \<in> set es'. snd (snd e) = (True, False))
    \<and> (\<forall>k. map_option entry_value (find_key fst es' k)
         = (case map_of (rev (bindings envp)) k of Some v \<Rightarrow> Some v | None \<Rightarrow> map_option entry_value (find_key fst es k)))"
  using assms
proof (induction envp arbitrary: s es)
  case Nil
  then show ?case by (intro exI [of _ s] exI [of _ es]) (simp add: bindings_def)
next
  case (Cons x envp)
  show ?case
  proof (cases "CHR ''='' \<in> set x")
    case False
    then have "bindings (x # envp) = bindings envp" by (simp add: bindings_def)
    then show ?thesis using Cons.IH [of s es] Cons.prems False by simp
  next
    case True
    let ?e = "(env_name x, env_value x, True, False)"
    have g: "short (fst ?e) \<and> short (fst (snd ?e))" using short_parts [of x] Cons.prems(1) by simp
    obtain s1 where s1: "var_put s ?e = Some (0, Some s1)" "var_rep s1 (upsert fst ?e es)"
      using variables.put [OF Cons.prems(2) g] by blast
    have a: "add_env (x # envp) (Some s) = add_env envp (Some s1)"
      using s1(1) True by (simp add: var_put_def env_name_def env_value_def Let_def)
    have f: "\<forall>e \<in> set (upsert fst ?e es). snd (snd e) = (True, False)" by (rule upsert_all [OF Cons.prems(3)]) simp
    obtain s' es' where ih: "add_env envp (Some s1) = Some (Some s')" "var_rep s' es'" "\<forall>e \<in> set es'. snd (snd e) = (True, False)"
      "\<forall>k. map_option entry_value (find_key fst es' k)
         = (case map_of (rev (bindings envp)) k of Some v \<Rightarrow> Some v | None \<Rightarrow> map_option entry_value (find_key fst (upsert fst ?e es) k))"
      using Cons.IH [OF _ s1(2) f] Cons.prems(1) by auto
    have b: "bindings (x # envp) = (env_name x, env_value x) # bindings envp" using True by (simp add: bindings_def)
    have "map_option entry_value (find_key fst es' k)
        = (case map_of (rev (bindings (x # envp))) k of Some v \<Rightarrow> Some v | None \<Rightarrow> map_option entry_value (find_key fst es k))" for k
      using ih(4) by (auto simp: b find_key_upsert map_add_def split: option.splits)
    then show ?thesis using a ih by auto
  qed
qed

lemma find_key_in: "find_key key es k = Some e \<Longrightarrow> e \<in> set es"
  by (induction es) (auto split: if_splits)

text \<open>
  The environment: the store made from it has for every name the value of the last entry that binds
  it, exported and not read-only; entries without \<open>=\<close> are passed over and no other name is defined.
\<close>

theorem environment_imported:
  assumes "short sh" "\<forall>e \<in> set envp. short e"
  shows "\<exists>s. variable_store_create_from_envp pid (Some sh) (Some envp) = Some (Some s)
    \<and> (\<forall>k. variable_store_get_value_cstr (Some s) (Some k) = Some (map_of (rev (bindings envp)) k)
        \<and> variable_store_is_exported_cstr (Some s) (Some k) = Some (if k \<in> fst ` set (bindings envp) then 1 else -1)
        \<and> variable_store_is_read_only_cstr (Some s) (Some k) = Some (if k \<in> fst ` set (bindings envp) then 0 else -1))"
proof -
  obtain s0 where s0: "variable_store_create pid (Some sh) = Some (Some s0)" "var_rep s0 []"
    using create_variables [OF assms(1)] by blast
  obtain s es where s: "add_env envp (Some s0) = Some (Some s)" "var_rep s es" "\<forall>e \<in> set es. snd (snd e) = (True, False)"
    "\<forall>k. map_option entry_value (find_key fst es k) = map_of (rev (bindings envp)) k"
    using add_env_ok [OF assms(2) s0(2)] by (auto simp: option.case_eq_if split: option.splits)
  have v: "variable_store_get_value_cstr (Some s) (Some k) = Some (map_of (rev (bindings envp)) k)" for k
    using variables.get [OF s(2), of k] s(4) [rule_format, of k]
    by (auto simp: var_look_def comp_def map_option_case split: bind_split option.splits)
  have m: "find_key fst es k = None \<longleftrightarrow> k \<notin> fst ` set (bindings envp)" for k
  proof -
    have "find_key fst es k = None \<longleftrightarrow> map_of (rev (bindings envp)) k = None" using s(4) [rule_format, of k] by auto
    then show ?thesis by (simp add: map_of_eq_None_iff)
  qed
  have "variable_store_is_exported_cstr (Some s) (Some k) = Some (if k \<in> fst ` set (bindings envp) then 1 else -1)
      \<and> variable_store_is_read_only_cstr (Some s) (Some k) = Some (if k \<in> fst ` set (bindings envp) then 0 else -1)" for k
  proof (cases "find_key fst es k")
    case None
    then show ?thesis using flags_ok [OF s(2), of k] m [of k] by (simp add: flag_def)
  next
    case (Some e)
    then have "snd (snd e) = (True, False)" using s(3) find_key_in [OF Some] by blast
    then show ?thesis using flags_ok [OF s(2), of k] m [of k] Some by (simp add: flag_def)
  qed
  with v s(1) s0(1) show ?thesis by (simp add: variable_store_create_from_envp_def)
qed

theorem environment_imported_witness:
  "\<exists>s. variable_store_create_from_envp 7 (Some ''sh'') (Some [''A=1'', ''junk'', ''B=x=y'', ''A=2'']) = Some (Some s)
    \<and> variable_store_get_value_cstr (Some s) (Some ''A'') = Some (Some ''2'')
    \<and> variable_store_get_value_cstr (Some s) (Some ''B'') = Some (Some ''x=y'')"
proof -
  have b: "bindings [''A=1'', ''junk'', ''B=x=y'', ''A=2''] = [(''A'', ''1''), (''B'', ''x=y''), (''A'', ''2'')]"
    by (simp add: bindings_def env_name_def env_value_def)
  from environment_imported [of "''sh''" "[''A=1'', ''junk'', ''B=x=y'', ''A=2'']" 7] show ?thesis
    unfolding b by (auto simp: short_def)
qed

subsection \<open>Flags and parameters\<close>

lemma find_key_map: "\<forall>e. key (f e) = key e \<Longrightarrow> find_key key (map f es) k = map_option f (find_key key es k)"
  by (induction es) auto

text \<open>
  Setting the flag of a name that is defined changes that flag of that variable and nothing else;
  for a name that is not defined the shell is aborted.
\<close>

theorem read_only_flag_set:
  assumes "var_rep s es"
  shows "if n \<in> fst ` set es
    then \<exists>s'. variable_store_set_read_only_cstr (Some s) (Some n) b = Some (0, Some s')
      \<and> var_rep s' (let i = pos fst n es in es[i := (case es ! i of (k, v, x, _) \<Rightarrow> (k, v, x, b))])
    else variable_store_set_read_only_cstr (Some s) (Some n) b = None"
proof -
  obtain a xs where a: "vs_variables s = Some a" "array_holds a xs" "list_all2 is_variable xs es"
    using assms by (auto simp: var_rep_def var_entries.holds_def)
  have h: "var_entries.holds (vs_variables s) es" using assms by (simp add: var_rep_def)
  note f = var_entries.search [OF h refl, of n]
  show ?thesis
  proof (cases "n \<in> fst ` set es")
    case False
    then show ?thesis using f by (simp add: pos_in variable_store_set_read_only_cstr_def update_found_def)
  next
    case True
    let ?i = "pos fst n es"
    have i: "?i < length es" "?i < length xs" using True list_all2_lengthD [OF a(3)] by (simp_all add: pos_in)
    let ?x = "(xs ! ?i)\<lparr>va_read_only := b\<rparr>"
    have g: "array_get (Some a) ?i = Some (Some (xs ! ?i))" using get_ok [OF a(2), of ?i] i by simp
    obtain bl where u: "set_slot a ?i (Some ?x) = Some (a\<lparr>ar_data := Some bl\<rparr>)" "array_holds (a\<lparr>ar_data := Some bl\<rparr>) (xs[?i := ?x])"
      using set_slot_ok [OF a(2) i(2), of ?x] by blast
    have "is_variable (xs ! ?i) (es ! ?i)" using a(3) i by (simp add: list_all2_nthD)
    then have "is_variable ?x (case es ! ?i of (k, v, x, _) \<Rightarrow> (k, v, x, b))" by (auto simp: is_variable_def split: prod.splits)
    then have "list_all2 is_variable (xs[?i := ?x]) (es[?i := (case es ! ?i of (k, v, x, _) \<Rightarrow> (k, v, x, b))])"
      using a(3) by (rule list_all2_update_cong [rotated])
    then show ?thesis using True f i g u a(1)
      by (auto simp: variable_store_set_read_only_cstr_def update_found_def variable_set_read_only_def var_rep_def
          var_entries.holds_def Let_def)
  qed
qed

theorem read_only_flag_set_witness:
  "\<exists>s s1 s'. var_put s (''x'', ''1'', False, False) = Some (0, Some s1)
    \<and> variable_store_set_read_only_cstr (Some s) (Some ''x'') True = None
    \<and> variable_store_set_read_only_cstr (Some s1) (Some ''x'') True = Some (0, Some s')
    \<and> variable_store_is_read_only_cstr (Some s') (Some ''x'') = Some 1"
proof -
  obtain s where s: "var_rep s []" using create_variables [of "''sh''" 7] by (auto simp: short_def)
  obtain s1 where s1: "var_put s (''x'', ''1'', False, False) = Some (0, Some s1)" "var_rep s1 [(''x'', ''1'', False, False)]"
    using variables.put [OF s, of "(''x'', ''1'', False, False)"] by (auto simp: short_def upsert_simps)
  obtain s' where s': "variable_store_set_read_only_cstr (Some s1) (Some ''x'') True = Some (0, Some s')"
    "var_rep s' [(''x'', ''1'', False, True)]"
    using read_only_flag_set [OF s1(2), of "''x''" True] by (auto simp: Let_def)
  have "variable_store_is_read_only_cstr (Some s') (Some ''x'') = Some 1"
    using flags_ok [OF s'(2), of "''x''"] by (simp add: flag_def)
  then show ?thesis using s1(1) s'(1) read_only_flag_set [OF s, of "''x''" True] by auto
qed

lemma add_params_ok:
  assumes "\<forall>p \<in> set ps. short p" "\<forall>k \<le> n + length ps. short (show_nat k)" "array_holds a xs"
    "list_all2 (\<lambda>x v. is_text (va_value x) v) xs vs" "length vs = n"
  shows "\<exists>a' xs'. add_params_cstr (map Some ps) n (Some a) = Some (Some a') \<and> array_holds a' xs'
    \<and> list_all2 (\<lambda>x v. is_text (va_value x) v) xs' (vs @ ps)"
  using assms
proof (induction ps arbitrary: n a xs vs)
  case Nil
  then show ?case by auto
next
  case (Cons p ps)
  obtain x where x: "must (variable_create_from_cstr (Some (show_nat (n + 1))) (Some p) False False) = Some (Some x)"
    "is_variable x (show_nat (n + 1), p, False, False)"
    using variable_create_ok [of "show_nat (n + 1)" p False False] Cons.prems(1,2) by auto
  obtain a1 where a1: "array_append (Some a) (Some x) = Some (0, Some a1)" "array_holds a1 (xs @ [x])"
    using append_ok [OF Cons.prems(3), of x] by auto
  have "list_all2 (\<lambda>x v. is_text (va_value x) v) (xs @ [x]) (vs @ [p])"
    using Cons.prems(4) x(2) by (simp add: list_all2_appendI is_variable_def)
  then have "\<exists>a' xs'. add_params_cstr (map Some ps) (n + 1) (Some a1) = Some (Some a') \<and> array_holds a' xs'
    \<and> list_all2 (\<lambda>x v. is_text (va_value x) v) xs' ((vs @ [p]) @ ps)"
    using Cons.prems by (intro Cons.IH [OF _ _ a1(2)]) auto
  then show ?case using x(1) a1(1) by simp
qed

lemma show_nat_length: "length (show_nat n) \<le> n + 1"
proof (induction n rule: show_nat.induct)
  case (1 n)
  then show ?case by (subst show_nat.simps) (auto simp: div_le_dividend less_imp_le intro: order_trans)
qed

lemma short_show: "k + 2 < 2 ^ 30 \<Longrightarrow> short (show_nat k)"
  using isdigit_show [of k] show_nat_length [of k] by (auto simp: short_def no_nul_def)

text \<open>
  Positional parameters: after they are set, their number is the number given, the parameter at an
  index is the one given there, an index from there on gives a null pointer, and the named variables
  are as before.
\<close>

theorem positional_params_set:
  assumes "vs_positional_params s = Some a" "array_holds a xs" "\<forall>p \<in> set ps. short p" "length ps + 2 < 2 ^ 30"
  shows "\<exists>s'. variable_store_set_positional_params_cstr (Some s) (map Some ps) = Some (0, Some s')
    \<and> variable_store_positional_param_count (Some s') = length ps
    \<and> (\<forall>i. variable_store_get_positional_param_cstr (Some s') i = Some (if i < length ps then Some (ps ! i) else None))
    \<and> vs_variables s' = vs_variables s"
proof -
  obtain a0 where a0: "array_clear (Some a) = Some (0, Some a0)" "array_holds a0 []" using clear_ok [OF assms(2)] by auto
  have "\<forall>k \<le> 0 + length ps. short (show_nat k)" using assms(4) by (auto intro: short_show)
  from add_params_ok [OF assms(3) this a0(2), of "[]"] obtain a' xs' where
    a': "add_params_cstr (map Some ps) 0 (Some a0) = Some (Some a')" "array_holds a' xs'"
    "list_all2 (\<lambda>x v. is_text (va_value x) v) xs' ps" by auto
  let ?s = "s\<lparr>vs_positional_params := Some a'\<rparr>"
  have l: "length xs' = length ps" using list_all2_lengthD [OF a'(3)] .
  have "variable_store_get_positional_param_cstr (Some ?s) i = Some (if i < length ps then Some (ps ! i) else None)" for i
    using get_ok [OF a'(2), of i] l list_all2_nthD [OF a'(3), of i] data_text [of "va_value (xs' ! i)" "ps ! i"]
    by (auto simp: variable_store_get_positional_param_cstr_def variable_store_get_positional_param_def variable_get_value_cstr_def)
  moreover have "variable_store_positional_param_count (Some ?s) = length ps"
    using a'(2) l by (simp add: variable_store_positional_param_count_def array_size_def array_holds_def)
  ultimately show ?thesis
    using a0(1) a'(1) assms(1) by (simp add: variable_store_set_positional_params_cstr_def)
qed

theorem positional_params_set_witness:
  "\<exists>s s'. variable_store_create 7 (Some ''sh'') = Some (Some s)
    \<and> variable_store_set_positional_params_cstr (Some s) [Some ''a'', Some ''b''] = Some (0, Some s')
    \<and> variable_store_get_positional_param_cstr (Some s') 1 = Some (Some ''b'')
    \<and> variable_store_get_positional_param_cstr (Some s') 2 = Some None"
proof -
  obtain s a where s: "variable_store_create 7 (Some ''sh'') = Some (Some s)" "vs_positional_params s = Some a" "array_holds a []"
    using create_variables [of "''sh''" 7] by (auto simp: short_def)
  from positional_params_set [OF s(2,3), of "[''a'', ''b'']"] s(1) show ?thesis by (auto simp: short_def)
qed

end
