(* ===== verification/Getopt.thy ===== *)
theory Getopt
  imports Prelude
begin

text \<open>
  The option scanner of the library, \<open>src/lib/getopt.c\<close>: short options in clusters, long options with
  abbreviation, and the permutation of the arguments. \<open>argv\<close> is the list of the arguments (\<open>argc\<close> its
  length, so the null pointer after the last is not in it), \<open>__nextchar\<close> and \<open>optarg\<close> the suffixes they
  point at. \<^term>\<open>None\<close> is a read outside \<open>argv\<close>.

  Beside the fields of \<open>struct getopt_state\<close>, the state holds what a call writes elsewhere: the text on
  standard error, \<open>*longind\<close>, and the variables that the \<open>flag\<close> pointers of the long options point at,
  by their addresses.
\<close>

datatype ordering = REQUIRE_ORDER | PERMUTE | RETURN_IN_ORDER

record long_option =
  lo_name :: string
  lo_has_arg :: int
  lo_flag :: "nat option"
  lo_val :: int

abbreviation (input) no_argument :: int where "no_argument \<equiv> 0"
abbreviation (input) required_argument :: int where "required_argument \<equiv> 1"
abbreviation (input) optional_argument :: int where "optional_argument \<equiv> 2"

record getopt_state =
  go_optind :: int
  go_opterr :: bool
  go_optopt :: int
  go_optarg :: "string option"
  go_initialized :: bool
  go_nextchar :: "string option"
  go_ordering :: ordering
  go_first_nonopt :: int
  go_last_nonopt :: int
  go_stderr :: string
  go_longind :: "int option"
  go_flags :: "nat \<rightharpoonup> int"

abbreviation LF :: char where "LF \<equiv> CHR 0x0A"
abbreviation DASH :: char where "DASH \<equiv> CHR ''-''"

text \<open>A \<open>char\<close> as an \<open>int\<close>: signed.\<close>

definition schar :: "char \<Rightarrow> int" where
  "schar c = (if code c < 128 then int (code c) else int (code c) - 256)"

definition opt_quoted :: "string \<Rightarrow> string" where
  "opt_quoted s = CHR 0x27 # s @ [CHR 0x27]"

definition opt_error :: "bool \<Rightarrow> string \<Rightarrow> getopt_state \<Rightarrow> getopt_state" where
  "opt_error p msg st = (if p then st\<lparr>go_stderr := go_stderr st @ msg @ [LF]\<rparr> else st)"

section \<open>The exchange of two segments\<close>

text \<open>\<open>for (i = 0; i < len; ++i)\<close> swap \<open>argv[a + i]\<close> and \<open>argv[b + i]\<close>.\<close>

function swap_run :: "'a list \<Rightarrow> int \<Rightarrow> int \<Rightarrow> int \<Rightarrow> int \<Rightarrow> 'a list option" where
  "swap_run argv a b i len =
     (if i < len then do {
        tmp \<leftarrow> aget argv (a + i);
        x \<leftarrow> aget argv (b + i);
        argv \<leftarrow> aset argv (a + i) x;
        argv \<leftarrow> aset argv (b + i) tmp;
        swap_run argv a b (i + 1) len }
      else Some argv)"
  by pat_completeness auto
termination
  by (relation "measure (\<lambda>(v, a, b, i, len). nat (len - i))") auto

declare swap_run.simps [simp del]

function exchange_loop :: "'a list \<Rightarrow> int \<Rightarrow> int \<Rightarrow> int \<Rightarrow> 'a list option" where
  "exchange_loop argv bottom middle upper =
     (if upper > middle \<and> middle > bottom then
        (if upper - middle > middle - bottom then do {
           let len = middle - bottom;
           argv \<leftarrow> swap_run argv bottom (upper - (middle - bottom)) 0 len;
           exchange_loop argv bottom middle (upper - len) }
         else do {
           let len = upper - middle;
           argv \<leftarrow> swap_run argv bottom middle 0 len;
           exchange_loop argv (bottom + len) middle upper })
      else Some argv)"
  by pat_completeness auto
termination
  by (relation "measure (\<lambda>(v, b, m, t). nat (t - b))") auto

declare exchange_loop.simps [simp del]

definition exchange :: "string list \<Rightarrow> getopt_state \<Rightarrow> (string list \<times> getopt_state) option" where
  "exchange argv st = do {
     argv \<leftarrow> exchange_loop argv (go_first_nonopt st) (go_last_nonopt st) (go_optind st);
     Some (argv, st\<lparr>go_first_nonopt := go_first_nonopt st + (go_optind st - go_last_nonopt st),
                    go_last_nonopt := go_optind st\<rparr>) }"

section \<open>Long options\<close>

text \<open>The first loop: an option whose name is the whole of \<open>name\<close>; the result has its index.\<close>

fun find_exact :: "string \<Rightarrow> long_option list \<Rightarrow> int \<Rightarrow> (long_option \<times> int) option" where
  "find_exact name [] idx = None"
| "find_exact name (p # ps) idx =
     (if length (lo_name p) = length name \<and> take (length name) (lo_name p) = name then Some (p, idx)
      else find_exact name ps (idx + 1))"

text \<open>The second loop: \<open>strncmp(p->name, name, n) == 0\<close> with \<open>n\<close> the length of \<open>name\<close>; it counts the matches
  and the exact ones and keeps a candidate.\<close>

fun find_prefix :: "string \<Rightarrow> long_option list \<Rightarrow> int \<Rightarrow> nat \<Rightarrow> nat \<Rightarrow> (long_option \<times> int) option
    \<Rightarrow> nat \<times> nat \<times> (long_option \<times> int) option" where
  "find_prefix name [] idx matches exact candidate = (matches, exact, candidate)"
| "find_prefix name (p # ps) idx matches exact candidate =
     (if take (length name) (lo_name p) = name then
        (if length (lo_name p) = length name
         then find_prefix name ps (idx + 1) (matches + 1) (exact + 1) (Some (p, idx))
         else find_prefix name ps (idx + 1) (matches + 1) exact
                (if candidate = None then Some (p, idx) else candidate))
      else find_prefix name ps (idx + 1) matches exact candidate)"

definition bad_option :: "string \<Rightarrow> int" where
  "bad_option optstring = (if hd0 optstring = CHR '':'' then schar (CHR '':'') else schar (CHR ''?''))"

text \<open>The part of \<open>process_long_option\<close> after an option is found; \<open>rest\<close> is the text at \<open>nameend\<close>.\<close>

definition accept_long ::
  "string list \<Rightarrow> string \<Rightarrow> bool \<Rightarrow> getopt_state \<Rightarrow> bool \<Rightarrow> string \<Rightarrow> long_option \<Rightarrow> int \<Rightarrow> string
    \<Rightarrow> (int \<times> getopt_state) option" where
  "accept_long argv optstring longind st print_errors prefix p option_index rest = do {
     prog \<leftarrow> aget argv 0;
     let st = st\<lparr>go_optind := go_optind st + 1, go_nextchar := None\<rparr>;
     let intro = prog @ '': option '' @ opt_quoted (prefix @ lo_name p);
     let finish = (\<lambda>st.
       (let st = (if longind then st\<lparr>go_longind := Some option_index\<rparr> else st)
        in case lo_flag p of
             Some a \<Rightarrow> (0, st\<lparr>go_flags := (go_flags st)(a \<mapsto> lo_val p)\<rparr>)
           | None \<Rightarrow> (lo_val p, st)));
     (if rest \<noteq> [] then
        (if lo_has_arg p \<noteq> 0 then Some (finish (st\<lparr>go_optarg := Some (tl rest)\<rparr>))
         else Some (schar (CHR ''?''),
                (opt_error print_errors (intro @ '' doesn'' @ [CHR 0x27] @ ''t allow an argument'') st)
                \<lparr>go_optopt := lo_val p\<rparr>))
      else if lo_has_arg p = required_argument then
        (if go_optind st < int (length argv) then do {
           a \<leftarrow> aget argv (go_optind st);
           Some (finish (st\<lparr>go_optarg := Some a, go_optind := go_optind st + 1\<rparr>)) }
         else Some (bad_option optstring,
                (opt_error print_errors (intro @ '' requires an argument'') st)\<lparr>go_optopt := lo_val p\<rparr>))
      else if lo_has_arg p = optional_argument then Some (finish (st\<lparr>go_optarg := None\<rparr>))
      else Some (finish st)) }"

definition process_long_option ::
  "string list \<Rightarrow> string \<Rightarrow> long_option list \<Rightarrow> bool \<Rightarrow> bool \<Rightarrow> getopt_state \<Rightarrow> bool \<Rightarrow> string
    \<Rightarrow> (int \<times> getopt_state) option" where
  "process_long_option argv optstring longopts longind long_only st print_errors prefix = do {
     nextchar \<leftarrow> go_nextchar st;
     prog \<leftarrow> aget argv 0;
     let name = takeWhile (\<lambda>c. c \<noteq> CHR ''='') nextchar;
     let rest = drop (length name) nextchar;
     (case find_exact name longopts 0 of
        Some (p, idx) \<Rightarrow> accept_long argv optstring longind st print_errors prefix p idx rest
      | None \<Rightarrow>
          (let (matches, exact, candidate) = find_prefix name longopts 0 0 0 None in
           if matches > 1 \<and> exact \<noteq> 1 then
             Some (schar (CHR ''?''),
               (opt_error print_errors (prog @ '': option '' @ opt_quoted (prefix @ name) @ '' is ambiguous'') st)
               \<lparr>go_nextchar := Some [], go_optind := go_optind st + 1, go_optopt := 0\<rparr>)
           else
             (case candidate of
                Some (p, idx) \<Rightarrow> accept_long argv optstring longind st print_errors prefix p idx rest
              | None \<Rightarrow> do {
                  arg \<leftarrow> aget argv (go_optind st);
                  if \<not> long_only \<or> peek arg 1 = DASH \<or> hd0 nextchar \<notin> set optstring \<union> {NUL} then
                    Some (schar (CHR ''?''),
                      (opt_error print_errors (prog @ '': unrecognized option '' @ opt_quoted (prefix @ name)) st)
                      \<lparr>go_nextchar := None, go_optind := go_optind st + 1, go_optopt := 0\<rparr>)
                  else Some (-1, st) }))) }"

section \<open>The scanner\<close>

definition initialize :: "string \<Rightarrow> getopt_state \<Rightarrow> bool \<Rightarrow> string \<times> getopt_state" where
  "initialize optstring st posixly_correct =
     (let optind = (if go_optind st = 0 then 1 else go_optind st);
          st = st\<lparr>go_optind := optind, go_first_nonopt := optind, go_last_nonopt := optind,
                  go_nextchar := None, go_initialized := True\<rparr>
      in if hd0 optstring = DASH then (tl optstring, st\<lparr>go_ordering := RETURN_IN_ORDER\<rparr>)
         else if hd0 optstring = CHR ''+'' then (tl optstring, st\<lparr>go_ordering := REQUIRE_ORDER\<rparr>)
         else if posixly_correct then (optstring, st\<lparr>go_ordering := REQUIRE_ORDER\<rparr>)
         else (optstring, st\<lparr>go_ordering := PERMUTE\<rparr>))"

text \<open>\<open>NONOPTION_P\<close>\<close>

definition nonoption :: "string \<Rightarrow> bool" where
  "nonoption arg \<longleftrightarrow> hd0 arg \<noteq> DASH \<or> peek arg 1 = NUL"

text \<open>\<open>while (optind < argc && NONOPTION_P) ++optind\<close>\<close>

function skip_nonoptions :: "string list \<Rightarrow> int \<Rightarrow> int option" where
  "skip_nonoptions argv i =
     (if i < int (length argv) then do {
        a \<leftarrow> aget argv i;
        if nonoption a then skip_nonoptions argv (i + 1) else Some i }
      else Some i)"
  by pat_completeness auto
termination
  by (relation "measure (\<lambda>(v, i). nat (int (length v) - i))") auto

declare skip_nonoptions.simps [simp del]

text \<open>Short options: the part of the scanner after \<open>__nextchar\<close> is set. \<open>temp\<close> is the rest of the option
  string from the letter on.\<close>

definition short_option ::
  "string list \<Rightarrow> string \<Rightarrow> long_option list option \<Rightarrow> bool \<Rightarrow> getopt_state \<Rightarrow> bool \<Rightarrow> (int \<times> getopt_state) option" where
  "short_option argv optstring longopts longind st print_errors = do {
     nc \<leftarrow> go_nextchar st;
     prog \<leftarrow> aget argv 0;
     let argc = int (length argv);
     let c = hd0 nc;
     let temp = dropWhile (\<lambda>x. x \<noteq> c) optstring;
     let next = tl nc;
     let st = st\<lparr>go_nextchar := Some next\<rparr>;
     let st = (if next = [] then st\<lparr>go_optind := go_optind st + 1\<rparr> else st);
     if nc = [] then None
     else if temp = [] \<or> c = CHR '':'' \<or> c = CHR '';'' then
       Some (schar (CHR ''?''),
         (opt_error print_errors (prog @ '': invalid option -- '' @ opt_quoted [c]) st)\<lparr>go_optopt := schar c\<rparr>)
     else if c = CHR ''W'' \<and> peek temp 1 = CHR '';'' \<and> longopts \<noteq> None then
       (if next = [] \<and> go_optind st = argc then
          Some (bad_option optstring,
            (opt_error print_errors (prog @ '': option requires an argument -- '' @ opt_quoted [c]) st)\<lparr>go_optopt := schar c\<rparr>)
        else do {
          arg \<leftarrow> (if next \<noteq> [] then Some next else aget argv (go_optind st));
          process_long_option argv optstring (the longopts) longind False
            (st\<lparr>go_nextchar := Some arg, go_optarg := None\<rparr>) print_errors ''-W '' })
     else if peek temp 1 = CHR '':'' then
       (if peek temp 2 = CHR '':'' then
          Some (schar c,
            (if next \<noteq> [] then st\<lparr>go_optarg := Some next, go_optind := go_optind st + 1, go_nextchar := None\<rparr>
             else st\<lparr>go_optarg := None, go_nextchar := None\<rparr>))
        else if next \<noteq> [] then
          Some (schar c, st\<lparr>go_optarg := Some next, go_optind := go_optind st + 1, go_nextchar := None\<rparr>)
        else if go_optind st = argc then
          Some (bad_option optstring,
            (opt_error print_errors (prog @ '': option requires an argument -- '' @ opt_quoted [c]) st)\<lparr>go_optopt := schar c\<rparr>)
        else do {
          arg \<leftarrow> aget argv (go_optind st);
          Some (schar c, st\<lparr>go_optarg := Some arg, go_optind := go_optind st + 1, go_nextchar := None\<rparr>) })
     else Some (schar c, st) }"

text \<open>The permutation step at the start of a new argument.\<close>

definition permute_step :: "string list \<Rightarrow> getopt_state \<Rightarrow> (string list \<times> getopt_state) option" where
  "permute_step argv st = do {
     (argv, st) \<leftarrow>
       (if go_first_nonopt st \<noteq> go_last_nonopt st \<and> go_last_nonopt st \<noteq> go_optind st then exchange argv st
        else if go_last_nonopt st \<noteq> go_optind st then Some (argv, st\<lparr>go_first_nonopt := go_optind st\<rparr>)
        else Some (argv, st));
     optind \<leftarrow> skip_nonoptions argv (go_optind st);
     Some (argv, st\<lparr>go_optind := optind, go_last_nonopt := optind\<rparr>) }"

text \<open>The argument \<open>--\<close>: everything after it is no option.\<close>

definition end_of_options :: "string list \<Rightarrow> getopt_state \<Rightarrow> (string list \<times> getopt_state) option" where
  "end_of_options argv st = do {
     let argc = int (length argv);
     let st = st\<lparr>go_optind := go_optind st + 1\<rparr>;
     (argv, st) \<leftarrow>
       (if go_first_nonopt st \<noteq> go_last_nonopt st \<and> go_last_nonopt st \<noteq> go_optind st then exchange argv st
        else if go_first_nonopt st = go_last_nonopt st then Some (argv, st\<lparr>go_first_nonopt := go_optind st\<rparr>)
        else Some (argv, st));
     Some (argv, st\<lparr>go_last_nonopt := argc, go_optind := argc\<rparr>) }"

text \<open>The next argument, after the permutation: an operand, a long option or a cluster.\<close>

definition next_argument ::
  "string list \<Rightarrow> string \<Rightarrow> long_option list option \<Rightarrow> bool \<Rightarrow> bool \<Rightarrow> getopt_state \<Rightarrow> bool \<Rightarrow> (int \<times> getopt_state) option" where
  "next_argument argv optstring longopts longind long_only st print_errors =
     (if go_optind st = int (length argv) then
        Some (-1, if go_first_nonopt st \<noteq> go_last_nonopt st then st\<lparr>go_optind := go_first_nonopt st\<rparr> else st)
      else do {
        arg \<leftarrow> aget argv (go_optind st);
        if nonoption arg then
          (if go_ordering st = REQUIRE_ORDER then Some (-1, st)
           else Some (1, st\<lparr>go_optarg := Some arg, go_optind := go_optind st + 1\<rparr>))
        else do {
          let short = (\<lambda>st. short_option argv optstring longopts longind (st\<lparr>go_nextchar := Some (drop 1 arg)\<rparr>) print_errors);
          (case longopts of
             None \<Rightarrow> short st
           | Some los \<Rightarrow>
               if peek arg 1 = DASH then
                 process_long_option argv optstring los longind long_only
                   (st\<lparr>go_nextchar := Some (drop 2 arg)\<rparr>) print_errors ''--''
               else if long_only \<and> (peek arg 2 \<noteq> NUL \<or> peek arg 1 \<notin> set optstring) then do {
                 (code, st) \<leftarrow> process_long_option argv optstring los longind long_only
                   (st\<lparr>go_nextchar := Some (drop 1 arg)\<rparr>) print_errors ''-'';
                 if code \<noteq> -1 then Some (code, st) else short st }
               else short st) } })"

definition getopt_internal_r ::
  "string list \<Rightarrow> string \<Rightarrow> long_option list option \<Rightarrow> bool \<Rightarrow> bool \<Rightarrow> bool \<Rightarrow> getopt_state option
    \<Rightarrow> (int \<times> string list \<times> getopt_state option) option" where
  "getopt_internal_r argv optstring longopts longind long_only posixly_correct state =
     (case state of
        None \<Rightarrow> Some (-1, argv, state)
      | Some st0 \<Rightarrow>
          if argv = [] then Some (-1, argv, state)
          else do {
            let st = st0\<lparr>go_optarg := None\<rparr>;
            let (optstring, st) =
              (if go_optind st = 0 \<or> \<not> go_initialized st then initialize optstring st posixly_correct
               else if hd0 optstring = CHR ''+'' \<or> hd0 optstring = DASH then (tl optstring, st)
               else (optstring, st));
            let print_errors = (go_opterr st \<and> hd0 optstring \<noteq> CHR '':'');
            if go_nextchar st = None \<or> go_nextchar st = Some [] then do {
              let st = (if go_last_nonopt st > go_optind st then st\<lparr>go_last_nonopt := go_optind st\<rparr> else st);
              let st = (if go_first_nonopt st > go_optind st then st\<lparr>go_first_nonopt := go_optind st\<rparr> else st);
              (argv, st) \<leftarrow> (if go_ordering st = PERMUTE then permute_step argv st else Some (argv, st));
              (argv, st) \<leftarrow>
                (if go_optind st \<noteq> int (length argv) then do {
                   arg \<leftarrow> aget argv (go_optind st);
                   if arg = ''--'' then end_of_options argv st else Some (argv, st) }
                 else Some (argv, st));
              (code, st) \<leftarrow> next_argument argv optstring longopts longind long_only st print_errors;
              Some (code, argv, Some st) }
            else do {
              (code, st) \<leftarrow> short_option argv optstring longopts longind st print_errors;
              Some (code, argv, Some st) } })"

section \<open>The interfaces\<close>

definition getopt_r :: "string list \<Rightarrow> string \<Rightarrow> getopt_state option \<Rightarrow> (int \<times> string list \<times> getopt_state option) option" where
  "getopt_r argv optstring state =
     (if state = None then Some (-1, argv, state)
      else getopt_internal_r argv optstring None False False False state)"

definition getopt_long_r ::
  "string list \<Rightarrow> string \<Rightarrow> long_option list option \<Rightarrow> bool \<Rightarrow> getopt_state option
    \<Rightarrow> (int \<times> string list \<times> getopt_state option) option" where
  "getopt_long_r argv optstring longopts longind state =
     (if state = None then Some (-1, argv, state)
      else getopt_internal_r argv optstring longopts longind False False state)"

definition getopt_long_only_r ::
  "string list \<Rightarrow> string \<Rightarrow> long_option list option \<Rightarrow> bool \<Rightarrow> getopt_state option
    \<Rightarrow> (int \<times> string list \<times> getopt_state option) option" where
  "getopt_long_only_r argv optstring longopts longind state =
     (if state = None then Some (-1, argv, state)
      else getopt_internal_r argv optstring longopts longind True False state)"

text \<open>The variables \<open>optarg\<close>, \<open>optind\<close>, \<open>opterr\<close>, \<open>optopt\<close> and the hidden state of the interfaces that
  are not re-entrant.\<close>

record getopt_globals =
  gg_optarg :: "string option"
  gg_optind :: int
  gg_opterr :: bool
  gg_optopt :: int
  gg_state :: getopt_state

definition start_state :: getopt_state where
  "start_state = \<lparr>go_optind = 1, go_opterr = True, go_optopt = schar (CHR ''?''), go_optarg = None,
     go_initialized = False, go_nextchar = None, go_ordering = REQUIRE_ORDER, go_first_nonopt = 0,
     go_last_nonopt = 0, go_stderr = [], go_longind = None, go_flags = Map.empty\<rparr>"

definition start_globals :: getopt_globals where
  "start_globals = \<lparr>gg_optarg = None, gg_optind = 1, gg_opterr = True, gg_optopt = schar (CHR ''?''),
     gg_state = start_state\<rparr>"

definition sync_globals :: "getopt_globals \<Rightarrow> getopt_state \<Rightarrow> getopt_globals" where
  "sync_globals g st = g\<lparr>gg_optind := go_optind st, gg_optarg := go_optarg st, gg_opterr := go_opterr st,
     gg_optopt := go_optopt st, gg_state := st\<rparr>"

text \<open>\<open>if (optind == 0)\<close>: the reset, then the error flag of the caller.\<close>

definition enter :: "getopt_globals \<Rightarrow> getopt_state" where
  "enter g =
     (let st = (if gg_optind g = 0
                then (gg_state g)\<lparr>go_optind := 1, go_first_nonopt := 1, go_last_nonopt := 1,
                       go_nextchar := None, go_initialized := False\<rparr>
                else gg_state g)
      in st\<lparr>go_opterr := gg_opterr g\<rparr>)"

definition leave :: "getopt_globals \<Rightarrow> int \<times> string list \<times> getopt_state option \<Rightarrow> int \<times> string list \<times> getopt_globals" where
  "leave g r = (case r of (rc, argv, st) \<Rightarrow> (rc, argv, case st of None \<Rightarrow> g | Some s \<Rightarrow> sync_globals g s))"

definition getopt :: "string list \<Rightarrow> string \<Rightarrow> getopt_globals \<Rightarrow> (int \<times> string list \<times> getopt_globals) option" where
  "getopt argv optstring g =
     map_option (leave g) (getopt_internal_r argv optstring None False False False (Some (enter g)))"

definition getopt_long ::
  "string list \<Rightarrow> string \<Rightarrow> long_option list option \<Rightarrow> bool \<Rightarrow> getopt_globals \<Rightarrow> (int \<times> string list \<times> getopt_globals) option" where
  "getopt_long argv optstring longopts longind g =
     map_option (leave g) (getopt_internal_r argv optstring longopts longind False False (Some (enter g)))"

definition getopt_long_only ::
  "string list \<Rightarrow> string \<Rightarrow> long_option list option \<Rightarrow> bool \<Rightarrow> getopt_globals \<Rightarrow> (int \<times> string list \<times> getopt_globals) option" where
  "getopt_long_only argv optstring longopts longind g =
     map_option (leave g) (getopt_internal_r argv optstring longopts longind True False (Some (enter g)))"

end
