(* ===== verification/Grep.thy ===== *)
theory Grep
  imports Bre Getopt
begin

text \<open>
  The line search \<open>src/grep/grep.c\<close>: string vectors, the line reader, the search for fixed strings and
  for basic regular expressions with their word and line variants, and \<open>main\<close>, on the option scanner
  and the regular expressions of the library.

  A line is the list of the \<open>len\<close> bytes in the buffer; the NUL after them is not in the list. \<^term>\<open>None\<close> is a read
  or write outside an object. Allocations succeed and opened streams are read without errors.
\<close>

section \<open>String vectors\<close>

text \<open>\<open>items\<close> has the first \<open>size\<close> elements.\<close>

record StringVec =
  sv_items :: "string list"
  sv_capacity :: nat

definition vec_init :: StringVec where
  "vec_init = \<lparr>sv_items = [], sv_capacity = 0\<rparr>"

definition vec_size :: "StringVec \<Rightarrow> nat" where
  "vec_size v = length (sv_items v)"

definition vec_push :: "StringVec \<Rightarrow> string \<Rightarrow> StringVec option" where
  "vec_push v s =
     (let newcap = (if sv_capacity v \<noteq> 0 then sv_capacity v * 2 else 8);
          v = (if vec_size v = sv_capacity v then v\<lparr>sv_capacity := newcap\<rparr> else v)
      in if vec_size v < sv_capacity v then Some (v\<lparr>sv_items := sv_items v @ [s]\<rparr>) else None)"

text \<open>The copies of one vector pushed to another.\<close>

fun vec_push_all :: "StringVec \<Rightarrow> string list \<Rightarrow> StringVec option" where
  "vec_push_all v [] = Some v"
| "vec_push_all v (s # ss) = do { v \<leftarrow> vec_push v s; vec_push_all v ss }"

section \<open>Characters\<close>

text \<open>\<open>tolower\<close> and \<open>isalnum\<close> in the C locale.\<close>

definition tolower :: "char \<Rightarrow> char" where
  "tolower c = (if 65 \<le> code c \<and> code c \<le> 90 then char_of (code c + 32) else c)"

definition tolower_dup_n :: "string \<Rightarrow> nat \<Rightarrow> string option" where
  "tolower_dup_n s n = (if n \<le> length s then Some (map tolower (take n s)) else None)"

definition is_word_char :: "char \<Rightarrow> bool" where
  "is_word_char c \<longleftrightarrow> isdigit c \<or> islower c \<or> (65 \<le> code c \<and> code c \<le> 90) \<or> c = CHR ''_''"

section \<open>Reading lines\<close>

text \<open>The loop over \<open>fgetc\<close>: the rest of the stream, the bytes read so far and the capacity of the buffer.
  The result also says whether a line was read.\<close>

fun grep_read_loop :: "string \<Rightarrow> string \<Rightarrow> nat \<Rightarrow> (bool \<times> string \<times> nat \<times> string) option" where
  "grep_read_loop [] buf cap =
     (if buf = [] then Some (False, buf, cap, [])
      else if length buf < cap then Some (True, buf, cap, []) else None)"
| "grep_read_loop (c # f) buf cap =
     (let cap = (if length buf + 1 \<ge> cap then cap * 2 else cap)
      in if length buf < cap then
           (if c = LF then (if length buf + 1 < cap then Some (True, buf @ [c], cap, f) else None)
            else grep_read_loop f (buf @ [c]) cap)
         else None)"

definition read_line :: "string \<Rightarrow> nat \<Rightarrow> (bool \<times> string \<times> nat \<times> string) option" where
  "read_line f cap = grep_read_loop f [] (if cap = 0 then 256 else cap)"

section \<open>Fixed strings\<close>

text \<open>\<open>memcmp(a + i, b, n) == 0\<close>\<close>

definition memcmp_eq :: "string \<Rightarrow> nat \<Rightarrow> string \<Rightarrow> nat \<Rightarrow> bool option" where
  "memcmp_eq a i b n =
     (if i + n \<le> length a \<and> n \<le> length b then Some (take n (drop i a) = take n b) else None)"

text \<open>The loops that compare without case; the result is the index where they stop.\<close>

function same_upto :: "string \<Rightarrow> nat \<Rightarrow> string \<Rightarrow> nat \<Rightarrow> nat \<Rightarrow> nat option" where
  "same_upto a i b j n =
     (if j < n then do {
        x \<leftarrow> aget a (int (i + j));
        y \<leftarrow> aget b (int j);
        if tolower x \<noteq> tolower y then Some j else same_upto a i b (j + 1) n }
      else Some j)"
  by pat_completeness auto
termination
  by (relation "measure (\<lambda>(a, i, b, j, n). n - j)") auto

declare same_upto.simps [simp del]

definition literal_eq_case :: "string \<Rightarrow> nat \<Rightarrow> string \<Rightarrow> nat \<Rightarrow> bool \<Rightarrow> bool option" where
  "literal_eq_case a alen b blen icase =
     (if alen \<noteq> blen then Some False
      else if \<not> icase then memcmp_eq a 0 b alen
      else do { j \<leftarrow> same_upto a 0 b 0 alen; Some (j = alen) })"

function find_loop :: "string \<Rightarrow> nat \<Rightarrow> string \<Rightarrow> nat \<Rightarrow> nat \<Rightarrow> bool \<Rightarrow> int option" where
  "find_loop hay hlen ndl nlen i icase =
     (if i + nlen \<le> hlen then do {
        eq \<leftarrow> (if \<not> icase then memcmp_eq hay i ndl nlen
              else do { j \<leftarrow> same_upto hay i ndl 0 nlen; Some (j = nlen) });
        if eq then Some (int i) else find_loop hay hlen ndl nlen (i + 1) icase }
      else Some (-1))"
  by pat_completeness auto
termination
  by (relation "measure (\<lambda>(h, hlen, n, nlen, i, c). hlen + 1 - i)") auto

declare find_loop.simps [simp del]

definition literal_find_next :: "string \<Rightarrow> nat \<Rightarrow> string \<Rightarrow> nat \<Rightarrow> nat \<Rightarrow> bool \<Rightarrow> int option" where
  "literal_find_next hay hlen ndl nlen start icase =
     (if nlen = 0 then Some (if start \<le> hlen then int start else -1)
      else if nlen > hlen then Some (-1)
      else find_loop hay hlen ndl nlen start icase)"

text \<open>Addition of \<open>size_t\<close>. It matters for the length of a match, which the caller converts from an \<open>int\<close>.\<close>

definition size_add :: "nat \<Rightarrow> nat \<Rightarrow> nat" where
  "size_add a b = nat ((int a + int b) mod 2 ^ 64)"

definition boundaries_are_word :: "string \<Rightarrow> nat \<Rightarrow> nat \<Rightarrow> nat \<Rightarrow> bool option" where
  "boundaries_are_word text tlen start mlen =
     (if mlen = 0 then Some False
      else do {
        left_ok \<leftarrow> (if start > 0 then map_option (\<lambda>c. \<not> is_word_char c) (aget text (int start - 1)) else Some True);
        right_ok \<leftarrow> (if size_add start mlen < tlen
                     then map_option (\<lambda>c. \<not> is_word_char c) (aget text (int (size_add start mlen))) else Some True);
        Some (left_ok \<and> right_ok) })"

lemma find_loop_ge: "find_loop hay hlen ndl nlen i icase = Some k \<Longrightarrow> k = -1 \<or> int i \<le> k"
proof (induction hay hlen ndl nlen i icase rule: find_loop.induct)
  case (1 hay hlen ndl nlen i icase)
  show ?case
  proof (cases "i + nlen \<le> hlen")
    case True
    with "1.prems" obtain eq where eq: "(if \<not> icase then memcmp_eq hay i ndl nlen
              else do { j \<leftarrow> same_upto hay i ndl 0 nlen; Some (j = nlen) }) = Some eq"
      "(if eq then Some (int i) else find_loop hay hlen ndl nlen (i + 1) icase) = Some k"
      by (subst (asm) find_loop.simps) (auto simp del: if_split simp: if_P split: bind_splits)
    show ?thesis
    proof (cases eq)
      case False
      then show ?thesis using "1.IH" [OF True eq(1)] eq(2) by auto
    qed (use eq in simp)
  next
    case False
    then show ?thesis using "1.prems" by (subst (asm) find_loop.simps) simp
  qed
qed

lemma literal_find_next_ge: "literal_find_next hay hlen ndl nlen start icase = Some k \<Longrightarrow> k = -1 \<or> int start \<le> k"
  using find_loop_ge by (auto simp: literal_find_next_def split: if_splits)

text \<open>The occurrences of one pattern, until one is as required.\<close>

function literal_search :: "string \<Rightarrow> nat \<Rightarrow> string \<Rightarrow> bool \<Rightarrow> bool \<Rightarrow> nat \<Rightarrow> bool option" where
  "literal_search line llen pat icase whole_word pos =
     (if pos \<le> llen then
        (case literal_find_next line llen pat (length pat) pos icase of
           None \<Rightarrow> None
         | Some idx \<Rightarrow>
             if idx < 0 then Some False
             else (case (if \<not> whole_word then Some True else boundaries_are_word line llen (nat idx) (length pat)) of
                 None \<Rightarrow> None
               | Some ok \<Rightarrow> if ok then Some True else literal_search line llen pat icase whole_word (nat idx + 1)))
      else Some False)"
  by pat_completeness auto
termination
  by (relation "measure (\<lambda>(l, llen, p, c, w, pos). llen + 1 - pos)") (auto dest!: literal_find_next_ge)

declare literal_search.simps [simp del]

fun line_matches_literal :: "string \<Rightarrow> nat \<Rightarrow> string list \<Rightarrow> bool \<Rightarrow> bool \<Rightarrow> bool \<Rightarrow> bool option" where
  "line_matches_literal line llen [] icase whole_word whole_line = Some False"
| "line_matches_literal line llen (pat # pats) icase whole_word whole_line = do {
     found \<leftarrow> (if whole_line then literal_eq_case line llen pat (length pat) icase
              else literal_search line llen pat icase whole_word 0);
     if found then Some True else line_matches_literal line llen pats icase whole_word whole_line }"

section \<open>Regular expressions\<close>

record RegexPatterns =
  rp_raw :: StringVec
  rp_lower :: StringVec

text \<open>The C string that starts at a place of a line: up to the first NUL.\<close>

definition cstring_at :: "string \<Rightarrow> nat \<Rightarrow> string option" where
  "cstring_at s i = (if i \<le> length s then Some (takeWhile (\<lambda>c. c \<noteq> NUL) (drop i s)) else None)"

text \<open>The patterns with their lower-case copies (\<open>None\<close> when \<open>lower\<close> has no element at the index).\<close>

fun validate_loop :: "string list \<Rightarrow> string list \<Rightarrow> bool \<Rightarrow> bool option" where
  "validate_loop [] lower icase = Some True"
| "validate_loop (pat # raw) lower icase = do {
     (r, m) \<leftarrow> bre_match [] pat;
     if r = BRE_ERROR then Some False
     else if icase then
       (case lower of
          [] \<Rightarrow> None
        | lpat # lower \<Rightarrow> do {
            (r, m) \<leftarrow> bre_match [] lpat;
            if r = BRE_ERROR then Some False else validate_loop raw lower icase })
     else validate_loop raw lower icase }"

definition validate_regex_patterns :: "RegexPatterns \<Rightarrow> bool \<Rightarrow> bool option" where
  "validate_regex_patterns rp icase = validate_loop (sv_items (rp_raw rp)) (sv_items (rp_lower rp)) icase"

text \<open>The loop over the matches in a line from an offset on, until one is as required.\<close>

function regex_search :: "string \<Rightarrow> nat \<Rightarrow> string \<Rightarrow> string \<Rightarrow> bool \<Rightarrow> nat \<Rightarrow> bool option" where
  "regex_search line llen target pat whole_word offset =
     (if offset \<le> llen then
        (case Option.bind (cstring_at target offset) (\<lambda>t. bre_match t pat) of
           None \<Rightarrow> None
         | Some (r, m) \<Rightarrow>
             if r = BRE_OK then
               (if bm_start m < 0 then regex_search line llen target pat whole_word (offset + 1)
                else (case (if \<not> whole_word then Some True
                            else boundaries_are_word line llen (offset + nat (bm_start m)) (nat (bm_length m mod 2 ^ 64))) of
                    None \<Rightarrow> None
                  | Some ok \<Rightarrow>
                      if ok then Some True
                      else regex_search line llen target pat whole_word (offset + nat (bm_start m) + 1)))
             else Some False)
      else Some False)"
  by pat_completeness auto
termination
  by (relation "measure (\<lambda>(l, llen, t, p, w, off). llen + 1 - off)") auto

declare regex_search.simps [simp del]

definition anchored :: "string \<Rightarrow> string" where
  "anchored pat = CHR ''^'' # pat @ ''$''"

fun regex_patterns_loop :: "string \<Rightarrow> nat \<Rightarrow> string \<Rightarrow> string list \<Rightarrow> bool \<Rightarrow> bool \<Rightarrow> bool option" where
  "regex_patterns_loop line llen target [] whole_word whole_line = Some False"
| "regex_patterns_loop line llen target (pat # pats) whole_word whole_line =
     (if whole_line then do {
        t \<leftarrow> cstring_at target 0;
        (r, m) \<leftarrow> bre_match t (anchored pat);
        if r = BRE_OK then Some True
        else regex_patterns_loop line llen target pats whole_word whole_line }
      else do {
        found \<leftarrow> regex_search line llen target pat whole_word 0;
        if found then Some True
        else regex_patterns_loop line llen target pats whole_word whole_line })"

definition line_matches_regex :: "string \<Rightarrow> nat \<Rightarrow> RegexPatterns \<Rightarrow> bool \<Rightarrow> bool \<Rightarrow> bool \<Rightarrow> bool option" where
  "line_matches_regex line llen rp icase whole_word whole_line = do {
     target \<leftarrow> (if icase then tolower_dup_n line llen else Some line);
     regex_patterns_loop line llen target (sv_items (if icase then rp_lower rp else rp_raw rp)) whole_word whole_line }"

section \<open>Files and output\<close>

text \<open>\<open>gw_errno\<close> is the text of \<open>strerror(errno)\<close> after a file could not be opened.\<close>

record GrepWorld =
  gw_files :: "string \<rightharpoonup> string"
  gw_stdin :: string
  gw_stdout :: string
  gw_stderr :: string
  gw_errno :: string

definition put_out :: "string \<Rightarrow> GrepWorld \<Rightarrow> GrepWorld" where
  "put_out s w = w\<lparr>gw_stdout := gw_stdout w @ s\<rparr>"

definition put_err :: "string \<Rightarrow> GrepWorld \<Rightarrow> GrepWorld" where
  "put_err s w = w\<lparr>gw_stderr := gw_stderr w @ s\<rparr>"

definition usage_text :: "string \<Rightarrow> string" where
  "usage_text progname =
     ''Usage: '' @ progname @ '' [-E|-F] [-i] [-v] [-w] [-x] [-c] [-l] [-n] [-q] [-s] pattern [file...]'' @ [LF]
     @ ''   or: '' @ progname @ '' [-E|-F] [-i] [-v] [-w] [-x] [-c] [-l] [-n] [-q] [-s] -e pattern ... [file...]'' @ [LF]
     @ ''   or: '' @ progname @ '' [-E|-F] [-i] [-v] [-w] [-x] [-c] [-l] [-n] [-q] [-s] -f file ... [file...]'' @ [LF]"

text \<open>The contents of the stream that a file name stands for.\<close>

definition open_stream :: "string \<Rightarrow> GrepWorld \<Rightarrow> string option" where
  "open_stream fname w = (if fname = ''-'' then Some (gw_stdin w) else gw_files w fname)"

definition close_stream :: "string \<Rightarrow> string \<Rightarrow> GrepWorld \<Rightarrow> GrepWorld" where
  "close_stream fname rest w = (if fname = ''-'' then w\<lparr>gw_stdin := rest\<rparr> else w)"

definition cannot_open :: "string \<Rightarrow> bool \<Rightarrow> GrepWorld \<Rightarrow> GrepWorld" where
  "cannot_open fname quiet w =
     (if quiet then w else put_err (''grep: '' @ fname @ '': '' @ gw_errno w @ [LF]) w)"

lemma grep_read_loop_rest: "grep_read_loop f buf cap = Some (True, l, c, r) \<Longrightarrow> f \<noteq> [] \<or> buf \<noteq> []"
  by (cases f) (auto split: if_splits)

lemma grep_read_loop_less: "grep_read_loop f buf cap = Some (ok, l, c, r) \<Longrightarrow> length r < length f \<or> r = []"
  by (induction f buf cap rule: grep_read_loop.induct) (auto simp: Let_def split: if_splits)

lemma read_line_less: "read_line f cap = Some (True, l, c, r) \<Longrightarrow> length r < length f"
  using grep_read_loop_rest grep_read_loop_less unfolding read_line_def by fastforce

definition content_length :: "string \<Rightarrow> nat" where
  "content_length line = (if line \<noteq> [] \<and> last line = LF then length line - 1 else length line)"

function grep_load_loop :: "string \<Rightarrow> nat \<Rightarrow> StringVec \<Rightarrow> (StringVec \<times> string) option" where
  "grep_load_loop f cap out =
     (case read_line f cap of
        None \<Rightarrow> None
      | Some (ok, buf, cap', f') \<Rightarrow>
          if \<not> ok then Some (out, f')
          else (case vec_push out (take (content_length buf) buf) of
              None \<Rightarrow> None
            | Some out \<Rightarrow> grep_load_loop f' cap' out))"
  by pat_completeness auto
termination
  by (relation "measure (\<lambda>(f, cap, out). length f)") (auto dest: read_line_less)

declare grep_load_loop.simps [simp del]

definition load_patterns_from_file :: "string \<Rightarrow> StringVec \<Rightarrow> bool \<Rightarrow> GrepWorld \<Rightarrow> (bool \<times> StringVec \<times> GrepWorld) option" where
  "load_patterns_from_file filename out suppress_errors w =
     (case open_stream filename w of
        None \<Rightarrow> Some (False, out, cannot_open filename suppress_errors w)
      | Some f \<Rightarrow> do {
          (out, f) \<leftarrow> grep_load_loop f 0 out;
          Some (True, out, close_stream filename f w) })"

definition print_matched_line :: "string \<Rightarrow> bool \<Rightarrow> bool \<Rightarrow> nat \<Rightarrow> string \<Rightarrow> GrepWorld \<Rightarrow> GrepWorld" where
  "print_matched_line filename multiple_files show_lineno lineno line w =
     put_out ((if multiple_files then filename @ '':'' else [])
       @ (if show_lineno then show_nat lineno @ '':'' else [])
       @ line @ (if line = [] \<or> last line \<noteq> LF then [LF] else [])) w"

section \<open>The command line\<close>

record GrepOptions =
  opt_E :: bool
  opt_F :: bool
  opt_i :: bool
  opt_v :: bool
  opt_w :: bool
  opt_x :: bool
  opt_c :: bool
  opt_l :: bool
  opt_n :: bool
  opt_q :: bool
  opt_s :: bool
  e_patterns :: StringVec
  f_patterns :: StringVec
  pattern_file_opt :: "string option"

definition no_options :: GrepOptions where
  "no_options = \<lparr>opt_E = False, opt_F = False, opt_i = False, opt_v = False, opt_w = False, opt_x = False,
     opt_c = False, opt_l = False, opt_n = False, opt_q = False, opt_s = False,
     e_patterns = vec_init, f_patterns = vec_init, pattern_file_opt = None\<rparr>"

definition grep_longopts :: "long_option list" where
  "grep_longopts = map (\<lambda>(name, arg, c). \<lparr>lo_name = name, lo_has_arg = arg, lo_flag = None, lo_val = schar c\<rparr>)
     [(''basic-regexp'', no_argument, CHR ''G''), (''extended-regexp'', no_argument, CHR ''E''),
      (''fixed-strings'', no_argument, CHR ''F''), (''ignore-case'', no_argument, CHR ''i''),
      (''invert-match'', no_argument, CHR ''v''), (''word-regexp'', no_argument, CHR ''w''),
      (''line-regexp'', no_argument, CHR ''x''), (''count'', no_argument, CHR ''c''),
      (''files-with-matches'', no_argument, CHR ''l''), (''line-number'', no_argument, CHR ''n''),
      (''quiet'', no_argument, CHR ''q''), (''silent'', no_argument, CHR ''q''),
      (''no-messages'', no_argument, CHR ''s''), (''file'', required_argument, CHR ''f''),
      (''regexp'', required_argument, CHR ''e''), (''help'', no_argument, CHR ''H''),
      (''version'', no_argument, CHR ''V'')]"

definition grep_optstring :: string where
  "grep_optstring = ''GEFiwvxclnqse:f:HV''"

text \<open>The letters that only set a flag.\<close>

definition set_flag :: "int \<Rightarrow> GrepOptions \<Rightarrow> GrepOptions option" where
  "set_flag c o1 =
     (if c = schar (CHR ''G'') then Some o1
      else if c = schar (CHR ''E'') then Some (o1\<lparr>opt_E := True\<rparr>)
      else if c = schar (CHR ''F'') then Some (o1\<lparr>opt_F := True\<rparr>)
      else if c = schar (CHR ''i'') then Some (o1\<lparr>opt_i := True\<rparr>)
      else if c = schar (CHR ''v'') then Some (o1\<lparr>opt_v := True\<rparr>)
      else if c = schar (CHR ''w'') then Some (o1\<lparr>opt_w := True\<rparr>)
      else if c = schar (CHR ''x'') then Some (o1\<lparr>opt_x := True\<rparr>)
      else if c = schar (CHR ''c'') then Some (o1\<lparr>opt_c := True\<rparr>)
      else if c = schar (CHR ''l'') then Some (o1\<lparr>opt_l := True\<rparr>)
      else if c = schar (CHR ''n'') then Some (o1\<lparr>opt_n := True\<rparr>)
      else if c = schar (CHR ''q'') then Some (o1\<lparr>opt_q := True\<rparr>)
      else if c = schar (CHR ''s'') then Some (o1\<lparr>opt_s := True\<rparr>)
      else None)"

text \<open>One case of the switch: the new options, or the exit status.\<close>

definition option_case :: "string \<Rightarrow> int \<Rightarrow> string option \<Rightarrow> GrepOptions \<Rightarrow> GrepWorld
    \<Rightarrow> ((int + GrepOptions) \<times> GrepWorld) option" where
  "option_case prog c arg o1 w =
     (case set_flag c o1 of
        Some o2 \<Rightarrow> Some (Inr o2, w)
      | None \<Rightarrow>
          if c = schar (CHR ''e'') then do {
            a \<leftarrow> arg;
            v \<leftarrow> vec_push (e_patterns o1) a;
            Some (Inr (o1\<lparr>e_patterns := v\<rparr>), w) }
          else if c = schar (CHR ''f'') then do {
            a \<leftarrow> arg;
            (ok, v, w) \<leftarrow> load_patterns_from_file a (f_patterns o1) (opt_s o1) w;
            Some (if ok then Inr (o1\<lparr>f_patterns := v, pattern_file_opt := Some a\<rparr>) else Inl 2, w) }
          else if c = schar (CHR ''H'') then Some (Inl 0, put_out (usage_text prog) w)
          else if c = schar (CHR ''V'') then Some (Inl 0, put_out (''grep (minimal portable) 2025'' @ [LF]) w)
          else Some (Inl 2, w))"

text \<open>The loop over \<open>getopt_long\<close>, whose messages go to standard error; the fuel bounds its calls.\<close>

fun options_loop :: "nat \<Rightarrow> string list \<Rightarrow> getopt_globals \<Rightarrow> GrepOptions \<Rightarrow> GrepWorld
    \<Rightarrow> ((int + string list \<times> int \<times> GrepOptions) \<times> GrepWorld) option" where
  "options_loop 0 argv g o1 w = None"
| "options_loop (Suc n) argv g o1 w = do {
     (c, argv, g') \<leftarrow> getopt_long argv grep_optstring (Some grep_longopts) False g;
     let w = put_err (drop (length (go_stderr (gg_state g))) (go_stderr (gg_state g'))) w;
     if c = -1 then Some (Inr (argv, gg_optind g', o1), w)
     else do {
       prog \<leftarrow> aget argv 0;
       (r, w) \<leftarrow> option_case prog c (gg_optarg g') o1 w;
       case r of Inl status \<Rightarrow> Some (Inl status, w) | Inr o2 \<Rightarrow> options_loop n argv g' o2 w } }"

section \<open>Searching\<close>

text \<open>The patterns after the move to \<open>rp\<close>: with \<open>-F\<close> they stay in \<open>patterns\<close>.\<close>

definition make_regexes :: "StringVec \<Rightarrow> bool \<Rightarrow> RegexPatterns option" where
  "make_regexes patterns icase = do {
     raw \<leftarrow> vec_push_all vec_init (sv_items patterns);
     lower \<leftarrow> (if icase then vec_push_all vec_init (map (map tolower) (sv_items patterns)) else Some vec_init);
     Some \<lparr>rp_raw = raw, rp_lower = lower\<rparr> }"

definition match_line :: "GrepOptions \<Rightarrow> StringVec \<Rightarrow> RegexPatterns \<Rightarrow> string \<Rightarrow> bool option" where
  "match_line o1 patterns rp line =
     (if opt_F o1 then line_matches_literal line (content_length line) (sv_items patterns) (opt_i o1) (opt_w o1) (opt_x o1)
      else line_matches_regex line (content_length line) rp (opt_i o1) (opt_w o1) (opt_x o1))"

text \<open>The loop over the lines of a stream. The result: whether \<open>-q\<close> ends the program, the rest of the
  stream, the count of \<open>-c\<close>, and whether a line was selected.\<close>

function lines_loop :: "GrepOptions \<Rightarrow> (string \<Rightarrow> bool option) \<Rightarrow> string \<Rightarrow> bool \<Rightarrow> string \<Rightarrow> nat \<Rightarrow> nat \<Rightarrow> nat \<Rightarrow> bool
    \<Rightarrow> GrepWorld \<Rightarrow> (bool \<times> string \<times> nat \<times> bool \<times> GrepWorld) option" where
  "lines_loop o1 matcher fname multiple f cap lineno matches any w =
     (case read_line f cap of
        None \<Rightarrow> None
      | Some (ok, line, cap', f') \<Rightarrow>
          if \<not> ok then Some (False, f', matches, any, w)
          else (case matcher line of
              None \<Rightarrow> None
            | Some matched \<Rightarrow>
                if matched = opt_v o1 then lines_loop o1 matcher fname multiple f' cap' (lineno + 1) matches any w
                else if opt_q o1 then Some (True, f', matches, True, w)
                else if opt_l o1 then Some (False, f', matches, True, put_out (fname @ [LF]) w)
                else if opt_c o1 then lines_loop o1 matcher fname multiple f' cap' (lineno + 1) (matches + 1) True w
                else lines_loop o1 matcher fname multiple f' cap' (lineno + 1) matches True
                       (print_matched_line fname multiple (opt_n o1) (lineno + 1) line w)))"
  by pat_completeness auto
termination
  by (relation "measure (\<lambda>(o1, m, n, mu, f, r). length f)") (auto dest: read_line_less)

declare lines_loop.simps [simp del]

text \<open>The loop over the files. The result: the exit status when \<open>-q\<close> ends the program, or whether a line
  was selected and a file could not be opened.\<close>

fun files_loop :: "GrepOptions \<Rightarrow> (string \<Rightarrow> bool option) \<Rightarrow> bool \<Rightarrow> string list \<Rightarrow> bool \<Rightarrow> bool \<Rightarrow> GrepWorld
    \<Rightarrow> ((int + bool \<times> bool) \<times> GrepWorld) option" where
  "files_loop o1 matcher multiple [] any err w = Some (Inr (any, err), w)"
| "files_loop o1 matcher multiple (fname # fs) any err w =
     (case open_stream fname w of
        None \<Rightarrow> files_loop o1 matcher multiple fs any True (cannot_open fname (opt_s o1) w)
      | Some f \<Rightarrow> do {
          (quiet, f, matches, any, w) \<leftarrow> lines_loop o1 matcher fname multiple f 0 0 0 any w;
          let w = close_stream fname f w;
          if quiet then Some (Inl 0, w)
          else files_loop o1 matcher multiple fs any err
            (if \<not> opt_l o1 \<and> opt_c o1
             then put_out ((if multiple then fname @ '':'' else []) @ show_nat matches @ [LF]) w else w) })"

definition complain :: "GrepOptions \<Rightarrow> string \<Rightarrow> GrepWorld \<Rightarrow> GrepWorld" where
  "complain o1 msg w = (if opt_s o1 then w else put_err msg w)"

text \<open>\<open>main\<close> after the options: the patterns are collected, checked, and the files searched.\<close>

definition run_grep :: "string list \<Rightarrow> int \<Rightarrow> GrepOptions \<Rightarrow> GrepWorld \<Rightarrow> (int \<times> GrepWorld) option" where
  "run_grep argv optind o1 w = do {
     prog \<leftarrow> aget argv 0;
     let have_any_pattern = (vec_size (e_patterns o1) > 0 \<or> vec_size (f_patterns o1) > 0);
     if \<not> have_any_pattern \<and> optind \<ge> int (length argv) then
       Some (2, complain o1 (prog @ '': missing pattern'' @ [LF] @ usage_text prog) w)
     else do {
       (patterns, optind) \<leftarrow>
         (if have_any_pattern then do {
            v \<leftarrow> vec_push_all vec_init (sv_items (e_patterns o1));
            v \<leftarrow> vec_push_all v (sv_items (f_patterns o1));
            Some (v, optind) }
          else do {
            a \<leftarrow> aget argv optind;
            v \<leftarrow> vec_push vec_init a;
            Some (v, optind + 1) });
       if vec_size patterns = 0 then Some (2, complain o1 (''grep: no pattern supplied'' @ [LF]) w)
       else do {
         rp \<leftarrow> (if opt_F o1 then Some \<lparr>rp_raw = vec_init, rp_lower = vec_init\<rparr> else make_regexes patterns (opt_i o1));
         valid \<leftarrow> (if opt_F o1 then Some True else validate_regex_patterns rp (opt_i o1));
         if \<not> valid then
           Some (2, complain o1 (''grep: invalid basic regular expression''
             @ (case pattern_file_opt o1 of None \<Rightarrow> [] | Some f \<Rightarrow> '' (from '' @ f @ '')'') @ [LF]) w)
         else do {
           let files = drop (nat optind) argv;
           (r, w) \<leftarrow> files_loop o1 (match_line o1 patterns rp) (length files > 1)
             (if files = [] then [''-''] else files) False False w;
           Some (case r of
               Inl status \<Rightarrow> status
             | Inr (any, err) \<Rightarrow> if err then 2 else if any then 0 else 1, w) } } } }"

definition grep_main :: "nat \<Rightarrow> string list \<Rightarrow> GrepWorld \<Rightarrow> (int \<times> GrepWorld) option" where
  "grep_main fuel argv w = do {
     (r, w) \<leftarrow> options_loop fuel argv (start_globals\<lparr>gg_opterr := True\<rparr>) no_options w;
     case r of
       Inl status \<Rightarrow> Some (status, w)
     | Inr (argv, optind, o1) \<Rightarrow>
         if opt_E o1 then
           Some (2, complain o1 (''grep: -E/--extended-regexp is not supported; only basic regular expressions (-G/--basic-regexp) are implemented.'' @ [LF]) w)
         else run_grep argv optind o1 w }"

end
