(* ===== verification/GetoptProps.thy ===== *)
theory GetoptProps
  imports Getopt "HOL-Library.Multiset" "HOL-Library.Sublist"
begin

text \<open>
  What the option scanner promises. The permutation: a call moves whole segments of \<open>argv\<close>
  (\<open>exchange_loop_ok\<close>), so that between two calls \<open>argv\<close> is the options seen, the operands skipped and the
  rest (\<open>between\<close>); a scan of a command line made of well-formed words reports its options in order and
  leaves the operands after them. The long options: exact name first, then the only name it abbreviates.
\<close>

section \<open>The exchange moves segments\<close>


lemma aget_mid: "j = int (length s) \<Longrightarrow> aget (s @ w # t) j = Some w"
  by (simp add: aget_def)

lemma aset_mid: "j = int (length s) \<Longrightarrow> aset (s @ w # t) j v = Some (s @ v # t)"
  by (simp add: aset_def list_update_append)

text \<open>Swapping run: positions a+i.. and b+i.. with disjoint equally long segments.\<close>

lemma swap_run_ok:
  assumes "a = int (length x)" "b = a + int (length u') + int (length u) + int (length y)"
    "i = int (length u')" "len = i + int (length u)" "length u' = length v'" "length u = length v"
  shows "swap_run (x @ v' @ u @ y @ u' @ v @ z) a b i len = Some (x @ v' @ v @ y @ u' @ u @ z)"
  using assms
proof (induction u arbitrary: v u' v' i)
  case Nil
  then show ?case by (subst swap_run.simps) simp
next
  case (Cons p u)
  then obtain q w where v: "v = q # w" by (cases v) auto
  let ?l = "x @ v' @ (p # u) @ y @ u' @ (q # w) @ z"
  have g: "aget ((x @ v') @ p # u @ y @ u' @ (q # w) @ z) (a + i) = Some p"
    "aget ((x @ v' @ (p # u) @ y @ u') @ q # w @ z) (b + i) = Some q"
    by (rule aget_mid, use Cons.prems in simp)+
  have s1: "aset ((x @ v') @ p # u @ y @ u' @ (q # w) @ z) (a + i) q = Some ((x @ v') @ q # u @ y @ u' @ (q # w) @ z)"
    by (rule aset_mid) (use Cons.prems in simp)
  have s2: "aset ((x @ v' @ (q # u) @ y @ u') @ q # w @ z) (b + i) p = Some ((x @ v' @ (q # u) @ y @ u') @ p # w @ z)"
    by (rule aset_mid) (use Cons.prems in simp)
  have "swap_run (x @ (v' @ [q]) @ u @ y @ (u' @ [p]) @ w @ z) a b (i + 1) len = Some (x @ (v' @ [q]) @ w @ y @ (u' @ [p]) @ u @ z)"
    by (rule Cons.IH) (use Cons.prems v in auto)
  then show ?case using g s1 s2 Cons.prems v by (subst swap_run.simps) simp
qed

lemma swap_run:
  assumes "a = int (length x)" "b = a + int (length u) + int (length y)" "len = int (length u)" "length u = length v"
  shows "swap_run (x @ u @ y @ v @ z) a b 0 len = Some (x @ v @ y @ u @ z)"
  using swap_run_ok [of a x b "[]" u y 0 len "[]" v z] assms by simp

lemma exchange_loop_ok:
  assumes "bottom = int (length x)" "middle = bottom + int (length p)" "upper = middle + int (length q)"
  shows "exchange_loop (x @ p @ q @ z) bottom middle upper = Some (x @ q @ p @ z)"
  using assms
proof (induction "length p + length q" arbitrary: x p q z bottom middle upper rule: less_induct)
  case less
  show ?case
  proof (cases "p = [] \<or> q = []")
    case True
    then show ?thesis using less.prems by (subst exchange_loop.simps) auto
  next
    case False
    then have pos: "upper > middle" "middle > bottom" using less.prems by auto
    show ?thesis
    proof (cases "length q > length p")
      case True
      define q1 where "q1 = take (length q - length p) q"
      define q2 where "q2 = drop (length q - length p) q"
      have q: "q = q1 @ q2" "length q2 = length p" using True by (simp_all add: q1_def q2_def)
      have s: "swap_run (x @ p @ q1 @ q2 @ z) bottom (upper - (middle - bottom)) 0 (middle - bottom) = Some (x @ q2 @ q1 @ p @ z)"
        by (rule swap_run) (use less.prems q in auto)
      have "exchange_loop (x @ q2 @ q1 @ p @ z) bottom middle (upper - (middle - bottom)) = Some (x @ q1 @ q2 @ p @ z)"
        by (rule less.hyps) (use less.prems q False in auto)
      then show ?thesis using pos True s less.prems q(1) by (subst exchange_loop.simps) simp
    next
      case ge: False
      define p1 where "p1 = take (length q) p"
      define p2 where "p2 = drop (length q) p"
      have p: "p = p1 @ p2" "length p1 = length q" using ge by (simp_all add: p1_def p2_def)
      have s: "swap_run (x @ p1 @ p2 @ q @ z) bottom middle 0 (upper - middle) = Some (x @ q @ p2 @ p1 @ z)"
        by (rule swap_run) (use less.prems p in auto)
      have "exchange_loop ((x @ q) @ p2 @ p1 @ z) (bottom + (upper - middle)) middle upper = Some ((x @ q) @ p1 @ p2 @ z)"
        by (rule less.hyps) (use less.prems p False in auto)
      then show ?thesis using pos ge s less.prems p(1) by (subst exchange_loop.simps) simp
    qed
  qed
qed

section \<open>Calls\<close>

definition between :: "string list \<Rightarrow> getopt_state \<Rightarrow> string list \<Rightarrow> string list \<Rightarrow> string list \<Rightarrow> string list \<Rightarrow> bool" where
  "between argv st P N Q R \<longleftrightarrow> argv = P @ N @ Q @ R \<and> P \<noteq> [] \<and> go_first_nonopt st = int (length P)
     \<and> go_last_nonopt st = int (length (P @ N)) \<and> go_optind st = int (length (P @ N @ Q))
     \<and> go_ordering st = PERMUTE \<and> go_initialized st \<and> go_stderr st = []"

definition at_arg where
  "at_arg argv st P N Q R \<longleftrightarrow> between argv st P N Q R \<and> (go_nextchar st = None \<or> go_nextchar st = Some [])"

definition in_cluster where
  "in_cluster argv st P N Q e R cs \<longleftrightarrow> between argv st P N Q (e # R) \<and> go_nextchar st = Some cs \<and> cs \<noteq> []"

lemma skip_ok:
  assumes "i = int (length x)" "\<forall>m \<in> set M. nonoption m" "R \<noteq> [] \<longrightarrow> \<not> nonoption (hd R)"
  shows "skip_nonoptions (x @ M @ R) i = Some (i + int (length M))"
  using assms
proof (induction M arbitrary: x i)
  case Nil
  then show ?case by (subst skip_nonoptions.simps) (cases R, auto simp: aget_def nth_append)
next
  case (Cons m M)
  have "skip_nonoptions ((x @ [m]) @ M @ R) (i + 1) = Some (i + 1 + int (length M))"
    by (rule Cons.IH) (use Cons.prems in auto)
  moreover have "aget (x @ (m # M) @ R) i = Some m" using Cons.prems(1) by (simp add: aget_def nth_append)
  ultimately show ?case using Cons.prems by (subst skip_nonoptions.simps) simp
qed

lemma permute_ok:
  assumes "between argv st P N Q (M @ R)" "\<forall>m \<in> set M. nonoption m" "R \<noteq> [] \<longrightarrow> \<not> nonoption (hd R)"
  shows "\<exists>st'. permute_step argv st = Some (P @ Q @ N @ M @ R, st') \<and> between (P @ Q @ N @ M @ R) st' (P @ Q) (N @ M) [] R
    \<and> go_optarg st' = go_optarg st \<and> go_nextchar st' = go_nextchar st \<and> go_opterr st' = go_opterr st"
proof -
  have l: "go_first_nonopt st = int (length P)" "go_last_nonopt st = int (length P) + int (length N)"
    "go_optind st = int (length P) + int (length N) + int (length Q)" "argv = P @ N @ Q @ M @ R"
    using assms(1) by (simp_all add: between_def)
  have x: "exchange_loop (P @ N @ Q @ M @ R) (go_first_nonopt st) (go_last_nonopt st) (go_optind st) = Some (P @ Q @ N @ M @ R)"
    by (rule exchange_loop_ok) (use l in auto)
  have s: "skip_nonoptions ((P @ Q @ N) @ M @ R) (int (length (P @ Q @ N))) = Some (int (length (P @ Q @ N)) + int (length M))"
    by (rule skip_ok [OF refl assms(2,3)])
  consider "N = []" "Q = []" | "N = []" "Q \<noteq> []" | "N \<noteq> []" "Q = []" | "N \<noteq> []" "Q \<noteq> []" by auto
  then show ?thesis
    by cases (use l x s assms(1) in \<open>auto simp: permute_step_def exchange_def between_def algebra_simps\<close>)
qed

text \<open>The letters of an option string.\<close>

definition is_flag :: "string \<Rightarrow> char \<Rightarrow> bool" where
  "is_flag os c \<longleftrightarrow> c \<in> set os \<and> c \<notin> {CHR '':'', CHR '';'', DASH, NUL}
     \<and> peek (dropWhile (\<lambda>x. x \<noteq> c) os) 1 \<notin> {CHR '':'', CHR '';''}"

definition takes_arg :: "string \<Rightarrow> char \<Rightarrow> bool" where
  "takes_arg os c \<longleftrightarrow> c \<in> set os \<and> c \<notin> {CHR '':'', CHR '';'', DASH, NUL}
     \<and> peek (dropWhile (\<lambda>x. x \<noteq> c) os) 1 = CHR '':'' \<and> peek (dropWhile (\<lambda>x. x \<noteq> c) os) 2 \<noteq> CHR '':''"

definition plain_string :: "string \<Rightarrow> bool" where
  "plain_string os \<longleftrightarrow> hd0 os \<noteq> DASH \<and> hd0 os \<noteq> CHR ''+''"

abbreviation call where
  "call argv os lo li st \<equiv> getopt_internal_r argv os lo li False False (Some st)"

lemma letter_found: "c \<in> set os \<Longrightarrow> dropWhile (\<lambda>x. x \<noteq> c) os \<noteq> []"
  by (auto simp: dropWhile_eq_Nil_conv)

lemma prog_get: "argv = P @ s \<Longrightarrow> P \<noteq> [] \<Longrightarrow> \<exists>x. aget argv 0 = Some x"
  by (cases P) (auto simp: aget_def)

lemma call_eq:
  assumes "plain_string os" "go_initialized st" "go_optind st \<noteq> 0" "argv \<noteq> []"
  shows "call argv os lo li st =
    (let st = st\<lparr>go_optarg := None\<rparr>; print_errors = (go_opterr st \<and> hd0 os \<noteq> CHR '':'') in
     if go_nextchar st = None \<or> go_nextchar st = Some [] then do {
       let st = (if go_last_nonopt st > go_optind st then st\<lparr>go_last_nonopt := go_optind st\<rparr> else st);
       let st = (if go_first_nonopt st > go_optind st then st\<lparr>go_first_nonopt := go_optind st\<rparr> else st);
       (argv, st) \<leftarrow> (if go_ordering st = PERMUTE then permute_step argv st else Some (argv, st));
       (argv, st) \<leftarrow>
         (if go_optind st \<noteq> int (length argv) then do {
            arg \<leftarrow> aget argv (go_optind st);
            if arg = ''--'' then end_of_options argv st else Some (argv, st) }
          else Some (argv, st));
       (code, st) \<leftarrow> next_argument argv os lo li False st print_errors;
       Some (code, argv, Some st) }
     else do {
       (code, st) \<leftarrow> short_option argv os lo li st print_errors;
       Some (code, argv, Some st) })"
  using assms by (simp add: getopt_internal_r_def plain_string_def)

lemma between_nonzero: "between argv st P N Q R \<Longrightarrow> go_optind st \<noteq> 0 \<and> argv \<noteq> [] \<and> go_initialized st"
  by (cases P) (auto simp: between_def)

lemma call_in_cluster:
  assumes "in_cluster argv st P N Q e R cs" "plain_string os"
  shows "call argv os lo li st = do {
    (code, st) \<leftarrow> short_option argv os lo li (st\<lparr>go_optarg := None\<rparr>) (go_opterr st \<and> hd0 os \<noteq> CHR '':'');
    Some (code, argv, Some st) }"
  using assms between_nonzero [of argv st P N Q "e # R"] by (simp add: call_eq in_cluster_def Let_def)

lemma call_flag:
  assumes "in_cluster argv st P N Q e R (c # cs)" "is_flag os c" "plain_string os"
  shows "\<exists>st'. call argv os lo li st = Some (schar c, argv, Some st') \<and> go_optarg st' = None
    \<and> (if cs = [] then at_arg argv st' P N (Q @ [e]) R else in_cluster argv st' P N Q e R cs)"
proof -
  obtain x where x: "aget argv 0 = Some x" using assms(1) prog_get by (force simp: in_cluster_def between_def)
  let ?st = "st\<lparr>go_optarg := None, go_nextchar := Some cs, go_optind := go_optind st + (if cs = [] then 1 else 0)\<rparr>"
  have n: "go_nextchar st = Some (c # cs)" using assms(1) by (simp add: in_cluster_def)
  have "call argv os lo li st = Some (schar c, argv, Some ?st)"
    using assms(2) letter_found [of c os] x n
    by (auto simp: call_in_cluster [OF assms(1,3)] short_option_def is_flag_def Let_def)
  then show ?thesis using assms(1) by (auto simp: in_cluster_def at_arg_def between_def)
qed

lemma call_attached:
  assumes "in_cluster argv st P N Q e R (c # cs)" "takes_arg os c" "cs \<noteq> []" "plain_string os"
  shows "\<exists>st'. call argv os lo li st = Some (schar c, argv, Some st') \<and> go_optarg st' = Some cs
    \<and> at_arg argv st' P N (Q @ [e]) R"
proof -
  obtain x where x: "aget argv 0 = Some x" using assms(1) prog_get by (force simp: in_cluster_def between_def)
  let ?st = "st\<lparr>go_optarg := Some cs, go_nextchar := None, go_optind := go_optind st + 1\<rparr>"
  have n: "go_nextchar st = Some (c # cs)" using assms(1) by (simp add: in_cluster_def)
  have "call argv os lo li st = Some (schar c, argv, Some ?st)"
    using assms(2,3) letter_found [of c os] x n
    by (auto simp: call_in_cluster [OF assms(1,4)] short_option_def takes_arg_def Let_def)
  then show ?thesis using assms(1) by (auto simp: in_cluster_def at_arg_def between_def)
qed

lemma call_separate:
  assumes "in_cluster argv st P N Q e (a # R) [c]" "takes_arg os c" "plain_string os"
  shows "\<exists>st'. call argv os lo li st = Some (schar c, argv, Some st') \<and> go_optarg st' = Some a
    \<and> at_arg argv st' P N (Q @ [e, a]) R"
proof -
  obtain x where x: "aget argv 0 = Some x" using assms(1) prog_get by (force simp: in_cluster_def between_def)
  let ?st = "st\<lparr>go_optarg := Some a, go_nextchar := None, go_optind := go_optind st + 2\<rparr>"
  have n: "go_nextchar st = Some [c]" using assms(1) by (simp add: in_cluster_def)
  have v: "argv = (P @ N @ Q @ [e]) @ a # R" "go_optind st = int (length (P @ N @ Q))"
    using assms(1) by (simp_all add: in_cluster_def between_def)
  have a: "aget argv (go_optind st + 1) = Some a" unfolding v(1) by (rule aget_mid) (simp add: v(2))
  have l: "go_optind st + 1 \<noteq> int (length argv)" using v by simp
  have "call argv os lo li st = Some (schar c, argv, Some ?st)"
    using assms(2) letter_found [of c os] x n a l
    by (auto simp: call_in_cluster [OF assms(1,3)] short_option_def takes_arg_def Let_def)
  then show ?thesis using assms(1) by (auto simp: in_cluster_def at_arg_def between_def)
qed

lemma call_at_arg:
  assumes "at_arg argv st P N Q (M @ R)" "\<forall>m \<in> set M. nonoption m" "R \<noteq> [] \<longrightarrow> \<not> nonoption (hd R)" "plain_string os"
  shows "\<exists>st'. between (P @ Q @ N @ M @ R) st' (P @ Q) (N @ M) [] R \<and> go_optarg st' = None
    \<and> go_opterr st' = go_opterr st
    \<and> call argv os lo li st = do {
        (argv, st) \<leftarrow> (if R = [] then Some (P @ Q @ N @ M @ R, st')
          else if hd R = ''--'' then end_of_options (P @ Q @ N @ M @ R) st' else Some (P @ Q @ N @ M @ R, st'));
        (code, st) \<leftarrow> next_argument argv os lo li False st (go_opterr st' \<and> hd0 os \<noteq> CHR '':'');
        Some (code, argv, Some st) }"
proof -
  let ?st = "st\<lparr>go_optarg := None\<rparr>"
  have "between argv ?st P N Q (M @ R)" using assms(1) by (simp add: at_arg_def between_def)
  from permute_ok [OF this assms(2,3)] obtain st' where
    p: "permute_step argv ?st = Some (P @ Q @ N @ M @ R, st')" "between (P @ Q @ N @ M @ R) st' (P @ Q) (N @ M) [] R"
    "go_optarg st' = None" "go_opterr st' = go_opterr st" by auto
  have l: "go_first_nonopt st \<le> go_optind st" "go_last_nonopt st \<le> go_optind st" "go_optind st \<noteq> 0" "go_initialized st"
    "go_ordering st = PERMUTE" "argv \<noteq> []"
    using assms(1) between_nonzero [of argv st P N Q "M @ R"] by (simp_all add: at_arg_def between_def)
  have o: "go_optind st' = int (length (P @ Q @ N @ M))" using p(2) by (simp add: between_def)
  have "aget ((P @ Q @ N @ M) @ hd R # tl R) (go_optind st') = Some (hd R)" by (rule aget_mid) (simp add: o)
  then have h: "aget (P @ Q @ N @ M @ R) (go_optind st') = Some (hd R)" if "R \<noteq> []" using that by simp
  have e: "go_optind st' = int (length (P @ Q @ N @ M @ R)) \<longleftrightarrow> R = []" using o by simp
  have "call argv os lo li st = do {
        (argv, st) \<leftarrow> (if R = [] then Some (P @ Q @ N @ M @ R, st')
          else if hd R = ''--'' then end_of_options (P @ Q @ N @ M @ R) st' else Some (P @ Q @ N @ M @ R, st'));
        (code, st) \<leftarrow> next_argument argv os lo li False st (go_opterr st' \<and> hd0 os \<noteq> CHR '':'');
        Some (code, argv, Some st) }"
    using assms(1) l p(1,4) h e
    by (simp add: call_eq [OF assms(4) l(4,3,6)] at_arg_def Let_def)
  then show ?thesis using p by blast
qed

lemma enter_cluster:
  assumes "at_arg argv st P N Q (M @ (DASH # cs) # R)" "\<forall>m \<in> set M. nonoption m" "cs \<noteq> []" "hd cs \<noteq> DASH" "hd cs \<noteq> NUL"
    "plain_string os"
  shows "\<exists>argv' st'. call argv os lo li st = call argv' os lo li st' \<and> in_cluster argv' st' (P @ Q) (N @ M) [] (DASH # cs) R cs"
proof -
  let ?R = "(DASH # cs) # R"
  obtain c cs' where cs: "cs = c # cs'" using assms(3) by (cases cs) auto
  have n: "\<not> nonoption (DASH # cs)" "DASH # cs \<noteq> ''--''" using assms(4,5) cs by (auto simp: nonoption_def)
  from call_at_arg [OF assms(1,2) _ assms(6), of lo li] n obtain st' where
    b: "between (P @ Q @ N @ M @ ?R) st' (P @ Q) (N @ M) [] ?R" "go_optarg st' = None" and
    c: "call argv os lo li st = do {
        (code, st) \<leftarrow> next_argument (P @ Q @ N @ M @ ?R) os lo li False st' (go_opterr st' \<and> hd0 os \<noteq> CHR '':'');
        Some (code, P @ Q @ N @ M @ ?R, Some st) }" by auto
  let ?st = "st'\<lparr>go_nextchar := Some cs\<rparr>"
  have o: "go_optind st' = int (length (P @ Q @ N @ M))" using b(1) by (simp add: between_def)
  have "aget ((P @ Q @ N @ M) @ ?R) (go_optind st') = Some (DASH # cs)" by (rule aget_mid) (simp add: o)
  then have "next_argument (P @ Q @ N @ M @ ?R) os lo li False st' pe = short_option (P @ Q @ N @ M @ ?R) os lo li ?st pe" for pe
    using n(1) assms(4) cs o by (auto simp: next_argument_def Let_def split: option.split)
  moreover have i: "in_cluster (P @ Q @ N @ M @ ?R) ?st (P @ Q) (N @ M) [] (DASH # cs) R cs"
    using b(1) assms(3) by (simp add: in_cluster_def between_def)
  moreover have "?st\<lparr>go_optarg := None\<rparr> = ?st" using b(2) by simp
  ultimately have "call argv os lo li st = call (P @ Q @ N @ M @ ?R) os lo li ?st"
    using c call_in_cluster [OF i assms(6), of lo li] by simp
  then show ?thesis using i by blast
qed

lemma call_last:
  assumes "at_arg argv st P N Q M" "\<forall>m \<in> set M. nonoption m" "plain_string os"
  shows "\<exists>st'. call argv os lo li st = Some (-1, P @ Q @ N @ M, Some st') \<and> go_optind st' = int (length (P @ Q))
    \<and> go_stderr st' = []"
proof -
  from call_at_arg [of argv st P N Q M "[]", OF _ assms(2) _ assms(3), of lo li] assms(1) obtain st' where
    b: "between (P @ Q @ N @ M) st' (P @ Q) (N @ M) [] []" and
    c: "call argv os lo li st = do {
        (code, st) \<leftarrow> next_argument (P @ Q @ N @ M) os lo li False st' (go_opterr st' \<and> hd0 os \<noteq> CHR '':'');
        Some (code, P @ Q @ N @ M, Some st) }" by auto
  show ?thesis unfolding c using b by (auto simp: next_argument_def between_def)
qed

lemma call_dashes:
  assumes "at_arg argv st P N Q (M @ ''--'' # T)" "\<forall>m \<in> set M. nonoption m" "plain_string os"
  shows "\<exists>st'. call argv os lo li st = Some (-1, P @ Q @ [''--''] @ N @ M @ T, Some st')
    \<and> go_optind st' = int (length (P @ Q)) + 1 \<and> go_stderr st' = []"
proof -
  let ?R = "''--'' # T"
  have n: "\<not> nonoption ''--''" by (simp add: nonoption_def)
  from call_at_arg [OF assms(1,2) _ assms(3), of lo li] n obtain st' where
    b: "between (P @ Q @ N @ M @ ?R) st' (P @ Q) (N @ M) [] ?R" and
    c: "call argv os lo li st = do {
        (argv, st) \<leftarrow> end_of_options (P @ Q @ N @ M @ ?R) st';
        (code, st) \<leftarrow> next_argument argv os lo li False st (go_opterr st' \<and> hd0 os \<noteq> CHR '':'');
        Some (code, argv, Some st) }" by auto
  have l: "go_first_nonopt st' = int (length (P @ Q))" "go_last_nonopt st' = int (length (P @ Q @ N @ M))"
    "go_optind st' = int (length (P @ Q @ N @ M))" "go_stderr st' = []" using b by (simp_all add: between_def)
  have x: "exchange_loop ((P @ Q) @ (N @ M) @ [''--''] @ T) (int (length (P @ Q))) (int (length (P @ Q @ N @ M)))
      (int (length (P @ Q @ N @ M)) + 1) = Some ((P @ Q) @ [''--''] @ (N @ M) @ T)"
    by (rule exchange_loop_ok) auto
  show ?thesis
  proof (cases "N @ M = []")
    case True
    then show ?thesis unfolding c using l by (auto simp: end_of_options_def next_argument_def Let_def)
  next
    case False
    then have "0 < length N + length M" by simp
    then have "0 < int (length N) + int (length M)" by linarith
    then show ?thesis unfolding c using l x by (simp add: end_of_options_def exchange_def next_argument_def Let_def)
  qed
qed


section \<open>Scans\<close>

text \<open>The calls of a program, until the result is \<open>-1\<close>: the results with their arguments, and what is
  left. The fuel bounds the calls.\<close>

fun scan :: "nat \<Rightarrow> string list \<Rightarrow> string \<Rightarrow> long_option list option \<Rightarrow> bool \<Rightarrow> getopt_state
    \<Rightarrow> ((int \<times> string option) list \<times> string list \<times> getopt_state) option" where
  "scan 0 argv os lo li st = None"
| "scan (Suc n) argv os lo li st = do {
     (rc, argv, state) \<leftarrow> getopt_internal_r argv os lo li False False (Some st);
     st \<leftarrow> state;
     if rc = -1 then Some ([], argv, st)
     else do {
       (es, argv, st') \<leftarrow> scan n argv os lo li st;
       Some ((rc, go_optarg st) # es, argv, st') } }"

text \<open>The words of a command line: a cluster of flags, a cluster that ends in an option whose argument is
  attached or the next word, and an operand.\<close>

datatype item = Flags string | Attached string char string | Separate string char string | Operand string

fun words :: "item \<Rightarrow> string list" where
  "words (Flags fs) = [DASH # fs]"
| "words (Attached fs c a) = [DASH # fs @ c # a]"
| "words (Separate fs c a) = [DASH # fs @ [c], a]"
| "words (Operand s) = [s]"

fun events :: "item \<Rightarrow> (int \<times> string option) list" where
  "events (Flags fs) = map (\<lambda>f. (schar f, None)) fs"
| "events (Attached fs c a) = map (\<lambda>f. (schar f, None)) fs @ [(schar c, Some a)]"
| "events (Separate fs c a) = map (\<lambda>f. (schar f, None)) fs @ [(schar c, Some a)]"
| "events (Operand s) = []"

fun is_operand :: "item \<Rightarrow> bool" where
  "is_operand (Operand s) = True"
| "is_operand _ = False"

fun good_item :: "string \<Rightarrow> item \<Rightarrow> bool" where
  "good_item os (Flags fs) \<longleftrightarrow> fs \<noteq> [] \<and> (\<forall>f \<in> set fs. is_flag os f)"
| "good_item os (Attached fs c a) \<longleftrightarrow> (\<forall>f \<in> set fs. is_flag os f) \<and> takes_arg os c \<and> a \<noteq> []"
| "good_item os (Separate fs c a) \<longleftrightarrow> (\<forall>f \<in> set fs. is_flag os f) \<and> takes_arg os c"
| "good_item os (Operand s) \<longleftrightarrow> nonoption s"

definition all_words :: "item list \<Rightarrow> string list" where
  "all_words is = concat (map words is)"

definition all_events :: "item list \<Rightarrow> (int \<times> string option) list" where
  "all_events is = concat (map events is)"

definition options_of :: "item list \<Rightarrow> item list" where
  "options_of is = filter (\<lambda>x. \<not> is_operand x) is"

definition operands_of :: "item list \<Rightarrow> item list" where
  "operands_of is = filter is_operand is"

lemma item_simps [simp]:
  "all_words [] = []" "all_words (x # xs) = words x @ all_words xs"
  "all_events [] = []" "all_events (x # xs) = events x @ all_events xs"
  "options_of [] = []" "options_of (x # xs) = (if is_operand x then options_of xs else x # options_of xs)"
  "operands_of [] = []" "operands_of (x # xs) = (if is_operand x then x # operands_of xs else operands_of xs)"
  by (simp_all add: all_words_def all_events_def options_of_def operands_of_def)

declare scan.simps(2) [simp del]

definition prepend :: "'e list \<Rightarrow> ('e list \<times> 'x) option \<Rightarrow> ('e list \<times> 'x) option" where
  "prepend es r = map_option (\<lambda>(es', x). (es @ es', x)) r"

lemma prepend_simps [simp]: "prepend [] r = r" "prepend a (prepend b r) = prepend (a @ b) r"
  "prepend es (Some (es', x)) = Some (es @ es', x)"
  by (cases r, auto simp: prepend_def split: prod.splits)+

lemma scan_step:
  "call argv os lo li st = Some (rc, argv', Some st') \<Longrightarrow> rc \<noteq> -1 \<Longrightarrow>
    scan (Suc n) argv os lo li st = prepend [(rc, go_optarg st')] (scan n argv' os lo li st')"
  by (cases "scan n argv' os lo li st'") (auto simp: scan.simps(2) prepend_def)

lemma scan_end: "call argv os lo li st = Some (-1, argv', Some st') \<Longrightarrow> scan (Suc n) argv os lo li st = Some ([], argv', st')"
  by (simp add: scan.simps(2))

lemma scan_same: "call argv os lo li st = call argv' os lo li st' \<Longrightarrow> scan (Suc n) argv os lo li st = scan (Suc n) argv' os lo li st'"
  by (simp add: scan.simps(2))

text \<open>Flags of a cluster, one call each.\<close>

lemma scan_flags:
  assumes "in_cluster argv st P N Q e R (fs @ cs)" "\<forall>f \<in> set fs. is_flag os f \<and> schar f \<noteq> -1" "plain_string os"
  shows "\<exists>st'. (if cs = [] \<and> fs \<noteq> [] then at_arg argv st' P N (Q @ [e]) R else in_cluster argv st' P N Q e R cs)
    \<and> (\<forall>n. scan (length fs + n) argv os lo li st = prepend (map (\<lambda>f. (schar f, None)) fs) (scan n argv os lo li st'))"
  using assms
proof (induction fs arbitrary: st)
  case Nil
  then show ?case by auto
next
  case (Cons f fs)
  obtain st1 where s1: "call argv os lo li st = Some (schar f, argv, Some st1)" "go_optarg st1 = None"
    "if fs @ cs = [] then at_arg argv st1 P N (Q @ [e]) R else in_cluster argv st1 P N Q e R (fs @ cs)"
    using call_flag [of argv st P N Q e R f "fs @ cs" os lo li] Cons.prems by auto
  have step: "scan (Suc n) argv os lo li st = prepend [(schar f, None)] (scan n argv os lo li st1)" for n
    using scan_step [OF s1(1)] s1(2) Cons.prems(2) by simp
  show ?case
  proof (cases "fs @ cs = []")
    case True
    then show ?thesis using s1(3) step by (intro exI [of _ st1]) simp
  next
    case False
    then have c: "in_cluster argv st1 P N Q e R (fs @ cs)" using s1(3) by simp
    have fl: "\<forall>f \<in> set fs. is_flag os f \<and> schar f \<noteq> -1" using Cons.prems(2) by simp
    note ih' = Cons.IH [OF c fl Cons.prems(3)]
    then obtain st' where
      ih: "if cs = [] \<and> fs \<noteq> [] then at_arg argv st' P N (Q @ [e]) R else in_cluster argv st' P N Q e R cs"
      "\<forall>n. scan (length fs + n) argv os lo li st1 = prepend (map (\<lambda>f. (schar f, None)) fs) (scan n argv os lo li st')"
      by (elim exE conjE) (rule that)
    have "if cs = [] \<and> f # fs \<noteq> [] then at_arg argv st' P N (Q @ [e]) R else in_cluster argv st' P N Q e R cs"
      using ih(1) False by (cases "cs = []") simp_all
    then show ?thesis using ih(2) step by (intro exI [of _ st']) simp
  qed
qed

text \<open>An option item at the start of a word.\<close>

lemma scan_item:
  assumes "at_arg argv st P N Q (M @ words x @ R)" "\<forall>m \<in> set M. nonoption m" "good_item os x" "\<not> is_operand x"
    "plain_string os" "\<forall>c \<in> set os. schar c \<noteq> -1"
  shows "\<exists>argv' st'. at_arg argv' st' (P @ Q) (N @ M) (words x) R
    \<and> (\<forall>n. scan (length (events x) + n) argv os lo li st = prepend (events x) (scan n argv' os lo li st'))"
proof -
  have first: "\<exists>argv' st'. (\<forall>n. scan (Suc n) argv os lo li st = scan (Suc n) argv' os lo li st')
      \<and> in_cluster argv' st' (P @ Q) (N @ M) [] (DASH # cs) R' cs"
    if "words x @ R = (DASH # cs) # R'" "cs \<noteq> []" "is_flag os (hd cs) \<or> takes_arg os (hd cs)" for cs R'
  proof -
    have a: "at_arg argv st P N Q (M @ (DASH # cs) # R')" using assms(1) that(1) by simp
    have d: "hd cs \<noteq> DASH" "hd cs \<noteq> NUL" using that(3) by (auto simp: is_flag_def takes_arg_def)
    from enter_cluster [OF a assms(2) that(2) d assms(5), of lo li] obtain argv' st' where
      e: "call argv os lo li st = call argv' os lo li st'" "in_cluster argv' st' (P @ Q) (N @ M) [] (DASH # cs) R' cs" by blast
    have "\<forall>n. scan (Suc n) argv os lo li st = scan (Suc n) argv' os lo li st'" using scan_same [OF e(1)] by blast
    then show ?thesis using e(2) by blast
  qed
  have ok: "\<forall>f \<in> set fs. is_flag os f \<and> schar f \<noteq> -1" if "\<forall>f \<in> set fs. is_flag os f" for fs
    using that assms(6) by (auto simp: is_flag_def)
  show ?thesis
  proof (cases x)
    case (Flags fs)
    obtain argv' st' where e: "\<forall>n. scan (Suc n) argv os lo li st = scan (Suc n) argv' os lo li st'"
      "in_cluster argv' st' (P @ Q) (N @ M) [] (DASH # fs) R (fs @ [])"
      using first [of fs R] Flags assms(3) by (cases fs) auto
    from scan_flags [OF e(2) ok assms(5), of lo li] Flags assms(3) obtain st1 where
      f: "at_arg argv' st1 (P @ Q) (N @ M) [DASH # fs] R"
      "\<forall>n. scan (length fs + n) argv' os lo li st' = prepend (map (\<lambda>f. (schar f, None)) fs) (scan n argv' os lo li st1)" by auto
    have "scan (length fs + n) argv os lo li st = scan (length fs + n) argv' os lo li st'" for n
      using e(1) Flags assms(3) by (cases fs) auto
    then show ?thesis using f Flags by (intro exI [of _ argv'] exI [of _ st1]) simp
  next
    case (Attached fs c a)
    have h: "is_flag os (hd (fs @ c # a)) \<or> takes_arg os (hd (fs @ c # a))" using Attached assms(3) by (cases fs) auto
    have m: "schar c \<noteq> -1" using Attached assms(3,6) by (auto simp: takes_arg_def)
    obtain argv' st' where e: "\<forall>n. scan (Suc n) argv os lo li st = scan (Suc n) argv' os lo li st'"
      "in_cluster argv' st' (P @ Q) (N @ M) [] (DASH # fs @ c # a) R (fs @ c # a)"
      using first [of "fs @ c # a" R] h Attached by auto
    from scan_flags [OF e(2) ok assms(5), of lo li] Attached assms(3) obtain st1 where
      f: "in_cluster argv' st1 (P @ Q) (N @ M) [] (DASH # fs @ c # a) R (c # a)"
      "\<forall>n. scan (length fs + n) argv' os lo li st' = prepend (map (\<lambda>f. (schar f, None)) fs) (scan n argv' os lo li st1)" by auto
    from call_attached [OF f(1) _ _ assms(5), of lo li] Attached assms(3) obtain st2 where
      g: "call argv' os lo li st1 = Some (schar c, argv', Some st2)" "go_optarg st2 = Some a"
      "at_arg argv' st2 (P @ Q) (N @ M) [DASH # fs @ c # a] R" by auto
    have "scan (length (events x) + n) argv os lo li st = prepend (events x) (scan n argv' os lo li st2)" for n
      using e(1) f(2) [rule_format, of "Suc n"] scan_step [OF g(1) m] g(2) Attached by simp
    then show ?thesis using g(3) Attached by (intro exI [of _ argv'] exI [of _ st2]) simp
  next
    case (Separate fs c a)
    have h: "is_flag os (hd (fs @ [c])) \<or> takes_arg os (hd (fs @ [c]))" using Separate assms(3) by (cases fs) auto
    have m: "schar c \<noteq> -1" using Separate assms(3,6) by (auto simp: takes_arg_def)
    obtain argv' st' where e: "\<forall>n. scan (Suc n) argv os lo li st = scan (Suc n) argv' os lo li st'"
      "in_cluster argv' st' (P @ Q) (N @ M) [] (DASH # fs @ [c]) (a # R) (fs @ [c])"
      using first [of "fs @ [c]" "a # R"] h Separate by auto
    from scan_flags [OF e(2) ok assms(5), of lo li] Separate assms(3) obtain st1 where
      f: "in_cluster argv' st1 (P @ Q) (N @ M) [] (DASH # fs @ [c]) (a # R) [c]"
      "\<forall>n. scan (length fs + n) argv' os lo li st' = prepend (map (\<lambda>f. (schar f, None)) fs) (scan n argv' os lo li st1)" by auto
    from call_separate [OF f(1) _ assms(5), of lo li] Separate assms(3) obtain st2 where
      g: "call argv' os lo li st1 = Some (schar c, argv', Some st2)" "go_optarg st2 = Some a"
      "at_arg argv' st2 (P @ Q) (N @ M) [DASH # fs @ [c], a] R" by auto
    have "scan (length (events x) + n) argv os lo li st = prepend (events x) (scan n argv' os lo li st2)" for n
      using e(1) f(2) [rule_format, of "Suc n"] scan_step [OF g(1) m] g(2) Separate by simp
    then show ?thesis using g(3) Separate by (intro exI [of _ argv'] exI [of _ st2]) simp
  next
    case (Operand s)
    then show ?thesis using assms(4) by simp
  qed
qed

text \<open>The end of the command line: nothing, or \<open>--\<close> and words that are no options whatever they are.\<close>

definition tail_words :: "string list option \<Rightarrow> string list" where
  "tail_words t = (case t of None \<Rightarrow> [] | Some ws \<Rightarrow> ''--'' # ws)"

definition marker :: "string list option \<Rightarrow> string list" where
  "marker t = (case t of None \<Rightarrow> [] | Some ws \<Rightarrow> [''--''])"

lemma scan_items:
  assumes "at_arg argv st P N Q (M @ all_words is @ tail_words t)" "\<forall>m \<in> set M. nonoption m" "\<forall>x \<in> set is. good_item os x"
    "plain_string os" "\<forall>c \<in> set os. schar c \<noteq> -1"
  shows "\<exists>st'. scan (length (all_events is) + Suc n) argv os lo li st =
      Some (all_events is, P @ Q @ all_words (options_of is) @ marker t @ N @ M @ all_words (operands_of is) @ (case t of None \<Rightarrow> [] | Some ws \<Rightarrow> ws), st')
    \<and> go_optind st' = int (length (P @ Q @ all_words (options_of is) @ marker t)) \<and> go_stderr st' = []"
  using assms
proof (induction "is" arbitrary: argv st P N Q M)
  case Nil
  show ?case
  proof (cases t)
    case None
    then show ?thesis using call_last [of argv st P N Q M os lo li] Nil by (auto simp: tail_words_def marker_def scan_end)
  next
    case (Some ws)
    then show ?thesis using call_dashes [of argv st P N Q M ws os lo li] Nil by (auto simp: tail_words_def marker_def scan_end)
  qed
next
  case (Cons x xs)
  show ?case
  proof (cases "is_operand x")
    case True
    then obtain s where s: "x = Operand s" by (cases x) auto
    have "at_arg argv st P N Q ((M @ [s]) @ all_words xs @ tail_words t)" using Cons.prems(1) s by simp
    from Cons.IH [OF this] Cons.prems s show ?thesis by auto
  next
    case False
    have w: "at_arg argv st P N Q (M @ words x @ (all_words xs @ tail_words t))" using Cons.prems(1) by simp
    have good: "good_item os x" using Cons.prems(3) by simp
    from scan_item [OF w Cons.prems(2) good False Cons.prems(4,5), of lo li]
    obtain argv' st' where
      i: "at_arg argv' st' (P @ Q) (N @ M) (words x) (all_words xs @ tail_words t)"
      "\<forall>n. scan (length (events x) + n) argv os lo li st = prepend (events x) (scan n argv' os lo li st')" by auto
    have "at_arg argv' st' (P @ Q) (N @ M) (words x) ([] @ all_words xs @ tail_words t)" using i(1) by simp
    from Cons.IH [OF this] Cons.prems i(2) [rule_format, of "length (all_events xs) + Suc n"] False
    show ?thesis by (auto simp: add.assoc)
  qed
qed



section \<open>Nothing is lost from argv\<close>

lemma swap_run_mset: "swap_run argv a b i len = Some argv' \<Longrightarrow> mset argv' = mset argv"
proof (induction argv a b i len arbitrary: argv' rule: swap_run.induct)
  case (1 argv a b i len)
  show ?case
  proof (cases "i < len")
    case True
    with "1.prems" obtain x y v w where s: "aget argv (a + i) = Some x" "aget argv (b + i) = Some y"
      "aset argv (a + i) y = Some v" "aset v (b + i) x = Some w" "swap_run w a b (i + 1) len = Some argv'"
      by (subst (asm) swap_run.simps) (auto split: bind_splits)
    have "mset w = mset argv" using s(1-4)
      by (auto simp: aget_def aset_def split: if_splits intro!: mset_swap)
    then show ?thesis using "1.IH" [OF True s(1-4)] s(5) by simp
  next
    case False
    then show ?thesis using "1.prems" by (subst (asm) swap_run.simps) simp
  qed
qed

lemma exchange_loop_mset: "exchange_loop argv b m u = Some argv' \<Longrightarrow> mset argv' = mset argv"
proof (induction argv b m u arbitrary: argv' rule: exchange_loop.induct)
  case (1 argv b m u)
  show ?case
  proof (cases "u > m \<and> m > b")
    case True
    show ?thesis
    proof (cases "u - m > m - b")
      case less: True
      with True "1.prems" obtain v where v: "swap_run argv b (u - (m - b)) 0 (m - b) = Some v"
        "exchange_loop v b m (u - (m - b)) = Some argv'"
        by (auto simp: exchange_loop.simps [of argv b m u] Let_def split: bind_splits)
      then show ?thesis using "1.IH"(1) [OF True less refl v(1) v(2)] swap_run_mset [OF v(1)] by simp
    next
      case ge: False
      with True "1.prems" obtain v where v: "swap_run argv b m 0 (u - m) = Some v"
        "exchange_loop v (b + (u - m)) m u = Some argv'"
        by (auto simp: exchange_loop.simps [of argv b m u] Let_def split: bind_splits)
      then show ?thesis using "1.IH"(2) [OF True ge refl v(1) v(2)] swap_run_mset [OF v(1)] by simp
    qed
  next
    case False
    then show ?thesis using "1.prems" by (auto simp: exchange_loop.simps [of argv b m u])
  qed
qed

lemma exchange_mset: "exchange argv st = Some (argv', st') \<Longrightarrow> mset argv' = mset argv"
  by (auto simp: exchange_def split: bind_splits dest: exchange_loop_mset)

lemma permute_step_mset: "permute_step argv st = Some (argv', st') \<Longrightarrow> mset argv' = mset argv"
  by (auto simp: permute_step_def split: bind_splits if_splits dest: exchange_mset)

lemma end_of_options_mset: "end_of_options argv st = Some (argv', st') \<Longrightarrow> mset argv' = mset argv"
  by (auto simp: end_of_options_def Let_def split: bind_splits if_splits dest: exchange_mset)

section \<open>Messages are only appended\<close>

definition says :: "getopt_state \<Rightarrow> getopt_state \<Rightarrow> bool" where
  "says st st' \<longleftrightarrow> (\<exists>m. go_stderr st' = go_stderr st @ m)"

lemma says_refl [simp]: "go_stderr st' = go_stderr st \<Longrightarrow> says st st'"
  by (simp add: says_def)

lemma says_error [simp]: "says st (opt_error p m st)"
  by (simp add: says_def opt_error_def)

lemma says_trans: "says a b \<Longrightarrow> says b c \<Longrightarrow> says a c"
  by (auto simp: says_def)

lemma opt_error_stderr: "go_stderr (opt_error p m st) = go_stderr st @ (if p then m @ [LF] else [])"
  by (simp add: opt_error_def)

lemma accept_long_says: "accept_long argv os li st pe pre p i rest = Some (c, st') \<Longrightarrow> says st st'"
  by (auto simp: accept_long_def Let_def says_def opt_error_stderr split: if_splits bind_splits option.splits)

lemma process_long_says: "process_long_option argv os los li lo st pe pre = Some (c, st') \<Longrightarrow> says st st'"
  by (auto simp: process_long_option_def Let_def opt_error_stderr says_def
      split: if_splits bind_splits option.splits prod.splits dest!: accept_long_says [unfolded says_def])

lemma short_option_says: "short_option argv os lo li st pe = Some (c, st') \<Longrightarrow> says st st'"
  by (auto simp: short_option_def Let_def opt_error_stderr says_def
      split: if_splits bind_splits option.splits prod.splits dest!: process_long_says [unfolded says_def])

lemma next_argument_says: "next_argument argv os lo li only st pe = Some (c, st') \<Longrightarrow> says st st'"
  by (auto simp: next_argument_def Let_def says_def
      split: if_splits bind_splits option.splits prod.splits
      dest!: process_long_says [unfolded says_def] short_option_says [unfolded says_def])

lemma permute_step_says: "permute_step argv st = Some (argv', st') \<Longrightarrow> go_stderr st' = go_stderr st"
  by (auto simp: permute_step_def exchange_def split: bind_splits if_splits)

lemma end_of_options_says: "end_of_options argv st = Some (argv', st') \<Longrightarrow> go_stderr st' = go_stderr st"
  by (auto simp: end_of_options_def exchange_def Let_def split: bind_splits if_splits)

section \<open>What every call keeps\<close>

lemma new_argument:
  assumes "do {
      (argv, st) \<leftarrow> (if go_ordering st = PERMUTE then permute_step argv st else Some (argv, st));
      (argv, st) \<leftarrow>
        (if go_optind st \<noteq> int (length argv) then do {
           arg \<leftarrow> aget argv (go_optind st);
           if arg = ''--'' then end_of_options argv st else Some (argv, st) }
         else Some (argv, st));
      (code, st) \<leftarrow> next_argument argv os lo li only st pe;
      Some (code, argv, Some st) } = Some (rc, argv', s)"
  shows "mset argv' = mset argv \<and> (\<exists>st'. s = Some st' \<and> says st st')"
proof -
  obtain v1 s1 where 1: "(if go_ordering st = PERMUTE then permute_step argv st else Some (argv, st)) = Some (v1, s1)"
    using assms by (cases "if go_ordering st = PERMUTE then permute_step argv st else Some (argv, st)") auto
  have m1: "mset v1 = mset argv" "go_stderr s1 = go_stderr st"
    using 1 by (auto split: if_splits dest: permute_step_mset permute_step_says)
  obtain v2 s2 where 2: "(if go_optind s1 \<noteq> int (length v1) then do {
           arg \<leftarrow> aget v1 (go_optind s1);
           if arg = ''--'' then end_of_options v1 s1 else Some (v1, s1) } else Some (v1, s1)) = Some (v2, s2)"
    using assms unfolding 1 by (auto simp del: not_None_eq split: bind_splits)
  have m2: "mset v2 = mset v1" "go_stderr s2 = go_stderr s1"
    using 2 by (auto split: if_splits bind_splits dest: end_of_options_mset end_of_options_says)
  obtain c s3 where 3: "next_argument v2 os lo li only s2 pe = Some (c, s3)" "argv' = v2" "s = Some s3"
    using assms unfolding 1 bind.bind_lunit prod.case 2 by (auto split: bind_splits)
  have "says s2 s3" using next_argument_says [OF 3(1)] .
  then show ?thesis using m1 m2 3(2,3) by (simp add: says_def)
qed

lemma internal_result:
  assumes "getopt_internal_r argv os lo li only posix state = Some (rc, argv', state')"
  shows "mset argv' = mset argv
    \<and> (case state of None \<Rightarrow> state' = None | Some st \<Rightarrow> \<exists>st'. state' = Some st' \<and> says st st')"
proof (cases "state = None \<or> argv = []")
  case True
  then show ?thesis using assms by (auto simp: getopt_internal_r_def split: option.splits)
next
  case False
  then obtain st0 where st0: "state = Some st0" "argv \<noteq> []" by auto
  obtain os1 st1 where i: "(if go_optind (st0\<lparr>go_optarg := None\<rparr>) = 0 \<or> \<not> go_initialized (st0\<lparr>go_optarg := None\<rparr>)
      then initialize os (st0\<lparr>go_optarg := None\<rparr>) posix
      else if hd0 os = CHR ''+'' \<or> hd0 os = DASH then (tl os, st0\<lparr>go_optarg := None\<rparr>)
      else (os, st0\<lparr>go_optarg := None\<rparr>)) = (os1, st1)" by fastforce
  have st1: "go_stderr st1 = go_stderr st0" using i by (auto simp: initialize_def Let_def split: if_splits)
  note e = assms [unfolded getopt_internal_r_def st0(1) option.case if_not_P [OF st0(2)] Let_def i prod.case]
  show ?thesis
  proof (cases "go_nextchar st1 = None \<or> go_nextchar st1 = Some []")
    case True
    from new_argument [OF e [unfolded if_P [OF True]]] st0(1) st1 show ?thesis by (auto simp: says_def)
  next
    case False
    then show ?thesis using e st0(1) st1 by (auto simp: says_def split: bind_splits dest!: short_option_says)
  qed
qed

section \<open>The interface with global state\<close>

text \<open>The same loop over \<open>getopt_long\<close>, as the programs write it.\<close>

fun scan_long :: "nat \<Rightarrow> string list \<Rightarrow> string \<Rightarrow> long_option list option \<Rightarrow> bool \<Rightarrow> getopt_globals
    \<Rightarrow> ((int \<times> string option) list \<times> string list \<times> getopt_globals) option" where
  "scan_long 0 argv os lo li g = None"
| "scan_long (Suc n) argv os lo li g = do {
     (rc, argv, g) \<leftarrow> getopt_long argv os lo li g;
     if rc = -1 then Some ([], argv, g)
     else do {
       (es, argv, g') \<leftarrow> scan_long n argv os lo li g;
       Some ((rc, gg_optarg g) # es, argv, g') } }"

lemma skip_nonoptions_mono: "skip_nonoptions argv i = Some j \<Longrightarrow> i \<le> j"
proof (induction argv i arbitrary: j rule: skip_nonoptions.induct)
  case (1 argv i)
  show ?case
  proof (cases "i < int (length argv)")
    case True
    then show ?thesis using 1 by (subst (asm) (2) skip_nonoptions.simps) (fastforce split: bind_splits if_splits)
  next
    case False
    then show ?thesis using "1.prems" by (subst (asm) skip_nonoptions.simps) simp
  qed
qed

definition globals_of :: "getopt_state \<Rightarrow> getopt_globals" where
  "globals_of st = \<lparr>gg_optarg = go_optarg st, gg_optind = go_optind st, gg_opterr = go_opterr st,
     gg_optopt = go_optopt st, gg_state = st\<rparr>"

lemma sync_globals_eq: "sync_globals g st = globals_of st"
  by (simp add: sync_globals_def globals_of_def)

declare scan_long.simps(2) [simp del]

text \<open>The reset on entry is the one the scanner makes itself.\<close>

lemma call_enter:
  assumes "argv \<noteq> []"
  shows "call argv os lo li (enter (globals_of st)) = call argv os lo li st"
proof (cases "go_optind st = 0")
  case True
  then have e: "enter (globals_of st) = st\<lparr>go_optind := 1, go_first_nonopt := 1, go_last_nonopt := 1, go_nextchar := None,
      go_initialized := False\<rparr>" by (simp add: enter_def globals_of_def)
  show ?thesis unfolding e using True assms by (simp add: getopt_internal_r_def initialize_def)
next
  case False
  then show ?thesis by (simp add: enter_def globals_of_def)
qed

lemma call_state: "call argv os lo li st = Some (rc, argv', s) \<Longrightarrow> s \<noteq> None"
  by (drule internal_result) auto

lemma getopt_long_eq:
  "argv \<noteq> [] \<Longrightarrow> getopt_long argv os lo li (globals_of st) =
    map_option (\<lambda>(rc, argv, s). (rc, argv, globals_of (the s))) (call argv os lo li st)"
  using call_state [of argv os lo li st]
  by (cases "call argv os lo li st") (auto simp: getopt_long_def call_enter leave_def sync_globals_eq)

lemma scan_long_eq:
  "argv \<noteq> [] \<Longrightarrow> scan_long n argv os lo li (globals_of st) = map_option (\<lambda>(es, argv, st). (es, argv, globals_of st)) (scan n argv os lo li st)"
proof (induction n arbitrary: argv st)
  case (Suc n)
  show ?case
  proof (cases "call argv os lo li st")
    case None
    then show ?thesis using Suc.prems by (simp add: getopt_long_eq scan.simps(2) scan_long.simps(2))
  next
    case (Some r)
    obtain rc argv' s where r: "r = (rc, argv', s)" by (cases r)
    obtain st' where s: "s = Some st'" using call_state Some r by fastforce
    have a: "argv' \<noteq> []" using internal_result Some r Suc.prems by fastforce
    have "gg_optarg (globals_of st') = go_optarg st'" by (simp add: globals_of_def)
    then show ?thesis using Some r s Suc.prems Suc.IH [OF a, of st']
      by (cases "scan n argv' os lo li st'") (auto simp: getopt_long_eq scan.simps(2) scan_long.simps(2))
  qed
qed simp

lemma call_initial:
  assumes "plain_string os" "argv \<noteq> []"
  shows "call argv os lo li start_state =
    call argv os lo li (start_state\<lparr>go_initialized := True, go_ordering := PERMUTE, go_first_nonopt := 1, go_last_nonopt := 1\<rparr>)"
  using assms by (simp add: getopt_internal_r_def initialize_def plain_string_def start_state_def)


definition operand_words :: "string list option \<Rightarrow> string list" where
  "operand_words t = (case t of None \<Rightarrow> [] | Some ws \<Rightarrow> ws)"

text \<open>C17. A scan of a command line reports the options in the order they are written, with their
  arguments, whatever operands stand between them, and leaves the program name, the option words, the
  \<open>--\<close>, the operands and whatever follows the \<open>--\<close> in this order, with \<open>optind\<close> at the first
  operand and no error message.\<close>

theorem scan_permutes:
  assumes "\<forall>x \<in> set is. good_item os x" "plain_string os" "\<forall>c \<in> set os. schar c \<noteq> -1"
  shows "\<exists>g. scan_long (length (all_events is) + 1) (prog # all_words is @ tail_words t) os lo li start_globals =
      Some (all_events is, prog # all_words (options_of is) @ marker t @ all_words (operands_of is) @ operand_words t, g)
    \<and> gg_optind g = 1 + int (length (all_words (options_of is) @ marker t)) \<and> go_stderr (gg_state g) = []"
proof -
  let ?argv = "prog # all_words is @ tail_words t"
  let ?st = "start_state\<lparr>go_initialized := True, go_ordering := PERMUTE, go_first_nonopt := 1, go_last_nonopt := 1\<rparr>"
  have g: "start_globals = globals_of start_state" by (simp add: start_globals_def globals_of_def start_state_def)
  have "at_arg ?argv ?st [prog] [] [] ([] @ all_words is @ tail_words t)"
    by (simp add: at_arg_def between_def start_state_def)
  from scan_items [OF this _ assms, where n = 0 and lo = lo and li = li] obtain st' where
    s: "scan (length (all_events is) + 1) ?argv os lo li ?st =
      Some (all_events is, prog # all_words (options_of is) @ marker t @ all_words (operands_of is) @ operand_words t, st')"
    "go_optind st' = 1 + int (length (all_words (options_of is) @ marker t))" "go_stderr st' = []" by (auto simp: operand_words_def)
  have "scan (length (all_events is) + 1) ?argv os lo li start_state = scan (length (all_events is) + 1) ?argv os lo li ?st"
    using scan_same [OF call_initial [OF assms(2)]] by simp
  then show ?thesis using s by (intro exI [of _ "globals_of st'"]) (simp add: g scan_long_eq, simp add: globals_of_def)
qed

lemma scan_permutes_witness:
  "\<exists>g. scan_long 5 [''grep'', ''f1'', ''-in'', ''-ex'', ''f2'', ''-e'', ''y'', ''--'', ''-z''] ''ine:'' None False start_globals =
      Some ([(105, None), (110, None), (101, Some ''x''), (101, Some ''y'')],
        [''grep'', ''-in'', ''-ex'', ''-e'', ''y'', ''--'', ''f1'', ''f2'', ''-z''], g)
    \<and> gg_optind g = 6 \<and> go_stderr (gg_state g) = []"
proof -
  let ?is = "[Operand ''f1'', Flags ''in'', Attached [] (CHR ''e'') ''x'', Operand ''f2'', Separate [] (CHR ''e'') ''y'']"
  have c: "schar (CHR ''i'') = 105" "schar (CHR ''n'') = 110" "schar (CHR ''e'') = 101" "schar (CHR '':'') = 58"
    by (simp_all add: schar_def code_def)
  have h: "\<forall>x \<in> set ?is. good_item ''ine:'' x" "plain_string ''ine:''" "\<forall>c \<in> set ''ine:''. schar c \<noteq> -1"
    by (simp_all add: is_flag_def takes_arg_def nonoption_def plain_string_def peek_def c)
  have e: "length (all_events ?is) + 1 = 5" "all_events ?is = [(105, None), (110, None), (101, Some ''x''), (101, Some ''y'')]"
    "''grep'' # all_words ?is @ tail_words (Some [''-z'']) = [''grep'', ''f1'', ''-in'', ''-ex'', ''f2'', ''-e'', ''y'', ''--'', ''-z'']"
    "''grep'' # all_words (options_of ?is) @ marker (Some [''-z'']) @ all_words (operands_of ?is) @ operand_words (Some [''-z'']) =
      [''grep'', ''-in'', ''-ex'', ''-e'', ''y'', ''--'', ''f1'', ''f2'', ''-z'']"
    "1 + int (length (all_words (options_of ?is) @ marker (Some [''-z'']))) = 6"
    by (simp_all add: c tail_words_def marker_def operand_words_def)
  show ?thesis using scan_permutes [OF h, of "''grep''" "Some [''-z'']" None False] unfolding e(1) unfolding e(2) unfolding e(3,4,5) .
qed

section \<open>Which long option a name selects\<close>

datatype resolution = Chosen nat | Ambiguous | Unknown

definition candidates :: "string \<Rightarrow> long_option list \<Rightarrow> nat list" where
  "candidates name ps = filter (\<lambda>i. prefix name (lo_name (ps ! i))) [0..<length ps]"

definition exact_names :: "string \<Rightarrow> long_option list \<Rightarrow> nat list" where
  "exact_names name ps = filter (\<lambda>i. lo_name (ps ! i) = name) [0..<length ps]"

definition resolve :: "string \<Rightarrow> long_option list \<Rightarrow> resolution" where
  "resolve name ps =
     (if exact_names name ps \<noteq> [] then Chosen (hd (exact_names name ps))
      else case candidates name ps of [] \<Rightarrow> Unknown | [i] \<Rightarrow> Chosen i | _ \<Rightarrow> Ambiguous)"

lemma upt_shift: "filter P [0..<Suc n] = (if P 0 then [0] else []) @ map Suc (filter (P \<circ> Suc) [0..<n])"
proof -
  have "[0..<Suc n] = 0 # map Suc [0..<n]" by (simp add: map_Suc_upt upt_conv_Cons del: upt_Suc)
  then show ?thesis by (simp add: filter_map)
qed

lemma exact_names_Cons: "exact_names name (p # ps) = (if lo_name p = name then [0] else []) @ map Suc (exact_names name ps)"
  unfolding exact_names_def list.size add_0_right add_Suc_right upt_shift by (simp add: comp_def)

lemma candidates_Cons: "candidates name (p # ps) = (if prefix name (lo_name p) then [0] else []) @ map Suc (candidates name ps)"
  unfolding candidates_def list.size add_0_right add_Suc_right upt_shift by (simp add: comp_def)

lemma same_name: "length x = length y \<and> take (length y) x = y \<longleftrightarrow> x = y"
  by auto

lemma find_exact_eq:
  "find_exact name ps idx =
    (case exact_names name ps of [] \<Rightarrow> None | i # _ \<Rightarrow> Some (ps ! i, idx + int i))"
proof (induction ps arbitrary: idx)
  case Nil
  then show ?case by (simp add: exact_names_def)
next
  case (Cons p ps)
  then show ?case by (cases "exact_names name ps") (auto simp: same_name exact_names_Cons)
qed

lemma prefix_take: "prefix name x \<longleftrightarrow> take (length name) x = name"
  by (metis prefix_def append_eq_conv_conj take_is_prefix)

lemma find_prefix_eq:
  assumes "exact_names name ps = []"
  shows "find_prefix name ps idx matches exact cand =
    (matches + length (candidates name ps), exact,
     if cand \<noteq> None then cand else case candidates name ps of [] \<Rightarrow> None | i # _ \<Rightarrow> Some (ps ! i, idx + int i))"
  using assms
proof (induction ps arbitrary: idx matches exact cand)
  case Nil
  then show ?case by (cases cand) (simp_all add: candidates_def)
next
  case (Cons p ps)
  have l: "lo_name p \<noteq> name" "exact_names name ps = []" using Cons.prems by (auto simp: exact_names_Cons split: if_splits)
  then have "take (length name) (lo_name p) = name \<Longrightarrow> length (lo_name p) \<noteq> length name" by auto
  then show ?case using Cons.IH [OF l(2)]
    by (cases "candidates name ps") (auto simp: candidates_Cons prefix_take)
qed

lemma candidates_less: "i \<in> set (candidates name ps) \<Longrightarrow> i < length ps"
  by (simp add: candidates_def)

text \<open>The long option that a name selects: the first with exactly this name, otherwise the only one
  whose name it begins; several are reported as ambiguous, none as unrecognized, both with \<open>?\<close>.\<close>

theorem long_option_resolved:
  assumes "go_nextchar st = Some text" "aget argv 0 = Some prog" "aget argv (go_optind st) = Some arg"
    "name = takeWhile (\<lambda>c. c \<noteq> CHR ''='') text"
  shows "process_long_option argv os los li False st pe pre =
    (case resolve name los of
       Chosen i \<Rightarrow> accept_long argv os li st pe pre (los ! i) (int i) (drop (length name) text)
     | Ambiguous \<Rightarrow> Some (schar (CHR ''?''),
         (opt_error pe (prog @ '': option '' @ opt_quoted (pre @ name) @ '' is ambiguous'') st)
         \<lparr>go_nextchar := Some [], go_optind := go_optind st + 1, go_optopt := 0\<rparr>)
     | Unknown \<Rightarrow> Some (schar (CHR ''?''),
         (opt_error pe (prog @ '': unrecognized option '' @ opt_quoted (pre @ name)) st)
         \<lparr>go_nextchar := None, go_optind := go_optind st + 1, go_optopt := 0\<rparr>))"
proof (cases "exact_names name los")
  case Nil
  note p = find_prefix_eq [OF Nil, of 0 0 0 None]
  have f: "find_exact name los 0 = None" by (simp add: find_exact_eq Nil)
  show ?thesis
  proof (cases "candidates name los")
    case n: Nil
    then show ?thesis using assms(1-3) f p Nil
      by (simp add: process_long_option_def assms(4) [symmetric] resolve_def Let_def)
  next
    case (Cons i is1)
    then show ?thesis using assms(1-3) f p Nil
      by (cases is1) (auto simp: process_long_option_def assms(4) [symmetric] resolve_def Let_def)
  qed
next
  case (Cons i is1)
  then have f: "find_exact name los 0 = Some (los ! i, int i)" by (simp add: find_exact_eq)
  then show ?thesis using assms(1,2) Cons
    by (simp add: process_long_option_def assms(4) [symmetric] resolve_def Let_def)
qed

lemma long_option_resolved_witness:
  "process_long_option [''p'', ''--li=3''] ''ab'' [\<lparr>lo_name = ''line'', lo_has_arg = 1, lo_flag = None, lo_val = 7\<rparr>,
      \<lparr>lo_name = ''list'', lo_has_arg = 0, lo_flag = None, lo_val = 8\<rparr>] False False
      (start_state\<lparr>go_nextchar := Some ''li=3''\<rparr>) False ''--'' =
    Some (63, start_state\<lparr>go_nextchar := Some [], go_optind := 2, go_optopt := 0\<rparr>)"
proof -
  let ?st = "start_state\<lparr>go_nextchar := Some ''li=3''\<rparr>"
  let ?los = "[\<lparr>lo_name = ''line'', lo_has_arg = 1, lo_flag = None, lo_val = 7\<rparr>,
    \<lparr>lo_name = ''list'', lo_has_arg = 0, lo_flag = None, lo_val = 8\<rparr>]"
  have h: "go_nextchar ?st = Some ''li=3''" "aget [''p'', ''--li=3''] 0 = Some ''p''"
    "aget [''p'', ''--li=3''] (go_optind ?st) = Some ''--li=3''" "''li'' = takeWhile (\<lambda>c. c \<noteq> CHR ''='') ''li=3''"
    by (simp_all add: start_state_def aget_def)
  have r: "resolve ''li'' ?los = Ambiguous" by (simp add: resolve_def exact_names_Cons candidates_Cons exact_names_def candidates_def)
  show ?thesis using long_option_resolved [OF h, of "''ab''" ?los False False "''--''"]
    by (simp add: r opt_error_def schar_def code_def start_state_def)
qed

text \<open>A call only permutes the arguments: none is lost, changed or duplicated.\<close>

theorem argv_permuted:
  "getopt_long argv os lo li g = Some (rc, argv', g') \<Longrightarrow> mset argv' = mset argv"
  using internal_result by (fastforce simp: getopt_long_def leave_def split: prod.splits)

lemma argv_permuted_witness:
  "mset [''p'', ''-a'', ''f''] = mset [''p'', ''f'', ''-a'']"
proof -
  let ?g = "globals_of (start_state\<lparr>go_optind := 3, go_initialized := True, go_ordering := PERMUTE, go_first_nonopt := 1,
    go_last_nonopt := 2\<rparr>)"
  let ?r = "getopt_long [''p'', ''f'', ''-a''] ''a'' None False ?g"
  have "\<not> Option.is_none ?r" "fst (snd (the ?r)) = [''p'', ''-a'', ''f'']" by code_simp+
  then have "?r = Some (fst (the ?r), [''p'', ''-a'', ''f''], snd (snd (the ?r)))"
    by (cases ?r) (auto simp: Option.is_none_def prod_eq_iff)
  from argv_permuted [OF this] show ?thesis .
qed

end
