(* ===== verification/GrepProps.thy ===== *)
theory GrepProps
  imports Grep GetoptProps BreLiteral
begin

text \<open>
  What \<open>grep\<close> prints. The search for fixed strings finds a line exactly when an occurrence of a pattern with
  the required boundaries exists (\<open>line_matches_literal_eq\<close>); the regular expressions are those of the
  declarative matching relation (\<open>patterns_loop_ok\<close>); the line reader cuts a stream at its newlines
  (\<open>read_line_ok\<close>); and the loops print, for each file, the report of its selected lines. Together with the
  scan of the command line this gives the output and the exit status of \<open>main\<close>.
\<close>

section \<open>Fixed strings\<close>

definition fold_case :: "bool \<Rightarrow> string \<Rightarrow> string" where
  "fold_case icase s = (if icase then map tolower s else s)"

definition occurs :: "bool \<Rightarrow> string \<Rightarrow> string \<Rightarrow> nat \<Rightarrow> bool" where
  "occurs icase line p i \<longleftrightarrow>
     i + length p \<le> length line \<and> fold_case icase (take (length p) (drop i line)) = fold_case icase p"

definition word_at :: "string \<Rightarrow> nat \<Rightarrow> nat \<Rightarrow> bool" where
  "word_at line i n \<longleftrightarrow> n > 0 \<and> (i > 0 \<longrightarrow> \<not> is_word_char (line ! (i - 1)))
     \<and> (i + n < length line \<longrightarrow> \<not> is_word_char (line ! (i + n)))"

definition fixed_matches :: "string \<Rightarrow> string list \<Rightarrow> bool \<Rightarrow> bool \<Rightarrow> bool \<Rightarrow> bool" where
  "fixed_matches line pats icase whole_word whole_line \<longleftrightarrow>
     (\<exists>p \<in> set pats. if whole_line then fold_case icase line = fold_case icase p
        else \<exists>i. occurs icase line p i \<and> (whole_word \<longrightarrow> word_at line i (length p)))"

lemma same_upto_ok:
  assumes "i + n \<le> length a" "n \<le> length b" "j \<le> n"
  shows "\<exists>k \<le> n. same_upto a i b j n = Some k
    \<and> (k = n \<longleftrightarrow> (\<forall>m. j \<le> m \<and> m < n \<longrightarrow> tolower (a ! (i + m)) = tolower (b ! m)))"
  using assms
proof (induction "n - j" arbitrary: j)
  case 0
  then show ?case by (subst same_upto.simps) auto
next
  case (Suc d)
  then have j: "j < n" "d = n - (j + 1)" by auto
  have g: "aget a (int (i + j)) = Some (a ! (i + j))" "aget b (int j) = Some (b ! j)"
    using Suc.prems j by (auto simp: aget_def nat_int_add)
  show ?case
  proof (cases "tolower (a ! (i + j)) = tolower (b ! j)")
    case True
    obtain k where k: "k \<le> n" "same_upto a i b (j + 1) n = Some k"
      "k = n \<longleftrightarrow> (\<forall>m. j + 1 \<le> m \<and> m < n \<longrightarrow> tolower (a ! (i + m)) = tolower (b ! m))"
      using Suc.hyps(1) [OF j(2)] Suc.prems j by auto
    have "(\<forall>m. j + 1 \<le> m \<and> m < n \<longrightarrow> tolower (a ! (i + m)) = tolower (b ! m)) \<longleftrightarrow>
        (\<forall>m. j \<le> m \<and> m < n \<longrightarrow> tolower (a ! (i + m)) = tolower (b ! m))"
      using True by (metis Suc_eq_plus1 Suc_le_eq le_eq_less_or_eq)
    then show ?thesis using k g j True by (intro exI [of _ k]) (subst same_upto.simps, simp)
  next
    case False
    then show ?thesis using g j by (intro exI [of _ j]) (subst same_upto.simps, auto)
  qed
qed

lemma map_take_drop_eq:
  assumes "i + n \<le> length a" "n = length b"
  shows "map f (take n (drop i a)) = map f b \<longleftrightarrow> (\<forall>m < n. f (a ! (i + m)) = f (b ! m))"
  using assms by (auto simp: list_eq_iff_nth_eq)

lemma compare_ok:
  assumes "i + length p \<le> llen" "llen \<le> length line"
  shows "(if \<not> icase then memcmp_eq line i p (length p)
      else do { j \<leftarrow> same_upto line i p 0 (length p); Some (j = length p) }) = Some (occurs icase (take llen line) p i)"
proof -
  have l: "i + length p \<le> length line" using assms by simp
  have t: "take (length p) (drop i (take llen line)) = take (length p) (drop i line)"
    using assms by (simp add: take_drop min_def)
  show ?thesis
  proof (cases icase)
    case True
    obtain k where "same_upto line i p 0 (length p) = Some k"
      "k = length p \<longleftrightarrow> (\<forall>m. 0 \<le> m \<and> m < length p \<longrightarrow> tolower (line ! (i + m)) = tolower (p ! m))"
      using same_upto_ok [OF l, of p 0] by auto
    then show ?thesis using True assms map_take_drop_eq [OF l refl, of tolower] by (simp add: occurs_def t fold_case_def)
  next
    case False
    then show ?thesis using l assms by (simp add: memcmp_eq_def occurs_def t fold_case_def)
  qed
qed

lemma occurs_length: "occurs icase line p i \<Longrightarrow> i + length p \<le> length line"
  by (simp add: occurs_def)

lemma find_loop_ok:
  assumes "llen \<le> length line"
  shows "\<exists>k. find_loop line llen p (length p) i icase = Some k
    \<and> (k = -1 \<and> (\<forall>j \<ge> i. \<not> occurs icase (take llen line) p j)
       \<or> (\<exists>n. k = int n \<and> i \<le> n \<and> occurs icase (take llen line) p n \<and> (\<forall>j. i \<le> j \<and> j < n \<longrightarrow> \<not> occurs icase (take llen line) p j)))"
proof (induction "llen + 1 - i" arbitrary: i)
  case 0
  then have "\<not> i + length p \<le> llen" by simp
  then show ?case using occurs_length [of icase "take llen line" p] assms
    by (subst find_loop.simps) (fastforce)
next
  case (Suc d)
  show ?case
  proof (cases "i + length p \<le> llen")
    case False
    then show ?thesis using occurs_length [of icase "take llen line" p] assms by (subst find_loop.simps) fastforce
  next
    case True
    note c = compare_ok [OF True assms, of icase]
    show ?thesis
    proof (cases "occurs icase (take llen line) p i")
      case yes: True
      then show ?thesis using True c by (subst find_loop.simps) auto
    next
      case no: False
      then have e: "find_loop line llen p (length p) i icase = find_loop line llen p (length p) (i + 1) icase"
        using True c by (subst find_loop.simps) simp
      have "d = llen + 1 - (i + 1)" using Suc.hyps(2) by simp
      from Suc.hyps(1) [OF this] no show ?thesis unfolding e
        by (metis Suc_eq_plus1 Suc_le_eq le_eq_less_or_eq)
    qed
  qed
qed

lemma find_next_ok:
  assumes "llen \<le> length line"
  shows "\<exists>k. literal_find_next line llen p (length p) i icase = Some k
    \<and> (k = -1 \<and> (\<forall>j \<ge> i. \<not> occurs icase (take llen line) p j)
       \<or> (\<exists>n. k = int n \<and> i \<le> n \<and> occurs icase (take llen line) p n \<and> (\<forall>j. i \<le> j \<and> j < n \<longrightarrow> \<not> occurs icase (take llen line) p j)))"
proof -
  consider "p = []" | "p \<noteq> []" "length p > llen" | "p \<noteq> []" "length p \<le> llen" by linarith
  then show ?thesis
  proof cases
    case 1
    then show ?thesis using assms by (auto simp: literal_find_next_def occurs_def fold_case_def)
  next
    case 2
    then show ?thesis using assms by (auto simp: literal_find_next_def occurs_def)
  next
    case 3
    then show ?thesis using find_loop_ok [OF assms, of p i icase] by (simp add: literal_find_next_def)
  qed
qed

lemma boundaries_ok:
  assumes "i + n \<le> llen" "llen \<le> length line" "llen < 2 ^ 64"
  shows "boundaries_are_word line llen i n = Some (word_at (take llen line) i n)"
proof -
  have "int i + int n < 2 ^ 64" using assms by simp
  then have s: "size_add i n = i + n" by (simp add: size_add_def nat_plus_as_int)
  have "i > 0 \<Longrightarrow> aget line (int i - 1) = Some (line ! (i - 1))" "i + n < llen \<Longrightarrow> aget line (int (i + n)) = Some (line ! (i + n))"
    using assms by (auto simp: aget_def nat_diff_distrib nat_int_add)
  then show ?thesis unfolding boundaries_are_word_def s word_at_def using assms by auto
qed

lemma literal_search_ok:
  assumes "llen \<le> length line" "llen < 2 ^ 64"
  shows "literal_search line llen p icase ww pos =
    Some (\<exists>i \<ge> pos. occurs icase (take llen line) p i \<and> (ww \<longrightarrow> word_at (take llen line) i (length p)))"
proof (induction "llen + 1 - pos" arbitrary: pos rule: less_induct)
  case less
  show ?case
  proof (cases "pos \<le> llen")
    case False
    then show ?thesis using occurs_length [of icase "take llen line" p] assms(1) by (subst literal_search.simps) fastforce
  next
    case True
    from find_next_ok [OF assms(1), of p pos icase] show ?thesis
    proof (elim exE conjE disjE)
      fix k assume "literal_find_next line llen p (length p) pos icase = Some k" "k = -1"
        "\<forall>j \<ge> pos. \<not> occurs icase (take llen line) p j"
      then show ?thesis using True by (subst literal_search.simps) auto
    next
      fix k n assume n: "literal_find_next line llen p (length p) pos icase = Some k" "k = int n" "pos \<le> n"
        "occurs icase (take llen line) p n" "\<forall>j. pos \<le> j \<and> j < n \<longrightarrow> \<not> occurs icase (take llen line) p j"
      have b: "boundaries_are_word line llen n (length p) = Some (word_at (take llen line) n (length p))"
        using occurs_length [OF n(4)] assms by (intro boundaries_ok) auto
      show ?thesis
      proof (cases "ww \<longrightarrow> word_at (take llen line) n (length p)")
        case ok: True
        then show ?thesis using True n b by (subst literal_search.simps) auto
      next
        case bad: False
        have "llen + 1 - (n + 1) < llen + 1 - pos" using True n(3) by simp
        then have "literal_search line llen p icase ww (n + 1) =
            Some (\<exists>i \<ge> n + 1. occurs icase (take llen line) p i \<and> (ww \<longrightarrow> word_at (take llen line) i (length p)))"
          by (rule less)
        moreover have "(\<exists>i \<ge> n + 1. occurs icase (take llen line) p i \<and> (ww \<longrightarrow> word_at (take llen line) i (length p))) \<longleftrightarrow>
            (\<exists>i \<ge> pos. occurs icase (take llen line) p i \<and> (ww \<longrightarrow> word_at (take llen line) i (length p)))"
          (is "(\<exists>i \<ge> n + 1. ?P i) \<longleftrightarrow> _")
        proof
          assume "\<exists>i \<ge> pos. ?P i"
          then obtain i where i: "i \<ge> pos" "?P i" by blast
          have "i \<noteq> n" using i(2) bad by auto
          moreover have "\<not> i < n" using i n(5) by blast
          ultimately show "\<exists>i \<ge> n + 1. ?P i" using i(2) by (intro exI [of _ i]) simp
        next
          assume "\<exists>i \<ge> n + 1. ?P i"
          then show "\<exists>i \<ge> pos. ?P i" using n(3) by (meson add_leE le_trans)
        qed
        ultimately show ?thesis using True n(1,2) b bad by (subst literal_search.simps) simp
      qed
    qed
  qed
qed

lemma literal_eq_ok:
  assumes "llen \<le> length line"
  shows "literal_eq_case line llen p (length p) icase = Some (fold_case icase (take llen line) = fold_case icase p)"
proof (cases "llen = length p")
  case True
  have "fold_case icase (take llen line) = fold_case icase p \<longleftrightarrow> occurs icase (take llen line) p 0"
    using True assms by (simp add: occurs_def)
  then show ?thesis using compare_ok [of 0 p llen line icase] True assms by (simp add: literal_eq_case_def split: if_splits)
next
  case False
  then have "length (fold_case icase (take llen line)) \<noteq> length (fold_case icase p)" using assms by (simp add: fold_case_def)
  then have "fold_case icase (take llen line) \<noteq> fold_case icase p" by metis
  then show ?thesis using False by (simp add: literal_eq_case_def)
qed

lemma line_matches_literal_eq:
  assumes "llen \<le> length line" "llen < 2 ^ 64"
  shows "line_matches_literal line llen pats icase ww wl = Some (fixed_matches (take llen line) pats icase ww wl)"
  by (induction pats) (auto simp: fixed_matches_def literal_eq_ok [OF assms(1)] literal_search_ok [OF assms])

section \<open>Lines\<close>

text \<open>The lines of a file, each with its newline; the last may lack it.\<close>

fun lines_of :: "string \<Rightarrow> string list" where
  "lines_of [] = []"
| "lines_of (c # f) =
     (if c = LF then [LF] # lines_of f
      else case lines_of f of [] \<Rightarrow> [[c]] | l # ls \<Rightarrow> (c # l) # ls)"

lemma lines_of_Nil [simp]: "lines_of f = [] \<longleftrightarrow> f = []"
  by (cases f) (auto split: list.splits)

lemma grep_read_loop_ok:
  assumes "length buf < cap" "f \<noteq> []" "2 \<le> cap"
  shows "\<exists>l r cap'. grep_read_loop f buf cap = Some (True, buf @ l, cap', r) \<and> lines_of f = l # lines_of r \<and> 2 \<le> cap'"
  using assms
proof (induction f arbitrary: buf cap)
  case (Cons c f)
  let ?cap = "if length buf + 1 \<ge> cap then cap * 2 else cap"
  have k: "length buf < ?cap" "length buf + 1 < ?cap" "2 \<le> ?cap" using Cons.prems by auto
  show ?case
  proof (cases "c = LF")
    case True
    then show ?thesis using k by (auto simp: Let_def)
  next
    case False
    show ?thesis
    proof (cases "f = []")
      case True
      then show ?thesis using k False by (auto simp: Let_def)
    next
      case ne: False
      have "length (buf @ [c]) < ?cap" using k by simp
      from Cons.IH [OF this ne k(3)] obtain l r cap' where
        "grep_read_loop f (buf @ [c]) ?cap = Some (True, (buf @ [c]) @ l, cap', r)" "lines_of f = l # lines_of r" "2 \<le> cap'" by blast
      then show ?thesis using k False by (auto simp: Let_def)
    qed
  qed
qed simp

lemma read_line_Nil: "\<exists>cap'. read_line [] cap = Some (False, [], cap', [])"
  by (simp add: read_line_def)

lemma read_line_ok:
  assumes "f \<noteq> []" "cap \<noteq> 1"
  shows "\<exists>l r cap'. read_line f cap = Some (True, l, cap', r) \<and> lines_of f = l # lines_of r \<and> cap' \<noteq> 1 \<and> length r < length f"
proof -
  have "2 \<le> (if cap = 0 then 256 else cap)" using assms(2) by auto
  moreover have "length [] < (if cap = 0 then 256 else cap)" by simp
  ultimately obtain l r cap' where
    "read_line f cap = Some (True, l, cap', r)" "lines_of f = l # lines_of r" "2 \<le> cap'"
    unfolding read_line_def using grep_read_loop_ok [of "[]" _ f] assms(1) by (metis append_Nil)
  then show ?thesis using read_line_less by fastforce
qed

section \<open>The report of a file\<close>

definition selected :: "GrepOptions \<Rightarrow> (string \<Rightarrow> bool) \<Rightarrow> string \<Rightarrow> bool" where
  "selected o1 m line \<longleftrightarrow> m line \<noteq> opt_v o1"

definition line_text :: "string \<Rightarrow> bool \<Rightarrow> bool \<Rightarrow> nat \<Rightarrow> string \<Rightarrow> string" where
  "line_text fname multiple show_lineno k line =
     (if multiple then fname @ '':'' else []) @ (if show_lineno then show_nat k @ '':'' else [])
     @ line @ (if line = [] \<or> last line \<noteq> LF then [LF] else [])"

text \<open>The text printed for the selected lines, numbered from \<open>k\<close>.\<close>

fun lines_text :: "GrepOptions \<Rightarrow> (string \<Rightarrow> bool) \<Rightarrow> string \<Rightarrow> bool \<Rightarrow> nat \<Rightarrow> string list \<Rightarrow> string" where
  "lines_text o1 sel fname multiple k [] = []"
| "lines_text o1 sel fname multiple k (l # ls) =
     (if sel l then line_text fname multiple (opt_n o1) k l else []) @ lines_text o1 sel fname multiple (k + 1) ls"

text \<open>What is printed for a file with the lines \<open>ls\<close>: its name with \<open>-l\<close>, a count with \<open>-c\<close>, otherwise the
  lines.\<close>

definition report :: "GrepOptions \<Rightarrow> (string \<Rightarrow> bool) \<Rightarrow> bool \<Rightarrow> string \<Rightarrow> string list \<Rightarrow> string" where
  "report o1 sel multiple fname ls =
     (if opt_l o1 then (if \<exists>l \<in> set ls. sel l then fname @ [LF] else [])
      else if opt_c o1 then (if multiple then fname @ '':'' else []) @ show_nat (length (filter sel ls)) @ [LF]
      else lines_text o1 sel fname multiple 1 ls)"

lemma put_out_simps [simp]: "put_out [] w = w" "put_out a (put_out b w) = put_out (b @ a) w"
  "gw_files (put_out a w) = gw_files w" "gw_stdin (put_out a w) = gw_stdin w"
  by (simp_all add: put_out_def)

lemma print_eq: "print_matched_line fname mul show k l w = put_out (line_text fname mul show k l) w"
  by (simp add: print_matched_line_def line_text_def)

lemma lines_loop_ok:
  assumes "\<forall>l \<in> set (lines_of f). matcher l = Some (m l)" "\<not> opt_q o1" "cap \<noteq> 1"
  shows "\<exists>rest. lines_loop o1 matcher fname mul f cap k n any w = Some (False, rest,
      (if \<not> opt_l o1 \<and> opt_c o1 then n + length (filter (selected o1 m) (lines_of f)) else n),
      any \<or> (\<exists>l \<in> set (lines_of f). selected o1 m l),
      put_out (if opt_l o1 then (if \<exists>l \<in> set (lines_of f). selected o1 m l then fname @ [LF] else [])
        else if opt_c o1 then [] else lines_text o1 (selected o1 m) fname mul (k + 1) (lines_of f)) w)"
  using assms(1,3)
proof (induction "length f" arbitrary: f cap k n any w rule: less_induct)
  case less
  show ?case
  proof (cases "f = []")
    case True
    then show ?thesis using read_line_Nil [of cap] by (subst lines_loop.simps) auto
  next
    case False
    from read_line_ok [OF False less.prems(2)] obtain l r cap' where
      r: "read_line f cap = Some (True, l, cap', r)" "lines_of f = l # lines_of r" "cap' \<noteq> 1" "length r < length f" by blast
    have m: "matcher l = Some (m l)" using less.prems(1) r(2) by simp
    have "\<forall>l \<in> set (lines_of r). matcher l = Some (m l)" using less.prems(1) r(2) by simp
    note ih = less.hyps [OF r(4) this r(3)]
    have s: "selected o1 m l \<longleftrightarrow> m l \<noteq> opt_v o1" by (simp add: selected_def)
    consider "m l = opt_v o1" | "m l \<noteq> opt_v o1" "opt_l o1" | "m l \<noteq> opt_v o1" "\<not> opt_l o1" "opt_c o1"
      | "m l \<noteq> opt_v o1" "\<not> opt_l o1" "\<not> opt_c o1" by blast
    then show ?thesis
    proof cases
      case 1
      then have "lines_loop o1 matcher fname mul f cap k n any w = lines_loop o1 matcher fname mul r cap' (k + 1) n any w"
        using m r(1) by (subst lines_loop.simps) simp
      moreover from ih [of "k + 1" n any w] obtain rest where "lines_loop o1 matcher fname mul r cap' (k + 1) n any w = Some (False, rest,
          (if \<not> opt_l o1 \<and> opt_c o1 then n + length (filter (selected o1 m) (lines_of r)) else n),
          any \<or> (\<exists>l \<in> set (lines_of r). selected o1 m l),
          put_out (if opt_l o1 then (if \<exists>l \<in> set (lines_of r). selected o1 m l then fname @ [LF] else [])
            else if opt_c o1 then [] else lines_text o1 (selected o1 m) fname mul (k + 1 + 1) (lines_of r)) w)" by blast
      ultimately show ?thesis using s 1 by (intro exI [of _ rest]) (simp only: r(2), simp)
    next
      case 2
      then show ?thesis using m r(1,2) assms(2) s by (subst lines_loop.simps) simp
    next
      case 3
      then have "lines_loop o1 matcher fname mul f cap k n any w = lines_loop o1 matcher fname mul r cap' (k + 1) (n + 1) True w"
        using m r(1) assms(2) by (subst lines_loop.simps) simp
      then show ?thesis using ih [of "k + 1" "n + 1" True w] s 3 by (simp add: r(2))
    next
      case 4
      let ?w = "print_matched_line fname mul (opt_n o1) (k + 1) l w"
      have "lines_loop o1 matcher fname mul f cap k n any w = lines_loop o1 matcher fname mul r cap' (k + 1) n True ?w"
        using 4 m r(1) assms(2) by (subst lines_loop.simps) simp
      then show ?thesis using ih [of "k + 1" n True ?w] s 4 by (simp add: r(2) print_eq)
    qed
  qed
qed

text \<open>With \<open>-q\<close> the loop ends the program at the first selected line and prints nothing.\<close>

lemma lines_loop_quiet:
  assumes "\<forall>l \<in> set (lines_of f). matcher l = Some (m l)" "opt_q o1" "cap \<noteq> 1"
  shows "\<exists>rest. lines_loop o1 matcher fname mul f cap k n any w =
    Some (\<exists>l \<in> set (lines_of f). selected o1 m l, rest, n, any \<or> (\<exists>l \<in> set (lines_of f). selected o1 m l), w)"
  using assms(1,3)
proof (induction "length f" arbitrary: f cap k rule: less_induct)
  case less
  show ?case
  proof (cases "f = []")
    case True
    then show ?thesis using read_line_Nil [of cap] by (subst lines_loop.simps) auto
  next
    case False
    from read_line_ok [OF False less.prems(2)] obtain l r cap' where
      r: "read_line f cap = Some (True, l, cap', r)" "lines_of f = l # lines_of r" "cap' \<noteq> 1" "length r < length f" by blast
    have m: "matcher l = Some (m l)" using less.prems(1) r(2) by simp
    have "\<forall>l \<in> set (lines_of r). matcher l = Some (m l)" using less.prems(1) r(2) by simp
    note ih = less.hyps [OF r(4) this r(3)]
    have s: "selected o1 m l \<longleftrightarrow> m l \<noteq> opt_v o1" by (simp add: selected_def)
    show ?thesis
    proof (cases "m l = opt_v o1")
      case True
      then have "lines_loop o1 matcher fname mul f cap k n any w = lines_loop o1 matcher fname mul r cap' (k + 1) n any w"
        using m r(1) by (subst lines_loop.simps) simp
      then show ?thesis using ih [of "k + 1"] s True by (simp add: r(2))
    next
      case False
      then show ?thesis using m r(1,2) assms(2) s by (subst lines_loop.simps) simp
    qed
  qed
qed

section \<open>All files\<close>

definition missing_text :: "string \<Rightarrow> GrepWorld \<Rightarrow> string list \<Rightarrow> string" where
  "missing_text e w fs = concat (map (\<lambda>f. ''grep: '' @ f @ '': '' @ e @ [LF]) (filter (\<lambda>f. gw_files w f = None) fs))"

definition file_lines :: "GrepWorld \<Rightarrow> string \<Rightarrow> string list" where
  "file_lines w f = (case gw_files w f of None \<Rightarrow> [] | Some t \<Rightarrow> lines_of t)"

definition readable :: "GrepWorld \<Rightarrow> string list \<Rightarrow> string list" where
  "readable w fs = filter (\<lambda>f. gw_files w f \<noteq> None) fs"

lemma files_loop_ok:
  assumes "\<forall>f \<in> set fs. f \<noteq> ''-'' \<and> (\<forall>l \<in> set (file_lines w f). matcher l = Some (m l))" "\<not> opt_q o1"
  shows "files_loop o1 matcher mul fs any err w = Some
    (Inr (any \<or> (\<exists>f \<in> set fs. \<exists>l \<in> set (file_lines w f). selected o1 m l), err \<or> (\<exists>f \<in> set fs. gw_files w f = None)),
     w\<lparr>gw_stdout := gw_stdout w @ concat (map (\<lambda>f. report o1 (selected o1 m) mul f (file_lines w f)) (readable w fs)),
       gw_stderr := gw_stderr w @ (if opt_s o1 then [] else missing_text (gw_errno w) w fs)\<rparr>)"
  using assms(1)
proof (induction fs arbitrary: any err w)
  case Nil
  then show ?case by (simp add: readable_def missing_text_def)
next
  case (Cons f fs)
  show ?case
  proof (cases "gw_files w f")
    case None
    let ?w = "cannot_open f (opt_s o1) w"
    have same: "file_lines ?w = file_lines w" "gw_files ?w = gw_files w" "gw_errno ?w = gw_errno w" "gw_stdout ?w = gw_stdout w"
      "readable ?w = readable w" "missing_text e ?w = missing_text e w" for e
      by (auto simp: fun_eq_iff cannot_open_def put_err_def file_lines_def readable_def missing_text_def)
    have "\<forall>f \<in> set fs. f \<noteq> ''-'' \<and> (\<forall>l \<in> set (file_lines ?w f). matcher l = Some (m l))" using Cons.prems by (simp add: same)
    from Cons.IH [OF this, of any True] show ?thesis
      using None Cons.prems by (simp add: open_stream_def same readable_def missing_text_def file_lines_def)
        (simp add: cannot_open_def put_err_def)
  next
    case (Some t)
    let ?L = "lines_of t" let ?s = "selected o1 m"
    have l: "\<forall>l \<in> set ?L. matcher l = Some (m l)" using Cons.prems Some by (simp add: file_lines_def)
    obtain rest where r: "lines_loop o1 matcher f mul t 0 0 0 any w = Some (False, rest,
        (if \<not> opt_l o1 \<and> opt_c o1 then length (filter ?s ?L) else 0), any \<or> (\<exists>l \<in> set ?L. ?s l),
        put_out (if opt_l o1 then (if \<exists>l \<in> set ?L. ?s l then f @ [LF] else [])
          else if opt_c o1 then [] else lines_text o1 ?s f mul 1 ?L) w)"
      using lines_loop_ok [OF l assms(2), of 0 f mul 0 0 any w] by auto
    let ?w = "put_out (report o1 ?s mul f ?L) w"
    have same: "file_lines ?w = file_lines w" "readable ?w = readable w" "missing_text e ?w = missing_text e w" for e
      by (auto simp: fun_eq_iff file_lines_def readable_def missing_text_def)
    have "files_loop o1 matcher mul (f # fs) any err w = files_loop o1 matcher mul fs (any \<or> (\<exists>l \<in> set ?L. ?s l)) err ?w"
      using Some r Cons.prems by (simp add: open_stream_def close_stream_def report_def)
    moreover have "\<forall>f \<in> set fs. f \<noteq> ''-'' \<and> (\<forall>l \<in> set (file_lines ?w f). matcher l = Some (m l))" using Cons.prems by (simp add: same)
    note Cons.IH [OF this, of "any \<or> (\<exists>l \<in> set ?L. ?s l)" err]
    ultimately show ?thesis using Some
      by (simp add: same) (auto simp add: put_out_def file_lines_def readable_def missing_text_def)
  qed
qed

lemma files_loop_quiet:
  assumes "\<forall>f \<in> set fs. f \<noteq> ''-'' \<and> (\<forall>l \<in> set (file_lines w f). matcher l = Some (m l))" "opt_q o1" "\<not> opt_c o1"
  shows "\<exists>w'. files_loop o1 matcher mul fs False err w = Some
    (if \<exists>f \<in> set fs. \<exists>l \<in> set (file_lines w f). selected o1 m l then Inl 0
     else Inr (False, err \<or> (\<exists>f \<in> set fs. gw_files w f = None)), w') \<and> gw_stdout w' = gw_stdout w"
  using assms(1)
proof (induction fs arbitrary: err w)
  case Nil
  then show ?case by simp
next
  case (Cons f fs)
  show ?case
  proof (cases "gw_files w f")
    case None
    let ?w = "cannot_open f (opt_s o1) w"
    have same: "file_lines ?w = file_lines w" "gw_files ?w = gw_files w" "gw_stdout ?w = gw_stdout w"
      by (auto simp: fun_eq_iff cannot_open_def put_err_def file_lines_def)
    have "\<forall>f \<in> set fs. f \<noteq> ''-'' \<and> (\<forall>l \<in> set (file_lines ?w f). matcher l = Some (m l))" using Cons.prems by (simp add: same)
    note ih = Cons.IH [OF this, of True, unfolded same]
    have e: "file_lines w f = []" "f \<noteq> ''-''" using None Cons.prems by (simp_all add: file_lines_def)
    then have "files_loop o1 matcher mul (f # fs) False err w = files_loop o1 matcher mul fs False True ?w"
      using None by (simp add: open_stream_def)
    then show ?thesis using ih e(1) None by (cases "\<exists>f \<in> set fs. \<exists>l \<in> set (file_lines w f). selected o1 m l") simp_all
  next
    case (Some t)
    let ?L = "lines_of t" let ?s = "selected o1 m"
    have fl: "file_lines w f = ?L" "f \<noteq> ''-''" using Some Cons.prems by (simp_all add: file_lines_def)
    have l: "\<forall>l \<in> set ?L. matcher l = Some (m l)" using Cons.prems Some by (simp add: file_lines_def)
    obtain rest where r: "lines_loop o1 matcher f mul t 0 0 0 False w =
        Some (\<exists>l \<in> set ?L. ?s l, rest, 0, \<exists>l \<in> set ?L. ?s l, w)"
      using lines_loop_quiet [OF l assms(2), of 0 f mul 0 0 False w] by auto
    show ?thesis
    proof (cases "\<exists>l \<in> set ?L. ?s l")
      case True
      then show ?thesis using Some r fl by (simp add: open_stream_def close_stream_def)
    next
      case False
      have "\<forall>f \<in> set fs. f \<noteq> ''-'' \<and> (\<forall>l \<in> set (file_lines w f). matcher l = Some (m l))" using Cons.prems by simp
      from Cons.IH [OF this, of err] False Some r fl assms(3) show ?thesis
        by (cases "\<exists>f \<in> set fs. \<exists>l \<in> set (file_lines w f). selected o1 m l") (simp_all add: open_stream_def close_stream_def)
    qed
  qed
qed

section \<open>The options\<close>

lemma getopt_long_says:
  assumes "getopt_long argv os lo li g = Some (rc, argv', g')"
  shows "mset argv' = mset argv \<and> (\<exists>m. go_stderr (gg_state g') = go_stderr (gg_state g) @ m)"
proof -
  have e: "go_stderr (enter g) = go_stderr (gg_state g)" by (simp add: enter_def)
  obtain s where s: "getopt_internal_r argv os lo li False False (Some (enter g)) = Some (rc, argv', s)"
    "g' = (case s of None \<Rightarrow> g | Some s \<Rightarrow> sync_globals g s)"
    using assms by (auto simp: getopt_long_def leave_def split: prod.splits)
  from internal_result [OF s(1)] s(2) e show ?thesis by (auto simp: says_def sync_globals_def)
qed

lemma scan_long_says:
  "scan_long n argv os lo li g = Some (es, argv', g') \<Longrightarrow> \<exists>m. go_stderr (gg_state g') = go_stderr (gg_state g) @ m"
proof (induction n arbitrary: argv g es)
  case (Suc n)
  then obtain rc v g1 where g: "getopt_long argv os lo li g = Some (rc, v, g1)"
    and r: "if rc = -1 then g' = g1 else \<exists>es'. scan_long n v os lo li g1 = Some (es', argv', g')"
    by (auto simp: scan_long.simps(2) split: bind_splits if_splits)
  show ?case
  proof (cases "rc = -1")
    case True
    then show ?thesis using getopt_long_says [OF g] r by simp
  next
    case False
    then obtain es' where "scan_long n v os lo li g1 = Some (es', argv', g')" using r by auto
    from Suc.IH [OF this] getopt_long_says [OF g] show ?thesis by auto
  qed
qed simp

definition flag_code :: "int \<Rightarrow> bool" where
  "flag_code c \<longleftrightarrow> set_flag c no_options \<noteq> None"

lemma flag_code_set: "flag_code c \<Longrightarrow> \<exists>o2. set_flag c o1 = Some o2"
  by (auto simp: flag_code_def set_flag_def split: if_splits)

definition apply_flags :: "(int \<times> string option) list \<Rightarrow> GrepOptions \<Rightarrow> GrepOptions" where
  "apply_flags es o1 = fold (\<lambda>e o1. the (set_flag (fst e) o1)) es o1"

lemma options_loop_scan:
  assumes "scan_long n argv grep_optstring (Some grep_longopts) False g = Some (es, argv', g')" "argv \<noteq> []"
    "go_stderr (gg_state g') = go_stderr (gg_state g)" "\<forall>e \<in> set es. flag_code (fst e)"
  shows "options_loop n argv g o1 w = Some (Inr (argv', gg_optind g', apply_flags es o1), w)"
  using assms
proof (induction n arbitrary: argv g es o1 w)
  case (Suc n)
  let ?get = "\<lambda>argv g. getopt_long argv grep_optstring (Some grep_longopts) False g"
  from Suc.prems(1) obtain rc v g1 where g: "?get argv g = Some (rc, v, g1)"
    and r: "if rc = -1 then es = [] \<and> v = argv' \<and> g' = g1
      else \<exists>es'. scan_long n v grep_optstring (Some grep_longopts) False g1 = Some (es', argv', g') \<and> es = (rc, gg_optarg g1) # es'"
    by (auto simp: scan_long.simps(2) split: bind_splits if_splits)
  have v: "v \<noteq> []" using getopt_long_says [OF g] Suc.prems(2) by auto
  then obtain prog where p: "aget v 0 = Some prog" by (cases v) (auto simp: aget_def)
  obtain m where m: "go_stderr (gg_state g1) = go_stderr (gg_state g) @ m" using getopt_long_says [OF g] by auto
  show ?case
  proof (cases "rc = -1")
    case True
    then have "m = []" using r m Suc.prems(3) by simp
    then show ?thesis using g r True m by (simp add: put_err_def apply_flags_def)
  next
    case False
    then obtain es' where s: "scan_long n v grep_optstring (Some grep_longopts) False g1 = Some (es', argv', g')"
      "es = (rc, gg_optarg g1) # es'" using r by auto
    have q: "m = []" "go_stderr (gg_state g') = go_stderr (gg_state g1)" using scan_long_says [OF s(1)] m Suc.prems(3) by auto
    obtain o2 where o2: "set_flag rc o1 = Some o2" using flag_code_set Suc.prems(4) s(2) by fastforce
    have "options_loop n v g1 o2 w = Some (Inr (argv', gg_optind g', apply_flags es' o2), w)"
      by (rule Suc.IH [OF s(1) v q(2)]) (use Suc.prems(4) s(2) in auto)
    then show ?thesis using g False m q(1) p o2 s(2)
      by (simp add: put_err_def option_case_def apply_flags_def)
  qed
qed simp

section \<open>The whole program, with fixed strings\<close>

definition content :: "string \<Rightarrow> string" where
  "content line = take (content_length line) line"

lemma content_length_le: "content_length line \<le> length line"
  by (simp add: content_length_def)

lemma lines_of_length: "l \<in> set (lines_of f) \<Longrightarrow> length l \<le> length f"
  by (induction f arbitrary: l rule: lines_of.induct) (auto split: if_splits list.splits intro: le_SucI)

lemma match_line_fixed:
  assumes "opt_F o1" "length line < 2 ^ 64"
  shows "match_line o1 patterns rp line =
    Some (fixed_matches (content line) (sv_items patterns) (opt_i o1) (opt_w o1) (opt_x o1))"
  using line_matches_literal_eq [of "content_length line" line] content_length_le [of line] assms
  by (simp add: match_line_def content_def)

lemma apply_flags_patterns:
  "\<forall>e \<in> set es. flag_code (fst e) \<Longrightarrow>
    e_patterns (apply_flags es o1) = e_patterns o1 \<and> f_patterns (apply_flags es o1) = f_patterns o1"
proof (induction es arbitrary: o1)
  case Nil
  then show ?case by (simp add: apply_flags_def)
next
  case (Cons e es)
  then obtain o2 where o2: "set_flag (fst e) o1 = Some o2" using flag_code_set by fastforce
  then have "e_patterns o2 = e_patterns o1 \<and> f_patterns o2 = f_patterns o1" by (auto simp: set_flag_def split: if_splits)
  moreover have "apply_flags (e # es) o1 = apply_flags es o2" using o2 by (simp add: apply_flags_def)
  ultimately show ?case using Cons.IH [of o2] Cons.prems by simp
qed

definition exit_status :: "bool \<Rightarrow> bool \<Rightarrow> int" where
  "exit_status some_missing some_selected = (if some_missing then 2 else if some_selected then 0 else 1)"

lemma run_grep_fixed:
  assumes "opt_F o1" "\<not> opt_q o1" "vec_size (e_patterns o1) = 0" "vec_size (f_patterns o1) = 0" "A \<noteq> []" "fs \<noteq> []"
    "\<forall>f \<in> set fs. f \<noteq> ''-''" "\<forall>f t. gw_files w f = Some t \<longrightarrow> length t < 2 ^ 64"
    "sel = selected o1 (\<lambda>l. fixed_matches (content l) [pat] (opt_i o1) (opt_w o1) (opt_x o1))"
  shows "run_grep (A @ pat # fs) (int (length A)) o1 w = Some
    (exit_status (\<exists>f \<in> set fs. gw_files w f = None) (\<exists>f \<in> set fs. \<exists>l \<in> set (file_lines w f). sel l),
     w\<lparr>gw_stdout := gw_stdout w @ concat (map (\<lambda>f. report o1 sel (length fs > 1) f (file_lines w f)) (readable w fs)),
       gw_stderr := gw_stderr w @ (if opt_s o1 then [] else missing_text (gw_errno w) w fs)\<rparr>)"
proof -
  obtain prog where p: "aget (A @ pat # fs) 0 = Some prog" using assms(5) by (cases A) (auto simp: aget_def)
  have a: "aget (A @ pat # fs) (int (length A)) = Some pat" by (rule aget_mid) simp
  let ?v = "\<lparr>sv_items = [pat], sv_capacity = 8\<rparr>" let ?rp = "\<lparr>rp_raw = vec_init, rp_lower = vec_init\<rparr>"
  have v: "vec_push vec_init pat = Some ?v" by (simp add: vec_push_def vec_init_def vec_size_def Let_def)
  have d: "nat (int (length A) + 1) = Suc (length A)" by simp
  let ?m = "\<lambda>l. fixed_matches (content l) [pat] (opt_i o1) (opt_w o1) (opt_x o1)"
  have "match_line o1 ?v ?rp l = Some (?m l)" if h: "l \<in> set (file_lines w f)" for f l
  proof -
    obtain t where "gw_files w f = Some t" "l \<in> set (lines_of t)"
      using h by (cases "gw_files w f") (auto simp: file_lines_def)
    then have "length l < 2 ^ 64" using lines_of_length [of l t] assms(8) by fastforce
    then show ?thesis using match_line_fixed [OF assms(1)] by simp
  qed
  then have f: "\<forall>f \<in> set fs. f \<noteq> ''-'' \<and> (\<forall>l \<in> set (file_lines w f). match_line o1 ?v ?rp l = Some (?m l))"
    using assms(7) by blast
  have "run_grep (A @ pat # fs) (int (length A)) o1 w = do {
      (r, w) \<leftarrow> files_loop o1 (match_line o1 ?v ?rp) (length fs > 1) fs False False w;
      Some (case r of Inl status \<Rightarrow> status | Inr (any, err) \<Rightarrow> if err then 2 else if any then 0 else 1, w) }"
    using p a v assms(1,3,4,6) by (simp add: run_grep_def vec_size_def Let_def d)
  then show ?thesis using files_loop_ok [OF f assms(2), of "length fs > 1" False False]
    by (simp only:) (simp add: exit_status_def assms(9))
qed

definition sample_world :: GrepWorld where
  "sample_world = \<lparr>gw_files = [''f'' \<mapsto> [CHR ''A'', LF, CHR ''b'', LF, CHR ''a'']], gw_stdin = [], gw_stdout = [],
     gw_stderr = [], gw_errno = ''none''\<rparr>"

text \<open>
  C23. The whole program with fixed strings: on a command line of flags, a pattern and files, \<open>main\<close> prints for
  each readable file the report of exactly the lines that contain the pattern as the flags ask (upper and
  lower case, whole words, whole lines, inverted; as lines, numbered lines, counts or file names), a message
  for each other file, and exits with 2 when a file could not be read, otherwise with 0 or 1 as a line was
  selected or not.
\<close>

theorem grep_reports:
  assumes "\<forall>x \<in> set is. good_item grep_optstring x" "\<forall>e \<in> set (all_events is). flag_code (fst e)"
    "o1 = apply_flags (all_events is) no_options" "opt_F o1" "\<not> opt_E o1" "\<not> opt_q o1"
    "all_words (operands_of is) @ operand_words t = pat # fs" "fs \<noteq> []" "\<forall>f \<in> set fs. f \<noteq> ''-''"
    "\<forall>f t. gw_files w f = Some t \<longrightarrow> length t < 2 ^ 64"
    "sel = selected o1 (\<lambda>l. fixed_matches (content l) [pat] (opt_i o1) (opt_w o1) (opt_x o1))"
  shows "grep_main (length (all_events is) + 1) (prog # all_words is @ tail_words t) w = Some
    (exit_status (\<exists>f \<in> set fs. gw_files w f = None) (\<exists>f \<in> set fs. \<exists>l \<in> set (file_lines w f). sel l),
     w\<lparr>gw_stdout := gw_stdout w @ concat (map (\<lambda>f. report o1 sel (length fs > 1) f (file_lines w f)) (readable w fs)),
       gw_stderr := gw_stderr w @ (if opt_s o1 then [] else missing_text (gw_errno w) w fs)\<rparr>)"
proof -
  have os: "plain_string grep_optstring" "\<forall>c \<in> set grep_optstring. schar c \<noteq> -1"
    by (simp_all add: grep_optstring_def plain_string_def schar_def code_def)
  let ?A = "prog # all_words (options_of is) @ marker t"
  from scan_permutes [OF assms(1) os, where prog = prog and t = t and lo = "Some grep_longopts" and li = False]
  obtain g where g: "scan_long (length (all_events is) + 1) (prog # all_words is @ tail_words t) grep_optstring
      (Some grep_longopts) False start_globals = Some (all_events is, ?A @ pat # fs, g)"
    "gg_optind g = int (length ?A)" "go_stderr (gg_state g) = []"
    using assms(7) by auto
  have "start_globals\<lparr>gg_opterr := True\<rparr> = start_globals" "go_stderr (gg_state start_globals) = []"
    by (simp_all add: start_globals_def start_state_def)
  then have "options_loop (length (all_events is) + 1) (prog # all_words is @ tail_words t) (start_globals\<lparr>gg_opterr := True\<rparr>)
      no_options w = Some (Inr (?A @ pat # fs, int (length ?A), o1), w)"
    using options_loop_scan [OF g(1) _ _ assms(2), of no_options w] g(2,3) assms(3) by simp
  moreover have "vec_size (e_patterns o1) = 0" "vec_size (f_patterns o1) = 0"
    using apply_flags_patterns [OF assms(2)] assms(3) by (simp_all add: no_options_def vec_init_def vec_size_def)
  note run_grep_fixed [OF assms(4,6) this _ assms(8,9,10,11), of ?A]
  ultimately show ?thesis using assms(5) by (simp add: grep_main_def)
qed

theorem grep_reports_witness:
  "grep_main 5 [''grep'', ''-Finx'', ''a'', ''f'', ''g''] sample_world = Some (2, sample_world
    \<lparr>gw_stdout := ''f:1:A'' @ [LF] @ ''f:3:a'' @ [LF], gw_stderr := ''grep: g: none'' @ [LF]\<rparr>)"
proof -
  let ?is = "[Flags ''Finx'', Operand ''a'', Operand ''f'', Operand ''g'']"
  define o1 where "o1 = apply_flags (all_events ?is) no_options"
  define sel where "sel = selected o1 (\<lambda>l. fixed_matches (content l) [''a''] (opt_i o1) (opt_w o1) (opt_x o1))"
  have c: "schar (CHR ''F'') = 70" "schar (CHR ''i'') = 105" "schar (CHR ''n'') = 110" "schar (CHR ''x'') = 120"
    "schar (CHR ''G'') = 71" "schar (CHR ''E'') = 69" "schar (CHR ''v'') = 118" "schar (CHR ''w'') = 119"
    "schar (CHR ''c'') = 99" "schar (CHR ''l'') = 108" "schar (CHR ''q'') = 113" "schar (CHR ''s'') = 115"
    by (simp_all add: schar_def code_def)
  have h: "\<forall>x \<in> set ?is. good_item grep_optstring x" "\<forall>e \<in> set (all_events ?is). flag_code (fst e)"
    by (simp_all add: grep_optstring_def is_flag_def nonoption_def peek_def c flag_code_def set_flag_def)
  have f: "opt_F o1" "\<not> opt_E o1" "\<not> opt_q o1" "opt_i o1" "\<not> opt_w o1" "opt_x o1" "opt_n o1" "\<not> opt_v o1" "\<not> opt_l o1"
    "\<not> opt_c o1" "\<not> opt_s o1"
    by (simp_all add: o1_def apply_flags_def set_flag_def c no_options_def)
  have t: "\<forall>f t. gw_files sample_world f = Some t \<longrightarrow> length t < 2 ^ 64" by (auto simp: sample_world_def)
  have l: "lines_of [CHR ''A'', LF, CHR ''b'', LF, CHR ''a''] = [[CHR ''A'', LF], [CHR ''b'', LF], ''a'']" by simp
  have tl: "tolower (CHR ''A'') = CHR ''a''" "tolower (CHR ''a'') = CHR ''a''" "tolower (CHR ''b'') = CHR ''b''" by code_simp+
  have s: "sel [CHR ''A'', LF]" "\<not> sel [CHR ''b'', LF]" "sel ''a''"
    by (simp_all add: sel_def selected_def fixed_matches_def f fold_case_def content_def content_length_def tl)
  have n: "show_nat (Suc 0) = ''1''" "show_nat (Suc (Suc (Suc 0))) = ''3''" by code_simp+
  have k: "Suc (Suc (Suc (Suc (Suc 0)))) = 5" by simp
  have m: "all_words (operands_of ?is) @ operand_words None = ''a'' # [''f'', ''g'']" by (simp add: operand_words_def)
  note g = grep_reports [OF h o1_def f(1-3) m _ _ t sel_def, of "''grep''"]
  show ?thesis using g
    by (simp add: tail_words_def report_def f file_lines_def readable_def sample_world_def missing_text_def exit_status_def s
        line_text_def n k)
qed

section \<open>Regular expressions\<close>

definition c_text :: "string \<Rightarrow> string" where
  "c_text s = takeWhile (\<lambda>c. c \<noteq> NUL) s"

lemma no_nul_c_text: "no_nul (c_text s)"
  using set_takeWhileD by (fastforce simp: no_nul_def c_text_def)

lemma regex_search_ok:
  assumes "plain_regex pat"
  shows "regex_search line llen target pat False 0 = Some (\<exists>t n. match_at (c_text target) pat t n)"
proof -
  have c: "cstring_at target 0 = Some (c_text target)" by (simp add: cstring_at_def c_text_def)
  show ?thesis
    using assms no_nul_c_text [of target]
  proof (cases rule: regex_match)
    case (yes m)
    then show ?thesis using c by (subst regex_search.simps) auto
  next
    case (no m)
    then show ?thesis using c by (subst regex_search.simps) auto
  qed
qed

lemma patterns_loop_ok:
  assumes "\<forall>p \<in> set pats. plain_regex p"
  shows "regex_patterns_loop line llen target pats False False = Some (\<exists>p \<in> set pats. \<exists>t n. match_at (c_text target) p t n)"
  using assms by (induction pats) (auto simp: regex_search_ok)

lemma anchored_loop_ok:
  assumes "\<forall>p \<in> set pats. plain_regex (anchored p)"
  shows "regex_patterns_loop line llen target pats ww True = Some (\<exists>p \<in> set pats. \<exists>n. match_at (c_text target) (anchored p) 0 n)"
  using assms
proof (induction pats)
  case (Cons p pats)
  have c: "cstring_at target 0 = Some (c_text target)" by (simp add: cstring_at_def c_text_def)
  have z: "match_at (c_text target) (anchored p) t n \<Longrightarrow> t = 0" for t n by (simp add: match_at_def anchored_def)
  have "plain_regex (anchored p)" using Cons.prems by simp
  then show ?case
    using no_nul_c_text [of target]
  proof (cases rule: regex_match)
    case (yes m)
    then show ?thesis using c z by auto
  next
    case (no m)
    then show ?thesis using c Cons by auto
  qed
qed simp

lemma no_quantifier: "at0 pat i \<notin> {BSL, CHR ''*''} \<Longrightarrow> parse_quantifier pat i pend rep = Some (BRE_NOMATCH, rep)"
  by (simp add: parse_quantifier_def parse_bre_repetition_def)

text \<open>A literal text between an optional anchor and a final \<open>$\<close>.\<close>

lemma dollar_den:
  assumes "den text pat (int (length pat)) pi ti n" "pat = pre @ lit @ ''$''" "literal_pattern lit"
    "int (length pre) \<le> pi" "pi \<le> int (length pre + length lit)" "ti \<le> length text"
  shows "ti + n = length text \<and> take n (drop ti text) = drop (nat pi - length pre) lit"
  using assms
proof (induction rule: den.induct)
  case (den_end pi ti)
  then show ?case by simp
next
  case (den_eol pi ti)
  then have "nat pi - length pre = length lit" by simp
  then show ?case using den_eol by simp
next
  case (den_rep pi P ae q rep k ti n)
  let ?i = "nat pi - length pre"
  have i: "?i < length lit"
  proof (rule ccontr)
    assume "\<not> ?i < length lit"
    then have "pi = int (length pre + length lit)" using den_rep.prems by linarith
    then have "pi + 1 = int (length pat) \<and> at0 pat pi = CHR ''$''" using den_rep.prems(1) by (simp add: at0_def nth_append nat_int_add)
    then show False using den_rep.hyps(2) by simp
  qed
  have at: "at0 pat pi = lit ! ?i" using i den_rep.prems by (auto simp: at0_def nth_append nat_int_add)
  have lc: "lit ! ?i \<notin> {BSL, CHR ''['', CHR ''.'', CHR ''^'', CHR ''$'', CHR ''*'', NUL}"
    using den_rep.prems(2) i by (auto simp: literal_pattern_def list_all_length)
  have pe: "P = (\<lambda>c. c = lit ! ?i)" "ae = pi + 1" using den_rep.hyps(3) at lc by (auto simp: atom_test_def)
  have "at0 pat (pi + 1) \<notin> {BSL, CHR ''*''}"
  proof (cases "Suc ?i < length lit")
    case True
    then have "at0 pat (pi + 1) = lit ! Suc ?i" using den_rep.prems
      by (auto simp: at0_def nth_append nat_int_add nat_add_distrib Suc_diff_le)
    moreover have "lit ! Suc ?i \<notin> {BSL, CHR ''*''}" using den_rep.prems(2) True by (auto simp: literal_pattern_def list_all_length)
    ultimately show ?thesis by simp
  next
    case False
    then have "pi + 1 = int (length pre + length lit)" using i den_rep.prems by linarith
    then show ?thesis using den_rep.prems(1) by (simp add: at0_def nth_append nat_int_add)
  qed
  then have "rep = unit_rep (pi + 1)" using den_rep.hyps(4) pe(2) no_quantifier by simp
  then have k: "k = 1" "rep_next_pi rep = pi + 1" using den_rep.hyps(6,7) by (simp_all add: unit_rep_def rep_cap_def)
  have t: "ti < length text" "text ! ti = lit ! ?i" using den_rep.hyps(8) k(1) pe(1) by auto
  have "ti + k + n = length text \<and> take n (drop (ti + k) text) = drop (nat (rep_next_pi rep) - length pre) lit"
    by (rule den_rep.IH) (use den_rep.prems i k t in auto)
  then have r: "ti + 1 + n = length text" "take n (drop (Suc ti) text) = drop (Suc ?i) lit"
    using k den_rep.prems(3) by (auto simp: nat_add_distrib Suc_diff_le)
  have "take (1 + n) (drop ti text) = text ! ti # take n (drop (Suc ti) text)"
    using t(1) by (simp add: Cons_nth_drop_Suc [symmetric])
  also have "\<dots> = drop ?i lit" using t(2) r(2) i by (simp add: Cons_nth_drop_Suc)
  finally have "take (1 + n) (drop ti text) = drop ?i lit" .
  then show ?case using r(1) unfolding k(1) by (simp del: take_all_iff take_all)
qed

lemma dollar_misses_newline:
  assumes "literal_pattern lit" "lit \<noteq> []" "LF \<notin> set lit" "pre \<in> {[], ''^''}"
  shows "\<not> match_at (s @ [LF]) (pre @ lit @ ''$'') t n"
proof
  let ?text = "s @ [LF]" let ?pat = "pre @ lit @ ''$''"
  assume "match_at ?text ?pat t n"
  moreover have "pat_start ?pat = int (length pre)"
    using assms by (cases lit) (auto simp: pat_start_def literal_pattern_def)
  ultimately have "den ?text ?pat (int (length ?pat)) (int (length pre)) t n" "t \<le> length ?text" by (auto simp: match_at_def)
  from dollar_den [OF this(1) refl assms(1) _ _ this(2)] have d: "t + n = length ?text" "take n (drop t ?text) = lit" by auto
  then have e: "drop t ?text = lit" by simp
  then have "t < length ?text" using assms(2) by auto
  then have "last lit = last ?text" using e by (metis last_drop)
  then have "last lit = LF" by simp
  then show False using assms(2,3) last_in_set by metis
qed

lemma anchored_wf:
  assumes "literal_pattern lit" "pre \<in> {[], ''^''}" "pat = pre @ lit @ ''$''" "i \<le> length lit"
  shows "well_formed pat (int (length pat)) (int (length pre + i))"
  using assms(4)
proof (induction "length lit - i" arbitrary: i)
  case 0
  then have "i = length lit" by simp
  then show ?case using assms(3) by (intro wf_eol) (simp_all add: at0_def nth_append nat_int_add)
next
  case (Suc d)
  let ?pi = "int (length pre + i)"
  have i: "i < length lit" using Suc by simp
  have at: "at0 pat ?pi = lit ! i" using i assms(3) by (simp add: at0_def nth_append nat_int_add)
  have lc: "lit ! i \<notin> {BSL, CHR ''['', CHR ''.'', CHR ''^'', CHR ''$'', CHR ''*'', NUL}"
    using assms(1) i by (auto simp: literal_pattern_def list_all_length)
  have a: "atom_test pat ?pi (int (length pat)) = Some (\<lambda>c. c = lit ! i, ?pi + 1)"
    using at lc by (auto simp: atom_test_def)
  have "at0 pat (?pi + 1) \<notin> {BSL, CHR ''*''}"
  proof (cases "Suc i < length lit")
    case True
    then have "lit ! Suc i \<notin> {BSL, CHR ''*''}" using assms(1) by (auto simp: literal_pattern_def list_all_length)
    moreover have "at0 pat (?pi + 1) = lit ! Suc i" using True assms(3)
      by (auto simp: at0_def nth_append nat_int_add nat_add_distrib Suc_diff_le)
    ultimately show ?thesis by simp
  next
    case False
    then have "i + 1 = length lit" using i by simp
    then have "at0 pat (?pi + 1) = CHR ''$''" using assms(3) by (auto simp: at0_def nth_append nat_int_add nat_add_distrib)
    then show ?thesis by simp
  qed
  then have q: "parse_quantifier pat (?pi + 1) (int (length pat)) (unit_rep (?pi + 1)) = Some (BRE_NOMATCH, unit_rep (?pi + 1))"
    by (rule no_quantifier)
  have "well_formed pat (int (length pat)) (int (length pre + Suc i))" using Suc by (intro Suc.hyps(1)) auto
  then have "well_formed pat (int (length pat)) (rep_next_pi (unit_rep (?pi + 1)))" by (simp add: unit_rep_def add.commute)
  from wf_rep [OF _ a q _ this] show ?case using i assms(3) by simp
qed

lemma dollar_plain:
  assumes "literal_pattern lit" "pre \<in> {[], ''^''}" "pat = pre @ lit @ ''$''" "lit \<noteq> []" "reps_small pat"
  shows "plain_regex pat"
proof -
  have "BSL \<notin> set lit" using assms(1) unfolding literal_pattern_def list_all_iff by blast
  then have "BSL \<notin> set pat" using assms(2,3) by auto
  then have "at0 pat i \<noteq> BSL" for i
  proof (cases "0 \<le> i \<and> i < int (length pat)")
    case True
    then have "pat ! nat i \<in> set pat" by (intro nth_mem) linarith
    moreover have "at0 pat i = pat ! nat i" using True by (simp add: at0_def)
    ultimately show ?thesis using \<open>BSL \<notin> set pat\<close> by metis
  next
    case False
    then have "at0 pat i = NUL" by (simp only: at0_def if_False)
    then show ?thesis by simp
  qed
  then have "group_free pat" by (simp add: group_free_def)
  moreover have "pat_start pat = int (length pre + 0)" using assms(1-4)
    by (cases lit) (auto simp: pat_start_def literal_pattern_def)
  ultimately show ?thesis using anchored_wf [OF assms(1-3), of 0] assms(5) by (simp add: plain_regex_def)
qed

lemma regex_search_none:
  assumes "plain_regex pat" "\<forall>t n. \<not> match_at (c_text target) pat t n"
  shows "regex_search line llen target pat ww 0 = Some False"
proof -
  have c: "cstring_at target 0 = Some (c_text target)" by (simp add: cstring_at_def c_text_def)
  show ?thesis
    using assms(1) no_nul_c_text [of target]
  proof (cases rule: regex_match)
    case (no m)
    then show ?thesis using c by (subst regex_search.simps) auto
  qed (use assms(2) in auto)
qed

text \<open>
  A line that ends with its newline is never matched by a literal text followed by \<open>$\<close>, nor, with \<open>-x\<close>, by
  a literal text: unless \<open>-i\<close> is given, the newline is part of the text that is searched.
\<close>

theorem end_anchor_matches_no_line:
  assumes "literal_pattern lit" "lit \<noteq> []" "LF \<notin> set lit" "no_nul s" "\<not> opt_F o1" "\<not> opt_i o1"
    "reps_small (lit @ ''$'')" "reps_small (anchored lit)"
    "sv_items (rp_raw rp) = [if opt_x o1 then lit else lit @ ''$'']"
  shows "match_line o1 patterns rp (s @ [LF]) = Some False"
proof -
  have c: "c_text (s @ [LF]) = s @ [LF]" using assms(4) by (auto simp: c_text_def takeWhile_append no_nul_def)
  note no = dollar_misses_newline [OF assms(1-3)]
  show ?thesis
  proof (cases "opt_x o1")
    case True
    have "plain_regex (anchored lit)"
      by (rule dollar_plain [OF assms(1) _ _ assms(2,8), of "''^''"]) (simp_all add: anchored_def)
    moreover have "\<not> match_at (s @ [LF]) (anchored lit) 0 n" for n using no [of "''^''" s 0 n] by (simp add: anchored_def)
    ultimately show ?thesis using True assms(5,6,9) anchored_loop_ok [of "[lit]"] c
      by (simp add: match_line_def line_matches_regex_def)
  next
    case False
    have "plain_regex (lit @ ''$'')" by (rule dollar_plain [OF assms(1) _ _ assms(2,7), of "[]"]) simp_all
    then have "regex_search l k (s @ [LF]) (lit @ ''$'') ww 0 = Some False" for l k ww
      using no [of "[]" s] c by (intro regex_search_none) simp_all
    then show ?thesis using False assms(5,6,9) by (simp add: match_line_def line_matches_regex_def)
  qed
qed

theorem end_anchor_matches_no_line_witness:
  "match_line no_options vec_init \<lparr>rp_raw = \<lparr>sv_items = [''b$''], sv_capacity = 8\<rparr>, rp_lower = vec_init\<rparr> [CHR ''a'', CHR ''b'', LF] = Some False"
proof -
  have "literal_pattern ''b''" "reps_small (''b'' @ ''$'')" "reps_small (anchored ''b'')" by code_simp+
  from end_anchor_matches_no_line [OF this(1) _ _ _ _ _ this(2,3), of "''ab''" no_options
      "\<lparr>rp_raw = \<lparr>sv_items = [''b$''], sv_capacity = 8\<rparr>, rp_lower = vec_init\<rparr>" vec_init]
  show ?thesis by (simp add: no_options_def)
qed



end
