(* ===== verification/Cat.thy ===== *)
theory Cat
  imports Prelude
begin

text \<open>
  The program \<open>src/cat/cat.c\<close>: files are copied to standard output one after the other, \<open>-\<close> is standard
  input, and a file that cannot be opened is reported and makes the exit status 1. Writing to standard
  output succeeds. \<open>cat_spec\<close> says what is printed.
\<close>

record CatWorld =
  cw_files :: "string \<rightharpoonup> string"
  cw_stdin :: string
  cw_stdout :: string
  cw_stderr :: string

abbreviation (input) eol :: string where "eol \<equiv> [CHR 0x0A]"

definition cat_help :: string where
  "cat_help = ''Usage: cat [options] [file ...]'' @ eol @ ''Concatenate and print files to stdout.'' @ eol
     @ ''Options:'' @ eol @ ''  -h, --help  Display this help message'' @ eol
     @ ''If no files are specified, reads from stdin.'' @ eol"

text \<open>The loop over \<open>fgetc\<close> and \<open>putchar\<close>; the rest of the stream and the output.\<close>

fun cat_file :: "string \<Rightarrow> string \<Rightarrow> bool \<times> string \<times> string" where
  "cat_file [] out = (True, [], out)"
| "cat_file (c # fp) out = cat_file fp (out @ [c])"

definition cat_stdin :: "CatWorld \<Rightarrow> bool \<times> CatWorld" where
  "cat_stdin w =
     (let (ok, rest, out) = cat_file (cw_stdin w) (cw_stdout w) in (ok, w\<lparr>cw_stdin := rest, cw_stdout := out\<rparr>))"

fun cat_files :: "string list \<Rightarrow> bool \<Rightarrow> CatWorld \<Rightarrow> bool \<times> CatWorld" where
  "cat_files [] success w = (success, w)"
| "cat_files (a # as) success w =
     (if a = ''-'' then
        (let (ok, w) = cat_stdin w in cat_files as (if ok then success else False) w)
      else case cw_files w a of
        None \<Rightarrow> cat_files as False (w\<lparr>cw_stderr := cw_stderr w @ ''Error: Cannot open file '' @ [CHR 0x27] @ a @ [CHR 0x27] @ eol\<rparr>)
      | Some fp \<Rightarrow>
          (let (ok, rest, out) = cat_file fp (cw_stdout w)
           in cat_files as (if ok then success else False) (w\<lparr>cw_stdout := out\<rparr>)))"

definition cat_main :: "string list \<Rightarrow> CatWorld \<Rightarrow> int \<times> CatWorld" where
  "cat_main argv w =
     (let args = drop 1 argv in
      if args \<noteq> [] \<and> hd args \<in> {''-h'', ''--help''} then (0, w\<lparr>cw_stdout := cw_stdout w @ cat_help\<rparr>)
      else if args = [] then (let (ok, w) = cat_stdin w in (if ok then 0 else 1, w))
      else (let (ok, w) = cat_files args True w in (if ok then 0 else 1, w)))"

section \<open>What is printed\<close>

lemma cat_file_copies: "cat_file fp out = (True, [], out @ fp)"
  by (induction fp out rule: cat_file.induct) auto

text \<open>The output for a list of names; only the first \<open>-\<close> finds anything on standard input.\<close>

fun cat_spec :: "string list \<Rightarrow> (string \<rightharpoonup> string) \<Rightarrow> string \<Rightarrow> string" where
  "cat_spec [] fs inp = []"
| "cat_spec (a # as) fs inp =
     (if a = ''-'' then inp @ cat_spec as fs []
      else (case fs a of None \<Rightarrow> [] | Some t \<Rightarrow> t) @ cat_spec as fs inp)"

lemma cat_files_ok:
  "fst (cat_files as success w) \<longleftrightarrow> success \<and> (\<forall>a \<in> set as. a \<noteq> ''-'' \<longrightarrow> cw_files w a \<noteq> None)"
  "cw_stdout (snd (cat_files as success w)) = cw_stdout w @ cat_spec as (cw_files w) (cw_stdin w)"
  by (induction as success w rule: cat_files.induct)
    (auto simp: cat_file_copies cat_stdin_def Let_def split: option.splits)

text \<open>
  \<open>cat\<close> prints the contents of the files it is given, in order, passes over those it cannot open, and exits
  with 0 exactly when there is none of these.
\<close>

theorem cat_concatenates:
  assumes "args \<noteq> []" "hd args \<notin> {''-h'', ''--help''}"
  shows "fst (cat_main (prog # args) w) = (if \<exists>a \<in> set args. a \<noteq> ''-'' \<and> cw_files w a = None then 1 else 0)
    \<and> cw_stdout (snd (cat_main (prog # args) w)) = cw_stdout w @ cat_spec args (cw_files w) (cw_stdin w)"
  using assms cat_files_ok [of args True w] by (auto simp: cat_main_def Let_def split: prod.splits)

theorem cat_concatenates_witness:
  "\<exists>w. cw_files w = [''f'' \<mapsto> ''ab'', ''g'' \<mapsto> ''c''] \<and> cw_stdin w = ''x'' \<and> cw_stdout w = []
    \<and> fst (cat_main [''cat'', ''f'', ''-'', ''h'', ''g'', ''-''] w) = 1
    \<and> cw_stdout (snd (cat_main [''cat'', ''f'', ''-'', ''h'', ''g'', ''-''] w)) = ''abxc''"
proof -
  let ?w = "\<lparr>cw_files = [''f'' \<mapsto> ''ab'', ''g'' \<mapsto> ''c''], cw_stdin = ''x'', cw_stdout = [], cw_stderr = []\<rparr>"
  show ?thesis using cat_concatenates [of "[''f'', ''-'', ''h'', ''g'', ''-'']" "''cat''" ?w]
    by (intro exI [of _ ?w]) simp
qed

end
