(* ===== verification/Batch.thy ===== *)
theory Batch
  imports Prelude
begin

text \<open>
  The batch interpreter \<open>src/batch/batch.c\<close>: its table of variables, the expansion of \<open>{{name}}\<close>, the
  built-in commands, the conditional blocks and \<open>main\<close>.

  A string in a \<open>char\<close> array is the list of its characters before the NUL. \<open>vars\<close> is the list of the first
  \<open>var_count\<close> elements of the table; the elements after it are never read. \<^term>\<open>None\<close> is a write outside an
  array. The command processor behind \<open>system\<close> is a parameter: the exit status of a command, given the
  commands run before it; it leaves the script alone.
\<close>

abbreviation (input) MAX_LINE_B :: nat where "MAX_LINE_B \<equiv> 1024"
abbreviation (input) MAX_EXPANDED :: nat where "MAX_EXPANDED \<equiv> 8192"
abbreviation (input) MAX_VARS :: nat where "MAX_VARS \<equiv> 100"
abbreviation (input) MAX_VAR_NAME :: nat where "MAX_VAR_NAME \<equiv> 32"
abbreviation (input) MAX_VAR_VALUE :: nat where "MAX_VAR_VALUE \<equiv> 256"

abbreviation (input) NL1 :: string where "NL1 \<equiv> [CHR 0x0A]"
abbreviation (input) QUOTE :: char where "QUOTE \<equiv> CHR 0x22"
abbreviation (input) BACKSLASH :: char where "BACKSLASH \<equiv> CHR 0x5C"
abbreviation (input) APO :: string where "APO \<equiv> [CHR 0x27]"

text \<open>The global variables, the output, and the commands handed to \<open>system\<close>.\<close>

record Batch =
  bt_vars :: "(string \<times> string) list"
  verbose_flag :: bool
  dry_run_flag :: bool
  undefined_error_flag :: bool
  bt_out :: string
  bt_err :: string
  bt_run :: "string list"

definition say :: "string \<Rightarrow> Batch \<Rightarrow> Batch" where
  "say s b = b\<lparr>bt_out := bt_out b @ s\<rparr>"

definition complain_b :: "string \<Rightarrow> Batch \<Rightarrow> Batch" where
  "complain_b s b = b\<lparr>bt_err := bt_err b @ s\<rparr>"

definition say_verbose :: "string \<Rightarrow> Batch \<Rightarrow> Batch" where
  "say_verbose s b = (if verbose_flag b then say s b else b)"

section \<open>Helpers\<close>

definition isalnum :: "char \<Rightarrow> bool" where
  "isalnum c \<longleftrightarrow> isdigit c \<or> islower c \<or> (65 \<le> code c \<and> code c \<le> 90)"

definition is_valid_var_char :: "char \<Rightarrow> bool" where
  "is_valid_var_char c \<longleftrightarrow> isalnum c \<or> c = CHR ''_'' \<or> c = CHR ''-''"

definition strip_trailing_ws :: "string \<Rightarrow> string" where
  "strip_trailing_ws s = rev (dropWhile isspace (rev s))"

text \<open>The index, or \<open>var_count\<close>.\<close>

fun var_find :: "(string \<times> string) list \<Rightarrow> string \<Rightarrow> nat" where
  "var_find [] name = 0"
| "var_find (v # vs) name = (if fst v = name then 0 else Suc (var_find vs name))"

text \<open>The index, or \<open>var_count\<close> when the table is full; a new variable gets the first 31 characters of the name.\<close>

definition var_ensure :: "string \<Rightarrow> Batch \<Rightarrow> nat \<times> Batch" where
  "var_ensure name b =
     (let idx = var_find (bt_vars b) name in
      if idx < length (bt_vars b) then (idx, b)
      else if length (bt_vars b) \<ge> MAX_VARS then (length (bt_vars b), b)
      else (length (bt_vars b), b\<lparr>bt_vars := bt_vars b @ [(take (MAX_VAR_NAME - 1) name, [])]\<rparr>))"

definition var_value :: "Batch \<Rightarrow> nat \<Rightarrow> string" where
  "var_value b idx = snd (bt_vars b ! idx)"

definition set_var_value :: "nat \<Rightarrow> string \<Rightarrow> Batch \<Rightarrow> Batch" where
  "set_var_value idx v b = b\<lparr>bt_vars := (bt_vars b)[idx := (fst (bt_vars b ! idx), v)]\<rparr>"

section \<open>Expansion\<close>

text \<open>The name after \<open>{{\<close>, at most 31 characters, and the rest of the text.\<close>

fun expand_name :: "string \<Rightarrow> nat \<Rightarrow> string \<times> string" where
  "expand_name [] n = ([], [])"
| "expand_name (c # p) n =
     (if \<not> (c = CHR ''}'' \<and> hd0 p = CHR ''}'') \<and> n < MAX_VAR_NAME - 1
      then (let (v, rest) = expand_name p (n + 1) in (c # v, rest)) else ([], c # p))"

lemma expand_name_length: "length (snd (expand_name p n)) \<le> length p"
  by (induction p n rule: expand_name.induct) (auto split: prod.splits simp: Let_def)

text \<open>The loop: the rest of the input and what is written so far. The result says whether it succeeded;
  the text is terminated only then.\<close>

function expand_loop :: "string \<Rightarrow> string \<Rightarrow> nat \<Rightarrow> Batch \<Rightarrow> (bool \<times> string \<times> Batch) option" where
  "expand_loop inp out outsz b =
     (if inp \<noteq> [] \<and> length out < outsz - 1 then
        if hd0 inp = CHR ''{'' \<and> peek inp 1 = CHR ''{'' then
          (let (vname, rest) = expand_name (drop 2 inp) 0 in
           if hd0 rest = CHR ''}'' \<and> peek rest 1 = CHR ''}'' then
             (let idx = var_find (bt_vars b) vname in
              if idx < length (bt_vars b) then
                (let v = var_value b idx in
                 if length out + length v \<ge> outsz
                 then Some (False, out, complain_b (''Error: expansion result too long'' @ NL1) b)
                 else expand_loop (drop 2 rest) (out @ v) outsz b)
              else
                (let b = say_verbose (''(undefined variable: '' @ vname @ '')'' @ NL1) b in
                 if undefined_error_flag b
                 then Some (False, out, complain_b (''Error: undefined variable '' @ APO @ vname @ APO @ NL1) b)
                 else expand_loop (drop 2 rest) out outsz b))
           else Some (False, out, complain_b (''Error: unmatched '' @ APO @ ''{{'' @ APO @ NL1) b))
        else expand_loop (tl inp) (out @ [hd inp]) outsz b
      else if length out < outsz then Some (True, out, b) else None)"
  by pat_completeness auto
termination
proof (relation "measure (\<lambda>(inp, out, outsz, b). length inp)", goal_cases)
  case (2 inp out outsz b x vname rest)
  then have "rest = snd (expand_name (drop 2 inp) 0)" by (metis snd_conv)
  then show ?case using 2(1) expand_name_length [of "drop 2 inp" 0] by (cases inp) auto
next
  case (3 inp out outsz b x vname rest)
  then have "rest = snd (expand_name (drop 2 inp) 0)" by (metis snd_conv)
  then show ?case using 3(1) expand_name_length [of "drop 2 inp" 0] by (cases inp) auto
qed auto

declare expand_loop.simps [simp del]

definition expand_variables :: "string \<Rightarrow> nat \<Rightarrow> Batch \<Rightarrow> (bool \<times> string \<times> Batch) option" where
  "expand_variables inp outsz b = expand_loop inp [] outsz b"

section \<open>Built-in commands\<close>

text \<open>The characters of a name, at most 31, and the rest.\<close>

fun take_name :: "string \<Rightarrow> nat \<Rightarrow> string \<times> string" where
  "take_name [] n = ([], [])"
| "take_name (c # p) n =
     (if is_valid_var_char c \<and> n < MAX_VAR_NAME - 1
      then (let (v, rest) = take_name p (n + 1) in (c # v, rest)) else ([], c # p))"

text \<open>The operator: its text and the rest, or an error message.\<close>

definition parse_operator :: "string \<Rightarrow> string + string \<times> string" where
  "parse_operator p =
     (if hd0 p = CHR ''+'' then
        (let colon = (peek p 1 = CHR '':''); n = (if colon then 2 else 1) in
         if peek p n = CHR ''='' then Inr (take (n + 1) p, drop (n + 1) p)
         else Inl (''var: expected '' @ APO @ ''='' @ APO @ '' after '' @ APO @ take n p @ APO @ NL1))
      else if hd0 p = CHR '':'' then
        (if peek p 1 = CHR ''='' then Inr ('':='', drop 2 p)
         else Inl (''var: expected '' @ APO @ ''='' @ APO @ '' after '' @ APO @ '':'' @ APO @ NL1))
      else if hd0 p = CHR ''='' then Inr (''='', drop 1 p)
      else Inl (''var: expected assignment operator (=, :=, +=, +:=)'' @ NL1))"

text \<open>The loop over a quoted text, after the opening quote: the text so far, the character before \<open>p\<close>, and
  the number of characters that still fit. The result: the text, the character before the rest, the rest.\<close>

fun quoted_loop :: "string \<Rightarrow> char \<Rightarrow> string \<Rightarrow> nat \<Rightarrow> string \<times> char \<times> string" where
  "quoted_loop [] prev out limit = (out, prev, [])"
| "quoted_loop (c # p) prev out limit =
     (if length out < limit then
        (if c = BACKSLASH then
           (case p of [] \<Rightarrow> (out, c, []) | d # p' \<Rightarrow> quoted_loop p' d (out @ [d]) limit)
         else if c = QUOTE then (out, c, p)
         else quoted_loop p c (out @ [c]) limit)
      else (out, prev, c # p))"

text \<open>The value of an assignment; \<open>None\<close> is the failure without a closing quote.\<close>

definition parse_value :: "string \<Rightarrow> Batch \<Rightarrow> string option \<times> Batch" where
  "parse_value p b =
     (let truncated = ''var: value truncated to 255 bytes'' @ NL1 in
      if hd0 p = QUOTE then
        (let (raw, prev, rest) = quoted_loop (tl p) QUOTE [] (MAX_VAR_VALUE - 1) in
         if prev \<noteq> QUOTE \<and> length raw < MAX_VAR_VALUE - 1
         then (None, complain_b (''var: missing closing quote'' @ NL1) b)
         else (Some raw,
           if length raw \<ge> MAX_VAR_VALUE - 1 \<and> rest \<noteq> [] \<and> hd0 rest \<noteq> QUOTE then complain_b truncated b else b))
      else
        (Some (strip_trailing_ws (take (MAX_VAR_VALUE - 1) p)),
         if length p \<ge> MAX_VAR_VALUE then complain_b truncated b else b))"

text \<open>The last part of \<open>cmd_var\<close>.\<close>

definition assign_var :: "bool \<Rightarrow> string \<Rightarrow> string \<Rightarrow> Batch \<Rightarrow> int \<times> Batch" where
  "assign_var is_append name piece b =
     (let found = (is_append \<and> var_find (bt_vars b) name \<noteq> length (bt_vars b));
          (idx, b) = (if found then (var_find (bt_vars b) name, b) else var_ensure name b)
      in if idx = length (bt_vars b) then (-1, complain_b (''var: too many variables'' @ NL1) b)
         else if is_append then
           (let cur = var_value b idx; room = MAX_VAR_VALUE - 1 - length cur in
            if length cur + length piece \<ge> MAX_VAR_VALUE then
              (0, complain_b (''var: appended value truncated by '' @ show_nat (length piece - room) @ '' bytes'' @ NL1)
                    (set_var_value idx (cur @ take room piece) b))
            else (0, set_var_value idx (cur @ piece) b))
         else if length piece \<ge> MAX_VAR_VALUE then
           (0, complain_b (''var: value truncated to 255 bytes'' @ NL1) (set_var_value idx (take (MAX_VAR_VALUE - 1) piece) b))
         else (0, set_var_value idx piece b))"

definition cmd_var :: "string \<Rightarrow> Batch \<Rightarrow> (int \<times> Batch) option" where
  "cmd_var line b =
     (let p = dropWhile isspace line;
          p = dropWhile (\<lambda>c. \<not> isspace c) p;
          p = dropWhile isspace p;
          (name, p) = take_name p 0 in
      if name = [] then Some (-1, complain_b (''var: missing variable name'' @ NL1) b)
      else
        (case parse_operator (dropWhile isspace p) of
           Inl msg \<Rightarrow> Some (-1, complain_b msg b)
         | Inr (opr, p) \<Rightarrow>
             (case parse_value (dropWhile isspace p) b of
                (None, b) \<Rightarrow> Some (-1, b)
              | (Some raw, b) \<Rightarrow>
                  (let is_append = (opr = ''+='' \<or> opr = ''+:=''); do_expand = (opr = '':='' \<or> opr = ''+:='') in
                   if do_expand then do {
                     (ok, expanded, b) \<leftarrow> expand_variables raw MAX_VAR_VALUE b;
                     if \<not> ok then Some (-1, b) else Some (assign_var is_append name expanded b) }
                   else Some (assign_var is_append name raw b)))))"

text \<open>The last variable takes the place of the one removed.\<close>

definition remove_var :: "nat \<Rightarrow> Batch \<Rightarrow> Batch" where
  "remove_var idx b =
     (let n = length (bt_vars b) - 1 in b\<lparr>bt_vars := take n ((bt_vars b)[idx := bt_vars b ! n])\<rparr>)"

definition cmd_unset :: "string \<Rightarrow> Batch \<Rightarrow> int \<times> Batch" where
  "cmd_unset line b =
     (let p = dropWhile (\<lambda>c. \<not> isspace c) line;
          p = dropWhile isspace p;
          (name, p) = take_name p 0 in
      if name = [] then (-1, complain_b (''unset: missing variable name'' @ NL1) b)
      else
        (let idx = var_find (bt_vars b) name in
         if idx = length (bt_vars b) then (0, say_verbose (''unset: '' @ name @ '' not defined'' @ NL1) b)
         else (0, remove_var idx b)))"

definition cmd_vars :: "string \<Rightarrow> Batch \<Rightarrow> int \<times> Batch" where
  "cmd_vars line b =
     (0, if bt_vars b = [] then say (''(no variables)'' @ NL1) b
         else say (concat (map (\<lambda>(n, v). n @ ''='' @ [QUOTE] @ v @ [QUOTE] @ NL1) (bt_vars b))) b)"

definition cmd_clearvars :: "string \<Rightarrow> Batch \<Rightarrow> int \<times> Batch" where
  "cmd_clearvars line b = (0, say_verbose (''All variables cleared'' @ NL1) (b\<lparr>bt_vars := []\<rparr>))"

section \<open>The dispatch table\<close>

datatype builtin = B_var | B_unset | B_vars | B_clearvars

definition run_builtin :: "builtin \<Rightarrow> string \<Rightarrow> Batch \<Rightarrow> (int \<times> Batch) option" where
  "run_builtin f line b =
     (case f of B_var \<Rightarrow> cmd_var line b | B_unset \<Rightarrow> Some (cmd_unset line b)
      | B_vars \<Rightarrow> Some (cmd_vars line b) | B_clearvars \<Rightarrow> Some (cmd_clearvars line b))"

definition builtins :: "(string \<times> builtin) list" where
  "builtins = [(''var'', B_var), (''unset'', B_unset), (''vars'', B_vars), (''clearvars'', B_clearvars)]"

text \<open>\<open>strncmp(cmd, word, len) == 0\<close>, and a blank or the end after it.\<close>

definition first_word :: "string \<Rightarrow> string \<Rightarrow> bool" where
  "first_word word cmd \<longleftrightarrow>
     take (length word) cmd = word \<and> (peek cmd (length word) = NUL \<or> isspace (peek cmd (length word)))"

definition find_builtin :: "string \<Rightarrow> builtin option" where
  "find_builtin cmd = map_option snd (List.find (\<lambda>(name, f). first_word name cmd) builtins)"

section \<open>Conditionals\<close>

text \<open>The argument and the rest, or \<open>None\<close>.\<close>

definition parse_one_arg :: "string \<Rightarrow> nat \<Rightarrow> Batch \<Rightarrow> (string \<times> string) option \<times> Batch" where
  "parse_one_arg pp outsz b =
     (let p = dropWhile isspace pp in
      if p = [] then (None, b)
      else if hd0 p = QUOTE then
        (let (out, prev, rest) = quoted_loop (tl p) QUOTE [] (outsz - 1) in
         if prev \<noteq> QUOTE \<and> length out < outsz - 1 then (None, complain_b (''if*: missing closing quote'' @ NL1) b)
         else (Some (out, rest), b))
      else
        (let out = take (outsz - 1) (takeWhile (\<lambda>c. \<not> isspace c) p) in (Some (out, drop (length out) p), b)))"

definition expand_arg_token :: "string \<Rightarrow> nat \<Rightarrow> Batch \<Rightarrow> (bool \<times> string \<times> Batch) option" where
  "expand_arg_token arg expsz b = expand_variables arg expsz b"

text \<open>The local variables of \<open>main\<close> that live from line to line.\<close>

record Loop =
  full_cmd :: string
  continuing :: bool
  in_if_block :: bool
  execute_if_block :: bool

text \<open>The part of \<open>main\<close> for \<open>ifeq\<close> (\<open>eq\<close> true) and \<open>ifneq\<close>. The result is false where the code leaves the loop.\<close>

definition open_block :: "bool \<Rightarrow> string \<Rightarrow> Loop \<Rightarrow> Batch \<Rightarrow> (bool \<times> Loop \<times> Batch) option" where
  "open_block eq cmd lp b =
     (let word = (if eq then ''ifeq'' else ''ifneq'') in
      if in_if_block lp then
        Some (False, lp, complain_b (''Error: nested '' @ APO @ word @ APO @ '' inside if-block'' @ NL1) b)
      else
        (let wrong = word @ '': expected two arguments'' @ NL1 in
         case parse_one_arg (drop (length word) cmd) MAX_VAR_VALUE b of
           (None, b) \<Rightarrow> Some (False, lp, complain_b wrong b)
         | (Some (a1, p), b) \<Rightarrow>
             (case parse_one_arg p MAX_VAR_VALUE b of
                (None, b) \<Rightarrow> Some (False, lp, complain_b wrong b)
              | (Some (a2, p), b) \<Rightarrow> do {
                  (ok, e1, b) \<leftarrow> expand_arg_token a1 MAX_VAR_VALUE b;
                  if \<not> ok then Some (False, lp, b)
                  else do {
                    (ok, e2, b) \<leftarrow> expand_arg_token a2 MAX_VAR_VALUE b;
                    if \<not> ok then Some (False, lp, b)
                    else
                      (let same = (if e1 = e2 then ''=='' else ''!='') in
                       Some (True, lp\<lparr>in_if_block := True, execute_if_block := ((e1 = e2) = eq), full_cmd := []\<rparr>,
                         say_verbose (word @ '': '' @ APO @ e1 @ APO @ '' '' @ same @ '' '' @ APO @ e2 @ APO @ NL1) b)) } })))"

definition close_block :: "Loop \<Rightarrow> Batch \<Rightarrow> bool \<times> Loop \<times> Batch" where
  "close_block lp b =
     (if \<not> in_if_block lp then
        (False, lp, complain_b (''Error: '' @ APO @ ''endif'' @ APO @ '' without matching ifeq/ifneq'' @ NL1) b)
      else (True, lp\<lparr>in_if_block := False, execute_if_block := False, full_cmd := []\<rparr>, say_verbose (''endif'' @ NL1) b))"

section \<open>The main loop\<close>

text \<open>\<open>full_cmd\<close> with another line of the same command: a blank and what fits of the line.\<close>

definition join_line :: "string \<Rightarrow> string \<Rightarrow> Batch \<Rightarrow> string \<times> Batch" where
  "join_line cmd line b =
     (let (cmd, b) =
        (if cmd \<noteq> [] then
           (if length cmd + 1 \<ge> MAX_LINE_B * 4
            then (cmd, complain_b (''Continuation: command buffer full, truncating space'' @ NL1) b)
            else (cmd @ '' '', b))
         else (cmd, b));
        room = MAX_LINE_B * 4 - length cmd - 1
      in if length line > room then
           (cmd @ take room line,
            complain_b (''Continuation: command truncated by '' @ show_nat (length line - room) @ '' bytes'' @ NL1) b)
         else (cmd @ line, b))"

definition first_line :: "string \<Rightarrow> Batch \<Rightarrow> string \<times> Batch" where
  "first_line line b =
     (if length line \<ge> MAX_LINE_B * 4 then
        (take (MAX_LINE_B * 4 - 1) line,
         complain_b (''Command too long, truncated by '' @ show_nat (length line - (MAX_LINE_B * 4 - 1)) @ '' bytes'' @ NL1) b)
      else (line, b))"

text \<open>A built-in or external command. \<open>sys\<close> gives the status of a command after those run before it.\<close>

definition run_command ::
  "(string list \<Rightarrow> string \<Rightarrow> int) \<Rightarrow> bool \<Rightarrow> bool \<Rightarrow> string \<Rightarrow> Loop \<Rightarrow> Batch \<Rightarrow> (bool \<times> Loop \<times> Batch) option" where
  "run_command sys interactive ignore_errors cmd lp b =
     (let done_lp = lp\<lparr>full_cmd := []\<rparr> in
      case find_builtin cmd of
        Some f \<Rightarrow> do {
          (r, b) \<leftarrow> run_builtin f (full_cmd lp) b;
          Some (True, done_lp, say_verbose (''builtin returned '' @ show_int r @ NL1) b) }
      | None \<Rightarrow> do {
          (ok, expanded, b) \<leftarrow> expand_variables cmd MAX_EXPANDED b;
          if \<not> ok then Some (False, lp, complain_b (''Expanded command error/too long, aborting'' @ NL1) b)
          else if dry_run_flag b then Some (True, done_lp, say (''Would run: '' @ expanded @ NL1) b)
          else do {
            let tell = (\<lambda>s b. if verbose_flag b \<or> interactive then say s b else b);
            let b = tell (''Run: '' @ expanded @ NL1) b;
            let r = sys (bt_run b) expanded;
            let b = tell (''=> '' @ show_int r @ NL1) (b\<lparr>bt_run := bt_run b @ [expanded]\<rparr>);
            if r \<noteq> 0 \<and> \<not> ignore_errors then Some (False, lp, complain_b (''Command failed, aborting'' @ NL1) b)
            else Some (True, done_lp, b) } })"

text \<open>The part of the loop for a complete command.\<close>

definition run_line ::
  "(string list \<Rightarrow> string \<Rightarrow> int) \<Rightarrow> bool \<Rightarrow> bool \<Rightarrow> Loop \<Rightarrow> Batch \<Rightarrow> (bool \<times> Loop \<times> Batch) option" where
  "run_line sys interactive ignore_errors lp b =
     (let cmd = dropWhile isspace (full_cmd lp) in
      if cmd = [] then Some (True, lp\<lparr>full_cmd := []\<rparr>, b)
      else if first_word ''ifeq'' cmd then open_block True cmd lp b
      else if first_word ''ifneq'' cmd then open_block False cmd lp b
      else if first_word ''endif'' cmd then Some (close_block lp b)
      else if in_if_block lp \<and> \<not> execute_if_block lp then Some (True, lp\<lparr>full_cmd := []\<rparr>, b)
      else run_command sys interactive ignore_errors cmd lp b)"

text \<open>One line of the script, as \<open>fgets\<close> delivers it.\<close>

definition process_line ::
  "(string list \<Rightarrow> string \<Rightarrow> int) \<Rightarrow> bool \<Rightarrow> bool \<Rightarrow> string \<Rightarrow> Loop \<Rightarrow> Batch \<Rightarrow> (bool \<times> Loop \<times> Batch) option" where
  "process_line sys interactive ignore_errors chunk lp b =
     (let line = takeWhile (\<lambda>c. c \<notin> {CHR 0x0D, CHR 0x0A, NUL}) chunk in
      if \<not> continuing lp \<and> (hd0 line = CHR '';'' \<or> line = []) then Some (True, lp, b)
      else
        (let cont = (line \<noteq> [] \<and> last line = BACKSLASH);
             line = (if cont then strip_trailing_ws (butlast line) else line);
             (cmd, b) = (if continuing lp then join_line (full_cmd lp) line b else first_line line b);
             lp = lp\<lparr>full_cmd := cmd, continuing := cont\<rparr>
         in if cont then Some (True, lp, b) else run_line sys interactive ignore_errors lp b))"

text \<open>The lines \<open>fgets\<close> cuts from the script.\<close>

definition fgets_lines :: "string \<Rightarrow> string list" where
  "fgets_lines f = chunks MAX_LINE_B f"

definition prompt :: "bool \<Rightarrow> Loop \<Rightarrow> Batch \<Rightarrow> Batch" where
  "prompt interactive lp b = (if interactive \<and> \<not> continuing lp then say ''> '' b else b)"

fun batch_loop ::
  "(string list \<Rightarrow> string \<Rightarrow> int) \<Rightarrow> bool \<Rightarrow> bool \<Rightarrow> string list \<Rightarrow> Loop \<Rightarrow> Batch \<Rightarrow> (Loop \<times> Batch) option" where
  "batch_loop sys interactive ignore_errors [] lp b =
     (let b = prompt interactive lp b in
      Some (lp, if continuing lp then complain_b (''Unterminated continuation'' @ NL1) b else b))"
| "batch_loop sys interactive ignore_errors (l # ls) lp b = do {
     (go, lp, b) \<leftarrow> process_line sys interactive ignore_errors l lp (prompt interactive lp b);
     if go then batch_loop sys interactive ignore_errors ls lp b else Some (lp, b) }"

section \<open>The program\<close>

definition batch_help :: string where
  "batch_help =
     ''Usage: batch [options] [script]'' @ NL1
     @ NL1
     @ ''Built-ins:'' @ NL1
     @ ''  var NAME = VALUE        Set literal VALUE (no expansion).'' @ NL1
     @ ''  var NAME := VALUE       Set VALUE with immediate {{VAR}} expansion.'' @ NL1
     @ ''  var NAME += VALUE       Append literal VALUE.'' @ NL1
     @ ''  var NAME +:= VALUE      Append VALUE with expansion.'' @ NL1
     @ ''     VALUE may be quoted; inside quotes '' @ [BACKSLASH] @ [QUOTE] @ '' and '' @ [BACKSLASH] @ [BACKSLASH] @ '' are escapes.'' @ NL1
     @ ''     Unquoted VALUE strips trailing whitespace.'' @ NL1
     @ ''  unset NAME              Unset variable.'' @ NL1
     @ ''  vars                    List all variables.'' @ NL1
     @ ''  clearvars               Remove all variables.'' @ NL1
     @ NL1
     @ ''Conditionals (no nesting allowed):'' @ NL1
     @ ''  ifeq <arg1> <arg2>      Execute following commands until '' @ APO @ ''endif'' @ APO @ '' if arg1 == arg2.'' @ NL1
     @ ''  ifneq <arg1> <arg2>     Execute following commands until '' @ APO @ ''endif'' @ APO @ '' if arg1 != arg2.'' @ NL1
     @ ''    Args can be {{var}}, text, or '' @ [QUOTE] @ ''quoted text'' @ [QUOTE] @ '' with escapes '' @ [BACKSLASH] @ [QUOTE] @ '' and '' @ [BACKSLASH] @ [BACKSLASH] @ ''.'' @ NL1
     @ ''    Encountering ifeq/ifneq inside an active if-block is an error.'' @ NL1
     @ NL1
     @ ''Expansion in commands:'' @ NL1
     @ ''  {{NAME}} expands to variable value; unmatched '' @ APO @ ''{{'' @ APO @ '' is error.'' @ NL1
     @ ''  Undefined variables expand to empty unless -u is set.'' @ NL1
     @ NL1
     @ ''Options:'' @ NL1
     @ ''  -v    Verbose output.'' @ NL1
     @ ''  -i    Ignore non-zero command exit status and continue.'' @ NL1
     @ ''  -n    Dry run: print commands without executing.'' @ NL1
     @ ''  -u    Treat undefined variables in expansions as errors.'' @ NL1
     @ ''  -h, --help  Show this help.'' @ NL1"

text \<open>The arguments: the flags and the file name, or the exit status.\<close>

fun batch_args :: "string list \<Rightarrow> bool \<Rightarrow> string option \<Rightarrow> Batch \<Rightarrow> (int + bool \<times> string option) \<times> Batch" where
  "batch_args [] ignore_errors filename b = (Inr (ignore_errors, filename), b)"
| "batch_args (a # as) ignore_errors filename b =
     (if a = ''-h'' \<or> a = ''--help'' then (Inl 0, say batch_help b)
      else if a = ''-v'' then batch_args as ignore_errors filename (b\<lparr>verbose_flag := True\<rparr>)
      else if a = ''-i'' then batch_args as True filename b
      else if a = ''-n'' then batch_args as ignore_errors filename (b\<lparr>dry_run_flag := True\<rparr>)
      else if a = ''-u'' then batch_args as ignore_errors filename (b\<lparr>undefined_error_flag := True\<rparr>)
      else if hd0 a = CHR ''-'' then (Inl 1, complain_b (''Unknown option: '' @ a @ NL1) b)
      else if filename = None then batch_args as ignore_errors (Some a) b
      else (Inl 1, complain_b (''Too many arguments'' @ NL1) b))"

definition start_batch :: Batch where
  "start_batch = \<lparr>bt_vars = [], verbose_flag = False, dry_run_flag = False, undefined_error_flag = False,
     bt_out = [], bt_err = [], bt_run = []\<rparr>"

definition start_loop :: Loop where
  "start_loop = \<lparr>full_cmd = [], continuing = False, in_if_block = False, execute_if_block = False\<rparr>"

text \<open>\<open>files\<close> are the files there are, \<open>errno\<close> the text of the error when one cannot be opened.\<close>

definition batch_main ::
  "(string list \<Rightarrow> string \<Rightarrow> int) \<Rightarrow> (string \<rightharpoonup> string) \<Rightarrow> string \<Rightarrow> string \<Rightarrow> string list \<Rightarrow> (int \<times> Batch) option" where
  "batch_main sys files errno stdin argv =
     (case batch_args (drop 1 argv) False None start_batch of
        (Inl status, b) \<Rightarrow> Some (status, b)
      | (Inr (ignore_errors, filename), b) \<Rightarrow>
          (case (case filename of None \<Rightarrow> Some stdin | Some f \<Rightarrow> files f) of
             None \<Rightarrow> Some (1, complain_b (the filename @ '': '' @ errno @ NL1) b)
           | Some script \<Rightarrow> do {
               (lp, b) \<leftarrow> batch_loop sys (filename = None) ignore_errors (fgets_lines script) start_loop b;
               Some (0, if in_if_block lp
                        then complain_b (''Error: unterminated if-block (missing '' @ APO @ ''endif'' @ APO @ '')'' @ NL1) b
                        else b) }))"

end
