(* ===== verification/BatchProps.thy ===== *)
theory BatchProps
  imports Batch
begin

text \<open>
  The batch interpreter: it never writes outside an array and keeps its table of variables in bounds; a
  text with references expands to its meaning; running a script file is the reference interpreter of the
  statements it is made of.
\<close>

section \<open>Bounds\<close>

definition table_ok :: "Batch \<Rightarrow> bool" where
  "table_ok b \<longleftrightarrow> distinct (map fst (bt_vars b)) \<and> length (bt_vars b) \<le> 100
     \<and> (\<forall>v \<in> set (bt_vars b). length (fst v) \<le> 31 \<and> length (snd v) \<le> 255)"

lemma say_simps [simp]: "bt_vars (say s b) = bt_vars b" "bt_vars (complain_b s b) = bt_vars b" "bt_vars (say_verbose s b) = bt_vars b"
  "undefined_error_flag (say_verbose s b) = undefined_error_flag b"
  by (simp_all add: say_def complain_b_def say_verbose_def)

lemma table_ok_cong: "bt_vars b = bt_vars b' \<Longrightarrow> table_ok b = table_ok b'"
  by (simp add: table_ok_def)

lemma table_ok_say [simp]: "table_ok (say s b) = table_ok b" "table_ok (complain_b s b) = table_ok b" "table_ok (say_verbose s b) = table_ok b"
  by (auto intro!: table_ok_cong)

lemma table_ok_flags [simp]: "table_ok (b\<lparr>verbose_flag := x\<rparr>) = table_ok b" "table_ok (b\<lparr>dry_run_flag := x\<rparr>) = table_ok b"
  "table_ok (b\<lparr>undefined_error_flag := x\<rparr>) = table_ok b" "table_ok (b\<lparr>bt_run := r\<rparr>) = table_ok b"
  by (simp_all add: table_ok_def)

lemma expand_loop_bounds:
  assumes "length out < outsz"
  shows "\<exists>ok out' b'. expand_loop inp out outsz b = Some (ok, out', b') \<and> length out' < outsz \<and> bt_vars b' = bt_vars b"
  using assms
proof (induction inp out outsz b rule: expand_loop.induct)
  case (1 inp out outsz b)
  show ?case
  proof (cases "inp \<noteq> [] \<and> length out < outsz - 1")
    case False
    then show ?thesis using "1.prems" by (auto simp: expand_loop.simps [of inp out])
  next
    case True
    show ?thesis
    proof (cases "hd0 inp = CHR ''{'' \<and> peek inp 1 = CHR ''{''")
      case False
      have "expand_loop inp out outsz b = expand_loop (tl inp) (out @ [hd inp]) outsz b"
        using True False by (simp only: expand_loop.simps [of inp out] if_True if_False simp_thms)
      moreover have "length (out @ [hd inp]) < outsz" using True by auto
      ultimately show ?thesis using "1.IH"(3) [OF True False] by simp
    next
      case br: True
      obtain vname rest where e: "expand_name (drop 2 inp) 0 = (vname, rest)" by fastforce
      show ?thesis
      proof (cases "hd0 rest = CHR ''}'' \<and> peek rest 1 = CHR ''}''")
        case False
        then show ?thesis using True br e "1.prems" by (subst expand_loop.simps) auto
      next
        case cl: True
        let ?idx = "var_find (bt_vars b) vname"
        show ?thesis
        proof (cases "?idx < length (bt_vars b)")
          case idx: True
          show ?thesis
          proof (cases "length out + length (var_value b ?idx) \<ge> outsz")
            case long: True
            then show ?thesis using True br e cl idx "1.prems" by (subst expand_loop.simps) (auto simp: Let_def)
          next
            case fits: False
            then have "length (out @ var_value b ?idx) < outsz" by simp
            from "1.IH"(1) [OF True br e [symmetric] refl cl refl idx refl fits this] show ?thesis
              using True br e cl idx fits by (subst expand_loop.simps) (simp add: Let_def)
          qed
        next
          case undef: False
          let ?b = "say_verbose (''(undefined variable: '' @ vname @ '')'' @ NL1) b"
          show ?thesis
          proof (cases "undefined_error_flag ?b")
            case u: True
            then show ?thesis using True br e cl undef "1.prems" by (subst expand_loop.simps) (auto simp: Let_def)
          next
            case u: False
            from "1.IH"(2) [OF True br e [symmetric] refl cl refl undef refl u "1.prems"] show ?thesis
              using True br e cl undef u by (subst expand_loop.simps) (simp add: Let_def)
          qed
        qed
      qed
    qed
  qed
qed

lemma expand_bounds:
  assumes "0 < outsz"
  obtains ok out b' where "expand_variables inp outsz b = Some (ok, out, b')" "length out < outsz" "bt_vars b' = bt_vars b"
  using expand_loop_bounds [of "[]" outsz inp b] assms by (auto simp: expand_variables_def)

section \<open>The table\<close>

lemma var_find_le: "var_find vs n \<le> length vs"
  by (induction vs) auto

lemma var_find_iff: "var_find vs n = length vs \<longleftrightarrow> n \<notin> fst ` set vs"
  by (induction vs) auto

lemma var_find_less: "var_find vs n < length vs \<longleftrightarrow> n \<in> fst ` set vs"
  using var_find_iff [of vs n] var_find_le [of vs n] by auto

lemma var_find_nth: "var_find vs n < length vs \<Longrightarrow> fst (vs ! var_find vs n) = n \<and> map_of vs n = Some (snd (vs ! var_find vs n))"
  by (induction vs) auto

lemma take_name_length: "length (fst (take_name p n)) + n \<le> max n 31"
  by (induction p n rule: take_name.induct) (auto simp: Let_def split: prod.splits)

lemma map_of_set_value:
  assumes "distinct (map fst vs)" "i < length vs" "fst (vs ! i) = n"
  shows "map_of (vs[i := (n, v)]) = (map_of vs)(n \<mapsto> v)"
  using assms
proof (induction vs arbitrary: i)
  case (Cons x vs)
  show ?case
  proof (cases i)
    case 0
    then show ?thesis using Cons.prems by (auto simp: fun_eq_iff)
  next
    case (Suc j)
    then have "vs ! j \<in> set vs" "fst (vs ! j) = n" using Cons.prems by auto
    then have "fst x \<noteq> n" using Cons.prems by (metis distinct.simps(2) imageI list.map(2) list.set_map)
    then show ?thesis using Cons Suc by (auto simp: fun_eq_iff)
  qed
qed simp

lemma set_value_ok:
  assumes "table_ok b" "i < length (bt_vars b)" "fst (bt_vars b ! i) = n" "length v \<le> 255"
  shows "table_ok (set_var_value i v b)" "map_of (bt_vars (set_var_value i v b)) = (map_of (bt_vars b))(n \<mapsto> v)"
    "length (bt_vars (set_var_value i v b)) = length (bt_vars b)"
proof -
  have f: "map fst ((bt_vars b)[i := (n, v)]) = map fst (bt_vars b)"
    using assms(2,3) by (simp add: map_update list_update_same_conv)
  have "length n \<le> 31" using assms(1-3) by (auto simp: table_ok_def)
  then have "\<forall>x \<in> set ((bt_vars b)[i := (n, v)]). length (fst x) \<le> 31 \<and> length (snd x) \<le> 255"
    using assms(1,4) set_update_subset_insert [of "bt_vars b" i "(n, v)"] by (auto simp: table_ok_def)
  then show "table_ok (set_var_value i v b)"
    using assms(1) by (simp add: table_ok_def set_var_value_def assms(3) f)
  show "map_of (bt_vars (set_var_value i v b)) = (map_of (bt_vars b))(n \<mapsto> v)"
    using assms map_of_set_value [of "bt_vars b" i n v] by (simp add: set_var_value_def table_ok_def)
qed (simp add: set_var_value_def)

lemma var_ensure_ok:
  assumes "table_ok b" "length n \<le> 31" "n \<in> dom (map_of (bt_vars b)) \<or> length (bt_vars b) < 100"
  obtains i b' where "var_ensure n b = (i, b')" "i < length (bt_vars b')" "fst (bt_vars b' ! i) = n" "table_ok b'"
    "map_of (bt_vars b') = (map_of (bt_vars b))(n \<mapsto> case map_of (bt_vars b) n of None \<Rightarrow> [] | Some v \<Rightarrow> v)"
    "b' = b\<lparr>bt_vars := bt_vars b'\<rparr>" "var_value b' i = (case map_of (bt_vars b) n of None \<Rightarrow> [] | Some v \<Rightarrow> v)"
    "dom (map_of (bt_vars b')) = insert n (dom (map_of (bt_vars b)))"
proof (cases "var_find (bt_vars b) n < length (bt_vars b)")
  case True
  have f: "fst (bt_vars b ! var_find (bt_vars b) n) = n"
    "map_of (bt_vars b) n = Some (snd (bt_vars b ! var_find (bt_vars b) n))" using var_find_nth [OF True] by auto
  show ?thesis
    by (rule that [of "var_find (bt_vars b) n" b])
      (use True f assms in \<open>auto simp: var_ensure_def Let_def var_value_def fun_upd_idem_iff insert_dom\<close>)
next
  case False
  then have e: "n \<notin> fst ` set (bt_vars b)" using var_find_less [of "bt_vars b" n] by simp
  then have m: "map_of (bt_vars b) n = None" by (simp add: map_of_eq_None_iff)
  let ?b = "b\<lparr>bt_vars := bt_vars b @ [(n, [])]\<rparr>"
  have l: "length (bt_vars b) < 100" using assms(3) m by auto
  have u: "map_of (bt_vars b @ [(n, [])]) = (map_of (bt_vars b))(n \<mapsto> [])"
    using m by (auto simp: fun_eq_iff map_add_def split: option.splits)
  show ?thesis
    by (rule that [of "length (bt_vars b)" ?b])
      (use False e m l u assms(1,2) in \<open>auto simp: var_ensure_def Let_def table_ok_def var_value_def\<close>)
qed

section \<open>Every operation keeps the table in bounds\<close>

lemma strip_trailing_ws_length: "length (strip_trailing_ws s) \<le> length s"
  using length_dropWhile_le [of isspace "rev s"] by (simp add: strip_trailing_ws_def)

lemma quoted_loop_length: "length (fst (quoted_loop p prev out limit)) \<le> max (length out) limit"
  by (induction p prev out limit rule: quoted_loop.induct) (auto split: list.splits)

lemma parse_value_ok:
  "table_ok b \<Longrightarrow> parse_value p b = (r, b') \<Longrightarrow> table_ok b' \<and> (\<forall>raw. r = Some raw \<longrightarrow> length raw \<le> 255)"
  using quoted_loop_length [of "tl p" QUOTE "[]" 255] strip_trailing_ws_length [of "take 255 p"]
  by (auto simp: parse_value_def Let_def split: if_splits prod.splits)

lemma assign_var_table_ok:
  assumes "table_ok b" "length name \<le> 31"
  shows "table_ok (snd (assign_var app name piece b))"
proof -
  obtain i b' where e: "var_ensure name b = (i, b')" by fastforce
  have fst_ok: "\<And>i b v. table_ok b \<Longrightarrow> i < length (bt_vars b) \<Longrightarrow> length v \<le> 255 \<Longrightarrow> table_ok (set_var_value i v b)"
    using set_value_ok(1) by blast
  have vl: "\<And>i b. table_ok b \<Longrightarrow> i < length (bt_vars b) \<Longrightarrow> length (var_value b i) \<le> 255"
    by (auto simp: table_ok_def var_value_def)
  have te: "table_ok b'"
    using e assms var_find_less [of "bt_vars b" name]
    by (auto simp: var_ensure_def Let_def table_ok_def split: if_splits)
  have ti: "i \<noteq> length (bt_vars b') \<Longrightarrow> i < length (bt_vars b')"
    using e by (auto simp: var_ensure_def Let_def split: if_splits)
  have tf: "var_find (bt_vars b) name \<noteq> length (bt_vars b) \<Longrightarrow> var_find (bt_vars b) name < length (bt_vars b)"
    using var_find_le [of "bt_vars b" name] by simp
  show ?thesis
    using assms e te ti tf by (auto simp: assign_var_def Let_def intro!: fst_ok dest: vl)
qed

lemma remove_var_table_ok:
  assumes "table_ok b" "i < length (bt_vars b)"
  shows "table_ok (remove_var i b)"
    "map_of (bt_vars (remove_var i b)) = (map_of (bt_vars b))(fst (bt_vars b ! i) := None)"
proof -
  obtain vs x where v: "bt_vars b = vs @ [x]" using assms(2) by (cases "bt_vars b" rule: rev_cases) auto
  have r: "bt_vars (remove_var i b) = (if i = length vs then vs else vs[i := x])"
    using assms(2) v by (auto simp: remove_var_def nth_append list_update_append)
  have d: "distinct (map fst vs)" "fst x \<notin> fst ` set vs" using assms(1) v by (auto simp: table_ok_def)
  show "table_ok (remove_var i b)"
  proof (cases "i = length vs")
    case True
    then show ?thesis using r v assms(1) by (simp add: table_ok_def)
  next
    case False
    then have "i < length vs" using assms(2) v by simp
    moreover have "distinct (map fst (vs[i := x]))"
      using d by (simp add: map_update distinct_list_update)
    ultimately show ?thesis
      using False r v assms(1) set_update_subset_insert [of vs i x] by (auto simp: table_ok_def)
  qed
  show "map_of (bt_vars (remove_var i b)) = (map_of (bt_vars b))(fst (bt_vars b ! i) := None)"
  proof (cases "i = length vs")
    case True
    have "map_of vs (fst x) = None" using d by (simp add: map_of_eq_None_iff)
    then show ?thesis using True r v by (auto simp: fun_eq_iff nth_append map_add_def split: option.splits)
  next
    case False
    then have i: "i < length vs" using assms(2) v by simp
    have vs: "vs = take i vs @ vs ! i # drop (Suc i) vs" "vs[i := x] = take i vs @ x # drop (Suc i) vs"
      using i by (simp_all add: id_take_nth_drop upd_conv_take_nth_drop)
    define p y q where p: "p = take i vs" "y = vs ! i" "q = drop (Suc i) vs"
    have b: "bt_vars b = p @ y # q @ [x]" using v vs(1) p by simp
    then have "distinct (map fst (p @ y # q @ [x]))" using assms(1) by (simp add: table_ok_def)
    then have "map_of p (fst y) = None" "map_of q (fst y) = None" "map_of p (fst x) = None" "map_of q (fst x) = None" "fst x \<noteq> fst y"
      by (auto simp: map_of_eq_None_iff)
    moreover have "bt_vars (remove_var i b) = p @ x # q" "bt_vars b ! i = y"
      using r v False vs p i by (simp_all add: nth_append)
    ultimately show ?thesis using b by (auto simp: fun_eq_iff map_add_def split: option.splits)
  qed
qed

lemma bt_vars_upd [simp]: "table_ok (b\<lparr>bt_vars := []\<rparr>)"
  by (simp add: table_ok_def)

lemma expand_table_ok:
  assumes "table_ok b" "0 < outsz"
  obtains ok out b' where "expand_variables inp outsz b = Some (ok, out, b')" "length out < outsz" "table_ok b'"
  using expand_bounds [OF assms(2), of inp b] assms(1) table_ok_cong by metis

lemma cmd_var_total:
  assumes "table_ok b"
  shows "\<exists>r b'. cmd_var line b = Some (r, b') \<and> table_ok b'"
proof -
  define p where "p = dropWhile isspace (dropWhile (\<lambda>c. \<not> isspace c) (dropWhile isspace line))"
  obtain name q where n: "take_name p 0 = (name, q)" by fastforce
  have ln: "length name \<le> 31" using take_name_length [of p 0] n by simp
  show ?thesis
  proof (cases "name = []")
    case True
    then show ?thesis using assms n by (simp add: cmd_var_def Let_def p_def)
  next
    case name: False
    show ?thesis
    proof (cases "parse_operator (dropWhile isspace q)")
      case (Inl msg)
      then show ?thesis using assms n name by (simp add: cmd_var_def Let_def p_def)
    next
      case op: (Inr x)
      obtain opr u where x: "x = (opr, u)" by fastforce
      obtain v b1 where v: "parse_value (dropWhile isspace u) b = (v, b1)" by fastforce
      then have b1: "table_ok b1" using parse_value_ok [OF assms v] by simp
      show ?thesis
      proof (cases v)
        case None
        then show ?thesis using n name op x v b1 by (simp add: cmd_var_def Let_def p_def)
      next
        case (Some raw)
        let ?app = "opr = ''+='' \<or> opr = ''+:=''"
        obtain ok out b2 where e: "expand_variables raw 256 b1 = Some (ok, out, b2)" "table_ok b2"
          by (rule expand_table_ok [OF b1, of 256 raw]) auto
        have a: "\<And>w c. table_ok c \<Longrightarrow> \<exists>r b'. assign_var ?app name w c = (r, b') \<and> table_ok b'"
          using assign_var_table_ok [OF _ ln] by (metis prod.collapse)
        have "cmd_var line b = (if opr = '':='' \<or> opr = ''+:='' then
            (if \<not> ok then Some (-1, b2) else Some (assign_var ?app name out b2))
            else Some (assign_var ?app name raw b1))"
          using n name op x v Some e(1) by (simp add: cmd_var_def Let_def p_def)
        then show ?thesis using a [OF b1, of raw] a [OF e(2), of out] e(2) by auto
      qed
    qed
  qed
qed

lemma cmd_unset_table_ok: "table_ok b \<Longrightarrow> table_ok (snd (cmd_unset line b))"
proof -
  assume a: "table_ok b"
  obtain n q where "take_name (dropWhile isspace (dropWhile (\<lambda>c. \<not> isspace c) line)) 0 = (n, q)" by fastforce
  then show ?thesis using a remove_var_table_ok(1) [OF a] var_find_le [of "bt_vars b" n]
    by (auto simp: cmd_unset_def Let_def)
qed

lemma run_builtin_total:
  assumes "table_ok b"
  shows "\<exists>r b'. run_builtin f line b = Some (r, b') \<and> table_ok b'"
  using cmd_var_total [OF assms, of line] cmd_unset_table_ok [OF assms, of line] assms
  by (cases f) (auto simp: run_builtin_def cmd_vars_def cmd_clearvars_def prod_eq_iff)

definition step_ok :: "(bool \<times> Loop \<times> Batch) option \<Rightarrow> bool" where
  "step_ok r \<longleftrightarrow> (\<exists>go lp b. r = Some (go, lp, b) \<and> table_ok b)"

lemma step_ok_Some [simp]: "step_ok (Some (go, lp, b)) = table_ok b" "\<not> step_ok None"
  by (simp_all add: step_ok_def)

lemma parse_one_arg_table_ok: "table_ok b \<Longrightarrow> table_ok (snd (parse_one_arg p n b))"
  by (auto simp: parse_one_arg_def Let_def split: prod.splits)

lemma open_block_total:
  assumes "table_ok b"
  shows "step_ok (open_block eq cmd lp b)"
proof -
  define w where "w = (if eq then ''ifeq'' else ''ifneq'')"
  obtain r1 b1 where p1: "parse_one_arg (drop (length w) cmd) 256 b = (r1, b1)" by fastforce
  then have b1: "table_ok b1" using parse_one_arg_table_ok [OF assms] by (metis snd_conv)
  show ?thesis
  proof (cases "in_if_block lp \<or> r1 = None")
    case True
    then show ?thesis using assms b1 p1 by (auto simp: open_block_def Let_def w_def [symmetric])
  next
    case False
    then obtain a1 q where r1: "r1 = Some (a1, q)" and nif: "\<not> in_if_block lp" by auto
    obtain r2 b2 where p2: "parse_one_arg q 256 b1 = (r2, b2)" by fastforce
    then have b2: "table_ok b2" using parse_one_arg_table_ok [OF b1] by (metis snd_conv)
    show ?thesis
    proof (cases r2)
      case None
      then show ?thesis using b2 p1 p2 r1 nif by (simp add: open_block_def Let_def w_def [symmetric])
    next
      case (Some x)
      obtain a2 q2 where x: "x = (a2, q2)" by fastforce
      obtain ok e1 b3 where e1: "expand_variables a1 256 b2 = Some (ok, e1, b3)" "table_ok b3"
        by (rule expand_table_ok [OF b2, of 256 a1]) auto
      obtain ok2 e2 b4 where e2: "expand_variables a2 256 b3 = Some (ok2, e2, b4)" "table_ok b4"
        by (rule expand_table_ok [OF e1(2), of 256 a2]) auto
      show ?thesis using p1 p2 r1 nif Some x e1 e2
        by (simp add: open_block_def expand_arg_token_def Let_def w_def [symmetric])
    qed
  qed
qed

lemma run_command_total:
  assumes "table_ok b"
  shows "step_ok (run_command sys ia ig cmd lp b)"
proof (cases "find_builtin cmd")
  case (Some f)
  then show ?thesis using run_builtin_total [OF assms, of f "full_cmd lp"]
    by (auto simp: run_command_def Let_def)
next
  case None
  obtain ok out b2 where e: "expand_variables cmd 8192 b = Some (ok, out, b2)" "table_ok b2"
    by (rule expand_table_ok [OF assms, of 8192 cmd]) auto
  then show ?thesis using None by (simp add: run_command_def Let_def)
qed

lemma run_line_total: "table_ok b \<Longrightarrow> step_ok (run_line sys ia ig lp b)"
  using open_block_total run_command_total
  by (simp add: run_line_def Let_def close_block_def cong: if_cong)

lemma process_line_total: "table_ok b \<Longrightarrow> step_ok (process_line sys ia ig l lp b)"
  by (auto simp: process_line_def Let_def join_line_def first_line_def intro!: run_line_total
      split: prod.splits if_splits)

lemma batch_loop_total:
  "table_ok b \<Longrightarrow> \<exists>lp' b'. batch_loop sys ia ig ls lp b = Some (lp', b') \<and> table_ok b'"
proof (induction ls arbitrary: lp b)
  case Nil
  then show ?case by (simp add: prompt_def Let_def)
next
  case (Cons l ls)
  have "table_ok (prompt ia lp b)" using Cons.prems by (simp add: prompt_def)
  then obtain go lp' b' where "process_line sys ia ig l lp (prompt ia lp b) = Some (go, lp', b')" "table_ok b'"
    using process_line_total step_ok_def by metis
  then show ?case using Cons.IH by simp
qed

lemma batch_args_table_ok: "table_ok b \<Longrightarrow> table_ok (snd (batch_args as ig f b))"
  by (induction as ig f b rule: batch_args.induct) (simp_all cong: if_cong)


section \<open>The meaning of a text with references\<close>

datatype piece = Plain string | Ref string

fun render :: "piece list \<Rightarrow> string" where
  "render [] = []"
| "render (Plain s # ps) = s @ render ps"
| "render (Ref n # ps) = ''{{'' @ n @ ''}}'' @ render ps"

fun meaning :: "(string \<rightharpoonup> string) \<Rightarrow> piece list \<Rightarrow> string" where
  "meaning m [] = []"
| "meaning m (Plain s # ps) = s @ meaning m ps"
| "meaning m (Ref n # ps) = (case m n of None \<Rightarrow> [] | Some v \<Rightarrow> v) @ meaning m ps"

definition name_ok :: "string \<Rightarrow> bool" where
  "name_ok n \<longleftrightarrow> n \<noteq> [] \<and> length n \<le> 31 \<and> list_all is_valid_var_char n"

fun piece_ok :: "piece \<Rightarrow> bool" where
  "piece_ok (Plain s) = list_all (\<lambda>c. c \<noteq> CHR ''{'' \<and> c \<noteq> NUL) s"
| "piece_ok (Ref n) = name_ok n"

abbreviation "pieces_ok ps \<equiv> list_all piece_ok ps"

lemma valid_not_brace: "is_valid_var_char c \<Longrightarrow> c \<noteq> CHR ''}'' \<and> c \<noteq> CHR ''{'' \<and> c \<noteq> NUL \<and> \<not> isspace c"
  by (auto simp: is_valid_var_char_def isalnum_def isdigit_def islower_def isspace_def code_def)

lemma expand_name_valid:
  "list_all is_valid_var_char n \<Longrightarrow> length n + k \<le> 31 \<Longrightarrow> expand_name (n @ ''}}'' @ r) k = (n, ''}}'' @ r)"
  by (induction n arbitrary: k) (auto simp: hd0_def dest: valid_not_brace)

lemma take_name_valid:
  "list_all is_valid_var_char n \<Longrightarrow> length n + k \<le> 31 \<Longrightarrow> \<not> is_valid_var_char c
   \<Longrightarrow> take_name (n @ c # r) k = (n, c # r)"
  by (induction n arbitrary: k) auto

lemma var_lookup:
  "map_of (bt_vars b) n = (if var_find (bt_vars b) n < length (bt_vars b)
     then Some (var_value b (var_find (bt_vars b) n)) else None)"
  using var_find_nth [of "bt_vars b" n] var_find_less [of "bt_vars b" n]
  by (auto simp: var_value_def map_of_eq_None_iff)

lemma expand_loop_plain:
  assumes "list_all (\<lambda>c. c \<noteq> CHR ''{'' \<and> c \<noteq> NUL) s" "length out + length s < outsz"
  shows "expand_loop (s @ inp) out outsz b = expand_loop inp (out @ s) outsz b"
  using assms
proof (induction s arbitrary: out)
  case (Cons c s)
  have "expand_loop ((c # s) @ inp) out outsz b = expand_loop (s @ inp) (out @ [c]) outsz b"
    using Cons.prems by (auto simp: expand_loop.simps [of "c # s @ inp"] hd0_def)
  then show ?case using Cons by simp
qed simp

lemma expand_loop_ref:
  assumes "name_ok n" "length out < outsz - 1" "\<not> verbose_flag b"
    "\<not> undefined_error_flag b \<or> n \<in> dom m" "m = map_of (bt_vars b)"
    "length out + length (case m n of None \<Rightarrow> [] | Some v \<Rightarrow> v) < outsz"
  shows "expand_loop (''{{'' @ n @ ''}}'' @ inp) out outsz b
         = expand_loop inp (out @ (case m n of None \<Rightarrow> [] | Some v \<Rightarrow> v)) outsz b"
proof -
  have e: "expand_name (n @ CHR ''}'' # CHR ''}'' # inp) 0 = (n, ''}}'' @ inp)"
    using expand_name_valid [of n 0 inp] assms(1) by (simp add: name_ok_def)
  show ?thesis using assms(2-6) e var_lookup [of b n]
    by (simp add: expand_loop.simps [of "CHR ''{'' # CHR ''{'' # n @ CHR ''}'' # CHR ''}'' # inp"] hd0_def peek_def Let_def
        say_verbose_def domIff split: if_splits option.splits)
qed

lemma expand_loop_end:
  assumes "length out = outsz - 1" "0 < outsz"
  shows "expand_loop inp out outsz b = Some (True, out, b)"
  using assms by (simp add: expand_loop.simps [of inp])

lemma expand_loop_meaning:
  assumes "pieces_ok ps" "m = map_of (bt_vars b)" "\<not> verbose_flag b"
    "\<not> undefined_error_flag b \<or> (\<forall>n. Ref n \<in> set ps \<longrightarrow> n \<in> dom m)"
    "length out + length (meaning m ps) < outsz"
  shows "expand_loop (render ps) out outsz b = Some (True, out @ meaning m ps, b)"
  using assms
proof (induction ps arbitrary: out)
  case Nil
  then show ?case by (simp add: expand_loop.simps [of "[]"])
next
  case (Cons p ps)
  show ?case
  proof (cases p)
    case (Plain s)
    then show ?thesis using Cons expand_loop_plain [of s out outsz "render ps" b] by auto
  next
    case (Ref n)
    show ?thesis
    proof (cases "length out < outsz - 1")
      case True
      then show ?thesis using Cons Ref expand_loop_ref [of n out outsz b m "render ps"] by auto
    next
      case False
      then have "length out = outsz - 1" "length (meaning m (p # ps)) = 0" using Cons.prems(5) by linarith+
      then show ?thesis using expand_loop_end [of out outsz] Cons.prems(5) by simp
    qed
  qed
qed

text \<open>
  A text made of plain pieces and references \<open>{{name}}\<close> expands to the plain pieces with the value of
  the variable for each reference, empty for one that is not set unless \<open>-u\<close> asks for an error; the result
  needs to fit the array with its NUL, and nothing but the result changes.
\<close>

theorem expand_substitutes:
  assumes "pieces_ok ps" "\<not> verbose_flag b"
    "\<not> undefined_error_flag b \<or> (\<forall>n. Ref n \<in> set ps \<longrightarrow> n \<in> fst ` set (bt_vars b))"
    "length (meaning (map_of (bt_vars b)) ps) < outsz"
  shows "expand_variables (render ps) outsz b = Some (True, meaning (map_of (bt_vars b)) ps, b)"
  using expand_loop_meaning [of ps "map_of (bt_vars b)" b "[]" outsz] assms
  by (simp add: expand_variables_def dom_map_of_conv_image_fst)

theorem expand_substitutes_witness:
  "expand_variables ''cc {{out}}.c -o {{out}}'' 8192 (start_batch\<lparr>bt_vars := [(''out'', ''ls'')]\<rparr>)
     = Some (True, ''cc ls.c -o ls'', start_batch\<lparr>bt_vars := [(''out'', ''ls'')]\<rparr>)"
  using expand_substitutes [of "[Plain ''cc '', Ref ''out'', Plain ''.c -o '', Ref ''out'']"
      "start_batch\<lparr>bt_vars := [(''out'', ''ls'')]\<rparr>" 8192]
  by (simp add: start_batch_def name_ok_def is_valid_var_char_def isalnum_def islower_def code_def)

section \<open>Quoted text\<close>

fun escape :: "string \<Rightarrow> string" where
  "escape [] = []"
| "escape (c # s) = (if c = QUOTE \<or> c = BACKSLASH then [BACKSLASH, c] else [c]) @ escape s"

definition quoted :: "string \<Rightarrow> string" where
  "quoted s = QUOTE # escape s @ [QUOTE]"

lemma quoted_loop_escape:
  "length out + length s < limit \<Longrightarrow> quoted_loop (escape s @ QUOTE # r) prev out limit = (out @ s, QUOTE, r)"
  by (induction s arbitrary: out prev) auto

lemma quoted_dropWhile [simp]: "dropWhile isspace (quoted s @ r) = quoted s @ r" "hd0 (quoted s @ r) = QUOTE"
   "tl (quoted s @ r) = escape s @ QUOTE # r" "quoted s \<noteq> []"
  by (simp_all add: quoted_def hd0_def isspace_def code_def)

lemma parse_value_quoted: "length s \<le> 254 \<Longrightarrow> parse_value (quoted s) b = (Some s, b)"
  using quoted_loop_escape [of "[]" s 255 "[]"] quoted_dropWhile(1-3) [of s "[]"]
  by (simp add: parse_value_def Let_def del: quoted_dropWhile)

lemma parse_one_arg_quoted:
  "length s \<le> 254 \<Longrightarrow> parse_one_arg (CHR '' '' # quoted s @ r) 256 b = (Some (s, r), b)"
  using quoted_loop_escape [of "[]" s 255 r]
  by (simp add: parse_one_arg_def Let_def isspace_def code_def)

section \<open>Scripts\<close>

datatype stmt =
    SetTo string string
  | AppendTo string string
  | SetExp string "piece list"
  | AppendExp string "piece list"
  | Unset string
  | ClearAll
  | Run "piece list"

datatype item = One stmt | Block bool "piece list" "piece list" "stmt list"

fun print_stmt :: "stmt \<Rightarrow> string" where
  "print_stmt (SetTo n v) = ''var '' @ n @ '' = '' @ quoted v"
| "print_stmt (AppendTo n v) = ''var '' @ n @ '' += '' @ quoted v"
| "print_stmt (SetExp n t) = ''var '' @ n @ '' := '' @ quoted (render t)"
| "print_stmt (AppendExp n t) = ''var '' @ n @ '' +:= '' @ quoted (render t)"
| "print_stmt (Unset n) = ''unset '' @ n"
| "print_stmt ClearAll = ''clearvars''"
| "print_stmt (Run t) = render t"

fun print_item :: "item \<Rightarrow> string list" where
  "print_item (One st) = [print_stmt st]"
| "print_item (Block eq t u sts) =
     ((if eq then ''ifeq'' else ''ifneq'') @ '' '' @ quoted (render t) @ '' '' @ quoted (render u))
     # map print_stmt sts @ [''endif'']"

definition script_text :: "item list \<Rightarrow> string" where
  "script_text its = concat (map (\<lambda>l. l @ NL1) (concat (map print_item its)))"

text \<open>What a script means: the variables, the commands run so far, and whether to go on.\<close>

type_synonym env = "(string \<rightharpoonup> string) \<times> string list"

definition append_value :: "(string \<rightharpoonup> string) \<Rightarrow> string \<Rightarrow> string \<Rightarrow> (string \<rightharpoonup> string)" where
  "append_value m n v = m(n \<mapsto> take 255 ((case m n of None \<Rightarrow> [] | Some w \<Rightarrow> w) @ v))"

fun ref_stmt :: "(string list \<Rightarrow> string \<Rightarrow> int) \<Rightarrow> bool \<Rightarrow> stmt \<Rightarrow> env \<Rightarrow> bool \<times> env" where
  "ref_stmt sys ig (SetTo n v) (m, rs) = (True, m(n \<mapsto> v), rs)"
| "ref_stmt sys ig (AppendTo n v) (m, rs) = (True, append_value m n v, rs)"
| "ref_stmt sys ig (SetExp n t) (m, rs) = (True, m(n \<mapsto> meaning m t), rs)"
| "ref_stmt sys ig (AppendExp n t) (m, rs) = (True, append_value m n (meaning m t), rs)"
| "ref_stmt sys ig (Unset n) (m, rs) = (True, m(n := None), rs)"
| "ref_stmt sys ig ClearAll (m, rs) = (True, Map.empty, rs)"
| "ref_stmt sys ig (Run t) (m, rs) = (sys rs (meaning m t) = 0 \<or> ig, m, rs @ [meaning m t])"

fun ref_stmts :: "(string list \<Rightarrow> string \<Rightarrow> int) \<Rightarrow> bool \<Rightarrow> stmt list \<Rightarrow> env \<Rightarrow> bool \<times> env" where
  "ref_stmts sys ig [] e = (True, e)"
| "ref_stmts sys ig (st # sts) e =
     (let (go, e) = ref_stmt sys ig st e in if go then ref_stmts sys ig sts e else (False, e))"

fun ref_item :: "(string list \<Rightarrow> string \<Rightarrow> int) \<Rightarrow> bool \<Rightarrow> item \<Rightarrow> env \<Rightarrow> bool \<times> env" where
  "ref_item sys ig (One st) e = ref_stmt sys ig st e"
| "ref_item sys ig (Block eq t u sts) e =
     (if (meaning (fst e) t = meaning (fst e) u) = eq then ref_stmts sys ig sts e else (True, e))"

fun ref_items :: "(string list \<Rightarrow> string \<Rightarrow> int) \<Rightarrow> bool \<Rightarrow> item list \<Rightarrow> env \<Rightarrow> bool \<times> env" where
  "ref_items sys ig [] e = (True, e)"
| "ref_items sys ig (it # its) e =
     (let (go, e) = ref_item sys ig it e in if go then ref_items sys ig its e else (False, e))"

text \<open>The scripts it is about: lines that fit, names and values that fit, no special characters.\<close>

definition line_char :: "char \<Rightarrow> bool" where
  "line_char c \<longleftrightarrow> c \<notin> {CHR 0x0A, CHR 0x0D, NUL}"

definition text_ok :: "string \<Rightarrow> bool" where
  "text_ok s \<longleftrightarrow> list_all line_char s \<and> length s \<le> 254"

fun cost :: "piece list \<Rightarrow> nat" where
  "cost [] = 0"
| "cost (Plain s # ps) = length s + cost ps"
| "cost (Ref n # ps) = 255 + cost ps"

definition template_ok :: "piece list \<Rightarrow> bool" where
  "template_ok t \<longleftrightarrow> pieces_ok t \<and> text_ok (render t) \<and> cost t \<le> 255"

definition script_words :: "string list" where
  "script_words = [''ifeq'', ''ifneq'', ''endif'', ''var'', ''unset'', ''vars'', ''clearvars'']"

definition command_ok :: "string \<Rightarrow> bool" where
  "command_ok l \<longleftrightarrow> l \<noteq> [] \<and> length l \<le> 1022 \<and> list_all line_char l \<and> \<not> isspace (hd l) \<and> hd l \<noteq> CHR '';''
     \<and> last l \<noteq> BACKSLASH \<and> list_all (\<lambda>w. \<not> first_word w l) script_words"

fun stmt_ok :: "stmt \<Rightarrow> bool" where
  "stmt_ok (SetTo n v) = (name_ok n \<and> text_ok v)"
| "stmt_ok (AppendTo n v) = (name_ok n \<and> text_ok v)"
| "stmt_ok (SetExp n t) = (name_ok n \<and> template_ok t)"
| "stmt_ok (AppendExp n t) = (name_ok n \<and> template_ok t)"
| "stmt_ok (Unset n) = name_ok n"
| "stmt_ok ClearAll = True"
| "stmt_ok (Run t) = (pieces_ok t \<and> command_ok (render t) \<and> cost t \<le> 8191)"

fun item_ok :: "item \<Rightarrow> bool" where
  "item_ok (One st) = stmt_ok st"
| "item_ok (Block eq t u sts) = (template_ok t \<and> template_ok u \<and> length (render t) + length (render u) \<le> 500 \<and> list_all stmt_ok sts)"

fun stmt_names :: "stmt \<Rightarrow> string list" where
  "stmt_names (SetTo n v) = [n]"
| "stmt_names (AppendTo n v) = [n]"
| "stmt_names (SetExp n t) = [n]"
| "stmt_names (AppendExp n t) = [n]"
| "stmt_names st = []"

fun item_names :: "item \<Rightarrow> string list" where
  "item_names (One st) = stmt_names st"
| "item_names (Block eq t u sts) = concat (map stmt_names sts)"

definition script_ok :: "item list \<Rightarrow> bool" where
  "script_ok its \<longleftrightarrow> list_all item_ok its \<and> length (remdups (concat (map item_names its))) \<le> 100"

subsection \<open>One statement\<close>

definition plain :: "Batch \<Rightarrow> bool" where
  "plain b \<longleftrightarrow> \<not> verbose_flag b \<and> \<not> dry_run_flag b \<and> \<not> undefined_error_flag b"

definition sim :: "string set \<Rightarrow> env \<Rightarrow> Batch \<Rightarrow> bool" where
  "sim N e b \<longleftrightarrow> table_ok b \<and> plain b \<and> e = (map_of (bt_vars b), bt_run b) \<and> dom (fst e) \<subseteq> N \<and> finite N \<and> card N \<le> 100"

lemma sim_value: "sim N (m, rs) b \<Longrightarrow> m n = Some v \<Longrightarrow> length v \<le> 255"
  by (auto simp: sim_def table_ok_def dest!: map_of_SomeD)

lemma sim_complain [simp]: "sim N e (complain_b s b) = sim N e b" "sim N e (say s b) = sim N e b" "sim N e (say_verbose s b) = sim N e b"
  by (simp_all add: sim_def plain_def) (simp_all add: complain_b_def say_def say_verbose_def)

lemma sim_room:
  assumes "sim N (m, rs) b" "n \<in> N"
  shows "n \<in> dom (map_of (bt_vars b)) \<or> length (bt_vars b) < 100"
proof (rule disjCI)
  assume "\<not> length (bt_vars b) < 100"
  moreover have "card (dom m) = length (bt_vars b)"
    using assms distinct_card [of "map fst (bt_vars b)"] by (simp add: sim_def table_ok_def dom_map_of_conv_image_fst)
  ultimately have "card N \<le> card (dom m)" "dom m \<subseteq> N" "finite N" using assms(1) by (auto simp: sim_def)
  then have "dom m = N" by (metis card_seteq)
  then show "n \<in> dom (map_of (bt_vars b))" using assms by (auto simp: sim_def)
qed

lemma assign_var_sim:
  assumes s: "sim N (m, rs) b" and n: "n \<in> N" "name_ok n" and v: "length v \<le> 255"
  shows "\<exists>b'. assign_var app n v b = (0, b') \<and> sim N (if app then append_value m n v else m(n \<mapsto> v), rs) b'"
proof -
  let ?old = "case m n of None \<Rightarrow> [] | Some w \<Rightarrow> w"
  have m: "map_of (bt_vars b) = m" and t: "table_ok b" using s by (auto simp: sim_def)
  obtain i b1 where e: "var_ensure n b = (i, b1)" "i < length (bt_vars b1)" "fst (bt_vars b1 ! i) = n" "table_ok b1"
    "map_of (bt_vars b1) = m(n \<mapsto> ?old)" "b1 = b\<lparr>bt_vars := bt_vars b1\<rparr>" "var_value b1 i = ?old"
    using var_ensure_ok [OF t _ sim_room [OF s n(1)]] n(2) m unfolding name_ok_def by metis
  have fe: "(if app \<and> var_find (bt_vars b) n \<noteq> length (bt_vars b) then (var_find (bt_vars b) n, b) else var_ensure n b) = (i, b1)"
    using e(1) var_find_le [of "bt_vars b" n] by (auto simp: var_ensure_def Let_def)
  have "bt_run b1 = bt_run b" "plain b1 = plain b" by (subst e(6), simp add: plain_def)+
  then have r: "bt_run b1 = rs" "plain b1" using s by (simp_all add: sim_def)
  have put: "\<And>w. length w \<le> 255 \<Longrightarrow> sim N (m(n \<mapsto> w), rs) (set_var_value i w b1)"
  proof -
    fix w :: string assume w: "length w \<le> 255"
    show "sim N (m(n \<mapsto> w), rs) (set_var_value i w b1)"
      using set_value_ok [OF e(4,2,3) w] r s n(1) e(5)
      by (auto simp: sim_def plain_def set_var_value_def)
  qed
  have lo: "length ?old \<le> 255" using sim_value [OF s] by (auto split: option.splits)
  show ?thesis
  proof (cases app)
    case True
    have tk: "take 255 (?old @ v) = ?old @ take (255 - length ?old) v" using lo by simp
    show ?thesis
      using True fe e(2,7) lo put [of "?old @ v"] put [of "?old @ take (255 - length ?old) v"]
      by (auto simp: assign_var_def Let_def append_value_def)
  next
    case False
    then show ?thesis using fe e(2) put [OF v] v by (auto simp: assign_var_def Let_def)
  qed
qed

definition idle :: "Loop \<Rightarrow> bool" where
  "idle lp \<longleftrightarrow> full_cmd lp = [] \<and> \<not> continuing lp"

definition line_ok :: "string \<Rightarrow> bool" where
  "line_ok l \<longleftrightarrow> l \<noteq> [] \<and> length l \<le> 1022 \<and> list_all line_char l \<and> \<not> isspace (hd l) \<and> hd l \<noteq> CHR '';''
     \<and> last l \<noteq> BACKSLASH"

lemma process_line_whole:
  assumes "line_ok l" "idle lp"
  shows "process_line sys ia ig (l @ NL1) lp b = run_line sys ia ig (lp\<lparr>full_cmd := l\<rparr>) b"
proof -
  have "takeWhile (\<lambda>c. c \<notin> {CHR 0x0D, CHR 0x0A, NUL}) (l @ NL1) = l"
    using assms(1) by (subst takeWhile_append2) (auto simp: line_ok_def line_char_def list_all_iff)
  moreover have "hd0 l \<noteq> CHR '';''" using assms(1) by (cases l) (auto simp: line_ok_def)
  ultimately show ?thesis
    using assms by (cases lp) (simp add: process_line_def line_ok_def idle_def Let_def first_line_def)
qed

lemma idle_again [simp]: "idle lp \<Longrightarrow> lp\<lparr>full_cmd := []\<rparr> = lp"
  by (cases lp) (simp add: idle_def)

lemma line_ok_blank: "line_ok l \<Longrightarrow> dropWhile isspace l = l"
  by (cases l) (auto simp: line_ok_def)

text \<open>A line that is no block command.\<close>

definition active :: "Loop \<Rightarrow> bool" where
  "active lp \<longleftrightarrow> idle lp \<and> (in_if_block lp \<longrightarrow> execute_if_block lp)"

definition block_word :: "string \<Rightarrow> bool" where
  "block_word l \<longleftrightarrow> first_word ''ifeq'' l \<or> first_word ''ifneq'' l \<or> first_word ''endif'' l"

lemma process_line_command:
  assumes "line_ok l" "active lp" "\<not> block_word l"
  shows "process_line sys ia ig (l @ NL1) lp b = run_command sys ia ig l (lp\<lparr>full_cmd := l\<rparr>) b"
  using assms process_line_whole [OF assms(1)] line_ok_blank [OF assms(1)]
  by (auto simp: active_def run_line_def Let_def block_word_def line_ok_def)

lemma process_line_skip:
  assumes "line_ok l" "idle lp" "in_if_block lp" "\<not> execute_if_block lp" "\<not> block_word l"
  shows "process_line sys ia ig (l @ NL1) lp b = Some (True, lp, b)"
  using assms process_line_whole [OF assms(1)] line_ok_blank [OF assms(1)]
  by (auto simp: run_line_def Let_def block_word_def line_ok_def)

lemma run_command_builtin:
  assumes "find_builtin l = Some f" "idle lp" "run_builtin f l b = Some (r, b')" "sim N e b'"
  shows "\<exists>b2. run_command sys ia ig l (lp\<lparr>full_cmd := l\<rparr>) b = Some (True, lp, b2) \<and> sim N e b2"
  using assms by (simp add: run_command_def Let_def)

subsection \<open>The lines of the statements\<close>

lemma first_word_drop: "first_word w (w @ CHR '' '' # r)"
  by (simp add: first_word_def peek_def isspace_def code_def nth_append)

lemma var_line:
  "\<not> block_word (''var '' @ r)" "find_builtin (''var '' @ r) = Some B_var"
  "\<not> block_word (''unset '' @ r)" "find_builtin (''unset '' @ r) = Some B_unset"
  "\<not> block_word ''clearvars''" "find_builtin ''clearvars'' = Some B_clearvars"
  by (simp_all add: block_word_def find_builtin_def builtins_def first_word_def isspace_def code_def)

lemma cmd_var_parse:
  assumes n: "name_ok n" and v: "length v \<le> 254" and o: "opr \<in> {''='', '':='', ''+='', ''+:=''}"
  shows "cmd_var (''var '' @ n @ '' '' @ opr @ '' '' @ quoted v) b =
    (if opr = '':='' \<or> opr = ''+:='' then do {
       (ok, w, b) \<leftarrow> expand_variables v MAX_VAR_VALUE b;
       if \<not> ok then Some (-1, b) else Some (assign_var (opr = ''+='' \<or> opr = ''+:='') n w b) }
     else Some (assign_var (opr = ''+='' \<or> opr = ''+:='') n v b))"
proof -
  have sp: "isspace CHR '' ''" "\<not> isspace CHR ''v''" "\<not> isspace CHR ''a''" "\<not> isspace CHR ''r''"
     "\<not> isspace CHR ''=''" "\<not> isspace CHR '':''" "\<not> isspace CHR ''+''" "\<not> is_valid_var_char CHR '' ''"
    by (simp_all add: isspace_def code_def is_valid_var_char_def isalnum_def isdigit_def islower_def)
  have n1: "\<not> isspace (hd n)" "n \<noteq> []" using n valid_not_brace by (cases n, auto simp: name_ok_def)+
  then have dn: "\<And>r. dropWhile isspace (n @ r) = n @ r" by (cases n) auto
  have tn: "\<And>r. take_name (n @ CHR '' '' # r) 0 = (n, CHR '' '' # r)"
    using take_name_valid [of n 0 "CHR '' ''"] n sp by (simp add: name_ok_def)
  have op: "parse_operator (opr @ CHR '' '' # quoted v) = Inr (opr, CHR '' '' # quoted v)"
    "dropWhile isspace (opr @ CHR '' '' # quoted v) = opr @ CHR '' '' # quoted v"
    using o sp by (auto simp: parse_operator_def Let_def numeral_2_eq_2)
  have dq: "dropWhile isspace (quoted v) = quoted v" using quoted_dropWhile(1) [of v "[]"] by simp
  show ?thesis
    using n1 op dq o sp dn tn parse_value_quoted [OF v]
    by (simp add: cmd_var_def Let_def cong: if_cong)
qed

lemma meaning_cost: "(\<And>n v. m n = Some v \<Longrightarrow> length v \<le> 255) \<Longrightarrow> length (meaning m t) \<le> cost t"
proof (induction t)
  case (Cons p t)
  then show ?case by (cases p) (force split: option.splits)+
qed simp

lemma expand_sim:
  assumes "sim N (m, rs) b" "pieces_ok t" "cost t < outsz"
  shows "expand_variables (render t) outsz b = Some (True, meaning m t, b)"
proof -
  have "length (meaning m t) < outsz"
    using meaning_cost [of m t] sim_value [OF assms(1)] assms(3) by fastforce
  then show ?thesis
    using expand_loop_meaning [of t m b "[]" outsz] assms by (simp add: sim_def plain_def expand_variables_def)
qed

lemma line_char_valid: "is_valid_var_char c \<Longrightarrow> line_char c"
  by (auto simp: line_char_def is_valid_var_char_def isalnum_def isdigit_def islower_def code_def)

lemma name_line: "name_ok n \<Longrightarrow> list_all line_char n"
  by (auto simp: name_ok_def list_all_iff line_char_valid)

lemma escape_line: "list_all line_char (escape s) = list_all line_char s" "length (escape s) \<le> 2 * length s"
  by (induction s) (auto simp: line_char_def)

lemma quoted_length: "length (quoted s) \<le> 2 * length s + 2"
  using escape_line(2) [of s] by (simp add: quoted_def)

lemma quoted_line: "text_ok s \<Longrightarrow> list_all line_char (quoted s) \<and> length (quoted s) \<le> 510 \<and> last (quoted s) = QUOTE"
  using escape_line [of s] by (auto simp: quoted_def text_ok_def line_char_def)

lemma var_line_ok:
  assumes "name_ok n" "text_ok v" "opr \<in> {''='', '':='', ''+='', ''+:=''}"
  shows "line_ok (''var '' @ n @ '' '' @ opr @ '' '' @ quoted v)"
  using name_line [OF assms(1)] quoted_line [OF assms(2)] assms
  by (auto simp: line_ok_def name_ok_def line_char_def isspace_def code_def)

lemma expand_256: "sim N (m, rs) b \<Longrightarrow> template_ok t \<Longrightarrow> expand_variables (render t) 256 b = Some (True, meaning m t, b)"
  using expand_sim [of N m rs b t 256] by (simp add: template_ok_def)

lemma meaning_255: "sim N (m, rs) b \<Longrightarrow> template_ok t \<Longrightarrow> length (meaning m t) \<le> 255"
  using meaning_cost [of m t] sim_value [of N m rs b] unfolding template_ok_def by fastforce

lemma var_stmt_sim:
  assumes "sim N (m, rs) b" "n \<in> N" "name_ok n" "text_ok v" "opr \<in> {''='', '':='', ''+='', ''+:=''}" "active lp"
    "if opr = '':='' \<or> opr = ''+:='' then expand_variables v 256 b = Some (True, w, b) else w = v" "length w \<le> 255"
  shows "\<exists>b2. process_line sys ia ig ((''var '' @ n @ '' '' @ opr @ '' '' @ quoted v) @ NL1) lp b = Some (True, lp, b2)
     \<and> sim N (if opr = ''+='' \<or> opr = ''+:='' then append_value m n w else m(n \<mapsto> w), rs) b2"
proof -
  let ?app = "opr = ''+='' \<or> opr = ''+:=''"
  obtain b1 where a: "assign_var ?app n w b = (0, b1)" "sim N (if ?app then append_value m n w else m(n \<mapsto> w), rs) b1"
    using assign_var_sim [OF assms(1-3,8), of ?app] by auto
  have "length v \<le> 254" using assms(4) by (simp add: text_ok_def)
  then have c: "cmd_var (''var '' @ n @ '' '' @ opr @ '' '' @ quoted v) b = Some (0, b1)"
    using cmd_var_parse [OF assms(3) _ assms(5), of v b] assms(7) a(1) by (auto split: if_splits)
  have f: "find_builtin (''var '' @ n @ '' '' @ opr @ '' '' @ quoted v) = Some B_var" by (rule var_line(2))
  have "idle lp" using assms(6) by (simp add: active_def)
  from run_command_builtin [OF f this _ a(2)] c
  show ?thesis
    using process_line_command [OF var_line_ok [OF assms(3-5)] assms(6) var_line(1)] by (simp add: run_builtin_def)
qed

lemma name_line_ok: "name_ok n \<Longrightarrow> line_ok (''unset '' @ n)" "line_ok ''clearvars''"
proof -
  assume n: "name_ok n"
  then have "is_valid_var_char (last n)" by (simp add: name_ok_def list_all_iff)
  then have "last n \<noteq> BACKSLASH" by (auto simp: is_valid_var_char_def isalnum_def isdigit_def islower_def code_def)
  then show "line_ok (''unset '' @ n)"
    using n name_line [OF n] by (simp add: line_ok_def name_ok_def line_char_def isspace_def code_def)
qed (simp add: line_ok_def line_char_def isspace_def code_def)

lemma unset_sim:
  assumes s: "sim N (m, rs) b" and n: "name_ok n"
  shows "\<exists>r b'. cmd_unset (''unset '' @ n) b = (r, b') \<and> sim N (m(n := None), rs) b'"
proof -
  have sp: "\<not> isspace CHR ''u''" "\<not> isspace CHR ''n''" "\<not> isspace CHR ''s''" "\<not> isspace CHR ''e''" "\<not> isspace CHR ''t''"
    "isspace CHR '' ''" by (simp_all add: isspace_def code_def)
  have "\<not> isspace (hd n)" "n \<noteq> []" using n valid_not_brace by (cases n, auto simp: name_ok_def)+
  then have d: "dropWhile isspace n = n" by (cases n) auto
  have "\<And>k. list_all is_valid_var_char n \<Longrightarrow> length n + k \<le> 31 \<Longrightarrow> take_name n k = (n, [])" by (induction n) auto
  then have t: "take_name n 0 = (n, [])" using n by (simp add: name_ok_def)
  have m: "m = map_of (bt_vars b)" "table_ok b" using s by (auto simp: sim_def)
  show ?thesis
  proof (cases "var_find (bt_vars b) n = length (bt_vars b)")
    case True
    then have "m(n := None) = m" using m var_find_iff [of "bt_vars b" n] map_of_eq_None_iff [of "bt_vars b" n] by (metis fun_upd_triv)
    then show ?thesis using sp d t s True \<open>n \<noteq> []\<close> by (simp add: cmd_unset_def Let_def)
  next
    case False
    then have i: "var_find (bt_vars b) n < length (bt_vars b)" using var_find_le [of "bt_vars b" n] by simp
    have "sim N (m(n := None), rs) (remove_var (var_find (bt_vars b) n) b)"
      using s remove_var_table_ok [OF m(2) i] var_find_nth [OF i]
      by (auto simp: sim_def) (auto simp: plain_def remove_var_def Let_def)
    then show ?thesis using sp d t s False \<open>n \<noteq> []\<close> by (simp add: cmd_unset_def Let_def)
  qed
qed

lemma command_not_builtin: "command_ok l \<Longrightarrow> line_ok l \<and> \<not> block_word l \<and> find_builtin l = None"
  by (simp add: command_ok_def line_ok_def block_word_def script_words_def find_builtin_def builtins_def)

lemma run_sim:
  assumes s: "sim N (m, rs) b" and t: "pieces_ok t" "command_ok (render t)" "cost t \<le> 8191" and lp: "active lp"
  shows "\<exists>lp' b'. process_line sys False ig (render t @ NL1) lp b = Some (sys rs (meaning m t) = 0 \<or> ig, lp', b')
     \<and> (sys rs (meaning m t) = 0 \<or> ig \<longrightarrow> lp' = lp) \<and> sim N (m, rs @ [meaning m t]) b'"
proof -
  have e: "expand_variables (render t) 8192 b = Some (True, meaning m t, b)"
    using expand_sim [OF s t(1), of 8192] t(3) by simp
  have f: "\<not> verbose_flag b" "\<not> dry_run_flag b" "bt_run b = rs" using s by (auto simp: sim_def plain_def)
  have s2: "sim N (m, rs @ [meaning m t]) (b\<lparr>bt_run := rs @ [meaning m t]\<rparr>)" using s by (auto simp: sim_def plain_def)
  show ?thesis
    using command_not_builtin [OF t(2)] process_line_command [of "render t" lp] lp e f s2
    by (auto simp: run_command_def Let_def active_def)
qed

lemma stmt_sim:
  assumes s: "sim N (m, rs) b" and st: "stmt_ok st" "set (stmt_names st) \<subseteq> N" and lp: "active lp"
    and r: "ref_stmt sys ig st (m, rs) = (go, e)"
  shows "\<exists>lp' b'. process_line sys False ig (print_stmt st @ NL1) lp b = Some (go, lp', b') \<and> (go \<longrightarrow> lp' = lp) \<and> sim N e b'"
proof (cases st)
  case (SetTo n v)
  then show ?thesis using var_stmt_sim [OF s, of n v "''=''" lp v] st lp r by (auto simp: text_ok_def)
next
  case (AppendTo n v)
  then show ?thesis using var_stmt_sim [OF s, of n v "''+=''" lp v] st lp r by (auto simp: text_ok_def)
next
  case (SetExp n t)
  then show ?thesis
    using var_stmt_sim [OF s, of n "render t" "'':=''" lp "meaning m t"] st lp r expand_256 [OF s, of t] meaning_255 [OF s, of t]
    by (auto simp: template_ok_def)
next
  case (AppendExp n t)
  then show ?thesis
    using var_stmt_sim [OF s, of n "render t" "''+:=''" lp "meaning m t"] st lp r expand_256 [OF s, of t] meaning_255 [OF s, of t]
    by (auto simp: template_ok_def)
next
  case (Unset n)
  obtain x b1 where "cmd_unset (''unset '' @ n) b = (x, b1)" "sim N (m(n := None), rs) b1"
    using unset_sim [OF s, of n] st Unset by auto
  then show ?thesis
    using run_command_builtin [of "''unset '' @ n" B_unset lp b x b1 N e sys False ig] Unset r lp st var_line(3,4) [of n]
      process_line_command [OF name_line_ok(1) lp, of n]
    by (auto simp: run_builtin_def active_def)
next
  case ClearAll
  have "sim N (Map.empty, rs) (b\<lparr>bt_vars := []\<rparr>)" using s by (auto simp: sim_def plain_def)
  then have "sim N (Map.empty, rs) (snd (cmd_clearvars ''clearvars'' b))" by (simp add: cmd_clearvars_def)
  then show ?thesis
    using run_command_builtin [of "''clearvars''" B_clearvars lp b 0 "snd (cmd_clearvars ''clearvars'' b)" N e sys False ig]
      ClearAll r lp var_line(5,6) process_line_command [OF name_line_ok(2) lp]
    by (auto simp: run_builtin_def active_def cmd_clearvars_def)
next
  case (Run t)
  then show ?thesis using run_sim [OF s _ _ _ lp, of t sys ig] st r by auto
qed

lemma print_stmt_line: "stmt_ok st \<Longrightarrow> line_ok (print_stmt st) \<and> \<not> block_word (print_stmt st)"
proof (cases st)
  case (Run t)
  then show "stmt_ok st \<Longrightarrow> ?thesis" using command_not_builtin by auto
qed (use var_line var_line_ok [of _ _ "''=''"] var_line_ok [of _ _ "'':=''"] var_line_ok [of _ _ "''+=''"] var_line_ok [of _ _ "''+:=''"]
      name_line_ok in \<open>auto simp: template_ok_def\<close>)

text \<open>A run of lines with the loop state at the end.\<close>

definition lines_sim ::
  "(string list \<Rightarrow> string \<Rightarrow> int) \<Rightarrow> bool \<Rightarrow> string set \<Rightarrow> string list \<Rightarrow> Loop \<Rightarrow> Batch \<Rightarrow> bool \<Rightarrow> env \<Rightarrow> Loop \<Rightarrow> bool" where
  "lines_sim sys ig N ls lp b go e lp' \<longleftrightarrow>
     (\<exists>b'. sim N e b' \<and>
       (if go then (\<forall>rest. batch_loop sys False ig (map (\<lambda>l. l @ NL1) ls @ rest) lp b = batch_loop sys False ig rest lp' b')
        else (\<forall>rest. \<exists>lp2. batch_loop sys False ig (map (\<lambda>l. l @ NL1) ls @ rest) lp b = Some (lp2, b'))))"

lemma lines_sim_Nil: "sim N e b \<Longrightarrow> lines_sim sys ig N [] lp b True e lp"
  by (auto simp: lines_sim_def)

lemma lines_sim_Cons:
  assumes "process_line sys False ig (l @ NL1) lp b = Some (True, lp1, b1)" "lines_sim sys ig N ls lp1 b1 go e lp'"
  shows "lines_sim sys ig N (l # ls) lp b go e lp'"
  using assms by (auto simp: lines_sim_def prompt_def)

lemma lines_sim_stop:
  assumes "process_line sys False ig (l @ NL1) lp b = Some (False, lp1, b1)" "sim N e b1"
  shows "lines_sim sys ig N (l # ls) lp b False e lp'"
  using assms by (auto simp: lines_sim_def prompt_def)

lemma stmts_sim:
  assumes "sim N e b" "list_all stmt_ok sts" "set (concat (map stmt_names sts)) \<subseteq> N" "active lp"
    "ref_stmts sys ig sts e = (go, e')"
    "\<And>b'. sim N e' b' \<Longrightarrow> go \<Longrightarrow> lines_sim sys ig N ls lp b' go2 e2 lp'"
  shows "lines_sim sys ig N (map print_stmt sts @ ls) lp b (go \<and> go2) (if go then e2 else e') lp'"
  using assms
proof (induction sts arbitrary: e b)
  case Nil
  then show ?case by auto
next
  case (Cons st sts)
  obtain m rs where e: "e = (m, rs)" by fastforce
  obtain g e1 where r: "ref_stmt sys ig st (m, rs) = (g, e1)" by (rule prod.exhaust)
  obtain lp1 b1 where p: "process_line sys False ig (print_stmt st @ NL1) lp b = Some (g, lp1, b1)" "g \<longrightarrow> lp1 = lp" "sim N e1 b1"
    using stmt_sim [of N m rs b st lp sys ig g e1] Cons.prems e r by auto
  show ?case
  proof (cases g)
    case True
    then show ?thesis using Cons.IH [OF p(3)] Cons.prems p e r lines_sim_Cons by auto
  next
    case False
    then show ?thesis using Cons.prems p e r lines_sim_stop by auto
  qed
qed

lemma skip_stmts:
  assumes "list_all stmt_ok sts" "idle lp" "in_if_block lp" "\<not> execute_if_block lp" "lines_sim sys ig N ls lp b go e lp'"
  shows "lines_sim sys ig N (map print_stmt sts @ ls) lp b go e lp'"
  using assms
proof (induction sts)
  case (Cons st sts)
  have "process_line sys False ig (print_stmt st @ NL1) lp b = Some (True, lp, b)"
    using print_stmt_line process_line_skip Cons.prems by auto
  then show ?case using Cons lines_sim_Cons by auto
qed simp

lemma endif_line:
  assumes "idle lp" "in_if_block lp" "sim N e b"
  shows "\<exists>b'. process_line sys ia ig (''endif'' @ NL1) lp b = Some (True, lp\<lparr>in_if_block := False, execute_if_block := False\<rparr>, b')
     \<and> sim N e b'"
proof -
  have l: "line_ok ''endif''" by (simp add: line_ok_def line_char_def isspace_def code_def)
  have w: "\<not> first_word ''ifeq'' ''endif''" "\<not> first_word ''ifneq'' ''endif''" "first_word ''endif'' ''endif''"
    by (simp_all add: first_word_def)
  have "\<And>x. lp\<lparr>full_cmd := x, in_if_block := False, execute_if_block := False, full_cmd := []\<rparr>
     = lp\<lparr>in_if_block := False, execute_if_block := False\<rparr>"
    using assms(1) by (cases lp) (simp add: idle_def)
  then show ?thesis
    using process_line_whole [OF l assms(1)] line_ok_blank [OF l] w assms
    by (cases lp) (simp add: run_line_def Let_def close_block_def idle_def)
qed

lemma open_line:
  assumes "idle lp" "\<not> in_if_block lp" "sim N (m, rs) b" "template_ok t" "template_ok u" "length (render t) + length (render u) \<le> 500"
  shows "\<exists>b'. process_line sys ia ig (((if eq then ''ifeq'' else ''ifneq'') @ '' '' @ quoted (render t) @ '' '' @ quoted (render u)) @ NL1) lp b
      = Some (True, lp\<lparr>in_if_block := True, execute_if_block := ((meaning m t = meaning m u) = eq)\<rparr>, b') \<and> sim N (m, rs) b'"
proof -
  define w where "w = (if eq then ''ifeq'' else ''ifneq'')"
  define l where "l = w @ '' '' @ quoted (render t) @ '' '' @ quoted (render u)"
  have q: "text_ok (render t)" "text_ok (render u)" using assms(4,5) by (simp_all add: template_ok_def)
  have lo: "line_ok l" using quoted_line [OF q(1)] quoted_line [OF q(2)] quoted_length [of "render t"] quoted_length [of "render u"] assms(6)
    by (auto simp: line_ok_def l_def w_def line_char_def isspace_def code_def)
  have f: "first_word ''ifeq'' l = eq" "\<not> eq \<Longrightarrow> first_word ''ifneq'' l"
    by (auto simp: l_def w_def first_word_def isspace_def code_def)
  have d: "drop (length w) l = CHR '' '' # quoted (render t) @ CHR '' '' # quoted (render u) @ []"
    by (simp add: l_def)
  have ob: "\<exists>b'. open_block eq l (lp\<lparr>full_cmd := l\<rparr>) b
      = Some (True, lp\<lparr>in_if_block := True, execute_if_block := ((meaning m t = meaning m u) = eq)\<rparr>, b') \<and> sim N (m, rs) b'"
    using assms parse_one_arg_quoted [of "render t" "CHR '' '' # quoted (render u) @ []" b]
      parse_one_arg_quoted [of "render u" "[]" b] q d expand_256 [OF assms(3,4)] expand_256 [OF assms(3,5)]
    by (cases lp) (simp add: open_block_def w_def [symmetric] text_ok_def expand_arg_token_def idle_def Let_def)
  have "process_line sys ia ig (l @ NL1) lp b = open_block eq l (lp\<lparr>full_cmd := l\<rparr>) b"
    using process_line_whole [OF lo assms(1)] line_ok_blank [OF lo] lo f
    by (cases eq) (auto simp: run_line_def Let_def line_ok_def)
  then show ?thesis using ob by (simp add: l_def w_def)
qed

lemma lines_sim_append:
  assumes "lines_sim sys ig N ls lp b True e lp1" "\<And>b1. sim N e b1 \<Longrightarrow> lines_sim sys ig N ls2 lp1 b1 go e2 lp2"
  shows "lines_sim sys ig N (ls @ ls2) lp b go e2 lp2"
proof -
  obtain b1 where b1: "sim N e b1"
    "\<forall>rest. batch_loop sys False ig (map (\<lambda>l. l @ NL1) ls @ rest) lp b = batch_loop sys False ig rest lp1 b1"
    using assms(1) by (auto simp: lines_sim_def)
  then show ?thesis using assms(2) [OF b1(1)] by (cases go) (simp_all add: lines_sim_def)
qed

lemma lines_sim_append_stop:
  "lines_sim sys ig N ls lp b False e lp1 \<Longrightarrow> lines_sim sys ig N (ls @ ls2) lp b False e lp2"
  unfolding lines_sim_def by (simp, blast)

lemma start_loop_idle: "idle start_loop" "active start_loop" "\<not> in_if_block start_loop"
  by (simp_all add: idle_def active_def start_loop_def)

lemma item_sim:
  assumes s: "sim N (m, rs) b" and it: "item_ok it" "set (item_names it) \<subseteq> N" and r: "ref_item sys ig it (m, rs) = (go, e')"
  shows "lines_sim sys ig N (print_item it) start_loop b go e' start_loop"
proof (cases it)
  case (One st)
  obtain lp1 b1 where "process_line sys False ig (print_stmt st @ NL1) start_loop b = Some (go, lp1, b1)"
    "go \<longrightarrow> lp1 = start_loop" "sim N e' b1"
    using stmt_sim [OF s _ _ start_loop_idle(2), of st sys ig go e'] it r One by auto
  then show ?thesis
    using One lines_sim_Cons [OF _ lines_sim_Nil] lines_sim_stop by (cases go) auto
next
  case (Block eq t u sts)
  let ?taken = "(meaning m t = meaning m u) = eq"
  define lp where "lp = start_loop\<lparr>in_if_block := True, execute_if_block := ?taken\<rparr>"
  have lpi: "idle lp" "in_if_block lp" "execute_if_block lp = ?taken"
    "lp\<lparr>in_if_block := False, execute_if_block := False\<rparr> = start_loop"
    by (simp_all add: lp_def start_loop_def idle_def)
  obtain b1 where o: "process_line sys False ig (hd (print_item it) @ NL1) start_loop b = Some (True, lp, b1)" "sim N (m, rs) b1"
    using open_line [OF start_loop_idle(1,3) s, of t u sys False ig eq] it Block by (auto simp: lp_def)
  have close: "lines_sim sys ig N [''endif''] lp c True e start_loop" if g: "sim N e c" for c e
  proof -
    obtain c' where c': "process_line sys False ig (''endif'' @ NL1) lp c = Some (True, start_loop, c')" "sim N e c'"
      using endif_line [OF lpi(1,2) g, of sys False ig] lpi(4) by auto
    show ?thesis by (rule lines_sim_Cons [OF c'(1) lines_sim_Nil [OF c'(2)]])
  qed
  have "lines_sim sys ig N (map print_stmt sts @ [''endif'']) lp b1 go e' start_loop"
  proof (cases ?taken)
    case True
    then have "ref_stmts sys ig sts (m, rs) = (go, e')" "active lp" using r Block lpi by (auto simp: active_def)
    then show ?thesis
      using stmts_sim [OF o(2), of sts lp sys ig go e' "[''endif'']" True e' start_loop] it Block close by auto
  next
    case False
    then have "e' = (m, rs)" "go" using r Block by auto
    then show ?thesis
      using skip_stmts [OF _ lpi(1,2), of sts] close [OF o(2)] it Block False lpi(3) by auto
  qed
  then show ?thesis using lines_sim_Cons [OF o(1)] Block by simp
qed

lemma items_sim:
  assumes "sim N e b" "list_all item_ok its" "set (concat (map item_names its)) \<subseteq> N" "ref_items sys ig its e = (go, e')"
  shows "lines_sim sys ig N (concat (map print_item its)) start_loop b go e' start_loop"
  using assms
proof (induction its arbitrary: e b)
  case Nil
  then show ?case using lines_sim_Nil by auto
next
  case (Cons it its)
  obtain m rs where e: "e = (m, rs)" by (rule prod.exhaust)
  obtain g e1 where r: "ref_item sys ig it (m, rs) = (g, e1)" by (rule prod.exhaust)
  have i: "lines_sim sys ig N (print_item it) start_loop b g e1 start_loop"
    using item_sim [of N m rs b it sys ig g e1] Cons.prems e r by auto
  show ?case
  proof (cases g)
    case True
    then show ?thesis using lines_sim_append [of sys ig N _ _ _ e1 start_loop] i Cons e r by simp
  next
    case False
    then show ?thesis using lines_sim_append_stop i Cons.prems e r by simp
  qed
qed

section \<open>The lines of the file\<close>

lemma fgets_lines_lines:
  "\<forall>l \<in> set ls. length l \<le> 1022 \<and> CHR 0x0A \<notin> set l
   \<Longrightarrow> fgets_lines (concat (map (\<lambda>l. l @ NL1) ls)) = map (\<lambda>l. l @ NL1) ls"
  unfolding fgets_lines_def by (rule chunks_lines) auto

lemma print_item_lines:
  assumes "item_ok it" "l \<in> set (print_item it)"
  shows "line_ok l"
proof (cases it)
  case (One st)
  then show ?thesis using assms print_stmt_line by auto
next
  case (Block eq t u sts)
  have "line_ok ''endif''" by (simp add: line_ok_def line_char_def isspace_def code_def)
  moreover have "line_ok ((if eq then ''ifeq'' else ''ifneq'') @ '' '' @ quoted (render t) @ '' '' @ quoted (render u))"
    using assms(1) Block quoted_line [of "render t"] quoted_line [of "render u"] quoted_length [of "render t"] quoted_length [of "render u"]
    by (auto simp: template_ok_def line_ok_def line_char_def isspace_def code_def)
  ultimately show ?thesis using assms Block print_stmt_line by (auto simp: list_all_iff)
qed

definition batch_options :: "bool \<Rightarrow> string list" where
  "batch_options ig = (if ig then [''-i''] else [])"

text \<open>
  C25. Running a script file does what the script means: for every script of assignments, with and without
  expansion, of appends, \<open>unset\<close>, \<open>clearvars\<close>, commands with references, and \<open>ifeq\<close> and \<open>ifneq\<close> blocks of
  these, whatever the commands do, the program hands \<open>system\<close> exactly the commands of the reference
  interpreter in its order, stops where it stops, and ends with the same variables. The script may use at
  most 100 names, lines of at most 1022 characters and texts that fit.
\<close>

theorem script_runs_as_specified:
  assumes "script_ok its"
  shows "\<exists>b. batch_main sys [''s'' \<mapsto> script_text its] errno stdin ([''batch''] @ batch_options ig @ [''s'']) = Some (0, b)
     \<and> (map_of (bt_vars b), bt_run b) = snd (ref_items sys ig its (Map.empty, []))"
proof -
  let ?names = "concat (map item_names its)"
  define N where "N = set ?names"
  have N: "finite N" "card N \<le> 100" using assms by (simp_all add: N_def script_ok_def length_remdups_card_conv)
  obtain go e where r: "ref_items sys ig its (Map.empty, []) = (go, e)" by (rule prod.exhaust)
  have s: "sim N (Map.empty, []) start_batch" using N by (simp add: sim_def table_ok_def plain_def start_batch_def)
  have i: "lines_sim sys ig N (concat (map print_item its)) start_loop start_batch go e start_loop"
    using items_sim [OF s _ _ r] assms by (simp add: N_def script_ok_def)
  have "\<forall>l \<in> set (concat (map print_item its)). line_ok l"
    using assms print_item_lines by (auto simp: script_ok_def list_all_iff)
  then have "\<forall>l \<in> set (concat (map print_item its)). length l \<le> 1022 \<and> CHR 0x0A \<notin> set l"
    by (auto simp: line_ok_def line_char_def list_all_iff)
  then have f: "fgets_lines (script_text its) = map (\<lambda>l. l @ NL1) (concat (map print_item its))"
    unfolding script_text_def by (rule fgets_lines_lines)
  obtain lp b where l: "batch_loop sys False ig (fgets_lines (script_text its)) start_loop start_batch = Some (lp, b)" "sim N e b"
  proof -
    obtain c where c: "sim N e c" "if go then (\<forall>rest. batch_loop sys False ig (fgets_lines (script_text its) @ rest) start_loop start_batch
        = batch_loop sys False ig rest start_loop c)
      else (\<forall>rest. \<exists>lp. batch_loop sys False ig (fgets_lines (script_text its) @ rest) start_loop start_batch = Some (lp, c))"
      using i unfolding lines_sim_def f [symmetric] by blast
    have "batch_loop sys False ig [] start_loop c = Some (start_loop, c)" by (simp add: prompt_def start_loop_def)
    then have "\<exists>lp. batch_loop sys False ig (fgets_lines (script_text its) @ []) start_loop start_batch = Some (lp, c)"
      using c(2) by (cases go) (simp_all only: if_True if_False, blast+)
    then show ?thesis using that c(1) by auto
  qed
  have "batch_args (batch_options ig @ [''s'']) False None start_batch = (Inr (ig, Some ''s''), start_batch)"
    by (simp add: batch_options_def)
  then have "\<exists>b2. batch_main sys [''s'' \<mapsto> script_text its] errno stdin ([''batch''] @ batch_options ig @ [''s'']) = Some (0, b2)
     \<and> bt_vars b2 = bt_vars b \<and> bt_run b2 = bt_run b"
    using l(1) by (simp add: batch_main_def complain_b_def)
  then show ?thesis using l(2) r by (auto simp: sim_def)
qed

theorem script_runs_as_specified_witness:
  "\<exists>b. batch_main (\<lambda>rs c. if c = ''false'' then 1 else 0)
      [''s'' \<mapsto> script_text [One (SetTo ''x'' ''ls''), Block True [Ref ''x''] [Plain ''ls''] [Run [Plain ''cc '', Ref ''x'']],
        One (Run [Plain ''false'']), One (Run [Plain ''never''])]] '''' '''' ([''batch''] @ batch_options False @ [''s'']) = Some (0, b)
     \<and> map_of (bt_vars b) = [''x'' \<mapsto> ''ls''] \<and> bt_run b = [''cc ls'', ''false'']"
proof -
  let ?its = "[One (SetTo ''x'' ''ls''), Block True [Ref ''x''] [Plain ''ls''] [Run [Plain ''cc '', Ref ''x'']],
        One (Run [Plain ''false'']), One (Run [Plain ''never''])]"
  let ?sys = "\<lambda>(rs :: string list) (c :: string). if c = ''false'' then 1 else (0 :: int)"
  have "script_ok ?its" by code_simp
  from script_runs_as_specified [OF this, of ?sys "''''" "''''" False] show ?thesis by simp
qed

text \<open>
  An \<open>unset\<close> line that begins with a blank removes the variable called \<open>unset\<close>, whatever name it gives.
\<close>

theorem unset_indented:
  assumes "table_ok b" "name_ok n" "set bs \<subseteq> {CHR '' '', CHR 0x09}" "bs \<noteq> []" "length bs \<le> 900"
  shows "\<exists>b'. process_line sys ia ig ((bs @ ''unset '' @ n) @ NL1) start_loop b = Some (True, start_loop, b')
     \<and> map_of (bt_vars b') = (map_of (bt_vars b))(''unset'' := None)"
proof -
  define l where "l = bs @ ''unset '' @ n"
  have sp: "\<not> isspace CHR ''u''" "\<not> isspace CHR ''n''" "\<not> isspace CHR ''s''" "\<not> isspace CHR ''e''" "\<not> isspace CHR ''t''"
    "isspace CHR '' ''" "isspace CHR 0x09" by (simp_all add: isspace_def code_def)
  have n: "list_all line_char n" "n \<noteq> []" "last n \<noteq> BACKSLASH" "length n \<le> 31"
    using name_line [OF assms(2)] assms(2) name_line_ok(1) [OF assms(2)] by (auto simp: name_ok_def line_ok_def)
  have bs: "\<forall>c \<in> set bs. isspace c" using assms(3) sp by auto
  have tw: "takeWhile (\<lambda>c. c \<notin> {CHR 0x0D, CHR 0x0A, NUL}) (l @ NL1) = l"
    using n(1) assms(3) by (subst takeWhile_append2) (auto simp: l_def line_char_def list_all_iff)
  have dw: "dropWhile isspace l = ''unset '' @ n" using bs sp by (simp add: l_def dropWhile_append)
  have fst_not: "dropWhile (\<lambda>c. \<not> isspace c) l = l" "hd0 l \<noteq> CHR '';''" "l \<noteq> []" "last l \<noteq> BACKSLASH"
    using bs assms(3,4) sp n by (cases bs; auto simp: l_def isspace_def code_def)+
  have tn: "take_name (''unset '' @ n) 0 = (''unset'', CHR '' '' # n)"
    by (simp add: is_valid_var_char_def isalnum_def isdigit_def islower_def code_def)
  have "\<exists>r b'. cmd_unset l b = (r, b') \<and> map_of (bt_vars b') = (map_of (bt_vars b))(''unset'' := None)"
  proof (cases "var_find (bt_vars b) ''unset'' = length (bt_vars b)")
    case True
    then have "map_of (bt_vars b) ''unset'' = None" using var_find_iff [of "bt_vars b" "''unset''"] by (simp add: map_of_eq_None_iff)
    then have "(map_of (bt_vars b))(''unset'' := None) = map_of (bt_vars b)" by (metis fun_upd_triv)
    then show ?thesis using True fst_not(1) dw tn by (simp add: cmd_unset_def Let_def)
  next
    case False
    then have i: "var_find (bt_vars b) ''unset'' < length (bt_vars b)" using var_find_le [of "bt_vars b" "''unset''"] by simp
    show ?thesis using False fst_not(1) dw tn remove_var_table_ok(2) [OF assms(1) i] var_find_nth [OF i]
      by (simp add: cmd_unset_def Let_def)
  qed
  then obtain r b' where c: "cmd_unset l b = (r, b')" "map_of (bt_vars b') = (map_of (bt_vars b))(''unset'' := None)" by auto
  have ll: "length l < 4096" using assms(5) n(4) by (simp add: l_def)
  have p: "process_line sys ia ig (l @ NL1) start_loop b = run_line sys ia ig (start_loop\<lparr>full_cmd := l\<rparr>) b"
    using tw fst_not ll by (simp add: process_line_def Let_def start_loop_def first_line_def)
  have "run_line sys ia ig (start_loop\<lparr>full_cmd := l\<rparr>) b = run_command sys ia ig (''unset '' @ n) (start_loop\<lparr>full_cmd := l\<rparr>) b"
    using dw var_line(3) [of n] by (simp add: run_line_def Let_def start_loop_def block_word_def)
  then show ?thesis
    using p c var_line(4) [of n] unfolding l_def [symmetric] append_assoc
    by (simp add: run_command_def run_builtin_def Let_def start_loop_def)
qed

theorem unset_indented_witness:
  "\<exists>b'. process_line (\<lambda>rs c. 0) True False ((''  '' @ ''unset '' @ ''x'') @ NL1) start_loop
       (start_batch\<lparr>bt_vars := [(''x'', ''1''), (''unset'', ''2'')]\<rparr>) = Some (True, start_loop, b')
     \<and> map_of (bt_vars b') ''x'' = Some ''1'' \<and> map_of (bt_vars b') ''unset'' = None"
proof -
  let ?b = "start_batch\<lparr>bt_vars := [(''x'', ''1''), (''unset'', ''2'')]\<rparr>"
  have "table_ok ?b" "name_ok ''x''" by code_simp+
  from unset_indented [OF this, of "''  ''" "\<lambda>rs c. 0" True False] show ?thesis by (auto simp: start_batch_def)
qed

end
