(* ===== verification/Sed.thy ===== *)
theory Sed
  imports Bre
begin

text \<open>
  The stream editor \<open>level1/sed.c\<close>: parsing of scripts, addresses, commands, the cycle over the input and
  \<open>main\<close>, with \<open>bre_match\<close> of \<open>Bre\<close>.

  Strings are lists of characters without NUL. Allocation succeeds. \<^term>\<open>None\<close> is undefined behaviour or
  the end of the fuel that bounds the restarts by \<open>D\<close> within a line. Files are a map from names to
  contents; a file that is written changes at once, an input file is read as it was when it was opened, and
  \<open>fopen\<close> for writing fails on the names that are not writable.
\<close>

abbreviation (input) LF :: char where "LF \<equiv> CHR 0x0A"
abbreviation (input) LONG_MAX :: int where "LONG_MAX \<equiv> 9223372036854775807"
abbreviation (input) MAX_CMDS :: nat where "MAX_CMDS \<equiv> 512"
abbreviation (input) MAX_FILES_S :: nat where "MAX_FILES_S \<equiv> 128"

section \<open>Data\<close>

text \<open>The address type with the field that goes with it.\<close>

datatype SedAddress = ADDR_NONE | ADDR_LINE int | ADDR_LAST | ADDR_REGEX string

datatype CmdType =
    CMD_P | CMD_D | CMD_Q | CMD_N | CMD_EQ
  | CMD_S | CMD_Y | CMD_W | CMD_R
  | CMD_A | CMD_I | CMD_C
  | CMD_NCAP | CMD_DCAP | CMD_PCAP
  | CMD_H | CMD_HAPP | CMD_G | CMD_GAPP | CMD_X
  | CMD_L

record SedCmd =
  sc_a1 :: SedAddress
  sc_a2 :: SedAddress
  has_a1 :: bool
  has_a2 :: bool
  in_range :: bool
  sc_type :: CmdType
  s_pat :: string
  s_repl :: string
  s_occurrence :: int
  s_print :: bool
  s_wfile :: "string option"
  y_src :: string
  y_dst :: string
  w_file :: string
  r_file :: string
  sc_text :: string

definition blank_cmd :: SedCmd where
  "blank_cmd = \<lparr>sc_a1 = ADDR_NONE, sc_a2 = ADDR_NONE, has_a1 = False, has_a2 = False, in_range = False,
     sc_type = CMD_P, s_pat = [], s_repl = [], s_occurrence = 0, s_print = False, s_wfile = None,
     y_src = [], y_dst = [], w_file = [], r_file = [], sc_text = []\<rparr>"

text \<open>The global variables, the files and the streams. Every entry of \<open>g_wfiles\<close> is open and truncated.\<close>

record Sed =
  g_cmds :: "SedCmd list"
  g_wfiles :: "string list"
  g_auto_print :: bool
  is_last_line_in_file :: bool
  g_out :: "string option"
  sd_files :: "string \<rightharpoonup> string"
  sd_writable :: "string \<Rightarrow> bool"
  sd_stdin :: string
  sd_stdout :: string
  sd_stderr :: string

definition append_file :: "string \<Rightarrow> string \<Rightarrow> Sed \<Rightarrow> Sed" where
  "append_file f s w =
     w\<lparr>sd_files := (sd_files w)(f \<mapsto> (case sd_files w f of None \<Rightarrow> [] | Some t \<Rightarrow> t) @ s)\<rparr>"

definition open_write :: "string \<Rightarrow> Sed \<Rightarrow> bool \<times> Sed" where
  "open_write f w = (if sd_writable w f then (True, w\<lparr>sd_files := (sd_files w)(f \<mapsto> [])\<rparr>) else (False, w))"

text \<open>\<open>fputs(s, g_out ? g_out : stdout)\<close>\<close>

definition emit :: "string \<Rightarrow> Sed \<Rightarrow> Sed" where
  "emit s w = (case g_out w of None \<Rightarrow> w\<lparr>sd_stdout := sd_stdout w @ s\<rparr> | Some f \<Rightarrow> append_file f s w)"

definition sed_error :: "string \<Rightarrow> Sed \<Rightarrow> Sed" where
  "sed_error s w = w\<lparr>sd_stderr := sd_stderr w @ ''sed: '' @ s @ [LF]\<rparr>"

definition c_string :: "string \<Rightarrow> string" where
  "c_string s = takeWhile (\<lambda>c. c \<noteq> NUL) s"

text \<open>The contents of a script file, without a byte order mark, up to the first NUL.\<close>

definition read_file_to_string :: "string \<Rightarrow> Sed \<Rightarrow> string option" where
  "read_file_to_string path w =
     map_option (\<lambda>t. c_string (if take 3 t = [CHR 0xEF, CHR 0xBB, CHR 0xBF] then drop 3 t else t)) (sd_files w path)"

section \<open>Addresses and files for writing\<close>

text \<open>The result of \<open>bre_match\<close> is returned as a truth value.\<close>

fun addr_matches :: "SedAddress \<Rightarrow> string \<Rightarrow> int \<Rightarrow> Sed \<Rightarrow> bool option" where
  "addr_matches ADDR_NONE ps lineno w = Some True"
| "addr_matches (ADDR_LINE l) ps lineno w = Some (l = lineno)"
| "addr_matches ADDR_LAST ps lineno w = Some (is_last_line_in_file w)"
| "addr_matches (ADDR_REGEX re) ps lineno w = do { (r, m) \<leftarrow> bre_match ps re; Some (r \<noteq> BRE_OK) }"

definition addr_is_last :: "SedAddress \<Rightarrow> bool" where
  "addr_is_last a \<longleftrightarrow> a = ADDR_LAST"

definition get_wfile :: "string \<Rightarrow> Sed \<Rightarrow> bool \<times> Sed" where
  "get_wfile name w =
     (if name \<in> set (g_wfiles w) then (True, w)
      else if length (g_wfiles w) \<ge> MAX_FILES_S then (False, w)
      else (let (ok, w) = open_write name w in
            if ok then (True, w\<lparr>g_wfiles := g_wfiles w @ [name]\<rparr>) else (False, w)))"

text \<open>\<open>fputs\<close> to such a file, when it is open.\<close>

definition put_wfile :: "string \<Rightarrow> string \<Rightarrow> Sed \<Rightarrow> Sed" where
  "put_wfile name s w = (let (ok, w) = get_wfile name w in if ok then append_file name s w else w)"

section \<open>Substitution\<close>

text \<open>The output buffer and its capacity; \<open>room\<close> makes room for \<open>k\<close> characters and the NUL.\<close>

type_synonym SubBuf = "string \<times> nat"

definition put_block :: "string \<Rightarrow> SubBuf \<Rightarrow> SubBuf" where
  "put_block s buf = (let (out, cap) = buf; need = length out + length s + 1 in
     (out @ s, if need > cap then need * 2 else cap))"

definition put_single :: "char \<Rightarrow> SubBuf \<Rightarrow> SubBuf option" where
  "put_single c buf = (let (out, cap) = buf; cap = (if length out + 1 > cap then cap * 2 else cap) in
     if length out < cap then Some (out @ [c], cap) else None)"

text \<open>The replacement text; \<open>t\<close> is the text from \<open>pos\<close> on, which the groups refer to.\<close>

fun put_replacement :: "string \<Rightarrow> BreMatch \<Rightarrow> string \<Rightarrow> SubBuf \<Rightarrow> SubBuf option" where
  "put_replacement t m [] buf = Some buf"
| "put_replacement t m (c # r) buf =
     (case group_ref (c # r) of
        Some g \<Rightarrow>
          (if group_set m g then do {
             s \<leftarrow> copy_from t (fst (bm_groups m ! g)) (snd (bm_groups m ! g));
             put_replacement t m (tl r) (put_block s buf) }
           else put_replacement t m (tl r) buf)
      | None \<Rightarrow> do { buf \<leftarrow> put_single c buf; put_replacement t m r buf })"

text \<open>\<open>memcpy(out + olen, text + pos, tlen - pos)\<close>; the length wraps when \<open>pos\<close> is past the end.\<close>

definition put_rest :: "string \<Rightarrow> nat \<Rightarrow> SubBuf \<Rightarrow> SubBuf option" where
  "put_rest text pos buf = (if pos \<le> length text then Some (put_block (drop pos text) buf) else None)"

text \<open>The loop from \<open>pos\<close> on; \<open>cnt\<close> is \<open>match_count\<close>, \<open>n\<close> is \<open>*num_subs\<close>. A match with a negative length,
  which would move \<open>pos\<close> back, is left undefined.\<close>

function subst_from ::
  "string \<Rightarrow> string \<Rightarrow> string \<Rightarrow> int \<Rightarrow> nat \<Rightarrow> int \<Rightarrow> bool \<Rightarrow> int \<Rightarrow> SubBuf \<Rightarrow> (SubBuf \<times> bool \<times> int) option" where
  "subst_from text pat repl occ pos cnt did n buf =
     (if pos \<le> length text then do {
        (r, m) \<leftarrow> bre_match (drop pos text) pat;
        if r = BRE_OK \<or> bm_start m < 0 then do { buf \<leftarrow> put_rest text pos buf; Some (buf, did, n) }
        else if bm_length m < 0 then None
        else do {
          let mstart = pos + nat (bm_start m);
          prefix \<leftarrow> copy_from text (int pos) (bm_start m);
          let buf = put_block prefix buf;
          let cnt = cnt + 1;
          let now = (occ = -1 \<or> (occ = 0 \<and> cnt = 1) \<or> (occ > 0 \<and> cnt = occ));
          buf \<leftarrow> (if now then do {
                     let (out, cap) = buf;
                     put_replacement (drop pos text) m repl (out, if length out + 1 > cap then cap * 2 else cap) }
                  else do { s \<leftarrow> copy_from text (int mstart) (bm_length m); Some (put_block s buf) });
          let pos' = mstart + (if bm_length m \<noteq> 0 then nat (bm_length m) else 1);
          let did' = (did \<or> now);
          let n' = (if now then n + 1 else n);
          if (occ > 0 \<and> cnt \<ge> occ) \<or> occ = 0 then do { buf \<leftarrow> put_rest text pos' buf; Some (buf, did', n') }
          else subst_from text pat repl occ pos' cnt did' n' buf } }
      else Some (buf, did, n))"
  by pat_completeness auto
termination
  by (relation "measure (\<lambda>(text, pat, repl, occ, pos, cnt, did, n, buf). Suc (length text) - pos)") auto

declare subst_from.simps [simp del]

text \<open>The text, whether there was a substitution, and their number.\<close>

definition do_substitute :: "string \<Rightarrow> string \<Rightarrow> string \<Rightarrow> int \<Rightarrow> (string \<times> bool \<times> int) option" where
  "do_substitute text pat repl occ = do {
     ((out, cap), did, n) \<leftarrow> subst_from text pat repl occ 0 0 False 0 ([], length text + 1);
     if length out < cap then Some (out, did, n) else None }"

section \<open>The parser\<close>

text \<open>The script from \<open>i\<close> on, and the line number.\<close>

record Parser =
  ps_rest :: string
  ps_line :: int

definition ps_init :: "string \<Rightarrow> Parser" where
  "ps_init s = \<lparr>ps_rest = s, ps_line = 1\<rparr>"

definition ps_peek :: "Parser \<Rightarrow> char option" where
  "ps_peek p = (case ps_rest p of [] \<Rightarrow> None | c # s \<Rightarrow> Some c)"

definition ps_get :: "Parser \<Rightarrow> char option \<times> Parser" where
  "ps_get p = (case ps_rest p of [] \<Rightarrow> (None, p)
     | c # s \<Rightarrow> (Some c, \<lparr>ps_rest = s, ps_line = (if c = LF then ps_line p + 1 else ps_line p)\<rparr>))"

definition ps_skip_ws :: "Parser \<Rightarrow> Parser" where
  "ps_skip_ws p = p\<lparr>ps_rest := dropWhile (\<lambda>c. c = CHR '' '' \<or> c = CHR 0x09) (ps_rest p)\<rparr>"

text \<open>The text up to the delimiter, and the rest. A backslash stands for the character after it.\<close>

fun delimited :: "char \<Rightarrow> bool \<Rightarrow> string \<Rightarrow> string \<times> string" where
  "delimited delim esc [] = ([], [])"
| "delimited delim esc [c] = (if c = delim then [] else [c], [])"
| "delimited delim esc (c # d # s) =
     (if esc \<and> c = BSL then (let (t, r) = delimited delim esc s in (d # t, r))
      else if c = delim then ([], d # s)
      else (let (t, r) = delimited delim esc (d # s) in (c # t, r)))"

definition parse_delimited :: "Parser \<Rightarrow> char \<Rightarrow> bool \<Rightarrow> string \<times> Parser" where
  "parse_delimited p delim esc = (let (t, r) = delimited delim esc (ps_rest p) in (t, p\<lparr>ps_rest := r\<rparr>))"

text \<open>A decimal number that must not exceed the maximum of its type.\<close>

fun number_upto :: "int \<Rightarrow> int \<Rightarrow> string \<Rightarrow> (int \<times> string) option" where
  "number_upto mx v [] = Some (v, [])"
| "number_upto mx v (c # s) =
     (if isdigit c then (let v' = v * 10 + digit_val c in if v' \<le> mx then number_upto mx v' s else None)
      else Some (v, c # s))"

definition sed_parse_address :: "Parser \<Rightarrow> (SedAddress option \<times> Parser) option" where
  "sed_parse_address p0 =
     (let p = ps_skip_ws p0 in
      case ps_peek p of
        None \<Rightarrow> Some (None, p)
      | Some c \<Rightarrow>
          if c = CHR ''$'' then Some (Some ADDR_LAST, snd (ps_get p))
          else if isdigit c then do {
            (v, r) \<leftarrow> number_upto LONG_MAX 0 (ps_rest p);
            Some (Some (ADDR_LINE v), p\<lparr>ps_rest := r\<rparr>) }
          else if c = CHR ''/'' then
            (let (re, p) = parse_delimited (snd (ps_get p)) (CHR ''/'') True in Some (Some (ADDR_REGEX re), p))
          else Some (None, p))"

text \<open>The loop over the lines of a text; \<open>acc\<close> is what has been collected.\<close>

fun text_lines_loop :: "string \<Rightarrow> string \<Rightarrow> string \<times> string" where
  "text_lines_loop acc [] = (acc, [])"
| "text_lines_loop acc (c # s) =
     (if c = LF then
        if acc \<noteq> [] \<and> last acc = BSL then text_lines_loop (butlast acc @ [LF]) s else (acc, s)
      else text_lines_loop (acc @ [c]) s)"

definition parse_text_block :: "Parser \<Rightarrow> string \<times> Parser" where
  "parse_text_block p =
     (let p = (if ps_peek p = Some BSL then
                 (let p' = snd (ps_get p) in if ps_peek p' = Some LF then snd (ps_get p') else p)
               else if ps_peek p = Some LF then snd (ps_get p) else p);
          (t, r) = text_lines_loop [] (ps_rest p)
      in (t, p\<lparr>ps_rest := r\<rparr>))"

text \<open>A file name up to a semicolon or the end of the line, without trailing blanks.\<close>

definition parse_file_name :: "Parser \<Rightarrow> string \<times> Parser" where
  "parse_file_name p0 =
     (let p = ps_skip_ws p0; stop = (\<lambda>c. c \<noteq> LF \<and> c \<noteq> CHR '';'') in
      (rev (dropWhile isspace (rev (takeWhile stop (ps_rest p)))), p\<lparr>ps_rest := dropWhile stop (ps_rest p)\<rparr>))"

lemma parse_file_name_length: "length (ps_rest (snd (parse_file_name p))) \<le> length (ps_rest p)"
  using length_dropWhile_le [of _ "dropWhile _ (ps_rest p)"] length_dropWhile_le [of _ "ps_rest p"]
  by (simp add: parse_file_name_def ps_skip_ws_def Let_def) (rule le_trans)

lemma number_upto_length: "number_upto mx v s = Some (n, r) \<Longrightarrow> length r \<le> length s"
  by (induction mx v s arbitrary: n r rule: number_upto.induct) (fastforce simp: Let_def split: if_splits)+

text \<open>The flags of \<open>s\<close>.\<close>

function s_flags :: "SedCmd \<Rightarrow> Parser \<Rightarrow> (SedCmd \<times> Parser) option" where
  "s_flags cmd p =
     (case ps_rest p of
        [] \<Rightarrow> Some (cmd, p)
      | f # s \<Rightarrow>
          if f = CHR ''g'' then s_flags (cmd\<lparr>s_occurrence := -1\<rparr>) (p\<lparr>ps_rest := s\<rparr>)
          else if f = CHR ''p'' then s_flags (cmd\<lparr>s_print := True\<rparr>) (p\<lparr>ps_rest := s\<rparr>)
          else if isdigit f then
            (case number_upto INT_MAX (digit_val f) s of
               None \<Rightarrow> None
             | Some (num, r) \<Rightarrow> s_flags (cmd\<lparr>s_occurrence := num\<rparr>) (p\<lparr>ps_rest := r\<rparr>))
          else if f = CHR ''w'' then
            (let (name, p') = parse_file_name (p\<lparr>ps_rest := s\<rparr>) in s_flags (cmd\<lparr>s_wfile := Some name\<rparr>) p')
          else Some (cmd, p))"
  by pat_completeness auto
termination
proof (relation "measure (\<lambda>(cmd, p). length (ps_rest p))", goal_cases)
  case (4 cmd p f s x num r)
  then show ?case using number_upto_length [of INT_MAX "digit_val f" s num r] by auto
next
  case (5 cmd p f s x name p')
  then have "p' = snd (parse_file_name (p\<lparr>ps_rest := s\<rparr>))" by (metis snd_conv)
  then show ?case using 5 parse_file_name_length [of "p\<lparr>ps_rest := s\<rparr>"] by simp
qed auto

declare s_flags.simps [simp del]

text \<open>The addresses in front of a command; a second address that does not parse is an error.\<close>

definition parse_addresses :: "Parser \<Rightarrow> (SedCmd option \<times> Parser) option" where
  "parse_addresses p = do {
     (a, q) \<leftarrow> sed_parse_address p;
     case a of
       None \<Rightarrow> Some (Some blank_cmd, p)
     | Some a1 \<Rightarrow>
         (let q = ps_skip_ws q in
          if ps_peek q = Some (CHR '','') then do {
            (a, q) \<leftarrow> sed_parse_address (ps_skip_ws (snd (ps_get q)));
            case a of
              None \<Rightarrow> Some (None, q)
            | Some a2 \<Rightarrow> Some (Some (blank_cmd\<lparr>sc_a1 := a1, sc_a2 := a2, has_a1 := True, has_a2 := True\<rparr>), q) }
          else Some (Some (blank_cmd\<lparr>sc_a1 := a1, has_a1 := True\<rparr>), q)) }"

text \<open>The commands that are a letter alone.\<close>

definition letter_type :: "char \<Rightarrow> CmdType option" where
  "letter_type c = map_of
     [(CHR ''p'', CMD_P), (CHR ''d'', CMD_D), (CHR ''q'', CMD_Q), (CHR ''n'', CMD_N), (CHR ''='', CMD_EQ),
      (CHR ''h'', CMD_H), (CHR ''H'', CMD_HAPP), (CHR ''g'', CMD_G), (CHR ''G'', CMD_GAPP), (CHR ''x'', CMD_X),
      (CHR ''N'', CMD_NCAP), (CHR ''D'', CMD_DCAP), (CHR ''P'', CMD_PCAP), (CHR ''l'', CMD_L)] c"

text \<open>\<open>s\<close> and \<open>y\<close>: the delimiter and the two texts.\<close>

definition parse_two :: "Parser \<Rightarrow> (string \<times> string) option \<times> Parser" where
  "parse_two p0 =
     (let (d, p) = ps_get p0 in
      case d of
        None \<Rightarrow> (None, p)
      | Some delim \<Rightarrow>
          if delim = LF then (None, p)
          else (let (a, p) = parse_delimited p delim True; (b, p) = parse_delimited p delim True in (Some (a, b), p)))"

text \<open>The switch over the letter.\<close>

definition parse_body :: "char \<Rightarrow> SedCmd \<Rightarrow> Parser \<Rightarrow> (SedCmd option \<times> Parser) option" where
  "parse_body c cmd p =
     (case letter_type c of
        Some t \<Rightarrow> Some (Some (cmd\<lparr>sc_type := t\<rparr>), p)
      | None \<Rightarrow>
          if c = CHR ''w'' then
            (let (f, p) = parse_file_name p in Some (Some (cmd\<lparr>sc_type := CMD_W, w_file := f\<rparr>), p))
          else if c = CHR ''r'' then
            (let (f, p) = parse_file_name p in Some (Some (cmd\<lparr>sc_type := CMD_R, r_file := f\<rparr>), p))
          else if c \<in> {CHR ''a'', CHR ''i'', CHR ''c''} then
            (let (t, p) = parse_text_block p in
             Some (Some (cmd\<lparr>sc_type := (if c = CHR ''a'' then CMD_A else if c = CHR ''i'' then CMD_I else CMD_C),
                             sc_text := t\<rparr>), p))
          else if c = CHR ''y'' then
            (case parse_two p of
               (None, p) \<Rightarrow> Some (None, p)
             | (Some (a, b), p) \<Rightarrow>
                 Some (if length a = length b then Some (cmd\<lparr>sc_type := CMD_Y, y_src := a, y_dst := b\<rparr>) else None, p))
          else if c = CHR ''s'' then
            (case parse_two p of
               (None, p) \<Rightarrow> Some (None, p)
             | (Some (a, b), p) \<Rightarrow> do {
                 (cmd, p) \<leftarrow> s_flags (cmd\<lparr>sc_type := CMD_S, s_pat := a, s_repl := b, s_occurrence := 0,
                                         s_print := False, s_wfile := None\<rparr>) (ps_skip_ws p);
                 Some (Some cmd, p) })
          else Some (None, p))"

definition parse_one_command :: "Parser \<Rightarrow> (SedCmd option \<times> Parser) option" where
  "parse_one_command p0 =
     (let p = ps_skip_ws p0 in
      if ps_rest p = [] then Some (None, p)
      else do {
        (cmd, p) \<leftarrow> parse_addresses p;
        case cmd of
          None \<Rightarrow> Some (None, p)
        | Some cmd \<Rightarrow>
            (case ps_get (ps_skip_ws p) of
               (None, p) \<Rightarrow> Some (None, p)
             | (Some c, p) \<Rightarrow> do {
                 (r, p) \<leftarrow> parse_body c cmd p;
                 case r of
                   None \<Rightarrow> Some (None, p)
                 | Some cmd \<Rightarrow>
                     (let p = ps_skip_ws p in
                      Some (Some cmd, if ps_peek p = Some (CHR '';'') then snd (ps_get p) else p)) }) })"

subsection \<open>The parser consumes what it reads\<close>

abbreviation (input) left :: "Parser \<Rightarrow> nat" where "left p \<equiv> length (ps_rest p)"

lemma ps_skip_ws_left: "left (ps_skip_ws p) \<le> left p"
  by (simp add: ps_skip_ws_def length_dropWhile_le)

lemma ps_get_left: "left (snd (ps_get p)) \<le> left p"
  by (auto simp: ps_get_def split: list.splits)

lemma ps_get_less: "ps_get p = (Some c, q) \<Longrightarrow> left q < left p"
  by (auto simp: ps_get_def split: list.splits)

lemma delimited_length: "length (snd (delimited d e s)) \<le> length s"
  by (induction d e s rule: delimited.induct) (auto split: prod.splits)

lemma parse_delimited_left: "left (snd (parse_delimited p d e)) \<le> left p"
  using delimited_length [of d e "ps_rest p"] by (auto simp: parse_delimited_def split: prod.splits)

lemma text_lines_loop_length: "length (snd (text_lines_loop acc s)) \<le> length s"
proof (induction acc s rule: text_lines_loop.induct)
  case (2 acc c s)
  then show ?case by (auto intro: le_SucI)
qed simp

lemma parse_text_block_left: "left (snd (parse_text_block p)) \<le> left p"
proof -
  define q where "q = (if ps_peek p = Some BSL then
     (let p' = snd (ps_get p) in if ps_peek p' = Some LF then snd (ps_get p') else p)
     else if ps_peek p = Some LF then snd (ps_get p) else p)"
  have "left q \<le> left p"
    using ps_get_left [of p] ps_get_left [of "snd (ps_get p)"] by (auto simp: q_def Let_def)
  then show ?thesis using text_lines_loop_length [of "[]" "ps_rest q"]
    by (auto simp: parse_text_block_def q_def [symmetric] split: prod.splits)
qed

lemma sed_parse_address_left:
  assumes "sed_parse_address p = Some (a, q)" shows "left q \<le> left p"
proof -
  let ?p = "ps_skip_ws p"
  have "left q \<le> left ?p"
    using assms ps_get_left [of ?p] parse_delimited_left [of "snd (ps_get ?p)" "CHR ''/''" True]
      number_upto_length [of LONG_MAX 0 "ps_rest ?p"]
    by (auto simp: sed_parse_address_def Let_def split: option.splits if_splits prod.splits Option.bind_splits)
  then show ?thesis using ps_skip_ws_left [of p] by simp
qed

lemma parse_addresses_left:
  assumes "parse_addresses p = Some (a, q)" shows "left q \<le> left p"
proof -
  obtain a1 q1 where a1: "sed_parse_address p = Some (a1, q1)"
    using assms by (auto simp: parse_addresses_def split: Option.bind_splits)
  then have l1: "left q1 \<le> left p" by (rule sed_parse_address_left)
  let ?q = "ps_skip_ws q1" and ?r = "ps_skip_ws (snd (ps_get (ps_skip_ws q1)))"
  have l2: "left ?q \<le> left p" "left ?r \<le> left p"
    using l1 ps_skip_ws_left [of q1] ps_get_left [of ?q] ps_skip_ws_left [of "snd (ps_get ?q)"] by linarith+
  have "\<And>a2 q2. sed_parse_address ?r = Some (a2, q2) \<Longrightarrow> left q2 \<le> left p"
    using sed_parse_address_left l2(2) le_trans by blast
  then show ?thesis
    using assms a1 l1 l2 by (auto simp: parse_addresses_def Let_def split: option.splits if_splits Option.bind_splits)
qed

lemma s_flags_left: "s_flags cmd p = Some (c, q) \<Longrightarrow> left q \<le> left p"
proof (induction cmd p rule: s_flags.induct)
  case (1 cmd p)
  show ?case
  proof (cases "ps_rest p")
    case Nil
    then show ?thesis using "1.prems" by (simp add: s_flags.simps [of cmd p])
  next
    case (Cons f s)
    have "\<And>n r. number_upto INT_MAX (digit_val f) s = Some (n, r) \<Longrightarrow> length r \<le> length s"
      by (rule number_upto_length)
    moreover have "\<And>n r. parse_file_name (p\<lparr>ps_rest := s\<rparr>) = (n, r) \<Longrightarrow> left r \<le> length s"
      using parse_file_name_length [of "p\<lparr>ps_rest := s\<rparr>"] by (metis Parser.select_convs(1) Parser.simps(4) snd_conv Parser.surjective Parser.update_convs(1))
    ultimately show ?thesis
      using "1.prems" "1.IH" Cons by (fastforce simp: s_flags.simps [of cmd p] split: if_splits option.splits prod.splits)
  qed
qed

lemma parse_two_left: "parse_two p = (r, q) \<Longrightarrow> left q \<le> left p"
  using ps_get_left [of p] parse_delimited_left [of "snd (ps_get p)"] parse_delimited_left le_trans
  by (auto simp: parse_two_def split: prod.splits option.splits if_splits) (metis le_trans snd_conv)+

lemma parse_body_left:
  assumes "parse_body c cmd p = Some (r, q)" shows "left q \<le> left p"
proof -
  have a: "\<And>x y. parse_file_name p = (x, y) \<Longrightarrow> left y \<le> left p" using parse_file_name_length by (metis snd_conv)
  have b: "\<And>x y. parse_text_block p = (x, y) \<Longrightarrow> left y \<le> left p" using parse_text_block_left by (metis snd_conv)
  have f: "\<And>x y k cm. parse_two p = (x, y) \<Longrightarrow> s_flags cm (ps_skip_ws y) = Some (k, q) \<Longrightarrow> left q \<le> left p"
  proof -
    fix x y k cm
    assume "parse_two p = (x, y)" "s_flags cm (ps_skip_ws y) = Some (k, q)"
    then show "left q \<le> left p" using s_flags_left parse_two_left ps_skip_ws_left [of y] le_trans by metis
  qed
  have w: "parse_two p = (x, y) \<Longrightarrow> left y \<le> left p" for x y by (rule parse_two_left)
  obtain fn q1 where e1: "parse_file_name p = (fn, q1)" by fastforce
  obtain t q2 where e2: "parse_text_block p = (t, q2)" by fastforce
  obtain tw q3 where e3: "parse_two p = (tw, q3)" by fastforce
  note e = e1 e2 e3 a [OF e1] b [OF e2] w [OF e3]
  show ?thesis
  proof (cases "letter_type c = None \<and> c = CHR ''s''")
    case True
    then show ?thesis using assms e f [OF e3]
      by (cases tw) (auto simp: parse_body_def split: Option.bind_splits)
  next
    case False
    then show ?thesis using assms e
      by (cases tw) (auto simp: parse_body_def split: option.splits if_splits)
  qed
qed

lemma parse_one_command_less:
  assumes "parse_one_command p = Some (Some cmd, q)" shows "left q < left p"
proof -
  obtain a q1 where a: "parse_addresses (ps_skip_ws p) = Some (Some a, q1)"
    using assms by (auto simp: parse_one_command_def Let_def split: if_splits Option.bind_splits option.splits)
  obtain d q2 where d: "ps_get (ps_skip_ws q1) = (d, q2)" by (rule prod.exhaust)
  obtain c where c: "d = Some c"
    using assms a d by (auto simp: parse_one_command_def Let_def split: if_splits option.splits)
  obtain r q3 where b: "parse_body c a q2 = Some (Some r, q3)"
    using assms a d c by (auto simp: parse_one_command_def Let_def split: if_splits Option.bind_splits option.splits)
  have q: "q = (if ps_peek (ps_skip_ws q3) = Some (CHR '';'') then snd (ps_get (ps_skip_ws q3)) else ps_skip_ws q3)"
    using assms a d c b by (auto simp: parse_one_command_def Let_def split: if_splits)
  have "left q \<le> left q3" using q ps_get_left [of "ps_skip_ws q3"] ps_skip_ws_left [of q3] by auto
  also have "\<dots> \<le> left q2" using parse_body_left [OF b] .
  also have "\<dots> < left (ps_skip_ws q1)" using ps_get_less d c by simp
  also have "\<dots> \<le> left q1" by (rule ps_skip_ws_left)
  also have "\<dots> \<le> left (ps_skip_ws p)" using parse_addresses_left [OF a] .
  also have "\<dots> \<le> left p" by (rule ps_skip_ws_left)
  finally show ?thesis .
qed

lemma skip_ws_Cons: "ps_rest (ps_skip_ws p) = c # s \<Longrightarrow> length s < left p"
  using ps_skip_ws_left [of p] by simp

lemma command_rest:
  assumes "parse_one_command (ps_skip_ws p) = Some (Some cmd, q)"
  shows "length (dropWhile P (ps_rest q)) < left p"
  using parse_one_command_less [OF assms] ps_skip_ws_left [of p] length_dropWhile_le [of P "ps_rest q"] by linarith

section \<open>The script\<close>

text \<open>The commands are added to \<open>g_cmds\<close>; after each the rest of its line is skipped.\<close>

function parse_script_loop :: "Parser \<Rightarrow> Sed \<Rightarrow> (bool \<times> Sed) option" where
  "parse_script_loop p0 w =
     (let p = ps_skip_ws p0 in
      case ps_rest p of
        [] \<Rightarrow> Some (True, w)
      | c # s \<Rightarrow>
          if c = CHR 0x0D then parse_script_loop (p\<lparr>ps_rest := s\<rparr>) w
          else if c = LF then parse_script_loop \<lparr>ps_rest = s, ps_line = ps_line p + 1\<rparr> w
          else if length (g_cmds w) \<ge> MAX_CMDS then Some (False, sed_error ''too many commands'' w)
          else
            (case parse_one_command p of
               None \<Rightarrow> None
             | Some (None, q) \<Rightarrow> Some (False, sed_error (''parse error near script line '' @ show_int (ps_line q)) w)
             | Some (Some cmd, q) \<Rightarrow>
                 (let w = w\<lparr>g_cmds := g_cmds w @ [cmd]\<rparr>; r = dropWhile (\<lambda>c. c \<noteq> LF) (ps_rest q) in
                  if r = [] then parse_script_loop (q\<lparr>ps_rest := []\<rparr>) w
                  else parse_script_loop \<lparr>ps_rest = tl r, ps_line = ps_line q + 1\<rparr> w)))"
  by pat_completeness auto
termination
  by (relation "measure (\<lambda>(p, w). left p)")
    (auto dest: skip_ws_Cons command_rest [of _ _ _ "\<lambda>c. c \<noteq> LF"] intro: le_less_trans [OF diff_le_self])

declare parse_script_loop.simps [simp del]

definition parse_script :: "string \<Rightarrow> Sed \<Rightarrow> (bool \<times> Sed) option" where
  "parse_script script w = parse_script_loop (ps_init script) w"

section \<open>Execution\<close>

record ExecState =
  st_ps :: "string option"
  st_hs :: "string option"
  st_lineno :: int
  quit_now :: bool

definition set_in_range :: "nat \<Rightarrow> bool \<Rightarrow> Sed \<Rightarrow> Sed" where
  "set_in_range i b w = w\<lparr>g_cmds := (g_cmds w)[i := (g_cmds w ! i)\<lparr>in_range := b\<rparr>]\<rparr>"

text \<open>Whether the second address ends the range on this line.\<close>

definition range_ends :: "SedCmd \<Rightarrow> string \<Rightarrow> int \<Rightarrow> Sed \<Rightarrow> bool option" where
  "range_ends c ps lineno w =
     (if addr_is_last (sc_a2 c) then Some (is_last_line_in_file w) else addr_matches (sc_a2 c) ps lineno w)"

text \<open>\<open>end_now\<close> is computed and not used.\<close>

definition apply_addresses :: "nat \<Rightarrow> string \<Rightarrow> int \<Rightarrow> Sed \<Rightarrow> (bool \<times> Sed) option" where
  "apply_addresses i ps lineno w =
     (let c = g_cmds w ! i in
      if \<not> has_a1 c then Some (True, w)
      else do {
        match1 \<leftarrow> addr_matches (sc_a1 c) ps lineno w;
        if \<not> has_a2 c then Some (match1, w)
        else
          (let active = (in_range c \<or> match1); w = (if active then set_in_range i True w else w) in
           if active then do { end_now \<leftarrow> range_ends c ps lineno w; Some (True, w) } else Some (False, w)) })"

definition maybe_end_range_after_line :: "nat \<Rightarrow> string \<Rightarrow> int \<Rightarrow> Sed \<Rightarrow> Sed option" where
  "maybe_end_range_after_line i ps lineno w =
     (let c = g_cmds w ! i in
      if has_a1 c \<and> has_a2 c \<and> in_range c then do {
        end_now \<leftarrow> range_ends c ps lineno w;
        Some (if end_now then set_in_range i False w else w) }
      else Some w)"

definition octal3 :: "nat \<Rightarrow> string" where
  "octal3 n = [char_of (48 + n div 64), char_of (48 + n div 8 mod 8), char_of (48 + n mod 8)]"

text \<open>One character of the command \<open>l\<close>.\<close>

definition l_char :: "char \<Rightarrow> string" where
  "l_char c =
     (if c = LF then [BSL, CHR ''n'']
      else if 32 \<le> code c \<and> code c \<le> 126 \<and> c \<noteq> BSL then [c]
      else if c = BSL then [BSL, BSL]
      else if code c = 7 then [BSL, CHR ''a'']
      else if code c = 8 then [BSL, CHR ''b'']
      else if code c = 9 then [BSL, CHR ''t'']
      else if code c = 13 then [BSL, CHR ''r'']
      else if code c = 12 then [BSL, CHR ''f'']
      else if code c = 11 then [BSL, CHR ''v'']
      else BSL # octal3 (code c))"

definition cmd_print_l :: "string \<Rightarrow> Sed \<Rightarrow> Sed" where
  "cmd_print_l ps w = emit (concat (map l_char ps) @ ''$'' @ [LF]) w"

definition cmd_print_line_number :: "int \<Rightarrow> Sed \<Rightarrow> Sed" where
  "cmd_print_line_number lineno w = emit (show_int lineno @ [LF]) w"

text \<open>The character of \<open>y_dst\<close> at the place where \<open>strchr\<close> finds \<open>c\<close> in \<open>y_src\<close>.\<close>

definition y_char :: "string \<Rightarrow> string \<Rightarrow> char \<Rightarrow> char" where
  "y_char src dst c =
     (let k = length (takeWhile (\<lambda>d. d \<noteq> c) src) in if k < length src then peek dst k else c)"

text \<open>What follows a command: the next one, the end of the function with its result, or the first
  command again.\<close>

datatype Outcome = Proceed | Leave bool | Again

definition text_of :: "string option \<Rightarrow> string" where
  "text_of s = (case s of None \<Rightarrow> [] | Some t \<Rightarrow> t)"

text \<open>The switch over the type; \<open>ps\<close> is the pattern space.\<close>

definition exec_cmd :: "SedCmd \<Rightarrow> string \<Rightarrow> ExecState \<Rightarrow> Sed \<Rightarrow> (Outcome \<times> ExecState \<times> Sed) option" where
  "exec_cmd c ps st w =
     (case sc_type c of
        CMD_P \<Rightarrow> Some (Proceed, st, emit ps w)
      | CMD_D \<Rightarrow> Some (Leave False, st, w)
      | CMD_Q \<Rightarrow> Some (Leave True, st\<lparr>quit_now := True\<rparr>, w)
      | CMD_EQ \<Rightarrow> Some (Proceed, st, cmd_print_line_number (st_lineno st) w)
      | CMD_N \<Rightarrow> Some (Leave True, st\<lparr>st_ps := None\<rparr>, if g_auto_print w then emit ps w else w)
      | CMD_W \<Rightarrow> Some (Proceed, st, put_wfile (w_file c) ps w)
      | CMD_R \<Rightarrow> Some (Proceed, st, case sd_files w (r_file c) of None \<Rightarrow> w | Some t \<Rightarrow> emit t w)
      | CMD_A \<Rightarrow> Some (Proceed, st, emit (sc_text c @ [LF]) w)
      | CMD_I \<Rightarrow> Some (Proceed, st, emit (sc_text c @ [LF]) w)
      | CMD_C \<Rightarrow> Some (Proceed, st\<lparr>st_ps := Some (sc_text c @ [LF])\<rparr>, w)
      | CMD_S \<Rightarrow> do {
          (res, did_any, subs) \<leftarrow> do_substitute ps (s_pat c) (s_repl c) (s_occurrence c);
          let w = (if did_any \<and> s_print c then emit res w else w);
          let w = (case s_wfile c of None \<Rightarrow> w | Some f \<Rightarrow> if did_any then put_wfile f res w else w);
          Some (Proceed, st\<lparr>st_ps := Some res\<rparr>, w) }
      | CMD_Y \<Rightarrow> Some (Proceed, st\<lparr>st_ps := Some (map (y_char (y_src c) (y_dst c)) ps)\<rparr>, w)
      | CMD_NCAP \<Rightarrow> Some (Leave True, st\<lparr>st_ps := Some (ps @ [CHR 0x01])\<rparr>, w)
      | CMD_DCAP \<Rightarrow>
          (let nl = dropWhile (\<lambda>c. c \<noteq> LF) ps in
           if nl = [] then Some (Leave False, st, w) else Some (Again, st\<lparr>st_ps := Some (tl nl)\<rparr>, w))
      | CMD_PCAP \<Rightarrow>
          (let l = takeWhile (\<lambda>c. c \<noteq> LF) ps in
           Some (Proceed, st, emit (if length l < length ps then l @ [LF] else ps) w))
      | CMD_H \<Rightarrow> Some (Proceed, st\<lparr>st_hs := Some ps\<rparr>, w)
      | CMD_HAPP \<Rightarrow> Some (Proceed, st\<lparr>st_hs := Some (text_of (st_hs st) @ ps)\<rparr>, w)
      | CMD_G \<Rightarrow> Some (Proceed, st\<lparr>st_ps := Some (text_of (st_hs st))\<rparr>, w)
      | CMD_GAPP \<Rightarrow> Some (Proceed, st\<lparr>st_ps := Some (ps @ text_of (st_hs st))\<rparr>, w)
      | CMD_X \<Rightarrow> Some (Proceed, st\<lparr>st_ps := Some (text_of (st_hs st)), st_hs := Some ps\<rparr>, w)
      | CMD_L \<Rightarrow> Some (Proceed, st, cmd_print_l ps w))"

text \<open>The loop from command \<open>i\<close> on; \<open>n\<close> is \<open>g_ncmds\<close>. Each restart by \<open>D\<close> takes a unit of fuel.\<close>

function exec_loop :: "nat \<Rightarrow> nat \<Rightarrow> nat \<Rightarrow> ExecState \<Rightarrow> Sed \<Rightarrow> (bool \<times> ExecState \<times> Sed) option" where
  "exec_loop fuel n i st w =
     (if i < n then
        (case st_ps st of
           None \<Rightarrow> None
         | Some ps \<Rightarrow>
             (case apply_addresses i ps (st_lineno st) w of
                None \<Rightarrow> None
              | Some (False, w) \<Rightarrow> exec_loop fuel n (Suc i) st w
              | Some (True, w) \<Rightarrow>
                  (case exec_cmd (g_cmds w ! i) ps st w of
                     None \<Rightarrow> None
                   | Some (Leave cont, st, w) \<Rightarrow> Some (cont, st, w)
                   | Some (Proceed, st, w) \<Rightarrow>
                       (case maybe_end_range_after_line i (text_of (st_ps st)) (st_lineno st) w of
                          None \<Rightarrow> None
                        | Some w \<Rightarrow> exec_loop fuel n (Suc i) st w)
                   | Some (Again, st, w) \<Rightarrow>
                       (case maybe_end_range_after_line i (text_of (st_ps st)) (st_lineno st) w of
                          None \<Rightarrow> None
                        | Some w \<Rightarrow> (case fuel of 0 \<Rightarrow> None | Suc fuel' \<Rightarrow> exec_loop fuel' n 0 st w)))))
      else Some (True, st, w))"
  by pat_completeness auto
termination
  by (relation "measures [\<lambda>(fuel, n, i, st, w). fuel, \<lambda>(fuel, n, i, st, w). n - i]") auto

declare exec_loop.simps [simp del]

definition exec_cmds_on_line :: "nat \<Rightarrow> ExecState \<Rightarrow> Sed \<Rightarrow> (bool \<times> ExecState \<times> Sed) option" where
  "exec_cmds_on_line fuel st w = exec_loop fuel (length (g_cmds w)) 0 st w"

section \<open>The cycle\<close>

text \<open>A line into the pattern space; \<open>ls\<close> are the lines after it.\<close>

definition take_line :: "string \<Rightarrow> string list \<Rightarrow> ExecState \<Rightarrow> Sed \<Rightarrow> ExecState \<times> Sed" where
  "take_line l ls st w =
     (st\<lparr>st_lineno := st_lineno st + 1, st_ps := Some (c_string l)\<rparr>, w\<lparr>is_last_line_in_file := (ls = [])\<rparr>)"

text \<open>After the commands: the line that \<open>N\<close> asks for, and the output. The lines that are left.\<close>

definition finish_cycle :: "string list \<Rightarrow> ExecState \<Rightarrow> Sed \<Rightarrow> string list \<times> ExecState \<times> Sed" where
  "finish_cycle ls st w =
     (let (ls, st) =
        (case st_ps st of
           None \<Rightarrow> (ls, st)
         | Some ps \<Rightarrow>
             if ps \<noteq> [] \<and> last ps = CHR 0x01 then
               (case ls of
                  [] \<Rightarrow> (ls, st\<lparr>st_ps := Some (butlast ps)\<rparr>)
                | l # ls' \<Rightarrow> (ls', st\<lparr>st_lineno := st_lineno st + 1, st_ps := Some (butlast ps @ [LF] @ c_string l)\<rparr>))
             else (ls, st))
      in (ls, st, case st_ps st of None \<Rightarrow> w | Some ps \<Rightarrow> if g_auto_print w then emit ps w else w))"

lemma finish_cycle_length: "finish_cycle ls st w = (ls', st', w') \<Longrightarrow> length ls' \<le> length ls"
  by (auto simp: finish_cycle_def Let_def split: option.splits if_splits list.splits)

text \<open>The loop over the lines of a file. The result says whether \<open>q\<close> ended it.\<close>

function cycle_loop :: "nat \<Rightarrow> string list \<Rightarrow> ExecState \<Rightarrow> Sed \<Rightarrow> (bool \<times> ExecState \<times> Sed) option" where
  "cycle_loop fuel [] st w = Some (False, st, w)"
| "cycle_loop fuel (l # ls) st w =
     (let (st, w) = take_line l ls st w in
      case exec_cmds_on_line fuel st w of
        None \<Rightarrow> None
      | Some (False, st, w) \<Rightarrow> cycle_loop fuel ls st w
      | Some (True, st, w) \<Rightarrow>
          if st_ps st = None then
            (case ls of
               [] \<Rightarrow> Some (False, st, w)
             | l2 # ls2 \<Rightarrow>
                 (let (st, w) = take_line l2 ls2 st w in
                  case exec_cmds_on_line fuel st w of
                    None \<Rightarrow> None
                  | Some (False, st, w) \<Rightarrow> cycle_loop fuel ls2 st w
                  | Some (True, st, w) \<Rightarrow>
                      (let (ls3, st, w) = finish_cycle ls2 st w in
                       if quit_now st then Some (True, st, w) else cycle_loop fuel ls3 st w)))
          else
            (let (ls3, st, w) = finish_cycle ls st w in
             if quit_now st then Some (True, st, w) else cycle_loop fuel ls3 st w))"
  by pat_completeness auto
termination
  by (relation "measure (\<lambda>(fuel, ls, st, w). length ls)") (auto split: prod.splits dest: finish_cycle_length)

declare cycle_loop.simps [simp del]

text \<open>\<open>-\<close> is standard input, which is also read when there is no file.\<close>

fun process_files_loop :: "nat \<Rightarrow> string list \<Rightarrow> ExecState \<Rightarrow> Sed \<Rightarrow> (bool \<times> Sed) option" where
  "process_files_loop fuel [] st w = Some (True, w)"
| "process_files_loop fuel (name # fs) st w =
     (case (if name = ''-'' then Some (sd_stdin w) else sd_files w name) of
        None \<Rightarrow> Some (False, sed_error (''cannot open '' @ name) w)
      | Some t \<Rightarrow>
          (let w = (if name = ''-'' then w\<lparr>sd_stdin := []\<rparr> else w) in
           case cycle_loop fuel (chunks 65536 t) st w of
             None \<Rightarrow> None
           | Some (quit, st, w) \<Rightarrow> if quit then Some (True, w) else process_files_loop fuel fs st w))"

definition start_exec :: ExecState where
  "start_exec = \<lparr>st_ps = None, st_hs = None, st_lineno = 0, quit_now = False\<rparr>"

definition process_files :: "nat \<Rightarrow> string list \<Rightarrow> Sed \<Rightarrow> (bool \<times> Sed) option" where
  "process_files fuel files w = process_files_loop fuel (if files = [] then [''-''] else files) start_exec w"

section \<open>The program\<close>

definition print_usage :: "Sed \<Rightarrow> Sed" where
  "print_usage w = w\<lparr>sd_stdout := sd_stdout w
     @ ''Usage: sed [-n] [-o outfile] [-e script]... [-f scriptfile]... [scriptfile] [infile] [outfile]'' @ [LF]
     @ ''Non-POSIX additions: -o outfile for redirect; positional script file + input + output when no -e/-f used.'' @ [LF]\<rparr>"

text \<open>The options: the script so far, the output file and the arguments that are left, or the exit status.\<close>

fun sed_options ::
  "string list \<Rightarrow> string option \<Rightarrow> string option \<Rightarrow> Sed \<Rightarrow> (int + string option \<times> string option \<times> string list) \<times> Sed" where
  "sed_options [] acc out w = (Inr (acc, out, []), w)"
| "sed_options (a # as) acc out w =
     (if a = ''-n'' then sed_options as acc out (w\<lparr>g_auto_print := False\<rparr>)
      else if a = ''-e'' then
        (case as of
           [] \<Rightarrow> (Inl 1, sed_error ''-e requires argument'' w)
         | s # as' \<Rightarrow> sed_options as' (Some (text_of acc @ s @ [LF])) out w)
      else if a = ''-f'' then
        (case as of
           [] \<Rightarrow> (Inl 1, sed_error ''-f requires path'' w)
         | f # as' \<Rightarrow>
             (case read_file_to_string f w of
                None \<Rightarrow> (Inl 1, sed_error (''cannot read '' @ f) w)
              | Some s \<Rightarrow> sed_options as' (Some (text_of acc @ s)) out w))
      else if a = ''-o'' then
        (case as of
           [] \<Rightarrow> (Inl 1, sed_error ''-o requires path'' w)
         | f # as' \<Rightarrow> sed_options as' acc (Some f) w)
      else if hd0 a = CHR ''-'' \<and> peek a 1 \<noteq> NUL then (Inl 1, print_usage w)
      else (Inr (acc, out, a # as), w))"

text \<open>The script with the file names that belong to it: whether it is inline, the script, the input file, the
  output file and the arguments that are left. \<open>None\<close> when there is no script.\<close>

definition script_source ::
  "string option \<Rightarrow> string option \<Rightarrow> string list \<Rightarrow> Sed
     \<Rightarrow> (bool \<times> string \<times> string option \<times> string option \<times> string list) option" where
  "script_source acc out rest w =
     (case acc of
        Some s \<Rightarrow> Some (False, s, None, out, rest)
      | None \<Rightarrow>
          (case rest of
             [] \<Rightarrow> None
           | candidate # rest \<Rightarrow>
               (case read_file_to_string candidate w of
                  Some s \<Rightarrow>
                    (let s = (if s = [] \<or> last s \<noteq> LF then s @ [LF] else s);
                         inp = (case rest of [] \<Rightarrow> None | f # _ \<Rightarrow> Some f);
                         rest = tl rest;
                         takes = (out = None \<and> rest \<noteq> [])
                     in Some (False, s, inp, if takes then Some (hd rest) else out, if takes then tl rest else rest))
                | None \<Rightarrow> Some (True, candidate @ [LF], None, out, rest))))"

text \<open>Opening of the output, when there is one.\<close>

definition open_output :: "string option \<Rightarrow> Sed \<Rightarrow> bool \<times> Sed" where
  "open_output out w =
     (case out of
        None \<Rightarrow> (True, w)
      | Some f \<Rightarrow>
          (let (ok, w) = open_write f w in
           if ok then (True, w\<lparr>g_out := Some f\<rparr>) else (False, sed_error (''cannot open output '' @ f) w)))"

definition sed_main :: "nat \<Rightarrow> string list \<Rightarrow> Sed \<Rightarrow> (int \<times> Sed) option" where
  "sed_main fuel argv w =
     (case sed_options (drop 1 argv) None None w of
        (Inl status, w) \<Rightarrow> Some (status, w)
      | (Inr (acc, out, rest), w) \<Rightarrow>
          (case script_source acc out rest w of
             None \<Rightarrow> Some (1, print_usage w)
           | Some (inline, script, inp, out, rest) \<Rightarrow> do {
               (ok, w) \<leftarrow> parse_script (filter (\<lambda>c. c \<noteq> CHR 0x0D) script) w;
               if \<not> ok then Some (1, w)
               else
                 (let files = (case inp of Some f \<Rightarrow> [f] | None \<Rightarrow> take MAX_FILES_S rest);
                      last_out = (out = None \<and> inline \<and> length files > 1);
                      out = (if last_out then Some (last files) else out);
                      files = (if last_out then butlast files else files);
                      (ok, w) = open_output out w
                  in if \<not> ok then Some (1, w)
                     else do {
                       (ok, w) \<leftarrow> process_files fuel files w;
                       Some (if ok then 0 else 1, w) }) }))"

definition start_sed :: "(string \<rightharpoonup> string) \<Rightarrow> string \<Rightarrow> Sed" where
  "start_sed files inp = \<lparr>g_cmds = [], g_wfiles = [], g_auto_print = True, is_last_line_in_file = False,
     g_out = None, sd_files = files, sd_writable = (\<lambda>f. True), sd_stdin = inp, sd_stdout = [], sd_stderr = []\<rparr>"

end
