(* ===== verification/SedProps.thy ===== *)
theory SedProps
  imports Sed BreSpec
begin

text \<open>
  The stream editor: the reference interpreter of line commands and the program's agreement with it, and
  what the program does with ranges of \<open>d\<close>, regular expressions, \<open>s\<close>, \<open>D\<close>, and several commands on a line.
\<close>

section \<open>Scripts of line commands\<close>

datatype selection = Every | Line nat | LastLine | Range nat nat

datatype action =
    Print | Delete | Number | Transliterate string string | Hold | HoldMore | Get | GetMore | Exchange
  | FirstLine | ShowL | Insert string | AppendText string | Change string

fun print_selection :: "selection \<Rightarrow> string" where
  "print_selection Every = []"
| "print_selection (Line n) = show_nat n"
| "print_selection LastLine = ''$''"
| "print_selection (Range a b) = show_nat a @ '','' @ show_nat b"

fun print_action :: "action \<Rightarrow> string" where
  "print_action Print = ''p''"
| "print_action Delete = ''d''"
| "print_action Number = ''=''"
| "print_action (Transliterate a b) = ''y/'' @ a @ ''/'' @ b @ ''/''"
| "print_action Hold = ''h''"
| "print_action HoldMore = ''H''"
| "print_action Get = ''g''"
| "print_action GetMore = ''G''"
| "print_action Exchange = ''x''"
| "print_action FirstLine = ''P''"
| "print_action ShowL = ''l''"
| "print_action (Insert t) = ''i'' @ [LF] @ t @ [LF]"
| "print_action (AppendText t) = ''a'' @ [LF] @ t @ [LF]"
| "print_action (Change t) = ''c'' @ [LF] @ t @ [LF]"

definition print_step :: "selection \<times> action \<Rightarrow> string" where
  "print_step s = print_selection (fst s) @ print_action (snd s) @ [LF]"

subsection \<open>What a script means\<close>

fun selects :: "selection \<Rightarrow> nat \<Rightarrow> bool \<Rightarrow> bool" where
  "selects Every n final = True"
| "selects (Line k) n final = (n = k)"
| "selects LastLine n final = final"
| "selects (Range a b) n final = (a \<le> n \<and> n \<le> b)"

definition y_map :: "string \<Rightarrow> string \<Rightarrow> char \<Rightarrow> char" where
  "y_map a b c = (case map_of (zip a b) c of None \<Rightarrow> c | Some d \<Rightarrow> d)"

text \<open>An action on the pattern and the hold space: whether the line lives on, the two spaces, the output.\<close>

fun ref_action :: "nat \<Rightarrow> action \<Rightarrow> string \<Rightarrow> string \<Rightarrow> bool \<times> string \<times> string \<times> string" where
  "ref_action n Print ps hs = (True, ps, hs, ps)"
| "ref_action n Delete ps hs = (False, ps, hs, [])"
| "ref_action n Number ps hs = (True, ps, hs, show_nat n @ [LF])"
| "ref_action n (Transliterate a b) ps hs = (True, map (y_map a b) ps, hs, [])"
| "ref_action n Hold ps hs = (True, ps, ps, [])"
| "ref_action n HoldMore ps hs = (True, ps, hs @ ps, [])"
| "ref_action n Get ps hs = (True, hs, hs, [])"
| "ref_action n GetMore ps hs = (True, ps @ hs, hs, [])"
| "ref_action n Exchange ps hs = (True, hs, ps, [])"
| "ref_action n FirstLine ps hs =
     (True, ps, hs, if LF \<in> set ps then takeWhile (\<lambda>c. c \<noteq> LF) ps @ [LF] else ps)"
| "ref_action n ShowL ps hs = (True, ps, hs, concat (map l_char ps) @ ''$'' @ [LF])"
| "ref_action n (Insert t) ps hs = (True, ps, hs, t @ [LF])"
| "ref_action n (AppendText t) ps hs = (True, ps, hs, t @ [LF])"
| "ref_action n (Change t) ps hs = (True, t @ [LF], hs, [])"

fun ref_line :: "nat \<Rightarrow> bool \<Rightarrow> (selection \<times> action) list \<Rightarrow> string \<Rightarrow> string \<Rightarrow> bool \<times> string \<times> string \<times> string" where
  "ref_line n final [] ps hs = (True, ps, hs, [])"
| "ref_line n final ((sel, act) # steps) ps hs =
     (if selects sel n final then
        (let (alive, ps, hs, out) = ref_action n act ps hs in
         if alive then (let (alive, ps, hs, out') = ref_line n final steps ps hs in (alive, ps, hs, out @ out'))
         else (False, ps, hs, out))
      else ref_line n final steps ps hs)"

fun ref_lines :: "bool \<Rightarrow> (selection \<times> action) list \<Rightarrow> nat \<Rightarrow> string list \<Rightarrow> string \<Rightarrow> string" where
  "ref_lines quiet steps n [] hs = []"
| "ref_lines quiet steps n (l # ls) hs =
     (let (alive, ps, hs, out) = ref_line n (ls = []) steps (l @ [LF]) hs in
      out @ (if alive \<and> \<not> quiet then ps else []) @ ref_lines quiet steps (n + 1) ls hs)"

subsection \<open>The scripts it is about\<close>

definition plain_char :: "char \<Rightarrow> bool" where
  "plain_char c \<longleftrightarrow> c \<notin> {LF, CHR 0x0D, NUL}"

definition text_fine :: "string \<Rightarrow> bool" where
  "text_fine t \<longleftrightarrow> list_all plain_char t \<and> (t = [] \<or> last t \<noteq> BSL)"

fun selection_ok :: "selection \<Rightarrow> bool" where
  "selection_ok (Line n) = (int n \<le> LONG_MAX)"
| "selection_ok (Range a b) = (1 \<le> a \<and> a \<le> b \<and> int b \<le> LONG_MAX)"
| "selection_ok sel = True"

fun action_ok :: "action \<Rightarrow> bool" where
  "action_ok (Transliterate a b) =
     (length a = length b \<and> list_all (\<lambda>c. plain_char c \<and> c \<noteq> CHR ''/'' \<and> c \<noteq> BSL) (a @ b))"
| "action_ok (Insert t) = text_fine t"
| "action_ok (AppendText t) = text_fine t"
| "action_ok (Change t) = text_fine t"
| "action_ok act = True"

fun is_range :: "selection \<Rightarrow> bool" where
  "is_range (Range a b) = True"
| "is_range sel = False"

text \<open>No range on \<open>d\<close>, and none after a \<open>d\<close>.\<close>

fun steps_ok :: "(selection \<times> action) list \<Rightarrow> bool" where
  "steps_ok [] = True"
| "steps_ok ((sel, act) # steps) =
     (selection_ok sel \<and> action_ok act \<and> (act = Delete \<longrightarrow> \<not> is_range sel \<and> list_all (\<lambda>s. \<not> is_range (fst s)) steps)
      \<and> steps_ok steps)"

section \<open>Parsing\<close>

fun set_selection :: "selection \<Rightarrow> SedCmd" where
  "set_selection Every = blank_cmd"
| "set_selection (Line n) = blank_cmd\<lparr>sc_a1 := ADDR_LINE (int n), has_a1 := True\<rparr>"
| "set_selection LastLine = blank_cmd\<lparr>sc_a1 := ADDR_LAST, has_a1 := True\<rparr>"
| "set_selection (Range a b) =
     blank_cmd\<lparr>sc_a1 := ADDR_LINE (int a), sc_a2 := ADDR_LINE (int b), has_a1 := True, has_a2 := True\<rparr>"

fun set_action :: "action \<Rightarrow> SedCmd \<Rightarrow> SedCmd" where
  "set_action Print c = c\<lparr>sc_type := CMD_P\<rparr>"
| "set_action Delete c = c\<lparr>sc_type := CMD_D\<rparr>"
| "set_action Number c = c\<lparr>sc_type := CMD_EQ\<rparr>"
| "set_action (Transliterate a b) c = c\<lparr>sc_type := CMD_Y, y_src := a, y_dst := b\<rparr>"
| "set_action Hold c = c\<lparr>sc_type := CMD_H\<rparr>"
| "set_action HoldMore c = c\<lparr>sc_type := CMD_HAPP\<rparr>"
| "set_action Get c = c\<lparr>sc_type := CMD_G\<rparr>"
| "set_action GetMore c = c\<lparr>sc_type := CMD_GAPP\<rparr>"
| "set_action Exchange c = c\<lparr>sc_type := CMD_X\<rparr>"
| "set_action FirstLine c = c\<lparr>sc_type := CMD_PCAP\<rparr>"
| "set_action ShowL c = c\<lparr>sc_type := CMD_L\<rparr>"
| "set_action (Insert t) c = c\<lparr>sc_type := CMD_I, sc_text := t\<rparr>"
| "set_action (AppendText t) c = c\<lparr>sc_type := CMD_A, sc_text := t\<rparr>"
| "set_action (Change t) c = c\<lparr>sc_type := CMD_C, sc_text := t\<rparr>"

definition cmd_of :: "selection \<times> action \<Rightarrow> SedCmd" where
  "cmd_of s = set_action (snd s) (set_selection (fst s))"

lemma number_upto_digits:
  "list_all isdigit ds \<Longrightarrow> dec_val v ds \<le> mx \<Longrightarrow> 0 \<le> v \<Longrightarrow> r = [] \<or> \<not> isdigit (hd r)
   \<Longrightarrow> number_upto mx v (ds @ r) = Some (dec_val v ds, r)"
proof (induction ds arbitrary: v)
  case Nil
  then show ?case by (cases r) auto
next
  case (Cons d ds)
  have d: "0 \<le> digit_val d" using Cons.prems(1) by (simp add: digit_val_bounds)
  have "v * 10 + digit_val d \<le> dec_val (v * 10 + digit_val d) ds"
    using Cons.prems d by (intro dec_val_mono) (auto simp: list_all_iff)
  then show ?case using Cons d by (simp add: Let_def)
qed

lemma number_upto_show:
  "int n \<le> mx \<Longrightarrow> r = [] \<or> \<not> isdigit (hd r) \<Longrightarrow> number_upto mx 0 (show_nat n @ r) = Some (int n, r)"
  using number_upto_digits [of "show_nat n" 0 mx r] isdigit_show [of n] by (simp add: list_all_iff)

abbreviation "parser s k \<equiv> \<lparr>ps_rest = s, ps_line = k\<rparr>"

lemma parser_eta: "ps_rest p = s \<Longrightarrow> p = parser s (ps_line p)"
  by simp

lemma ps_simps [simp]:
  "ps_peek (parser (c # s) k) = Some c" "ps_peek (parser [] k) = None"
  "ps_get (parser (c # s) k) = (Some c, parser s (if c = LF then k + 1 else k))"
  "c \<noteq> CHR '' '' \<Longrightarrow> c \<noteq> CHR 0x09 \<Longrightarrow> ps_skip_ws (parser (c # s) k) = parser (c # s) k"
  by (simp_all add: ps_peek_def ps_get_def ps_skip_ws_def)

lemma show_nat_hd: obtains c s where "show_nat n = c # s" "isdigit c"
  using isdigit_show [of n] show_nat_neq_Nil [of n] by (cases "show_nat n") auto

lemma digit_not: "isdigit c \<Longrightarrow> c \<noteq> CHR ''$'' \<and> c \<noteq> CHR '' '' \<and> c \<noteq> CHR 0x09 \<and> c \<noteq> LF \<and> c \<noteq> CHR 0x0D"
  by (auto simp: isdigit_def code_def)

lemma address_line:
  assumes "int n \<le> LONG_MAX" "c \<noteq> CHR '' ''" "\<not> isdigit c"
  shows "sed_parse_address (parser (show_nat n @ c # r) k) = Some (Some (ADDR_LINE (int n)), parser (c # r) k)"
proof -
  obtain d s where d: "show_nat n = d # s" "isdigit d" by (rule show_nat_hd)
  have nu: "number_upto LONG_MAX 0 (d # s @ c # r) = Some (int n, c # r)"
    using number_upto_show [of n LONG_MAX "c # r"] assms d by simp
  have sk: "ps_skip_ws (parser (d # s @ c # r) k) = parser (d # s @ c # r) k"
    by (rule ps_simps(4)) (use digit_not [OF d(2)] in auto)
  show ?thesis using d nu sk digit_not [OF d(2)] by (simp add: sed_parse_address_def Let_def del: number_upto.simps)
qed

lemma address_none:
  assumes "c \<notin> {CHR ''$'', CHR ''/'', CHR '' '', CHR 0x09}" "\<not> isdigit c"
  shows "\<exists>q. sed_parse_address (parser (c # s) k) = Some (None, q)"
  using assms by (auto simp: sed_parse_address_def)

lemma addresses:
  assumes "selection_ok sel" "c \<notin> {CHR ''$'', CHR ''/'', CHR '' '', CHR 0x09, CHR '',''}" "\<not> isdigit c"
  shows "\<exists>q. parse_addresses (parser (print_selection sel @ c # s) k) = Some (Some (set_selection sel), q)
    \<and> q = parser (c # s) k"
proof (cases sel)
  case Every
  then show ?thesis using address_none [of c s k] assms by (auto simp: parse_addresses_def)
next
  case (Line n)
  then show ?thesis using address_line [of n c s k] assms by (simp add: parse_addresses_def)
next
  case LastLine
  have "sed_parse_address (parser (CHR ''$'' # c # s) k) = Some (Some ADDR_LAST, parser (c # s) k)"
    by (simp add: sed_parse_address_def)
  then show ?thesis using LastLine assms by (simp add: parse_addresses_def)
next
  case (Range a b)
  obtain d r where d: "show_nat b = d # r" "isdigit d" by (rule show_nat_hd)
  have "\<not> isdigit CHR '',''" by (simp add: isdigit_def code_def)
  then have a: "sed_parse_address (parser (show_nat a @ CHR '','' # show_nat b @ c # s) k)
      = Some (Some (ADDR_LINE (int a)), parser (CHR '','' # show_nat b @ c # s) k)"
    using address_line [of a "CHR '',''" "show_nat b @ c # s" k] assms(1) Range by auto
  have b: "sed_parse_address (parser (show_nat b @ c # s) k) = Some (Some (ADDR_LINE (int b)), parser (c # s) k)"
    using address_line [of b c s k] assms Range by auto
  have sk: "ps_skip_ws (parser (show_nat b @ c # s) k) = parser (show_nat b @ c # s) k"
    unfolding d(1) append_Cons by (rule ps_simps(4)) (use digit_not [OF d(2)] in auto)
  show ?thesis using a b sk Range by (simp add: parse_addresses_def)
qed

subsection \<open>The body of a command\<close>

lemma delimited_plain:
  "list_all (\<lambda>c. plain_char c \<and> c \<noteq> CHR ''/'' \<and> c \<noteq> BSL) a \<Longrightarrow> r \<noteq> [] \<Longrightarrow>
   delimited (CHR ''/'') True (a @ CHR ''/'' # r) = (a, r)"
proof (induction a)
  case Nil
  then show ?case by (cases r) auto
next
  case (Cons c a)
  then show ?case by (cases "a @ CHR ''/'' # r") auto
qed

lemma text_loop_plain:
  "list_all plain_char t \<Longrightarrow> acc @ t = [] \<or> last (acc @ t) \<noteq> BSL \<Longrightarrow>
   text_lines_loop acc (t @ LF # r) = (acc @ t, r)"
  by (induction t arbitrary: acc) (auto simp: plain_char_def)

lemma text_block:
  assumes "text_fine t"
  shows "parse_text_block (parser (LF # t @ LF # r) k) = (t, parser r (k + 1))"
  using text_loop_plain [of t "[]" r] assms by (simp add: parse_text_block_def text_fine_def)

definition body_letter :: "action \<Rightarrow> char" where
  "body_letter act = hd (print_action act)"

lemma body:
  assumes "action_ok act"
  shows "\<exists>k'. parse_body (body_letter act) c (parser (tl (print_action act) @ LF # r) k) = Some (Some (set_action act c), parser (LF # r) k')"
proof (cases act)
  case (Transliterate a b)
  then have "list_all (\<lambda>c. plain_char c \<and> c \<noteq> CHR ''/'' \<and> c \<noteq> BSL) a" "list_all (\<lambda>c. plain_char c \<and> c \<noteq> CHR ''/'' \<and> c \<noteq> BSL) b"
    "length a = length b" using assms by auto
  then show ?thesis using Transliterate
    by (simp add: parse_body_def body_letter_def letter_type_def parse_two_def parse_delimited_def delimited_plain)
next
  case (Insert t)
  then show ?thesis using assms text_block [of t "LF # r" k] by (simp add: parse_body_def body_letter_def letter_type_def)
next
  case (AppendText t)
  then show ?thesis using assms text_block [of t "LF # r" k] by (simp add: parse_body_def body_letter_def letter_type_def)
next
  case (Change t)
  then show ?thesis using assms text_block [of t "LF # r" k] by (simp add: parse_body_def body_letter_def letter_type_def)
qed (simp_all add: parse_body_def body_letter_def letter_type_def)

lemma letter:
  "print_action act = body_letter act # tl (print_action act)"
  "body_letter act \<notin> {CHR ''$'', CHR ''/'', CHR '' '', CHR 0x09, CHR '','', LF, CHR 0x0D}" "\<not> isdigit (body_letter act)"
  by (cases act; simp add: body_letter_def isdigit_def code_def)+

lemma step_starts:
  "selection_ok sel \<Longrightarrow> \<exists>c s. print_selection sel @ print_action act = c # s \<and> c \<notin> {CHR '' '', CHR 0x09, LF, CHR 0x0D}"
proof (cases sel)
  case Every
  then show ?thesis using letter [of act] by (metis append_Nil insert_iff print_selection.simps(1))
next
  case (Line n)
  then show ?thesis using show_nat_hd [of n] digit_not by (metis append_Cons insert_iff print_selection.simps(2) empty_iff)
next
  case (Range a b)
  then show ?thesis using show_nat_hd [of a] digit_not by (metis append_Cons insert_iff print_selection.simps(4) empty_iff)
qed simp

lemma parse_step:
  assumes "selection_ok sel" "action_ok act"
  shows "\<exists>k'. parse_one_command (parser (print_step (sel, act) @ r) k) = Some (Some (cmd_of (sel, act)), parser (LF # r) k')"
proof -
  obtain c s where c: "print_selection sel @ print_action act = c # s" "c \<notin> {CHR '' '', CHR 0x09, LF, CHR 0x0D}"
    using step_starts [OF assms(1)] by blast
  have whole: "print_step (sel, act) @ r = c # s @ LF # r" using c(1) by (simp add: print_step_def)
  have p: "print_step (sel, act) @ r = print_selection sel @ body_letter act # tl (print_action act) @ LF # r"
    using letter(1) [of act] by (simp add: print_step_def)
  have skip: "ps_skip_ws (parser (print_step (sel, act) @ r) k) = parser (print_step (sel, act) @ r) k"
    unfolding whole by (rule ps_simps(4)) (use c(2) in auto)
  have a: "parse_addresses (parser (print_step (sel, act) @ r) k)
      = Some (Some (set_selection sel), parser (body_letter act # tl (print_action act) @ LF # r) k)"
    unfolding p using addresses [OF assms(1), of "body_letter act" "tl (print_action act) @ LF # r" k] letter [of act] by auto
  obtain k' where b: "parse_body (body_letter act) (set_selection sel) (parser (tl (print_action act) @ LF # r) k)
      = Some (Some (cmd_of (sel, act)), parser (LF # r) k')"
    using body [OF assms(2), of "set_selection sel" r k] by (auto simp: cmd_of_def)
  show ?thesis
    using skip a b letter(2) [of act] whole
    by (simp add: parse_one_command_def Let_def)
qed

lemma parse_steps:
  assumes "\<forall>s \<in> set steps. selection_ok (fst s) \<and> action_ok (snd s)" "length (g_cmds w) + length steps \<le> 512"
  shows "\<exists>k'. parse_script_loop (parser (concat (map print_step steps) @ r) k) w
    = parse_script_loop (parser r k') (w\<lparr>g_cmds := g_cmds w @ map cmd_of steps\<rparr>)"
  using assms
proof (induction steps arbitrary: w k)
  case (Cons st steps)
  obtain sel act where st: "st = (sel, act)" by fastforce
  let ?r = "concat (map print_step steps) @ r"
  obtain c s where c: "print_selection sel @ print_action act = c # s" "c \<notin> {CHR '' '', CHR 0x09, LF, CHR 0x0D}"
    using step_starts [of sel act] Cons.prems(1) st by auto
  have whole: "print_step st @ ?r = c # s @ LF # ?r" using c(1) st by (simp add: print_step_def)
  obtain k' where p: "parse_one_command (parser (print_step st @ ?r) k) = Some (Some (cmd_of st), parser (LF # ?r) k')"
    using parse_step [of sel act ?r k] Cons.prems(1) st by auto
  have "parse_script_loop (parser (print_step st @ ?r) k) w
      = parse_script_loop (parser ?r (k' + 1)) (w\<lparr>g_cmds := g_cmds w @ [cmd_of st]\<rparr>)"
    using p c(2) Cons.prems(2) unfolding whole by (subst parse_script_loop.simps) (simp add: Let_def)
  moreover obtain k2 where "parse_script_loop (parser ?r (k' + 1)) (w\<lparr>g_cmds := g_cmds w @ [cmd_of st]\<rparr>)
      = parse_script_loop (parser r k2) (w\<lparr>g_cmds := g_cmds w @ map cmd_of (st # steps)\<rparr>)"
    using Cons.IH [of "w\<lparr>g_cmds := g_cmds w @ [cmd_of st]\<rparr>" "k' + 1"] Cons.prems by auto
  ultimately show ?case by auto
qed auto

section \<open>Running a line\<close>

lemma y_char_map: "length a = length b \<Longrightarrow> y_char a b c = y_map a b c"
proof (induction a b rule: list_induct2)
  case (Cons x xs y ys)
  then show ?case by (auto simp: y_char_def y_map_def Let_def)
qed (simp add: y_char_def y_map_def)

text \<open>A command before line \<open>n\<close>: a range is open when it has begun and not ended.\<close>

definition cmd_at :: "nat \<Rightarrow> selection \<times> action \<Rightarrow> SedCmd" where
  "cmd_at n s = (cmd_of s)\<lparr>in_range := (case fst s of Range a b \<Rightarrow> a < n \<and> n \<le> b | _ \<Rightarrow> False)\<rparr>"

lemma set_action_fields [simp]:
  "sc_a1 (set_action act c) = sc_a1 c" "sc_a2 (set_action act c) = sc_a2 c" "has_a1 (set_action act c) = has_a1 c"
  "has_a2 (set_action act c) = has_a2 c" "in_range (set_action act c) = in_range c"
  by (cases act; simp)+

lemma set_selection_fields [simp]: "in_range (set_selection sel) = False"
  by (cases sel) (simp_all add: blank_cmd_def)

lemma in_range_upd [simp]: "set_action act c\<lparr>in_range := v\<rparr> = set_action act (c\<lparr>in_range := v\<rparr>)"
  by (cases act) simp_all

definition spaces :: "ExecState \<Rightarrow> nat \<Rightarrow> string \<Rightarrow> string \<Rightarrow> bool" where
  "spaces st n ps hs \<longleftrightarrow> st_ps st = Some ps \<and> text_of (st_hs st) = hs \<and> st_lineno st = int n \<and> \<not> quit_now st"

lemma exec_action:
  assumes "action_ok act" "spaces st n ps hs" "g_out w = None" "ref_action n act ps hs = (alive, ps', hs', out)"
  shows "\<exists>st'. exec_cmd (set_action act c) ps st w =
      Some (if alive then Proceed else Leave False, st', w\<lparr>sd_stdout := sd_stdout w @ out\<rparr>) \<and> spaces st' n ps' hs'"
proof -
  have hd_tl: "takeWhile (\<lambda>c. c \<noteq> LF) ps = ps \<longleftrightarrow> LF \<notin> set ps"
    by (auto simp: takeWhile_eq_all_conv)
  have len: "length (takeWhile (\<lambda>c. c \<noteq> LF) ps) < length ps \<longleftrightarrow> LF \<in> set ps"
    using hd_tl length_takeWhile_le [of "\<lambda>c. c \<noteq> LF" ps] by (metis le_neq_implies_less nat_neq_iff takeWhile_eq_take take_all_iff)
  show ?thesis
    using assms len by (cases act) (auto simp: exec_cmd_def spaces_def emit_def text_of_def cmd_print_line_number_def
        cmd_print_l_def show_int_def y_char_map Let_def)
qed

lemma apply_step:
  assumes "i < length (g_cmds w)" "g_cmds w ! i = cmd_at n (sel, act)" "selection_ok sel" "1 \<le> n"
  shows "apply_addresses i ps (int n) w = Some (selects sel n (is_last_line_in_file w),
    case sel of Range a b \<Rightarrow> if a \<le> n \<and> n \<le> b then set_in_range i True w else w | _ \<Rightarrow> w)"
proof (cases sel)
  case (Range a b)
  then show ?thesis using assms
    by (auto simp: apply_addresses_def Let_def cmd_at_def cmd_of_def range_ends_def addr_is_last_def set_in_range_def)
qed (use assms in \<open>auto simp: apply_addresses_def Let_def cmd_at_def cmd_of_def blank_cmd_def\<close>)

lemma cmd_at_next:
  "selection_ok (fst s) \<Longrightarrow> \<not> selects (fst s) n final \<Longrightarrow> cmd_at (n + 1) s = cmd_at n s"
  "\<not> is_range (fst s) \<Longrightarrow> cmd_at (n + 1) s = cmd_at n s"
  by (cases "fst s"; auto simp: cmd_at_def intro!: arg_cong [where f = "\<lambda>v. cmd_of s\<lparr>in_range := v\<rparr>"])+

lemma set_in_range_mid:
  "g_cmds w = pre @ c # post \<Longrightarrow> set_in_range (length pre) v w = w\<lparr>g_cmds := pre @ (c\<lparr>in_range := v\<rparr>) # post\<rparr>"
  by (simp add: set_in_range_def)

lemma selected_step:
  assumes g: "g_cmds w = pre @ cmd_at n (sel, act) # post" and ok: "selection_ok sel" "1 \<le> n"
    and sel: "selects sel n (is_last_line_in_file w)"
  obtains c where "apply_addresses (length pre) ps (int n) w = Some (True, w\<lparr>g_cmds := pre @ c # post\<rparr>)"
    "c = set_action act (set_selection sel\<lparr>in_range := is_range sel\<rparr>)"
    "\<And>ps' o'. maybe_end_range_after_line (length pre) ps' (int n) (w\<lparr>g_cmds := pre @ c # post, sd_stdout := o'\<rparr>)
       = Some (w\<lparr>g_cmds := pre @ cmd_at (n + 1) (sel, act) # post, sd_stdout := o'\<rparr>)"
proof -
  define c where "c = set_action act (set_selection sel\<lparr>in_range := is_range sel\<rparr>)"
  have a: "apply_addresses (length pre) ps (int n) w = Some (True, w\<lparr>g_cmds := pre @ c # post\<rparr>)"
  proof (cases "is_range sel")
    case True
    then obtain a b where s: "sel = Range a b" by (cases sel) auto
    have "cmd_at n (sel, act)\<lparr>in_range := True\<rparr> = c" by (simp add: c_def s cmd_at_def cmd_of_def)
    then show ?thesis
      using apply_step [of "length pre" w n sel act ps] g ok sel s by (simp add: set_in_range_mid [OF g])
  next
    case False
    have e: "set_selection sel\<lparr>in_range := False\<rparr> = set_selection sel" using False
      by (cases sel) (simp_all add: blank_cmd_def)
    have "cmd_at n (sel, act) = c"
      using False by (cases sel) (simp_all add: c_def cmd_at_def cmd_of_def e [symmetric] blank_cmd_def)
    then have "w\<lparr>g_cmds := pre @ c # post\<rparr> = w" using g by simp
    then show ?thesis
      using apply_step [of "length pre" w n sel act ps] g ok sel False by (cases sel) simp_all
  qed
  have m: "maybe_end_range_after_line (length pre) ps' (int n) (w\<lparr>g_cmds := pre @ c # post, sd_stdout := o'\<rparr>)
       = Some (w\<lparr>g_cmds := pre @ cmd_at (n + 1) (sel, act) # post, sd_stdout := o'\<rparr>)" for ps' o'
  proof (cases sel)
    case (Range a b)
    then show ?thesis using sel
      by (auto simp: maybe_end_range_after_line_def Let_def c_def range_ends_def addr_is_last_def cmd_at_def cmd_of_def
          set_in_range_def)
  qed (simp_all add: maybe_end_range_after_line_def Let_def c_def cmd_at_def cmd_of_def blank_cmd_def)
  show thesis by (rule that [OF a c_def m])
qed

text \<open>The commands of a line, as the reference says.\<close>

lemma exec_loop_line:
  assumes "steps_ok ys" "1 \<le> n" "g_cmds w = xs @ map (cmd_at n) ys" "spaces st n ps hs" "g_out w = None"
    "ref_line n (is_last_line_in_file w) ys ps hs = (alive, ps', hs', out)"
  shows "\<exists>st'. exec_loop fuel (length xs + length ys) (length xs) st w =
      Some (alive, st', w\<lparr>g_cmds := xs @ map (cmd_at (n + 1)) ys, sd_stdout := sd_stdout w @ out\<rparr>) \<and> spaces st' n ps' hs'"
  using assms
proof (induction ys arbitrary: xs st w ps hs out)
  case Nil
  then show ?case by (auto simp: exec_loop.simps [of fuel])
next
  case (Cons s ys)
  obtain sel act where s: "s = (sel, act)" by fastforce
  have ok: "selection_ok sel" "action_ok act" "steps_ok ys" using Cons.prems(1) s by auto
  have g: "g_cmds w = xs @ cmd_at n (sel, act) # map (cmd_at n) ys" using Cons.prems(3) s by simp
  have p: "st_ps st = Some ps" "st_lineno st = int n" using Cons.prems(4) by (simp_all add: spaces_def)
  let ?len = "length xs + length (s # ys)"
  show ?case
  proof (cases "selects sel n (is_last_line_in_file w)")
    case False
    then have r: "ref_line n (is_last_line_in_file w) ys ps hs = (alive, ps', hs', out)" using Cons.prems(6) s by simp
    have a: "apply_addresses (length xs) ps (int n) w = Some (False, w)"
      using apply_step [of "length xs" w n sel act ps] g ok(1) Cons.prems(2) False by (cases sel) auto
    have u: "exec_loop fuel ?len (length xs) st w = exec_loop fuel ?len (Suc (length xs)) st w"
      using a p by (subst exec_loop.simps) simp
    have nx: "cmd_at (n + 1) s = cmd_at n s" using cmd_at_next(1) [of s n] ok(1) s False by simp
    show ?thesis
      using Cons.IH [OF ok(3) Cons.prems(2), of w "xs @ [cmd_at n s]" st ps hs out] Cons.prems(3-5) r nx u by simp
  next
    case True
    obtain c where c: "apply_addresses (length xs) ps (int n) w = Some (True, w\<lparr>g_cmds := xs @ c # map (cmd_at n) ys\<rparr>)"
      "c = set_action act (set_selection sel\<lparr>in_range := is_range sel\<rparr>)"
      "\<And>ps' o'. maybe_end_range_after_line (length xs) ps' (int n) (w\<lparr>g_cmds := xs @ c # map (cmd_at n) ys, sd_stdout := o'\<rparr>)
         = Some (w\<lparr>g_cmds := xs @ cmd_at (n + 1) (sel, act) # map (cmd_at n) ys, sd_stdout := o'\<rparr>)"
      by (rule selected_step [OF g ok(1) Cons.prems(2) True, where ps = ps]) blast
    obtain alive1 ps1 hs1 out1 where r1: "ref_action n act ps hs = (alive1, ps1, hs1, out1)" by (metis prod_cases4)
    let ?w1 = "w\<lparr>g_cmds := xs @ c # map (cmd_at n) ys\<rparr>"
    obtain st1 where e: "exec_cmd c ps st ?w1 = Some (if alive1 then Proceed else Leave False, st1, ?w1\<lparr>sd_stdout := sd_stdout w @ out1\<rparr>)"
      "spaces st1 n ps1 hs1"
      using exec_action [OF ok(2) Cons.prems(4) _ r1, of ?w1 "set_selection sel\<lparr>in_range := is_range sel\<rparr>"] Cons.prems(5) c(2)
      by auto
    have gi: "g_cmds ?w1 ! length xs = c" by simp
    show ?thesis
    proof (cases alive1)
      case False
      then have d: "act = Delete" using r1 by (cases act) auto
      have nr: "\<not> is_range sel" "\<forall>y \<in> set ys. \<not> is_range (fst y)" using Cons.prems(1) s d by (auto simp: list_all_iff)
      have cn: "map (cmd_at (n + 1)) ys = map (cmd_at n) ys" using nr(2) cmd_at_next(2) by simp
      have "c = cmd_at (n + 1) s"
        using nr(1) c(2) s by (cases sel) (simp_all add: cmd_at_def cmd_of_def blank_cmd_def)
      moreover have "alive = False" "ps' = ps1" "hs' = hs1" "out = out1" using Cons.prems(6) s True r1 False by auto
      ultimately show ?thesis using c(1) p e False cn gi by (subst exec_loop.simps) simp
    next
      case alive: True
      obtain alive2 ps2 hs2 out2 where r2: "ref_line n (is_last_line_in_file w) ys ps1 hs1 = (alive2, ps2, hs2, out2)" by (metis prod_cases4)
      have o: "alive = alive2" "ps' = ps2" "hs' = hs2" "out = out1 @ out2" using Cons.prems(6) s True r1 r2 alive by auto
      let ?w2 = "w\<lparr>g_cmds := xs @ cmd_at (n + 1) (sel, act) # map (cmd_at n) ys, sd_stdout := sd_stdout w @ out1\<rparr>"
      have p1: "st_lineno st1 = int n" "st_ps st1 = Some ps1" using e(2) by (simp_all add: spaces_def)
      have u: "exec_loop fuel ?len (length xs) st w = exec_loop fuel ?len (Suc (length xs)) st1 ?w2"
        using c(1,3) p p1 e(1) alive gi by (subst exec_loop.simps) simp
      show ?thesis
        using Cons.IH [OF ok(3) Cons.prems(2), of ?w2 "xs @ [cmd_at (n + 1) s]" st1 ps1 hs1 out2] Cons.prems(5) e(2) r2 u s o by simp
    qed
  qed
qed

definition ends_line :: "string \<Rightarrow> bool" where
  "ends_line s \<longleftrightarrow> s = [] \<or> last s = LF"

lemma y_map_newline: "list_all (\<lambda>c. plain_char c \<and> c \<noteq> CHR ''/'' \<and> c \<noteq> BSL) (a @ b) \<Longrightarrow> length a = length b \<Longrightarrow> y_map a b LF = LF"
  by (auto simp: y_map_def list_all_iff plain_char_def split: option.splits dest!: map_of_SomeD dest: set_zip_leftD)

lemma ref_action_ends:
  "action_ok act \<Longrightarrow> ends_line ps \<Longrightarrow> ends_line hs \<Longrightarrow> ref_action n act ps hs = (alive, ps', hs', out)
   \<Longrightarrow> ends_line ps' \<and> ends_line hs'"
proof (cases act)
  case (Transliterate a b)
  then show "action_ok act \<Longrightarrow> ends_line ps \<Longrightarrow> ends_line hs \<Longrightarrow> ref_action n act ps hs = (alive, ps', hs', out) \<Longrightarrow> ?thesis"
    using y_map_newline [of a b] by (cases "ps = []") (auto simp: ends_line_def last_map)
qed (auto simp: ends_line_def last_append split: if_splits)

lemma ref_line_ends:
  "steps_ok steps \<Longrightarrow> ends_line ps \<Longrightarrow> ends_line hs \<Longrightarrow> ref_line n final steps ps hs = (alive, ps', hs', out)
   \<Longrightarrow> ends_line ps' \<and> ends_line hs'"
proof (induction steps arbitrary: ps hs out)
  case (Cons s steps)
  obtain sel act where s: "s = (sel, act)" by fastforce
  obtain a1 p1 h1 o1 where r1: "ref_action n act ps hs = (a1, p1, h1, o1)" by (rule prod_cases4)
  then have e: "ends_line p1 \<and> ends_line h1" using ref_action_ends [OF _ Cons.prems(2,3) r1] Cons.prems(1) s by simp
  obtain a2 p2 h2 o2 where r2: "ref_line n final steps p1 h1 = (a2, p2, h2, o2)" by (rule prod_cases4)
  show ?case
  proof (cases "selects sel n final")
    case False
    then show ?thesis using Cons.IH [of ps hs out] Cons.prems s by simp
  next
    case True
    then show ?thesis using Cons.IH [of p1 h1 o2] Cons.prems s r1 r2 e by (cases a1) simp_all
  qed
qed simp

lemma finish_plain:
  "st_ps st = Some ps \<Longrightarrow> ends_line ps \<Longrightarrow> g_out w = None \<Longrightarrow>
   finish_cycle ls st w = (ls, st, if g_auto_print w then w\<lparr>sd_stdout := sd_stdout w @ ps\<rparr> else w)"
  by (auto simp: finish_cycle_def ends_line_def Let_def emit_def)

lemma cycle_lines:
  assumes "steps_ok steps" "1 \<le> n" "g_cmds w = map (cmd_at n) steps" "g_out w = None"
    "st_lineno st = int n - 1" "\<not> quit_now st" "text_of (st_hs st) = hs" "ends_line hs"
    "\<forall>l \<in> set ls. NUL \<notin> set l"
  shows "\<exists>st' cs final. cycle_loop fuel (map (\<lambda>l. l @ [LF]) ls) st w =
    Some (False, st', w\<lparr>g_cmds := cs, is_last_line_in_file := final,
      sd_stdout := sd_stdout w @ ref_lines (\<not> g_auto_print w) steps n ls hs\<rparr>)"
  using assms
proof (induction ls arbitrary: n w st hs)
  case Nil
  have "w = w\<lparr>g_cmds := g_cmds w, is_last_line_in_file := is_last_line_in_file w\<rparr>" by simp
  then have "\<exists>cs final. w = w\<lparr>g_cmds := cs, is_last_line_in_file := final\<rparr>" by blast
  then show ?case by (simp add: cycle_loop.simps)
next
  case (Cons l ls)
  let ?ls = "map (\<lambda>l. l @ [LF]) ls"
  let ?st = "st\<lparr>st_lineno := int n, st_ps := Some (l @ [LF])\<rparr>" and ?w = "w\<lparr>is_last_line_in_file := (ls = [])\<rparr>"
  have cs: "c_string (l @ [LF]) = l @ [LF]"
    using Cons.prems(9) by (auto simp: c_string_def takeWhile_eq_all_conv)
  have tk: "take_line (l @ [LF]) ?ls st w = (?st, ?w)"
    using Cons.prems(5) cs by (simp add: take_line_def)
  obtain alive ps' hs' out where r: "ref_line n (ls = []) steps (l @ [LF]) hs = (alive, ps', hs', out)" by (rule prod_cases4)
  have e: "ends_line ps'" "ends_line hs'"
    using ref_line_ends [OF Cons.prems(1) _ Cons.prems(8) r] by (simp_all add: ends_line_def)
  let ?w1 = "?w\<lparr>g_cmds := map (cmd_at (n + 1)) steps, sd_stdout := sd_stdout w @ out\<rparr>"
  obtain st1 where x: "exec_cmds_on_line fuel ?st ?w = Some (alive, st1, ?w1)" "spaces st1 n ps' hs'"
    using exec_loop_line [OF Cons.prems(1,2), of ?w "[]" ?st "l @ [LF]" hs alive ps' hs' out fuel] Cons.prems r
    by (auto simp: exec_cmds_on_line_def spaces_def)
  have n1: "1 \<le> n + 1" by simp
  have s1: "st_lineno st1 = int (n + 1) - 1" "\<not> quit_now st1" "text_of (st_hs st1) = hs'" "st_ps st1 = Some ps'"
    using x(2) by (auto simp: spaces_def)
  let ?w2 = "if alive \<and> g_auto_print w then ?w1\<lparr>sd_stdout := sd_stdout w @ out @ ps'\<rparr> else ?w1"
  have u: "cycle_loop fuel ((l @ [LF]) # ?ls) st w = cycle_loop fuel ?ls st1 ?w2"
    using tk x(1) s1 finish_plain [OF s1(4) e(1), of ?w1 ?ls] Cons.prems(4)
    by (cases alive) (simp_all add: cycle_loop.simps(2) Let_def)
  have w2: "g_cmds ?w2 = map (cmd_at (n + 1)) steps" "g_out ?w2 = None" "g_auto_print ?w2 = g_auto_print w"
    using Cons.prems(4) by auto
  obtain st' cs final where i: "cycle_loop fuel ?ls st1 ?w2 =
    Some (False, st', ?w2\<lparr>g_cmds := cs, is_last_line_in_file := final,
      sd_stdout := sd_stdout ?w2 @ ref_lines (\<not> g_auto_print w) steps (n + 1) ls hs'\<rparr>)"
    using Cons.IH [OF Cons.prems(1) n1 w2(1,2) s1(1,2,3) e(2)] Cons.prems(9) w2(3) by auto
  show ?case
    using u i r by (intro exI [of _ st'] exI [of _ cs] exI [of _ final]) auto
qed

section \<open>The program\<close>

definition sed_script :: "(selection \<times> action) list \<Rightarrow> string" where
  "sed_script steps = concat (map print_step steps)"

definition line_fits :: "string \<Rightarrow> bool" where
  "line_fits l \<longleftrightarrow> length l \<le> 65534 \<and> LF \<notin> set l \<and> NUL \<notin> set l"

lemma show_no_cr: "CHR 0x0D \<notin> set (show_nat n)"
  using isdigit_show [of n] digit_not by blast

lemma script_no_cr: "steps_ok steps \<Longrightarrow> filter (\<lambda>c. c \<noteq> CHR 0x0D) (sed_script steps) = sed_script steps"
proof (induction steps)
  case (Cons s steps)
  obtain sel act where s: "s = (sel, act)" by fastforce
  have "CHR 0x0D \<notin> set (print_selection sel)" by (cases sel) (auto simp: show_no_cr)
  moreover have "CHR 0x0D \<notin> set (print_action act)"
    using Cons.prems s by (cases act) (auto simp: text_fine_def plain_char_def list_all_iff)
  ultimately have "CHR 0x0D \<notin> set (print_step s)" using s by (auto simp: print_step_def)
  then show ?case using Cons s by (auto simp: sed_script_def filter_id_conv)
qed (simp add: sed_script_def)

lemma steps_ok_all: "steps_ok steps \<Longrightarrow> \<forall>s \<in> set steps. selection_ok (fst s) \<and> action_ok (snd s)"
  by (induction steps rule: steps_ok.induct) auto

lemma cmd_at_1: "selection_ok (fst s) \<Longrightarrow> cmd_at 1 s = cmd_of s"
  by (cases "fst s") (auto simp: cmd_at_def cmd_of_def blank_cmd_def)

lemma script_parsed:
  assumes "steps_ok steps" "length steps \<le> 512" "g_cmds w = []"
  shows "parse_script (sed_script steps @ [LF]) w = Some (True, w\<lparr>g_cmds := map (cmd_at 1) steps\<rparr>)"
proof -
  have "map cmd_of steps = map (cmd_at 1) steps" using steps_ok_all [OF assms(1)] cmd_at_1 by auto
  then show ?thesis
    using parse_steps [OF steps_ok_all [OF assms(1)], of w "[LF]" 1] assms(2,3)
    by (auto simp: parse_script_def ps_init_def sed_script_def parse_script_loop.simps ps_skip_ws_def)
qed



subsection \<open>A script of one command\<close>

abbreviation "text_of_lines ls \<equiv> concat (map (\<lambda>l. l @ [LF]) ls)"

lemma run_script:
  assumes "parse_script script (start_sed files inp\<lparr>g_auto_print := \<not> quiet\<rparr>)
      = Some (True, start_sed files inp\<lparr>g_auto_print := \<not> quiet, g_cmds := cs\<rparr>)"
    "CHR 0x0D \<notin> set script" "script = s @ [LF]"
  shows "sed_main fuel ([''sed''] @ (if quiet then [''-n''] else []) @ [''-e'', s]) (start_sed files inp) =
    (case cycle_loop fuel (chunks 65536 inp) start_exec (start_sed files []\<lparr>g_auto_print := \<not> quiet, g_cmds := cs\<rparr>) of
       None \<Rightarrow> None | Some (quit, st, w) \<Rightarrow> Some (0, w))"
proof -
  have o: "sed_options ((if quiet then [''-n''] else []) @ [''-e'', s]) None None (start_sed files inp)
      = (Inr (Some script, None, []), start_sed files inp\<lparr>g_auto_print := \<not> quiet\<rparr>)"
    using assms(3) by (cases quiet) (simp_all add: text_of_def start_sed_def)
  have f: "filter (\<lambda>c. c \<noteq> CHR 0x0D) script = script" using assms(2) by (auto simp: filter_id_conv)
  show ?thesis using o assms(1) f
    by (auto simp: sed_main_def script_source_def open_output_def process_files_def start_sed_def split: option.splits)
qed

lemma fitting_chunks: "list_all line_fits ls \<Longrightarrow> chunks 65536 (text_of_lines ls) = map (\<lambda>l. l @ [LF]) ls"
  by (intro chunks_lines) (auto simp: list_all_iff line_fits_def)

lemma fitting_line: "line_fits l \<Longrightarrow> c_string (l @ [LF]) = l @ [LF]"
  by (auto simp: c_string_def takeWhile_eq_all_conv line_fits_def)

section \<open>Deleting a range\<close>

lemma range_delete_lines:
  assumes "g_cmds w = [cmd_of (Range a b, Delete)\<lparr>in_range := a < n\<rparr>]" "g_out w = None" "g_auto_print w"
    "st_lineno st = int n - 1" "\<not> quit_now st" "list_all line_fits ls" "1 \<le> n"
  shows "\<exists>st' w'. cycle_loop fuel (map (\<lambda>l. l @ [LF]) ls) st w = Some (False, st', w')
    \<and> sd_stdout w' = sd_stdout w @ text_of_lines (take (a - n) ls)"
  using assms
proof (induction ls arbitrary: n w st)
  case Nil
  then show ?case by (simp add: cycle_loop.simps)
next
  case (Cons l ls)
  let ?c = "cmd_of (Range a b, Delete)"
  let ?st = "st\<lparr>st_lineno := int n, st_ps := Some (l @ [LF])\<rparr>" and ?w = "w\<lparr>is_last_line_in_file := (ls = [])\<rparr>"
  have tk: "take_line (l @ [LF]) (map (\<lambda>l. l @ [LF]) ls) st w = (?st, ?w)"
    using Cons.prems(4,6) fitting_line [of l] by (simp add: take_line_def)
  have fields: "has_a1 ?c" "has_a2 ?c" "sc_a1 ?c = ADDR_LINE (int a)" "sc_a2 ?c = ADDR_LINE (int b)" "sc_type ?c = CMD_D"
    by (simp_all add: cmd_of_def)
  have again: "\<exists>st' w'. cycle_loop fuel (map (\<lambda>l. l @ [LF]) ls) s u = Some (False, st', w')
      \<and> sd_stdout w' = sd_stdout u @ text_of_lines (take (a - (n + 1)) ls)"
    if "g_cmds u = [?c\<lparr>in_range := a < n + 1\<rparr>]" "g_out u = None" "g_auto_print u" "st_lineno s = int (n + 1) - 1" "\<not> quit_now s" for s u
    by (rule Cons.IH) (use that Cons.prems(6) in auto)
  show ?case
  proof (cases "n < a")
    case True
    have x: "exec_cmds_on_line fuel ?st ?w = Some (True, ?st, ?w)"
      using True Cons.prems(1) fields
      by (simp add: exec_cmds_on_line_def exec_loop.simps [of fuel] apply_addresses_def Let_def)
    have "finish_cycle (map (\<lambda>l. l @ [LF]) ls) ?st ?w = (map (\<lambda>l. l @ [LF]) ls, ?st, ?w\<lparr>sd_stdout := sd_stdout w @ l @ [LF]\<rparr>)"
      using finish_plain [of ?st "l @ [LF]" ?w] Cons.prems(2,3) by (simp add: ends_line_def)
    then have u: "cycle_loop fuel (map (\<lambda>l. l @ [LF]) (l # ls)) st w
        = cycle_loop fuel (map (\<lambda>l. l @ [LF]) ls) ?st (?w\<lparr>sd_stdout := sd_stdout w @ l @ [LF]\<rparr>)"
      using tk x Cons.prems(5) by (simp add: cycle_loop.simps(2))
    have "take (a - n) (l # ls) = l # take (a - (n + 1)) ls" using True by (simp add: take_Cons')
    then show ?thesis
      using u again [of "?w\<lparr>sd_stdout := sd_stdout w @ l @ [LF]\<rparr>" ?st] Cons.prems True by auto
  next
    case False
    let ?w1 = "?w\<lparr>g_cmds := [?c\<lparr>in_range := True\<rparr>]\<rparr>"
    have x: "exec_cmds_on_line fuel ?st ?w = Some (False, ?st, ?w1)"
      using False Cons.prems(1) fields
      by (auto simp: exec_cmds_on_line_def exec_loop.simps [of fuel] apply_addresses_def Let_def range_ends_def
          addr_is_last_def set_in_range_def exec_cmd_def)
    have u: "cycle_loop fuel (map (\<lambda>l. l @ [LF]) (l # ls)) st w = cycle_loop fuel (map (\<lambda>l. l @ [LF]) ls) ?st ?w1"
      using tk x by (simp add: cycle_loop.simps(2))
    have z: "a - n = 0" "a - (n + 1) = 0" using False by auto
    show ?thesis unfolding u using again [of ?w1 ?st] Cons.prems False z by auto
  qed
qed

text \<open>
  \<open>sed a,bd\<close> deletes every line from line \<open>a\<close> on: the range is only ended after the commands of a line,
  and \<open>d\<close> leaves before that.
\<close>

theorem range_delete_runs_to_end:
  assumes "1 \<le> a" "a \<le> b" "int b \<le> LONG_MAX" "list_all line_fits ls"
  shows "\<exists>w. sed_main fuel [''sed'', ''-e'', show_nat a @ '','' @ show_nat b @ ''d''] (start_sed files (text_of_lines ls)) = Some (0, w)
    \<and> sd_stdout w = text_of_lines (take (a - 1) ls)"
proof -
  let ?s = "show_nat a @ '','' @ show_nat b @ ''d''"
  let ?w = "start_sed files (text_of_lines ls)\<lparr>g_auto_print := \<not> False\<rparr>"
  have s: "?s @ [LF] = print_step (Range a b, Delete)" by (simp add: print_step_def)
  have p: "parse_script (?s @ [LF]) ?w = Some (True, ?w\<lparr>g_cmds := [cmd_of (Range a b, Delete)]\<rparr>)"
    using parse_steps [of "[(Range a b, Delete)]" ?w "[]" 1] assms(1-3) unfolding s
    by (auto simp: parse_script_def ps_init_def parse_script_loop.simps ps_skip_ws_def start_sed_def)
  have cr: "CHR 0x0D \<notin> set (?s @ [LF])" by (simp add: show_no_cr)
  have nr: "cmd_of (Range a b, Delete) = cmd_of (Range a b, Delete)\<lparr>in_range := a < 1\<rparr>"
    using assms(1) by (simp add: cmd_of_def blank_cmd_def)
  let ?w2 = "start_sed files []\<lparr>g_auto_print := \<not> False, g_cmds := [cmd_of (Range a b, Delete)]\<rparr>"
  have g: "g_cmds ?w2 = [cmd_of (Range a b, Delete)\<lparr>in_range := a < 1\<rparr>]" unfolding nr [symmetric] by simp
  obtain st' w' where c: "cycle_loop fuel (map (\<lambda>l. l @ [LF]) ls) start_exec ?w2 = Some (False, st', w')"
    "sd_stdout w' = text_of_lines (take (a - 1) ls)"
    using range_delete_lines [OF g, of start_exec ls fuel] assms(4) by (auto simp: start_sed_def start_exec_def)
  show ?thesis
    using run_script [OF p cr refl, of fuel] c fitting_chunks [OF assms(4)] by simp
qed

theorem range_delete_runs_to_end_witness:
  "\<exists>w. sed_main 0 [''sed'', ''-e'', show_nat 2 @ '','' @ show_nat 3 @ ''d'']
      (start_sed Map.empty (text_of_lines [''a'', ''b'', ''c'', ''d''])) = Some (0, w) \<and> sd_stdout w = ''a'' @ [LF]"
proof -
  have "list_all line_fits [''a'', ''b'', ''c'', ''d'']" by (simp add: line_fits_def)
  from range_delete_runs_to_end [OF _ _ _ this, of 2 3 0 Map.empty] show ?thesis by simp
qed

section \<open>Regular expressions\<close>

lemma plain_example: "plain_regex ''a*b''"
proof -
  have "group_free ''a*b''" "reps_small ''a*b''" by code_simp+
  then show ?thesis using well_formed_example by (simp add: plain_regex_def pat_start_def)
qed

lemma regex_selects:
  assumes "plain_regex re" "no_nul ps"
  shows "addr_matches (ADDR_REGEX re) ps n w = Some (\<forall>t k. \<not> match_at ps re t k)"
  using assms by (cases rule: regex_match) auto

definition regex_print :: "string \<Rightarrow> SedCmd" where
  "regex_print re = blank_cmd\<lparr>sc_a1 := ADDR_REGEX re, has_a1 := True\<rparr>"

lemma regex_print_lines:
  assumes "g_cmds w = [regex_print re]" "g_out w = None" "\<not> g_auto_print w" "\<not> quit_now st" "list_all line_fits ls" "plain_regex re"
  shows "\<exists>st' w'. cycle_loop fuel (map (\<lambda>l. l @ [LF]) ls) st w = Some (False, st', w')
    \<and> sd_stdout w' = sd_stdout w @ text_of_lines (filter (\<lambda>l. \<forall>t k. \<not> match_at (l @ [LF]) re t k) ls)"
  using assms
proof (induction ls arbitrary: w st)
  case Nil
  then show ?case by (simp add: cycle_loop.simps)
next
  case (Cons l ls)
  let ?st = "st\<lparr>st_lineno := st_lineno st + 1, st_ps := Some (l @ [LF])\<rparr>" and ?w = "w\<lparr>is_last_line_in_file := (ls = [])\<rparr>"
  let ?none = "\<forall>t k. \<not> match_at (l @ [LF]) re t k"
  let ?w1 = "if ?none then ?w\<lparr>sd_stdout := sd_stdout w @ l @ [LF]\<rparr> else ?w"
  have tk: "take_line (l @ [LF]) (map (\<lambda>l. l @ [LF]) ls) st w = (?st, ?w)"
    using Cons.prems(5) fitting_line [of l] by (simp add: take_line_def)
  have nn: "no_nul (l @ [LF])" using Cons.prems(5) by (simp add: no_nul_def line_fits_def)
  have x: "exec_cmds_on_line fuel ?st ?w = Some (True, ?st, ?w1)"
  proof -
    define b where "b \<longleftrightarrow> ?none"
    have "addr_matches (ADDR_REGEX re) (l @ [LF]) (st_lineno st + 1) ?w = Some b"
      unfolding b_def by (rule regex_selects [OF Cons.prems(6) nn])
    then show ?thesis unfolding b_def [symmetric] using Cons.prems(1,2)
      by (cases b) (simp_all add: exec_cmds_on_line_def exec_loop.simps [of fuel] apply_addresses_def Let_def regex_print_def
          blank_cmd_def exec_cmd_def maybe_end_range_after_line_def emit_def del: addr_matches.simps)
  qed
  have f: "finish_cycle (map (\<lambda>l. l @ [LF]) ls) ?st ?w1 = (map (\<lambda>l. l @ [LF]) ls, ?st, ?w1)"
    using finish_plain [of ?st "l @ [LF]" ?w1] Cons.prems(2,3) by (simp add: ends_line_def)
  then have u: "cycle_loop fuel (map (\<lambda>l. l @ [LF]) (l # ls)) st w = cycle_loop fuel (map (\<lambda>l. l @ [LF]) ls) ?st ?w1"
    using tk x Cons.prems(4) by (simp add: cycle_loop.simps(2))
  have "\<exists>st' w'. cycle_loop fuel (map (\<lambda>l. l @ [LF]) ls) ?st ?w1 = Some (False, st', w')
    \<and> sd_stdout w' = sd_stdout ?w1 @ text_of_lines (filter (\<lambda>l. \<forall>t k. \<not> match_at (l @ [LF]) re t k) ls)"
    by (rule Cons.IH) (use Cons.prems in auto)
  then show ?case unfolding u by (cases ?none) auto
qed

text \<open>
  \<open>sed -n /re/p\<close> prints the lines in which the regular expression matches nowhere: \<open>addr_matches\<close>
  returns the result of \<open>bre_match\<close>, which is 0 for a match, as a truth value.
\<close>

theorem regex_address_selects_others:
  assumes "plain_regex re" "list_all (\<lambda>c. plain_char c \<and> c \<noteq> CHR ''/'' \<and> c \<noteq> BSL) re" "list_all line_fits ls"
  shows "\<exists>w. sed_main fuel [''sed'', ''-n'', ''-e'', ''/'' @ re @ ''/p''] (start_sed files (text_of_lines ls)) = Some (0, w)
    \<and> sd_stdout w = text_of_lines (filter (\<lambda>l. \<forall>t k. \<not> match_at (l @ [LF]) re t k) ls)"
proof -
  let ?s = "''/'' @ re @ ''/p''"
  let ?w = "start_sed files (text_of_lines ls)\<lparr>g_auto_print := \<not> True\<rparr>"
  have a: "parse_addresses (parser (?s @ [LF]) 1) = Some (Some (regex_print re), parser (''p'' @ [LF]) 1)"
    using delimited_plain [OF assms(2), of "''p'' @ [LF]"]
    by (simp add: parse_addresses_def sed_parse_address_def parse_delimited_def isdigit_def code_def regex_print_def)
  have c: "parse_one_command (parser (?s @ [LF]) 1) = Some (Some (regex_print re), parser [LF] 1)"
    using a by (simp add: parse_one_command_def parse_body_def letter_type_def regex_print_def blank_cmd_def)
  have p: "parse_script (?s @ [LF]) ?w = Some (True, ?w\<lparr>g_cmds := [regex_print re]\<rparr>)"
    using c by (simp add: parse_script_def ps_init_def parse_script_loop.simps start_sed_def)
      (simp add: parse_script_loop.simps ps_skip_ws_def)
  have cr: "CHR 0x0D \<notin> set (?s @ [LF])" using assms(2) by (auto simp: list_all_iff plain_char_def)
  obtain st' w' where l: "cycle_loop fuel (map (\<lambda>l. l @ [LF]) ls) start_exec
      (start_sed files []\<lparr>g_auto_print := \<not> True, g_cmds := [regex_print re]\<rparr>) = Some (False, st', w')"
    "sd_stdout w' = text_of_lines (filter (\<lambda>l. \<forall>t k. \<not> match_at (l @ [LF]) re t k) ls)"
    using regex_print_lines [of "start_sed files []\<lparr>g_auto_print := \<not> True, g_cmds := [regex_print re]\<rparr>" re start_exec ls fuel]
      assms by (auto simp: start_sed_def start_exec_def)
  show ?thesis using run_script [OF p cr refl, of fuel] l fitting_chunks [OF assms(3)] by simp
qed

theorem regex_address_selects_others_witness:
  "\<exists>w. sed_main 0 [''sed'', ''-n'', ''-e'', ''/'' @ ''a*b'' @ ''/p''] (start_sed Map.empty (text_of_lines [''aab'', ''c''])) = Some (0, w)
    \<and> sd_stdout w = text_of_lines (filter (\<lambda>l. \<forall>t k. \<not> match_at (l @ [LF]) ''a*b'' t k) [''aab'', ''c''])"
  by (rule regex_address_selects_others [OF plain_example]) (simp_all add: plain_char_def line_fits_def)

lemma subst_not_found:
  assumes "plain_regex pat" "no_nul text"
  shows "do_substitute text pat repl occ = Some (text, False, 0)"
  using assms
  by (cases rule: regex_match) (simp_all add: do_substitute_def subst_from.simps [of "text"] put_rest_def put_block_def)

text \<open>
  The command \<open>s\<close> never replaces anything: whatever the replacement and the flags, the pattern space
  stays as it is and nothing is reported as replaced.
\<close>

theorem substitute_never_replaces:
  assumes "plain_regex (s_pat c)" "no_nul ps" "sc_type c = CMD_S"
  shows "exec_cmd c ps st w = Some (Proceed, st\<lparr>st_ps := Some ps\<rparr>, w)"
  using subst_not_found [OF assms(1,2), of "s_repl c" "s_occurrence c"] assms(3)
  by (simp add: exec_cmd_def split: option.splits)

theorem substitute_never_replaces_witness:
  "exec_cmd (blank_cmd\<lparr>sc_type := CMD_S, s_pat := ''a*b'', s_repl := ''x''\<rparr>) ''aab'' start_exec (start_sed Map.empty [])
     = Some (Proceed, start_exec\<lparr>st_ps := Some ''aab''\<rparr>, start_sed Map.empty [])"
  using substitute_never_replaces [of "blank_cmd\<lparr>sc_type := CMD_S, s_pat := ''a*b'', s_repl := ''x''\<rparr>" "''aab''"] plain_example
  by simp

section \<open>Restarting\<close>

lemma restarts_for_ever:
  assumes "g_cmds w = [blank_cmd\<lparr>sc_type := CMD_H\<rparr>, blank_cmd\<lparr>sc_type := CMD_GAPP\<rparr>, blank_cmd\<lparr>sc_type := CMD_DCAP\<rparr>]"
    "st_ps st = Some (l @ [LF])" "LF \<notin> set l"
  shows "exec_loop fuel 3 0 st w = None"
  using assms
proof (induction fuel arbitrary: st)
  case (0 st)
  have d: "dropWhile (\<lambda>c. c \<noteq> LF) (l @ LF # l @ [LF]) = LF # l @ [LF]" using 0(3) by (subst dropWhile_append2) auto
  show ?case using 0 d
    by (simp add: exec_loop.simps [of 0] apply_addresses_def exec_cmd_def maybe_end_range_after_line_def Let_def text_of_def
        blank_cmd_def numeral_2_eq_2)
next
  case (Suc fuel st)
  have d: "dropWhile (\<lambda>c. c \<noteq> LF) (l @ LF # l @ [LF]) = LF # l @ [LF]" using Suc.prems(3) by (subst dropWhile_append2) auto
  have "exec_loop (Suc fuel) 3 0 st w = exec_loop fuel 3 0 (st\<lparr>st_hs := Some (l @ [LF]), st_ps := Some (l @ [LF])\<rparr>) w"
    using Suc.prems d
    by (simp add: exec_loop.simps [of "Suc fuel"] apply_addresses_def exec_cmd_def maybe_end_range_after_line_def Let_def text_of_def
        blank_cmd_def numeral_2_eq_2)
  also have "\<dots> = None" by (rule Suc.IH) (use Suc.prems in auto)
  finally show ?case .
qed



section \<open>The rest of a line\<close>

lemma skip_to_newline: "LF \<notin> set r \<Longrightarrow> dropWhile (\<lambda>c. c \<noteq> LF) (r @ LF # tail) = LF # tail"
  by (induction r) auto

text \<open>
  What follows a command on its line is skipped, a semicolon and further commands too.
\<close>

theorem rest_of_line_ignored:
  assumes "letter_type c = Some t" "LF \<notin> set rest"
  shows "parse_script (c # rest @ [LF] @ tail) w = parse_script (c # [LF] @ tail) w"
proof -
  have c: "c \<notin> {CHR ''$'', CHR ''/'', CHR '' '', CHR 0x09, CHR '','', LF, CHR 0x0D}" "\<not> isdigit c"
    using assms(1) by (auto simp: letter_type_def isdigit_def code_def split: if_splits)
  have one: "\<exists>r'. parse_one_command (parser (c # r @ LF # tail) 1) = Some (Some (blank_cmd\<lparr>sc_type := t\<rparr>), parser (r' @ LF # tail) 1)
      \<and> LF \<notin> set r'" if r: "LF \<notin> set r" for r
  proof -
    have a: "parse_addresses (parser (c # r @ LF # tail) 1) = Some (Some blank_cmd, parser (c # r @ LF # tail) 1)"
      using addresses [of Every c "r @ LF # tail" 1] c by auto
    define r1 where "r1 = dropWhile (\<lambda>c. c = CHR '' '' \<or> c = CHR 0x09) r"
    have n1: "LF \<notin> set r1" using r set_dropWhileD by (fastforce simp: r1_def)
    have "dropWhile (\<lambda>c. c = CHR '' '' \<or> c = CHR 0x09) (r @ LF # tail) = r1 @ LF # tail"
      unfolding r1_def by (induction r) auto
    then have s: "ps_skip_ws (parser (r @ LF # tail) 1) = parser (r1 @ LF # tail) 1" by (simp add: ps_skip_ws_def)
    show ?thesis
    proof (cases "\<exists>r2. r1 = CHR '';'' # r2")
      case True
      then obtain r2 where "r1 = CHR '';'' # r2" by blast
      then show ?thesis using a c s n1 assms(1)
        by (intro exI [of _ r2]) (simp add: parse_one_command_def parse_body_def Let_def)
    next
      case False
      then have "ps_peek (parser (r1 @ LF # tail) 1) \<noteq> Some (CHR '';'')" by (cases r1) auto
      then show ?thesis using a c s n1 assms(1)
        by (intro exI [of _ r1]) (simp add: parse_one_command_def parse_body_def Let_def)
    qed
  qed
  have loop: "parse_script_loop (parser (c # r @ LF # tail) 1) w =
      (if length (g_cmds w) \<ge> 512 then Some (False, sed_error ''too many commands'' w)
       else parse_script_loop (parser tail 2) (w\<lparr>g_cmds := g_cmds w @ [blank_cmd\<lparr>sc_type := t\<rparr>]\<rparr>))" if "LF \<notin> set r" for r
  proof -
    obtain r' where "parse_one_command (parser (c # r @ LF # tail) 1) = Some (Some (blank_cmd\<lparr>sc_type := t\<rparr>), parser (r' @ LF # tail) 1)"
      "LF \<notin> set r'" using one [OF \<open>LF \<notin> set r\<close>] by blast
    then show ?thesis using c by (subst parse_script_loop.simps) (simp add: Let_def skip_to_newline)
  qed
  show ?thesis using loop [of rest] loop [of "[]"] assms(2) by (simp add: parse_script_def ps_init_def)
qed

theorem rest_of_line_ignored_witness:
  "parse_script (CHR ''p'' # '';d'' @ [LF] @ ''='') (start_sed Map.empty []) = parse_script (CHR ''p'' # [LF] @ ''='') (start_sed Map.empty [])"
  by (rule rest_of_line_ignored [where t = CMD_P]) (simp_all add: letter_type_def)

end
