(* ===== verification/ShArith.thy ===== *)
theory ShArith
  imports Prelude "HOL-Library.Signed_Division"
begin

unbundle bit_operations_syntax

text \<open>
  The arithmetic expansion of the shell, \<open>level2/sh23/arithmetic.c\<close>: the scanner, the recursive descent
  evaluator with one function for each level of precedence, and \<open>arithmetic_evaluate\<close>.

  The input is a C string and \<open>pos\<close> the index of the next character; reading outside the string, signed
  overflow, and a shift by a negative or too large amount are undefined: \<^term>\<open>None\<close>. A token that is read
  in vain is given back by \<open>pos -= 1\<close>; on \<open>pos\<close> 0 this wraps, and the next read is outside the string. The
  functions of the store of variables, \<open>variable_store_get_variable\<close> and \<open>variable_store_set_variable\<close>, are
  parameters, and so is \<open>expand_string\<close>; the strings that collect a name are lists of characters. A parser
  is a function on the state; the one for comma expressions, which is called for what stands in
  parentheses, is an argument of the others and takes fuel: a unit for each operator.
\<close>

abbreviation (input) LONG_MAX_A :: int where "LONG_MAX_A \<equiv> 9223372036854775807"
abbreviation (input) LONG_MIN_A :: int where "LONG_MIN_A \<equiv> -9223372036854775808"

section \<open>Numbers\<close>

definition digit_of :: "char \<Rightarrow> nat" where
  "digit_of c =
     (if isdigit c then code c - 48
      else if 97 \<le> code c \<and> code c \<le> 122 then code c - 87
      else if 65 \<le> code c \<and> code c \<le> 90 then code c - 55
      else 36)"

fun digits_value :: "nat \<Rightarrow> int \<Rightarrow> string \<Rightarrow> int" where
  "digits_value base v [] = v"
| "digits_value base v (c # s) = digits_value base (v * int base + int (digit_of c)) s"

text \<open>\<open>strtol\<close> of the C library: the value, limited to the type, and what follows it. Without a digit the whole
  text follows.\<close>

definition strtol :: "string \<Rightarrow> nat \<Rightarrow> int \<times> string" where
  "strtol s base =
     (let t = dropWhile isspace s;
          neg = (hd0 t = CHR ''-'');
          t = (if hd0 t = CHR ''-'' \<or> hd0 t = CHR ''+'' then tl t else t);
          hex = (base = 0 \<and> hd0 t = CHR ''0'' \<and> peek t 1 \<in> {CHR ''x'', CHR ''X''} \<and> digit_of (peek t 2) < 16);
          b = (if base \<noteq> 0 then base else if hex then 16 else if hd0 t = CHR ''0'' then 8 else 10);
          t = (if hex then drop 2 t else t);
          ds = takeWhile (\<lambda>c. digit_of c < b) t;
          v = digits_value b 0 ds
      in if ds = [] then (0, s)
         else (if neg then max LONG_MIN_A (- v) else min LONG_MAX_A v, drop (length ds) t))"

text \<open>The operations on \<open>long\<close>.\<close>

definition in_long :: "int \<Rightarrow> int option" where
  "in_long v = (if LONG_MIN_A \<le> v \<and> v \<le> LONG_MAX_A then Some v else None)"

definition shift_left :: "int \<Rightarrow> int \<Rightarrow> int option" where
  "shift_left l r = (if 0 \<le> r \<and> r < 64 \<and> 0 \<le> l then in_long (l * 2 ^ nat r) else None)"

definition shift_right :: "int \<Rightarrow> int \<Rightarrow> int option" where
  "shift_right l r = (if 0 \<le> r \<and> r < 64 then Some (l div 2 ^ nat r) else None)"

definition bool_val :: "bool \<Rightarrow> int" where
  "bool_val b = (if b then 1 else 0)"

section \<open>The scanner\<close>

datatype Token =
    TOKEN_NUMBER int | TOKEN_VARIABLE string | TOKEN_LPAREN | TOKEN_RPAREN
  | TOKEN_PLUS | TOKEN_MINUS | TOKEN_MULTIPLY | TOKEN_DIVIDE | TOKEN_MODULO
  | TOKEN_BIT_NOT | TOKEN_LOGICAL_NOT | TOKEN_LEFT_SHIFT | TOKEN_RIGHT_SHIFT
  | TOKEN_LESS | TOKEN_GREATER | TOKEN_LESS_EQUAL | TOKEN_GREATER_EQUAL | TOKEN_EQUAL | TOKEN_NOT_EQUAL
  | TOKEN_BIT_AND | TOKEN_BIT_XOR | TOKEN_BIT_OR | TOKEN_LOGICAL_AND | TOKEN_LOGICAL_OR
  | TOKEN_QUESTION | TOKEN_COLON
  | TOKEN_ASSIGN | TOKEN_MULTIPLY_ASSIGN | TOKEN_DIVIDE_ASSIGN | TOKEN_MODULO_ASSIGN | TOKEN_PLUS_ASSIGN
  | TOKEN_MINUS_ASSIGN | TOKEN_LEFT_SHIFT_ASSIGN | TOKEN_RIGHT_SHIFT_ASSIGN | TOKEN_AND_ASSIGN
  | TOKEN_XOR_ASSIGN | TOKEN_OR_ASSIGN | TOKEN_COMMA | TOKEN_EOF

text \<open>\<open>Parser\<close>: the input, the position, and of the executor the variables, as what
  \<open>variable_store_get_variable\<close> returns for each name, and the function \<open>variable_store_set_variable\<close>.\<close>

record Arith =
  ar_input :: string
  ar_pos :: int
  ar_vars :: "string \<rightharpoonup> string"
  ar_set :: "(string \<rightharpoonup> string) \<Rightarrow> string \<Rightarrow> string \<Rightarrow> (string \<rightharpoonup> string)"

definition isalpha_c :: "char \<Rightarrow> bool" where
  "isalpha_c c \<longleftrightarrow> (97 \<le> code c \<and> code c \<le> 122) \<or> (65 \<le> code c \<and> code c \<le> 90)"

definition name_char :: "char \<Rightarrow> bool" where
  "name_char c \<longleftrightarrow> isalpha_c c \<or> isdigit c \<or> c = CHR ''_''"

text \<open>An operator that starts with \<open>c\<close>, with \<open>d\<close> and \<open>e\<close> after it, and its length; other characters give
  \<open>TOKEN_EOF\<close>.\<close>

definition operator_token :: "char \<Rightarrow> char \<Rightarrow> char \<Rightarrow> Token \<times> nat" where
  "operator_token c d e =
     (let assign = (\<lambda>t u. if d = CHR ''='' then (t, 2) else (u, 1)) in
      if c = CHR ''('' then (TOKEN_LPAREN, 1)
      else if c = CHR '')'' then (TOKEN_RPAREN, 1)
      else if c = CHR ''+'' then assign TOKEN_PLUS_ASSIGN TOKEN_PLUS
      else if c = CHR ''-'' then assign TOKEN_MINUS_ASSIGN TOKEN_MINUS
      else if c = CHR ''*'' then assign TOKEN_MULTIPLY_ASSIGN TOKEN_MULTIPLY
      else if c = CHR ''/'' then assign TOKEN_DIVIDE_ASSIGN TOKEN_DIVIDE
      else if c = CHR ''%'' then assign TOKEN_MODULO_ASSIGN TOKEN_MODULO
      else if c = CHR ''~'' then (TOKEN_BIT_NOT, 1)
      else if c = CHR ''!'' then assign TOKEN_NOT_EQUAL TOKEN_LOGICAL_NOT
      else if c = CHR ''<'' then
        (if d = CHR ''<'' then (if e = CHR ''='' then (TOKEN_LEFT_SHIFT_ASSIGN, 3) else (TOKEN_LEFT_SHIFT, 2))
         else assign TOKEN_LESS_EQUAL TOKEN_LESS)
      else if c = CHR ''>'' then
        (if d = CHR ''>'' then (if e = CHR ''='' then (TOKEN_RIGHT_SHIFT_ASSIGN, 3) else (TOKEN_RIGHT_SHIFT, 2))
         else assign TOKEN_GREATER_EQUAL TOKEN_GREATER)
      else if c = CHR ''='' then assign TOKEN_EQUAL TOKEN_ASSIGN
      else if c = CHR ''&'' then (if d = CHR ''&'' then (TOKEN_LOGICAL_AND, 2) else assign TOKEN_AND_ASSIGN TOKEN_BIT_AND)
      else if c = CHR ''^'' then assign TOKEN_XOR_ASSIGN TOKEN_BIT_XOR
      else if c = CHR ''|'' then (if d = CHR ''|'' then (TOKEN_LOGICAL_OR, 2) else assign TOKEN_OR_ASSIGN TOKEN_BIT_OR)
      else if c = CHR ''?'' then (TOKEN_QUESTION, 1)
      else if c = CHR '':'' then (TOKEN_COLON, 1)
      else if c = CHR '','' then (TOKEN_COMMA, 1)
      else (TOKEN_EOF, 1))"

text \<open>The token at the head of a text without blanks before it, and its length.\<close>

definition scan_token :: "string \<Rightarrow> Token \<times> nat" where
  "scan_token s =
     (if s = [] then (TOKEN_EOF, 0)
      else if isdigit (hd s) then
        (let (v, rest) = strtol s 0 in
         if rest = s then (TOKEN_EOF, 0) else (TOKEN_NUMBER v, length s - length rest))
      else if isalpha_c (hd s) \<or> hd s = CHR ''_'' then
        (let v = takeWhile name_char s in (TOKEN_VARIABLE v, length v))
      else operator_token (hd s) (peek s 1) (peek s 2))"

definition get_token :: "Arith \<Rightarrow> (Token \<times> Arith) option" where
  "get_token st =
     (if 0 \<le> ar_pos st \<and> ar_pos st \<le> int (length (ar_input st)) then
        (let s = drop (nat (ar_pos st)) (ar_input st);
             k = length (takeWhile isspace s);
             (t, n) = scan_token (drop k s)
         in Some (t, st\<lparr>ar_pos := ar_pos st + int k + int n\<rparr>))
      else None)"

definition rewind :: "Arith \<Rightarrow> Arith" where
  "rewind st = st\<lparr>ar_pos := ar_pos st - 1\<rparr>"

section \<open>The evaluator\<close>

text \<open>\<open>ArithmeticResult\<close>: a value, or an error with its message.\<close>

datatype Result = Value int | Failed string

type_synonym parser = "Arith \<Rightarrow> (Result \<times> Arith) option"

text \<open>A result that is a value goes on to the continuation; an error is returned.\<close>

definition on_value :: "(Result \<times> Arith) option \<Rightarrow> (int \<Rightarrow> Arith \<Rightarrow> (Result \<times> Arith) option) \<Rightarrow> (Result \<times> Arith) option" where
  "on_value r k = (case r of None \<Rightarrow> None | Some (Failed e, st) \<Rightarrow> Some (Failed e, st) | Some (Value v, st) \<Rightarrow> k v st)"

text \<open>The loop that all levels of left-associative operators have: \<open>ops\<close> says which tokens are operators of
  the level and what they compute.\<close>

fun binary_loop :: "nat \<Rightarrow> parser \<Rightarrow> (Token \<Rightarrow> (int \<Rightarrow> int \<Rightarrow> Result option) option) \<Rightarrow> int \<Rightarrow> parser" where
  "binary_loop 0 operand ops left st = None"
| "binary_loop (Suc f) operand ops left st = do {
     (token, st) \<leftarrow> get_token st;
     case ops token of
       None \<Rightarrow> Some (Value left, rewind st)
     | Some g \<Rightarrow> on_value (operand st) (\<lambda>right st. do {
         r \<leftarrow> g left right;
         on_value (Some (r, st)) (\<lambda>left st. binary_loop f operand ops left st) }) }"

definition binary_level :: "nat \<Rightarrow> parser \<Rightarrow> (Token \<Rightarrow> (int \<Rightarrow> int \<Rightarrow> Result option) option) \<Rightarrow> parser" where
  "binary_level f operand ops st = on_value (operand st) (\<lambda>left st. binary_loop f operand ops left st)"

definition total_op :: "(int \<Rightarrow> int \<Rightarrow> int) \<Rightarrow> int \<Rightarrow> int \<Rightarrow> Result option" where
  "total_op g l r = Some (Value (g l r))"

definition checked_op :: "(int \<Rightarrow> int \<Rightarrow> int option) \<Rightarrow> int \<Rightarrow> int \<Rightarrow> Result option" where
  "checked_op g l r = map_option Value (g l r)"

text \<open>An assignment. Its value is the value on the right of the operator, whatever the operator is.\<close>

definition assign_op :: "Token \<Rightarrow> int \<Rightarrow> int \<Rightarrow> int option" where
  "assign_op token current v =
     (case token of
        TOKEN_MULTIPLY_ASSIGN \<Rightarrow> in_long (v * current)
      | TOKEN_DIVIDE_ASSIGN \<Rightarrow> in_long (current sdiv v)
      | TOKEN_MODULO_ASSIGN \<Rightarrow> (case in_long (current sdiv v) of None \<Rightarrow> None | Some _ \<Rightarrow> Some (current smod v))
      | TOKEN_PLUS_ASSIGN \<Rightarrow> in_long (v + current)
      | TOKEN_MINUS_ASSIGN \<Rightarrow> in_long (current - v)
      | TOKEN_LEFT_SHIFT_ASSIGN \<Rightarrow> shift_left current v
      | TOKEN_RIGHT_SHIFT_ASSIGN \<Rightarrow> shift_right current v
      | TOKEN_AND_ASSIGN \<Rightarrow> Some (v AND current)
      | TOKEN_XOR_ASSIGN \<Rightarrow> Some (v XOR current)
      | TOKEN_OR_ASSIGN \<Rightarrow> Some (v OR current)
      | _ \<Rightarrow> Some v)"

definition assign_token :: "Token \<Rightarrow> bool" where
  "assign_token t \<longleftrightarrow>
     t \<in> {TOKEN_ASSIGN, TOKEN_MULTIPLY_ASSIGN, TOKEN_DIVIDE_ASSIGN, TOKEN_MODULO_ASSIGN, TOKEN_PLUS_ASSIGN,
          TOKEN_MINUS_ASSIGN, TOKEN_LEFT_SHIFT_ASSIGN, TOKEN_RIGHT_SHIFT_ASSIGN, TOKEN_AND_ASSIGN,
          TOKEN_XOR_ASSIGN, TOKEN_OR_ASSIGN}"

definition parse_assignment :: "parser \<Rightarrow> string \<Rightarrow> parser" where
  "parse_assignment comma var_name st = do {
     (token, st) \<leftarrow> get_token st;
     if \<not> assign_token token then Some (Failed ''Expected assignment operator'', rewind st)
     else on_value (comma st) (\<lambda>value st.
       if token = TOKEN_DIVIDE_ASSIGN \<and> value = 0 then Some (Failed ''Division by zero in assignment'', st)
       else if token = TOKEN_MODULO_ASSIGN \<and> value = 0 then Some (Failed ''Modulo by zero in assignment'', st)
       else do {
         new \<leftarrow> assign_op token (case ar_vars st var_name of None \<Rightarrow> 0 | Some s \<Rightarrow> fst (strtol s 10)) value;
         Some (Value value, st\<lparr>ar_vars := ar_set st (ar_vars st) var_name (show_int new)\<rparr>) }) }"


text \<open>\<open>parse_primary\<close>. The branch for assignments stands after the one for variables, with the same
  condition.\<close>

fun number_of :: "Token \<Rightarrow> int option" where
  "number_of (TOKEN_NUMBER v) = Some v"
| "number_of _ = None"

fun variable_of :: "Token \<Rightarrow> string option" where
  "variable_of (TOKEN_VARIABLE n) = Some n"
| "variable_of _ = None"

definition variable_value :: "Arith \<Rightarrow> string \<Rightarrow> Result" where
  "variable_value st name =
     (case ar_vars st name of
        None \<Rightarrow> Failed ''Invalid variable value''
      | Some value \<Rightarrow>
          (let (num, rest) = strtol value 10
           in if rest = [] then Value num else Failed ''Invalid variable value''))"

definition parse_primary :: "parser \<Rightarrow> parser" where
  "parse_primary comma st = do {
     (token, st) \<leftarrow> get_token st;
     if number_of token \<noteq> None then Some (Value (the (number_of token)), st)
     else if variable_of token \<noteq> None then Some (variable_value st (the (variable_of token)), st)
     else if token = TOKEN_LPAREN then
       on_value (comma st) (\<lambda>v st. do {
         (token, st) \<leftarrow> get_token st;
         if token \<noteq> TOKEN_RPAREN then Some (Failed (''Expected '' @ [CHR 0x27, CHR '')'', CHR 0x27]), st)
         else Some (Value v, st) })
     else if variable_of token \<noteq> None then parse_assignment comma (the (variable_of token)) st
     else Some (Failed (''Expected number, variable, or '' @ [CHR 0x27, CHR ''('', CHR 0x27]), st) }"

definition unary_op :: "Token \<Rightarrow> (int \<Rightarrow> int option) option" where
  "unary_op token =
     (if token = TOKEN_PLUS then Some Some
      else if token = TOKEN_MINUS then Some (\<lambda>v. in_long (- v))
      else if token = TOKEN_BIT_NOT then Some (\<lambda>v. Some (NOT v))
      else if token = TOKEN_LOGICAL_NOT then Some (\<lambda>v. Some (bool_val (v = 0)))
      else None)"

fun parse_unary :: "nat \<Rightarrow> parser \<Rightarrow> parser" where
  "parse_unary 0 comma st = None"
| "parse_unary (Suc f) comma st = do {
     (token, st) \<leftarrow> get_token st;
     case unary_op token of
       Some g \<Rightarrow> on_value (parse_unary f comma st) (\<lambda>v st. do { v \<leftarrow> g v; Some (Value v, st) })
     | None \<Rightarrow> parse_primary comma (rewind st) }"

definition mul_ops :: "Token \<Rightarrow> (int \<Rightarrow> int \<Rightarrow> Result option) option" where
  "mul_ops token =
     (if token = TOKEN_MULTIPLY then Some (checked_op (\<lambda>l r. in_long (l * r)))
      else if token = TOKEN_DIVIDE then
        Some (\<lambda>l r. if r = 0 then Some (Failed ''Division by zero'') else checked_op (\<lambda>l r. in_long (l sdiv r)) l r)
      else if token = TOKEN_MODULO then
        Some (\<lambda>l r. if r = 0 then Some (Failed ''Modulo by zero'')
                    else checked_op (\<lambda>l r. map_option (\<lambda>_. l smod r) (in_long (l sdiv r))) l r)
      else None)"

definition add_ops :: "Token \<Rightarrow> (int \<Rightarrow> int \<Rightarrow> Result option) option" where
  "add_ops token =
     (if token = TOKEN_PLUS then Some (checked_op (\<lambda>l r. in_long (l + r)))
      else if token = TOKEN_MINUS then Some (checked_op (\<lambda>l r. in_long (l - r)))
      else None)"

definition shift_ops :: "Token \<Rightarrow> (int \<Rightarrow> int \<Rightarrow> Result option) option" where
  "shift_ops token =
     (if token = TOKEN_LEFT_SHIFT then Some (checked_op shift_left)
      else if token = TOKEN_RIGHT_SHIFT then Some (checked_op shift_right)
      else None)"

definition comparison_ops :: "Token \<Rightarrow> (int \<Rightarrow> int \<Rightarrow> Result option) option" where
  "comparison_ops token =
     (if token = TOKEN_LESS then Some (total_op (\<lambda>l r. bool_val (l < r)))
      else if token = TOKEN_GREATER then Some (total_op (\<lambda>l r. bool_val (l > r)))
      else if token = TOKEN_LESS_EQUAL then Some (total_op (\<lambda>l r. bool_val (l \<le> r)))
      else if token = TOKEN_GREATER_EQUAL then Some (total_op (\<lambda>l r. bool_val (l \<ge> r)))
      else None)"

definition equality_ops :: "Token \<Rightarrow> (int \<Rightarrow> int \<Rightarrow> Result option) option" where
  "equality_ops token =
     (if token = TOKEN_EQUAL then Some (total_op (\<lambda>l r. bool_val (l = r)))
      else if token = TOKEN_NOT_EQUAL then Some (total_op (\<lambda>l r. bool_val (l \<noteq> r)))
      else None)"

definition and_ops :: "Token \<Rightarrow> (int \<Rightarrow> int \<Rightarrow> Result option) option" where
  "and_ops token = (if token = TOKEN_BIT_AND then Some (total_op (\<lambda>l r. l AND r)) else None)"

definition xor_ops :: "Token \<Rightarrow> (int \<Rightarrow> int \<Rightarrow> Result option) option" where
  "xor_ops token = (if token = TOKEN_BIT_XOR then Some (total_op (\<lambda>l r. l XOR r)) else None)"

definition or_ops :: "Token \<Rightarrow> (int \<Rightarrow> int \<Rightarrow> Result option) option" where
  "or_ops token = (if token = TOKEN_BIT_OR then Some (total_op (\<lambda>l r. l OR r)) else None)"

text \<open>The levels of precedence. Each takes the fuel of its loop and the parser of comma expressions.\<close>

definition parse_multiplicative :: "nat \<Rightarrow> parser \<Rightarrow> parser" where
  "parse_multiplicative f comma = binary_level f (parse_unary f comma) mul_ops"

definition parse_additive :: "nat \<Rightarrow> parser \<Rightarrow> parser" where
  "parse_additive f comma = binary_level f (parse_multiplicative f comma) add_ops"

definition parse_shift :: "nat \<Rightarrow> parser \<Rightarrow> parser" where
  "parse_shift f comma = binary_level f (parse_additive f comma) shift_ops"

definition parse_comparison :: "nat \<Rightarrow> parser \<Rightarrow> parser" where
  "parse_comparison f comma = binary_level f (parse_shift f comma) comparison_ops"

definition parse_equality :: "nat \<Rightarrow> parser \<Rightarrow> parser" where
  "parse_equality f comma = binary_level f (parse_comparison f comma) equality_ops"

definition parse_bit_and :: "nat \<Rightarrow> parser \<Rightarrow> parser" where
  "parse_bit_and f comma = binary_level f (parse_equality f comma) and_ops"

definition parse_bit_xor :: "nat \<Rightarrow> parser \<Rightarrow> parser" where
  "parse_bit_xor f comma = binary_level f (parse_bit_and f comma) xor_ops"

definition parse_bit_or :: "nat \<Rightarrow> parser \<Rightarrow> parser" where
  "parse_bit_or f comma = binary_level f (parse_bit_xor f comma) or_ops"

text \<open>The two logical levels return at once when the value on the left decides, and leave what is on the
  right of the operator unread.\<close>

fun logical_loop :: "nat \<Rightarrow> parser \<Rightarrow> Token \<Rightarrow> (int \<Rightarrow> bool) \<Rightarrow> (int \<Rightarrow> int \<Rightarrow> bool) \<Rightarrow> int \<Rightarrow> parser" where
  "logical_loop 0 operand operator decides g left st = None"
| "logical_loop (Suc f) operand operator decides g left st = do {
     (token, st) \<leftarrow> get_token st;
     if token \<noteq> operator then Some (Value left, rewind st)
     else if decides left then Some (Value left, st)
     else on_value (operand st) (\<lambda>right st.
       logical_loop f operand operator decides g (bool_val (g left right)) st) }"

definition parse_logical_and :: "nat \<Rightarrow> parser \<Rightarrow> parser" where
  "parse_logical_and f comma st =
     on_value (parse_bit_or f comma st) (\<lambda>left st.
       logical_loop f (parse_bit_or f comma) TOKEN_LOGICAL_AND (\<lambda>l. l = 0) (\<lambda>l r. l \<noteq> 0 \<and> r \<noteq> 0) left st)"

definition parse_logical_or :: "nat \<Rightarrow> parser \<Rightarrow> parser" where
  "parse_logical_or f comma st =
     on_value (parse_logical_and f comma st) (\<lambda>left st.
       logical_loop f (parse_logical_and f comma) TOKEN_LOGICAL_OR (\<lambda>l. l \<noteq> 0) (\<lambda>l r. l \<noteq> 0 \<or> r \<noteq> 0) left st)"

definition parse_ternary :: "nat \<Rightarrow> parser \<Rightarrow> parser" where
  "parse_ternary f comma st =
     on_value (parse_logical_or f comma st) (\<lambda>cond st. do {
       (token, st) \<leftarrow> get_token st;
       if token \<noteq> TOKEN_QUESTION then Some (Value cond, rewind st)
       else on_value (comma st) (\<lambda>true_value st. do {
         (token, st) \<leftarrow> get_token st;
         if token \<noteq> TOKEN_COLON then
           Some (Failed (''Expected '' @ [CHR 0x27, CHR '':'', CHR 0x27] @ '' in ternary expression''), st)
         else on_value (comma st) (\<lambda>false_value st.
           Some (Value (if cond \<noteq> 0 then true_value else false_value), st)) }) })"

primrec parse_comma :: "nat \<Rightarrow> parser" where
  "parse_comma 0 = (\<lambda>st. None)"
| "parse_comma (Suc f) = (\<lambda>st.
     on_value (parse_ternary f (parse_comma f) st) (\<lambda>left st. do {
       (token, st) \<leftarrow> get_token st;
       if token \<noteq> TOKEN_COMMA then Some (Value left, rewind st)
       else on_value (parse_comma f st) (\<lambda>right st. Some (Value left, st)) }))"

text \<open>\<open>arithmetic_evaluate\<close>: \<open>expand\<close> is \<open>expand_string\<close>, which may change variables; the result holds the
  variables afterwards.\<close>

definition arithmetic_evaluate ::
  "nat \<Rightarrow> ((string \<rightharpoonup> string) \<Rightarrow> string \<Rightarrow> string option \<times> (string \<rightharpoonup> string)) \<Rightarrow>
   ((string \<rightharpoonup> string) \<Rightarrow> string \<Rightarrow> string \<Rightarrow> (string \<rightharpoonup> string)) \<Rightarrow> (string \<rightharpoonup> string) \<Rightarrow> string \<Rightarrow>
   (Result \<times> (string \<rightharpoonup> string)) option" where
  "arithmetic_evaluate f expand set_variable vars expression =
     (case expand vars expression of
        (None, vars) \<Rightarrow> Some (Failed ''Expansion failed'', vars)
      | (Some expanded, vars) \<Rightarrow> do {
          (result, st) \<leftarrow> parse_comma f \<lparr>ar_input = expanded, ar_pos = 0, ar_vars = vars, ar_set = set_variable\<rparr>;
          (token, st) \<leftarrow> get_token st;
          Some (case result of
                  Failed e \<Rightarrow> Failed e
                | Value v \<Rightarrow> if token \<noteq> TOKEN_EOF then Failed ''Unexpected tokens after expression'' else Value v,
                ar_vars st) })"


end
