(* ===== verification/ShArithProps.thy ===== *)
theory ShArithProps
  imports ShArith
begin
text \<open>
  What \<open>arithmetic_evaluate\<close> computes. A reference, \<open>arith_sem\<close>, gives expressions (\<open>aexpr\<close>) a meaning and
  \<open>show_arith\<close> prints them with the parentheses their levels ask for; the lemmas \<open>parsed_\<close> follow the
  parser of each level over such a text. \<open>keeps\<close>: no parser changes a variable. The rest is about what stands
  after an expression.
\<close>

unbundle bit_operations_syntax

section \<open>A reference for expressions\<close>

datatype binop = BMul | BDiv | BMod | BAdd | BSub | BLess | BGreater | BAnd | BXor | BOr
datatype unop = UPlus | UMinus | UNot | ULogNot

datatype arith =
    Word string | Uop unop arith | Bop binop arith arith | Cond arith arith arith | Comma arith arith

fun bop_char :: "binop \<Rightarrow> char" where
  "bop_char BMul = CHR ''*''" | "bop_char BDiv = CHR ''/''" | "bop_char BMod = CHR ''%''"
| "bop_char BAdd = CHR ''+''" | "bop_char BSub = CHR ''-''" | "bop_char BLess = CHR ''<''"
| "bop_char BGreater = CHR ''>''" | "bop_char BAnd = CHR ''&''" | "bop_char BXor = CHR ''^''"
| "bop_char BOr = CHR ''|''"

fun bop_level :: "binop \<Rightarrow> nat" where
  "bop_level BMul = 2" | "bop_level BDiv = 2" | "bop_level BMod = 2" | "bop_level BAdd = 3"
| "bop_level BSub = 3" | "bop_level BLess = 5" | "bop_level BGreater = 5" | "bop_level BAnd = 7"
| "bop_level BXor = 8" | "bop_level BOr = 9"

fun uop_char :: "unop \<Rightarrow> char" where
  "uop_char UPlus = CHR ''+''" | "uop_char UMinus = CHR ''-''" | "uop_char UNot = CHR ''~''"
| "uop_char ULogNot = CHR ''!''"

fun arith_level :: "arith \<Rightarrow> nat" where
  "arith_level (Word w) = 1" | "arith_level (Uop u e) = 1" | "arith_level (Bop b l r) = bop_level b"
| "arith_level (Cond c a b) = 12" | "arith_level (Comma a b) = 12"

text \<open>The text of an expression, with parentheses where the level asks for them.\<close>

abbreviation enclosed :: "nat \<Rightarrow> nat \<Rightarrow> string \<Rightarrow> string" where
  "enclosed n k s \<equiv> (if k \<le> n then s else CHR ''('' # s @ '')'')"

fun show_arith :: "nat \<Rightarrow> arith \<Rightarrow> string" where
  "show_arith n (Word w) = enclosed n 1 w"
| "show_arith n (Uop u e) = enclosed n 1 (uop_char u # show_arith 1 e)"
| "show_arith n (Bop b l r) =
     enclosed n (bop_level b) (show_arith (bop_level b) l @ bop_char b # show_arith (bop_level b - 1) r)"
| "show_arith n (Cond c a b) = enclosed n 12 (show_arith 11 c @ CHR ''?'' # show_arith 12 a @ CHR '':'' # show_arith 12 b)"
| "show_arith n (Comma a b) = enclosed n 12 (show_arith 11 a @ CHR '','' # show_arith 12 b)"

text \<open>Words: names, and decimal numbers without a leading zero.\<close>

definition word_ok :: "string \<Rightarrow> bool" where
  "word_ok w \<longleftrightarrow> w \<noteq> [] \<and> list_all name_char w \<and>
     (isdigit (hd w) \<longrightarrow> w = ''0'' \<or> list_all isdigit w \<and> hd w \<noteq> CHR ''0'')"

fun arith_ok :: "arith \<Rightarrow> bool" where
  "arith_ok (Word w) = word_ok w" | "arith_ok (Uop u e) = arith_ok e"
| "arith_ok (Bop b l r) = (arith_ok l \<and> arith_ok r)"
| "arith_ok (Cond c a b) = (arith_ok c \<and> arith_ok a \<and> arith_ok b)"
| "arith_ok (Comma a b) = (arith_ok a \<and> arith_ok b)"

fun nodes :: "arith \<Rightarrow> nat" where
  "nodes (Word w) = 1" | "nodes (Uop u e) = Suc (nodes e)" | "nodes (Bop b l r) = Suc (nodes l + nodes r)"
| "nodes (Cond c a b) = Suc (nodes c + nodes a + nodes b)" | "nodes (Comma a b) = Suc (nodes a + nodes b)"

text \<open>The meaning: a value, an error, or undefined.\<close>

definition sem_bind :: "Result option \<Rightarrow> (int \<Rightarrow> Result option) \<Rightarrow> Result option" where
  "sem_bind s h = (case s of Some (Value v) \<Rightarrow> h v | _ \<Rightarrow> s)"

definition sem_long :: "int \<Rightarrow> Result option" where
  "sem_long v = (if LONG_MIN_A \<le> v \<and> v \<le> LONG_MAX_A then Some (Value v) else None)"

fun bop_sem :: "binop \<Rightarrow> int \<Rightarrow> int \<Rightarrow> Result option" where
  "bop_sem BMul l r = sem_long (l * r)"
| "bop_sem BDiv l r = (if r = 0 then Some (Failed ''Division by zero'') else sem_long (l sdiv r))"
| "bop_sem BMod l r =
     (if r = 0 then Some (Failed ''Modulo by zero'') else sem_bind (sem_long (l sdiv r)) (\<lambda>_. Some (Value (l smod r))))"
| "bop_sem BAdd l r = sem_long (l + r)"
| "bop_sem BSub l r = sem_long (l - r)"
| "bop_sem BLess l r = Some (Value (if l < r then 1 else 0))"
| "bop_sem BGreater l r = Some (Value (if l > r then 1 else 0))"
| "bop_sem BAnd l r = Some (Value (l AND r))"
| "bop_sem BXor l r = Some (Value (l XOR r))"
| "bop_sem BOr l r = Some (Value (l OR r))"

fun uop_sem :: "unop \<Rightarrow> int \<Rightarrow> Result option" where
  "uop_sem UPlus v = Some (Value v)"
| "uop_sem UMinus v = sem_long (- v)"
| "uop_sem UNot v = Some (Value (- v - 1))"
| "uop_sem ULogNot v = Some (Value (if v = 0 then 1 else 0))"

text \<open>A word stands for its last character: a digit, or a variable with a name of one letter.\<close>

definition word_sem :: "(string \<rightharpoonup> string) \<Rightarrow> string \<Rightarrow> Result" where
  "word_sem vars w =
     (if isdigit (last w) then Value (digit_val (last w))
      else case vars [last w] of
          None \<Rightarrow> Failed ''Invalid variable value''
        | Some s \<Rightarrow> if snd (strtol s 10) = [] then Value (fst (strtol s 10)) else Failed ''Invalid variable value'')"

fun arith_sem :: "(string \<rightharpoonup> string) \<Rightarrow> arith \<Rightarrow> Result option" where
  "arith_sem vars (Word w) = Some (word_sem vars w)"
| "arith_sem vars (Uop u e) = sem_bind (arith_sem vars e) (uop_sem u)"
| "arith_sem vars (Bop b l r) = sem_bind (arith_sem vars l) (\<lambda>x. sem_bind (arith_sem vars r) (bop_sem b x))"
| "arith_sem vars (Cond c a b) =
     sem_bind (arith_sem vars c) (\<lambda>x. sem_bind (arith_sem vars a) (\<lambda>y. sem_bind (arith_sem vars b) (\<lambda>z.
       Some (Value (if x \<noteq> 0 then y else z)))))"
| "arith_sem vars (Comma a b) = sem_bind (arith_sem vars a) (\<lambda>x. sem_bind (arith_sem vars b) (\<lambda>y. Some (Value x)))"

section \<open>Reading tokens\<close>

definition at_text :: "Arith \<Rightarrow> string \<Rightarrow> bool" where
  "at_text st s \<longleftrightarrow> 0 \<le> ar_pos st \<and> ar_pos st \<le> int (length (ar_input st)) \<and> drop (nat (ar_pos st)) (ar_input st) = s"

definition adv :: "nat \<Rightarrow> Arith \<Rightarrow> Arith" where
  "adv n st = st\<lparr>ar_pos := ar_pos st + int n\<rparr>"

lemma adv_simps [simp]: "adv 0 st = st" "adv m (adv n st) = adv (n + m) st" "rewind (adv (Suc n) st) = adv n st"
  "rewind (adv (n + 1) st) = adv n st"
  "ar_vars (adv n st) = ar_vars st" "ar_input (adv n st) = ar_input st" "ar_pos (adv n st) = ar_pos st + int n"
  "rewind (adv 1 st) = st"
  by (simp_all add: adv_def rewind_def)

lemma at_text_adv: "at_text st (s @ t) \<Longrightarrow> n = length s \<Longrightarrow> at_text (adv n st) t"
proof -
  assume a: "at_text st (s @ t)" and n: "n = length s"
  have "length (drop (nat (ar_pos st)) (ar_input st)) = length s + length t" using a by (simp add: at_text_def)
  then have "nat (ar_pos st) + length s \<le> length (ar_input st)" using a by (auto simp: at_text_def)
  moreover have "drop (length s) (drop (nat (ar_pos st)) (ar_input st)) = t" using a by (simp add: at_text_def)
  ultimately show ?thesis using a n
    by (simp add: at_text_def nat_add_distrib add.commute)
qed

lemma at_text_Cons: "at_text st (c # s) \<Longrightarrow> at_text (adv 1 st) s"
  using at_text_adv [of st "[c]" s 1] by simp

lemma get_token_at:
  "at_text st s \<Longrightarrow> get_token st =
     Some (fst (scan_token (dropWhile isspace s)),
           adv (length (takeWhile isspace s) + snd (scan_token (dropWhile isspace s))) st)"
  by (simp add: at_text_def get_token_def adv_def dropWhile_eq_drop Let_def add.assoc split: prod.split)

text \<open>A text whose next token has one character and is not a word.\<close>

definition next_is :: "Token \<Rightarrow> string \<Rightarrow> bool" where
  "next_is t s \<longleftrightarrow> s \<noteq> [] \<and> \<not> name_char (hd s) \<and> (\<forall>st. at_text st s \<longrightarrow> get_token st = Some (t, adv 1 st))"

lemma next_isD: "next_is t s \<Longrightarrow> at_text st s \<Longrightarrow> get_token st = Some (t, adv 1 st)"
  by (simp add: next_is_def)

lemma get_operator:
  "at_text st (c # s) \<Longrightarrow> \<not> isspace c \<Longrightarrow> \<not> name_char c \<Longrightarrow> operator_token c (hd0 s) (peek s 1) = (t, 1) \<Longrightarrow>
   get_token st = Some (t, adv 1 st)"
  by (cases s) (simp_all add: get_token_at scan_token_def name_char_def numeral_2_eq_2)

lemma next_is_operator:
  "\<not> isspace c \<Longrightarrow> \<not> name_char c \<Longrightarrow> operator_token c (hd0 s) (peek s 1) = (t, 1) \<Longrightarrow> next_is t (c # s)"
  using get_operator by (simp add: next_is_def)

lemma next_is_blank: "next_is TOKEN_EOF '' ''"
  by (simp add: next_is_def get_token_at scan_token_def name_char_def isalpha_c_def isdigit_def code_def isspace_def)

text \<open>What an operand can start with.\<close>

definition starts_operand :: "string \<Rightarrow> bool" where
  "starts_operand s \<longleftrightarrow> s \<noteq> [] \<and> (name_char (hd s) \<or> hd s \<in> set ''(+-~!'')"

lemma starts_operand_append: "starts_operand s \<Longrightarrow> starts_operand (s @ t)"
  by (cases s) (simp_all add: starts_operand_def)

lemma starts_operand_open: "starts_operand (CHR ''('' # s)"
  by (simp add: starts_operand_def)

lemma starts_operand_uop: "starts_operand (uop_char u # s)"
  by (cases u) (simp_all add: starts_operand_def)

lemma starts_operand_word: "word_ok w \<Longrightarrow> starts_operand w"
  by (cases w) (simp_all add: starts_operand_def word_ok_def)

lemma starts_operand_show: "arith_ok e \<Longrightarrow> starts_operand (show_arith n e)"
  by (induction e arbitrary: n)
    (simp_all add: starts_operand_append starts_operand_open starts_operand_uop starts_operand_word)

lemma starts_operand_hd:
  "starts_operand s \<Longrightarrow> hd0 s \<notin> set ''=<>&|''"
  by (cases s) (auto simp: starts_operand_def name_char_def isalpha_c_def isdigit_def code_def)

lemmas char_classes = name_char_def isalpha_c_def isdigit_def isspace_def code_def

fun bop_token :: "binop \<Rightarrow> Token" where
  "bop_token BMul = TOKEN_MULTIPLY" | "bop_token BDiv = TOKEN_DIVIDE" | "bop_token BMod = TOKEN_MODULO"
| "bop_token BAdd = TOKEN_PLUS" | "bop_token BSub = TOKEN_MINUS" | "bop_token BLess = TOKEN_LESS"
| "bop_token BGreater = TOKEN_GREATER" | "bop_token BAnd = TOKEN_BIT_AND" | "bop_token BXor = TOKEN_BIT_XOR"
| "bop_token BOr = TOKEN_BIT_OR"

lemma next_is_bop: "starts_operand s \<Longrightarrow> next_is (bop_token b) (bop_char b # s)"
  by (rule next_is_operator; use starts_operand_hd [of s] in \<open>cases b; simp add: operator_token_def char_classes\<close>)

lemma next_is_delims:
  "next_is TOKEN_RPAREN (CHR '')'' # s)" "next_is TOKEN_QUESTION (CHR ''?'' # s)"
  "next_is TOKEN_COLON (CHR '':'' # s)" "next_is TOKEN_COMMA (CHR '','' # s)" "next_is TOKEN_LPAREN (CHR ''('' # s)"
  by (rule next_is_operator; simp add: operator_token_def char_classes)+

fun uop_token :: "unop \<Rightarrow> Token" where
  "uop_token UPlus = TOKEN_PLUS" | "uop_token UMinus = TOKEN_MINUS" | "uop_token UNot = TOKEN_BIT_NOT"
| "uop_token ULogNot = TOKEN_LOGICAL_NOT"

lemma next_is_uop: "starts_operand s \<Longrightarrow> next_is (uop_token u) (uop_char u # s)"
  by (rule next_is_operator; use starts_operand_hd [of s] in \<open>cases u; simp add: operator_token_def char_classes\<close>)

section \<open>Following the parser\<close>

text \<open>A parser's outcome against a meaning: a value leaves the state given, an error leaves some position.\<close>

definition agrees :: "(Result \<times> Arith) option \<Rightarrow> Result option \<Rightarrow> Arith \<Rightarrow> bool" where
  "agrees r s st \<longleftrightarrow>
     (case s of
        None \<Rightarrow> r = None
      | Some (Value v) \<Rightarrow> r = Some (Value v, st)
      | Some (Failed e) \<Rightarrow> \<exists>p. 0 \<le> p \<and> p \<le> int (length (ar_input st)) \<and> r = Some (Failed e, st\<lparr>ar_pos := p\<rparr>))"

lemma agrees_simps [simp]:
  "agrees r None st \<longleftrightarrow> r = None" "agrees r (Some (Value v)) st \<longleftrightarrow> r = Some (Value v, st)"
  by (simp_all add: agrees_def)

lemma sem_bind_simps [simp]:
  "sem_bind None h = None" "sem_bind (Some (Value v)) h = h v" "sem_bind (Some (Failed e)) h = Some (Failed e)"
  by (simp_all add: sem_bind_def)

lemma on_value_simps [simp]:
  "on_value None k = None" "on_value (Some (Value v, st)) k = k v st" "on_value (Some (Failed e, st)) k = Some (Failed e, st)"
  by (simp_all add: on_value_def)

lemma agrees_adv:
  "agrees r (Some (Failed e)) (adv m st) \<longleftrightarrow> agrees r (Some (Failed e)) (adv n st)"
  by (simp add: agrees_def adv_def)

lemma agrees_bind:
  assumes "agrees r s (adv m st)" "\<And>v. s = Some (Value v) \<Longrightarrow> agrees (k v (adv m st)) (h v) (adv n st)"
  shows "agrees (on_value r k) (sem_bind s h) (adv n st)"
proof (cases s)
  case None
  then show ?thesis using assms(1) by simp
next
  case (Some x)
  show ?thesis
  proof (cases x)
    case (Value v)
    then show ?thesis using Some assms by simp
  next
    case (Failed e)
    then show ?thesis using Some assms(1) by (auto simp: agrees_def adv_def)
  qed
qed

definition levels :: "nat \<Rightarrow> parser \<Rightarrow> parser list" where
  "levels f comma =
     [parse_primary comma, parse_unary f comma, parse_multiplicative f comma, parse_additive f comma, parse_shift f comma,
      parse_comparison f comma, parse_equality f comma, parse_bit_and f comma, parse_bit_xor f comma,
      parse_bit_or f comma, parse_logical_and f comma, parse_logical_or f comma]"

abbreviation level_parser :: "nat \<Rightarrow> nat \<Rightarrow> parser" where
  "level_parser n f \<equiv> levels f (parse_comma f) ! n"

fun level_ops :: "nat \<Rightarrow> Token \<Rightarrow> (int \<Rightarrow> int \<Rightarrow> Result option) option" where
  "level_ops n = [add_ops, add_ops, mul_ops, add_ops, shift_ops, comparison_ops, equality_ops, and_ops, xor_ops, or_ops] ! n"

declare level_ops.simps [simp del]

lemma binary_levels: "2 \<le> n \<Longrightarrow> n \<le> 9 \<Longrightarrow> n \<in> {2, 3, 4, 5, 6, 7, 8, 9::nat}"
  by auto

lemma level_step:
  "2 \<le> n \<Longrightarrow> n \<le> 9 \<Longrightarrow> level_parser n f = binary_level f (level_parser (n - 1) f) (level_ops n)"
  by (drule (1) binary_levels)
    (auto simp: levels_def level_ops.simps parse_multiplicative_def parse_additive_def parse_shift_def
      parse_comparison_def parse_equality_def parse_bit_and_def parse_bit_xor_def parse_bit_or_def)

text \<open>The first level at which a token means something; tokens that do not occur here have level 0.\<close>

fun tok_level :: "Token \<Rightarrow> nat" where
  "tok_level TOKEN_MULTIPLY = 2" | "tok_level TOKEN_DIVIDE = 2" | "tok_level TOKEN_MODULO = 2"
| "tok_level TOKEN_PLUS = 3" | "tok_level TOKEN_MINUS = 3" | "tok_level TOKEN_LESS = 5" | "tok_level TOKEN_GREATER = 5"
| "tok_level TOKEN_BIT_AND = 7" | "tok_level TOKEN_BIT_XOR = 8" | "tok_level TOKEN_BIT_OR = 9"
| "tok_level TOKEN_QUESTION = 12" | "tok_level TOKEN_COMMA = 12"
| "tok_level TOKEN_RPAREN = 13" | "tok_level TOKEN_COLON = 13" | "tok_level TOKEN_EOF = 13"
| "tok_level _ = 0"

lemma level_ops_none: "2 \<le> n \<Longrightarrow> n \<le> 9 \<Longrightarrow> n < tok_level t \<Longrightarrow> level_ops n t = None"
  by (drule (1) binary_levels, cases t)
    (auto simp: level_ops.simps mul_ops_def add_ops_def shift_ops_def comparison_ops_def equality_ops_def
      and_ops_def xor_ops_def or_ops_def)

lemma bop_level_bounds: "2 \<le> bop_level b" "bop_level b \<le> 9"
  by (cases b; simp)+

lemma tok_level_bop: "tok_level (bop_token b) = bop_level b"
  by (cases b) simp_all

lemma bop_level_ops: "\<exists>g. level_ops (bop_level b) (bop_token b) = Some g \<and> (\<forall>l r. g l r = bop_sem b l r)"
  by (cases b)
    (auto simp: level_ops.simps mul_ops_def add_ops_def comparison_ops_def and_ops_def xor_ops_def or_ops_def
      checked_op_def total_op_def in_long_def sem_long_def bool_val_def)

lemma loop_ends:
  "next_is t s \<Longrightarrow> at_text st s \<Longrightarrow> ops t = None \<Longrightarrow> 0 < f \<Longrightarrow> binary_loop f p ops v st = Some (Value v, st)"
  by (cases f) (simp_all add: next_isD)

lemma logical_ends:
  "next_is t s \<Longrightarrow> at_text st s \<Longrightarrow> t \<noteq> op \<Longrightarrow> 0 < f \<Longrightarrow> logical_loop f p op d g v st = Some (Value v, st)"
  by (cases f) (simp_all add: next_isD)

text \<open>One more level: an operand that is not followed by an operator of the level.\<close>

lemma agrees_pass:
  assumes "agrees r s (adv m st)" "\<And>v. k v (adv m st) = Some (Value v, adv m st)"
  shows "agrees (on_value r k) s (adv m st)"
proof -
  have "agrees (on_value r k) (sem_bind s (\<lambda>v. Some (Value v))) (adv m st)"
    by (rule agrees_bind [OF assms(1)]) (simp add: assms(2))
  moreover have "sem_bind s (\<lambda>v. Some (Value v)) = s"
    by (auto simp: sem_bind_def split: option.splits Result.splits)
  ultimately show ?thesis by simp
qed

lemma level_passes:
  assumes a: "agrees (level_parser (n - 1) f st) s (adv m st)" and n: "2 \<le> n" "n \<le> 11" and f: "0 < f"
    and t: "next_is t rest" "at_text (adv m st) rest" "n < tok_level t"
  shows "agrees (level_parser n f st) s (adv m st)"
proof (cases "n \<le> 9")
  case True
  have "agrees (on_value (level_parser (n - 1) f st)
      (\<lambda>left st. binary_loop f (level_parser (n - 1) f) (level_ops n) left st)) s (adv m st)"
    by (rule agrees_pass [OF a]) (intro loop_ends [where t = t and s = rest] t(1,2) level_ops_none [OF n(1) True t(3)] f)
  then show ?thesis by (simp add: level_step [OF n(1) True] binary_level_def)
next
  case False
  then consider "n = 10" | "n = 11" using n by linarith
  then show ?thesis
  proof cases
    case 1
    have "t \<noteq> TOKEN_LOGICAL_AND" using t(3) by auto
    then have "agrees (on_value (parse_bit_or f (parse_comma f) st) (\<lambda>left st. logical_loop f (parse_bit_or f (parse_comma f))
        TOKEN_LOGICAL_AND (\<lambda>l. l = 0) (\<lambda>l r. l \<noteq> 0 \<and> r \<noteq> 0) left st)) s (adv m st)"
      using a 1 by (intro agrees_pass) (auto simp: levels_def intro: logical_ends [OF t(1,2)] f)
    then show ?thesis using 1 by (simp add: levels_def parse_logical_and_def)
  next
    case 2
    have "t \<noteq> TOKEN_LOGICAL_OR" using t(3) by auto
    then have "agrees (on_value (parse_logical_and f (parse_comma f) st) (\<lambda>left st. logical_loop f (parse_logical_and f (parse_comma f))
        TOKEN_LOGICAL_OR (\<lambda>l. l \<noteq> 0) (\<lambda>l r. l \<noteq> 0 \<or> r \<noteq> 0) left st)) s (adv m st)"
      using a 2 by (intro agrees_pass) (auto simp: levels_def intro: logical_ends [OF t(1,2)] f)
    then show ?thesis using 2 by (simp add: levels_def parse_logical_or_def)
  qed
qed


lemma bop_level_12 [simp]: "bop_level b \<le> 12"
  using bop_level_bounds [of b] by linarith

lemma arith_level_bounds: "1 \<le> arith_level e" "arith_level e \<le> 12"
  using bop_level_bounds [of "case e of Bop b l r \<Rightarrow> b"] by (cases e; simp)+

lemma show_level:
  "show_arith n e = (if arith_level e \<le> n then show_arith 12 e else CHR ''('' # show_arith 12 e @ '')'')"
  by (cases e) simp_all

lemma show_same:
  "arith_level e \<le> m \<and> arith_level e \<le> n \<or> \<not> arith_level e \<le> m \<and> \<not> arith_level e \<le> n \<Longrightarrow>
   show_arith m e = show_arith n e"
  by (subst (1 2) show_level) auto

lemma show_closed: "\<not> arith_level e \<le> n \<Longrightarrow> show_arith n e = CHR ''('' # show_arith 12 e @ '')''"
  by (subst show_level) simp

lemma nodes_pos [simp]: "0 < nodes e"
  by (cases e) simp_all

text \<open>What the parsers of the levels do on the text of an expression.\<close>

definition cost :: "nat \<Rightarrow> arith \<Rightarrow> nat" where
  "cost n e = (if arith_level e \<le> n then 2 * nodes e else 2 * nodes e + 1)"

lemma cost_bounds: "2 * nodes e \<le> cost n e" "cost n e \<le> 2 * nodes e + 1"
  by (simp_all add: cost_def)

definition parsed_unary :: "arith \<Rightarrow> bool" where
  "parsed_unary e \<longleftrightarrow> (\<forall>g f st t rest. nodes e \<le> g \<longrightarrow> cost 1 e \<le> f \<longrightarrow> at_text st (show_arith 1 e @ rest) \<longrightarrow>
     next_is t rest \<longrightarrow> 1 < tok_level t \<longrightarrow>
     agrees (parse_unary g (parse_comma f) st) (arith_sem (ar_vars st) e) (adv (length (show_arith 1 e)) st))"

definition parsed_level :: "nat \<Rightarrow> arith \<Rightarrow> bool" where
  "parsed_level n e \<longleftrightarrow> (\<forall>f st t rest. cost n e \<le> f \<longrightarrow> at_text st (show_arith n e @ rest) \<longrightarrow>
     next_is t rest \<longrightarrow> n < tok_level t \<longrightarrow>
     agrees (level_parser n f st) (arith_sem (ar_vars st) e) (adv (length (show_arith n e)) st))"

definition parsed_comma :: "arith \<Rightarrow> bool" where
  "parsed_comma e \<longleftrightarrow> (\<forall>f st t rest. 2 * nodes e < f \<longrightarrow> at_text st (show_arith 12 e @ rest) \<longrightarrow>
     next_is t rest \<longrightarrow> 12 < tok_level t \<longrightarrow>
     agrees (parse_comma f st) (arith_sem (ar_vars st) e) (adv (length (show_arith 12 e)) st))"

definition parsed_chain :: "nat \<Rightarrow> arith \<Rightarrow> bool" where
  "parsed_chain n e \<longleftrightarrow> (\<forall>f st t rest h k. cost n e \<le> f \<longrightarrow> at_text st (show_arith n e @ rest) \<longrightarrow>
     next_is t rest \<longrightarrow> n \<le> tok_level t \<longrightarrow>
     (\<forall>v g. f \<le> g + nodes e \<longrightarrow> arith_sem (ar_vars st) e = Some (Value v) \<longrightarrow>
        agrees (binary_loop g (level_parser (n - 1) f) (level_ops n) v (adv (length (show_arith n e)) st)) (h v) (adv k st)) \<longrightarrow>
     agrees (level_parser n f st) (sem_bind (arith_sem (ar_vars st) e) h) (adv k st))"

lemma parsed_chainD:
  assumes "parsed_chain n e" "cost n e \<le> f" "at_text st (show_arith n e @ rest)" "next_is t rest" "n \<le> tok_level t"
    "\<And>v g. f \<le> g + nodes e \<Longrightarrow> arith_sem (ar_vars st) e = Some (Value v) \<Longrightarrow>
       agrees (binary_loop g (level_parser (n - 1) f) (level_ops n) v (adv (length (show_arith n e)) st)) (h v) (adv k st)"
  shows "agrees (level_parser n f st) (sem_bind (arith_sem (ar_vars st) e) h) (adv k st)"
  using assms unfolding parsed_chain_def by blast

lemma level_up:
  assumes "parsed_level m e" "arith_level e \<le> m \<or> n < arith_level e" "1 \<le> m" "m \<le> n" "n \<le> 11"
  shows "parsed_level n e"
  using assms(4,2,5)
proof (induction n rule: dec_induct)
  case base
  show ?case by (rule assms(1))
next
  case (step n)
  then have po: "parsed_level n e" by auto
  have eq: "show_arith (Suc n) e = show_arith n e"
    by (rule show_same) (use step.prems(1) step(1) in auto)
  have c: "cost (Suc n) e = cost n e" using step.prems(1) step(1) by (auto simp: cost_def)
  show ?case
    unfolding parsed_level_def eq c
  proof (intro allI impI)
    fix f st t rest
    assume f: "cost n e \<le> f" and at: "at_text st (show_arith n e @ rest)" and t: "next_is t rest" "Suc n < tok_level t"
    have f0: "0 < f" using f cost_bounds(1) [of e n] nodes_pos [of e] by linarith
    have "agrees (level_parser n f st) (arith_sem (ar_vars st) e) (adv (length (show_arith n e)) st)"
      using po f at t by (auto simp: parsed_level_def)
    then show "agrees (level_parser (Suc n) f st) (arith_sem (ar_vars st) e) (adv (length (show_arith n e)) st)"
      using step assms(3) by (intro level_passes [OF _ _ _ f0 t(1) at_text_adv [OF at] t(2)]) auto
  qed
qed

lemma level_from_unary:
  assumes "parsed_unary e"
  shows "parsed_level 1 e"
  unfolding parsed_level_def
proof (intro allI impI)
  fix f st t rest
  assume f: "cost 1 e \<le> f" and at: "at_text st (show_arith 1 e @ rest)" and t: "next_is t rest" "1 < tok_level t"
  have "nodes e \<le> f" using f cost_bounds(1) [of e 1] by linarith
  then show "agrees (level_parser 1 f st) (arith_sem (ar_vars st) e) (adv (length (show_arith 1 e)) st)"
    using assms(1) f at t by (simp add: parsed_unary_def levels_def)
qed

lemma comma_from_level:
  assumes "parsed_level 11 e" "arith_level e \<le> 11"
  shows "parsed_comma e"
  unfolding parsed_comma_def
proof (intro allI impI)
  fix f st t rest
  assume f: "2 * nodes e < f" and at: "at_text st (show_arith 12 e @ rest)" and t: "next_is t rest" "12 < tok_level t"
  obtain f' where f': "f = Suc f'" "2 * nodes e \<le> f'" using f by (cases f) auto
  have eq: "show_arith 11 e = show_arith 12 e" by (rule show_same) (use assms(2) in auto)
  have a: "agrees (level_parser 11 f' st) (arith_sem (ar_vars st) e) (adv (length (show_arith 12 e)) st)"
    using assms f'(2) at t by (simp add: parsed_level_def eq cost_def)
  have nt: "t \<noteq> TOKEN_QUESTION" "t \<noteq> TOKEN_COMMA" using t(2) by auto
  note tok = next_isD [OF t(1) at_text_adv [OF at refl]]
  have "agrees (parse_ternary f' (parse_comma f') st) (arith_sem (ar_vars st) e) (adv (length (show_arith 12 e)) st)"
    unfolding parse_ternary_def
    using a by (intro agrees_pass) (simp_all add: levels_def tok nt)
  then show "agrees (parse_comma f st) (arith_sem (ar_vars st) e) (adv (length (show_arith 12 e)) st)"
    unfolding f'(1) parse_comma.simps by (intro agrees_pass) (simp_all add: tok nt)
qed

section \<open>Words\<close>

lemma strtol_number:
  assumes "word_ok w" "isdigit (hd w)" "rest \<noteq> []" "\<not> name_char (hd rest)"
  shows "strtol (w @ rest) 0 = (min LONG_MAX_A (digits_value (if w = ''0'' then 8 else 10) 0 w), rest)"
proof -
  obtain d ds where w: "w = d # ds" using assms(1) by (cases w) (auto simp: word_ok_def)
  have dig: "isdigit d" using assms(2) w by simp
  have all: "list_all isdigit w" using assms(1,2) dig w by (auto simp: word_ok_def)
  have sp: "\<not> isspace d" "d \<noteq> CHR ''-''" "d \<noteq> CHR ''+''" using dig by (auto simp: char_classes)
  obtain r rs where r: "rest = r # rs" using assms(3) by (cases rest) auto
  have r36: "digit_of r = 36" using assms(4) r by (auto simp: name_char_def isalpha_c_def digit_of_def)
  have hex: "\<not> (hd0 (w @ rest) = CHR ''0'' \<and> peek (w @ rest) 1 \<in> {CHR ''x'', CHR ''X''} \<and> digit_of (peek (w @ rest) 2) < 16)"
  proof
    assume a: "hd0 (w @ rest) = CHR ''0'' \<and> peek (w @ rest) 1 \<in> {CHR ''x'', CHR ''X''} \<and> digit_of (peek (w @ rest) 2) < 16"
    then have "w = ''0''" using assms(1) w dig by (auto simp: word_ok_def)
    then show False using a r assms(4) by (auto simp: char_classes)
  qed
  define b :: nat where "b = (if w = ''0'' then 8 else 10)"
  have b: "(if hd0 (w @ rest) = CHR ''0'' then 8 else 10) = b"
    using assms(1) w dig by (auto simp: word_ok_def b_def)
  have dv: "digit_of c < 10" if "isdigit c" for c
    using that by (auto simp: digit_of_def isdigit_def)
  have "list_all (\<lambda>c. digit_of c < b) w"
  proof (cases "w = ''0''")
    case True
    then show ?thesis by (simp add: digit_of_def b_def char_classes)
  next
    case False
    then show ?thesis using all dv by (simp add: b_def list_all_iff)
  qed
  then have tw: "takeWhile (\<lambda>c. digit_of c < b) (w @ rest) = w"
    using r r36 by (subst takeWhile_append2) (auto simp: list_all_iff b_def)
  have dw: "dropWhile isspace (w @ rest) = w @ rest" using sp w by simp
  have h: "hd0 (w @ rest) \<noteq> CHR ''-''" "hd0 (w @ rest) \<noteq> CHR ''+''" using sp w by simp_all
  show ?thesis
    unfolding strtol_def
    by (simp only: dw h hex Let_def b tw if_False simp_thms if_True refl) (simp add: w b_def)
qed

definition word_token :: "char \<Rightarrow> Token" where
  "word_token c = (if isdigit c then TOKEN_NUMBER (digit_val c) else TOKEN_VARIABLE [c])"

lemma get_word:
  assumes "word_ok w" "at_text st (w @ rest)" "rest \<noteq> []" "\<not> name_char (hd rest)"
  shows "\<exists>t. get_token st = Some (t, adv (length w) st) \<and> unary_op t = None \<and> (w = [c] \<longrightarrow> t = word_token c)"
proof -
  obtain d ds where w: "w = d # ds" using assms(1) by (cases w) (auto simp: word_ok_def)
  have nd: "name_char d" using assms(1) w by (simp add: word_ok_def)
  then have sp: "\<not> isspace d" by (auto simp: char_classes)
  show ?thesis
  proof (cases "isdigit d")
    case True
    then have st: "strtol (w @ rest) 0 = (min LONG_MAX_A (digits_value (if w = ''0'' then 8 else 10) 0 w), rest)"
      using strtol_number [OF assms(1) _ assms(3,4)] w by simp
    have one: "min LONG_MAX_A (digits_value (if [d] = ''0'' then 8 else 10) 0 [d]) = digit_val d"
      using True by (auto simp: digit_of_def digit_val_def isdigit_def)
    then show ?thesis using True st sp
      by (auto simp: get_token_at [OF assms(2)] w scan_token_def unary_op_def word_token_def)
  next
    case False
    have tw: "takeWhile name_char (w @ rest) = w"
    proof -
      have "takeWhile name_char rest = []" using assms(3,4) by (cases rest) auto
      then show ?thesis using assms(1) by (simp add: takeWhile_append word_ok_def list_all_iff)
    qed
    show ?thesis using False nd sp tw
      by (auto simp: get_token_at [OF assms(2)] w scan_token_def name_char_def unary_op_def word_token_def)
  qed
qed

lemma parsed_unary_Word:
  assumes "word_ok w"
  shows "parsed_unary (Word w)"
  unfolding parsed_unary_def
proof (intro allI impI)
  fix g f st t rest
  assume g: "nodes (Word w) \<le> g" and f: "cost 1 (Word w) \<le> f" and at: "at_text st (show_arith 1 (Word w) @ rest)"
    and t: "next_is t rest" "1 < tok_level t"
  obtain g' where g': "g = Suc g'" using g by (cases g) auto
  have at': "at_text st (w @ rest)" using at by simp
  have rest: "rest \<noteq> []" "\<not> name_char (hd rest)" using t(1) by (auto simp: next_is_def)
  have nw: "w \<noteq> []" using assms by (simp add: word_ok_def)
  obtain u where u: "get_token st = Some (u, adv (length w) st)" "unary_op u = None"
    using get_word [OF assms at' rest] by blast
  let ?c = "last w" and ?st = "adv (length w - 1) st"
  have sp: "w @ rest = butlast w @ [?c] @ rest" using nw by simp
  have bk: "rewind (adv (length w) st) = ?st" using nw by (cases w) simp_all
  have len: "length (butlast w) = length w - 1" by simp
  have at2: "at_text ?st ([?c] @ rest)" using at' unfolding sp by (rule at_text_adv) simp
  have "name_char ?c" using assms nw by (simp add: word_ok_def list_all_iff)
  then have ok: "word_ok [?c]" by (auto simp: word_ok_def)
  have tok: "get_token ?st = Some (word_token ?c, adv (length w) st)"
    using get_word [OF ok at2 rest, of ?c] nw by auto
  have "parse_primary (parse_comma f) ?st = Some (word_sem (ar_vars st) w, adv (length w) st)"
    unfolding parse_primary_def tok
    by (auto simp: word_token_def word_sem_def variable_value_def split: option.split prod.split)
  then have "parse_unary g (parse_comma f) st = Some (word_sem (ar_vars st) w, adv (length w) st)"
    by (simp add: g' u bk)
  moreover have "0 \<le> ar_pos st + int (length w)" "ar_pos st + int (length w) \<le> int (length (ar_input st))"
    using at_text_adv [OF at' refl] by (simp_all add: at_text_def)
  ultimately show "agrees (parse_unary g (parse_comma f) st) (arith_sem (ar_vars st) (Word w)) (adv (length (show_arith 1 (Word w))) st)"
    by (cases "word_sem (ar_vars st) w") (auto simp: agrees_def adv_def)
qed

lemma uop_token_op: "\<exists>g. unary_op (uop_token u) = Some g \<and> (\<forall>v. map_option Value (g v) = uop_sem u v)"
  by (cases u) (auto simp: unary_op_def in_long_def sem_long_def bool_val_def not_int_def)

lemma parsed_unary_Uop:
  assumes "arith_ok e" "parsed_unary e"
  shows "parsed_unary (Uop u e)"
  unfolding parsed_unary_def
proof (intro allI impI)
  fix g f st t rest
  assume g: "nodes (Uop u e) \<le> g" and f: "cost 1 (Uop u e) \<le> f"
    and at: "at_text st (show_arith 1 (Uop u e) @ rest)" and t: "next_is t rest" "1 < tok_level t"
  obtain g' where g': "g = Suc g'" "nodes e \<le> g'" using g by (cases g) auto
  have at': "at_text st (uop_char u # (show_arith 1 e @ rest))" using at by simp
  have tok: "get_token st = Some (uop_token u, adv 1 st)"
    using next_isD [OF next_is_uop at'] starts_operand_append starts_operand_show [OF assms(1)] by blast
  obtain h where h: "unary_op (uop_token u) = Some h" "\<And>v. map_option Value (h v) = uop_sem u v"
    using uop_token_op by blast
  let ?n = "length (show_arith 1 (Uop u e))"
  note at1 = at_text_Cons [OF at']
  have ag: "agrees (parse_unary g' (parse_comma f) (adv 1 st)) (arith_sem (ar_vars st) e) (adv ?n st)"
  proof -
    have f': "cost 1 e \<le> f" using f cost_bounds(2) [of 1 e] by (simp add: cost_def)
    have "agrees (parse_unary g' (parse_comma f) (adv 1 st)) (arith_sem (ar_vars (adv 1 st)) e)
        (adv (length (show_arith 1 e)) (adv 1 st))"
      using assms(2) g'(2) f' at1 t unfolding parsed_unary_def by blast
    then show ?thesis by simp
  qed
  have "agrees (on_value (parse_unary g' (parse_comma f) (adv 1 st)) (\<lambda>v st. do { v \<leftarrow> h v; Some (Value v, st) }))
      (sem_bind (arith_sem (ar_vars st) e) (uop_sem u)) (adv ?n st)"
  proof (rule agrees_bind [OF ag])
    fix v
    show "agrees (do { v \<leftarrow> h v; Some (Value v, adv ?n st) }) (uop_sem u v) (adv ?n st)"
      using h(2) [of v, symmetric] by (cases "h v") simp_all
  qed
  then show "agrees (parse_unary g (parse_comma f) st) (arith_sem (ar_vars st) (Uop u e)) (adv ?n st)"
    by (simp add: g' tok h(1))
qed

section \<open>All expressions\<close>

lemma parsed_unary_parens:
  assumes "parsed_comma e" "1 < arith_level e"
  shows "parsed_unary e"
  unfolding parsed_unary_def
proof (intro allI impI)
  fix g f st t rest
  assume g: "nodes e \<le> g" and c: "cost 1 e \<le> f" and at: "at_text st (show_arith 1 e @ rest)"
    and t: "next_is t rest" "1 < tok_level t"
  let ?s = "show_arith 12 e" and ?n = "length (show_arith 12 e) + 1"
  have f: "2 * nodes e < f" using c assms(2) by (simp add: cost_def)
  obtain g' where g': "g = Suc g'" using g nodes_pos [of e] by (cases g) auto
  have sh: "show_arith 1 e = CHR ''('' # ?s @ '')''" using assms(2) by (simp add: show_closed)
  have at': "at_text st (CHR ''('' # (?s @ CHR '')'' # rest))" using at sh by simp
  note at1 = at_text_Cons [OF at']
  have tok1: "get_token st = Some (TOKEN_LPAREN, adv 1 st)" by (rule next_isD [OF next_is_delims(5) at'])
  have "agrees (parse_comma f (adv 1 st)) (arith_sem (ar_vars (adv 1 st)) e) (adv (length ?s) (adv 1 st))"
    using assms(1) f at1 next_is_delims(1) unfolding parsed_comma_def by fastforce
  then have ag: "agrees (parse_comma f (adv 1 st)) (arith_sem (ar_vars st) e) (adv ?n st)" by simp
  have at2: "at_text (adv ?n st) (CHR '')'' # rest)" using at_text_adv [OF at1 refl] by simp
  have tok2: "get_token (adv ?n st) = Some (TOKEN_RPAREN, adv (?n + 1) st)"
    using next_isD [OF next_is_delims(1) at2] by simp
  have "agrees (on_value (parse_comma f (adv 1 st)) (\<lambda>v st. do {
         (token, st) \<leftarrow> get_token st;
         if token \<noteq> TOKEN_RPAREN then Some (Failed (''Expected '' @ [CHR 0x27, CHR '')'', CHR 0x27]), st)
         else Some (Value v, st) })) (sem_bind (arith_sem (ar_vars st) e) (\<lambda>v. Some (Value v))) (adv (?n + 1) st)"
    by (rule agrees_bind [OF ag]) (simp only: tok2, simp)
  moreover have "sem_bind (arith_sem (ar_vars st) e) (\<lambda>v. Some (Value v)) = arith_sem (ar_vars st) e"
    by (auto simp: sem_bind_def split: option.splits Result.splits)
  ultimately show "agrees (parse_unary g (parse_comma f) st) (arith_sem (ar_vars st) e) (adv (length (show_arith 1 e)) st)"
    by (simp add: g' tok1 unary_op_def parse_primary_def sh [simplified])
qed

text \<open>A chain that is not an operator of the level.\<close>

lemma chain_from_level:
  assumes "parsed_level (n - 1) e" "arith_level e \<noteq> n" "2 \<le> n" "n \<le> 9"
  shows "parsed_chain n e"
  unfolding parsed_chain_def
proof (intro allI impI)
  fix f st t rest h k
  assume f: "cost n e \<le> f" and at: "at_text st (show_arith n e @ rest)" and t: "next_is t rest" "n \<le> tok_level t"
    and h: "\<forall>v g. f \<le> g + nodes e \<longrightarrow> arith_sem (ar_vars st) e = Some (Value v) \<longrightarrow>
        agrees (binary_loop g (level_parser (n - 1) f) (level_ops n) v (adv (length (show_arith n e)) st)) (h v) (adv k st)"
  have eq: "show_arith (n - 1) e = show_arith n e"
    by (rule show_same) (use assms(2,3) in auto)
  have c: "cost (n - 1) e = cost n e" using assms(2,3) by (auto simp: cost_def)
  have "n - 1 < tok_level t" using t(2) assms(3) by simp
  then have "agrees (level_parser (n - 1) f st) (arith_sem (ar_vars st) e) (adv (length (show_arith n e)) st)"
    using assms(1) f at t(1) unfolding parsed_level_def eq c by blast
  then have "agrees (on_value (level_parser (n - 1) f st)
      (\<lambda>left st. binary_loop f (level_parser (n - 1) f) (level_ops n) left st))
      (sem_bind (arith_sem (ar_vars st) e) h) (adv k st)"
    by (rule agrees_bind) (use h in auto)
  then show "agrees (level_parser n f st) (sem_bind (arith_sem (ar_vars st) e) h) (adv k st)"
    by (simp add: level_step [OF assms(3,4)] binary_level_def)
qed

lemma sem_bind_assoc: "sem_bind (sem_bind s h) k = sem_bind s (\<lambda>v. sem_bind (h v) k)"
  by (auto simp: sem_bind_def split: option.splits Result.splits)

lemma agrees_Failed: "at_text (adv m st) s \<Longrightarrow> agrees (Some (Failed e, adv m st)) (Some (Failed e)) (adv k st)"
  by (auto simp: agrees_def adv_def at_text_def)

text \<open>The loop of a level at one of its operators.\<close>

lemma loop_at_operator:
  assumes r: "parsed_level (n - 1) r" "arith_ok r" and n: "n = bop_level b"
    and f: "cost (n - 1) r \<le> f" and at: "at_text (adv m st) (bop_char b # show_arith (n - 1) r @ rest)"
    and t: "next_is t rest" "n \<le> tok_level t"
    and k: "\<And>y v. bop_sem b x y = Some (Value v) \<Longrightarrow> arith_sem (ar_vars st) r = Some (Value y) \<Longrightarrow>
      agrees (binary_loop g (level_parser (n - 1) f) (level_ops n) v (adv (Suc (m + length (show_arith (n - 1) r))) st)) (h v) (adv k st)"
  shows "agrees (binary_loop (Suc g) (level_parser (n - 1) f) (level_ops n) x (adv m st))
    (sem_bind (arith_sem (ar_vars st) r) (\<lambda>y. sem_bind (bop_sem b x y) h)) (adv k st)"
proof -
  let ?s = "show_arith (n - 1) r"
  let ?m = "Suc (m + length ?s)"
  have tok: "get_token (adv m st) = Some (bop_token b, adv (m + 1) st)"
    using next_isD [OF next_is_bop [OF starts_operand_append [OF starts_operand_show [OF r(2)]]] at] by simp
  obtain q where q: "level_ops n (bop_token b) = Some q" "\<And>l r. q l r = bop_sem b l r"
    using bop_level_ops n by blast
  have at1: "at_text (adv (m + 1) st) (?s @ rest)" using at_text_Cons [OF at] by simp
  have "n - 1 < tok_level t" using t(2) n bop_level_bounds(1) [of b] by linarith
  then have "agrees (level_parser (n - 1) f (adv (m + 1) st)) (arith_sem (ar_vars (adv (m + 1) st)) r)
      (adv (length ?s) (adv (m + 1) st))"
    using r(1) f at1 t(1) unfolding parsed_level_def by blast
  then have ag: "agrees (level_parser (n - 1) f (adv (m + 1) st)) (arith_sem (ar_vars st) r) (adv ?m st)" by simp
  have at2: "at_text (adv ?m st) rest" using at_text_adv [OF at1 refl] by simp
  have "agrees (on_value (level_parser (n - 1) f (adv (m + 1) st)) (\<lambda>right st. do {
         r \<leftarrow> q x right;
         on_value (Some (r, st)) (\<lambda>left st. binary_loop g (level_parser (n - 1) f) (level_ops n) left st) }))
      (sem_bind (arith_sem (ar_vars st) r) (\<lambda>y. sem_bind (bop_sem b x y) h)) (adv k st)"
  proof (rule agrees_bind [OF ag])
    fix y
    assume y: "arith_sem (ar_vars st) r = Some (Value y)"
    show "agrees (do { r \<leftarrow> q x y;
         on_value (Some (r, adv ?m st)) (\<lambda>left st. binary_loop g (level_parser (n - 1) f) (level_ops n) left st) })
      (sem_bind (bop_sem b x y) h) (adv k st)"
    proof (cases "bop_sem b x y")
      case None
      then show ?thesis by (simp add: q(2))
    next
      case (Some z)
      then show ?thesis
        using k [OF _ y] agrees_Failed [OF at2] by (cases z) (simp_all add: q(2))
    qed
  qed
  then show ?thesis by (simp add: tok q(1))
qed

lemma parsed_chain_Bop:
  assumes l: "parsed_chain n l" and r: "parsed_level (n - 1) r" "arith_ok r" and n: "n = bop_level b"
  shows "parsed_chain n (Bop b l r)"
  unfolding parsed_chain_def
proof (intro allI impI)
  fix f st t rest h k
  assume c: "cost n (Bop b l r) \<le> f" and at: "at_text st (show_arith n (Bop b l r) @ rest)"
    and t: "next_is t rest" "n \<le> tok_level t"
    and h: "\<forall>v g. f \<le> g + nodes (Bop b l r) \<longrightarrow> arith_sem (ar_vars st) (Bop b l r) = Some (Value v) \<longrightarrow>
        agrees (binary_loop g (level_parser (n - 1) f) (level_ops n) v (adv (length (show_arith n (Bop b l r))) st)) (h v) (adv k st)"
  let ?l = "show_arith n l" and ?r = "show_arith (n - 1) r"
  have at': "at_text st (?l @ (bop_char b # ?r @ rest))" using at n by simp
  have nt: "next_is (bop_token b) (bop_char b # ?r @ rest)" "n \<le> tok_level (bop_token b)"
    using next_is_bop starts_operand_append starts_operand_show [OF r(2)] n by (auto simp: tok_level_bop)
  have at1: "at_text (adv (length ?l) st) (bop_char b # ?r @ rest)" by (rule at_text_adv [OF at' refl])
  have fr: "cost (n - 1) r \<le> f" "cost n l \<le> f" "nodes l < f"
    using c n cost_bounds(2) [of "n - 1" r] cost_bounds(2) [of n l] by (simp_all add: cost_def)
  have loop: "agrees (binary_loop g (level_parser (n - 1) f) (level_ops n) x (adv (length ?l) st))
      (sem_bind (arith_sem (ar_vars st) r) (\<lambda>y. sem_bind (bop_sem b x y) h)) (adv k st)"
    if g: "f \<le> g + nodes l" and x: "arith_sem (ar_vars st) l = Some (Value x)" for x g
  proof -
    obtain g' where g': "g = Suc g'" using g fr(3) by (cases g) auto
    show ?thesis
      unfolding g'
    proof (rule loop_at_operator [OF r n fr(1) at1 t])
      fix y v
      assume "bop_sem b x y = Some (Value v)" "arith_sem (ar_vars st) r = Some (Value y)"
      then have "arith_sem (ar_vars st) (Bop b l r) = Some (Value v)" using x by simp
      then show "agrees (binary_loop g' (level_parser (n - 1) f) (level_ops n) v (adv (Suc (length ?l + length ?r)) st)) (h v) (adv k st)"
        using h g g' n by (auto dest!: spec [where x = v] spec [where x = g'])
    qed
  qed
  have "agrees (level_parser n f st)
      (sem_bind (arith_sem (ar_vars st) l) (\<lambda>x. sem_bind (arith_sem (ar_vars st) r) (\<lambda>y. sem_bind (bop_sem b x y) h))) (adv k st)"
    by (rule parsed_chainD [OF l fr(2) at' nt]) (rule loop)
  then show "agrees (level_parser n f st) (sem_bind (arith_sem (ar_vars st) (Bop b l r)) h) (adv k st)"
    by (simp add: sem_bind_assoc)
qed

lemma level_from_chain:
  assumes "parsed_chain n e" "2 \<le> n" "n \<le> 9"
  shows "parsed_level n e"
  unfolding parsed_level_def
proof (intro allI impI)
  fix f st t rest
  assume f: "cost n e \<le> f" and at: "at_text st (show_arith n e @ rest)" and t: "next_is t rest" "n < tok_level t"
  let ?k = "length (show_arith n e)"
  have at1: "at_text (adv ?k st) rest" by (rule at_text_adv [OF at refl])
  have "agrees (binary_loop g (level_parser (n - 1) f) (level_ops n) v (adv ?k st)) (Some (Value v)) (adv ?k st)"
    if "f \<le> g + nodes e" for v g
  proof -
    have "0 < g" using that f cost_bounds(1) [of e n] nodes_pos [of e] by linarith
    then show ?thesis
      using loop_ends [where ops = "level_ops n", OF t(1) at1 level_ops_none [OF assms(2,3) t(2)]] by simp
  qed
  then have "agrees (level_parser n f st) (sem_bind (arith_sem (ar_vars st) e) (\<lambda>v. Some (Value v))) (adv ?k st)"
    by (intro parsed_chainD [OF assms(1) f at t(1) less_imp_le [OF t(2)]])
  moreover have "sem_bind (arith_sem (ar_vars st) e) (\<lambda>v. Some (Value v)) = arith_sem (ar_vars st) e"
    by (auto simp: sem_bind_def split: option.splits Result.splits)
  ultimately show "agrees (level_parser n f st) (arith_sem (ar_vars st) e) (adv ?k st)" by simp
qed


text \<open>The last level.\<close>

lemma parsed_commaD:
  assumes "parsed_comma e" "2 * nodes e < f" "at_text (adv m st) (show_arith 12 e @ rest)" "next_is t rest" "12 < tok_level t"
  shows "agrees (parse_comma f (adv m st)) (arith_sem (ar_vars st) e) (adv (m + length (show_arith 12 e)) st)"
  using assms(1) [unfolded parsed_comma_def, rule_format, OF assms(2-5)] by simp

lemma parsed_comma_Cond:
  assumes c: "parsed_level 11 c" and a: "parsed_comma a" and b: "parsed_comma b"
  shows "parsed_comma (Cond c a b)"
  unfolding parsed_comma_def
proof (intro allI impI)
  fix f st t rest
  let ?c = "show_arith 11 c" and ?a = "show_arith 12 a" and ?b = "show_arith 12 b"
  let ?n = "length (show_arith 12 (Cond c a b))"
  assume f: "2 * nodes (Cond c a b) < f" and at: "at_text st (show_arith 12 (Cond c a b) @ rest)"
    and t: "next_is t rest" "12 < tok_level t"
  obtain f' where f': "f = Suc f'" "cost 11 c \<le> f'" "2 * nodes a < f'" "2 * nodes b < f'"
    using f cost_bounds(2) [of 11 c] by (cases f) auto
  have at0: "at_text st (?c @ CHR ''?'' # ?a @ CHR '':'' # ?b @ rest)" using at by simp
  have at1: "at_text (adv (length ?c) st) (CHR ''?'' # ?a @ CHR '':'' # ?b @ rest)" by (rule at_text_adv [OF at0 refl])
  have at2: "at_text (adv (length ?c + 1) st) (?a @ CHR '':'' # ?b @ rest)" using at_text_Cons [OF at1] by simp
  have at3: "at_text (adv (length ?c + 1 + length ?a) st) (CHR '':'' # ?b @ rest)" using at_text_adv [OF at2 refl] by simp
  have at4: "at_text (adv (length ?c + 1 + length ?a + 1) st) (?b @ rest)" using at_text_Cons [OF at3] by simp
  have at5: "at_text (adv ?n st) rest" using at_text_adv [OF at refl] by simp
  have n: "?n = length ?c + 1 + length ?a + 1 + length ?b" by simp
  have ag1: "agrees (parse_logical_or f' (parse_comma f') st) (arith_sem (ar_vars st) c) (adv (length ?c) st)"
    using c [unfolded parsed_level_def, rule_format, OF f'(2) at0 next_is_delims(2)] by (simp add: levels_def)
  have ag2: "agrees (parse_comma f' (adv (length ?c + 1) st)) (arith_sem (ar_vars st) a) (adv (length ?c + 1 + length ?a) st)"
    by (rule parsed_commaD [OF a f'(3) at2 next_is_delims(3)]) simp
  have ag3: "agrees (parse_comma f' (adv (length ?c + 1 + length ?a + 1) st)) (arith_sem (ar_vars st) b) (adv ?n st)"
    unfolding n by (rule parsed_commaD [OF b f'(4) at4 t])
  note tok1 = next_isD [OF next_is_delims(2) at1, unfolded adv_simps]
  note tok3 = next_isD [OF next_is_delims(3) at3, unfolded adv_simps]
  have "agrees (parse_ternary f' (parse_comma f') st) (arith_sem (ar_vars st) (Cond c a b)) (adv ?n st)"
    unfolding parse_ternary_def arith_sem.simps
  proof (rule agrees_bind [OF ag1], unfold tok1, simp only: Option.bind.simps prod.case not_not simp_thms if_False, rule agrees_bind [OF ag2],
      unfold tok3, simp only: Option.bind.simps prod.case not_not simp_thms if_False, rule agrees_bind [OF ag3])
  qed simp
  then show "agrees (parse_comma f st) (arith_sem (ar_vars st) (Cond c a b)) (adv ?n st)"
    unfolding f'(1) parse_comma.simps using t(2)
    by (intro agrees_pass) (auto simp only: next_isD [OF t(1) at5] Option.bind.simps prod.case adv_simps tok_level.simps if_True simp_thms split: if_splits)
qed

lemma parsed_comma_Comma:
  assumes a: "parsed_level 11 a" and b: "parsed_comma b"
  shows "parsed_comma (Comma a b)"
  unfolding parsed_comma_def
proof (intro allI impI)
  fix f st t rest
  let ?a = "show_arith 11 a" and ?b = "show_arith 12 b"
  let ?n = "length (show_arith 12 (Comma a b))"
  assume f: "2 * nodes (Comma a b) < f" and at: "at_text st (show_arith 12 (Comma a b) @ rest)"
    and t: "next_is t rest" "12 < tok_level t"
  obtain f' where f': "f = Suc f'" "cost 11 a \<le> f'" "2 * nodes b < f'"
    using f cost_bounds(2) [of 11 a] by (cases f) auto
  have at0: "at_text st (?a @ CHR '','' # ?b @ rest)" using at by simp
  have at1: "at_text (adv (length ?a) st) (CHR '','' # ?b @ rest)" by (rule at_text_adv [OF at0 refl])
  have at2: "at_text (adv (length ?a + 1) st) (?b @ rest)" using at_text_Cons [OF at1] by simp
  have n: "?n = length ?a + 1 + length ?b" by simp
  have ag0: "agrees (parse_logical_or f' (parse_comma f') st) (arith_sem (ar_vars st) a) (adv (length ?a) st)"
    using a [unfolded parsed_level_def, rule_format, OF f'(2) at0 next_is_delims(4)] by (simp add: levels_def)
  note tok1 = next_isD [OF next_is_delims(4) at1, unfolded adv_simps]
  have ag1: "agrees (parse_ternary f' (parse_comma f') st) (arith_sem (ar_vars st) a) (adv (length ?a) st)"
    unfolding parse_ternary_def by (rule agrees_pass [OF ag0]) (simp add: next_isD [OF next_is_delims(4) at1])
  have ag2: "agrees (parse_comma f' (adv (length ?a + 1) st)) (arith_sem (ar_vars st) b) (adv ?n st)"
    unfolding n by (rule parsed_commaD [OF b f'(3) at2 t])
  show "agrees (parse_comma f st) (arith_sem (ar_vars st) (Comma a b)) (adv ?n st)"
    unfolding f'(1) parse_comma.simps arith_sem.simps
  proof (rule agrees_bind [OF ag1], unfold tok1, simp only: Option.bind.simps prod.case not_not simp_thms if_False, rule agrees_bind [OF ag2])
  qed simp
qed

definition parsed :: "arith \<Rightarrow> bool" where
  "parsed e \<longleftrightarrow> parsed_unary e \<and> parsed_comma e \<and> (\<forall>n. 1 \<le> n \<longrightarrow> n \<le> 11 \<longrightarrow> parsed_level n e) \<and>
     (\<forall>n. 2 \<le> n \<longrightarrow> n \<le> 9 \<longrightarrow> parsed_chain n e)"

lemma parsed_from_unary:
  assumes "parsed_unary e" "parsed_comma e" "arith_level e = 1 \<or> 12 \<le> arith_level e"
  shows "parsed e"
proof -
  have l: "parsed_level n e" if "1 \<le> n" "n \<le> 11" for n
    by (rule level_up [OF level_from_unary [OF assms(1)]]) (use assms(3) that in auto)
  have "parsed_chain n e" if "2 \<le> n" "n \<le> 9" for n
    by (rule chain_from_level) (use l [of "n - 1"] assms(3) that in auto)
  with l assms(1,2) show ?thesis by (simp add: parsed_def)
qed

lemma parsed_all: "arith_ok e \<Longrightarrow> parsed e"
proof (induction e)
  case (Word w)
  then have u: "parsed_unary (Word w)" by (simp add: parsed_unary_Word)
  have "parsed_level 11 (Word w)" by (rule level_up [OF level_from_unary [OF u]]) auto
  then show ?case by (intro parsed_from_unary u comma_from_level) simp_all
next
  case (Uop u e)
  then have u: "parsed_unary (Uop u e)" by (simp add: parsed_unary_Uop parsed_def)
  have "parsed_level 11 (Uop u e)" by (rule level_up [OF level_from_unary [OF u]]) auto
  then show ?case by (intro parsed_from_unary u comma_from_level) simp_all
next
  case (Bop b l r)
  let ?n = "bop_level b" and ?e = "Bop b l r"
  note n = bop_level_bounds [of b]
  have pl: "parsed_chain ?n l" "parsed_level (?n - 1) r" "arith_ok r" using Bop n by (auto simp: parsed_def)
  have ch: "parsed_chain ?n ?e" by (rule parsed_chain_Bop [OF pl refl])
  note lv = level_from_chain [OF ch n]
  have "parsed_level 11 ?e" by (rule level_up [OF lv]) (use n in auto)
  then have co: "parsed_comma ?e" by (rule comma_from_level) (use n in auto)
  have un: "parsed_unary ?e" by (rule parsed_unary_parens [OF co]) (use n in auto)
  have l: "parsed_level m ?e" if m: "1 \<le> m" "m \<le> 11" for m
  proof (cases "?n \<le> m")
    case True
    show ?thesis by (rule level_up [OF lv]) (use n m True in auto)
  next
    case False
    show ?thesis by (rule level_up [OF level_from_unary [OF un]]) (use m False in auto)
  qed
  have "parsed_chain m ?e" if m: "2 \<le> m" "m \<le> 9" for m
    using ch chain_from_level [of m ?e] l [of "m - 1"] m by (cases "m = ?n") auto
  with l un co show ?case by (simp add: parsed_def)
next
  case (Cond c a b)
  then have co: "parsed_comma (Cond c a b)" by (intro parsed_comma_Cond) (auto simp: parsed_def)
  show ?case by (rule parsed_from_unary [OF parsed_unary_parens [OF co] co]) auto
next
  case (Comma a b)
  then have co: "parsed_comma (Comma a b)" by (intro parsed_comma_Comma) (auto simp: parsed_def)
  show ?case by (rule parsed_from_unary [OF parsed_unary_parens [OF co] co]) auto
qed


section \<open>Whole evaluations\<close>

definition start_arith :: "((string \<rightharpoonup> string) \<Rightarrow> string \<Rightarrow> string \<Rightarrow> (string \<rightharpoonup> string)) \<Rightarrow> (string \<rightharpoonup> string) \<Rightarrow> string \<Rightarrow> Arith" where
  "start_arith set_variable vars s = \<lparr>ar_input = s, ar_pos = 0, ar_vars = vars, ar_set = set_variable\<rparr>"

lemma evaluate_expanded:
  "expand vars s = (Some s', vars') \<Longrightarrow> arithmetic_evaluate f expand setv vars s =
     do { (result, st) \<leftarrow> parse_comma f (start_arith setv vars' s');
          (token, st) \<leftarrow> get_token st;
          Some (case result of
                  Failed e \<Rightarrow> Failed e
                | Value v \<Rightarrow> if token \<noteq> TOKEN_EOF then Failed ''Unexpected tokens after expression'' else Value v,
                ar_vars st) }"
  by (simp add: arithmetic_evaluate_def start_arith_def)


section \<open>Evaluation changes no variable\<close>

definition keeps :: "parser \<Rightarrow> bool" where
  "keeps p \<longleftrightarrow> (\<forall>st r st'. p st = Some (r, st') \<longrightarrow> ar_vars st' = ar_vars st \<and> ar_input st' = ar_input st)"

lemma keepsD: "keeps p \<Longrightarrow> p st = Some (r, st') \<Longrightarrow> ar_vars st' = ar_vars st \<and> ar_input st' = ar_input st"
  by (simp add: keeps_def)

lemma get_token_keeps: "get_token st = Some (t, st') \<Longrightarrow> ar_vars st' = ar_vars st \<and> ar_input st' = ar_input st"
  by (auto simp: get_token_def Let_def split: if_splits prod.splits)

lemma rewind_keeps [simp]: "ar_vars (rewind st) = ar_vars st" "ar_input (rewind st) = ar_input st"
  by (simp_all add: rewind_def)

lemma on_value_Some:
  "on_value r k = Some (x, st') \<Longrightarrow> (\<exists>v st. r = Some (Value v, st) \<and> k v st = Some (x, st')) \<or> (\<exists>e. r = Some (Failed e, st') \<and> x = Failed e)"
  by (auto simp: on_value_def split: option.splits prod.splits Result.splits)

lemma keeps_on_value:
  assumes "keeps p" "\<And>v. keeps (k v)"
  shows "keeps (\<lambda>st. on_value (p st) k)"
  unfolding keeps_def by (auto dest!: on_value_Some keepsD [OF assms(1)] keepsD [OF assms(2)])

lemma keeps_token:
  assumes "\<And>t. keeps (k t)"
  shows "keeps (\<lambda>st. do { (t, st) \<leftarrow> get_token st; k t st })"
  unfolding keeps_def by (auto simp: bind_eq_Some_conv dest!: get_token_keeps keepsD [OF assms])

lemma keeps_simple [intro, simp]:
  "keeps (\<lambda>st. Some (r, st))" "keeps (\<lambda>st. Some (r, rewind st))" "keeps (\<lambda>st. None)"
  by (simp_all add: keeps_def)

lemma keeps_rewind: "keeps p \<Longrightarrow> keeps (\<lambda>st. p (rewind st))"
  by (simp add: keeps_def)

lemma keeps_if: "keeps p \<Longrightarrow> keeps q \<Longrightarrow> keeps (\<lambda>st. if b then p st else q st)"
  by (simp add: keeps_def)


lemma keeps_primary:
  assumes "keeps comma"
  shows "keeps (parse_primary comma)"
proof -
  have "keeps (\<lambda>st.
     if number_of t \<noteq> None then Some (Value (the (number_of t)), st)
     else if variable_of t \<noteq> None then Some (variable_value st (the (variable_of t)), st)
     else if t = TOKEN_LPAREN then
       on_value (comma st) (\<lambda>v st. do {
         (t, st) \<leftarrow> get_token st;
         if t \<noteq> TOKEN_RPAREN then Some (Failed (''Expected '' @ [CHR 0x27, CHR '')'', CHR 0x27]), st)
         else Some (Value v, st) })
     else if variable_of t \<noteq> None then parse_assignment comma (the (variable_of t)) st
     else Some (Failed (''Expected number, variable, or '' @ [CHR 0x27, CHR ''('', CHR 0x27]), st))" for t
  proof (cases "variable_of t = None")
    case True
    then show ?thesis
      by (simp only: True simp_thms if_False) (intro keeps_if keeps_simple keeps_on_value assms keeps_token)
  next
    case False
    then show ?thesis by (auto simp: keeps_def)
  qed
  then show ?thesis unfolding parse_primary_def by (rule keeps_token)
qed

lemma keeps_unary: "keeps comma \<Longrightarrow> keeps (parse_unary f comma)"
proof (induction f)
  case 0
  then show ?case by (simp add: keeps_def)
next
  case (Suc f)
  have "keeps (\<lambda>st. case unary_op t of
       Some g \<Rightarrow> on_value (parse_unary f comma st) (\<lambda>v st. do { v \<leftarrow> g v; Some (Value v, st) })
     | None \<Rightarrow> parse_primary comma (rewind st))" for t
  proof (cases "unary_op t")
    case None
    then show ?thesis using keeps_rewind [OF keeps_primary [OF Suc.prems]] by simp
  next
    case (Some g)
    have "keeps (\<lambda>st. do { v \<leftarrow> g v; Some (Value v, st) })" for v
      by (cases "g v") simp_all
    then show ?thesis using Some Suc by (simp add: keeps_on_value)
  qed
  then show ?case unfolding parse_unary.simps by (rule keeps_token)
qed

lemma keeps_binary_loop: "keeps p \<Longrightarrow> keeps (binary_loop f p ops v)"
proof (induction f arbitrary: v)
  case 0
  then show ?case by (simp add: keeps_def)
next
  case (Suc f)
  have "keeps (\<lambda>st. case ops t of
       None \<Rightarrow> Some (Value v, rewind st)
     | Some g \<Rightarrow> on_value (p st) (\<lambda>right st. do {
         r \<leftarrow> g v right;
         on_value (Some (r, st)) (\<lambda>left st. binary_loop f p ops left st) }))" for t
  proof (cases "ops t")
    case None
    then show ?thesis by simp
  next
    case (Some g)
    have "keeps (\<lambda>st. do { r \<leftarrow> g v y; on_value (Some (r, st)) (\<lambda>left st. binary_loop f p ops left st) })" for y
    proof (cases "g v y")
      case None
      then show ?thesis by simp
    next
      case (Some r)
      then show ?thesis using Suc by (cases r) simp_all
    qed
    then show ?thesis using Some Suc.prems by (simp add: keeps_on_value)
  qed
  then show ?case unfolding binary_loop.simps by (rule keeps_token)
qed

lemma keeps_binary_level: "keeps p \<Longrightarrow> keeps (binary_level f p ops)"
  unfolding binary_level_def by (intro keeps_on_value keeps_binary_loop)

lemma keeps_logical_loop: "keeps p \<Longrightarrow> keeps (logical_loop f p t d g v)"
proof (induction f arbitrary: v)
  case 0
  then show ?case by (simp add: keeps_def)
next
  case (Suc f)
  then show ?case
    unfolding logical_loop.simps by (intro keeps_token keeps_if keeps_simple keeps_on_value)
qed

lemma keeps_logical_or:
  assumes "keeps comma"
  shows "keeps (parse_logical_or f comma)"
proof -
  have "keeps (parse_bit_or f comma)"
    unfolding parse_bit_or_def parse_bit_xor_def parse_bit_and_def parse_equality_def parse_comparison_def
      parse_shift_def parse_additive_def parse_multiplicative_def
    by (intro keeps_binary_level keeps_unary assms)
  then have "keeps (parse_logical_and f comma)"
    unfolding parse_logical_and_def by (intro keeps_on_value keeps_logical_loop)
  then show ?thesis
    unfolding parse_logical_or_def by (intro keeps_on_value keeps_logical_loop)
qed

lemma keeps_ternary: "keeps comma \<Longrightarrow> keeps (parse_ternary f comma)"
  unfolding parse_ternary_def
  by (intro keeps_on_value keeps_token keeps_if keeps_simple keeps_logical_or) assumption+

lemma keeps_comma: "keeps (parse_comma f)"
proof (induction f)
  case 0
  then show ?case by simp
next
  case (Suc f)
  show ?case
    unfolding parse_comma.simps
    by (intro keeps_on_value keeps_token keeps_if keeps_simple keeps_ternary Suc)
qed

text \<open>C30. No expression changes a variable, assignments included: after an evaluation the variables are what
  the expansion of the text has left.\<close>

theorem arithmetic_changes_no_variable:
  assumes "arithmetic_evaluate f expand set_variable vars s = Some (r, vars')"
  shows "vars' = snd (expand vars s)"
proof (cases "expand vars s")
  case (Pair t v)
  show ?thesis
  proof (cases t)
    case None
    then show ?thesis using assms Pair by (simp add: arithmetic_evaluate_def)
  next
    case (Some s')
    note ev = evaluate_expanded [of expand vars s s' v f set_variable]
    obtain q st1 tok st2 where "parse_comma f (start_arith set_variable v s') = Some (q, st1)"
      "get_token st1 = Some (tok, st2)" "vars' = ar_vars st2"
      using assms Pair Some by (auto simp: ev bind_eq_Some_conv)
    then show ?thesis
      using Pair keepsD [OF keeps_comma] get_token_keeps by (fastforce simp: start_arith_def)
  qed
qed


section \<open>What follows the expression\<close>

lemma snd_if: "snd (if b then (x, m) else y) \<le> n \<longleftrightarrow> (if b then m \<le> n else snd y \<le> n)"
  by simp

lemma operator_token_3: "snd (operator_token c d e) \<le> 3"
  unfolding operator_token_def Let_def by (simp add: snd_if if_bool_eq_conj)

lemma operator_token_2: "e = NUL \<Longrightarrow> snd (operator_token c d e) \<le> 2"
  unfolding operator_token_def Let_def by (simp add: snd_if if_bool_eq_conj)

lemma operator_token_1: "d = NUL \<Longrightarrow> snd (operator_token c d e) \<le> 1"
  unfolding operator_token_def Let_def by (simp add: snd_if if_bool_eq_conj)

lemma operator_token_length: "snd (operator_token c (peek s 0) (peek s 1)) \<le> Suc (length s)"
proof -
  consider "length s = 0" | "length s = 1" | "2 \<le> length s" by linarith
  then show ?thesis
  proof cases
    case 1
    then show ?thesis using operator_token_1 [of "peek s 0" c "peek s 1"] by (simp add: peek_def)
  next
    case 2
    then show ?thesis using operator_token_2 [of "peek s 1" c "peek s 0"] by (simp add: peek_def)
  next
    case 3
    then show ?thesis using operator_token_3 [of c "peek s 0" "peek s 1"] by simp
  qed
qed

lemma scan_token_length: "snd (scan_token s) \<le> length s"
proof (cases s)
  case Nil
  then show ?thesis by (simp add: scan_token_def)
next
  case (Cons c u)
  then show ?thesis
    using operator_token_length [of c u]
    by (auto simp: scan_token_def length_takeWhile_le numeral_2_eq_2 split: prod.split)
qed

lemma get_token_bounds:
  assumes "get_token st = Some (t, st')"
  shows "0 \<le> ar_pos st' \<and> ar_pos st' \<le> int (length (ar_input st'))"
proof -
  let ?s = "drop (nat (ar_pos st)) (ar_input st)"
  let ?k = "length (takeWhile isspace ?s)"
  have p: "0 \<le> ar_pos st" "ar_pos st \<le> int (length (ar_input st))" using assms by (auto simp: get_token_def split: if_splits)
  have "?k + snd (scan_token (drop ?k ?s)) \<le> length ?s"
    using scan_token_length [of "drop ?k ?s"] length_takeWhile_le [of isspace ?s] unfolding length_drop by linarith
  then show ?thesis using assms p by (auto simp: get_token_def Let_def split: prod.splits)
qed

lemma comma_stops_before_end:
  "parse_comma f st = Some (Value v, st') \<Longrightarrow> ar_pos st' < int (length (ar_input st'))"
proof (induction f arbitrary: st st' v)
  case 0
  then show ?case by simp
next
  case (Suc f)
  then obtain l st1 tok st2 where 1: "get_token st1 = Some (tok, st2)"
    and 2: "(if tok \<noteq> TOKEN_COMMA then Some (Value l, rewind st2)
             else on_value (parse_comma f st2) (\<lambda>right st. Some (Value l, st))) = Some (Value v, st')"
    by (fastforce simp: bind_eq_Some_conv dest!: on_value_Some)
  show ?case
  proof (cases "tok = TOKEN_COMMA")
    case True
    then show ?thesis using 2 Suc.IH by (auto dest!: on_value_Some)
  next
    case False
    then have "st' = rewind st2" using 2 by simp
    then show ?thesis using get_token_bounds [OF 1] by (simp add: rewind_def)
  qed
qed

definition arith_char :: "char \<Rightarrow> bool" where
  "arith_char c \<longleftrightarrow> name_char c \<or> c \<in> set ''()+-*/%~!<>=&^|?:,''"

lemma operator_token_valid: "c \<in> set ''()+-*/%~!<>=&^|?:,'' \<Longrightarrow> fst (operator_token c d e) \<noteq> TOKEN_EOF"
  by (auto simp: operator_token_def)

lemma length_drop_less: "s \<noteq> [] \<Longrightarrow> 0 < n \<Longrightarrow> length (drop n s) < length s"
  by (cases s) auto

lemma strtol_digit: "isdigit (hd s) \<Longrightarrow> s \<noteq> [] \<Longrightarrow> length (snd (strtol s 0)) < length s"
proof -
  assume d: "isdigit (hd s)" and s: "s \<noteq> []"
  obtain c u where cu: "s = c # u" using s by (cases s) auto
  have sp: "\<not> isspace (hd0 s)" "hd0 s \<noteq> CHR ''-''" "hd0 s \<noteq> CHR ''+''" using d cu by (auto simp: char_classes)
  have dw: "dropWhile isspace s = s" using sp(1) cu by simp
  have d10: "digit_of c < 10" using d cu by (auto simp: digit_of_def isdigit_def)
  have d0: "c = CHR ''0'' \<Longrightarrow> digit_of c = 0" by (simp add: digit_of_def char_classes)
  define hex where "hex \<longleftrightarrow> hd0 s = CHR ''0'' \<and> peek s 1 \<in> {CHR ''x'', CHR ''X''} \<and> digit_of (peek s 2) < 16"
  define b :: nat where "b = (if hex then 16 else if hd0 s = CHR ''0'' then 8 else 10)"
  define v where "v = (if hex then drop 2 s else s)"
  have v: "takeWhile (\<lambda>c. digit_of c < b) v \<noteq> []"
  proof (cases hex)
    case True
    then have "2 < length s" by (auto simp: hex_def peek_def digit_of_def char_classes split: if_splits)
    then show ?thesis using True by (simp add: hex_def v_def b_def takeWhile_eq_Nil_iff hd_drop_conv_nth peek_def)
  next
    case False
    then show ?thesis using d10 d0 cu by (auto simp: v_def b_def)
  qed
  have "snd (strtol s 0) = drop (length (takeWhile (\<lambda>c. digit_of c < b) v)) v"
    using v sp by (cases hex) (auto simp: strtol_def dw Let_def hex_def b_def v_def)
  also have "length \<dots> < length s"
  proof -
    have "length v \<le> length s" "0 < length (takeWhile (\<lambda>c. digit_of c < b) v)" "0 < length s"
      using v s by (simp_all add: v_def)
    then show ?thesis unfolding length_drop by linarith
  qed
  finally show ?thesis .
qed

lemma scan_token_valid: "s \<noteq> [] \<Longrightarrow> arith_char (hd s) \<Longrightarrow> fst (scan_token s) \<noteq> TOKEN_EOF"
proof -
  assume s: "s \<noteq> []" and c: "arith_char (hd s)"
  have "snd (strtol s 0) \<noteq> s" if "isdigit (hd s)" using strtol_digit [OF that s] by auto
  then show ?thesis
    using s c operator_token_valid [of "hd s"]
    by (auto simp: scan_token_def arith_char_def name_char_def Let_def split: prod.splits)
qed

lemma result_ValueE:
  assumes "(case r of Failed e \<Rightarrow> Failed e | Value v \<Rightarrow> if b then Failed m else Value v) = Value x"
  obtains "r = Value x" "\<not> b"
  using assms by (cases r) (auto split: if_splits)

text \<open>C31. A text of valid characters that does not end with a blank never has a value.\<close>

theorem arithmetic_needs_a_trailing_blank:
  assumes "expand vars s = (Some t, vars')" "t \<noteq> []" "\<not> isspace (last t)" "list_all (\<lambda>c. isspace c \<or> arith_char c) t"
    "arithmetic_evaluate f expand set_variable vars s = Some (r, vars'')"
  shows "\<exists>e. r = Failed e"
proof (rule ccontr)
  assume "\<nexists>e. r = Failed e"
  then obtain x where r: "r = Value x" by (cases r) auto
  note ev = evaluate_expanded [of expand vars s t vars' f set_variable, OF assms(1)]
  let ?st = "start_arith set_variable vars' t"
  obtain v st1 st2 where 1: "parse_comma f ?st = Some (Value v, st1)" "get_token st1 = Some (TOKEN_EOF, st2)"
    using assms(5) r by (auto simp: ev bind_eq_Some_conv elim!: result_ValueE)
  have i: "ar_input st1 = t" using keepsD [OF keeps_comma 1(1)] by (simp add: start_arith_def)
  have p: "0 \<le> ar_pos st1" "nat (ar_pos st1) < length t"
    using comma_stops_before_end [OF 1(1)] 1(2) i by (auto simp: get_token_def split: if_splits)
  let ?u = "drop (nat (ar_pos st1)) t"
  have u: "?u \<noteq> []" "last ?u = last t" "list_all (\<lambda>c. isspace c \<or> arith_char c) ?u"
    using p(2) assms(4) by (auto simp: list_all_iff dest: in_set_dropD)
  let ?w = "dropWhile isspace ?u"
  have w: "?w \<noteq> []" using u(1,2) assms(3) last_in_set [OF u(1)] by (auto simp: dropWhile_eq_Nil_conv)
  have "hd ?w \<in> set ?u" using w by (metis hd_in_set set_dropWhileD)
  then have "arith_char (hd ?w)" using u(3) hd_dropWhile [OF w] by (auto simp: list_all_iff)
  then have "fst (scan_token ?w) \<noteq> TOKEN_EOF" by (rule scan_token_valid [OF w])
  moreover have "at_text st1 ?u" using p i by (simp add: at_text_def)
  ultimately show False using get_token_at [of st1 ?u] 1(2) by simp
qed


text \<open>The empty text makes the program read before its first character.\<close>

theorem arithmetic_empty_undefined:
  assumes "expand vars s = (Some [], vars')" "1 < f"
  shows "arithmetic_evaluate f expand set_variable vars s = None"
proof -
  obtain f' where f': "f = Suc (Suc f')" using assms(2) by (cases f) (auto simp: gr0_conv_Suc)
  let ?st = "start_arith set_variable vars' []"
  have tok: "get_token ?st = Some (TOKEN_EOF, ?st)"
    by (simp add: get_token_def start_arith_def scan_token_def)
  have out: "get_token (rewind ?st) = None"
    by (simp add: get_token_def start_arith_def rewind_def)
  have "parse_unary (Suc f') c ?st = None" for c
    by (simp add: tok unary_op_def parse_primary_def out)
  then have "parse_comma f ?st = None"
    by (simp add: f' parse_ternary_def parse_logical_or_def parse_logical_and_def parse_bit_or_def parse_bit_xor_def
      parse_bit_and_def parse_equality_def parse_comparison_def parse_shift_def parse_additive_def
      parse_multiplicative_def binary_level_def del: parse_unary.simps)
  then show ?thesis by (simp add: evaluate_expanded [of expand vars s "[]" vars' f set_variable, OF assms(1)])
qed

section \<open>Witnesses\<close>

definition no_expansion :: "(string \<rightharpoonup> string) \<Rightarrow> string \<Rightarrow> string option \<times> (string \<rightharpoonup> string)" where
  "no_expansion vars s = (Some s, vars)"

lemma strtol_7: "strtol ''7'' 10 = (7, [])"
  by code_simp


theorem arithmetic_changes_no_variable_witness:
  "arithmetic_evaluate 2 no_expansion (\<lambda>m n v. m(n \<mapsto> v)) [''x'' \<mapsto> ''7''] ''x=5 '' =
   Some (Failed ''Unexpected tokens after expression'', [''x'' \<mapsto> ''7''])"
proof -
  have "map_option fst (arithmetic_evaluate 2 no_expansion (\<lambda>m n v. m(n \<mapsto> v)) [''x'' \<mapsto> ''7''] ''x=5 '') =
      Some (Failed ''Unexpected tokens after expression'')"
    by code_simp
  then obtain v where e: "arithmetic_evaluate 2 no_expansion (\<lambda>m n v. m(n \<mapsto> v)) [''x'' \<mapsto> ''7''] ''x=5 '' =
      Some (Failed ''Unexpected tokens after expression'', v)" by auto
  show ?thesis using e arithmetic_changes_no_variable [OF e] by (simp add: no_expansion_def)
qed

theorem arithmetic_needs_a_trailing_blank_witness:
  "\<exists>r v e. arithmetic_evaluate 2 no_expansion (\<lambda>m n v. m) Map.empty ''1'' = Some (r, v) \<and> r = Failed e"
proof -
  have "map_option (\<lambda>_. ()) (arithmetic_evaluate 2 no_expansion (\<lambda>m n v. m) Map.empty ''1'') = Some ()"
    by code_simp
  then obtain r v where e: "arithmetic_evaluate 2 no_expansion (\<lambda>m n v. m) Map.empty ''1'' = Some (r, v)" by auto
  have "\<exists>e. r = Failed e"
    by (rule arithmetic_needs_a_trailing_blank [of no_expansion Map.empty "''1''" "''1''" Map.empty, OF _ _ _ _ e])
      (simp_all add: no_expansion_def arith_char_def char_classes)
  then show ?thesis using e by blast
qed

theorem arithmetic_empty_undefined_witness:
  "arithmetic_evaluate 2 no_expansion (\<lambda>m n v. m) Map.empty [] = None"
  by (rule arithmetic_empty_undefined) (auto simp: no_expansion_def)

end
