(* ===== verification/Enc.thy ===== *)
theory Enc
  imports Prelude
begin

unbundle bit_operations_syntax

text \<open>
  The encoding tools: \<open>level1/chgenc.c\<close>, which converts a file from one Unicode encoding to another, and
  \<open>level1/checkenc.c\<close>, which guesses the encoding of a file. Bytes are words of 8 bits, code points words of
  32 bits, as in the code. The index \<open>i\<close> of the code's loops is the rest of the bytes here. A pointer result
  that can be NULL is an option; \<open>out\<close> stays NULL as long as nothing has been stored in it. Reading and
  writing an open file succeeds, and so does every allocation; \<open>malloc(0)\<close> returns a pointer.
\<close>

type_synonym byte = "8 word"
type_synonym code_point = "32 word"

section \<open>\<open>chgenc\<close>: decoding\<close>

datatype Encoding =
    ENC_UTF8 | ENC_UTF8_BOM | ENC_UTF16_LE | ENC_UTF16_BE | ENC_UTF16_LE_BOM | ENC_UTF16_BE_BOM
  | ENC_UTF32_LE | ENC_UTF32_BE | ENC_UTF32_LE_BOM | ENC_UTF32_BE_BOM | ENC_UNKNOWN

definition starts_with :: "string \<Rightarrow> string \<Rightarrow> bool" where
  "starts_with a b \<longleftrightarrow> a = b"

definition parse_encoding :: "string \<Rightarrow> Encoding" where
  "parse_encoding s =
     (if starts_with s ''UTF-8'' then ENC_UTF8
      else if starts_with s ''UTF-8-BOM'' then ENC_UTF8_BOM
      else if starts_with s ''UTF-16-LE'' then ENC_UTF16_LE
      else if starts_with s ''UTF-16-BE'' then ENC_UTF16_BE
      else if starts_with s ''UTF-16-LE-BOM'' then ENC_UTF16_LE_BOM
      else if starts_with s ''UTF-16-BE-BOM'' then ENC_UTF16_BE_BOM
      else if starts_with s ''UTF-32-LE'' then ENC_UTF32_LE
      else if starts_with s ''UTF-32-BE'' then ENC_UTF32_BE
      else if starts_with s ''UTF-32-LE-BOM'' then ENC_UTF32_LE_BOM
      else if starts_with s ''UTF-32-BE-BOM'' then ENC_UTF32_BE_BOM
      else ENC_UNKNOWN)"

text \<open>A byte order mark of the input is skipped, whether or not the encoding asks for one.\<close>

definition skip_mark :: "byte list \<Rightarrow> byte list \<Rightarrow> byte list" where
  "skip_mark mark b = (if take (length mark) b = mark then drop (length mark) b else b)"

definition skip_bom :: "Encoding \<Rightarrow> byte list \<Rightarrow> byte list" where
  "skip_bom enc b =
     (if enc = ENC_UTF8 \<or> enc = ENC_UTF8_BOM then skip_mark [0xEF, 0xBB, 0xBF] b
      else if enc = ENC_UTF16_LE \<or> enc = ENC_UTF16_LE_BOM then skip_mark [0xFF, 0xFE] b
      else if enc = ENC_UTF16_BE \<or> enc = ENC_UTF16_BE_BOM then skip_mark [0xFE, 0xFF] b
      else if enc = ENC_UTF32_LE \<or> enc = ENC_UTF32_LE_BOM then skip_mark [0xFF, 0xFE, 0x00, 0x00] b
      else if enc = ENC_UTF32_BE \<or> enc = ENC_UTF32_BE_BOM then skip_mark [0x00, 0x00, 0xFE, 0xFF] b
      else b)"

text \<open>The code point of the payload bits of two, three and four bytes.\<close>

definition join2 :: "byte \<Rightarrow> byte \<Rightarrow> code_point" where
  "join2 c c1 = push_bit 6 (ucast (c AND 0x1F)) OR ucast (c1 AND 0x3F)"

definition join3 :: "byte \<Rightarrow> byte \<Rightarrow> byte \<Rightarrow> code_point" where
  "join3 c c1 c2 = push_bit 12 (ucast (c AND 0x0F)) OR push_bit 6 (ucast (c1 AND 0x3F)) OR ucast (c2 AND 0x3F)"

definition join4 :: "byte \<Rightarrow> byte \<Rightarrow> byte \<Rightarrow> byte \<Rightarrow> code_point" where
  "join4 c c1 c2 c3 =
     push_bit 18 (ucast (c AND 0x07)) OR push_bit 12 (ucast (c1 AND 0x3F)) OR push_bit 6 (ucast (c2 AND 0x3F))
     OR ucast (c3 AND 0x3F)"

definition continuation :: "byte \<Rightarrow> bool" where
  "continuation c \<longleftrightarrow> c AND 0xC0 = 0x80"

definition surrogate :: "code_point \<Rightarrow> bool" where
  "surrogate cp \<longleftrightarrow> 0xD800 \<le> cp \<and> cp \<le> 0xDFFF"

fun decode_utf8 :: "byte list \<Rightarrow> code_point list" where
  "decode_utf8 [] = []"
| "decode_utf8 (c # r) =
     (if c < 0x80 then ucast c # decode_utf8 r
      else if c AND 0xE0 = 0xC0 then
        (case r of
           c1 # r \<Rightarrow>
             if \<not> continuation c1 then 0xFFFD # decode_utf8 r
             else (let cp = join2 c c1; cp = (if cp < 0x80 then 0xFFFD else cp) in cp # decode_utf8 r)
         | _ \<Rightarrow> [0xFFFD])
      else if c AND 0xF0 = 0xE0 then
        (case r of
           c1 # c2 # r \<Rightarrow>
             if \<not> continuation c1 \<or> \<not> continuation c2 then 0xFFFD # decode_utf8 r
             else
               (let cp = join3 c c1 c2;
                    cp = (if cp < 0x800 then 0xFFFD else cp);
                    cp = (if surrogate cp then 0xFFFD else cp)
                in cp # decode_utf8 r)
         | _ \<Rightarrow> [0xFFFD])
      else if c AND 0xF8 = 0xF0 then
        (case r of
           c1 # c2 # c3 # r \<Rightarrow>
             if \<not> continuation c1 \<or> \<not> continuation c2 \<or> \<not> continuation c3 then 0xFFFD # decode_utf8 r
             else (let cp = join4 c c1 c2 c3; cp = (if cp < 0x10000 \<or> cp > 0x10FFFF then 0xFFFD else cp) in cp # decode_utf8 r)
         | _ \<Rightarrow> [0xFFFD])
      else 0xFFFD # decode_utf8 r)"

text \<open>The units of UTF-16 and UTF-32; the argument \<open>unit\<close> puts their bytes together, in the order of the
  encoding.\<close>

definition unit16_le :: "byte \<Rightarrow> byte \<Rightarrow> 16 word" where
  "unit16_le b0 b1 = ucast b0 OR push_bit 8 (ucast b1)"

definition unit16_be :: "byte \<Rightarrow> byte \<Rightarrow> 16 word" where
  "unit16_be b0 b1 = push_bit 8 (ucast b0) OR ucast b1"

definition pair16 :: "16 word \<Rightarrow> 16 word \<Rightarrow> code_point" where
  "pair16 u v = 0x10000 + (push_bit 10 (ucast u - 0xD800) OR (ucast v - 0xDC00))"

fun decode_utf16 :: "(byte \<Rightarrow> byte \<Rightarrow> 16 word) \<Rightarrow> byte list \<Rightarrow> code_point list" where
  "decode_utf16 unit (b0 # b1 # r) =
     (let u = unit b0 b1 in
      if 0xD800 \<le> u \<and> u \<le> 0xDBFF then
        (case r of
           b2 # b3 # r \<Rightarrow>
             (let v = unit b2 b3 in
              if v < 0xDC00 \<or> v > 0xDFFF then 0xFFFD # decode_utf16 unit r
              else pair16 u v # decode_utf16 unit r)
         | _ \<Rightarrow> [0xFFFD])
      else if 0xDC00 \<le> u \<and> u \<le> 0xDFFF then 0xFFFD # decode_utf16 unit r
      else ucast u # decode_utf16 unit r)"
| "decode_utf16 unit _ = []"

definition unit32_le :: "byte \<Rightarrow> byte \<Rightarrow> byte \<Rightarrow> byte \<Rightarrow> code_point" where
  "unit32_le b0 b1 b2 b3 = ucast b0 OR push_bit 8 (ucast b1) OR push_bit 16 (ucast b2) OR push_bit 24 (ucast b3)"

definition unit32_be :: "byte \<Rightarrow> byte \<Rightarrow> byte \<Rightarrow> byte \<Rightarrow> code_point" where
  "unit32_be b0 b1 b2 b3 = push_bit 24 (ucast b0) OR push_bit 16 (ucast b1) OR push_bit 8 (ucast b2) OR ucast b3"

fun decode_utf32 :: "(byte \<Rightarrow> byte \<Rightarrow> byte \<Rightarrow> byte \<Rightarrow> code_point) \<Rightarrow> byte list \<Rightarrow> code_point list" where
  "decode_utf32 unit (b0 # b1 # b2 # b3 # r) =
     (let cp = unit b0 b1 b2 b3;
          cp = (if cp > 0x10FFFF \<or> surrogate cp then 0xFFFD else cp)
      in cp # decode_utf32 unit r)"
| "decode_utf32 unit _ = []"

definition decode_units :: "Encoding \<Rightarrow> byte list \<Rightarrow> code_point list" where
  "decode_units enc b =
     (case enc of
        ENC_UTF8 \<Rightarrow> decode_utf8 b | ENC_UTF8_BOM \<Rightarrow> decode_utf8 b
      | ENC_UTF16_LE \<Rightarrow> decode_utf16 unit16_le b | ENC_UTF16_LE_BOM \<Rightarrow> decode_utf16 unit16_le b
      | ENC_UTF16_BE \<Rightarrow> decode_utf16 unit16_be b | ENC_UTF16_BE_BOM \<Rightarrow> decode_utf16 unit16_be b
      | ENC_UTF32_LE \<Rightarrow> decode_utf32 unit32_le b | ENC_UTF32_LE_BOM \<Rightarrow> decode_utf32 unit32_le b
      | ENC_UTF32_BE \<Rightarrow> decode_utf32 unit32_be b | ENC_UTF32_BE_BOM \<Rightarrow> decode_utf32 unit32_be b
      | ENC_UNKNOWN \<Rightarrow> [])"

definition decode :: "byte list \<Rightarrow> Encoding \<Rightarrow> code_point list option" where
  "decode b enc = (let out = decode_units enc (skip_bom enc b) in if out = [] then None else Some out)"

section \<open>\<open>chgenc\<close>: encoding\<close>

definition emit_utf8 :: "code_point \<Rightarrow> byte list" where
  "emit_utf8 c =
     (if c \<le> 0x7F then [ucast c]
      else if c \<le> 0x7FF then [ucast (0xC0 OR drop_bit 6 c), ucast (0x80 OR (c AND 0x3F))]
      else if c \<le> 0xFFFF then
        (let c = (if surrogate c then 0xFFFD else c)
         in [ucast (0xE0 OR drop_bit 12 c), ucast (0x80 OR (drop_bit 6 c AND 0x3F)), ucast (0x80 OR (c AND 0x3F))])
      else if c \<le> 0x10FFFF then
        [ucast (0xF0 OR drop_bit 18 c), ucast (0x80 OR (drop_bit 12 c AND 0x3F)), ucast (0x80 OR (drop_bit 6 c AND 0x3F)),
         ucast (0x80 OR (c AND 0x3F))]
      else [0xEF, 0xBB, 0xBF, 0xEF, 0xBF, 0xBD])"

definition split16 :: "code_point \<Rightarrow> 16 word list" where
  "split16 c =
     (if c \<le> 0xFFFF then [ucast (if surrogate c then 0xFFFD else c)]
      else (let c = c - 0x10000 in [0xD800 + ucast (drop_bit 10 c), 0xDC00 + ucast (c AND 0x3FF)]))"

definition emit16_le :: "16 word \<Rightarrow> byte list" where
  "emit16_le u = [ucast (u AND 0xFF), ucast (drop_bit 8 u AND 0xFF)]"

definition emit16_be :: "16 word \<Rightarrow> byte list" where
  "emit16_be u = [ucast (drop_bit 8 u AND 0xFF), ucast (u AND 0xFF)]"

definition emit32_le :: "code_point \<Rightarrow> byte list" where
  "emit32_le c =
     [ucast (c AND 0xFF), ucast (drop_bit 8 c AND 0xFF), ucast (drop_bit 16 c AND 0xFF), ucast (drop_bit 24 c AND 0xFF)]"

definition emit32_be :: "code_point \<Rightarrow> byte list" where
  "emit32_be c =
     [ucast (drop_bit 24 c AND 0xFF), ucast (drop_bit 16 c AND 0xFF), ucast (drop_bit 8 c AND 0xFF), ucast (c AND 0xFF)]"

definition bom :: "Encoding \<Rightarrow> byte list" where
  "bom enc =
     (if enc = ENC_UTF8_BOM then [0xEF, 0xBB, 0xBF]
      else if enc = ENC_UTF16_LE_BOM then [0xFF, 0xFE]
      else if enc = ENC_UTF16_BE_BOM then [0xFE, 0xFF]
      else if enc = ENC_UTF32_LE_BOM then [0xFF, 0xFE, 0x00, 0x00]
      else if enc = ENC_UTF32_BE_BOM then [0x00, 0x00, 0xFE, 0xFF]
      else [])"

definition emit_item :: "Encoding \<Rightarrow> code_point \<Rightarrow> byte list" where
  "emit_item enc c =
     (case enc of
        ENC_UTF8 \<Rightarrow> emit_utf8 c | ENC_UTF8_BOM \<Rightarrow> emit_utf8 c
      | ENC_UTF16_LE \<Rightarrow> concat (map emit16_le (split16 c)) | ENC_UTF16_LE_BOM \<Rightarrow> concat (map emit16_le (split16 c))
      | ENC_UTF16_BE \<Rightarrow> concat (map emit16_be (split16 c)) | ENC_UTF16_BE_BOM \<Rightarrow> concat (map emit16_be (split16 c))
      | ENC_UTF32_LE \<Rightarrow> emit32_le c | ENC_UTF32_LE_BOM \<Rightarrow> emit32_le c
      | ENC_UTF32_BE \<Rightarrow> emit32_be c | ENC_UTF32_BE_BOM \<Rightarrow> emit32_be c
      | ENC_UNKNOWN \<Rightarrow> [])"

definition encode :: "code_point list \<Rightarrow> Encoding \<Rightarrow> byte list option" where
  "encode cps enc =
     (if enc = ENC_UNKNOWN then None
      else (let out = bom enc @ concat (map (emit_item enc) cps) in if out = [] then None else Some out))"

section \<open>\<open>chgenc\<close>: the program\<close>

record EncWorld =
  ec_files :: "string \<rightharpoonup> byte list"
  ec_writable :: "string \<Rightarrow> bool"
  ec_out :: string
  ec_err :: string

abbreviation (input) enc_eol :: string where "enc_eol \<equiv> [CHR 0x0A]"

definition enc_error :: "string \<Rightarrow> EncWorld \<Rightarrow> EncWorld" where
  "enc_error m w = w\<lparr>ec_err := ec_err w @ m @ enc_eol\<rparr>"

definition write_bytes :: "string \<Rightarrow> byte list \<Rightarrow> EncWorld \<Rightarrow> int \<times> EncWorld" where
  "write_bytes path buf w =
     (if \<not> ec_writable w path then (1, enc_error (''chgenc: cannot open output '' @ path) w)
      else (0, w\<lparr>ec_files := (ec_files w)(path \<mapsto> buf)\<rparr>))"

definition chgenc_main :: "string list \<Rightarrow> EncWorld \<Rightarrow> int \<times> EncWorld" where
  "chgenc_main argv w =
     (if length argv \<noteq> 5 then
        (1, w\<lparr>ec_out := ec_out w @ ''Usage: chgenc <input-encoding> <output-encoding> <infile> <outfile>'' @ enc_eol\<rparr>)
      else
        (let in_enc = parse_encoding (argv ! 1);
             out_enc = parse_encoding (argv ! 2)
         in if in_enc = ENC_UNKNOWN \<or> out_enc = ENC_UNKNOWN then (1, enc_error ''chgenc: unknown encoding'' w)
            else case ec_files w (argv ! 3) of
              None \<Rightarrow> (1, enc_error (''chgenc: cannot read '' @ argv ! 3) w)
            | Some buf \<Rightarrow>
                (case decode buf in_enc of
                   None \<Rightarrow> (1, enc_error ''chgenc: decode failed'' w)
                 | Some codepoints \<Rightarrow>
                     (case encode codepoints out_enc of
                        None \<Rightarrow> (1, enc_error ''chgenc: encode failed'' w)
                      | Some out \<Rightarrow> write_bytes (argv ! 4) out w))))"

section \<open>\<open>checkenc\<close>\<close>

definition utf8_need :: "byte \<Rightarrow> nat option" where
  "utf8_need c =
     (if c AND 0xE0 = 0xC0 then (if c < 0xC2 then None else Some 1)
      else if c AND 0xF0 = 0xE0 then Some 2
      else if c AND 0xF8 = 0xF0 then (if c > 0xF4 then None else Some 3)
      else None)"

definition utf8_second :: "byte \<Rightarrow> nat \<Rightarrow> byte \<Rightarrow> bool" where
  "utf8_second c need c1 =
     (if need = 2 then \<not> (c = 0xE0 \<and> c1 AND 0xE0 \<noteq> 0xA0) \<and> \<not> (c = 0xED \<and> c1 AND 0xE0 = 0xA0)
      else if need = 3 then \<not> (c = 0xF0 \<and> c1 AND 0xF0 \<noteq> 0x90) \<and> \<not> (c = 0xF4 \<and> c1 AND 0xF0 = 0xB0)
      else True)"

function is_valid_utf8 :: "byte list \<Rightarrow> bool" where
  "is_valid_utf8 [] = True"
| "is_valid_utf8 (c # r) =
     (if c < 0x80 then is_valid_utf8 r
      else case utf8_need c of
        None \<Rightarrow> False
      | Some need \<Rightarrow>
          if length r < need then False
          else if \<not> list_all continuation (take need r) then False
          else if \<not> utf8_second c need (hd r) then False
          else is_valid_utf8 (drop need r))"
  by pat_completeness auto
termination by (relation "measure length") auto

text \<open>The loops that count zero bytes at the places where an encoding has them.\<close>

fun hits4 :: "(byte \<Rightarrow> byte \<Rightarrow> byte \<Rightarrow> byte \<Rightarrow> bool) \<Rightarrow> byte list \<Rightarrow> nat" where
  "hits4 p (b0 # b1 # b2 # b3 # r) = (if p b0 b1 b2 b3 then 1 else 0) + hits4 p r"
| "hits4 p _ = 0"

fun hits2 :: "(byte \<Rightarrow> byte \<Rightarrow> bool) \<Rightarrow> byte list \<Rightarrow> nat" where
  "hits2 p (a # b # r) = (if p a b then 1 else 0) + hits2 p r"
| "hits2 p _ = 0"

definition check_bytes :: "byte list \<Rightarrow> string" where
  "check_bytes file =
     (let buf = take 8192 file; n = length buf in
      if take 3 buf = [0xEF, 0xBB, 0xBF] then ''UTF-8-BOM''
      else if take 4 buf = [0xFF, 0xFE, 0x00, 0x00] then ''UTF-32-LE-BOM''
      else if take 4 buf = [0x00, 0x00, 0xFE, 0xFF] then ''UTF-32-BE-BOM''
      else if take 2 buf = [0xFF, 0xFE] then ''UTF-16-LE-BOM''
      else if take 2 buf = [0xFE, 0xFF] then ''UTF-16-BE-BOM''
      else if length file = 0 then ''ASCII''
      else if list_all (\<lambda>b. b < 0x80) buf then ''ASCII''
      else if n \<ge> 8 \<and> hits4 (\<lambda>b0 b1 b2 b3. b1 = 0 \<and> b2 = 0 \<and> b3 = 0 \<and> b0 \<noteq> 0) buf > n div 16 then ''UTF-32-LE''
      else if n \<ge> 8 \<and> hits4 (\<lambda>b0 b1 b2 b3. b0 = 0 \<and> b1 = 0 \<and> b2 = 0 \<and> b3 \<noteq> 0) buf > n div 16 then ''UTF-32-BE''
      else if n \<ge> 4 \<and> hits2 (\<lambda>a b. b = 0 \<and> a \<noteq> 0) buf > n div 8 then ''UTF-16-LE''
      else if n \<ge> 4 \<and> hits2 (\<lambda>a b. a = 0 \<and> b \<noteq> 0) buf > n div 8 then ''UTF-16-BE''
      else if is_valid_utf8 buf then ''UTF-8''
      else ''OTHER'')"

definition checkenc_main :: "string list \<Rightarrow> EncWorld \<Rightarrow> int \<times> EncWorld" where
  "checkenc_main argv w =
     (if length argv \<noteq> 2 then (1, enc_error ''Usage: checkenc <file>'' w)
      else case ec_files w (argv ! 1) of
        None \<Rightarrow> (1, enc_error (''checkenc: cannot open '' @ argv ! 1) w)
      | Some file \<Rightarrow> (0, w\<lparr>ec_out := ec_out w @ check_bytes file @ enc_eol\<rparr>))"

end
