(* ===== verification/EncProps.thy ===== *)
theory EncProps
  imports Enc
begin

text \<open>
  The encoding tools. The locale \<open>item_code\<close> is the contract of an encoding that writes a sequence item by
  item: what is read back after an item is that item; it is interpreted on the five forms of UTF, and the round
  trips of \<open>chgenc\<close> follow. \<open>form8\<close> and \<open>accepted\<close> say what \<open>checkenc\<close> takes for UTF-8.
\<close>

unbundle bit_operations_syntax

section \<open>Bits of the constants\<close>

lemma masks:
  "(0x3F :: 'a::len word) = mask 6" "(0x1F :: 'a word) = mask 5" "(0x0F :: 'a word) = mask 4" "(0x07 :: 'a word) = mask 3"
  "(0xFF :: 'a word) = mask 8" "(0x3FF :: 'a word) = mask 10"
  by (simp_all add: mask_eq_exp_minus_1)

lemma tops:
  "(0xC0 :: 'a::len word) = push_bit 6 (mask 2)" "(0xE0 :: 'a word) = push_bit 5 (mask 3)"
  "(0xF0 :: 'a word) = push_bit 4 (mask 4)" "(0xF8 :: 'a word) = push_bit 3 (mask 5)" "(0x80 :: 'a word) = push_bit 7 (mask 1)"
  by (simp_all add: mask_eq_exp_minus_1 push_bit_eq_mult)

lemma bit_tops:
  "bit (0xC0 :: 'a::len word) n \<longleftrightarrow> (n = 6 \<or> n = 7) \<and> n < LENGTH('a)"
  "bit (0xE0 :: 'a word) n \<longleftrightarrow> (n = 5 \<or> n = 6 \<or> n = 7) \<and> n < LENGTH('a)"
  "bit (0xF0 :: 'a word) n \<longleftrightarrow> (n = 4 \<or> n = 5 \<or> n = 6 \<or> n = 7) \<and> n < LENGTH('a)"
  "bit (0xF8 :: 'a word) n \<longleftrightarrow> (n = 3 \<or> n = 4 \<or> n = 5 \<or> n = 6 \<or> n = 7) \<and> n < LENGTH('a)"
  "bit (0x80 :: 'a word) n \<longleftrightarrow> n = 7 \<and> n < LENGTH('a)"
  by (simp only: tops bit_push_bit_iff bit_mask_iff possible_bit_word, arith)+

lemma bit_masks:
  "bit (0x3F :: 'a::len word) n \<longleftrightarrow> n < 6 \<and> n < LENGTH('a)"
  "bit (0x1F :: 'a word) n \<longleftrightarrow> n < 5 \<and> n < LENGTH('a)"
  "bit (0x0F :: 'a word) n \<longleftrightarrow> n < 4 \<and> n < LENGTH('a)"
  "bit (0x07 :: 'a word) n \<longleftrightarrow> n < 3 \<and> n < LENGTH('a)"
  "bit (0xFF :: 'a word) n \<longleftrightarrow> n < 8 \<and> n < LENGTH('a)"
  "bit (0x3FF :: 'a word) n \<longleftrightarrow> n < 10 \<and> n < LENGTH('a)"
  by (simp only: masks bit_mask_iff possible_bit_word, arith)+

lemmas word_bits = bit_push_bit_iff bit_or_iff bit_and_iff bit_unsigned_iff bit_drop_bit_eq bit_tops bit_masks
  possible_bit_word o_def

lemma small_bits: "(c :: 'a::len word) < 2 ^ k \<Longrightarrow> k < LENGTH('a) \<Longrightarrow> bit c n \<Longrightarrow> n < k"
  by (metis bit_take_bit_iff less_mask_eq leD take_bit_eq_mask)

section \<open>UTF-8\<close>

abbreviation lead2 :: "code_point \<Rightarrow> byte" where "lead2 c \<equiv> ucast (0xC0 OR drop_bit 6 c)"
abbreviation lead3 :: "code_point \<Rightarrow> byte" where "lead3 c \<equiv> ucast (0xE0 OR drop_bit 12 c)"
abbreviation lead4 :: "code_point \<Rightarrow> byte" where "lead4 c \<equiv> ucast (0xF0 OR drop_bit 18 c)"
abbreviation tail8 :: "code_point \<Rightarrow> byte" where "tail8 c \<equiv> ucast (0x80 OR (c AND 0x3F))"

lemma payload_tail: "ucast (tail8 c AND 0x3F) = c AND 0x3F"
  by (rule bit_word_eqI) (simp only: word_bits, auto)

lemma payload_lead2: "ucast (lead2 c AND 0x1F) = drop_bit 6 c AND 0x1F"
  by (rule bit_word_eqI) (simp only: word_bits, auto)

lemma payload_lead3: "ucast (lead3 c AND 0x0F) = drop_bit 12 c AND 0x0F"
  by (rule bit_word_eqI) (simp only: word_bits, auto)

lemma payload_lead4: "ucast (lead4 c AND 0x07) = drop_bit 18 c AND 0x07"
  by (rule bit_word_eqI) (simp only: word_bits, auto)

lemma join2_split:
  assumes "c < 2 ^ 11"
  shows "join2 (lead2 c) (tail8 c) = c"
  unfolding join2_def payload_lead2 payload_tail
proof (rule bit_word_eqI)
  fix n
  assume n: "n < LENGTH(32)"
  have s: "bit c n \<Longrightarrow> n < 11" for n using assms by (rule small_bits) simp
  show "bit (push_bit 6 (drop_bit 6 c AND 0x1F) OR (c AND 0x3F)) n = bit c n"
    using n by (simp only: word_bits) (auto dest: s)
qed

lemma join3_split:
  assumes "c < 2 ^ 16"
  shows "join3 (lead3 c) (tail8 (drop_bit 6 c)) (tail8 c) = c"
  unfolding join3_def payload_lead3 payload_tail
proof (rule bit_word_eqI)
  fix n
  assume n: "n < LENGTH(32)"
  have s: "bit c n \<Longrightarrow> n < 16" for n using assms by (rule small_bits) simp
  consider "n < 6" | "6 \<le> n" "n < 12" | "12 \<le> n" by linarith
  then show "bit (push_bit 12 (drop_bit 12 c AND 0x0F) OR push_bit 6 (drop_bit 6 c AND 0x3F) OR (c AND 0x3F)) n = bit c n"
    by cases (use n s [of n] in \<open>simp_all only: word_bits, auto\<close>)
qed

lemma join4_split:
  assumes "c < 2 ^ 21"
  shows "join4 (lead4 c) (tail8 (drop_bit 12 c)) (tail8 (drop_bit 6 c)) (tail8 c) = c"
  unfolding join4_def payload_lead4 payload_tail
proof (rule bit_word_eqI)
  fix n
  assume n: "n < LENGTH(32)"
  have s: "bit c n \<Longrightarrow> n < 21" for n using assms by (rule small_bits) simp
  consider "n < 6" | "6 \<le> n" "n < 12" | "12 \<le> n" "n < 18" | "18 \<le> n" by linarith
  then show "bit (push_bit 18 (drop_bit 18 c AND 0x07) OR push_bit 12 (drop_bit 12 c AND 0x3F)
      OR push_bit 6 (drop_bit 6 c AND 0x3F) OR (c AND 0x3F)) n = bit c n"
    by cases (use n s [of n] in \<open>simp_all only: word_bits, auto\<close>)
qed

lemma continuation_tail8 [simp]: "continuation (tail8 c)"
  unfolding continuation_def by (rule bit_word_eqI) (simp only: word_bits, auto)

lemma lead2_class:
  assumes "c < 2 ^ 11"
  shows "lead2 c AND 0xE0 = 0xC0"
proof (rule bit_word_eqI)
  fix n
  assume n: "n < LENGTH(8)"
  have s: "bit c n \<Longrightarrow> n < 11" for n using assms by (rule small_bits) simp
  show "bit (lead2 c AND 0xE0) n = bit (0xC0 :: byte) n"
    using n by (simp only: word_bits) (auto dest!: s)
qed

lemma lead3_class:
  assumes "c < 2 ^ 16"
  shows "lead3 c AND 0xF0 = 0xE0"
proof (rule bit_word_eqI)
  fix n
  assume n: "n < LENGTH(8)"
  have s: "bit c n \<Longrightarrow> n < 16" for n using assms by (rule small_bits) simp
  show "bit (lead3 c AND 0xF0) n = bit (0xE0 :: byte) n"
    using n by (simp only: word_bits) (auto dest!: s)
qed

lemma lead4_class:
  assumes "c < 2 ^ 21"
  shows "lead4 c AND 0xF8 = 0xF0"
proof (rule bit_word_eqI)
  fix n
  assume n: "n < LENGTH(8)"
  have s: "bit c n \<Longrightarrow> n < 21" for n using assms by (rule small_bits) simp
  show "bit (lead4 c AND 0xF8) n = bit (0xF0 :: byte) n"
    using n by (simp only: word_bits) (auto dest!: s)
qed

text \<open>The classes of bytes by their numbers.\<close>

lemma unat_byte: "unat (c :: byte) < 256"
  using unsigned_less [of c] by simp

lemma unat_top:
  assumes "k < 8"
  shows "unat (push_bit k (drop_bit k c) :: byte) = unat c div 2 ^ k * 2 ^ k"
proof -
  have "unat c div 2 ^ k * 2 ^ k < 256" using unat_byte [of c] by (meson div_times_less_eq_dividend le_less_trans)
  then have "take_bit LENGTH(8) (unat c div 2 ^ k * 2 ^ k) = unat c div 2 ^ k * 2 ^ k"
    by (intro take_bit_nat_eq_self) simp
  then show ?thesis
    unfolding unsigned_push_bit_eq unat_drop_bit_eq by (simp only: push_bit_eq_mult drop_bit_eq_div)
qed

lemma and_tops:
  "(c :: byte) AND 0xC0 = push_bit 6 (drop_bit 6 c)" "c AND 0xE0 = push_bit 5 (drop_bit 5 c)"
  "c AND 0xF0 = push_bit 4 (drop_bit 4 c)" "c AND 0xF8 = push_bit 3 (drop_bit 3 c)"
  by (rule bit_word_eqI; simp only: word_bits; auto)+

lemma div_range:
  assumes "0 < k"
  shows "x div k * k = q * k \<longleftrightarrow> q * k \<le> x \<and> x < q * k + (k :: nat)"
proof -
  have "x div k * k = q * k \<longleftrightarrow> x div k = q" using assms by simp
  also have "\<dots> \<longleftrightarrow> q * k \<le> x \<and> x < Suc q * k"
    using assms by (auto intro: div_nat_eqI simp: dividend_less_times_div mult.commute [of _ k])
  finally show ?thesis by (simp add: add.commute)
qed

lemma byte_class:
  "(c :: byte) AND 0xC0 = 0x80 \<longleftrightarrow> 128 \<le> unat c \<and> unat c < 192"
  "c AND 0xE0 = 0xC0 \<longleftrightarrow> 192 \<le> unat c \<and> unat c < 224"
  "c AND 0xF0 = 0xE0 \<longleftrightarrow> 224 \<le> unat c \<and> unat c < 240"
  "c AND 0xF8 = 0xF0 \<longleftrightarrow> 240 \<le> unat c \<and> unat c < 248"
  "c AND 0xE0 = 0xA0 \<longleftrightarrow> 160 \<le> unat c \<and> unat c < 192"
  "c AND 0xF0 = 0x90 \<longleftrightarrow> 144 \<le> unat c \<and> unat c < 160"
  "c AND 0xF0 = 0xB0 \<longleftrightarrow> 176 \<le> unat c \<and> unat c < 192"
  unfolding and_tops word_unat_eq_iff
  using div_range [of 64 "unat c" 2] div_range [of 32 "unat c" 6] div_range [of 16 "unat c" 14] div_range [of 8 "unat c" 30]
    div_range [of 32 "unat c" 5] div_range [of 16 "unat c" 9] div_range [of 16 "unat c" 11]
  by (simp_all add: unat_top)

text \<open>The code points that have an encoding.\<close>

definition scalar :: "code_point \<Rightarrow> bool" where
  "scalar c \<longleftrightarrow> c \<le> 0x10FFFF \<and> \<not> surrogate c"

lemma decode_emit_utf8:
  assumes "scalar c"
  shows "decode_utf8 (emit_utf8 c @ r) = c # decode_utf8 r"
proof -
  have c: "c \<le> 0x10FFFF" "\<not> surrogate c" using assms by (simp_all add: scalar_def)
  consider "c \<le> 0x7F" | "0x7F < c" "c \<le> 0x7FF" | "0x7FF < c" "c \<le> 0xFFFF" | "0xFFFF < c" by (meson not_le)
  then show ?thesis
  proof cases
    case 1
    then have u: "unat c < 128" by (simp add: word_le_nat_alt)
    then have "c < 2 ^ 7" by (simp add: word_less_nat_alt)
    then have s: "bit c n \<Longrightarrow> n < 7" for n by (rule small_bits) simp_all
    have t: "take_bit 8 c = c" by (rule bit_word_eqI) (auto simp: bit_take_bit_iff dest: s)
    have "ucast c < (0x80 :: byte)" using le_less_trans [OF take_bit_nat_less_eq_self u, of 8] by (simp add: word_less_nat_alt unsigned_ucast_eq t)
    then have lt: "((ucast c :: byte) < 0x80) = True" by simp
    have id: "(ucast (ucast c :: byte) :: code_point) = c"
      by (rule bit_word_eqI) (auto simp: bit_unsigned_iff dest: s)
    have e: "emit_utf8 c = [ucast c]" using 1 by (simp add: emit_utf8_def)
    show ?thesis by (simp only: e append.simps decode_utf8.simps lt id if_True)
  next
    case 2
    then have b: "c < 2 ^ 11" by (simp add: word_less_nat_alt word_le_nat_alt)
    note k = lead2_class [OF b]
    have n: "(lead2 c < 0x80) = False" using k [unfolded byte_class] by (simp add: word_less_nat_alt)
    have m: "(c < 0x80) = False" using 2 by (simp add: word_less_nat_alt)
    have e: "emit_utf8 c = [lead2 c, tail8 c]" using 2 by (auto simp: emit_utf8_def)
    show ?thesis
      by (simp only: e append.simps decode_utf8.simps n k m join2_split [OF b] continuation_tail8 simp_thms if_True if_False
        list.case Let_def)
  next
    case 3
    then have b: "c < 2 ^ 16" by (simp add: word_less_nat_alt word_le_nat_alt)
    note k = lead3_class [OF b]
    have n: "(lead3 c < 0x80) = False" "(lead3 c AND 0xE0 = 0xC0) = False"
      using k unfolding byte_class by (simp_all add: word_less_nat_alt)
    have m: "(c < 0x800) = False" "surrogate c = False" using 3 c(2) by (simp_all add: word_less_nat_alt)
    have le: "(c \<le> 0x7F) = False" "(c \<le> 0x7FF) = False" "(c \<le> 0xFFFF) = True"
      using 3 by (simp_all add: word_less_nat_alt word_le_nat_alt)
    have e: "emit_utf8 c = [lead3 c, tail8 (drop_bit 6 c), tail8 c]"
      by (simp only: emit_utf8_def le m if_False if_True Let_def)
    show ?thesis
      by (simp only: e append.simps decode_utf8.simps n k m join3_split [OF b] continuation_tail8 simp_thms if_True if_False
        list.case Let_def)
  next
    case 4
    then have b: "c < 2 ^ 21" using c(1) by (simp add: word_less_nat_alt word_le_nat_alt)
    note k = lead4_class [OF b]
    have n: "(lead4 c < 0x80) = False" "(lead4 c AND 0xE0 = 0xC0) = False" "(lead4 c AND 0xF0 = 0xE0) = False"
      using k unfolding byte_class by (simp_all add: word_less_nat_alt)
    have m: "(c < 0x10000 \<or> 0x10FFFF < c) = False" using 4 c(1) by (simp add: word_less_nat_alt word_le_nat_alt)
    have le: "(c \<le> 0x7F) = False" "(c \<le> 0x7FF) = False" "(c \<le> 0xFFFF) = False" "(c \<le> 0x10FFFF) = True"
      using 4 c(1) by (simp_all add: word_less_nat_alt word_le_nat_alt)
    have e: "emit_utf8 c = [lead4 c, tail8 (drop_bit 12 c), tail8 (drop_bit 6 c), tail8 c]"
      by (simp only: emit_utf8_def le if_False if_True Let_def)
    show ?thesis
      by (simp only: e append.simps decode_utf8.simps n k m join4_split [OF b] continuation_tail8 simp_thms if_True if_False
        list.case Let_def)
  qed
qed

section \<open>UTF-16 and UTF-32\<close>

lemma unit16_split:
  "unit16_le (ucast (u AND 0xFF)) (ucast (drop_bit 8 u AND 0xFF)) = u"
  "unit16_be (ucast (drop_bit 8 u AND 0xFF)) (ucast (u AND 0xFF)) = u"
  unfolding unit16_le_def unit16_be_def by (rule bit_word_eqI; simp only: word_bits; auto)+

lemma unit32_split:
  "unit32_le (ucast (c AND 0xFF)) (ucast (drop_bit 8 c AND 0xFF)) (ucast (drop_bit 16 c AND 0xFF)) (ucast (drop_bit 24 c AND 0xFF)) = c"
  "unit32_be (ucast (drop_bit 24 c AND 0xFF)) (ucast (drop_bit 16 c AND 0xFF)) (ucast (drop_bit 8 c AND 0xFF)) (ucast (c AND 0xFF)) = c"
proof -
  have 8: "ucast (ucast (x AND 0xFF) :: byte) = x AND 0xFF" for x :: code_point
    by (rule bit_word_eqI) (simp only: word_bits, auto)
  have "(c AND 0xFF) OR push_bit 8 (drop_bit 8 c AND 0xFF) OR push_bit 16 (drop_bit 16 c AND 0xFF)
      OR push_bit 24 (drop_bit 24 c AND 0xFF) = c"
  proof (rule bit_word_eqI)
    fix n
    assume n: "n < LENGTH(32)"
    consider "n < 8" | "8 \<le> n" "n < 16" | "16 \<le> n" "n < 24" | "24 \<le> n" by linarith
    then show "bit ((c AND 0xFF) OR push_bit 8 (drop_bit 8 c AND 0xFF) OR push_bit 16 (drop_bit 16 c AND 0xFF)
        OR push_bit 24 (drop_bit 24 c AND 0xFF)) n = bit c n"
      by cases (use n in \<open>simp_all only: word_bits, auto\<close>)
  qed
  then show "unit32_le (ucast (c AND 0xFF)) (ucast (drop_bit 8 c AND 0xFF)) (ucast (drop_bit 16 c AND 0xFF)) (ucast (drop_bit 24 c AND 0xFF)) = c"
    "unit32_be (ucast (drop_bit 24 c AND 0xFF)) (ucast (drop_bit 16 c AND 0xFF)) (ucast (drop_bit 8 c AND 0xFF)) (ucast (c AND 0xFF)) = c"
    by (simp_all only: unit32_le_def unit32_be_def 8 or.commute or.left_commute)
qed

lemma decode_emit_utf32:
  assumes "scalar c"
  shows "decode_utf32 unit32_le (emit32_le c @ r) = c # decode_utf32 unit32_le r"
    and "decode_utf32 unit32_be (emit32_be c @ r) = c # decode_utf32 unit32_be r"
proof -
  have "(0x10FFFF < c \<or> surrogate c) = False" using assms by (auto simp: scalar_def)
  then show "decode_utf32 unit32_le (emit32_le c @ r) = c # decode_utf32 unit32_le r"
    "decode_utf32 unit32_be (emit32_be c @ r) = c # decode_utf32 unit32_be r"
    by (simp_all only: emit32_le_def emit32_be_def append.simps decode_utf32.simps unit32_split Let_def if_False)
qed

text \<open>The two units of a code point outside the basic plane.\<close>

lemma nat_or_shift:
  assumes "n < 2 ^ k"
  shows "push_bit k m OR n = m * 2 ^ k + (n :: nat)"
proof -
  have t: "take_bit k n = n" using assms by (simp add: take_bit_nat_eq_self)
  have "push_bit k m AND n = 0"
  proof (rule bit_eqI)
    fix i
    show "bit (push_bit k m AND n) i = bit (0 :: nat) i"
      by (subst t [symmetric]) (auto simp: bit_and_iff bit_push_bit_iff bit_take_bit_iff)
  qed
  then show ?thesis by (simp add: disjunctive_add_eq_or [symmetric] push_bit_eq_mult)
qed

lemma unat_or_shift:
  assumes "unat (y :: 'a::len word) < 2 ^ k" "unat x * 2 ^ k < 2 ^ LENGTH('a)"
  shows "unat (push_bit k x OR y) = unat x * 2 ^ k + unat y"
proof -
  have "unat (push_bit k x) = push_bit k (unat x)"
    using assms(2) unfolding unsigned_push_bit_eq by (simp only: push_bit_eq_mult take_bit_nat_eq_self)
  then show ?thesis unfolding unsigned_or_eq by (simp only: nat_or_shift [OF assms(1)])
qed

lemma unat_ucast_up: "LENGTH('a) \<le> LENGTH('b) \<Longrightarrow> unat (ucast (x :: 'a::len word) :: 'b::len word) = unat x"
proof -
  assume "LENGTH('a) \<le> LENGTH('b)"
  then have "unat x < 2 ^ LENGTH('b)" using unsigned_less [of x] by (meson le_less_trans less_le_trans one_le_numeral power_increasing)
  then show ?thesis unfolding unsigned_ucast_eq by (rule take_bit_nat_eq_self)
qed

lemma unat_pair16:
  assumes "0xD800 \<le> unat u" "unat u < 0xDC00" "0xDC00 \<le> unat v" "unat v < 0xE000"
  shows "unat (pair16 u v) = 0x10000 + (unat u - 0xD800) * 1024 + (unat v - 0xDC00)"
proof -
  have u: "unat (ucast u - 0xD800 :: code_point) = unat u - 0xD800"
    using assms(1) by (subst unat_sub) (simp_all add: word_le_nat_alt unat_ucast_up)
  have v: "unat (ucast v - 0xDC00 :: code_point) = unat v - 0xDC00"
    using assms(3) by (subst unat_sub) (simp_all add: word_le_nat_alt unat_ucast_up)
  have o: "unat (push_bit 10 (ucast u - 0xD800) OR (ucast v - 0xDC00) :: code_point) = (unat u - 0xD800) * 2 ^ 10 + (unat v - 0xDC00)"
    using assms by (subst unat_or_shift) (simp_all add: u v)
  show ?thesis
    unfolding pair16_def using assms by (subst unat_add_lem [THEN iffD1]) (simp_all add: o)
qed

lemma unat_low10: "unat (c AND 0x3FF :: code_point) = unat c mod 1024"
proof -
  have "c AND 0x3FF = take_bit 10 c" by (simp add: take_bit_eq_mask masks)
  then show ?thesis by (simp add: unsigned_take_bit_eq take_bit_nat_def del: unsigned_take_bit_eq) (simp add: unsigned_take_bit_eq take_bit_nat_def)
qed

lemma split16_pair:
  assumes "0xFFFF < unat c" "unat c \<le> 0x10FFFF"
  obtains u v where "split16 c = [u, v]" "0xD800 \<le> unat u" "unat u < 0xDC00" "0xDC00 \<le> unat v" "unat v < 0xE000" "pair16 u v = c"
proof -
  let ?c = "c - 0x10000"
  let ?u = "0xD800 + ucast (drop_bit 10 ?c) :: 16 word" and ?v = "0xDC00 + ucast (?c AND 0x3FF) :: 16 word"
  have c: "unat ?c = unat c - 0x10000" using assms by (subst unat_sub) (simp_all add: word_le_nat_alt)
  have h: "unat (drop_bit 10 ?c) = (unat c - 0x10000) div 1024" unfolding unat_drop_bit_eq c by (simp add: drop_bit_eq_div)
  have l: "unat (?c AND 0x3FF) = (unat c - 0x10000) mod 1024" by (simp only: unat_low10 c)
  have hb: "(unat c - 0x10000) div 1024 < 1024" "(unat c - 0x10000) mod 1024 < 1024" using assms by auto
  have uh: "unat (ucast (drop_bit 10 ?c) :: 16 word) = (unat c - 0x10000) div 1024"
    unfolding unsigned_ucast_eq h by (rule take_bit_nat_eq_self) (use hb in simp)
  have ul: "unat (ucast (?c AND 0x3FF) :: 16 word) = (unat c - 0x10000) mod 1024"
    unfolding unsigned_ucast_eq l by (rule take_bit_nat_eq_self) (use hb in simp)
  have u: "unat ?u = 0xD800 + (unat c - 0x10000) div 1024"
    by (subst unat_add_lem [THEN iffD1]) (use hb in \<open>simp_all add: uh\<close>)
  have v: "unat ?v = 0xDC00 + (unat c - 0x10000) mod 1024"
    by (subst unat_add_lem [THEN iffD1]) (use hb in \<open>simp_all add: ul\<close>)
  have "unat (pair16 ?u ?v) = 0x10000 + (unat c - 0x10000) div 1024 * 1024 + (unat c - 0x10000) mod 1024"
    by (subst unat_pair16) (use hb in \<open>simp_all add: u v\<close>)
  also have "\<dots> = unat c" using assms by simp
  finally have "pair16 ?u ?v = c" by (simp add: word_unat_eq_iff)
  moreover have "\<not> c \<le> 0xFFFF" using assms by (simp add: word_le_nat_alt)
  ultimately show thesis using that [of ?u ?v] u v hb by (simp add: split16_def Let_def)
qed

lemma surrogate_unat: "surrogate c \<longleftrightarrow> 0xD800 \<le> unat c \<and> unat c \<le> 0xDFFF"
  by (simp add: surrogate_def word_le_nat_alt)

lemma decode_utf16_unit:
  assumes "unit b0 b1 = u" "\<not> (0xD800 \<le> unat u \<and> unat u \<le> 0xDFFF)"
  shows "decode_utf16 unit (b0 # b1 # r) = ucast u # decode_utf16 unit r"
proof -
  have n: "(0xD800 \<le> u \<and> u \<le> 0xDBFF) = False" "(0xDC00 \<le> u \<and> u \<le> 0xDFFF) = False"
    using assms(2) by (auto simp: word_le_nat_alt)
  show ?thesis by (simp only: decode_utf16.simps assms(1) Let_def n if_False)
qed

lemma decode_utf16_pair:
  assumes "unit b0 b1 = u" "unit b2 b3 = v" "0xD800 \<le> unat u" "unat u < 0xDC00" "0xDC00 \<le> unat v" "unat v < 0xE000"
  shows "decode_utf16 unit (b0 # b1 # b2 # b3 # r) = pair16 u v # decode_utf16 unit r"
proof -
  have n: "(0xD800 \<le> u \<and> u \<le> 0xDBFF) = True" "(v < 0xDC00 \<or> 0xDFFF < v) = False"
    using assms(3-) by (auto simp: word_le_nat_alt word_less_nat_alt)
  show ?thesis by (simp only: decode_utf16.simps assms(1,2) Let_def n if_True if_False list.case)
qed

lemma decode_emit_utf16:
  assumes c: "scalar c" and unit: "\<And>u. \<exists>b0 b1. put u = [b0, b1] \<and> unit b0 b1 = u"
  shows "decode_utf16 unit (concat (map put (split16 c)) @ r) = c # decode_utf16 unit r"
proof (cases "unat c \<le> 0xFFFF")
  case True
  then have b: "c < 2 ^ 16" by (simp add: word_less_nat_alt)
  have ns: "\<not> surrogate c" using c by (simp add: scalar_def)
  have u: "unat (ucast c :: 16 word) = unat c"
    unfolding unsigned_ucast_eq by (rule take_bit_nat_eq_self) (use True in simp)
  have "split16 c = [ucast c]" using True ns by (simp add: split16_def word_le_nat_alt)
  moreover obtain b0 b1 where p: "put (ucast c) = [b0, b1]" "unit b0 b1 = ucast c" using unit by blast
  moreover have "decode_utf16 unit (b0 # b1 # r) = ucast (ucast c :: 16 word) # decode_utf16 unit r"
    by (rule decode_utf16_unit [where unit = unit, OF p(2)]) (use ns in \<open>simp add: u surrogate_unat\<close>)
  moreover have "ucast (ucast c :: 16 word) = c"
    by (simp only: word_unat_eq_iff unat_ucast_up u) (simp add: unat_ucast_up u)
  ultimately show ?thesis by simp
next
  case False
  moreover have "unat c \<le> 0x10FFFF" using c by (simp add: scalar_def word_le_nat_alt)
  ultimately obtain u v where s: "split16 c = [u, v]" "0xD800 \<le> unat u" "unat u < 0xDC00" "0xDC00 \<le> unat v"
    "unat v < 0xE000" "pair16 u v = c"
    using split16_pair [of c] by (metis not_le)
  obtain b0 b1 where p: "put u = [b0, b1]" "unit b0 b1 = u" using unit by blast
  obtain b2 b3 where q: "put v = [b2, b3]" "unit b2 b3 = v" using unit by blast
  show ?thesis using s p(1) q(1) decode_utf16_pair [where unit = unit, OF p(2) q(2) s(2-5)] by simp
qed

lemma emit16_units:
  "\<exists>b0 b1. emit16_le u = [b0, b1] \<and> unit16_le b0 b1 = u" "\<exists>b0 b1. emit16_be u = [b0, b1] \<and> unit16_be b0 b1 = u"
  by (simp_all only: emit16_le_def emit16_be_def list.inject simp_thms) (use unit16_split in blast)+

section \<open>Encodings of sequences\<close>

text \<open>An encoding that writes a sequence item by item: what is read back after an item is that item. Everything
  else follows.\<close>

locale item_code =
  fixes put :: "'c \<Rightarrow> 'b list" and get :: "'b list \<Rightarrow> 'c list" and ok :: "'c \<Rightarrow> bool"
  assumes get_Nil: "get [] = []"
    and get_put: "ok c \<Longrightarrow> get (put c @ r) = c # get r"
begin

lemma put_nonempty: "ok c \<Longrightarrow> put c \<noteq> []"
  using get_put [of c "[]"] get_Nil by auto

lemma get_puts: "list_all ok cs \<Longrightarrow> get (concat (map put cs)) = cs"
  by (induction cs) (simp_all add: get_Nil get_put)

lemma puts_inject: "list_all ok cs \<Longrightarrow> list_all ok ds \<Longrightarrow> concat (map put cs) = concat (map put ds) \<Longrightarrow> cs = ds"
  using get_puts by metis

lemma puts_nonempty: "list_all ok cs \<Longrightarrow> cs \<noteq> [] \<Longrightarrow> concat (map put cs) \<noteq> []"
  using put_nonempty by (cases cs) auto

text \<open>Bytes that begin like an item are those of a sequence that begins with it.\<close>

lemma puts_prefix:
  assumes "list_all ok cs" "ok m" "take (length (put m)) (concat (map put cs)) = put m"
  shows "cs \<noteq> [] \<and> hd cs = m"
proof -
  have "concat (map put cs) = put m @ drop (length (put m)) (concat (map put cs))"
    using assms(3) by (metis append_take_drop_id)
  then have "cs = m # get (drop (length (put m)) (concat (map put cs)))"
    using get_puts [OF assms(1)] get_put [OF assms(2)] by metis
  then show ?thesis by (metis list.distinct(1) list.sel(1))
qed

end

interpretation utf8: item_code emit_utf8 decode_utf8 scalar
  by unfold_locales (simp_all only: decode_utf8.simps decode_emit_utf8)

interpretation utf16_le: item_code "\<lambda>c. concat (map emit16_le (split16 c))" "decode_utf16 unit16_le" scalar
  by unfold_locales (simp_all only: decode_utf16.simps decode_emit_utf16 emit16_units)

interpretation utf16_be: item_code "\<lambda>c. concat (map emit16_be (split16 c))" "decode_utf16 unit16_be" scalar
  by unfold_locales (simp_all only: decode_utf16.simps decode_emit_utf16 emit16_units)

interpretation utf32_le: item_code emit32_le "decode_utf32 unit32_le" scalar
  by unfold_locales (simp_all only: decode_utf32.simps decode_emit_utf32)

interpretation utf32_be: item_code emit32_be "decode_utf32 unit32_be" scalar
  by unfold_locales (simp_all only: decode_utf32.simps decode_emit_utf32)

lemma item_code_emit: "enc \<noteq> ENC_UNKNOWN \<Longrightarrow> item_code (emit_item enc) (decode_units enc) scalar"
  using utf8.item_code_axioms utf16_le.item_code_axioms utf16_be.item_code_axioms utf32_le.item_code_axioms
    utf32_be.item_code_axioms
  by (cases enc) (simp_all add: emit_item_def [abs_def] decode_units_def [abs_def])

section \<open>Byte order marks\<close>

abbreviation has_bom :: "Encoding \<Rightarrow> bool" where
  "has_bom enc \<equiv> enc \<in> {ENC_UTF8_BOM, ENC_UTF16_LE_BOM, ENC_UTF16_BE_BOM, ENC_UTF32_LE_BOM, ENC_UTF32_BE_BOM}"

lemma emit_mark:
  "emit_utf8 0xFEFF = [0xEF, 0xBB, 0xBF]" "concat (map emit16_le (split16 0xFEFF)) = [0xFF, 0xFE]"
  "concat (map emit16_be (split16 0xFEFF)) = [0xFE, 0xFF]" "emit32_le 0xFEFF = [0xFF, 0xFE, 0x00, 0x00]"
  "emit32_be 0xFEFF = [0x00, 0x00, 0xFE, 0xFF]"
  by code_simp+

lemma skip_bom_mark: "enc \<noteq> ENC_UNKNOWN \<Longrightarrow> skip_bom enc b = skip_mark (emit_item enc 0xFEFF) b"
  by (cases enc) (simp_all add: skip_bom_def emit_item_def emit_mark)

lemma bom_mark: "bom enc = (if has_bom enc then emit_item enc 0xFEFF else [])"
  by (cases enc) (simp_all add: bom_def emit_item_def emit_mark)

lemma scalar_mark: "scalar 0xFEFF"
  by (simp add: scalar_def surrogate_def)

lemma skip_mark_append: "skip_mark m (m @ b) = b"
  by (simp add: skip_mark_def)

lemma decode_encode:
  assumes "enc \<noteq> ENC_UNKNOWN" "cps \<noteq> []" "list_all scalar cps" "has_bom enc \<or> hd cps \<noteq> 0xFEFF"
  shows "\<exists>b. encode cps enc = Some b \<and> decode b enc = Some cps"
proof -
  note c = item_code_emit [OF assms(1)]
  let ?x = "concat (map (emit_item enc) cps)"
  have ne: "?x \<noteq> []" using item_code.puts_nonempty [OF c] assms(2,3) by blast
  have "skip_bom enc (bom enc @ ?x) = ?x"
  proof (cases "has_bom enc")
    case True
    then show ?thesis using bom_mark skip_bom_mark [OF assms(1)] by (simp only: if_True skip_mark_append)
  next
    case False
    then have "take (length (emit_item enc 0xFEFF)) ?x \<noteq> emit_item enc 0xFEFF"
      using item_code.puts_prefix [OF c assms(3) scalar_mark] assms(4) by auto
    then show ?thesis using False bom_mark skip_bom_mark [OF assms(1)] by (simp add: skip_mark_def)
  qed
  then show ?thesis
    using ne item_code.get_puts [OF c assms(3)] assms(1,2) by (simp add: encode_def decode_def Let_def)
qed

section \<open>What decoding returns\<close>

lemma scalar_unat: "scalar c \<longleftrightarrow> unat c \<le> 0x10FFFF \<and> \<not> (0xD800 \<le> unat c \<and> unat c \<le> 0xDFFF)"
  by (auto simp: scalar_def surrogate_def word_le_nat_alt)

lemma scalar_replacement: "scalar 0xFFFD"
  by (simp add: scalar_def surrogate_def)

lemma unat_payload: "unat (ucast (x AND mask k :: byte) :: code_point) = unat x mod 2 ^ k"
proof -
  have "unat (ucast (x AND mask k :: byte) :: code_point) = unat (take_bit k x)"
    by (simp only: unat_ucast_up [where 'a = 8 and 'b = 32, simplified] take_bit_eq_mask)
  then show ?thesis unfolding unsigned_take_bit_eq by (simp only: take_bit_eq_mod)
qed

lemma unat_joins:
  "unat (join2 c c1) = (unat c mod 32) * 64 + unat c1 mod 64"
  "unat (join3 c c1 c2) = (unat c mod 16) * 4096 + (unat c1 mod 64) * 64 + unat c2 mod 64"
  "unat (join4 c c1 c2 c3) = (unat c mod 8) * 262144 + (unat c1 mod 64) * 4096 + (unat c2 mod 64) * 64 + unat c3 mod 64"
proof -
  define p where "p x = (ucast (x AND mask 6 :: byte) :: code_point)" for x
  have p: "unat (p x) = unat x mod 64" for x by (simp add: p_def unat_payload)
  have lt: "unat x mod 64 < 64" "unat x mod 64 \<le> 63" for x :: byte by simp_all
  have two: "unat (push_bit 6 y OR p x) = unat y * 64 + unat x mod 64" if "unat y < 2 ^ 26" for x y
    using that unat_or_shift [of "p x" 6 y] by (simp add: p)
  have three: "unat (push_bit 12 z OR push_bit 6 (p y) OR p x) = unat z * 4096 + (unat y mod 64) * 64 + unat x mod 64"
    if "unat z < 2 ^ 20" for x y z
  proof -
    have b: "unat (push_bit 6 (p y) OR p x) = (unat y mod 64) * 64 + unat x mod 64" using lt(1) [of y] by (simp add: two p)
    have "unat (push_bit 6 (p y) OR p x) < 2 ^ 12" using lt(2) [of y] lt(2) [of x] unfolding b by simp
    then have "unat (push_bit 12 z OR (push_bit 6 (p y) OR p x)) = unat z * 2 ^ 12 + unat (push_bit 6 (p y) OR p x)"
      by (rule unat_or_shift) (use that in simp)
    then show ?thesis unfolding b by (simp add: or.assoc)
  qed
  have four: "unat (push_bit 18 w OR push_bit 12 (p z) OR push_bit 6 (p y) OR p x)
      = unat w * 262144 + (unat z mod 64) * 4096 + (unat y mod 64) * 64 + unat x mod 64" if "unat w < 2 ^ 14" for x y z w
  proof -
    have b: "unat (push_bit 12 (p z) OR push_bit 6 (p y) OR p x) = (unat z mod 64) * 4096 + (unat y mod 64) * 64 + unat x mod 64"
      using lt(1) [of z] by (subst three) (simp_all add: p)
    have "unat (push_bit 12 (p z) OR push_bit 6 (p y) OR p x) < 2 ^ 18"
      using lt(2) [of z] lt(2) [of y] lt(2) [of x] unfolding b by simp
    then have "unat (push_bit 18 w OR (push_bit 12 (p z) OR push_bit 6 (p y) OR p x)) = unat w * 2 ^ 18 + unat (push_bit 12 (p z) OR push_bit 6 (p y) OR p x)"
      by (rule unat_or_shift) (use that in simp)
    then show ?thesis unfolding b by (simp add: or.assoc)
  qed
  have m: "unat (ucast (c AND mask 5) :: code_point) = unat c mod 32" "unat (ucast (c AND mask 4) :: code_point) = unat c mod 16"
    "unat (ucast (c AND mask 3) :: code_point) = unat c mod 8" by (simp_all add: unat_payload)
  have s: "unat c mod 32 < 2 ^ 26" "unat c mod 16 < 2 ^ 20" "unat c mod 8 < 2 ^ 14"
    by (rule less_le_trans [OF mod_less_divisor]; simp)+
  show "unat (join2 c c1) = (unat c mod 32) * 64 + unat c1 mod 64"
    unfolding join2_def masks p_def [symmetric] by (subst two) (simp_all only: m s)
  show "unat (join3 c c1 c2) = (unat c mod 16) * 4096 + (unat c1 mod 64) * 64 + unat c2 mod 64"
    unfolding join3_def masks p_def [symmetric] by (subst three) (simp_all only: m s)
  show "unat (join4 c c1 c2 c3) = (unat c mod 8) * 262144 + (unat c1 mod 64) * 4096 + (unat c2 mod 64) * 64 + unat c3 mod 64"
    unfolding join4_def masks p_def [symmetric] by (subst four) (simp_all only: m s)
qed

lemma scalar_small: "unat c < 0xD800 \<Longrightarrow> scalar c"
  by (simp add: scalar_unat)

lemma scalar_ucast_byte: "scalar (ucast (c :: byte))"
  using unat_byte [of c] by (simp add: scalar_small unat_ucast_up)

lemma join2_bound: "unat (join2 c c1) < 2048"
proof -
  have "unat c mod 32 \<le> 31" "unat c1 mod 64 \<le> 63" by simp_all
  then show ?thesis unfolding unat_joins by linarith
qed

lemma join3_bound: "unat (join3 c c1 c2) < 65536"
proof -
  have "unat c mod 16 \<le> 15" "unat c1 mod 64 \<le> 63" "unat c2 mod 64 \<le> 63" by simp_all
  then show ?thesis unfolding unat_joins by linarith
qed

lemma decode_utf8_scalar: "list_all scalar (decode_utf8 b)"
proof (induction b rule: decode_utf8.induct)
  case 1
  then show ?case by simp
next
  case (2 c r)
  have j2: "scalar (join2 c c1)" for c1 using join2_bound [of c c1] by (simp add: scalar_small)
  have j3: "\<not> surrogate (join3 c c1 c2) \<Longrightarrow> scalar (join3 c c1 c2)" for c1 c2
    using join3_bound [of c c1 c2] by (simp add: scalar_unat surrogate_unat)
  have j4: "\<not> (x < 0x10000 \<or> 0x10FFFF < x) \<Longrightarrow> scalar x" for x
    by (auto simp: scalar_unat word_less_nat_alt)
  show ?case
    using 2 by (auto simp: scalar_ucast_byte scalar_replacement j2 Let_def split: list.split intro: j3 j4)
qed

lemma pair16_scalar:
  assumes "0xD800 \<le> unat u" "unat u < 0xDC00" "0xDC00 \<le> unat v" "unat v < 0xE000"
  shows "scalar (pair16 u v)"
  unfolding scalar_unat unat_pair16 [OF assms] using assms by auto

lemma decode_utf16_scalar: "list_all scalar (decode_utf16 unit b)"
proof (induction unit b rule: decode_utf16.induct)
  case (1 unit b0 b1 r)
  define u where "u = unit b0 b1"
  have ub: "unat u < 65536" using unsigned_less [of u] by simp
  have one: "scalar (ucast u)" if "\<not> (0xD800 \<le> unat u \<and> unat u \<le> 0xDFFF)"
    using that ub by (simp add: scalar_unat unat_ucast_up)
  have two: "scalar (pair16 u v)" if "0xD800 \<le> u" "u \<le> 0xDBFF" "\<not> (v < 0xDC00 \<or> 0xDFFF < v)" for v
    using that by (intro pair16_scalar) (auto simp: word_le_nat_alt word_less_nat_alt)
  show ?case
    using 1 by (auto simp: scalar_replacement Let_def word_le_nat_alt simp flip: u_def split: list.split intro!: one two)
qed simp_all

lemma decode_utf32_scalar: "list_all scalar (decode_utf32 unit b)"
  by (induction unit b rule: decode_utf32.induct) (auto simp: scalar_replacement Let_def, simp_all add: scalar_def)

lemma decode_scalar: "decode b enc = Some cps \<Longrightarrow> list_all scalar cps"
  by (cases enc)
    (auto simp: decode_def decode_units_def Let_def decode_utf8_scalar decode_utf16_scalar decode_utf32_scalar split: if_splits)

section \<open>What \<open>checkenc\<close> takes for UTF-8\<close>

text \<open>The bytes of UTF-8 for a number, without its limits.\<close>

definition byte_of :: "nat \<Rightarrow> byte" where
  "byte_of n = of_nat n"

lemma unat_byte_of [simp]: "n < 256 \<Longrightarrow> unat (byte_of n) = n"
  by (simp add: byte_of_def unat_of_nat)

lemma byte_of_unat [simp]: "byte_of (unat c) = c"
  by (simp add: byte_of_def)

definition form8 :: "nat \<Rightarrow> byte list" where
  "form8 n =
     (if n < 0x80 then [byte_of n]
      else if n < 0x800 then [byte_of (192 + n div 64), byte_of (128 + n mod 64)]
      else if n < 0x10000 then [byte_of (224 + n div 4096), byte_of (128 + n div 64 mod 64), byte_of (128 + n mod 64)]
      else [byte_of (240 + n div 262144), byte_of (128 + n div 4096 mod 64), byte_of (128 + n div 64 mod 64), byte_of (128 + n mod 64)])"

definition accepted :: "nat \<Rightarrow> bool" where
  "accepted n \<longleftrightarrow> n < 0xD800 \<or> (0xE000 \<le> n \<and> n < 0x20000) \<or> (0x40000 \<le> n \<and> n < 0x130000)"

lemma byte_eq:
  "(c :: byte) = 0xE0 \<longleftrightarrow> unat c = 224" "c = 0xED \<longleftrightarrow> unat c = 237" "c = 0xF0 \<longleftrightarrow> unat c = 240" "c = 0xF4 \<longleftrightarrow> unat c = 244"
  by (simp_all add: word_unat_eq_iff)

lemma continuation_unat: "continuation c \<longleftrightarrow> 128 \<le> unat c \<and> unat c < 192"
  by (simp add: continuation_def byte_class)

lemma utf8_need_unat:
  "utf8_need c = (if 194 \<le> unat c \<and> unat c < 224 then Some 1 else if 224 \<le> unat c \<and> unat c < 240 then Some 2
     else if 240 \<le> unat c \<and> unat c < 245 then Some 3 else None)"
  by (auto simp: utf8_need_def byte_class word_less_nat_alt)

lemma utf8_second_unat:
  "utf8_second c need c1 =
     (if need = 2 then \<not> (unat c = 224 \<and> \<not> (160 \<le> unat c1 \<and> unat c1 < 192)) \<and> \<not> (unat c = 237 \<and> 160 \<le> unat c1 \<and> unat c1 < 192)
      else if need = 3 then \<not> (unat c = 240 \<and> \<not> (144 \<le> unat c1 \<and> unat c1 < 160)) \<and> \<not> (unat c = 244 \<and> 176 \<le> unat c1 \<and> unat c1 < 192)
      else True)"
  by (simp add: utf8_second_def byte_class byte_eq)

lemma valid_unat:
  "is_valid_utf8 (c # r) =
     (if unat c < 128 then is_valid_utf8 r
      else case utf8_need c of
        None \<Rightarrow> False
      | Some need \<Rightarrow> need \<le> length r \<and> list_all continuation (take need r) \<and> utf8_second c need (hd r) \<and> is_valid_utf8 (drop need r))"
  by (auto simp: word_less_nat_alt split: option.split)

lemma valid_form8:
  assumes "accepted n"
  shows "is_valid_utf8 (form8 n @ r) = is_valid_utf8 r"
proof -
  have m: "x mod 64 < 64" for x :: nat by simp
  consider "n < 0x80" | "0x80 \<le> n" "n < 0x800" | "0x800 \<le> n" "n < 0x10000" | "0x10000 \<le> n" "n < 0x130000"
    using assms unfolding accepted_def by linarith
  then show ?thesis
  proof cases
    case 1
    then show ?thesis by (simp add: form8_def valid_unat del: is_valid_utf8.simps)
  next
    case 2
    then have "2 \<le> n div 64" "n div 64 < 32" by auto
    then show ?thesis using 2 m [of n]
      by (simp add: form8_def valid_unat utf8_need_unat utf8_second_unat continuation_unat del: is_valid_utf8.simps)
  next
    case 3
    have d: "n div 4096 < 16" using 3 by auto
    have h: "n div 64 = n div 4096 * 64 + n div 64 mod 64" using div_mult2_eq [of n 64 64] by simp
    have "32 \<le> n div 64" using 3 by auto
    then have e: "0 < n div 4096 \<or> 32 \<le> n div 64 mod 64" using h by linarith
    have "n < 0xD800 \<Longrightarrow> n div 64 < 864" "0xE000 \<le> n \<Longrightarrow> 14 \<le> n div 4096" by auto
    then have g: "n div 4096 = 13 \<Longrightarrow> n div 64 mod 64 < 32" using assms 3 h unfolding accepted_def by auto
    show ?thesis using 3 d e g m [of n] m [of "n div 64"]
      by (auto simp add: form8_def valid_unat utf8_need_unat utf8_second_unat continuation_unat numeral_2_eq_2 simp del: is_valid_utf8.simps)
  next
    case 4
    have d: "n div 262144 < 5" using 4 by auto
    have h: "n div 4096 = n div 262144 * 64 + n div 4096 mod 64" using div_mult2_eq [of n 4096 64] by simp
    have "n div 4096 < 304" "n < 0x20000 \<Longrightarrow> n div 4096 < 32" "16 \<le> n div 4096" "0x40000 \<le> n \<Longrightarrow> 0 < n div 262144"
      using 4 by auto
    then have e: "0 < n div 262144 \<or> 16 \<le> n div 4096 mod 64 \<and> n div 4096 mod 64 < 32"
      and g: "n div 262144 = 4 \<Longrightarrow> n div 4096 mod 64 < 48"
      using h assms 4 unfolding accepted_def by linarith+
    show ?thesis using 4 d e g m [of n] m [of "n div 64"] m [of "n div 4096"]
      by (auto simp add: form8_def valid_unat utf8_need_unat utf8_second_unat continuation_unat numeral_3_eq_3 simp del: is_valid_utf8.simps)
  qed
qed

lemma unat_from: "k \<le> unat c \<Longrightarrow> unat c < k + m \<Longrightarrow> \<exists>x. unat c = k + x \<and> x < m \<and> c = byte_of (k + x)"
  by (metis add_less_cancel_left byte_of_unat le_add_diff_inverse)

lemma digits64: "x < 64 \<Longrightarrow> (q * 64 + x) div 64 = (q :: nat)" "x < 64 \<Longrightarrow> (q * 64 + x) mod 64 = (x :: nat)"
  by auto

lemma valid_begins:
  assumes "is_valid_utf8 (c # r)"
  shows "\<exists>n r'. accepted n \<and> c # r = form8 n @ r' \<and> is_valid_utf8 r' \<and> length r' < length (c # r)"
proof (cases "unat c < 128")
  case True
  then have "accepted (unat c)" "form8 (unat c) = [c]" by (simp_all add: accepted_def form8_def)
  then show ?thesis using assms True unfolding valid_unat by fastforce
next
  case False
  then obtain need where need: "utf8_need c = Some need" "need \<le> length r" "list_all continuation (take need r)"
    "utf8_second c need (hd r)" "is_valid_utf8 (drop need r)"
    using assms unfolding valid_unat by (auto split: option.splits)
  then consider "need = 1" "194 \<le> unat c" "unat c < 224" | "need = 2" "224 \<le> unat c" "unat c < 240"
    | "need = 3" "240 \<le> unat c" "unat c < 245"
    unfolding utf8_need_unat by (auto split: if_splits)
  then show ?thesis
  proof cases
    case 1
    then obtain c1 r' where r: "r = c1 # r'" using need(2) by (cases r) auto
    have c1: "128 \<le> unat c1" "unat c1 < 192" using need(3) 1 r by (simp_all add: continuation_unat)
    obtain q where q: "unat c = 192 + q" "q < 32" "c = byte_of (192 + q)" using unat_from [of 192 c 32] 1 by auto
    obtain x where x: "unat c1 = 128 + x" "x < 64" "c1 = byte_of (128 + x)" using unat_from [of 128 c1 64] c1 by auto
    define n where "n = q * 64 + x"
    have n: "n div 64 = q" "n mod 64 = x" using x digits64 by (simp_all add: n_def)
    have b: "128 \<le> n" "n < 2048" using 1 q x unfolding n_def by linarith+
    have "form8 n = [c, c1]" using b n q x by (simp add: form8_def)
    moreover have "accepted n" using b by (simp add: accepted_def)
    ultimately show ?thesis using r need(5) 1 by auto
  next
    case 2
    then obtain c1 c2 r' where r: "r = c1 # c2 # r'" using need(2) by (cases r; cases "tl r") auto
    have c1: "128 \<le> unat c1" "unat c1 < 192" "128 \<le> unat c2" "unat c2 < 192"
      using need(3) 2 r by (simp_all add: continuation_unat numeral_2_eq_2)
    have s: "unat c = 224 \<Longrightarrow> 160 \<le> unat c1" "unat c = 237 \<Longrightarrow> unat c1 < 160"
      using need(4) 2 r c1 by (auto simp: utf8_second_unat)
    obtain q where q: "unat c = 224 + q" "q < 16" "c = byte_of (224 + q)" using unat_from [of 224 c 16] 2 by auto
    obtain x where x: "unat c1 = 128 + x" "x < 64" "c1 = byte_of (128 + x)" using unat_from [of 128 c1 64] c1 by auto
    obtain y where y: "unat c2 = 128 + y" "y < 64" "c2 = byte_of (128 + y)" using unat_from [of 128 c2 64] c1 by auto
    define n where "n = (q * 64 + x) * 64 + y"
    have n: "n div 64 = q * 64 + x" "n mod 64 = y" unfolding n_def using digits64 [OF y(2)] by blast+
    have n2: "n div 4096 = q" "n div 64 mod 64 = x"
      using n x digits64 div_mult2_eq [of n 64 64] by simp_all
    have b: "2048 \<le> n" "n < 65536" using q x y s(1) unfolding n_def by (cases "q = 0"; simp; linarith)+
    have e: "\<not> (0xD800 \<le> n \<and> n < 0xE000)"
    proof
      assume a: "0xD800 \<le> n \<and> n < 0xE000"
      have "q * 4096 \<le> n" "n < q * 4096 + 4096" using x(2) y(2) unfolding n_def by simp_all
      then have "q = 13" using a by linarith
      moreover from this have "32 \<le> x" using a y(2) unfolding n_def by simp
      ultimately have "q = 13" "32 \<le> x" by blast+
      then show False using s(2) q x by simp
    qed
    have "form8 n = [c, c1, c2]" using b n n2 q x y by (simp add: form8_def)
    moreover have "accepted n" using b e by (auto simp: accepted_def)
    ultimately show ?thesis using r need(5) 2 by (auto simp: numeral_2_eq_2)
  next
    case 3
    then obtain c1 c2 c3 r' where r: "r = c1 # c2 # c3 # r'" using need(2) by (cases r; cases "tl r"; cases "tl (tl r)") auto
    have c1: "128 \<le> unat c1" "unat c1 < 192" "128 \<le> unat c2" "unat c2 < 192" "128 \<le> unat c3" "unat c3 < 192"
      using need(3) 3 r by (simp_all add: continuation_unat numeral_3_eq_3)
    have s: "unat c = 240 \<Longrightarrow> 144 \<le> unat c1 \<and> unat c1 < 160" "unat c = 244 \<Longrightarrow> unat c1 < 176"
      using need(4) 3 r c1 by (auto simp: utf8_second_unat)
    obtain q where q: "unat c = 240 + q" "q < 5" "c = byte_of (240 + q)" using unat_from [of 240 c 5] 3 by auto
    obtain x where x: "unat c1 = 128 + x" "x < 64" "c1 = byte_of (128 + x)" using unat_from [of 128 c1 64] c1 by auto
    obtain y where y: "unat c2 = 128 + y" "y < 64" "c2 = byte_of (128 + y)" using unat_from [of 128 c2 64] c1 by auto
    obtain z where z: "unat c3 = 128 + z" "z < 64" "c3 = byte_of (128 + z)" using unat_from [of 128 c3 64] c1 by auto
    define n where "n = ((q * 64 + x) * 64 + y) * 64 + z"
    have n: "n div 64 = (q * 64 + x) * 64 + y" "n mod 64 = z" unfolding n_def using digits64 [OF z(2)] by blast+
    have "n div 4096 = n div 64 div 64" "n div 262144 = n div 4096 div 64"
      using div_mult2_eq [of n 64 64] div_mult2_eq [of n 4096 64] by simp_all
    then have n2: "n div 4096 = q * 64 + x" "n div 64 mod 64 = y" "n div 262144 = n div 4096 div 64"
      unfolding n(1) using digits64 [OF y(2)] by metis+
    have n3: "n div 262144 = q" "n div 4096 mod 64 = x"
      unfolding n2(3) unfolding n2(1) using digits64 [OF x(2)] by blast+
    have b: "(0x10000 \<le> n \<and> n < 0x20000) \<or> (0x40000 \<le> n \<and> n < 0x130000)"
    proof -
      consider "q = 0" | "q = 4" | "1 \<le> q" "q \<le> 3" using q(2) by linarith
      then show ?thesis
      proof cases
        case 1
        then show ?thesis using s(1) q x y z unfolding n_def by simp
      next
        case 2
        then show ?thesis using s(2) q x y z unfolding n_def by simp
      next
        case 3
        moreover have "n = q * 262144 + x * 4096 + y * 64 + z" unfolding n_def by simp
        ultimately have "0x40000 \<le> n" "n < 0x100000" using x(2) y(2) z(2) by linarith+
        then show ?thesis by simp
      qed
    qed
    then have "form8 n = [c, c1, c2, c3]" using n n2 n3 q x y z by (auto simp: form8_def)
    moreover have "accepted n" using b by (auto simp: accepted_def)
    ultimately show ?thesis using r need(5) 3 by (auto simp: numeral_3_eq_3)
  qed
qed


text \<open>C34. The test of \<open>checkenc\<close> takes a sequence of bytes for UTF-8 exactly when it is a concatenation of the forms
  of numbers it accepts; these are the scalar values but \<open>U+20000\<close> to \<open>U+3FFFF\<close>, and the numbers from
  \<open>U+110000\<close> to \<open>U+12FFFF\<close>, which are none.\<close>

theorem valid_utf8_is:
  "is_valid_utf8 b \<longleftrightarrow> (\<exists>ns. list_all accepted ns \<and> b = concat (map form8 ns))"
proof
  show "\<exists>ns. list_all accepted ns \<and> b = concat (map form8 ns)" if "is_valid_utf8 b"
    using that
  proof (induction b rule: length_induct)
    case (1 b)
    show ?case
    proof (cases b)
      case Nil
      then show ?thesis by (intro exI [of _ "[]"]) simp
    next
      case (Cons c r)
      have "is_valid_utf8 (c # r)" using 1(2) unfolding Cons .
      then obtain n r' where n: "accepted n" "b = form8 n @ r'" "is_valid_utf8 r'" "length r' < length b"
        using valid_begins Cons by blast
      then obtain ns where "list_all accepted ns" "r' = concat (map form8 ns)" using 1(1) by blast
      then show ?thesis using n by (intro exI [of _ "n # ns"]) simp
    qed
  qed
next
  assume "\<exists>ns. list_all accepted ns \<and> b = concat (map form8 ns)"
  then obtain ns where "list_all accepted ns" "b = concat (map form8 ns)" by blast
  then show "is_valid_utf8 b"
    by (induction ns arbitrary: b) (auto simp: valid_form8 simp del: is_valid_utf8.simps(2))
qed

section \<open>The programs\<close>

text \<open>C32. A file that \<open>chgenc\<close> has converted from one known encoding to another, and back, holds the bytes it held at
  first, when these encode a sequence of scalar values, not empty and not beginning with a byte order mark.\<close>

theorem chgenc_roundtrip:
  assumes "parse_encoding n1 \<noteq> ENC_UNKNOWN" "parse_encoding n2 \<noteq> ENC_UNKNOWN"
    "cps \<noteq> []" "list_all scalar cps" "hd cps \<noteq> 0xFEFF"
    "encode cps (parse_encoding n1) = Some b" "ec_files w a = Some b" "ec_writable w c" "ec_writable w d"
  shows "\<exists>w1 w2. chgenc_main [p, n1, n2, a, c] w = (0, w1) \<and> chgenc_main [q, n2, n1, c, d] w1 = (0, w2)
           \<and> ec_files w2 d = Some b"
proof -
  have d1: "decode b (parse_encoding n1) = Some cps"
    using decode_encode [OF assms(1,3,4)] assms(5,6) by auto
  obtain b2 where b2: "encode cps (parse_encoding n2) = Some b2" "decode b2 (parse_encoding n2) = Some cps"
    using decode_encode [OF assms(2,3,4)] assms(5) by auto
  let ?w1 = "w\<lparr>ec_files := (ec_files w)(c \<mapsto> b2)\<rparr>"
  let ?w2 = "?w1\<lparr>ec_files := (ec_files ?w1)(d \<mapsto> b)\<rparr>"
  have "chgenc_main [p, n1, n2, a, c] w = (0, ?w1)"
    using assms d1 b2(1) by (simp add: chgenc_main_def write_bytes_def)
  moreover have "chgenc_main [q, n2, n1, c, d] ?w1 = (0, ?w2)"
    using assms b2 by (simp add: chgenc_main_def write_bytes_def)
  ultimately show ?thesis by (intro exI [of _ ?w1] exI [of _ ?w2]) simp
qed

text \<open>C33. Whatever the input file holds, what a successful \<open>chgenc\<close> writes is the byte order mark of the target and the
  items of Unicode scalar values: no surrogate and nothing above \<open>U+10FFFF\<close>.\<close>

theorem chgenc_writes_scalars:
  assumes "chgenc_main [p, n1, n2, a, c] w = (0, w1)"
  shows "\<exists>cps. list_all scalar cps \<and> ec_files w1 c = Some (bom (parse_encoding n2) @ concat (map (emit_item (parse_encoding n2)) cps))"
proof -
  obtain b cps out where "ec_files w a = Some b" and d: "decode b (parse_encoding n1) = Some cps"
    and e: "encode cps (parse_encoding n2) = Some out" "ec_files w1 c = Some out"
    using assms by (auto simp: chgenc_main_def write_bytes_def Let_def split: if_splits option.splits)
  then have "out = bom (parse_encoding n2) @ concat (map (emit_item (parse_encoding n2)) cps)"
    by (auto simp: encode_def Let_def split: if_splits)
  then show ?thesis using decode_scalar [OF d] e(2) by blast
qed

lemma split16_nonzero:
  assumes "scalar c" "c \<noteq> 0"
  shows "\<exists>u us. split16 c = u # us \<and> u \<noteq> 0"
proof (cases "unat c \<le> 0xFFFF")
  case True
  have u: "unat (ucast c :: 16 word) = unat c"
    unfolding unsigned_ucast_eq by (rule take_bit_nat_eq_self) (use True in simp)
  have "split16 c = [ucast c]" using True assms(1) by (simp add: split16_def word_le_nat_alt scalar_def)
  moreover have "unat c \<noteq> 0" using assms(2) by (simp add: unat_eq_0)
  then have "(ucast c :: 16 word) \<noteq> 0" using u by (metis unsigned_0)
  ultimately show ?thesis by blast
next
  case False
  then have "0xFFFF < unat c" "unat c \<le> 0x10FFFF" using assms(1) by (auto simp: scalar_unat)
  then obtain u v where "split16 c = [u, v]" "0xD800 \<le> unat u" by (rule split16_pair)
  then show ?thesis by (intro exI [of _ u]) auto
qed

lemma take_mark: "length m = k \<Longrightarrow> k \<le> 8192 \<Longrightarrow> take k (take 8192 (m @ x)) = m"
  by simp

text \<open>\<open>checkenc\<close> names the encoding of every text encoded with a byte order mark, unless a text in
  little-endian UTF-16 begins with \<open>U+0000\<close>.\<close>

theorem checkenc_recognises_marks:
  assumes "has_bom (parse_encoding n)" "list_all scalar cps" "parse_encoding n = ENC_UTF16_LE_BOM \<Longrightarrow> cps = [] \<or> hd cps \<noteq> 0"
    "encode cps (parse_encoding n) = Some b"
  shows "check_bytes b = n"
proof -
  let ?enc = "parse_encoding n"
  obtain x where x: "x = concat (map (emit_item ?enc) cps)" "b = bom ?enc @ x"
    using assms(4) by (auto simp: encode_def Let_def split: if_splits)
  consider "n = ''UTF-8-BOM''" | "n = ''UTF-16-LE-BOM''" | "n = ''UTF-16-BE-BOM''" | "n = ''UTF-32-LE-BOM''" | "n = ''UTF-32-BE-BOM''"
    using assms(1) by (auto simp: parse_encoding_def starts_with_def split: if_splits)
  then show ?thesis
  proof cases
    case 1
    then show ?thesis using x(2) by (simp add: check_bytes_def parse_encoding_def starts_with_def bom_def)
  next
    case 2
    then have e: "?enc = ENC_UTF16_LE_BOM" by (simp add: parse_encoding_def starts_with_def)
    have "take 2 x \<noteq> [0, 0]"
    proof (cases cps)
      case Nil
      then show ?thesis using x(1) by simp
    next
      case (Cons c cs)
      then obtain u us where "split16 c = u # us" "u \<noteq> 0" using split16_nonzero [of c] assms(2,3) e by auto
      moreover from this have "emit16_le u \<noteq> [0, 0]" using unit16_split(1) [of u] by (auto simp: emit16_le_def unit16_le_def)
      ultimately show ?thesis using x(1) Cons e by (simp add: emit_item_def emit16_le_def)
    qed
    then show ?thesis using x(2) e 2 by (simp add: check_bytes_def bom_def)
  next
    case 3
    then show ?thesis using x(2) by (simp add: check_bytes_def parse_encoding_def starts_with_def bom_def)
  next
    case 4
    then show ?thesis using x(2) by (simp add: check_bytes_def parse_encoding_def starts_with_def bom_def)
  next
    case 5
    then show ?thesis using x(2) by (simp add: check_bytes_def parse_encoding_def starts_with_def bom_def)
  qed
qed


section \<open>Witnesses\<close>

definition enc_world :: "byte list \<Rightarrow> EncWorld" where
  "enc_world b = \<lparr>ec_files = [''a'' \<mapsto> b], ec_writable = (\<lambda>_. True), ec_out = [], ec_err = []\<rparr>"

lemma euro_utf8: "encode [0x20AC] ENC_UTF8 = Some [0xE2, 0x82, 0xAC]"
  by code_simp

theorem chgenc_roundtrip_witness:
  "\<exists>w1 w2. chgenc_main [''chgenc'', ''UTF-8'', ''UTF-16-LE-BOM'', ''a'', ''c''] (enc_world [0xE2, 0x82, 0xAC]) = (0, w1)
     \<and> chgenc_main [''chgenc'', ''UTF-16-LE-BOM'', ''UTF-8'', ''c'', ''d''] w1 = (0, w2) \<and> ec_files w2 ''d'' = Some [0xE2, 0x82, 0xAC]"
  by (rule chgenc_roundtrip [of "''UTF-8''" _ "[0x20AC]"])
    (simp_all add: parse_encoding_def starts_with_def euro_utf8 enc_world_def scalar_def surrogate_def)

theorem chgenc_writes_scalars_witness:
  "\<exists>w1 cps. chgenc_main [''chgenc'', ''UTF-8'', ''UTF-8'', ''a'', ''c''] (enc_world [0xFF]) = (0, w1)
     \<and> list_all scalar cps \<and> ec_files w1 ''c'' = Some (bom ENC_UTF8 @ concat (map (emit_item ENC_UTF8) cps))"
proof -
  have d: "decode [0xFF] ENC_UTF8 = Some [0xFFFD]" by code_simp
  have e: "encode [0xFFFD] ENC_UTF8 = Some [0xEF, 0xBF, 0xBD]" by code_simp
  have p: "parse_encoding ''UTF-8'' = ENC_UTF8" by (simp add: parse_encoding_def starts_with_def)
  obtain w1 where w1: "chgenc_main [''chgenc'', ''UTF-8'', ''UTF-8'', ''a'', ''c''] (enc_world [0xFF]) = (0, w1)"
    using d e by (simp add: chgenc_main_def p enc_world_def write_bytes_def)
  show ?thesis using w1 chgenc_writes_scalars [OF w1] p by auto
qed

theorem checkenc_recognises_marks_witness:
  "check_bytes [0xFF, 0xFE, 0x41, 0x00] = ''UTF-16-LE-BOM''"
proof -
  have p: "parse_encoding ''UTF-16-LE-BOM'' = ENC_UTF16_LE_BOM" by (simp add: parse_encoding_def starts_with_def)
  have e: "encode [0x41] ENC_UTF16_LE_BOM = Some [0xFF, 0xFE, 0x41, 0x00]" by code_simp
  show ?thesis
    by (rule checkenc_recognises_marks [of _ "[0x41]"]) (simp_all add: p e scalar_def surrogate_def)
qed

end
