(* ===== verification/Fnv.thy ===== *)
theory Fnv
  imports Prelude
begin

unbundle bit_operations_syntax

text \<open>
  The file hash tools \<open>level1/fnvtest.c\<close> and \<open>level1/fnvupdate.c\<close>, which keep a database of FNV-1a hashes in
  \<open>file_hash.dat\<close>. A file is its list of characters; the database is a file like the others. The text of the
  current time, \<open>get_iso_time\<close>, is an argument. \<open>tmpfile\<close>, and reading and writing open files, succeed;
  \<open>fw_creatable\<close> says whether \<open>file_hash.dat\<close> can be opened for writing. Lines are read into 1024 bytes
  (\<open>chunks\<close>), and a line is a C string, which ends at a NUL.
\<close>

record FnvWorld =
  fw_files :: "string \<rightharpoonup> string"
  fw_creatable :: bool
  fw_out :: string
  fw_err :: string

abbreviation (input) fnv_eol :: string where "fnv_eol \<equiv> [CHR 0x0A]"
abbreviation (input) dquote :: char where "dquote \<equiv> CHR 0x22"
abbreviation (input) hash_db :: string where "hash_db \<equiv> ''file_hash.dat''"

section \<open>The hash\<close>

fun fnv1a :: "32 word \<Rightarrow> string \<Rightarrow> 32 word" where
  "fnv1a hash [] = hash"
| "fnv1a hash (c # fp) = fnv1a ((hash XOR of_nat (code c)) * 16777619) fp"

definition fnv1a_hash_file :: "(string \<rightharpoonup> string) \<Rightarrow> string \<Rightarrow> 32 word" where
  "fnv1a_hash_file files filename = (case files filename of None \<Rightarrow> 0 | Some fp \<Rightarrow> fnv1a 2166136261 fp)"

text \<open>\<open>%08x\<close>.\<close>

definition hex_digit :: "32 word \<Rightarrow> char" where
  "hex_digit d = (let n = unat d mod 16 in char_of (if n < 10 then 48 + n else 87 + n))"

definition hex08 :: "32 word \<Rightarrow> string" where
  "hex08 w = map (\<lambda>k. hex_digit (drop_bit (4 * k) w AND 15)) [7, 6, 5, 4, 3, 2, 1, 0]"

section \<open>Entries of the database\<close>

text \<open>\<open>sscanf\<close> with the format of an entry, \<open>"\<close>\<open>%511[^"]" %8s %19s\<close>: the three fields when all are there.\<close>

definition scan_word :: "nat \<Rightarrow> string \<Rightarrow> (string \<times> string) option" where
  "scan_word n s =
     (let s = dropWhile isspace s; w = takeWhile (\<lambda>c. \<not> isspace c) (take n s)
      in if w = [] then None else Some (w, drop (length w) s))"

definition scan_entry :: "string \<Rightarrow> (string \<times> string \<times> string) option" where
  "scan_entry line =
     (if line = [] \<or> hd line \<noteq> dquote then None
      else
        (let s = tl line; name = takeWhile (\<lambda>c. c \<noteq> dquote) (take 511 s); s = drop (length name) s
         in if name = [] \<or> s = [] \<or> hd s \<noteq> dquote then None
            else do {
              (hash, s) \<leftarrow> scan_word 8 (tl s);
              (time, s) \<leftarrow> scan_word 19 s;
              Some (name, hash, time) }))"

definition entry_line :: "string \<Rightarrow> string \<Rightarrow> string \<Rightarrow> string" where
  "entry_line filename hash time = [dquote] @ filename @ [dquote] @ '' '' @ hash @ '' '' @ time @ fnv_eol"

definition stored_lines :: "string \<Rightarrow> string list" where
  "stored_lines db = map (takeWhile (\<lambda>c. c \<noteq> NUL)) (chunks 1024 db)"

section \<open>\<open>fnvtest\<close>\<close>

definition fnvtest_help :: string where
  "fnvtest_help = ''Usage: fnvtest [options] filename'' @ fnv_eol
     @ ''Compute FNV-1a hash of a file and compare with file_hash.dat.'' @ fnv_eol
     @ ''Options:'' @ fnv_eol @ ''  -h, --help  Display this help message'' @ fnv_eol
     @ ''Returns 0 if hash matches stored value, 1 if changed or new (updates file_hash.dat).'' @ fnv_eol"

definition fnvtest_error :: "string \<Rightarrow> bool \<Rightarrow> FnvWorld \<Rightarrow> int \<times> FnvWorld" where
  "fnvtest_error m help w =
     (1, w\<lparr>fw_err := fw_err w @ m @ fnv_eol, fw_out := fw_out w @ (if help then fnvtest_help else [])\<rparr>)"

text \<open>The argument loop: an exit, or the file name.\<close>

fun fnvtest_args :: "string list \<Rightarrow> string option \<Rightarrow> FnvWorld \<Rightarrow> (int \<times> FnvWorld) + string option" where
  "fnvtest_args [] filename w = Inr filename"
| "fnvtest_args (a # as) filename w =
     (if a = ''-h'' \<or> a = ''--help'' then Inl (0, w\<lparr>fw_out := fw_out w @ fnvtest_help\<rparr>)
      else if filename = None then fnvtest_args as (Some a) w
      else Inl (fnvtest_error ''Error: Too many arguments'' True w))"

text \<open>The loop over the database: \<^const>\<open>Inl\<close> the temporary file when the stored hash is the current one,
  \<^const>\<open>Inr\<close> the temporary file at the end.\<close>

fun fnvtest_lines :: "string \<Rightarrow> string \<Rightarrow> string list \<Rightarrow> string \<Rightarrow> string + string" where
  "fnvtest_lines filename hash [] temp = Inr temp"
| "fnvtest_lines filename hash (line # ls) temp =
     (case scan_entry line of
        Some (stored_filename, stored_hash, stored_time) \<Rightarrow>
          (if stored_filename = filename then
             (if stored_hash = hash then Inl (temp @ line @ concat ls)
              else fnvtest_lines filename hash ls temp)
           else fnvtest_lines filename hash ls (temp @ line))
      | None \<Rightarrow> fnvtest_lines filename hash ls (temp @ line))"

text \<open>Without a truncation the new text covers the beginning of the old one.\<close>

definition overwrite :: "string \<Rightarrow> string \<Rightarrow> string" where
  "overwrite old new = new @ drop (length new) old"

definition fnvtest_main :: "string \<Rightarrow> string list \<Rightarrow> FnvWorld \<Rightarrow> int \<times> FnvWorld" where
  "fnvtest_main time argv w =
     (if length argv < 2 then fnvtest_error ''Error: No filename provided'' True w
      else case fnvtest_args (tl argv) None w of
        Inl r \<Rightarrow> r
      | Inr name \<Rightarrow>
          (let filename = (case name of None \<Rightarrow> [] | Some f \<Rightarrow> f);
               current_hash = fnv1a_hash_file (fw_files w) filename
           in if current_hash = 0 then
                fnvtest_error (''Error: Cannot open file '' @ [CHR 0x27] @ filename @ [CHR 0x27]) False w
              else if \<not> fw_creatable w then fnvtest_error ''Error: Cannot create file_hash.dat'' False w
              else
                (let hash = hex08 current_hash;
                     db = (case fw_files w hash_db of None \<Rightarrow> [] | Some d \<Rightarrow> d)
                 in case fnvtest_lines filename hash (stored_lines db) [] of
                      Inl temp \<Rightarrow> (0, w\<lparr>fw_files := (fw_files w)(hash_db \<mapsto> overwrite db (concat (stored_lines temp)))\<rparr>)
                    | Inr temp \<Rightarrow>
                        (1, w\<lparr>fw_files := (fw_files w)(hash_db \<mapsto>
                              concat (stored_lines (temp @ entry_line filename hash time)))\<rparr>))))"

section \<open>\<open>fnvupdate\<close>\<close>

definition fnvupdate_help :: string where
  "fnvupdate_help = ''Usage: fnvupdate [options]'' @ fnv_eol
     @ ''Update file_hash.dat by recomputing FNV-1a hashes for listed files.'' @ fnv_eol
     @ ''Options:'' @ fnv_eol @ ''  -h, --help  Display this help message'' @ fnv_eol
     @ ''Updates entries if hashes change, removes entries for missing files.'' @ fnv_eol"

text \<open>One line of the database, and whether it was changed.\<close>

definition update_line :: "(string \<rightharpoonup> string) \<Rightarrow> string \<Rightarrow> string \<Rightarrow> string \<times> bool" where
  "update_line files time line =
     (case scan_entry line of
        None \<Rightarrow> (line, False)
      | Some (stored_filename, stored_hash, stored_time) \<Rightarrow>
          (let current_hash = fnv1a_hash_file files stored_filename in
           if current_hash = 0 then ([], True)
           else if stored_hash = hex08 current_hash then (line, False)
           else (entry_line stored_filename (hex08 current_hash) time, True)))"

fun update_lines :: "(string \<rightharpoonup> string) \<Rightarrow> string \<Rightarrow> string list \<Rightarrow> string \<times> bool \<Rightarrow> string \<times> bool" where
  "update_lines files time [] (temp, modified) = (temp, modified)"
| "update_lines files time (line # ls) (temp, modified) =
     (let (l, m) = update_line files time line in update_lines files time ls (temp @ l, modified \<or> m))"

definition fnvupdate_main :: "string \<Rightarrow> string list \<Rightarrow> FnvWorld \<Rightarrow> int \<times> FnvWorld" where
  "fnvupdate_main time argv w =
     (if 2 \<le> length argv then
        (if argv ! 1 = ''-h'' \<or> argv ! 1 = ''--help'' then (0, w\<lparr>fw_out := fw_out w @ fnvupdate_help\<rparr>)
         else (1, w\<lparr>fw_err := fw_err w @ ''Error: Unexpected argument '' @ [CHR 0x27] @ argv ! 1 @ [CHR 0x27] @ fnv_eol,
                     fw_out := fw_out w @ fnvupdate_help\<rparr>))
      else case fw_files w hash_db of
        None \<Rightarrow> (1, w\<lparr>fw_err := fw_err w @ ''Error: Cannot open file_hash.dat (may not exist)'' @ fnv_eol\<rparr>)
      | Some db \<Rightarrow>
          (let (temp, modified) = update_lines (fw_files w) time (stored_lines db) ([], False)
           in if \<not> modified then (0, w)
              else if \<not> fw_creatable w then
                (1, w\<lparr>fw_err := fw_err w @ ''Error: Cannot rewrite file_hash.dat'' @ fnv_eol\<rparr>)
              else (0, w\<lparr>fw_files := (fw_files w)(hash_db \<mapsto> concat (stored_lines temp))\<rparr>)))"

end
