(* ===== verification/FnvProps.thy ===== *)
theory FnvProps
  imports Fnv
begin

text \<open>
  The file hash tools: a well-formed database is a sequence of lines of at most 1022 characters, each ended by a
  newline (\<open>db_line\<close>, \<open>joined\<close>); what an entry written by the tools reads back as, and that a second run of
  either tool finds nothing to do.
\<close>

unbundle bit_operations_syntax

section \<open>Entries\<close>

definition field :: "nat \<Rightarrow> string \<Rightarrow> bool" where
  "field n s \<longleftrightarrow> s \<noteq> [] \<and> length s \<le> n \<and> list_all (\<lambda>c. \<not> isspace c \<and> c \<noteq> NUL) s"

definition good_name :: "string \<Rightarrow> bool" where
  "good_name f \<longleftrightarrow> f \<noteq> [] \<and> length f \<le> 511 \<and> list_all (\<lambda>c. c \<noteq> dquote \<and> c \<noteq> CHR 0x0A \<and> c \<noteq> NUL) f"

definition db_line :: "string \<Rightarrow> bool" where
  "db_line l \<longleftrightarrow> length l \<le> 1022 \<and> list_all (\<lambda>c. c \<noteq> CHR 0x0A \<and> c \<noteq> NUL) l"

lemma newline_space: "isspace (CHR 0x0A)" "isspace (CHR '' '')"
  by (simp_all add: isspace_def code_def)

lemma scan_field:
  assumes "field n s" "r = [] \<or> isspace (hd r)"
  shows "scan_word n (CHR '' '' # s @ r) = Some (s, r)"
proof -
  have ns: "\<not> isspace (hd s)" using assms(1) by (cases s) (auto simp: field_def)
  have d: "dropWhile isspace (CHR '' '' # s @ r) = s @ r"
    using assms(1) ns newline_space by (cases s) (auto simp: field_def)
  have t: "take n (s @ r) = s @ take (n - length s) r" using assms(1) by (simp add: field_def)
  have "takeWhile (\<lambda>c. \<not> isspace c) (take (n - length s) r) = []"
    using assms(2) by (cases r; cases "n - length s") auto
  then have "takeWhile (\<lambda>c. \<not> isspace c) (take n (s @ r)) = s"
    unfolding t using assms(1) by (simp add: takeWhile_append field_def list_all_iff)
  then show ?thesis using assms(1) d by (simp add: scan_word_def field_def)
qed

lemma scan_entry_line:
  assumes "good_name f" "field 8 h" "field 19 t"
  shows "scan_entry (entry_line f h t) = Some (f, h, t)"
proof -
  let ?s = "f @ dquote # '' '' @ h @ '' '' @ t @ fnv_eol"
  have e: "take 511 ?s = f @ take (511 - length f) (dquote # '' '' @ h @ '' '' @ t @ fnv_eol)"
    using assms(1) by (simp add: good_name_def)
  have tw: "takeWhile (\<lambda>c. c \<noteq> dquote) (take 511 ?s) = f"
    unfolding e using assms(1) by (cases "511 - length f") (simp_all add: takeWhile_append good_name_def list_all_iff)
  have "scan_word 8 (CHR '' '' # h @ '' '' @ t @ fnv_eol) = Some (h, '' '' @ t @ fnv_eol)"
    by (rule scan_field [OF assms(2)]) (simp add: newline_space)
  moreover have "scan_word 19 (CHR '' '' # t @ fnv_eol) = Some (t, fnv_eol)"
    by (rule scan_field [OF assms(3)]) (simp add: newline_space)
  ultimately show ?thesis using assms(1) tw by (simp add: scan_entry_def entry_line_def good_name_def Let_def)
qed

lemma field_hex08: "field 8 (hex08 w)"
proof -
  have "\<not> isspace (hex_digit d) \<and> hex_digit d \<noteq> NUL" for d
  proof -
    define n where "n = unat d mod 16"
    have "n < 16" by (simp add: n_def)
    then have c: "code (hex_digit d) = (if n < 10 then 48 + n else 87 + n)"
      by (simp add: hex_digit_def code_def n_def [symmetric] Let_def)
    have "hex_digit d \<noteq> NUL"
    proof
      assume "hex_digit d = NUL"
      then have "code (hex_digit d) = 0" by (simp add: code_def)
      then show False using c by (simp split: if_splits)
    qed
    then show ?thesis using c \<open>n < 16\<close> by (simp add: isspace_def split: if_splits)
  qed
  then show ?thesis by (simp add: field_def hex08_def)
qed

lemma field_plain: "field n s \<Longrightarrow> list_all (\<lambda>c. c \<noteq> CHR 0x0A \<and> c \<noteq> NUL) s \<and> length s \<le> n"
  using newline_space by (auto simp: field_def list_all_iff)

lemma good_name_plain: "good_name f \<Longrightarrow> list_all (\<lambda>c. c \<noteq> CHR 0x0A \<and> c \<noteq> NUL) f \<and> length f \<le> 511"
  by (auto simp: good_name_def list_all_iff)

lemma db_line_entry:
  assumes "good_name f" "field 8 h" "field 19 t"
  shows "\<exists>l. entry_line f h t = l @ fnv_eol \<and> db_line l"
proof -
  have "db_line ([dquote] @ f @ [dquote] @ '' '' @ h @ '' '' @ t)"
    using good_name_plain [OF assms(1)] field_plain [OF assms(2)] field_plain [OF assms(3)]
    by (simp add: db_line_def)
  moreover have "entry_line f h t = ([dquote] @ f @ [dquote] @ '' '' @ h @ '' '' @ t) @ fnv_eol"
    by (simp add: entry_line_def)
  ultimately show ?thesis by blast
qed

section \<open>Lines of the database\<close>

abbreviation joined :: "string list \<Rightarrow> string" where
  "joined ls \<equiv> concat (map (\<lambda>l. l @ fnv_eol) ls)"

lemma stored_joined: "list_all db_line ls \<Longrightarrow> stored_lines (joined ls) = map (\<lambda>l. l @ fnv_eol) ls"
proof -
  assume a: "list_all db_line ls"
  have "chunks 1024 (joined ls) = map (\<lambda>l. l @ fnv_eol) ls"
    by (rule chunks_lines) (use a in \<open>auto simp: list_all_iff db_line_def\<close>)
  moreover have "takeWhile (\<lambda>c. c \<noteq> NUL) (l @ fnv_eol) = l @ fnv_eol" if "l \<in> set ls" for l
    using a that by (simp add: takeWhile_eq_all_conv list_all_iff db_line_def)
  ultimately show ?thesis by (simp add: stored_lines_def)
qed

lemma concat_stored: "list_all db_line ls \<Longrightarrow> concat (stored_lines (joined ls)) = joined ls"
  by (simp add: stored_joined)

definition entry_name :: "string \<Rightarrow> string option" where
  "entry_name l = map_option fst (scan_entry l)"

section \<open>\<open>fnvtest\<close>\<close>

lemma test_lines_end:
  "fnvtest_lines f h ls temp = Inr t \<Longrightarrow> t = temp @ concat (filter (\<lambda>l. entry_name l \<noteq> Some f) ls)"
proof (induction ls arbitrary: temp)
  case Nil
  then show ?case by simp
next
  case (Cons l ls)
  then show ?case
    using Cons.IH [of temp] Cons.IH [of "temp @ l"] by (auto simp: entry_name_def split: option.splits if_splits)
qed

lemma test_lines_found:
  assumes "\<forall>l \<in> set ls. entry_name l \<noteq> Some f" "scan_entry e = Some (f, h, x)"
  shows "fnvtest_lines f h (ls @ [e]) temp = Inl (temp @ concat ls @ e)"
  using assms by (induction ls arbitrary: temp) (auto simp: entry_name_def split: option.splits)

text \<open>C35. When \<open>fnvtest\<close> has reported a new or changed file (exit code 1) and stored its hash, the next run
  on the same file finds the hash, returns 0 and leaves the database as it is, whatever the time is.\<close>

theorem fnvtest_settles:
  assumes ls: "list_all db_line ls"
    and db: "fw_files w hash_db = None \<and> ls = [] \<or> fw_files w hash_db = Some (joined ls)"
    and f: "good_name f" "f \<noteq> ''-h''" "f \<noteq> ''--help''" "f \<noteq> hash_db" and h: "fnv1a_hash_file (fw_files w) f \<noteq> 0"
    and t: "field 19 t" "fw_creatable w"
    and run: "fnvtest_main t [p, f] w = (1, w1)"
  shows "fnvtest_main t2 [p, f] w1 = (0, w1)"
proof -
  let ?h = "hex08 (fnv1a_hash_file (fw_files w) f)"
  let ?e = "entry_line f ?h t"
  let ?keep = "filter (\<lambda>l. entry_name (l @ fnv_eol) \<noteq> Some f) ls"
  obtain el where el: "?e = el @ fnv_eol" "db_line el" using db_line_entry [OF f(1) field_hex08 t(1)] by blast
  have k: "list_all db_line (?keep @ [el])" using ls el(2) by (auto simp: list_all_iff)
  have d: "(case fw_files w hash_db of None \<Rightarrow> [] | Some d \<Rightarrow> d) = joined ls" using db by auto
  have s: "stored_lines (joined ls) = map (\<lambda>l. l @ fnv_eol) ls" by (rule stored_joined [OF ls])
  obtain temp where temp: "fnvtest_lines f ?h (map (\<lambda>l. l @ fnv_eol) ls) [] = Inr temp"
    and w1: "w1 = w\<lparr>fw_files := (fw_files w)(hash_db \<mapsto> concat (stored_lines (temp @ ?e)))\<rparr>"
    using run f h t(2) by (auto simp: fnvtest_main_def Let_def d s split: sum.splits)
  have "temp = joined ?keep" using test_lines_end [OF temp] by (simp add: filter_map comp_def)
  then have n: "temp @ ?e = joined (?keep @ [el])" using el(1) by simp
  have db1: "fw_files w1 hash_db = Some (joined (?keep @ [el]))" unfolding w1 n concat_stored [OF k] by simp
  have h1: "fnv1a_hash_file (fw_files w1) f = fnv1a_hash_file (fw_files w) f" using w1 f(4) by (simp add: fnv1a_hash_file_def)
  have found: "fnvtest_lines f ?h (map (\<lambda>l. l @ fnv_eol) (?keep @ [el])) [] = Inl (joined (?keep @ [el]))"
  proof -
    have "scan_entry (el @ fnv_eol) = Some (f, ?h, t)"
      unfolding el(1) [symmetric] by (rule scan_entry_line [OF f(1) field_hex08 t(1)])
    from test_lines_found [OF _ this, of "map (\<lambda>l. l @ fnv_eol) ?keep" "[]"] show ?thesis by simp
  qed
  have o: "overwrite (joined (?keep @ [el])) (joined (?keep @ [el])) = joined (?keep @ [el])" by (simp add: overwrite_def)
  have "fw_files w1 = (fw_files w1)(hash_db \<mapsto> joined (?keep @ [el]))" using db1 by auto
  moreover have "fw_creatable w1" using w1 t(2) by simp
  ultimately show ?thesis
    using f h by (simp only: fnvtest_main_def) (simp add: h1 db1 stored_joined [OF k, simplified] found [simplified] concat_stored [OF k, simplified] o [simplified] Let_def)
qed


section \<open>\<open>fnvupdate\<close>\<close>

lemma scan_word_end: "scan_word n s = Some (w, r) \<Longrightarrow> w \<noteq> []"
  by (auto simp: scan_word_def Let_def split: if_splits)

lemma scan_entry_name:
  assumes "scan_entry (l @ fnv_eol) = Some (f, h, x)" "db_line l"
  shows "good_name f"
proof -
  obtain s where s: "l @ fnv_eol = dquote # s" using assms(1) by (cases "l @ fnv_eol") (auto simp: scan_entry_def split: if_splits)
  let ?n = "takeWhile (\<lambda>c. c \<noteq> dquote) (take 511 s)"
  have f: "f = ?n" "?n \<noteq> []" "drop (length ?n) s \<noteq> []" "hd (drop (length ?n) s) = dquote"
    using assms(1) unfolding s by (auto simp: scan_entry_def Let_def bind_eq_Some_conv split: if_splits)
  have len: "length ?n \<le> 511" by (rule le_trans [OF length_takeWhile_le]) simp
  have "take (length ?n) (take 511 s) = ?n" by (rule takeWhile_eq_take [symmetric])
  moreover have "take (length ?n) (take 511 s) = take (length ?n) s" by (simp only: take_take min.absorb1 [OF len])
  ultimately have p: "s = ?n @ drop (length ?n) s" using append_take_drop_id [of "length ?n" s] by metis
  obtain r where r: "drop (length ?n) s = dquote # r" using f(3,4) by (cases "drop (length ?n) s") auto
  have l: "l @ fnv_eol = dquote # f @ dquote # r" using s p r f(1) by metis
  have "last (l @ fnv_eol) = last (dquote # f @ dquote # r)" "butlast (l @ fnv_eol) = butlast (dquote # f @ dquote # r)"
    by (simp_all only: l)
  then have "r \<noteq> []" "l = butlast (dquote # f @ dquote # r)" by (cases r, auto)+
  then have "set f \<subseteq> set l" by (auto simp: butlast_append)
  moreover have "\<forall>c \<in> set f. c \<noteq> dquote" using f(1) by (auto dest: set_takeWhileD)
  ultimately show ?thesis
    using assms(2) f(1,2) len by (auto simp: good_name_def db_line_def list_all_iff)
qed

text \<open>A line after an update, and that a second update leaves it.\<close>

lemma update_line_result:
  assumes "db_line l" "field 19 t" "update_line files t (l @ fnv_eol) = (r, m)"
  shows "(r = [] \<and> m) \<or> (\<exists>l'. r = l' @ fnv_eol \<and> db_line l' \<and> (\<not> m \<longrightarrow> l' = l) \<and>
           update_line files t' (l' @ fnv_eol) = (l' @ fnv_eol, False) \<and> entry_name (l' @ fnv_eol) = entry_name (l @ fnv_eol))"
proof (cases "scan_entry (l @ fnv_eol)")
  case None
  then show ?thesis using assms(1,3) by (auto simp: update_line_def)
next
  case (Some e)
  obtain f h x where e: "e = (f, h, x)" by (cases e)
  have f: "good_name f" using scan_entry_name [OF _ assms(1)] Some e by simp
  let ?w = "fnv1a_hash_file files f"
  consider "?w = 0" | "?w \<noteq> 0" "h = hex08 ?w" | "?w \<noteq> 0" "h \<noteq> hex08 ?w" by blast
  then show ?thesis
  proof cases
    case 1
    then show ?thesis using assms(3) Some e by (simp add: update_line_def Let_def)
  next
    case 2
    then show ?thesis using assms(1,3) Some e by (simp add: update_line_def Let_def)
  next
    case 3
    obtain l' where l': "entry_line f (hex08 ?w) t = l' @ fnv_eol" "db_line l'"
      using db_line_entry [OF f field_hex08 assms(2)] by blast
    have sc: "scan_entry (l' @ fnv_eol) = Some (f, hex08 ?w, t)"
      unfolding l'(1) [symmetric] by (rule scan_entry_line [OF f field_hex08 assms(2)])
    have "r = l' @ fnv_eol" "m" using assms(3) Some e 3 l'(1) by (simp_all add: update_line_def Let_def)
    moreover have "update_line files t' (l' @ fnv_eol) = (l' @ fnv_eol, False)" using sc 3 by (simp add: update_line_def Let_def)
    ultimately show ?thesis using l'(2) sc Some e by (auto simp: entry_name_def)
  qed
qed

lemma update_lines_result:
  assumes "list_all db_line ls" "field 19 t" "update_lines files t (map (\<lambda>l. l @ fnv_eol) ls) (temp, m) = (temp', m')"
  shows "\<exists>ls'. list_all db_line ls' \<and> temp' = temp @ joined ls' \<and>
     (\<forall>x. update_lines files t' (map (\<lambda>l. l @ fnv_eol) ls') (x, False) = (x @ joined ls', False)) \<and>
     (\<forall>l \<in> set ls'. \<exists>k \<in> set ls. entry_name (l @ fnv_eol) = entry_name (k @ fnv_eol))"
  using assms
proof (induction ls arbitrary: temp m)
  case Nil
  then show ?case by (intro exI [of _ "[]"]) auto
next
  case (Cons l ls)
  obtain r n where r: "update_line files t (l @ fnv_eol) = (r, n)" by fastforce
  then have "update_lines files t (map (\<lambda>l. l @ fnv_eol) ls) (temp @ r, m \<or> n) = (temp', m')" using Cons.prems(3) by simp
  then obtain ls' where ls': "list_all db_line ls'" "temp' = (temp @ r) @ joined ls'"
    "\<And>x. update_lines files t' (map (\<lambda>l. l @ fnv_eol) ls') (x, False) = (x @ joined ls', False)"
    "\<forall>l \<in> set ls'. \<exists>k \<in> set ls. entry_name (l @ fnv_eol) = entry_name (k @ fnv_eol)"
    using Cons.IH [of "temp @ r" "m \<or> n"] Cons.prems by auto
  from update_line_result [OF _ Cons.prems(2) r, of t'] Cons.prems(1)
  consider "r = []" | l' where "r = l' @ fnv_eol" "db_line l'" "update_line files t' (l' @ fnv_eol) = (l' @ fnv_eol, False)"
    "entry_name (l' @ fnv_eol) = entry_name (l @ fnv_eol)" by auto
  then show ?case
  proof cases
    case 1
    then show ?thesis using ls' by (intro exI [of _ ls']) auto
  next
    case 2
    then show ?thesis using ls' by (intro exI [of _ "l' # ls'"]) auto
  qed
qed

lemma update_lines_cong:
  assumes "\<forall>l \<in> set ls. entry_name l \<noteq> Some n" "\<And>x. x \<noteq> n \<Longrightarrow> files' x = files x"
  shows "update_lines files' t ls tm = update_lines files t ls tm"
  using assms(1)
proof (induction ls arbitrary: tm)
  case Nil
  then show ?case by (cases tm) simp
next
  case (Cons l ls)
  have "update_line files' t l = update_line files t l"
    using Cons.prems assms(2) by (auto simp: update_line_def entry_name_def fnv1a_hash_file_def split: option.split)
  then show ?case using Cons by (cases tm) (simp split: prod.split)
qed

lemma update_lines_unmodified:
  "update_lines files t ls (temp, a) = (temp', False) \<Longrightarrow> \<not> a \<and> update_lines files t' ls (temp, a) = (temp', False)"
proof (induction ls arbitrary: temp a)
  case Nil
  then show ?case by simp
next
  case (Cons l ls)
  obtain r m where r: "update_line files t l = (r, m)" by fastforce
  then have c: "\<not> (a \<or> m)" "update_lines files t' ls (temp @ r, a \<or> m) = (temp', False)"
    using Cons.prems Cons.IH [of "temp @ r" "a \<or> m"] by auto
  then have "update_line files t' l = (r, m)"
    using r by (auto simp: update_line_def Let_def split: option.splits if_splits)
  then show ?case using c by simp
qed

text \<open>C36. A successful run of \<open>fnvupdate\<close> leaves a database with which the next run, at any time, finds nothing to
  change, as long as the database holds no entry for itself.\<close>

theorem fnvupdate_settles:
  assumes ls: "list_all db_line ls" and db: "fw_files w hash_db = Some (joined ls)"
    and n: "\<forall>l \<in> set ls. entry_name (l @ fnv_eol) \<noteq> Some hash_db"
    and t: "field 19 t"
    and run: "fnvupdate_main t [p] w = (0, w1)"
  shows "fnvupdate_main t2 [p] w1 = (0, w1)"
proof -
  have s: "stored_lines (joined ls) = map (\<lambda>l. l @ fnv_eol) ls" by (rule stored_joined [OF ls])
  obtain temp m where u: "update_lines (fw_files w) t (map (\<lambda>l. l @ fnv_eol) ls) ([], False) = (temp, m)" by fastforce
  obtain ls' where ls': "list_all db_line ls'" "temp = joined ls'"
    "\<And>x. update_lines (fw_files w) t2 (map (\<lambda>l. l @ fnv_eol) ls') (x, False) = (x @ joined ls', False)"
    "\<forall>l \<in> set ls'. \<exists>k \<in> set ls. entry_name (l @ fnv_eol) = entry_name (k @ fnv_eol)"
    using update_lines_result [OF ls t u, of t2] by auto
  show ?thesis
  proof (cases m)
    case False
    then have "w1 = w" using run db u by (simp add: fnvupdate_main_def s)
    then show ?thesis
      using db False u update_lines_unmodified [of "fw_files w" t _ "[]" False temp t2] by (simp add: fnvupdate_main_def s)
  next
    case True
    then have w1: "w1 = w\<lparr>fw_files := (fw_files w)(hash_db \<mapsto> joined ls')\<rparr>"
      using run db u concat_stored [OF ls'(1)] by (auto simp: fnvupdate_main_def s ls'(2) split: if_splits)
    have "\<forall>l \<in> set (map (\<lambda>l. l @ fnv_eol) ls'). entry_name l \<noteq> Some hash_db" using ls'(4) n by fastforce
    then have "update_lines (fw_files w1) t2 (map (\<lambda>l. l @ fnv_eol) ls') ([], False) = update_lines (fw_files w) t2 (map (\<lambda>l. l @ fnv_eol) ls') ([], False)"
      by (rule update_lines_cong) (simp add: w1)
    then show ?thesis using ls'(3) w1 by (simp add: fnvupdate_main_def stored_joined [OF ls'(1)])
  qed
qed


section \<open>Witnesses\<close>

definition fnv_world :: FnvWorld where
  "fnv_world = \<lparr>fw_files = [''f'' \<mapsto> ''a'', hash_db \<mapsto> joined [''x'']], fw_creatable = True, fw_out = [], fw_err = []\<rparr>"

lemma fnv1a_a: "fnv1a 2166136261 ''a'' = 0xE40C292C"
  by code_simp

theorem fnvtest_settles_witness:
  "\<exists>w1. fnvtest_main ''2025-04-08T12:00:00'' [''fnvtest'', ''f''] fnv_world = (1, w1)
     \<and> fnvtest_main ''2026-04-08T12:00:00'' [''fnvtest'', ''f''] w1 = (0, w1)"
proof -
  have s: "stored_lines (joined [''x'']) = [''x'' @ fnv_eol]" by (subst stored_joined) (simp_all add: db_line_def)
  have h: "fnv1a_hash_file (fw_files fnv_world) ''f'' \<noteq> 0" by (simp add: fnv1a_hash_file_def fnv_world_def fnv1a_a del: fnv1a.simps)
  obtain w1 where r: "fnvtest_main ''2025-04-08T12:00:00'' [''fnvtest'', ''f''] fnv_world = (1, w1)"
    using h s by (simp add: fnvtest_main_def Let_def scan_entry_def) (simp add: fnv_world_def scan_entry_def)
  have "fnvtest_main ''2026-04-08T12:00:00'' [''fnvtest'', ''f''] w1 = (0, w1)"
    by (rule fnvtest_settles [OF _ _ _ _ _ _ h _ _ r, of "[''x'']"])
      (simp_all add: db_line_def fnv_world_def good_name_def field_def isspace_def code_def)
  then show ?thesis using r by blast
qed

theorem fnvupdate_settles_witness:
  "\<exists>w1. fnvupdate_main ''2025-04-08T12:00:00'' [''fnvupdate''] fnv_world = (0, w1)
     \<and> fnvupdate_main ''2026-04-08T12:00:00'' [''fnvupdate''] w1 = (0, w1)"
proof -
  have s: "stored_lines (joined [''x'']) = [''x'' @ fnv_eol]" by (subst stored_joined) (simp_all add: db_line_def)
  have d: "fw_files fnv_world hash_db = Some (joined [''x''])" by (simp add: fnv_world_def)
  obtain w1 where r: "fnvupdate_main ''2025-04-08T12:00:00'' [''fnvupdate''] fnv_world = (0, w1)"
    using d s by (simp add: fnvupdate_main_def update_line_def scan_entry_def)
  have "fnvupdate_main ''2026-04-08T12:00:00'' [''fnvupdate''] w1 = (0, w1)"
    by (rule fnvupdate_settles [OF _ d _ _ r]) (simp_all add: db_line_def field_def isspace_def code_def entry_name_def scan_entry_def)
  then show ?thesis using r by blast
qed

end
