(* ===== verification/Led.thy ===== *)
theory Led
  imports Bre
begin

text \<open>
  The small line editor \<open>level1/led.c\<close>, on \<open>bre_match\<close> and \<open>bre_substitute\<close> of \<open>Bre\<close>. The array of lines is a
  list, \<open>num_lines\<close> its length (\<open>realloc\<close> succeeds, and to the size 0 gives the empty array); lines are numbered
  from 1 for the user and from 0 in the code. The standard input is the list of the pieces that \<open>fgets\<close> reads
  into 1024 bytes. The numbers of lines and of bytes stay in an \<open>int\<close>. Undefined behaviour is \<^term>\<open>None\<close>: a read before the first line, an empty pattern that
  wraps around the length of a copy, a number outside \<open>int\<close>, and a file name that was never read.
\<close>

record LedEditor =
  le_lines :: "string list"
  le_current :: int
  le_dirty :: bool

record LedWorld =
  lw_in :: "string list"
  lw_out :: string
  lw_files :: "string \<rightharpoonup> string"
  lw_writable :: "string \<Rightarrow> bool"
  lw_exit :: "int option"

type_synonym lst = "LedEditor \<times> LedWorld"

abbreviation (input) led_eol :: string where "led_eol \<equiv> [CHR 0x0A]"

definition led_num :: "LedEditor \<Rightarrow> int" where
  "led_num ed = int (length (le_lines ed))"

definition led_init :: LedEditor where
  "led_init = \<lparr>le_lines = [], le_current = 0, le_dirty = False\<rparr>"

definition led_puts :: "string \<Rightarrow> lst \<Rightarrow> lst" where
  "led_puts s = (\<lambda>(ed, w). (ed, w\<lparr>lw_out := lw_out w @ s @ led_eol\<rparr>))"

text \<open>\<open>line[strcspn(line, "\n")] = 0\<close>, on what \<open>fgets\<close> has read.\<close>

definition led_strip :: "string \<Rightarrow> string" where
  "led_strip line = takeWhile (\<lambda>c. c \<noteq> CHR 0x0A \<and> c \<noteq> NUL) line"

section \<open>Addresses\<close>

text \<open>\<open>atoi\<close>.\<close>

definition led_atoi :: "string \<Rightarrow> int option" where
  "led_atoi s =
     (let s = dropWhile isspace s;
          v = (if hd0 s = CHR ''-'' then - dec_val 0 (takeWhile isdigit (tl s))
               else dec_val 0 (takeWhile isdigit (if hd0 s = CHR ''+'' then tl s else s)))
      in if - INT_MAX - 1 \<le> v \<and> v \<le> INT_MAX then Some v else None)"

text \<open>A loop of the search: the index of the first line for which \<open>bre_match\<close> is not 0.\<close>

function led_search_loop :: "string list \<Rightarrow> string \<Rightarrow> int \<Rightarrow> int \<Rightarrow> int option option" where
  "led_search_loop lines pattern i n =
     (if i < n then do {
        line \<leftarrow> aget lines i;
        (r, m) \<leftarrow> bre_match line pattern;
        if r \<noteq> BRE_OK then Some (Some i) else led_search_loop lines pattern (i + 1) n }
      else Some None)"
  by pat_completeness auto
termination by (relation "measure (\<lambda>(lines, pattern, i, n). nat (n - i))") auto

declare led_search_loop.simps [simp del]

definition led_search :: "LedEditor \<Rightarrow> string \<Rightarrow> int option" where
  "led_search ed pattern = do {
     r \<leftarrow> led_search_loop (le_lines ed) pattern (le_current ed - 1) (led_num ed);
     case r of
       Some i \<Rightarrow> Some i
     | None \<Rightarrow> do {
         r \<leftarrow> led_search_loop (le_lines ed) pattern 0 (le_current ed - 1);
         case r of Some i \<Rightarrow> Some i | None \<Rightarrow> Some (-1) } }"

definition led_parse_address :: "LedEditor \<Rightarrow> string \<Rightarrow> int option" where
  "led_parse_address ed addr =
     (if addr = [] then Some (le_current ed - 1)
      else if addr = ''.'' then Some (le_current ed - 1)
      else if addr = ''$'' then Some (led_num ed - 1)
      else if hd addr = CHR ''/'' \<and> last addr = CHR ''/'' then
        (if length addr < 2 then None else led_search ed (take (length addr - 2) (tl addr)))
      else do {
        line \<leftarrow> led_atoi addr;
        Some (if line \<le> 0 \<or> line > led_num ed then -1 else line - 1) })"

text \<open>The inner option is the result of \<open>parse_range\<close> with its three output parameters.\<close>

definition led_parse_range :: "LedEditor \<Rightarrow> string \<Rightarrow> (int \<times> int \<times> char) option option" where
  "led_parse_range ed cmd =
     (let addr1 = takeWhile (\<lambda>c. c \<noteq> CHR '','') (take 1023 cmd);
          p = drop (length addr1) cmd
      in if hd0 p \<noteq> CHR '','' then Some None
         else
           (let p = tl p;
                addr2 = takeWhile (\<lambda>c. c \<noteq> CHR ''p'' \<and> c \<noteq> CHR ''d'' \<and> c \<noteq> CHR ''s'') (take 1023 p);
                p = drop (length addr2) p
            in if p = [] then Some None
               else do {
                 start \<leftarrow> led_parse_address ed (if addr1 = [] then ''.'' else addr1);
                 stop \<leftarrow> led_parse_address ed (if addr2 = [] then ''.'' else addr2);
                 Some (if start < 0 \<or> stop < 0 \<or> start > stop then None else Some (start, stop, hd p)) }))"

section \<open>Operations\<close>

text \<open>The loop that carries the last line down to its place.\<close>

function led_swap_down :: "string list \<Rightarrow> int \<Rightarrow> int \<Rightarrow> string list option" where
  "led_swap_down lines i addr =
     (if addr + 1 < i then do {
        temp \<leftarrow> aget lines i;
        prev \<leftarrow> aget lines (i - 1);
        lines \<leftarrow> aset lines i prev;
        lines \<leftarrow> aset lines (i - 1) temp;
        led_swap_down lines (i - 1) addr }
      else Some lines)"
  by pat_completeness auto
termination by (relation "measure (\<lambda>(lines, i, addr). nat (i - addr))") auto

declare led_swap_down.simps [simp del]

text \<open>The loop of \<open>append_line\<close> over the pieces of the input: the lines, the address and the rest of the input.\<close>

fun led_append_loop :: "string list \<Rightarrow> string list \<Rightarrow> int \<Rightarrow> (string list \<times> int \<times> string list) option" where
  "led_append_loop [] lines addr = Some (lines, addr, [])"
| "led_append_loop (l # input) lines addr =
     (let line = led_strip l in
      if line = ''.'' then Some (lines, addr, input)
      else
        (let lines = lines @ [line] in
         if addr < int (length lines) - 1 then do {
           lines \<leftarrow> led_swap_down lines (int (length lines) - 1) addr;
           led_append_loop input lines (addr + 1) }
         else led_append_loop input lines addr))"

definition led_prompt :: string where
  "led_prompt = ''(Enter text, end with '' @ [CHR 0x27] @ ''.'' @ [CHR 0x27] @ '' on a new line)''"

definition led_append_line :: "int \<Rightarrow> lst \<Rightarrow> lst option" where
  "led_append_line addr st = do {
     let (ed, w) = led_puts led_prompt st;
     (lines, addr, input) \<leftarrow> led_append_loop (lw_in w) (le_lines ed) addr;
     Some (ed\<lparr>le_lines := lines, le_current := addr + 1, le_dirty := True\<rparr>, w\<lparr>lw_in := input\<rparr>) }"

fun led_insert_loop :: "string list \<Rightarrow> string list \<Rightarrow> int \<Rightarrow> (string list \<times> int \<times> string list) option" where
  "led_insert_loop [] lines addr = Some (lines, addr, [])"
| "led_insert_loop (l # input) lines addr =
     (let line = led_strip l in
      if line = ''.'' then Some (lines, addr, input)
      else do {
        lines \<leftarrow> loop_down (lines @ [[]]) (int (length lines)) addr 0 (-1);
        lines \<leftarrow> aset lines addr line;
        led_insert_loop input lines (addr + 1) })"

definition led_insert_line :: "int \<Rightarrow> lst \<Rightarrow> lst option" where
  "led_insert_line addr st = do {
     let (ed, w) = led_puts led_prompt st;
     (lines, addr, input) \<leftarrow> led_insert_loop (lw_in w) (le_lines ed) addr;
     Some (ed\<lparr>le_lines := lines, le_current := addr, le_dirty := True\<rparr>, w\<lparr>lw_in := input\<rparr>) }"

definition led_bad_range :: "LedEditor \<Rightarrow> int \<Rightarrow> int \<Rightarrow> bool" where
  "led_bad_range ed start stop \<longleftrightarrow> led_num ed = 0 \<or> start < 0 \<or> stop \<ge> led_num ed \<or> start > stop"

definition led_print_line :: "int \<Rightarrow> int \<Rightarrow> lst \<Rightarrow> lst" where
  "led_print_line start stop st =
     (let (ed, w) = st in
      if led_bad_range ed start stop then led_puts ''?'' st
      else
        (ed\<lparr>le_current := stop + 1\<rparr>,
         w\<lparr>lw_out := lw_out w @ concat (map (\<lambda>i. le_lines ed ! nat i @ led_eol) [start..stop])\<rparr>))"

definition led_delete_line :: "int \<Rightarrow> int \<Rightarrow> lst \<Rightarrow> lst option" where
  "led_delete_line start stop st =
     (let (ed, w) = st in
      if led_bad_range ed start stop then Some (led_puts ''?'' st)
      else do {
        let count = stop - start + 1;
        lines \<leftarrow> loop_up (le_lines ed) start (led_num ed - count) 0 count;
        let num_lines = led_num ed - count;
        Some (ed\<lparr>le_lines := take (nat num_lines) lines,
                 le_current := (if start + 1 > num_lines then num_lines else start + 1), le_dirty := True\<rparr>, w) })"

text \<open>The loop of \<open>substitute_line\<close>: the lines, and whether it ran to its end.\<close>

function led_subst_loop :: "string list \<Rightarrow> string \<Rightarrow> string \<Rightarrow> int \<Rightarrow> int \<Rightarrow> (string list \<times> bool) option" where
  "led_subst_loop lines pattern replacement j stop =
     (if j \<le> stop then do {
        line \<leftarrow> aget lines j;
        new_line \<leftarrow> bre_substitute line pattern replacement;
        (case new_line of
           None \<Rightarrow> Some (lines, False)
         | Some new_line \<Rightarrow> do {
             lines \<leftarrow> aset lines j new_line;
             led_subst_loop lines pattern replacement (j + 1) stop }) }
      else Some (lines, True))"
  by pat_completeness auto
termination by (relation "measure (\<lambda>(lines, pattern, replacement, j, stop). nat (stop + 1 - j))") auto

declare led_subst_loop.simps [simp del]

definition led_substitute_line :: "int \<Rightarrow> int \<Rightarrow> string \<Rightarrow> lst \<Rightarrow> lst option" where
  "led_substitute_line start stop cmd st =
     (let (ed, w) = st in
      if led_bad_range ed start stop then Some (led_puts ''?'' st)
      else if hd0 cmd \<noteq> CHR ''s'' \<or> peek cmd 1 \<noteq> CHR ''/'' then Some (led_puts ''?'' st)
      else
        (let p = drop 2 cmd;
             pattern = takeWhile (\<lambda>c. c \<noteq> CHR ''/'') (take 1023 p);
             p = drop (length pattern) p
         in if hd0 p \<noteq> CHR ''/'' then Some (led_puts ''?'' st)
            else
              (let p = tl p;
                   replacement = takeWhile (\<lambda>c. c \<noteq> CHR ''/'') (take 1023 p);
                   p = drop (length replacement) p
               in if hd0 p \<noteq> CHR ''/'' then Some (led_puts ''?'' st)
                  else do {
                    (lines, done) \<leftarrow> led_subst_loop (le_lines ed) pattern replacement start stop;
                    let ed = ed\<lparr>le_lines := lines\<rparr>;
                    Some (if \<not> done then led_puts ''?'' (ed, w)
                          else (ed\<lparr>le_dirty := True, le_current := stop + 1\<rparr>, w)) })))"

section \<open>Files\<close>

definition led_text :: "string list \<Rightarrow> string" where
  "led_text lines = concat (map (\<lambda>l. l @ led_eol) lines)"

definition led_bytes :: "string list \<Rightarrow> int" where
  "led_bytes lines = (\<Sum>l \<leftarrow> lines. int (length l) + 1)"

definition led_write_file :: "lst \<Rightarrow> lst option" where
  "led_write_file st =
     (let (ed, w) = st; w = w\<lparr>lw_out := lw_out w @ ''Enter filename: ''\<rparr>
      in case lw_in w of
           [] \<Rightarrow> None
         | l # input \<Rightarrow>
             (let filename = led_strip l; w = w\<lparr>lw_in := input\<rparr>
              in if \<not> lw_writable w filename then Some (led_puts ''?'' (ed, w))
                 else
                   Some (led_puts (show_int (led_bytes (le_lines ed)))
                     (ed\<lparr>le_dirty := False\<rparr>, w\<lparr>lw_files := (lw_files w)(filename \<mapsto> led_text (le_lines ed))\<rparr>))))"

definition led_load_file :: "string \<Rightarrow> lst \<Rightarrow> lst" where
  "led_load_file filename st =
     (let (ed, w) = st
      in case lw_files w filename of
           None \<Rightarrow> led_puts ''?'' st
         | Some fp \<Rightarrow>
             (let new = map led_strip (chunks 1024 fp); lines = le_lines ed @ new
              in led_puts (show_int (led_bytes new)) (ed\<lparr>le_lines := lines, le_current := int (length lines)\<rparr>, w)))"

section \<open>Commands\<close>

definition led_range_command :: "int \<Rightarrow> int \<Rightarrow> char \<Rightarrow> string \<Rightarrow> lst \<Rightarrow> lst option" where
  "led_range_command start stop op cmd st =
     (if op = CHR ''p'' then Some (led_print_line start stop st)
      else if op = CHR ''d'' then led_delete_line start stop st
      else if op = CHR ''s'' then led_substitute_line start stop cmd st
      else Some (led_puts ''?'' st))"

definition led_pattern_command :: "string \<Rightarrow> lst \<Rightarrow> lst option" where
  "led_pattern_command cmd st =
     (let (ed, w) = st in
      if hd0 cmd = CHR ''s'' then led_substitute_line (le_current ed - 1) (le_current ed - 1) cmd st
      else do {
        addr \<leftarrow> led_parse_address ed cmd;
        if 0 \<le> addr \<and> addr < led_num ed then Some (led_print_line addr addr (ed\<lparr>le_current := addr + 1\<rparr>, w))
        else Some (led_puts ''?'' st) })"

definition led_single_command :: "int \<Rightarrow> char \<Rightarrow> lst \<Rightarrow> lst option" where
  "led_single_command addr op st =
     (let (ed, w) = st in
      if op = CHR ''a'' then led_append_line (if addr < 0 then led_num ed - 1 else addr) st
      else if op = CHR ''i'' then led_insert_line (if addr < 0 then 0 else addr) st
      else if op = CHR ''p'' then Some (led_print_line addr addr st)
      else if op = CHR ''d'' then led_delete_line addr addr st
      else if op = CHR ''w'' then led_write_file st
      else if op = CHR ''q'' then
        Some (if le_dirty ed then led_puts ''?'' st else (ed, w\<lparr>lw_exit := Some 0\<rparr>))
      else Some (led_puts ''?'' st))"

text \<open>\<open>strspn(cmd, "0123456789.$") == strlen(cmd)\<close>.\<close>

definition led_address_only :: "string \<Rightarrow> bool" where
  "led_address_only cmd = list_all (\<lambda>c. c \<in> set ''0123456789.$'') cmd"

text \<open>A command that is no command with a range.\<close>

definition led_plain_command :: "string \<Rightarrow> lst \<Rightarrow> lst option" where
  "led_plain_command cmd st =
     (let (ed, w) = st in
      if hd cmd = CHR ''/'' \<or> hd cmd = CHR ''s'' then led_pattern_command cmd st
      else if led_address_only cmd then do {
        addr \<leftarrow> led_parse_address ed cmd;
        Some (if 0 \<le> addr \<and> addr < led_num ed then (ed\<lparr>le_current := addr + 1\<rparr>, w) else st) }
      else do {
        addr \<leftarrow> led_parse_address ed (butlast cmd);
        if addr < 0 \<and> last cmd \<noteq> CHR ''a'' \<and> last cmd \<noteq> CHR ''q'' \<and> last cmd \<noteq> CHR ''w'' then Some (led_puts ''?'' st)
        else led_single_command addr (last cmd) st })"

definition led_execute_command :: "string \<Rightarrow> lst \<Rightarrow> lst option" where
  "led_execute_command buf st =
     (let cmd = led_strip buf in
      if cmd = [] then Some st
      else do {
        range \<leftarrow> led_parse_range (fst st) cmd;
        case range of
          Some (start, stop, op) \<Rightarrow> led_range_command start stop op cmd st
        | None \<Rightarrow> led_plain_command cmd st })"

section \<open>The program\<close>

text \<open>
  The endless loop of \<open>main\<close>. The buffer of the command keeps what it held when \<open>fgets\<close> finds the end of the
  input; it holds nothing, \<^term>\<open>None\<close>, before the first command. \<open>Running\<close> is the state when the fuel is spent.
\<close>

datatype led_result = Exited int lst | Running lst | Undefined

fun led_loop :: "nat \<Rightarrow> string option \<Rightarrow> lst \<Rightarrow> led_result" where
  "led_loop 0 cmd st = Running st"
| "led_loop (Suc fuel) cmd st =
     (let (ed, w) = st;
          (cmd, w) = (case lw_in w of [] \<Rightarrow> (cmd, w) | l # input \<Rightarrow> (Some l, w\<lparr>lw_in := input\<rparr>))
      in case cmd of
           None \<Rightarrow> Undefined
         | Some buf \<Rightarrow>
             (case led_execute_command buf (ed, w) of
                None \<Rightarrow> Undefined
              | Some st \<Rightarrow> (case lw_exit (snd st) of Some n \<Rightarrow> Exited n st | None \<Rightarrow> led_loop fuel cmd st)))"

definition led_banner :: string where
  "led_banner =
     (let q = [CHR 0x27] in
      ''Simple POSIX ed-like editor in C. Type commands (e.g., '' @ q @ ''a'' @ q @ '', '' @ q @ ''/pattern/'' @ q
      @ '', '' @ q @ ''1,/foo/p'' @ q @ '', '' @ q @ ''s/pattern/repl/'' @ q @ '', '' @ q @ ''q'' @ q @ '')'')"

definition led_main :: "nat \<Rightarrow> string list \<Rightarrow> string \<Rightarrow> (string \<rightharpoonup> string) \<Rightarrow> (string \<Rightarrow> bool) \<Rightarrow> led_result" where
  "led_main fuel argv stdin files writable =
     (let st = (led_init, \<lparr>lw_in = chunks 1024 stdin, lw_out = [], lw_files = files, lw_writable = writable, lw_exit = None\<rparr>);
          st = (if 1 < length argv then led_load_file (argv ! 1) st else st)
      in led_loop fuel None (led_puts led_banner st))"

end
