(* ===== verification/LedProps.thy ===== *)
theory LedProps
  imports BreLiteral Led
begin

text \<open>
  The small line editor: a reference editor of commands as they are meant (\<open>led_cmd\<close>, \<open>spec_command\<close>), on a
  buffer with the number of its current line, the simulation of it by \<open>led_execute_command\<close> (\<open>follows\<close>,
  \<open>sim_command\<close>), and what the program does at the end of its input and with substitutions over a range. The
  reference says what the code does where that is not what its manual says: a range that is none stands for its first
  line, and a search finds the lines in which the expression does not match.
\<close>

section \<open>Lines and numbers\<close>

abbreviation LF :: char where "LF \<equiv> CHR 0x0A"

definition text_line :: "string \<Rightarrow> bool" where
  "text_line l \<longleftrightarrow> length l \<le> 1022 \<and> LF \<notin> set l \<and> no_nul l"

definition typed_lines :: "string list \<Rightarrow> string list" where
  "typed_lines ls = map (\<lambda>l. l @ [LF]) ls"

lemma typed_simps [simp]: "typed_lines [] = []" "typed_lines (l # ls) = (l @ [LF]) # typed_lines ls" "typed_lines (ls @ ms) = typed_lines ls @ typed_lines ms"
  by (simp_all add: typed_lines_def)

lemma strip_line [simp]: "text_line l \<Longrightarrow> led_strip (l @ [LF]) = l"
  unfolding led_strip_def by (subst takeWhile_append2) (auto simp: text_line_def no_nul_def)

lemma chunks_text: "list_all text_line ls \<Longrightarrow> chunks 1024 (led_text ls) = typed_lines ls"
  unfolding led_text_def typed_lines_def by (rule chunks_lines) (auto simp: text_line_def list_all_iff)

lemma led_text_append [simp]: "led_text (ls @ ms) = led_text ls @ led_text ms"
  by (simp add: led_text_def)

lemma show_nat_first: "\<exists>c s. show_nat a = c # s \<and> isdigit c"
  using isdigit_show [of a] show_nat_neq_Nil [of a] by (cases "show_nat a") auto

lemma digit_neither:
  assumes "isdigit c"
  shows "\<not> isspace c" "c \<noteq> CHR ''-''" "c \<noteq> CHR ''+''" "c \<noteq> CHR ''.''" "c \<noteq> CHR ''$''" "c \<noteq> CHR ''/''" "c \<noteq> CHR '',''"
    "c \<noteq> CHR ''s''" "c \<noteq> CHR ''p''" "c \<noteq> CHR ''d''" "c \<noteq> LF" "c \<noteq> NUL" "c \<in> set ''0123456789.$''"
proof -
  have n: "of_char c \<in> {48..57::nat}" using assms by (simp add: isdigit_def code_def)
  then show "\<not> isspace c" "c \<noteq> CHR ''-''" "c \<noteq> CHR ''+''" "c \<noteq> CHR ''.''" "c \<noteq> CHR ''$''" "c \<noteq> CHR ''/''" "c \<noteq> CHR '',''"
    "c \<noteq> CHR ''s''" "c \<noteq> CHR ''p''" "c \<noteq> CHR ''d''" "c \<noteq> LF" "c \<noteq> NUL"
    by (auto simp: isspace_def code_def)
  have "map char_of [48..<58::nat] = ''0123456789''" by code_simp
  moreover have "of_char c \<in> set [48..<58::nat]" unfolding set_upt atLeastLessThan_iff using n by simp
  moreover have "c = char_of (of_char c :: nat)" by simp
  ultimately have "c \<in> set ''0123456789''" by (metis image_eqI list.set_map)
  then show "c \<in> set ''0123456789.$''" by auto
qed

lemma led_atoi_show:
  assumes "int a \<le> INT_MAX" "t = [] \<or> \<not> isdigit (hd t)"
  shows "led_atoi (show_nat a @ t) = Some (int a)"
proof -
  have w: "takeWhile isdigit (show_nat a @ t) = show_nat a"
    using isdigit_show [of a] assms(2) by (cases t) (auto simp: takeWhile_append2)
  obtain c s where s: "show_nat a = c # s" "isdigit c" using show_nat_first by blast
  then have d: "dropWhile isspace (show_nat a @ t) = show_nat a @ t" "hd0 (show_nat a @ t) = c"
    using digit_neither(1) by auto
  have "c \<noteq> CHR ''-''" "c \<noteq> CHR ''+''" using digit_neither(2,3) [OF s(2)] by auto
  then show ?thesis
    using assms(1) by (simp add: led_atoi_def Let_def d w)
qed

lemma numeric_address:
  assumes "int a \<le> INT_MAX" "t = [] \<or> \<not> isdigit (hd t)"
  shows "led_parse_address ed (show_nat a @ t) =
    Some (if 1 \<le> a \<and> a \<le> length (le_lines ed) then int a - 1 else - 1)"
proof -
  obtain c s where s: "show_nat a = c # s" "isdigit c" using show_nat_first by blast
  have "show_nat a @ t \<noteq> []" "show_nat a @ t \<noteq> ''.''" "show_nat a @ t \<noteq> ''$''" "hd (show_nat a @ t) \<noteq> CHR ''/''"
    using s digit_neither(4-6) [OF s(2)] by auto
  moreover have "(if int a \<le> 0 \<or> led_num ed < int a then - 1 else int a - 1)
      = (if 1 \<le> a \<and> a \<le> length (le_lines ed) then int a - 1 else (- 1 :: int))"
    by (auto simp: led_num_def)
  ultimately show ?thesis
    by (simp add: led_parse_address_def led_atoi_show [OF assms])
qed

section \<open>The loops\<close>

lemma led_swap_down_eq:
  "led_swap_down (p @ q @ x # s) (int (length p) + int (length q)) (int (length p) - 1) = Some (p @ x # q @ s)"
proof (induction q arbitrary: s rule: rev_induct)
  case Nil
  then show ?case by (simp add: led_swap_down.simps)
next
  case (snoc y q)
  let ?i = "int (length p) + int (length (q @ [y]))"
  let ?xs = "p @ (q @ [y]) @ x # s"
  have n: "nat ?i = length p + Suc (length q)" "nat (?i - 1) = length p + length q" by auto
  have g: "aget ?xs ?i = Some x" "aget ?xs (?i - 1) = Some y"
    using n by (auto simp: aget_def nth_append)
  have u: "aset ?xs ?i y = Some (p @ q @ y # y # s)" "aset (p @ q @ y # y # s) (?i - 1) x = Some (p @ q @ x # y # s)"
    using n by (auto simp: aset_def list_update_append)
  have b: "int (length p) - 1 + 1 < ?i" "?i - 1 = int (length p) + int (length q)" by simp_all
  show ?case
    using snoc [of "y # s"] unfolding led_swap_down.simps [of _ ?i] g u bind.bind_lunit if_P [OF b(1)] by (simp add: b(2) u(2) [unfolded b(2)])
qed

lemma led_append_loop_eq:
  assumes "list_all text_line ls" "list_all (\<lambda>l. l \<noteq> ''.'') ls"
  shows "led_append_loop (typed_lines ls @ ''.\<newline>'' # rest) (p @ r) (int (length p) - 1) =
    Some (p @ ls @ r, int (length p + length ls) - 1, rest)"
  using assms
proof (induction ls arbitrary: p)
  case Nil
  then show ?case by (simp add: led_strip_def)
next
  case (Cons l ls)
  have "led_swap_down (p @ r @ [l]) (int (length p) + int (length r)) (int (length p) - 1) = Some (p @ l # r)"
    using led_swap_down_eq [of p r l "[]"] by simp
  moreover have "led_append_loop (typed_lines ls @ ''.\<newline>'' # rest) ((p @ [l]) @ r) (int (length (p @ [l])) - 1) =
      Some ((p @ [l]) @ ls @ r, int (length (p @ [l]) + length ls) - 1, rest)"
    using Cons.prems by (intro Cons.IH) auto
  ultimately show ?case using Cons.prems by (simp add: Let_def)
qed

lemma led_insert_loop_eq:
  assumes "list_all text_line ls" "list_all (\<lambda>l. l \<noteq> ''.'') ls"
  shows "led_insert_loop (typed_lines ls @ ''.\<newline>'' # rest) (p @ r) (int (length p)) =
    Some (p @ ls @ r, int (length p + length ls), rest)"
  using assms
proof (induction ls arbitrary: p)
  case Nil
  then show ?case by (simp add: led_strip_def)
next
  case (Cons l ls)
  obtain ys where "loop_down ((p @ r) @ [[]]) (int (length (p @ r))) (int (length p)) 0 (- 1) = Some ys"
    "aset ys (int (length p)) l = Some (p @ l # r)"
    using loop_down_insert [of "int (length p)" "p @ r" "[]" l] by auto
  moreover have "led_insert_loop (typed_lines ls @ ''.\<newline>'' # rest) ((p @ [l]) @ r) (int (length (p @ [l]))) =
      Some ((p @ [l]) @ ls @ r, int (length (p @ [l]) + length ls), rest)"
    using Cons.prems by (intro Cons.IH) auto
  ultimately show ?case using Cons.prems by (simp add: Let_def add.commute)
qed


section \<open>The reference\<close>

text \<open>Commands as they are meant, and the lines that are typed for them.\<close>

datatype led_cmd =
    AppendAfter nat "string list"
  | InsertBefore nat "string list"
  | DeleteLines nat nat
  | PrintLines nat nat
  | GoTo nat
  | FindNext string
  | Replace string string
  | WriteTo string
  | Leave

fun written :: "led_cmd \<Rightarrow> string list" where
  "written (AppendAfter a ls) = (show_nat a @ ''a'') # ls @ [''.'']"
| "written (InsertBefore a ls) = (show_nat a @ ''i'') # ls @ [''.'']"
| "written (DeleteLines a b) = [show_nat a @ '','' @ show_nat b @ ''d'']"
| "written (PrintLines a b) = [show_nat a @ '','' @ show_nat b @ ''p'']"
| "written (GoTo a) = [show_nat a]"
| "written (FindNext re) = [''/'' @ re @ ''/'']"
| "written (Replace pat rep) = [''s/'' @ pat @ ''/'' @ rep @ ''/'']"
| "written (WriteTo f) = [''w'', f]"
| "written Leave = [''q'']"

definition led_word_ok :: "string \<Rightarrow> bool" where
  "led_word_ok s \<longleftrightarrow> list_all (\<lambda>c. c \<noteq> LF \<and> c \<noteq> NUL \<and> c \<noteq> CHR '','') s"

lemma led_word_ok_simps [simp]:
  "led_word_ok []" "led_word_ok (c # s) \<longleftrightarrow> c \<noteq> LF \<and> c \<noteq> NUL \<and> c \<noteq> CHR '','' \<and> led_word_ok s" "led_word_ok (s @ t) \<longleftrightarrow> led_word_ok s \<and> led_word_ok t"
  by (auto simp: led_word_ok_def)

lemma word_text:
  assumes "led_word_ok s"
  shows "length s \<le> 1022 \<Longrightarrow> text_line s" "CHR '','' \<notin> set s" "no_nul s"
  using assms by (auto simp: led_word_ok_def text_line_def no_nul_def list_all_iff)

fun cmd_ok :: "led_cmd \<Rightarrow> bool" where
  "cmd_ok (AppendAfter a ls) = (int a \<le> INT_MAX \<and> list_all text_line ls \<and> list_all (\<lambda>l. l \<noteq> ''.'') ls)"
| "cmd_ok (InsertBefore a ls) = (int a \<le> INT_MAX \<and> list_all text_line ls \<and> list_all (\<lambda>l. l \<noteq> ''.'') ls)"
| "cmd_ok (DeleteLines a b) = (int a \<le> INT_MAX \<and> int b \<le> INT_MAX)"
| "cmd_ok (PrintLines a b) = (int a \<le> INT_MAX \<and> int b \<le> INT_MAX)"
| "cmd_ok (GoTo a) = (int a \<le> INT_MAX)"
| "cmd_ok (FindNext re) = (plain_regex re \<and> led_word_ok re \<and> length re \<le> 1020)"
| "cmd_ok (Replace pat rep) =
     (literal_pattern pat \<and> reps_small pat \<and> led_word_ok pat \<and> led_word_ok rep \<and> length pat + length rep \<le> 1018
      \<and> list_all (\<lambda>c. c \<noteq> CHR ''/'') pat \<and> list_all (\<lambda>c. c \<noteq> CHR ''/'' \<and> c \<noteq> BSL) rep)"
| "cmd_ok (WriteTo f) = text_line f"
| "cmd_ok Leave = True"

text \<open>The buffer of the reference; its current line is a number from 1, or 0.\<close>

record Buffer =
  bf_lines :: "string list"
  bf_at :: nat
  bf_changed :: bool
  bf_shown :: string
  bf_disk :: "string \<rightharpoonup> string"

definition shown :: "string \<Rightarrow> Buffer \<Rightarrow> Buffer" where
  "shown s b = b\<lparr>bf_shown := bf_shown b @ s\<rparr>"

abbreviation (input) refused :: "Buffer \<Rightarrow> Buffer" where
  "refused b \<equiv> shown (''?'' @ [LF]) b"

text \<open>A range that is none stands for its first line, when there is such a line.\<close>

definition line_range :: "nat \<Rightarrow> nat \<Rightarrow> nat \<Rightarrow> (nat \<times> nat) option" where
  "line_range n a b = (if 1 \<le> a \<and> a \<le> b \<and> b \<le> n then Some (a, b) else if 1 \<le> a \<and> a \<le> n then Some (a, a) else None)"

definition first_replaced :: "string \<Rightarrow> string \<Rightarrow> string \<Rightarrow> string" where
  "first_replaced pat rep l =
     (case find (occurs_at l pat) [0..<Suc (length l)] of
        None \<Rightarrow> l | Some t \<Rightarrow> take t l @ rep @ drop (t + length pat) l)"

definition matched :: "string \<Rightarrow> string \<Rightarrow> bool" where
  "matched re l \<longleftrightarrow> (\<exists>t n. match_at l re t n)"

fun spec_command :: "(string \<Rightarrow> bool) \<Rightarrow> led_cmd \<Rightarrow> Buffer \<Rightarrow> Buffer option" where
  "spec_command writable (AppendAfter a ls) b =
     (let n = length (bf_lines b); k = (if 1 \<le> a \<and> a \<le> n then a else n)
      in Some (shown (led_prompt @ [LF]) b\<lparr>bf_lines := take k (bf_lines b) @ ls @ drop k (bf_lines b),
                 bf_at := k + length ls, bf_changed := True\<rparr>))"
| "spec_command writable (InsertBefore a ls) b =
     (if 1 \<le> a \<and> a \<le> length (bf_lines b)
      then Some (shown (led_prompt @ [LF]) b\<lparr>bf_lines := take (a - 1) (bf_lines b) @ ls @ drop (a - 1) (bf_lines b),
                 bf_at := a - 1 + length ls, bf_changed := True\<rparr>)
      else None)"
| "spec_command writable (DeleteLines a c) b =
     Some (case line_range (length (bf_lines b)) a c of
        None \<Rightarrow> refused b
      | Some (i, j) \<Rightarrow>
          (let ls = take (i - 1) (bf_lines b) @ drop j (bf_lines b)
           in b\<lparr>bf_lines := ls, bf_at := min i (length ls), bf_changed := True\<rparr>))"
| "spec_command writable (PrintLines a c) b =
     Some (case line_range (length (bf_lines b)) a c of
        None \<Rightarrow> refused b
      | Some (i, j) \<Rightarrow> shown (led_text (drop (i - 1) (take j (bf_lines b)))) b\<lparr>bf_at := j\<rparr>)"
| "spec_command writable (GoTo a) b = Some (if 1 \<le> a \<and> a \<le> length (bf_lines b) then b\<lparr>bf_at := a\<rparr> else b)"
| "spec_command writable (FindNext re) b =
     (if bf_at b = 0 then None
      else Some (case find (\<lambda>i. \<not> matched re (bf_lines b ! i)) ([bf_at b - 1..<length (bf_lines b)] @ [0..<bf_at b - 1]) of
        None \<Rightarrow> refused b
      | Some i \<Rightarrow> shown (bf_lines b ! i @ [LF]) b\<lparr>bf_at := Suc i\<rparr>))"
| "spec_command writable (Replace pat rep) b =
     Some (if bf_at b = 0 then refused b
           else b\<lparr>bf_lines := (bf_lines b)[bf_at b - 1 := first_replaced pat rep (bf_lines b ! (bf_at b - 1))],
                  bf_changed := True\<rparr>)"
| "spec_command writable (WriteTo f) b =
     (let b = shown ''Enter filename: '' b in
      Some (if \<not> writable f then refused b
            else shown (show_int (led_bytes (bf_lines b)) @ [LF])
                   b\<lparr>bf_disk := (bf_disk b)(f \<mapsto> led_text (bf_lines b)), bf_changed := False\<rparr>))"
| "spec_command writable Leave b = (if bf_changed b then Some (refused b) else None)"

fun spec_session :: "(string \<Rightarrow> bool) \<Rightarrow> led_cmd list \<Rightarrow> Buffer \<Rightarrow> Buffer option" where
  "spec_session writable [] b = Some b"
| "spec_session writable (c # cs) b = do { b \<leftarrow> spec_command writable c b; spec_session writable cs b }"

section \<open>The simulation\<close>

definition abs_led :: "lst \<Rightarrow> Buffer" where
  "abs_led st = (let (ed, w) = st in
     \<lparr>bf_lines = le_lines ed, bf_at = nat (le_current ed), bf_changed = le_dirty ed, bf_shown = lw_out w, bf_disk = lw_files w\<rparr>)"

lemma abs_led_fields [simp]:
  "bf_lines (abs_led (ed, w)) = le_lines ed" "bf_at (abs_led (ed, w)) = nat (le_current ed)"
  "bf_changed (abs_led (ed, w)) = le_dirty ed" "bf_shown (abs_led (ed, w)) = lw_out w" "bf_disk (abs_led (ed, w)) = lw_files w"
  by (simp_all add: abs_led_def)

definition led_inv :: "lst \<Rightarrow> bool" where
  "led_inv st \<longleftrightarrow> (let (ed, w) = st in
     0 \<le> le_current ed \<and> le_current ed \<le> led_num ed \<and> list_all no_nul (le_lines ed) \<and> lw_exit w = None)"


lemma show_number:
  assumes "int a \<le> INT_MAX"
  shows "length (show_nat a) \<le> 10" "LF \<notin> set (show_nat a)" "no_nul (show_nat a)" "CHR '','' \<notin> set (show_nat a)"
    "list_all (\<lambda>c. c \<noteq> CHR ''p'' \<and> c \<noteq> CHR ''d'' \<and> c \<noteq> CHR ''s'') (show_nat a)"
proof -
  show "length (show_nat a) \<le> 10" using assms by (intro length_show_nat) auto
  note d = digit_neither [OF bspec [OF isdigit_show [of a]]]
  show "LF \<notin> set (show_nat a)" "CHR '','' \<notin> set (show_nat a)" using d(11,7) by blast+
  show "no_nul (show_nat a)" unfolding no_nul_def using d(12) by blast
  show "list_all (\<lambda>c. c \<noteq> CHR ''p'' \<and> c \<noteq> CHR ''d'' \<and> c \<noteq> CHR ''s'') (show_nat a)"
    unfolding list_all_iff using d(9,10,8) by blast
qed

lemma take_word:
  assumes "list_all P s" "\<not> P x" "length s < n"
  shows "takeWhile P (take n (s @ x # r)) = s"
proof -
  obtain m where "n - length s = Suc m" using assms(3) by (cases "n - length s") auto
  then show ?thesis using assms by (simp add: list_all_iff takeWhile_append)
qed

lemma no_comma_range:
  assumes "text_line cmd" "CHR '','' \<notin> set cmd"
  shows "led_parse_range ed cmd = Some None"
proof -
  have "takeWhile (\<lambda>c. c \<noteq> CHR '','') (take 1023 cmd) = cmd"
    using assms by (auto simp: text_line_def intro: takeWhile_eq_all_conv [THEN iffD2])
  then show ?thesis by (simp add: led_parse_range_def)
qed

lemma numeric_range:
  assumes "int a \<le> INT_MAX" "int b \<le> INT_MAX" "op = CHR ''p'' \<or> op = CHR ''d''"
  shows "led_parse_range ed (show_nat a @ '','' @ show_nat b @ [op]) =
    Some (if 1 \<le> a \<and> a \<le> b \<and> b \<le> length (le_lines ed) then Some (int a - 1, int b - 1, op) else None)"
proof -
  have "takeWhile (\<lambda>c. c \<noteq> CHR '','') (take 1023 (show_nat a @ '','' @ show_nat b @ [op])) = show_nat a"
    using show_number [OF assms(1)] show_number(1) [OF assms(2)] by (simp add: takeWhile_append)
  moreover have "takeWhile (\<lambda>c. c \<noteq> CHR ''p'' \<and> c \<noteq> CHR ''d'' \<and> c \<noteq> CHR ''s'') (take 1023 (show_nat b @ [op])) = show_nat b"
    using show_number [OF assms(2)] assms(3) by (auto simp: list_all_iff intro!: takeWhile_append2)
  ultimately show ?thesis
    using numeric_address [OF assms(1), of "[]" ed] numeric_address [OF assms(2), of "[]" ed]
    by (simp add: led_parse_range_def Let_def)
qed

lemma led_exec_plain:
  assumes "cmd \<noteq> []" "text_line cmd" "led_parse_range (fst st) cmd = Some None"
  shows "led_execute_command (cmd @ [LF]) st = led_plain_command cmd st"
  using assms by (simp add: led_execute_command_def)

lemma led_exec_letter:
  assumes "int a \<le> INT_MAX" "op \<in> set ''aipdwq''"
  shows "led_execute_command ((show_nat a @ [op]) @ [LF]) st =
    (let addr = (if 1 \<le> a \<and> a \<le> length (le_lines (fst st)) then int a - 1 else - 1)
     in if addr < 0 \<and> op \<noteq> CHR ''a'' \<and> op \<noteq> CHR ''q'' \<and> op \<noteq> CHR ''w'' then Some (led_puts ''?'' st)
        else led_single_command addr op st)"
proof -
  obtain c s where s: "show_nat a = c # s" "isdigit c" using show_nat_first by blast
  have t: "text_line (show_nat a @ [op])" "CHR '','' \<notin> set (show_nat a @ [op])"
    using show_number [OF assms(1)] assms(2) by (auto simp: text_line_def)
  have n: "\<not> led_address_only (show_nat a @ [op])" using assms(2) by (auto simp: led_address_only_def)
  have h: "hd (show_nat a @ [op]) \<noteq> CHR ''/''" "hd (show_nat a @ [op]) \<noteq> CHR ''s''" using s digit_neither(6,8) [OF s(2)] by auto
  have "led_parse_address (fst st) (butlast (show_nat a @ [op])) =
      Some (if 1 \<le> a \<and> a \<le> length (le_lines (fst st)) then int a - 1 else - 1)"
    using numeric_address [OF assms(1), of "[]"] by simp
  then show ?thesis
    using led_exec_plain [OF _ t(1) no_comma_range [OF t], of st] n h by (simp add: led_plain_command_def Let_def case_prod_beta)
qed


definition follows :: "lst option \<Rightarrow> Buffer \<Rightarrow> string list \<Rightarrow> (string \<Rightarrow> bool) \<Rightarrow> bool" where
  "follows r b rest writable \<longleftrightarrow>
     (\<exists>st. r = Some st \<and> abs_led st = b \<and> led_inv st \<and> lw_in (snd st) = rest \<and> lw_writable (snd st) = writable)"

lemma follows_Some [simp]:
  "follows (Some (ed, w)) b rest writable \<longleftrightarrow>
     abs_led (ed, w) = b \<and> led_inv (ed, w) \<and> lw_in w = rest \<and> lw_writable w = writable"
  by (simp add: follows_def)

lemma list_all_text_nul: "list_all text_line ls \<Longrightarrow> list_all no_nul ls"
  by (auto simp: list_all_iff text_line_def)

lemma list_all_pieces: "list_all P xs \<Longrightarrow> list_all P (take k xs) \<and> list_all P (drop k xs)"
  by (auto simp: list_all_iff dest: in_set_takeD in_set_dropD)

lemma led_append_line_eq:
  assumes "k \<le> length (le_lines ed)" "lw_in w = typed_lines ls @ ''.\<newline>'' # rest"
    "list_all text_line ls" "list_all (\<lambda>l. l \<noteq> ''.'') ls"
  shows "led_append_line (int k - 1) (ed, w) =
    Some (ed\<lparr>le_lines := take k (le_lines ed) @ ls @ drop k (le_lines ed), le_current := int (k + length ls), le_dirty := True\<rparr>,
      w\<lparr>lw_out := lw_out w @ led_prompt @ [LF], lw_in := rest\<rparr>)"
  using led_append_loop_eq [OF assms(3,4), of rest "take k (le_lines ed)" "drop k (le_lines ed)"] assms(1,2)
    min_absorb2 [OF assms(1)] by (simp add: led_append_line_def led_puts_def)

lemma led_insert_line_eq:
  assumes "k \<le> length (le_lines ed)" "lw_in w = typed_lines ls @ ''.\<newline>'' # rest"
    "list_all text_line ls" "list_all (\<lambda>l. l \<noteq> ''.'') ls"
  shows "led_insert_line (int k) (ed, w) =
    Some (ed\<lparr>le_lines := take k (le_lines ed) @ ls @ drop k (le_lines ed), le_current := int (k + length ls), le_dirty := True\<rparr>,
      w\<lparr>lw_out := lw_out w @ led_prompt @ [LF], lw_in := rest\<rparr>)"
  using led_insert_loop_eq [OF assms(3,4), of rest "take k (le_lines ed)" "drop k (le_lines ed)"] assms(1,2)
    min_absorb2 [OF assms(1)] by (simp add: led_insert_line_def led_puts_def)

lemma led_delete_line_eq:
  assumes "1 \<le> i" "i \<le> j" "j \<le> length (le_lines ed)"
  shows "led_delete_line (int i - 1) (int j - 1) (ed, w) =
    Some (ed\<lparr>le_lines := take (i - 1) (le_lines ed) @ drop j (le_lines ed),
             le_current := int (min i (length (le_lines ed) - (j + 1 - i))), le_dirty := True\<rparr>, w)"
proof -
  let ?n = "int (length (le_lines ed))" and ?k = "int j - 1 - (int i - 1) + 1"
  have v: "\<not> led_bad_range ed (int i - 1) (int j - 1)" using assms by (auto simp: led_bad_range_def led_num_def)
  obtain ys where ys: "loop_up (le_lines ed) (int i - 1) (?n - ?k) 0 ?k = Some ys"
    "take (nat (?n - ?k)) ys = take (i - 1) (le_lines ed) @ drop j (le_lines ed)"
    using loop_up_delete [of "int i - 1" ?k "le_lines ed"] assms by (auto simp: nat_diff_distrib)
  have m: "(if int i - 1 + 1 > ?n - ?k then ?n - ?k else int i - 1 + 1) = int (min i (length (le_lines ed) - (j + 1 - i)))"
    using assms by auto
  show ?thesis unfolding led_delete_line_def Let_def prod.case if_not_P [OF v] led_num_def ys(1) bind.bind_lunit ys(2) m ..
qed

lemma led_print_line_eq:
  assumes "1 \<le> i" "i \<le> j" "j \<le> length (le_lines ed)"
  shows "led_print_line (int i - 1) (int j - 1) (ed, w) =
    (ed\<lparr>le_current := int j\<rparr>, w\<lparr>lw_out := lw_out w @ led_text (drop (i - 1) (take j (le_lines ed)))\<rparr>)"
proof -
  have "\<not> led_bad_range ed (int i - 1) (int j - 1)" using assms by (auto simp: led_bad_range_def led_num_def)
  moreover have "map (\<lambda>k. le_lines ed ! nat k @ [LF]) [int i - 1..int j - 1] = map (\<lambda>l. l @ [LF]) (drop (i - 1) (take j (le_lines ed)))"
    using assms by (intro nth_equalityI) (auto simp: nat_diff_distrib' nat_add_distrib)
  ultimately show ?thesis by (simp add: led_print_line_def led_text_def)
qed


lemmas led_state = abs_led_def led_inv_def shown_def led_puts_def led_num_def

lemma sim_append:
  assumes "cmd_ok (AppendAfter a ls)" "spec_command writable (AppendAfter a ls) (abs_led (ed, w)) = Some b" "led_inv (ed, w)"
    "lw_writable w = writable" "lw_in w = typed_lines (tl (written (AppendAfter a ls))) @ rest"
  shows "follows (led_execute_command (hd (written (AppendAfter a ls)) @ [LF]) (ed, w)) b rest writable"
proof -
  let ?k = "if 1 \<le> a \<and> a \<le> length (le_lines ed) then a else length (le_lines ed)"
  have "led_execute_command (hd (written (AppendAfter a ls)) @ [LF]) (ed, w) = led_append_line (int ?k - 1) (ed, w)"
    using assms(1) led_exec_letter [of a "CHR ''a''" "(ed, w)"] by (simp add: Let_def led_single_command_def led_num_def)
  also have "\<dots> = Some (ed\<lparr>le_lines := take ?k (le_lines ed) @ ls @ drop ?k (le_lines ed), le_current := int (?k + length ls), le_dirty := True\<rparr>,
      w\<lparr>lw_out := lw_out w @ led_prompt @ [LF], lw_in := rest\<rparr>)"
    using assms(1,5) by (intro led_append_line_eq) auto
  finally show ?thesis
    using assms(1-4) list_all_pieces [of no_nul "le_lines ed"] list_all_text_nul [of ls]
    by (simp add: Let_def led_state del: written.simps) auto
qed

lemma sim_insert:
  assumes "cmd_ok (InsertBefore a ls)" "spec_command writable (InsertBefore a ls) (abs_led (ed, w)) = Some b" "led_inv (ed, w)"
    "lw_writable w = writable" "lw_in w = typed_lines (tl (written (InsertBefore a ls))) @ rest"
  shows "follows (led_execute_command (hd (written (InsertBefore a ls)) @ [LF]) (ed, w)) b rest writable"
proof -
  have a: "1 \<le> a" "a \<le> length (le_lines ed)" using assms(2) by (auto simp: abs_led_def split: if_splits)
  have "led_execute_command (hd (written (InsertBefore a ls)) @ [LF]) (ed, w) = led_insert_line (int (a - 1)) (ed, w)"
    using assms(1) led_exec_letter [of a "CHR ''i''" "(ed, w)"] a by (simp add: Let_def led_single_command_def of_nat_diff)
  also have "\<dots> = Some (ed\<lparr>le_lines := take (a - 1) (le_lines ed) @ ls @ drop (a - 1) (le_lines ed), le_current := int (a - 1 + length ls), le_dirty := True\<rparr>,
      w\<lparr>lw_out := lw_out w @ led_prompt @ [LF], lw_in := rest\<rparr>)"
    using assms(1,5) a by (intro led_insert_line_eq) auto
  finally show ?thesis
    using assms(1-4) a list_all_pieces [of no_nul "le_lines ed"] list_all_text_nul [of ls]
    by (simp add: Let_def led_state del: written.simps) auto
qed

text \<open>A command with a range, and what it is when the range is none.\<close>

lemma led_exec_range:
  assumes "int a \<le> INT_MAX" "int c \<le> INT_MAX" "op = CHR ''p'' \<or> op = CHR ''d''"
  shows "led_execute_command ((show_nat a @ '','' @ show_nat c @ [op]) @ [LF]) (ed, w) =
    (case line_range (length (le_lines ed)) a c of
       None \<Rightarrow> Some (led_puts ''?'' (ed, w))
     | Some (i, j) \<Rightarrow> if op = CHR ''p'' then Some (led_print_line (int i - 1) (int j - 1) (ed, w))
                    else led_delete_line (int i - 1) (int j - 1) (ed, w))"
proof -
  let ?cmd = "show_nat a @ '','' @ show_nat c @ [op]"
  obtain d s where s: "show_nat a = d # s" "isdigit d" using show_nat_first by blast
  have t: "text_line ?cmd" "?cmd \<noteq> []"
    using show_number [OF assms(1)] show_number [OF assms(2)] assms(3) by (auto simp: text_line_def)
  have e: "led_execute_command (?cmd @ [LF]) (ed, w) = do {
      range \<leftarrow> led_parse_range ed ?cmd;
      case range of Some (start, stop, op) \<Rightarrow> led_range_command start stop op ?cmd (ed, w) | None \<Rightarrow> led_plain_command ?cmd (ed, w) }"
    unfolding led_execute_command_def strip_line [OF t(1)] Let_def using t(2) by simp
  have n: "\<not> led_address_only ?cmd" using assms(3) by (auto simp: led_address_only_def)
  have h: "hd ?cmd \<noteq> CHR ''/''" "hd ?cmd \<noteq> CHR ''s''" using s digit_neither(6,8) [OF s(2)] by auto
  have ad: "led_parse_address ed (butlast ?cmd) = Some (if 1 \<le> a \<and> a \<le> length (le_lines ed) then int a - 1 else - 1)"
    using numeric_address [OF assms(1), of "'','' @ show_nat c" ed] by (simp add: butlast_append isdigit_def code_def)
  have l: "last ?cmd = op" by simp
  have p: "led_plain_command ?cmd (ed, w) =
      (if 1 \<le> a \<and> a \<le> length (le_lines ed) then led_single_command (int a - 1) op (ed, w) else Some (led_puts ''?'' (ed, w)))"
    unfolding led_plain_command_def Let_def prod.case ad l using n h assms(3) by auto
  show ?thesis
    unfolding e numeric_range [OF assms] bind.bind_lunit p line_range_def using assms(3)
    by (auto simp: led_range_command_def led_single_command_def)
qed


lemma line_range_Some: "line_range n a c = Some (i, j) \<Longrightarrow> 1 \<le> i \<and> i \<le> j \<and> j \<le> n"
  by (auto simp: line_range_def split: if_splits)

lemma sim_delete:
  assumes "cmd_ok (DeleteLines a c)" "spec_command writable (DeleteLines a c) (abs_led (ed, w)) = Some b" "led_inv (ed, w)"
    "lw_writable w = writable" "lw_in w = rest"
  shows "follows (led_execute_command (hd (written (DeleteLines a c)) @ [LF]) (ed, w)) b rest writable"
proof (cases "line_range (length (le_lines ed)) a c")
  case None
  then show ?thesis using assms led_exec_range [of a c "CHR ''d''" ed w] by (auto simp: led_state)
next
  case (Some r)
  obtain i j where r: "r = (i, j)" by fastforce
  then have ij: "1 \<le> i" "i \<le> j" "j \<le> length (le_lines ed)" using line_range_Some Some by blast+
  then show ?thesis
    using assms led_exec_range [of a c "CHR ''d''" ed w] Some r led_delete_line_eq [OF ij, of w] list_all_pieces [of no_nul "le_lines ed"]
    by (auto simp: led_state Let_def)
qed

lemma sim_print:
  assumes "cmd_ok (PrintLines a c)" "spec_command writable (PrintLines a c) (abs_led (ed, w)) = Some b" "led_inv (ed, w)"
    "lw_writable w = writable" "lw_in w = rest"
  shows "follows (led_execute_command (hd (written (PrintLines a c)) @ [LF]) (ed, w)) b rest writable"
proof (cases "line_range (length (le_lines ed)) a c")
  case None
  then show ?thesis using assms led_exec_range [of a c "CHR ''p''" ed w] by (auto simp: led_state)
next
  case (Some r)
  obtain i j where r: "r = (i, j)" by fastforce
  then have ij: "1 \<le> i" "i \<le> j" "j \<le> length (le_lines ed)" using line_range_Some Some by blast+
  then show ?thesis
    using assms led_exec_range [of a c "CHR ''p''" ed w] Some r led_print_line_eq [OF ij, of w] by (auto simp: led_state)
qed

lemma sim_goto:
  assumes "cmd_ok (GoTo a)" "spec_command writable (GoTo a) (abs_led (ed, w)) = Some b" "led_inv (ed, w)"
    "lw_writable w = writable" "lw_in w = rest"
  shows "follows (led_execute_command (hd (written (GoTo a)) @ [LF]) (ed, w)) b rest writable"
proof -
  have a: "int a \<le> INT_MAX" using assms(1) by simp
  obtain d s where s: "show_nat a = d # s" "isdigit d" using show_nat_first by blast
  have t: "text_line (show_nat a)" "CHR '','' \<notin> set (show_nat a)" using show_number [OF a] by (auto simp: text_line_def)
  have n: "led_address_only (show_nat a)" "hd (show_nat a) \<noteq> CHR ''/''" "hd (show_nat a) \<noteq> CHR ''s''"
    using s digit_neither(6,8) [OF s(2)] isdigit_show [of a] digit_neither(13) by (auto simp: led_address_only_def list_all_iff)
  have e: "led_execute_command (hd (written (GoTo a)) @ [LF]) (ed, w) = led_plain_command (show_nat a) (ed, w)"
    using led_exec_plain [OF _ t(1), of "(ed, w)"] no_comma_range [OF t] by simp
  show ?thesis
    using assms(2-) numeric_address [OF a, of "[]" ed] n unfolding e
    by (auto simp: led_plain_command_def led_state)
qed

lemma sim_write:
  assumes "cmd_ok (WriteTo f)" "spec_command writable (WriteTo f) (abs_led (ed, w)) = Some b" "led_inv (ed, w)"
    "lw_writable w = writable" "lw_in w = typed_lines (tl (written (WriteTo f))) @ rest"
  shows "follows (led_execute_command (hd (written (WriteTo f)) @ [LF]) (ed, w)) b rest writable"
proof -
  have r: "led_parse_range ed ''w'' = Some None" by (rule no_comma_range) (simp_all add: text_line_def)
  have "led_execute_command (hd (written (WriteTo f)) @ [LF]) (ed, w) = led_write_file (ed, w)"
    using led_exec_plain [of "''w''" "(ed, w)"] r
    by (simp add: text_line_def led_plain_command_def led_address_only_def led_parse_address_def led_single_command_def)
  then show ?thesis using assms by (auto simp: led_write_file_def led_state Let_def)
qed

lemma led_exec_q: "led_execute_command [CHR ''q'', LF] (ed, w) = led_single_command (le_current ed - 1) (CHR ''q'') (ed, w)"
proof -
  have "led_parse_range ed ''q'' = Some None" by (rule no_comma_range) (simp_all add: text_line_def)
  then show ?thesis
    using led_exec_plain [of "''q''" "(ed, w)"]
    by (simp add: text_line_def led_plain_command_def led_address_only_def led_parse_address_def)
qed

lemma sim_leave:
  assumes "spec_command writable Leave (abs_led (ed, w)) = Some b" "led_inv (ed, w)" "lw_writable w = writable" "lw_in w = rest"
  shows "follows (led_execute_command (hd (written Leave) @ [LF]) (ed, w)) b rest writable"
proof -
  show ?thesis using assms by (auto simp: led_exec_q led_single_command_def led_state split: if_splits)
qed

lemma search_loop_eq:
  assumes "plain_regex re" "list_all no_nul lines" "i \<le> n" "n \<le> length lines"
  shows "led_search_loop lines re (int i) (int n) = Some (map_option int (find (\<lambda>k. \<not> matched re (lines ! k)) [i..<n]))"
  using assms(3)
proof (induction "n - i" arbitrary: i)
  case 0
  then show ?case by (simp add: led_search_loop.simps)
next
  case (Suc d)
  then have i: "i < n" "d = n - Suc i" by auto
  have l: "no_nul (lines ! i)" "aget lines (int i) = Some (lines ! i)" using assms(2,4) i by (auto simp: list_all_length)
  have s: "int i + 1 = int (Suc i)" by simp
  have "led_search_loop lines re (int i) (int n) =
      (if matched re (lines ! i) then led_search_loop lines re (int (Suc i)) (int n) else Some (Some (int i)))"
    using assms(1) l(1)
  proof (cases rule: regex_match)
    case (yes m)
    then show ?thesis using i unfolding led_search_loop.simps [of _ _ "int i"] l(2) yes(1) bind.bind_lunit s by (auto simp: matched_def)
  next
    case (no m)
    then show ?thesis using i unfolding led_search_loop.simps [of _ _ "int i"] l(2) no(1) bind.bind_lunit by (auto simp: matched_def)
  qed
  then show ?case using Suc(1) [of "Suc i"] i by (simp add: upt_conv_Cons)
qed

lemma search_eq:
  assumes "plain_regex re" "list_all no_nul (le_lines ed)" "1 \<le> c" "c \<le> length (le_lines ed)" "le_current ed = int c"
  shows "led_search ed re = Some (case find (\<lambda>k. \<not> matched re (le_lines ed ! k)) ([c - 1..<length (le_lines ed)] @ [0..<c - 1]) of
    None \<Rightarrow> - 1 | Some k \<Rightarrow> int k)"
proof -
  have f: "find P (xs @ ys) = (case find P xs of None \<Rightarrow> find P ys | Some k \<Rightarrow> Some k)" for P and xs ys :: "nat list"
    by (induction xs) auto
  have c: "le_current ed - 1 = int (c - 1)" using assms(3,5) by simp
  show ?thesis
    using search_loop_eq [OF assms(1,2), of "c - 1" "length (le_lines ed)"] search_loop_eq [OF assms(1,2), of 0 "c - 1"] assms(3,4)
    by (simp add: led_search_def c f led_num_def split: option.splits)
qed


lemma sim_find:
  assumes "cmd_ok (FindNext re)" "spec_command writable (FindNext re) (abs_led (ed, w)) = Some b" "led_inv (ed, w)"
    "lw_writable w = writable" "lw_in w = rest"
  shows "follows (led_execute_command (hd (written (FindNext re)) @ [LF]) (ed, w)) b rest writable"
proof -
  let ?cmd = "''/'' @ re @ ''/''" and ?n = "length (le_lines ed)" and ?c = "nat (le_current ed)"
  let ?r = "find (\<lambda>k. \<not> matched re (le_lines ed ! k)) ([?c - 1..<?n] @ [0..<?c - 1])"
  have "led_word_ok ?cmd" "length ?cmd \<le> 1022" using assms(1) by simp_all
  then have t: "text_line ?cmd" "CHR '','' \<notin> set ?cmd" using word_text by blast+
  have c: "1 \<le> ?c" "?c \<le> ?n" "le_current ed = int ?c" using assms(2,3) by (auto simp: led_state split: if_splits)
  have l: "list_all no_nul (le_lines ed)" using assms(3) by (simp add: led_inv_def)
  have "led_parse_address ed ?cmd = led_search ed re" by (simp add: led_parse_address_def)
  then have a: "led_parse_address ed ?cmd = Some (case ?r of None \<Rightarrow> - 1 | Some k \<Rightarrow> int k)"
    using search_eq [OF _ l c] assms(1) by simp
  have e: "led_execute_command (hd (written (FindNext re)) @ [LF]) (ed, w) = led_pattern_command ?cmd (ed, w)"
    using led_exec_plain [OF _ t(1), of "(ed, w)"] no_comma_range [OF t] by (simp add: led_plain_command_def)
  have b: "b = (case ?r of None \<Rightarrow> refused (abs_led (ed, w))
      | Some i \<Rightarrow> (shown (le_lines ed ! i @ [LF]) (abs_led (ed, w)))\<lparr>bf_at := Suc i\<rparr>)"
    using assms(2) c(1) unfolding spec_command.simps abs_led_fields by (simp split: if_splits)
  show ?thesis
  proof (cases ?r)
    case None
    show ?thesis
      using assms(3-) a unfolding e b None by (simp add: led_pattern_command_def) (simp add: led_state)
  next
    case (Some k)
    then have "k \<in> set ([?c - 1..<?n] @ [0..<?c - 1])" unfolding find_Some_iff by (elim exE conjE) (metis nth_mem)
    then have k: "k < ?n" using c(2) by auto
    then have "drop k (take (Suc k) (le_lines ed)) = [le_lines ed ! k]" by (simp add: take_Suc_conv_app_nth)
    then show ?thesis
      using assms(3-) a k led_print_line_eq [of "Suc k" "Suc k" "ed\<lparr>le_current := int k + 1\<rparr>" w] unfolding e b Some
      by (simp add: led_pattern_command_def led_num_def) (simp add: led_state led_text_def)
  qed
qed

lemma first_replaced_is:
  assumes "literal_pattern pat" "reps_small pat" "no_nul l" "list_all (\<lambda>c. c \<noteq> BSL) rep"
  shows "bre_substitute l pat rep = Some (Some (first_replaced pat rep l))"
proof (cases "find (occurs_at l pat) [0..<Suc (length l)]")
  case None
  then have "\<forall>t. \<not> occurs_at l pat t" by (auto simp: find_None_iff occurs_at_def simp del: upt_Suc)
  then obtain m where "bre_match l pat = Some (BRE_NOMATCH, m)" using literal_bre_match [OF assms(1-3)] by blast
  then show ?thesis using None by (simp add: bre_substitute_def first_replaced_def)
next
  case (Some t)
  then have "occurs_at l pat t" "\<forall>t' < t. \<not> occurs_at l pat t'" by (auto simp: find_Some_iff simp del: upt_Suc)
  then show ?thesis using Some literal_substitute [OF assms] by (simp add: first_replaced_def)
qed

lemma no_nul_first_replaced: "no_nul l \<Longrightarrow> no_nul rep \<Longrightarrow> no_nul (first_replaced pat rep l)"
  by (auto simp: first_replaced_def no_nul_def split: option.splits dest: in_set_takeD in_set_dropD)

lemma sim_replace:
  assumes "cmd_ok (Replace pat rep)" "spec_command writable (Replace pat rep) (abs_led (ed, w)) = Some b" "led_inv (ed, w)"
    "lw_writable w = writable" "lw_in w = rest"
  shows "follows (led_execute_command (hd (written (Replace pat rep)) @ [LF]) (ed, w)) b rest writable"
proof -
  let ?cmd = "''s/'' @ pat @ ''/'' @ rep @ ''/''" and ?c = "nat (le_current ed)"
  have "led_word_ok ?cmd" "length ?cmd \<le> 1022" using assms(1) by simp_all
  then have t: "text_line ?cmd" "CHR '','' \<notin> set ?cmd" using word_text by blast+
  have e: "led_execute_command (hd (written (Replace pat rep)) @ [LF]) (ed, w) =
      led_substitute_line (le_current ed - 1) (le_current ed - 1) ?cmd (ed, w)"
    using led_exec_plain [OF _ t(1), of "(ed, w)"] no_comma_range [OF t] by (simp add: led_plain_command_def led_pattern_command_def)
  have pt: "takeWhile (\<lambda>c. c \<noteq> CHR ''/'') (take 1023 (pat @ ''/'' @ rep @ ''/'')) = pat"
    unfolding append_Cons append_Nil by (rule take_word) (use assms(1) in \<open>auto simp: list_all_iff\<close>)
  have rt: "takeWhile (\<lambda>c. c \<noteq> CHR ''/'') (take 1023 (rep @ ''/'')) = rep"
    by (rule take_word) (use assms(1) in \<open>auto simp: list_all_iff\<close>)
  show ?thesis
  proof (cases "?c = 0")
    case True
    then have "led_bad_range ed (le_current ed - 1) (le_current ed - 1)" using assms(3) by (auto simp: led_state led_bad_range_def)
    then show ?thesis using assms(2-) True unfolding e by (auto simp: led_substitute_line_def led_state)
  next
    case False
    let ?i = "?c - 1"
    let ?l = "first_replaced pat rep (le_lines ed ! ?i)"
    have i: "le_current ed - 1 = int ?i" "?i < length (le_lines ed)" using False assms(3) by (auto simp: led_state)
    have n: "list_all no_nul (le_lines ed)" "no_nul (le_lines ed ! ?i)" "no_nul rep"
      using assms(1,3) i(2) word_text(3) [of rep] by (auto simp: led_inv_def list_all_length)
    have v: "\<not> led_bad_range ed (int ?i) (int ?i)" using i(2) by (auto simp: led_bad_range_def led_num_def)
    have "bre_substitute (le_lines ed ! ?i) pat rep = Some (Some ?l)"
      using assms(1) n by (intro first_replaced_is) (auto simp: list_all_iff)
    then have s: "led_subst_loop (le_lines ed) pat rep (int ?i) (int ?i) = Some ((le_lines ed)[?i := ?l], True)"
      using i(2) by (simp add: led_subst_loop.simps)
    have "led_substitute_line (int ?i) (int ?i) ?cmd (ed, w) =
        Some (ed\<lparr>le_lines := (le_lines ed)[?i := ?l], le_dirty := True, le_current := int ?i + 1\<rparr>, w)"
      using v pt rt s by (simp add: led_substitute_line_def Let_def)
    moreover have "list_all no_nul ((le_lines ed)[?i := ?l])"
      using n no_nul_first_replaced [OF n(2,3)] set_update_subset_insert [of "le_lines ed" ?i ?l] unfolding list_all_iff by blast
    ultimately show ?thesis using assms(2-) i False unfolding e i(1) by (auto simp: led_state)
  qed
qed


lemma sim_command:
  assumes "cmd_ok c" "spec_command writable c (abs_led (ed, w)) = Some b" "led_inv (ed, w)"
    "lw_writable w = writable" "lw_in w = typed_lines (tl (written c)) @ rest"
  shows "follows (led_execute_command (hd (written c) @ [LF]) (ed, w)) b rest writable"
proof (cases c)
  case (AppendAfter a ls)
  show ?thesis using assms unfolding AppendAfter by (rule sim_append)
next
  case (InsertBefore a ls)
  show ?thesis using assms unfolding InsertBefore by (rule sim_insert)
next
  case (DeleteLines a e)
  show ?thesis using assms unfolding DeleteLines by (intro sim_delete) simp_all
next
  case (PrintLines a e)
  show ?thesis using assms unfolding PrintLines by (intro sim_print) simp_all
next
  case (GoTo a)
  show ?thesis using assms unfolding GoTo by (intro sim_goto) simp_all
next
  case (FindNext re)
  show ?thesis using assms unfolding FindNext by (intro sim_find) simp_all
next
  case (Replace pat rep)
  show ?thesis using assms unfolding Replace by (intro sim_replace) simp_all
next
  case (WriteTo f)
  show ?thesis using assms unfolding WriteTo by (rule sim_write)
next
  case Leave
  show ?thesis using assms unfolding Leave by (intro sim_leave) simp_all
qed

lemma written_hd_tl: "written c = hd (written c) # tl (written c)"
  by (cases c) simp_all

lemma abs_led_in [simp]: "abs_led (ed, w\<lparr>lw_in := x\<rparr>) = abs_led (ed, w)" "led_inv (ed, w\<lparr>lw_in := x\<rparr>) = led_inv (ed, w)"
  by (simp_all add: abs_led_def led_inv_def)

lemma session_loop:
  assumes "list_all cmd_ok cs" "spec_session writable cs (abs_led st) = Some b" "led_inv st"
    "lw_writable (snd st) = writable" "lw_in (snd st) = typed_lines (concat (map written cs)) @ rest"
  shows "\<exists>st' buf. led_loop (length cs + fuel) cmd st = led_loop fuel buf st' \<and> follows (Some st') b rest writable"
  using assms
proof (induction cs arbitrary: st cmd)
  case Nil
  then show ?case by (intro exI [of _ st] exI [of _ cmd]) (simp add: follows_def)
next
  case (Cons c cs)
  obtain ed w where st: "st = (ed, w)" by fastforce
  let ?rest = "typed_lines (concat (map written cs)) @ rest"
  let ?w = "w\<lparr>lw_in := typed_lines (tl (written c)) @ ?rest\<rparr>"
  have inp: "lw_in w = (hd (written c) @ [LF]) # typed_lines (tl (written c)) @ ?rest"
    using Cons.prems(5) arg_cong [OF written_hd_tl [of c], of typed_lines] st by simp
  obtain b1 where b1: "spec_command writable c (abs_led st) = Some b1" "spec_session writable cs b1 = Some b"
    using Cons.prems(2) by (auto split: bind_splits)
  have "follows (led_execute_command (hd (written c) @ [LF]) (ed, ?w)) b1 ?rest writable"
    using Cons.prems b1(1) st by (intro sim_command) simp_all
  then obtain st1 where st1: "led_execute_command (hd (written c) @ [LF]) (ed, ?w) = Some st1"
    "abs_led st1 = b1" "led_inv st1" "lw_in (snd st1) = ?rest" "lw_writable (snd st1) = writable"
    unfolding follows_def by blast
  have "lw_exit (snd st1) = None" using st1(3) by (simp add: led_inv_def case_prod_beta)
  then have "led_loop (length (c # cs) + fuel) cmd st = led_loop (length cs + fuel) (Some (hd (written c) @ [LF])) st1"
    using st inp st1(1) by simp
  then show ?case
    using Cons.IH [of st1 "Some (hd (written c) @ [LF])"] Cons.prems(1) b1(2) st1 by simp
qed

text \<open>The buffer after a file has been read, and the banner.\<close>

definition opened :: "string list \<Rightarrow> (string \<rightharpoonup> string) \<Rightarrow> Buffer" where
  "opened ls disk = \<lparr>bf_lines = ls, bf_at = length ls, bf_changed = False,
     bf_shown = show_int (led_bytes ls) @ [LF] @ led_banner @ [LF], bf_disk = disk\<rparr>"

lemma strip_typed: "list_all text_line ls \<Longrightarrow> map led_strip (typed_lines ls) = ls"
  by (induction ls) simp_all

lemma written_lines:
  assumes "cmd_ok c"
  shows "list_all text_line (written c)"
proof -
  have n: "text_line (show_nat a @ t)" if "int a \<le> INT_MAX" "length t \<le> 1000" "LF \<notin> set t" "no_nul t" for a t
    using show_number [OF that(1)] that(2-4) by (simp add: text_line_def)
  have m: "length (show_nat a) \<le> 10 \<and> LF \<notin> set (show_nat a) \<and> no_nul (show_nat a)" if "int a \<le> INT_MAX" for a
    using show_number [OF that] by blast
  have r: "text_line (show_nat a @ CHR '','' # show_nat b @ [op])" if "int a \<le> INT_MAX" "int b \<le> INT_MAX" "op \<noteq> LF" "op \<noteq> NUL" for a b op
    using m [OF that(2)] that by (intro n) auto
  show ?thesis
  proof (cases c)
    case (GoTo a)
    then show ?thesis using assms n [of a "[]"] by simp
  next
    case (FindNext re)
    then have "led_word_ok (''/'' @ re @ ''/'')" "length (''/'' @ re @ ''/'') \<le> 1022" using assms by simp_all
    then show ?thesis using FindNext word_text(1) by fastforce
  next
    case (Replace pat rep)
    then have "led_word_ok (''s/'' @ pat @ ''/'' @ rep @ ''/'')" "length (''s/'' @ pat @ ''/'' @ rep @ ''/'') \<le> 1022"
      using assms by simp_all
    then show ?thesis using Replace word_text(1) by fastforce
  next
    case Leave
    then show ?thesis by (simp add: text_line_def)
  next
    case (WriteTo f)
    then show ?thesis using assms by (simp add: text_line_def)
  next
    case (AppendAfter a ls)
    then show ?thesis using assms n [of a "''a''"] by (simp add: text_line_def)
  next
    case (InsertBefore a ls)
    then show ?thesis using assms n [of a "''i''"] by (simp add: text_line_def)
  qed (use assms r in simp_all)
qed


lemma started:
  assumes "files f = Some (led_text ls)" "list_all text_line ls" "list_all text_line input"
  obtains st where "led_main fuel [p, f] (led_text input) files writable = led_loop fuel None st"
    "abs_led st = opened ls files" "led_inv st" "lw_writable (snd st) = writable" "lw_in (snd st) = typed_lines input"
proof -
  define st where "st = (\<lparr>le_lines = ls, le_current = int (length ls), le_dirty = False\<rparr>,
    \<lparr>lw_in = typed_lines input, lw_out = show_int (led_bytes ls) @ [LF] @ led_banner @ [LF],
     lw_files = files, lw_writable = writable, lw_exit = None\<rparr>)"
  have "led_main fuel [p, f] (led_text input) files writable = led_loop fuel None st"
    unfolding led_main_def chunks_text [OF assms(3)] using assms(1) chunks_text [OF assms(2)] strip_typed [OF assms(2)]
    by (simp add: led_load_file_def led_init_def led_puts_def st_def)
  moreover have "abs_led st = opened ls files" "led_inv st" "lw_writable (snd st) = writable" "lw_in (snd st) = typed_lines input"
    using list_all_text_nul [OF assms(2)] by (simp_all add: st_def abs_led_def opened_def led_inv_def led_num_def)
  ultimately show thesis by (rule that)
qed

lemma all_written: "list_all cmd_ok cs \<Longrightarrow> list_all text_line (concat (map written cs))"
  using written_lines by (induction cs) simp_all


text \<open>At the end of the input the buffer of the command keeps the last command.\<close>

lemma repeated_print:
  assumes "int a \<le> INT_MAX" "1 \<le> a" "a \<le> length (bf_lines b)" "abs_led st = b" "led_inv st" "lw_in (snd st) = []"
  shows "\<exists>st'. led_loop k (Some ((show_nat a @ '','' @ show_nat a @ ''p'') @ [LF])) st = Running st'
    \<and> abs_led st' = b\<lparr>bf_at := (if k = 0 then bf_at b else a), bf_shown := bf_shown b @ concat (replicate k (bf_lines b ! (a - 1) @ [LF]))\<rparr>"
  using assms(3-)
proof (induction k arbitrary: st b)
  case 0
  then show ?case by simp
next
  case (Suc k)
  obtain ed w where st: "st = (ed, w)" by fastforce
  let ?cmd = "PrintLines a a" and ?b = "shown (bf_lines b ! (a - 1) @ [LF]) (b\<lparr>bf_at := a\<rparr>)"
  have d: "drop (a - 1) (take a (bf_lines b)) = [bf_lines b ! (a - 1)]"
    using assms(2) Suc.prems(1) take_Suc_conv_app_nth [of "a - 1" "bf_lines b"] by simp
  have "spec_command (lw_writable w) ?cmd (abs_led (ed, w)) = Some ?b"
    using assms(2) Suc.prems(1,2) st d by (simp add: line_range_def led_text_def shown_def)
  then have "follows (led_execute_command (hd (written ?cmd) @ [LF]) (ed, w)) ?b [] (lw_writable w)"
    using Suc.prems(3,4) st assms(1) by (intro sim_command) simp_all
  then obtain st1 where st1: "led_execute_command ((show_nat a @ '','' @ show_nat a @ ''p'') @ [LF]) (ed, w) = Some st1"
    "abs_led st1 = ?b" "led_inv st1" "lw_in (snd st1) = []"
    unfolding follows_def by auto
  have e: "lw_exit (snd st1) = None" using st1(3) by (simp add: led_inv_def case_prod_beta)
  obtain st2 where st2: "led_loop k (Some ((show_nat a @ '','' @ show_nat a @ ''p'') @ [LF])) st1 = Running st2"
    "abs_led st2 = ?b\<lparr>bf_at := (if k = 0 then bf_at ?b else a), bf_shown := bf_shown ?b @ concat (replicate k (bf_lines ?b ! (a - 1) @ [LF]))\<rparr>"
    using Suc.IH [OF _ st1(2-4)] Suc.prems(1) by (auto simp: shown_def)
  show ?case
    using st1(1) e st2 Suc.prems(4) st by (intro exI [of _ st2]) (simp add: shown_def del: append_assoc)
qed

text \<open>C38. The end of the input does not end \<open>led\<close>: a last command that prints a line is executed again in every further
  round of the endless loop, once for each unit of fuel.\<close>

theorem led_end_of_input_repeats:
  assumes "files f = Some (led_text ls)" "list_all text_line ls" "list_all cmd_ok cs"
    "spec_session writable cs (opened ls files) = Some b" "1 \<le> a" "a \<le> length (bf_lines b)" "int a \<le> INT_MAX"
  shows "\<exists>st. led_main (length cs + Suc k) [p, f] (led_text (concat (map written (cs @ [PrintLines a a])))) files writable = Running st
    \<and> bf_shown (abs_led st) = bf_shown b @ concat (replicate (Suc k) (bf_lines b ! (a - 1) @ [LF]))"
proof -
  let ?lines = "concat (map written cs)" and ?cmd = "show_nat a @ '','' @ show_nat a @ ''p''"
  have "list_all text_line (concat (map written (cs @ [PrintLines a a])))" by (rule all_written) (use assms(3,7) in simp)
  then obtain st where main: "led_main (length cs + Suc k) [p, f] (led_text (concat (map written (cs @ [PrintLines a a])))) files writable
      = led_loop (length cs + Suc k) None st"
    and i: "abs_led st = opened ls files" "led_inv st" "lw_writable (snd st) = writable"
      "lw_in (snd st) = typed_lines (concat (map written (cs @ [PrintLines a a])))"
    by (rule started [where files = files and f = f, OF assms(1,2), of _ "length cs + Suc k" p writable]) blast
  obtain st' buf where l: "led_loop (length cs + Suc k) None st = led_loop (Suc k) buf st'" "follows (Some st') b [?cmd @ [LF]] writable"
    using session_loop [OF assms(3) assms(4) [folded i(1)] i(2,3), of "[?cmd @ [LF]]" "Suc k" None] i(4) by auto
  obtain ed w where st': "st' = (ed, w)" by fastforce
  have f: "abs_led (ed, w) = b" "led_inv (ed, w)" "lw_in w = [?cmd @ [LF]]" using l(2) st' by simp_all
  have "led_loop (Suc k) buf st' = led_loop (Suc k) (Some (?cmd @ [LF])) (ed, w\<lparr>lw_in := []\<rparr>)"
    using f(3) st' by simp
  then show ?thesis
    using repeated_print [OF assms(7,5,6), of "(ed, w\<lparr>lw_in := []\<rparr>)" "Suc k"] f(1,2) main l(1) by fastforce
qed

section \<open>Substitutions over a range\<close>

lemma range_not_s:
  assumes "led_parse_range ed cmd = Some (Some r)"
  shows "hd0 cmd \<noteq> CHR ''s''"
proof
  assume s: "hd0 cmd = CHR ''s''"
  then obtain x where x: "cmd = CHR ''s'' # x" by (cases cmd) auto
  have "led_parse_address ed (CHR ''s'' # y) = Some (- 1)" for y
    by (simp add: led_parse_address_def led_atoi_def isspace_def isdigit_def code_def)
  then show False using assms unfolding x by (auto simp: led_parse_range_def Let_def split: if_splits bind_splits)
qed

text \<open>C39. A substitution over a range, \<open>1,2s/a/b/\<close>, is always refused, in every state: the text of the command that is
  checked for a leading \<open>s\<close> still begins with the addresses.\<close>

theorem led_range_substitute_refused:
  assumes "led_parse_range (fst st) (led_strip buf) = Some (Some (start, stop, CHR ''s''))"
  shows "led_execute_command buf st = Some (led_puts ''?'' st)"
proof -
  have "led_strip buf \<noteq> []" using assms by (auto simp: led_parse_range_def)
  moreover have "led_substitute_line start stop (led_strip buf) st = Some (led_puts ''?'' st)"
    using range_not_s [OF assms] by (simp add: led_substitute_line_def case_prod_beta)
  ultimately show ?thesis using assms by (simp add: led_execute_command_def led_range_command_def)
qed

section \<open>Witnesses\<close>

definition led_files :: "string \<rightharpoonup> string" where
  "led_files = [''f'' \<mapsto> led_text [''one'', ''two'']]"

definition led_script :: "led_cmd list" where
  "led_script = [AppendAfter 1 [''x''], PrintLines 1 9, WriteTo ''f'']"

definition led_final :: Buffer where
  "led_final = \<lparr>bf_lines = [''one'', ''x'', ''two''], bf_at = 1, bf_changed = False,
     bf_shown = ''8'' @ [LF] @ led_banner @ [LF] @ led_prompt @ [LF] @ ''one'' @ [LF] @ ''Enter filename: '' @ ''10'' @ [LF],
     bf_disk = [''f'' \<mapsto> led_text [''one'', ''x'', ''two'']]\<rparr>"

lemma led_shown: "show_int 8 = ''8''" "show_int 10 = ''10''"
  by code_simp+

lemma led_script_result: "spec_session (\<lambda>_. True) led_script (opened [''one'', ''two''] led_files) = Some led_final"
  by (simp add: led_script_def opened_def led_final_def line_range_def shown_def led_text_def led_bytes_def led_shown led_files_def)

lemma led_script_ok: "list_all cmd_ok led_script" "list_all text_line [''one'', ''two'']" "led_files ''f'' = Some (led_text [''one'', ''two''])"
  by (simp_all add: led_script_def text_line_def led_files_def)


theorem led_end_of_input_repeats_witness:
  "\<exists>st. led_main (length led_script + Suc 2) [''led'', ''f''] (led_text (concat (map written (led_script @ [PrintLines 2 2])))) led_files (\<lambda>_. True) = Running st
     \<and> bf_shown (abs_led st) = bf_shown led_final @ concat (replicate (Suc 2) (bf_lines led_final ! (2 - 1) @ [LF]))"
  by (rule led_end_of_input_repeats [OF led_script_ok(3,2,1) led_script_result]) (simp_all add: led_final_def)

definition led_two :: LedEditor where
  "led_two = led_init\<lparr>le_lines := [''a'', ''a''], le_current := 2\<rparr>"

definition led_world :: LedWorld where
  "led_world = \<lparr>lw_in = [], lw_out = [], lw_files = led_files, lw_writable = (\<lambda>_. True), lw_exit = None\<rparr>"

theorem led_range_substitute_refused_witness:
  "led_execute_command ''1,2s/a/b/\<newline>'' (led_two, led_world) =
     Some (led_puts ''?'' (led_two, led_world))"
proof -
  have "led_parse_range led_two ''1,2s/a/b/'' = Some (Some (0, 1, CHR ''s''))"
    by code_simp
  then show ?thesis
    by (intro led_range_substitute_refused [of _ _ 0 1]) (simp add: led_strip_def)
qed

end
