(* ===== verification/Tools.thy ===== *)
theory Tools
  imports Prelude
begin

text \<open>
  The small tools of \<open>level1\<close>: \<open>cp.c\<close>, \<open>mv.c\<close>, \<open>rm.c\<close>, \<open>echo.c\<close> and \<open>ifc.c\<close>. \<open>argv\<close> holds the name of the program
  and its arguments. A file is its list of characters; \<open>tw_readable\<close> and \<open>tw_writable\<close> say whether an existing file
  can be opened for reading and a name for writing, \<open>tw_removable\<close> whether a directory entry can be taken away.
  A failing write to an open file is not modelled. \<open>rename\<close> and \<open>remove\<close> are the functions of the C library on
  files; \<open>system\<close> is a parameter.
\<close>

record ToolWorld =
  tw_files :: "string \<rightharpoonup> string"
  tw_readable :: "string \<Rightarrow> bool"
  tw_writable :: "string \<Rightarrow> bool"
  tw_removable :: "string \<Rightarrow> bool"
  tw_out :: string
  tw_err :: string

abbreviation (input) tool_eol :: string where "tool_eol \<equiv> [CHR 0x0A]"
abbreviation (input) tool_quote :: "string \<Rightarrow> string" where "tool_quote s \<equiv> [CHR 0x27] @ s @ [CHR 0x27]"

definition tool_print :: "string \<Rightarrow> ToolWorld \<Rightarrow> ToolWorld" where
  "tool_print s w = w\<lparr>tw_out := tw_out w @ s\<rparr>"

definition tool_error :: "string \<Rightarrow> ToolWorld \<Rightarrow> ToolWorld" where
  "tool_error s w = w\<lparr>tw_err := tw_err w @ s @ tool_eol\<rparr>"

definition tool_helps :: "string list \<Rightarrow> bool" where
  "tool_helps argv \<longleftrightarrow> length argv < 2 \<or> argv ! 1 = ''-h'' \<or> argv ! 1 = ''--help''"

section \<open>\<open>cp\<close>\<close>

definition cp_help :: string where
  "cp_help = ''Usage: cp source dest'' @ tool_eol @ ''Copy a file from source to destination.'' @ tool_eol
     @ ''Options:'' @ tool_eol @ ''  -h, --help  Display this help message'' @ tool_eol"

text \<open>The source is read while the destination, truncated before, is written: a file copied to itself is empty.\<close>

definition cp_main :: "string list \<Rightarrow> ToolWorld \<Rightarrow> int \<times> ToolWorld" where
  "cp_main argv w =
     (if tool_helps argv then ((if length argv < 2 then 1 else 0), tool_print cp_help w)
      else if length argv \<noteq> 3 then
        (1, tool_print cp_help (tool_error ''Error: Expected exactly 2 arguments (source and dest)'' w))
      else
        (let source = argv ! 1; dest = argv ! 2
         in if tw_files w source = None \<or> \<not> tw_readable w source then
              (1, tool_error (''Error: Cannot open source file '' @ tool_quote source) w)
            else if \<not> tw_writable w dest then
              (1, tool_error (''Error: Cannot open destination file '' @ tool_quote dest) w)
            else
              (let w = w\<lparr>tw_files := (tw_files w)(dest \<mapsto> [])\<rparr>
               in (0, w\<lparr>tw_files := (tw_files w)(dest := tw_files w source)\<rparr>))))"

section \<open>\<open>mv\<close> and \<open>rm\<close>\<close>

definition mv_help :: string where
  "mv_help = ''Usage: mv source dest'' @ tool_eol @ ''Move (rename) a file from source to destination.'' @ tool_eol
     @ ''Options:'' @ tool_eol @ ''  -h, --help  Display this help message'' @ tool_eol"

definition tool_rename :: "string \<Rightarrow> string \<Rightarrow> ToolWorld \<Rightarrow> ToolWorld option" where
  "tool_rename source dest w =
     (if tw_files w source = None \<or> \<not> tw_removable w source \<or> \<not> tw_writable w dest then None
      else if source = dest then Some w
      else Some (w\<lparr>tw_files := (tw_files w)(dest := tw_files w source, source := None)\<rparr>))"

definition mv_main :: "string list \<Rightarrow> ToolWorld \<Rightarrow> int \<times> ToolWorld" where
  "mv_main argv w =
     (if tool_helps argv then ((if length argv < 2 then 1 else 0), tool_print mv_help w)
      else if length argv \<noteq> 3 then
        (1, tool_print mv_help (tool_error ''Error: Expected exactly 2 arguments (source and dest)'' w))
      else
        (let source = argv ! 1; dest = argv ! 2
         in case tool_rename source dest w of
              None \<Rightarrow> (1, tool_error (''Error: Cannot move '' @ tool_quote source @ '' to '' @ tool_quote dest) w)
            | Some w \<Rightarrow> (0, w)))"

definition rm_help :: string where
  "rm_help = ''Usage: rm file'' @ tool_eol @ ''Remove a file.'' @ tool_eol
     @ ''Options:'' @ tool_eol @ ''  -h, --help  Display this help message'' @ tool_eol"

definition tool_remove :: "string \<Rightarrow> ToolWorld \<Rightarrow> ToolWorld option" where
  "tool_remove file w =
     (if tw_files w file = None \<or> \<not> tw_removable w file then None
      else Some (w\<lparr>tw_files := (tw_files w)(file := None)\<rparr>))"

definition rm_main :: "string list \<Rightarrow> ToolWorld \<Rightarrow> int \<times> ToolWorld" where
  "rm_main argv w =
     (if tool_helps argv then ((if length argv < 2 then 1 else 0), tool_print rm_help w)
      else if length argv \<noteq> 2 then
        (1, tool_print rm_help (tool_error ''Error: Expected exactly 1 argument (file to remove)'' w))
      else
        (case tool_remove (argv ! 1) w of
           None \<Rightarrow> (1, tool_error (''Error: Cannot remove file '' @ tool_quote (argv ! 1)) w)
         | Some w \<Rightarrow> (0, w)))"

section \<open>\<open>echo\<close>\<close>

definition echo_help :: string where
  "echo_help = ''Usage: echo [options] [text ...]'' @ tool_eol @ ''Print text to stdout.'' @ tool_eol
     @ ''Options:'' @ tool_eol @ ''  -h, --help  Display this help message'' @ tool_eol
     @ ''  -n          Do not append a newline'' @ tool_eol @ ''If no text is provided, prints a single newline.'' @ tool_eol"

text \<open>The loop over the options: \<^term>\<open>None\<close> for the help, otherwise \<open>newline\<close> and the arguments left.\<close>

fun echo_options :: "string list \<Rightarrow> bool \<Rightarrow> (bool \<times> string list) option" where
  "echo_options [] newline = Some (newline, [])"
| "echo_options (a # as) newline =
     (if a = ''-h'' \<or> a = ''--help'' then None
      else if a = ''-n'' then echo_options as False
      else Some (newline, a # as))"

text \<open>The loop that prints the arguments with blanks between them.\<close>

fun echo_words :: "string list \<Rightarrow> string" where
  "echo_words [] = []"
| "echo_words (a # as) = a @ (if as \<noteq> [] then '' '' else []) @ echo_words as"

definition echo_main :: "string list \<Rightarrow> ToolWorld \<Rightarrow> int \<times> ToolWorld" where
  "echo_main argv w =
     (case echo_options (tl argv) True of
        None \<Rightarrow> (0, tool_print echo_help w)
      | Some (newline, words) \<Rightarrow>
          (0, tool_print ((if words = [] then [] else echo_words words) @ (if newline then tool_eol else [])) w))"

section \<open>\<open>ifc\<close>\<close>

definition ifc_help :: string where
  "ifc_help = ''Usage: ifc value1 operator value2 command [args ...]'' @ tool_eol
     @ ''Evaluate a condition and execute a command with arguments if true.'' @ tool_eol
     @ ''Operators: ==, !=, <, >, <=, >='' @ tool_eol
     @ ''Options:'' @ tool_eol @ ''  -h, --help  Display this help message'' @ tool_eol
     @ ''Returns 0 if command succeeds or condition is false, 1 on error or command failure.'' @ tool_eol"

text \<open>The loop that builds the command in a buffer of 1024 bytes; \<^term>\<open>None\<close> when it is too long.\<close>

fun ifc_command :: "string list \<Rightarrow> string \<Rightarrow> bool \<Rightarrow> string option" where
  "ifc_command [] command sep = Some command"
| "ifc_command (a # as) command sep =
     (if length command + length a + (if sep then 1 else 0) \<ge> 1024 - 1 then None
      else ifc_command as ((if sep then command @ '' '' else command) @ a) True)"

abbreviation LONG_MAX :: int where "LONG_MAX \<equiv> 9223372036854775807"

text \<open>\<open>strtol(s, &endptr, 10)\<close> with a \<open>long\<close> of 64 bits: the value, and the text at \<open>endptr\<close>, which is the whole
  text when there is no number.\<close>

definition ifc_strtol :: "string \<Rightarrow> int \<times> string" where
  "ifc_strtol s =
     (let t = dropWhile isspace s;
          neg = (hd0 t = CHR ''-'');
          t = (if hd0 t = CHR ''-'' \<or> hd0 t = CHR ''+'' then tl t else t);
          ds = takeWhile isdigit t;
          v = (if neg then - dec_val 0 ds else dec_val 0 ds)
      in if ds = [] then (0, s)
         else (if v > LONG_MAX then LONG_MAX else if v < - LONG_MAX - 1 then - LONG_MAX - 1 else v, drop (length ds) t))"

text \<open>The inner option is \<^term>\<open>None\<close> for an unknown operator.\<close>

definition ifc_condition :: "string \<Rightarrow> int \<Rightarrow> int \<Rightarrow> bool option" where
  "ifc_condition op value1 value2 =
     (if op = ''=='' then Some (value1 = value2)
      else if op = ''!='' then Some (value1 \<noteq> value2)
      else if op = ''<'' then Some (value1 < value2)
      else if op = ''>'' then Some (value1 > value2)
      else if op = ''<='' then Some (value1 \<le> value2)
      else if op = ''>='' then Some (value1 \<ge> value2)
      else None)"

definition ifc_main :: "(string \<Rightarrow> ToolWorld \<Rightarrow> int \<times> ToolWorld) \<Rightarrow> string list \<Rightarrow> ToolWorld \<Rightarrow> int \<times> ToolWorld" where
  "ifc_main system argv w =
     (if length argv < 2 then (1, tool_print ifc_help (tool_error ''Error: Too few arguments'' w))
      else if argv ! 1 = ''-h'' \<or> argv ! 1 = ''--help'' then (0, tool_print ifc_help w)
      else if length argv < 5 then
        (1, tool_print ifc_help
           (tool_error ''Error: Insufficient arguments (need value1, operator, value2, command)'' w))
      else case ifc_command (drop 4 argv) [] False of
        None \<Rightarrow> (1, tool_error ''Error: Command too long (max 1023 characters)'' w)
      | Some command \<Rightarrow>
          (let (value1, end1) = ifc_strtol (argv ! 1) in
           if end1 \<noteq> [] then (1, tool_error (''Error: Invalid number '' @ tool_quote (argv ! 1)) w)
           else
             (let (value2, end2) = ifc_strtol (argv ! 3) in
              if end2 \<noteq> [] then (1, tool_error (''Error: Invalid number '' @ tool_quote (argv ! 3)) w)
              else case ifc_condition (argv ! 2) value1 value2 of
                None \<Rightarrow> (1, tool_print ifc_help (tool_error (''Error: Unknown operator '' @ tool_quote (argv ! 2)) w))
              | Some condition \<Rightarrow>
                  (if condition then (let (result, w) = system command w in ((if result = 0 then 0 else 1), w))
                   else (0, w)))))"

end
