(* ===== verification/ToolsProps.thy ===== *)
theory ToolsProps
  imports Tools
begin

text \<open>
  The small tools: a file moved is a file copied and removed, a file copied to itself is lost, \<open>echo\<close> prints its
  words, and \<open>ifc\<close> runs its command when the comparison of the two numbers holds.
\<close>

section \<open>Files\<close>

lemma helps_two [simp]: "tool_helps [p, a] \<longleftrightarrow> a = ''-h'' \<or> a = ''--help''"
  by (simp add: tool_helps_def)

lemma helps_three [simp]: "tool_helps [p, a, b] \<longleftrightarrow> a = ''-h'' \<or> a = ''--help''"
  by (simp add: tool_helps_def)

lemma cp_copies:
  assumes "a \<noteq> ''-h''" "a \<noteq> ''--help''" "tw_files w a = Some s" "tw_readable w a" "tw_writable w b"
  shows "cp_main [p, a, b] w = (0, w\<lparr>tw_files := (tw_files w)(b \<mapsto> if a = b then [] else s)\<rparr>)"
  using assms by (simp add: cp_main_def Let_def)

lemma cp_rm_is_mv:
  assumes "a \<noteq> ''-h''" "a \<noteq> ''--help''" "a \<noteq> b" "tw_files w a = Some s" "tw_readable w a" "tw_writable w b" "tw_removable w a"
  shows "\<exists>w1. cp_main [p, a, b] w = (0, w1) \<and> rm_main [q, a] w1 = mv_main [r, a, b] w"
  using assms by (simp add: cp_copies rm_main_def tool_remove_def mv_main_def tool_rename_def)

section \<open>Words\<close>

definition blank_joined :: "string list \<Rightarrow> string" where
  "blank_joined ws = (case ws of [] \<Rightarrow> [] | a # as \<Rightarrow> a @ concat (map ((#) (CHR '' '')) as))"

lemma echo_words_joined: "echo_words ws = blank_joined ws"
proof (induction ws)
  case (Cons a ws)
  then show ?case by (cases ws) (simp_all add: blank_joined_def)
qed (simp add: blank_joined_def)

lemma ifc_command_rest:
  "length (cmd @ concat (map ((#) (CHR '' '')) as)) \<le> 1022 \<Longrightarrow>
   ifc_command as cmd True = Some (cmd @ concat (map ((#) (CHR '' '')) as))"
proof (induction as arbitrary: cmd)
  case (Cons a as)
  then show ?case using Cons.IH [of "cmd @ '' '' @ a"] by simp
qed simp

lemma ifc_command_joined: "length (blank_joined ws) \<le> 1022 \<Longrightarrow> ifc_command ws [] False = Some (blank_joined ws)"
  using ifc_command_rest [of "hd ws" "tl ws"] by (cases ws) (simp_all add: blank_joined_def)

lemma number_start:
  assumes "isdigit c"
  shows "\<not> isspace c" "c \<noteq> CHR ''-''" "c \<noteq> CHR ''+''"
  using assms by (auto simp: isdigit_def isspace_def code_def)

lemma strtol_show:
  assumes "- LONG_MAX - 1 \<le> v" "v \<le> LONG_MAX"
  shows "ifc_strtol (show_int v) = (v, [])"
proof -
  obtain c s where s: "show_nat (nat \<bar>v\<bar>) = c # s" "isdigit c"
    using isdigit_show [of "nat \<bar>v\<bar>"] show_nat_neq_Nil [of "nat \<bar>v\<bar>"] by (cases "show_nat (nat \<bar>v\<bar>)") auto
  have t: "takeWhile isdigit (show_nat (nat \<bar>v\<bar>)) = show_nat (nat \<bar>v\<bar>)" using isdigit_show by (simp add: takeWhile_eq_all_conv)
  have d: "dec_val 0 (show_nat (nat \<bar>v\<bar>)) = \<bar>v\<bar>" by simp
  have m: "\<not> isspace (CHR ''-'')" by (simp add: isspace_def code_def)
  show ?thesis
  proof (cases "v < 0")
    case True
    then have i: "show_int v = CHR ''-'' # c # s" using s by (simp add: show_int_def)
    show ?thesis using True assms m t d number_start [OF s(2)] unfolding i s(1) by (simp add: ifc_strtol_def Let_def)
  next
    case False
    then have i: "show_int v = c # s" using s by (simp add: show_int_def)
    show ?thesis using False assms t d number_start [OF s(2)] unfolding i s(1) by (simp add: ifc_strtol_def Let_def)
  qed
qed

lemma show_int_no_help: "show_int v \<noteq> ''-h'' \<and> show_int v \<noteq> ''--help''"
proof -
  have d: "\<forall>c \<in> set (show_nat n). isdigit c" for n by (rule isdigit_show)
  have "\<not> isdigit (CHR ''h'')" "\<not> isdigit (CHR ''-'')" by (simp_all add: isdigit_def code_def)
  then have "CHR ''h'' \<notin> set (show_int v)" using d by (auto simp: show_int_def)
  then show ?thesis by auto
qed

text \<open>
  C40. \<open>ifc\<close> on two decimal numbers of a \<open>long\<close> and a known operator runs the words after them, joined with blanks,
  when the comparison holds, and returns 1 when the command fails; otherwise it returns 0 and does nothing.
\<close>

theorem ifc_runs_its_command:
  assumes "- LONG_MAX - 1 \<le> a" "a \<le> LONG_MAX" "- LONG_MAX - 1 \<le> b" "b \<le> LONG_MAX"
    "(op, R) \<in> {(''=='', (=)), (''!='', (\<noteq>)), (''<'', (<)), (''>'', \<lambda>x y. y < x), (''<='', (\<le>)), (''>='', \<lambda>x y. y \<le> x)}"
    "ws \<noteq> []" "length (blank_joined ws) \<le> 1022" "system (blank_joined ws) w = (r, after)"
  shows "ifc_main system ([p, show_int a, op, show_int b] @ ws) w =
    (if R a b then ((if r = 0 then 0 else 1), after) else (0, w))"
proof -
  have c: "ifc_condition op a b = Some (R a b)" using assms(5) by (auto simp: ifc_condition_def)
  have "\<not> length ([p, show_int a, op, show_int b] @ ws) < 5" using assms(6) by (cases ws) auto
  then show ?thesis
    using assms(8) c ifc_command_joined [OF assms(7)] strtol_show [OF assms(1,2)] strtol_show [OF assms(3,4)] show_int_no_help [of a]
    by (simp add: ifc_main_def)
qed

definition logging_system :: "string \<Rightarrow> ToolWorld \<Rightarrow> int \<times> ToolWorld" where
  "logging_system command w = (0, tool_print command w)"

definition tool_world :: ToolWorld where
  "tool_world = \<lparr>tw_files = Map.empty, tw_readable = (\<lambda>_. True), tw_writable = (\<lambda>_. True), tw_removable = (\<lambda>_. True),
     tw_out = [], tw_err = []\<rparr>"

theorem ifc_runs_its_command_witness:
  "ifc_main logging_system ([''ifc'', show_int 3, ''<'', show_int 12] @ [''echo'', ''less'']) tool_world = (0, tool_print ''echo less'' tool_world)"
  by (subst ifc_runs_its_command [where R = "(<)" and r = 0 and after = "tool_print ''echo less'' tool_world"])
    (simp_all add: logging_system_def blank_joined_def)

section \<open>\<open>echo\<close>\<close>

lemma echo_prints:
  assumes "ws \<noteq> []" "hd ws \<notin> {''-n'', ''-h'', ''--help''}"
  shows "echo_main (p # replicate k ''-n'' @ ws) w =
    (0, tool_print (blank_joined ws @ (if k = 0 then tool_eol else [])) w)"
proof -
  have "echo_options (replicate k ''-n'' @ ws) b = Some (b \<and> k = 0, ws)" for b
    using assms by (induction k arbitrary: b) (cases ws; simp)+
  then show ?thesis using assms(1) by (simp add: echo_main_def echo_words_joined)
qed

end
