(* ===== verification/ShToken.thy ===== *)
theory ShToken
  imports ShAlias
begin

text \<open>
  The shell's tokens, \<open>token.c\<close>, and its log, \<open>logging.c\<close>. A token owns the string of its text; \<open>token_destroy\<close>,
  which only frees it, and the debugging messages are not modelled. The message of a log call is the text that
  \<open>vsnprintf\<close> makes of its arguments; \<open>abort()\<close> is a result of its own here, unlike in the other theories of the
  shell, where it is \<^term>\<open>None\<close>. The environment is an argument of \<open>logging_init\<close>.
\<close>

section \<open>Tokens\<close>

datatype ShellTokenType =
    TOKEN_UNSPECIFIED | TOKEN_WORD | TOKEN_ASSIGNMENT | TOKEN_NEWLINE | TOKEN_IO_NUMBER | TOKEN_OPERATOR | TOKEN_KEYWORD
  | TOKEN_PARAM | TOKEN_DPAREN | TOKEN_BACKTICK | TOKEN_ARITH | TOKEN_TILDE | TOKEN_DLESS | TOKEN_DGREAT | TOKEN_DLESSDASH
  | TOKEN_LESSAND | TOKEN_GREATAND | TOKEN_LESSGREAT | TOKEN_CLOBBER | TOKEN_HEREDOC_DELIM | TOKEN_DSEMI | TOKEN_SEMI
  | TOKEN_AMP | TOKEN_AND_IF | TOKEN_OR_IF | TOKEN_COMMENT | TOKEN_EOF

record ShellToken =
  tk_text :: "String ptr"
  tk_type :: ShellTokenType
  tk_quoted :: int

definition token_type_to_string :: "ShellTokenType \<Rightarrow> string" where
  "token_type_to_string type =
     (case type of
        TOKEN_UNSPECIFIED \<Rightarrow> ''UNSPECIFIED'' | TOKEN_WORD \<Rightarrow> ''WORD'' | TOKEN_ASSIGNMENT \<Rightarrow> ''ASSIGNMENT''
      | TOKEN_NEWLINE \<Rightarrow> ''NEWLINE'' | TOKEN_IO_NUMBER \<Rightarrow> ''IO_NUMBER'' | TOKEN_OPERATOR \<Rightarrow> ''OPERATOR''
      | TOKEN_KEYWORD \<Rightarrow> ''KEYWORD'' | TOKEN_PARAM \<Rightarrow> ''PARAM'' | TOKEN_DPAREN \<Rightarrow> ''DPAREN''
      | TOKEN_BACKTICK \<Rightarrow> ''BACKTICK'' | TOKEN_ARITH \<Rightarrow> ''ARITH'' | TOKEN_TILDE \<Rightarrow> ''TILDE''
      | TOKEN_DLESS \<Rightarrow> ''DLESS'' | TOKEN_DGREAT \<Rightarrow> ''DGREAT'' | TOKEN_DLESSDASH \<Rightarrow> ''DLESSDASH''
      | TOKEN_LESSAND \<Rightarrow> ''LESSAND'' | TOKEN_GREATAND \<Rightarrow> ''GREATAND'' | TOKEN_LESSGREAT \<Rightarrow> ''LESSGREAT''
      | TOKEN_CLOBBER \<Rightarrow> ''CLOBBER'' | TOKEN_HEREDOC_DELIM \<Rightarrow> ''HEREDOC_DELIM'' | TOKEN_DSEMI \<Rightarrow> ''DSEMI''
      | TOKEN_SEMI \<Rightarrow> ''SEMI'' | TOKEN_AMP \<Rightarrow> ''AMP'' | TOKEN_AND_IF \<Rightarrow> ''AND_IF'' | TOKEN_OR_IF \<Rightarrow> ''OR_IF''
      | TOKEN_COMMENT \<Rightarrow> ''COMMENT'' | TOKEN_EOF \<Rightarrow> ''EOF'')"

text \<open>A copy of a text that may be a null pointer.\<close>

definition text_copy :: "('a ptr \<Rightarrow> String ptr option) \<Rightarrow> 'a ptr \<Rightarrow> String ptr option" where
  "text_copy create text = (if text = None then Some None else must (create text))"

definition token_create :: "ShellTokenType \<Rightarrow> String ptr \<Rightarrow> ShellToken ptr option" where
  "token_create type text = do {
     t \<leftarrow> text_copy string_create_from text;
     Some (Some \<lparr>tk_text = t, tk_type = type, tk_quoted = 0\<rparr>) }"

definition token_create_from_cstr :: "ShellTokenType \<Rightarrow> string ptr \<Rightarrow> ShellToken ptr option" where
  "token_create_from_cstr type text = do {
     t \<leftarrow> text_copy string_create_from_cstr text;
     Some (Some \<lparr>tk_text = t, tk_type = type, tk_quoted = 0\<rparr>) }"

definition token_get_type :: "ShellToken ptr \<Rightarrow> ShellTokenType" where
  "token_get_type token = (case token of None \<Rightarrow> TOKEN_UNSPECIFIED | Some t \<Rightarrow> tk_type t)"

definition token_get_text :: "ShellToken ptr \<Rightarrow> String ptr" where
  "token_get_text token = (case token of None \<Rightarrow> None | Some t \<Rightarrow> tk_text t)"

definition token_get_text_cstr :: "ShellToken ptr \<Rightarrow> string ptr option" where
  "token_get_text_cstr token =
     (case token of None \<Rightarrow> Some None | Some t \<Rightarrow> if tk_text t = None then Some None else string_data (tk_text t))"

definition token_get_quoted :: "ShellToken ptr \<Rightarrow> int" where
  "token_get_quoted token = (case token of None \<Rightarrow> 0 | Some t \<Rightarrow> tk_quoted t)"

definition token_set_type :: "ShellToken ptr \<Rightarrow> ShellTokenType \<Rightarrow> int \<times> ShellToken ptr" where
  "token_set_type token type = (case token of None \<Rightarrow> (-1, token) | Some t \<Rightarrow> (0, Some (t\<lparr>tk_type := type\<rparr>)))"

definition token_set_text :: "ShellToken ptr \<Rightarrow> String ptr \<Rightarrow> (int \<times> ShellToken ptr) option" where
  "token_set_text token text =
     (case token of
        None \<Rightarrow> Some (-1, token)
      | Some t \<Rightarrow> do { new_text \<leftarrow> text_copy string_create_from text; Some (0, Some (t\<lparr>tk_text := new_text\<rparr>)) })"

definition token_set_text_cstr :: "ShellToken ptr \<Rightarrow> string ptr \<Rightarrow> (int \<times> ShellToken ptr) option" where
  "token_set_text_cstr token text =
     (case token of
        None \<Rightarrow> Some (-1, token)
      | Some t \<Rightarrow> do { new_text \<leftarrow> text_copy string_create_from_cstr text; Some (0, Some (t\<lparr>tk_text := new_text\<rparr>)) })"

definition token_set_quoted :: "ShellToken ptr \<Rightarrow> int \<Rightarrow> int \<times> ShellToken ptr" where
  "token_set_quoted token quoted = (case token of None \<Rightarrow> (-1, token) | Some t \<Rightarrow> (0, Some (t\<lparr>tk_quoted := quoted\<rparr>)))"

text \<open>\<open>snprintf\<close> into 256 bytes keeps 255 characters.\<close>

definition token_to_string :: "ShellToken ptr \<Rightarrow> String ptr option" where
  "token_to_string token =
     (case token of
        None \<Rightarrow> Some None
      | Some t \<Rightarrow> do {
          d \<leftarrow> (if tk_text t = None then Some (Some ''(null)'') else string_data (tk_text t));
          text_str \<leftarrow> d;
          let buffer = take 255 (''[type='' @ token_type_to_string (tk_type t) @ '', text='' @ [CHR 0x27] @ text_str
                         @ [CHR 0x27] @ '', quoted='' @ show_int (tk_quoted t) @ '']'');
          must (string_create_from_cstr (Some buffer)) })"

section \<open>The log\<close>

datatype LogLevel = LOG_DEBUG | LOG_WARN | LOG_ERROR | LOG_FATAL | LOG_NONE

text \<open>The value of an enumerator.\<close>

primrec log_rank :: "LogLevel \<Rightarrow> nat" where
  "log_rank LOG_DEBUG = 0" | "log_rank LOG_WARN = 1" | "log_rank LOG_ERROR = 2" | "log_rank LOG_FATAL = 3" | "log_rank LOG_NONE = 4"

record LogState =
  log_threshold :: LogLevel
  log_abort_level :: LogLevel
  log_err :: string

definition log_defaults :: LogState where
  "log_defaults = \<lparr>log_threshold = LOG_ERROR, log_abort_level = LOG_NONE, log_err = []\<rparr>"

text \<open>The new state, and whether the program has been aborted.\<close>

definition log_message :: "LogLevel \<Rightarrow> string \<Rightarrow> string \<Rightarrow> LogState \<Rightarrow> bool \<times> LogState" where
  "log_message level level_str message s =
     (if log_rank level < log_rank (log_threshold s) then (False, s)
      else
        (let s = s\<lparr>log_err := log_err s @ ''['' @ level_str @ ''] '' @ take 1023 message @ [CHR 0x0A]\<rparr>
         in (log_rank level \<ge> log_rank (log_abort_level s) \<and> level \<noteq> LOG_NONE, s)))"

text \<open>\<open>strcasecmp(a, b) == 0\<close> in the C locale.\<close>

definition log_lower :: "char \<Rightarrow> char" where
  "log_lower c = (if 65 \<le> code c \<and> code c \<le> 90 then char_of (code c + 32) else c)"

definition log_same :: "string \<Rightarrow> string \<Rightarrow> bool" where
  "log_same a b \<longleftrightarrow> map log_lower a = map log_lower b"

definition log_level_named :: "string \<Rightarrow> LogLevel \<Rightarrow> LogLevel" where
  "log_level_named env old =
     (if log_same env ''DEBUG'' then LOG_DEBUG
      else if log_same env ''WARN'' then LOG_WARN
      else if log_same env ''ERROR'' then LOG_ERROR
      else if log_same env ''FATAL'' then LOG_FATAL
      else if log_same env ''NONE'' then LOG_NONE
      else old)"

definition log_abort_named :: "string \<Rightarrow> LogLevel \<Rightarrow> LogLevel" where
  "log_abort_named env old =
     (if log_same env ''WARN'' then LOG_WARN
      else if log_same env ''ERROR'' then LOG_ERROR
      else if log_same env ''FATAL'' then LOG_FATAL
      else if log_same env ''NONE'' then LOG_NONE
      else old)"

definition logging_init :: "(string \<rightharpoonup> string) \<Rightarrow> LogState \<Rightarrow> LogState" where
  "logging_init getenv s =
     (let s = (case getenv ''LOG_LEVEL'' of None \<Rightarrow> s
               | Some env \<Rightarrow> s\<lparr>log_threshold := log_level_named env (log_threshold s)\<rparr>)
      in case getenv ''LOG_ABORT_LEVEL'' of None \<Rightarrow> s
         | Some env \<Rightarrow> s\<lparr>log_abort_level := log_abort_named env (log_abort_level s)\<rparr>)"

definition log_debug :: "string \<Rightarrow> LogState \<Rightarrow> bool \<times> LogState" where
  "log_debug message s = log_message LOG_DEBUG ''DEBUG'' message s"

definition log_warn :: "string \<Rightarrow> LogState \<Rightarrow> bool \<times> LogState" where
  "log_warn message s = log_message LOG_WARN ''WARN'' message s"

definition log_error :: "string \<Rightarrow> LogState \<Rightarrow> bool \<times> LogState" where
  "log_error message s = log_message LOG_ERROR ''ERROR'' message s"

definition log_fatal :: "string \<Rightarrow> LogState \<Rightarrow> bool \<times> LogState" where
  "log_fatal message s = (let (aborted, s) = log_message LOG_FATAL ''FATAL'' message s in (True, s))"

end
