(* ===== verification/ShTokenProps.thy ===== *)
theory ShTokenProps
  imports ShToken ShStrProps
begin

text \<open>
  Tokens and the log: a token keeps a copy of its text and gives it back, also after its other fields change; a
  fatal message always aborts, any other message aborts only when it is shown.
\<close>

lemma text_copy_ok:
  assumes "no_nul d" "int (length d) + 1 < 2 ^ 30"
  shows "\<exists>s. text_copy string_create_from_cstr (Some d) = Some (Some s) \<and> holds_text s d"
  using create_from_cstr_ok [OF assms] by (auto simp: text_copy_def must_def)

lemma token_text_roundtrip:
  assumes "no_nul d" "int (length d) + 1 < 2 ^ 30"
  shows "\<exists>t. token_create_from_cstr type (Some d) = Some (Some t) \<and> token_get_text_cstr (Some t) = Some (Some d)
    \<and> token_get_type (Some t) = type \<and> token_get_quoted (Some t) = 0"
proof -
  obtain s where s: "text_copy string_create_from_cstr (Some d) = Some (Some s)" "holds_text s d"
    using text_copy_ok [OF assms] by blast
  then show ?thesis
    using string_data_holds [OF s(2)]
    by (simp add: token_create_from_cstr_def token_get_text_cstr_def token_get_type_def token_get_quoted_def)
qed

lemma token_set_text_roundtrip:
  assumes "no_nul d" "int (length d) + 1 < 2 ^ 30"
  shows "\<exists>t'. token_set_text_cstr (Some t) (Some d) = Some (0, Some t') \<and> token_get_text_cstr (Some t') = Some (Some d)
    \<and> token_get_type (Some t') = token_get_type (Some t) \<and> token_get_quoted (Some t') = token_get_quoted (Some t)"
proof -
  obtain s where s: "text_copy string_create_from_cstr (Some d) = Some (Some s)" "holds_text s d"
    using text_copy_ok [OF assms] by blast
  then show ?thesis
    using string_data_holds [OF s(2)]
    by (intro exI [of _ "t\<lparr>tk_text := Some s\<rparr>"])
      (simp add: token_set_text_cstr_def token_get_text_cstr_def token_get_type_def token_get_quoted_def)
qed

text \<open>The log.\<close>

lemma fatal_aborts: "fst (log_fatal message s)"
  by (simp add: log_fatal_def case_prod_beta)

lemma abort_only_shown:
  assumes "fst (log_message level level_str message s)"
  shows "log_err (snd (log_message level level_str message s)) = log_err s @ ''['' @ level_str @ ''] '' @ take 1023 message @ [CHR 0x0A]"
  using assms by (auto simp: log_message_def Let_def split: if_splits)

lemma hidden_level_never_aborts:
  "log_rank LOG_ERROR < log_rank (log_threshold s) \<Longrightarrow> log_error message s = (False, s)"
  by (simp add: log_error_def log_message_def)

end
